(* ===== verification/Prelude.thy ===== *)
theory Prelude
  imports
    Main
    "HOL-Library.AList"
    "HOL-Library.Multiset"
    "HOL-Library.Product_Lexorder"
    "HOL-Library.List_Lexorder"
    "HOL-Library.Char_ord"
begin

text \<open>
  What every component shares: Go maps as association lists with distinct keys, instants
  as integers, the wrap-around of a signed 64-bit integer, and the functions of Go's
  \<open>strings\<close> package that the code uses, on byte strings (a Go string is a sequence of
  bytes, an Isabelle \<^typ>\<open>string\<close> is a list of 8-bit characters, so \<open>len(s)\<close> is
  \<^const>\<open>length\<close>).
\<close>

section \<open>Collections of facts\<close>

named_theorems gomap_simps \<open>lookup, keys and size of a Go map after an update\<close>
named_theorems go_invariants \<open>preservation of the components' state invariants\<close>

section \<open>Instants\<close>

text \<open>
  A \<open>time.Time\<close> is the integer number of nanoseconds since Go's zero instant, so
  \<open>IsZero\<close> is equality with \<open>zero_time\<close>, \<open>Before\<close> and \<open>After\<close> are the strict
  orders, \<open>Add\<close> and \<open>Sub\<close> are plus and minus, and \<open>UTC()\<close>, which changes only the
  zone an instant is printed in, is the identity.
\<close>

type_synonym time = int

definition zero_time :: time where
  "zero_time = 0"

definition nanos_per_second :: int where
  "nanos_per_second = 1000000000"

section \<open>Signed 64-bit integers\<close>

definition wrap64 :: "int \<Rightarrow> int" where
  "wrap64 x = (x + 2 ^ 63) mod 2 ^ 64 - 2 ^ 63"

lemma wrap64_id: "- (2 ^ 63) \<le> x \<Longrightarrow> x < 2 ^ 63 \<Longrightarrow> wrap64 x = x"
  by (simp add: wrap64_def)

lemma wrap64_range: "- (2 ^ 63) \<le> wrap64 x \<and> wrap64 x < 2 ^ 63"
proof -
  have "0 \<le> (x + 2 ^ 63) mod 2 ^ 64" and "(x + 2 ^ 63) mod 2 ^ 64 < 2 ^ 64"
    by simp_all
  then show ?thesis by (simp add: wrap64_def)
qed

section \<open>Go maps\<close>

text \<open>
  A Go map is an association list whose keys are distinct (\<open>wf_map\<close>): \<open>m[k]\<close> is
  \<^term>\<open>map_of m k\<close>, \<open>m[k] = v\<close> is \<open>put\<close>, \<open>delete(m, k)\<close> is \<open>del\<close>, \<open>len(m)\<close>
  is \<^const>\<open>length\<close>. The order of the list is one of the orders in which Go may range
  over the map; a result that could depend on it is either sorted by the code or the
  theorem about it does not mention the order.
\<close>

type_synonym ('k, 'v) gomap = "('k \<times> 'v) list"

definition wf_map :: "('k, 'v) gomap \<Rightarrow> bool" where
  "wf_map m = distinct (map fst m)"

definition put :: "'k \<Rightarrow> 'v \<Rightarrow> ('k, 'v) gomap \<Rightarrow> ('k, 'v) gomap" where
  "put k v m = AList.update k v m"

definition del :: "'k \<Rightarrow> ('k, 'v) gomap \<Rightarrow> ('k, 'v) gomap" where
  "del k m = filter (\<lambda>p. fst p \<noteq> k) m"

definition get_or :: "'v \<Rightarrow> ('k, 'v) gomap \<Rightarrow> 'k \<Rightarrow> 'v" where
  "get_or d m k = (case map_of m k of None \<Rightarrow> d | Some v \<Rightarrow> v)"

lemma put_Nil [simp]: "put k v [] = [(k, v)]"
  by (simp add: put_def)

lemma put_Cons [simp]: "put k v ((a, b) # m) = (if a = k then (k, v) # m else (a, b) # put k v m)"
  by (simp add: put_def)

lemma del_Nil [simp]: "del k [] = []"
  by (simp add: del_def)

lemma del_Cons [simp]: "del k ((a, b) # m) = (if a = k then del k m else (a, b) # del k m)"
  by (simp add: del_def)

lemma map_of_put [simp, gomap_simps]: "map_of (put k v m) = (map_of m)(k \<mapsto> v)"
  by (simp add: put_def update_conv')

lemma map_of_del [simp, gomap_simps]: "map_of (del k m) = (map_of m)(k := None)"
  by (induction m) (auto simp: fun_eq_iff)

lemma wf_map_Nil [simp]: "wf_map []"
  by (simp add: wf_map_def)

lemma wf_map_put [simp, intro, gomap_simps]: "wf_map m \<Longrightarrow> wf_map (put k v m)"
  by (simp add: wf_map_def put_def distinct_update)

lemma wf_map_del [simp, intro, gomap_simps]: "wf_map m \<Longrightarrow> wf_map (del k m)"
  by (simp add: wf_map_def del_def distinct_map_filter)

lemma wf_map_filter [simp, intro, gomap_simps]: "wf_map m \<Longrightarrow> wf_map (filter P m)"
  by (simp add: wf_map_def distinct_map_filter)

lemma keys_put: "fst ` set (put k v m) = insert k (fst ` set m)"
  by (simp add: put_def dom_update)

lemma keys_del: "fst ` set (del k m) = fst ` set m - {k}"
  by (auto simp: del_def)

lemma map_of_None_iff: "map_of m k = None \<longleftrightarrow> k \<notin> fst ` set m"
  by (rule map_of_eq_None_iff)

lemma length_put: "wf_map m \<Longrightarrow> length (put k v m) =
    (if map_of m k = None then Suc (length m) else length m)"
  by (induction m) (auto simp: wf_map_def)

lemma length_put_le: "length (put k v m) \<le> Suc (length m)"
  by (induction m) auto

lemma length_put_None: "map_of m k = None \<Longrightarrow> length (put k v m) = Suc (length m)"
  by (induction m) auto

lemma length_put_Some: "map_of m k = Some w \<Longrightarrow> length (put k v m) = length m"
  by (induction m) (auto split: if_splits)

lemma length_del_le: "length (del k m) \<le> length m"
  by (simp add: del_def)

lemma set_put: "wf_map m \<Longrightarrow> set (put k v m) = insert (k, v) {p \<in> set m. fst p \<noteq> k}"
  by (induction m) (fastforce simp: wf_map_def split: if_splits)+

lemma set_put_subset: "set (put k v m) \<subseteq> insert (k, v) (set m)"
  by (induction m) (auto split: if_splits)

lemma set_del: "set (del k m) = {p \<in> set m. fst p \<noteq> k}"
  by (auto simp: del_def)

lemma in_set_map_of: "wf_map m \<Longrightarrow> (k, v) \<in> set m \<longleftrightarrow> map_of m k = Some v"
  by (auto simp: wf_map_def map_of_is_SomeI dest: map_of_SomeD)

lemma wf_map_values: "wf_map m \<Longrightarrow> v \<in> snd ` set m \<longleftrightarrow> (\<exists>k. map_of m k = Some v)"
  by (simp add: in_set_map_of [symmetric]) force

lemma get_or_put [simp]: "get_or d (put k v m) k' = (if k' = k then v else get_or d m k')"
  by (simp add: get_or_def)

lemma map_of_filter: "wf_map m \<Longrightarrow> map_of (filter P m) k =
    (case map_of m k of None \<Rightarrow> None | Some v \<Rightarrow> if P (k, v) then Some v else None)"
proof (induction m)
  case (Cons p m)
  obtain a b where p: "p = (a, b)" by (cases p)
  from Cons.prems have wf: "wf_map m" and fresh: "a \<notin> fst ` set m"
    by (auto simp: wf_map_def p)
  from fresh have none: "map_of m a = None" by (simp add: map_of_None_iff)
  with Cons.IH [OF wf] have "k = a \<Longrightarrow> map_of (filter P m) k = None" by simp
  with Cons.IH [OF wf] none show ?case by (auto simp: p split: option.splits)
qed simp

text \<open>A range over a map visits its entries in some order.\<close>

definition map_order :: "('k \<times> 'v) list \<Rightarrow> ('k \<times> 'v) list \<Rightarrow> bool" where
  "map_order m ranged \<longleftrightarrow> mset ranged = mset m"

lemma map_order_set: "map_order m ranged \<Longrightarrow> set ranged = set m"
  by (metis map_order_def set_mset_mset)

lemma map_order_id [simp]: "map_order m m"
  by (simp add: map_order_def)

section \<open>Byte strings: \<open>strings.TrimSpace\<close> and friends\<close>

text \<open>
  The white space of Unicode, each rune as its UTF-8 bytes. \<open>strings.TrimSpace\<close> removes
  a longest run of these from both ends; a byte sequence at an end is one of these runes
  exactly when Go decodes it as one, so removing encodings is removing runes.
\<close>

definition space_runes :: "string list" where
  "space_runes =
     [[CHR 0x09], [CHR 0x0A], [CHR 0x0B], [CHR 0x0C], [CHR 0x0D], [CHR 0x20],
      [CHR 0xC2, CHR 0x85], [CHR 0xC2, CHR 0xA0], [CHR 0xE1, CHR 0x9A, CHR 0x80],
      [CHR 0xE2, CHR 0x80, CHR 0x80], [CHR 0xE2, CHR 0x80, CHR 0x81],
      [CHR 0xE2, CHR 0x80, CHR 0x82], [CHR 0xE2, CHR 0x80, CHR 0x83],
      [CHR 0xE2, CHR 0x80, CHR 0x84], [CHR 0xE2, CHR 0x80, CHR 0x85],
      [CHR 0xE2, CHR 0x80, CHR 0x86], [CHR 0xE2, CHR 0x80, CHR 0x87],
      [CHR 0xE2, CHR 0x80, CHR 0x88], [CHR 0xE2, CHR 0x80, CHR 0x89],
      [CHR 0xE2, CHR 0x80, CHR 0x8A], [CHR 0xE2, CHR 0x80, CHR 0xA8],
      [CHR 0xE2, CHR 0x80, CHR 0xA9], [CHR 0xE2, CHR 0x80, CHR 0xAF],
      [CHR 0xE2, CHR 0x81, CHR 0x9F], [CHR 0xE3, CHR 0x80, CHR 0x80]]"

definition starts_with :: "string \<Rightarrow> string \<Rightarrow> bool" where
  "starts_with p s = (take (length p) s = p)"

definition lead_rune :: "string list \<Rightarrow> string \<Rightarrow> nat" where
  "lead_rune rs s = (case filter (\<lambda>r. r \<noteq> [] \<and> starts_with r s) rs of [] \<Rightarrow> 0 | r # _ \<Rightarrow> length r)"

lemma lead_rune_pos: "lead_rune rs s \<noteq> 0 \<Longrightarrow> \<exists>r \<in> set rs. r \<noteq> [] \<and> starts_with r s \<and> lead_rune rs s = length r"
  by (auto simp: lead_rune_def split: list.splits dest!: filter_eq_ConsD)

lemma lead_rune_0_iff: "lead_rune rs s = 0 \<longleftrightarrow> (\<forall>r \<in> set rs. r \<noteq> [] \<longrightarrow> \<not> starts_with r s)"
  by (auto simp: lead_rune_def filter_empty_conv split: list.splits dest!: filter_eq_ConsD)

lemma lead_rune_Nil: "lead_rune rs [] = 0"
  by (auto simp: lead_rune_0_iff starts_with_def)

function trim_runes :: "string list \<Rightarrow> string \<Rightarrow> string" where
  "trim_runes rs s = (if lead_rune rs s = 0 then s else trim_runes rs (drop (lead_rune rs s) s))"
  by pat_completeness auto
termination
proof (relation "measure (\<lambda>(rs, s). length s)")
  fix rs s
  assume "lead_rune rs s \<noteq> 0"
  moreover have "s \<noteq> []" using calculation lead_rune_Nil by metis
  ultimately show "((rs, drop (lead_rune rs s) s), rs, s) \<in> measure (\<lambda>(rs, s). length s)"
    by (cases s) auto
qed simp

declare trim_runes.simps [simp del]

definition trim_left :: "string \<Rightarrow> string" where
  "trim_left s = trim_runes space_runes s"

definition trim_right :: "string \<Rightarrow> string" where
  "trim_right s = rev (trim_runes (map rev space_runes) (rev s))"

definition trim_space :: "string \<Rightarrow> string" where
  "trim_space s = trim_right (trim_left s)"

lemma lead_rune_trim_runes [simp]: "lead_rune rs (trim_runes rs s) = 0"
  by (induction rs s rule: trim_runes.induct) (simp add: trim_runes.simps)

lemma trim_runes_idle: "lead_rune rs s = 0 \<Longrightarrow> trim_runes rs s = s"
  by (simp add: trim_runes.simps)

lemma trim_runes_suffix: "\<exists>p. s = p @ trim_runes rs s"
proof (induction rs s rule: trim_runes.induct)
  case (1 rs s)
  show ?case
  proof (cases "lead_rune rs s = 0")
    case True
    then show ?thesis by (simp add: trim_runes_idle)
  next
    case False
    with 1 obtain p where "drop (lead_rune rs s) s = p @ trim_runes rs (drop (lead_rune rs s) s)" by blast
    then have "s = (take (lead_rune rs s) s @ p) @ trim_runes rs (drop (lead_rune rs s) s)"
      by (metis append.assoc append_take_drop_id)
    then have "s = (take (lead_rune rs s) s @ p) @ trim_runes rs s"
      by (subst trim_runes.simps) (use False in simp)
    then show ?thesis by blast
  qed
qed

lemma starts_with_append: "starts_with r s \<Longrightarrow> starts_with r (s @ t)"
  by (auto simp: starts_with_def) (metis nat_le_linear take_all_iff)

lemma lead_rune_0_prefix: "lead_rune rs (s @ t) = 0 \<Longrightarrow> lead_rune rs s = 0"
  by (auto simp: lead_rune_0_iff dest: starts_with_append)

lemma trim_space_idem [simp]: "trim_space (trim_space s) = trim_space s"
proof -
  define u where "u = trim_left s"
  define v where "v = trim_right u"
  obtain p where p: "rev u = p @ rev v"
    using trim_runes_suffix [of "rev u" "map rev space_runes"] by (auto simp: v_def trim_right_def)
  then have "u = v @ rev p" by (metis rev_append rev_rev_ident)
  moreover have "lead_rune space_runes u = 0" by (simp add: u_def trim_left_def)
  ultimately have "lead_rune space_runes v = 0" by (metis lead_rune_0_prefix)
  then have "trim_left v = v" by (simp add: trim_left_def trim_runes_idle)
  moreover have "trim_right v = v"
    by (simp add: v_def trim_right_def trim_runes_idle)
  ultimately show ?thesis by (simp add: trim_space_def u_def v_def)
qed

lemma length_trim_runes_le: "length (trim_runes rs s) \<le> length s"
  using trim_runes_suffix [of s rs] by (metis le_add2 length_append)

lemma length_trim_space_le: "length (trim_space s) \<le> length s"
  unfolding trim_space_def trim_right_def trim_left_def length_rev
  by (rule order_trans [OF length_trim_runes_le]) (simp add: length_trim_runes_le)

text \<open>A printable ASCII character at both ends leaves nothing to trim.\<close>

definition plain_char :: "char \<Rightarrow> bool" where
  "plain_char c \<longleftrightarrow> 33 \<le> (of_char c :: nat) \<and> (of_char c :: nat) \<le> 126"

lemma trim_runes_plain:
  assumes "s = [] \<or> plain_char (hd s)" and "\<forall>r \<in> set rs. r \<noteq> [] \<longrightarrow> \<not> plain_char (hd r)"
  shows "trim_runes rs s = s"
proof -
  have "\<not> starts_with r s" if "r \<in> set rs" "r \<noteq> []" for r
  proof
    assume sw: "starts_with r s"
    then have "s \<noteq> []" using that(2) by (auto simp: starts_with_def)
    moreover have "hd s = hd r" using sw that(2) \<open>s \<noteq> []\<close> by (cases r; cases s) (auto simp: starts_with_def)
    ultimately show False using assms that by auto
  qed
  then show ?thesis by (intro trim_runes_idle) (simp add: lead_rune_0_iff)
qed

lemma trim_space_plain:
  assumes "s = [] \<or> plain_char (hd s) \<and> plain_char (last s)"
  shows "trim_space s = s"
proof -
  have "trim_left s = s" unfolding trim_left_def
    by (rule trim_runes_plain) (use assms in \<open>auto simp: space_runes_def plain_char_def\<close>)
  moreover have "trim_right s = s" unfolding trim_right_def
    by (subst trim_runes_plain) (use assms in \<open>auto simp: space_runes_def plain_char_def hd_rev\<close>)
  ultimately show ?thesis by (simp add: trim_space_def)
qed

definition ascii_lower :: "char \<Rightarrow> char" where
  "ascii_lower c = (if 65 \<le> (of_char c :: nat) \<and> (of_char c :: nat) \<le> 90 then char_of (of_char c + (32 :: nat)) else c)"

section \<open>Numbers and bytes as text\<close>

text \<open>\<open>fmt\<close>'s \<open>%d\<close> of a natural number, and \<open>hex.EncodeToString\<close>.\<close>

definition digit_char :: "nat \<Rightarrow> char" where
  "digit_char d = char_of (48 + d)"

function show_nat :: "nat \<Rightarrow> string" where
  "show_nat n = (if n < 10 then [digit_char n] else show_nat (n div 10) @ [digit_char (n mod 10)])"
  by pat_completeness auto
termination
  by (relation "measure (\<lambda>n. n)") auto

declare show_nat.simps [simp del]

definition is_digit :: "char \<Rightarrow> bool" where
  "is_digit c \<longleftrightarrow> 48 \<le> (of_char c :: nat) \<and> (of_char c :: nat) \<le> 57"

definition digit_val :: "char \<Rightarrow> nat" where
  "digit_val c = of_char c - 48"

definition read_nat :: "string \<Rightarrow> nat" where
  "read_nat s = foldl (\<lambda>n c. 10 * n + digit_val c) 0 s"

lemma is_digit_digit_char [simp]: "d < 10 \<Longrightarrow> is_digit (digit_char d)"
  by (simp add: is_digit_def digit_char_def)

lemma digit_val_digit_char [simp]: "d < 10 \<Longrightarrow> digit_val (digit_char d) = d"
  by (simp add: digit_val_def digit_char_def)

lemma show_nat_digits: "\<forall>c \<in> set (show_nat n). is_digit c"
proof (induction n rule: show_nat.induct)
  case (1 n)
  then show ?case
    by (cases "n < 10") (simp_all add: show_nat.simps [of n])
qed

lemma show_nat_nonempty [simp]: "show_nat n \<noteq> []"
  by (simp add: show_nat.simps)

lemma read_show_nat [simp]: "read_nat (show_nat n) = n"
proof (induction n rule: show_nat.induct)
  case (1 n)
  show ?case
  proof (cases "n < 10")
    case True
    then show ?thesis by (simp add: show_nat.simps [of n] read_nat_def)
  next
    case False
    then have "read_nat (show_nat n) = 10 * read_nat (show_nat (n div 10)) + n mod 10"
      by (simp add: show_nat.simps [of n] read_nat_def)
    also have "\<dots> = n" using 1 False by simp
    finally show ?thesis .
  qed
qed

definition hex_digit :: "nat \<Rightarrow> char" where
  "hex_digit d = (if d < 10 then char_of (48 + d) else char_of (87 + d))"

definition hex_byte :: "char \<Rightarrow> string" where
  "hex_byte c = [hex_digit (of_char c div 16), hex_digit (of_char c mod 16)]"

definition hex_encode :: "string \<Rightarrow> string" where
  "hex_encode s = concat (map hex_byte s)"

text \<open>\<open>Unix()\<close>: whole seconds since 1970, rounded down.\<close>

definition unix_seconds :: "time \<Rightarrow> int" where
  "unix_seconds t = t div nanos_per_second - 62135596800"

lemma unix_seconds_mono: "a \<le> b \<Longrightarrow> unix_seconds a \<le> unix_seconds b"
  by (simp add: unix_seconds_def nanos_per_second_def zdiv_mono1)

lemma unix_seconds_add: "unix_seconds (t + k * nanos_per_second) = unix_seconds t + k"
  by (simp add: unix_seconds_def nanos_per_second_def)

text \<open>\<open>strings.Split\<close> with a one-byte separator; it never yields an empty slice.\<close>

fun split_on :: "char \<Rightarrow> string \<Rightarrow> string list" where
  "split_on c [] = [[]]"
| "split_on c (x # xs) =
     (if x = c then [] # split_on c xs
      else case split_on c xs of [] \<Rightarrow> [[x]] | p # ps \<Rightarrow> (x # p) # ps)"

lemma split_on_nonempty [simp]: "split_on c xs \<noteq> []"
  by (induction xs) (auto split: list.splits)

lemma split_on_none: "c \<notin> set xs \<Longrightarrow> split_on c xs = [xs]"
  by (induction xs) auto

lemma split_on_append: "c \<notin> set xs \<Longrightarrow> split_on c (xs @ c # ys) = xs # split_on c ys"
  by (induction xs) auto

text \<open>\<open>strings.Join\<close> with a one-byte separator.\<close>

fun join_on :: "char \<Rightarrow> string list \<Rightarrow> string" where
  "join_on c [] = []"
| "join_on c [p] = p"
| "join_on c (p # q # ps) = p @ c # join_on c (q # ps)"

lemma join_on_Cons: "ps \<noteq> [] \<Longrightarrow> join_on c (p # ps) = p @ c # join_on c ps"
  by (cases ps) simp_all

lemma join_on_Cons_head: "join_on c ((x # p) # ps) = x # join_on c (p # ps)"
  by (cases ps) simp_all

lemma join_split [simp]: "join_on c (split_on c s) = s"
proof (induction s)
  case (Cons x xs)
  obtain q qs where "split_on c xs = q # qs" by (cases "split_on c xs") simp_all
  with Cons.IH show ?case by (simp add: join_on_Cons_head)
qed simp

text \<open>\<open>strconv.ParseInt(s, 10, 64)\<close> and \<open>strconv.Atoi\<close>.\<close>

definition parseInt64 :: "string \<Rightarrow> int option" where
  "parseInt64 s =
     (let neg = starts_with ''-'' s;
          digits = (if neg \<or> starts_with ''+'' s then tl s else s);
          value = (if neg then - int (read_nat digits) else int (read_nat digits))
      in if digits = '''' \<or> \<not> list_all is_digit digits \<or> value < - (2 ^ 63) \<or> 2 ^ 63 \<le> value then None
         else Some value)"

definition show_int :: "int \<Rightarrow> string" where
  "show_int n = (if n < 0 then ''-'' @ show_nat (nat (- n)) else show_nat (nat n))"

lemma show_nat_no_eol: "c \<in> {CHR 0x0A, CHR 0x0D, CHR ''-'', CHR ''+''} \<Longrightarrow> c \<notin> set (show_nat n)"
  using show_nat_digits [of n] by (auto simp: is_digit_def)

lemma show_nat_hd: "\<not> starts_with ''-'' (show_nat n)" "\<not> starts_with ''+'' (show_nat n)"
proof -
  obtain c cs where s: "show_nat n = c # cs" by (cases "show_nat n") simp_all
  have "is_digit c" using show_nat_digits [of n] by (simp add: s)
  then show "\<not> starts_with ''-'' (show_nat n)" "\<not> starts_with ''+'' (show_nat n)"
    by (auto simp: s starts_with_def is_digit_def)
qed

lemma parseInt64_show_nat: "int n < 2 ^ 63 \<Longrightarrow> parseInt64 (show_nat n) = Some (int n)"
proof -
  assume n: "int n < 2 ^ 63"
  have "list_all is_digit (show_nat n)" using show_nat_digits by (simp add: list_all_iff)
  with n show ?thesis by (simp add: parseInt64_def show_nat_hd Let_def)
qed

lemma parseInt64_show_int:
  assumes "- (2 ^ 63) \<le> n" and "n < 2 ^ 63"
  shows "parseInt64 (show_int n) = Some n"
proof (cases "n < 0")
  case True
  have "list_all is_digit (show_nat (nat (- n)))" using show_nat_digits by (simp add: list_all_iff)
  with True assms show ?thesis by (simp add: parseInt64_def show_int_def starts_with_def Let_def)
next
  case False
  with assms parseInt64_show_nat [of "nat n"] show ?thesis by (simp add: show_int_def)
qed

end
