(* ===== verification/Httpx.thy ===== *)
theory Httpx
  imports Prelude
begin

text \<open>
  The HTTP plumbing of the cloud backend (\<open>backend/internal/httpx/httpx.go\<close>) and the
  context keys of its packages: what a handler writes, how a body is decoded, how the
  authenticated user travels from the bearer middleware to the handlers. A request body is
  decoded by \<open>encoding/json\<close>, whose verdict on the bytes is the argument \<open>decode\<close>.
\<close>

section \<open>Responses\<close>

datatype 'b http_response =
    WriteJSON nat 'b
  | WriteError nat string

abbreviation StatusOK :: nat where "StatusOK \<equiv> 200"
abbreviation StatusCreated :: nat where "StatusCreated \<equiv> 201"
abbreviation StatusAccepted :: nat where "StatusAccepted \<equiv> 202"
abbreviation StatusNoContent :: nat where "StatusNoContent \<equiv> 204"
abbreviation StatusBadRequest :: nat where "StatusBadRequest \<equiv> 400"
abbreviation StatusUnauthorized :: nat where "StatusUnauthorized \<equiv> 401"
abbreviation StatusForbidden :: nat where "StatusForbidden \<equiv> 403"
abbreviation StatusNotFound :: nat where "StatusNotFound \<equiv> 404"
abbreviation StatusConflict :: nat where "StatusConflict \<equiv> 409"
abbreviation StatusGone :: nat where "StatusGone \<equiv> 410"
abbreviation StatusRequestEntityTooLarge :: nat where "StatusRequestEntityTooLarge \<equiv> 413"
abbreviation StatusUnprocessableEntity :: nat where "StatusUnprocessableEntity \<equiv> 422"
abbreviation StatusTooManyRequests :: nat where "StatusTooManyRequests \<equiv> 429"
abbreviation StatusInternalServerError :: nat where "StatusInternalServerError \<equiv> 500"
abbreviation StatusNotImplemented :: nat where "StatusNotImplemented \<equiv> 501"
abbreviation StatusInsufficientStorage :: nat where "StatusInsufficientStorage \<equiv> 507"

fun statusOf :: "'b http_response \<Rightarrow> nat" where
  "statusOf (WriteJSON st _) = st"
| "statusOf (WriteError st _) = st"

section \<open>Request bodies\<close>

definition MaxBodyBytes :: nat where
  "MaxBodyBytes = 8388608"

text \<open>
  The first \<open>Decode\<close> on the limited body: a value and the bytes after it, a syntax or
  type error, or the end of the input before a value is complete.
\<close>

datatype 'a json_decode = DecodeOk 'a string | DecodeBad string | DecodeShort string

definition json_space :: "char \<Rightarrow> bool" where
  "json_space c \<longleftrightarrow> c \<in> {CHR 0x20, CHR 0x09, CHR 0x0A, CHR 0x0D}"

definition ReadJSON :: "(string \<Rightarrow> 'a json_decode) \<Rightarrow> string \<Rightarrow> string + 'a" where
  "ReadJSON decode body =
     (case decode (take MaxBodyBytes body) of
        DecodeOk v rest \<Rightarrow>
          if list_all json_space rest \<and> length body \<le> MaxBodyBytes then Inr v
          else Inl ''invalid JSON body: trailing data after the object''
      | DecodeBad e \<Rightarrow> Inl (''invalid JSON body: '' @ e)
      | DecodeShort e \<Rightarrow>
          if length body > MaxBodyBytes then Inl ''request body too large (limit 8388608 bytes)''
          else Inl (''invalid JSON body: '' @ e))"

section \<open>The request context\<close>

text \<open>
  \<open>context.WithValue\<close> compares keys by type and value, so the keys of two packages differ
  even where both wrap the text \<open>"user_id"\<close>. A context is the list of its bindings,
  newest first; every binding the code makes holds a string.
\<close>

datatype ctx_key = HttpxUserID | UsersUserID | DevicesUserID | CollabUserID | MarketUserID | TelemetryUserID

type_synonym req_context = "(ctx_key \<times> string) list"

definition ctxString :: "ctx_key \<Rightarrow> req_context \<Rightarrow> string" where
  "ctxString key ctx = (case map_of ctx key of None \<Rightarrow> '''' | Some v \<Rightarrow> v)"

definition WithUserID :: "req_context \<Rightarrow> string \<Rightarrow> req_context" where
  "WithUserID ctx userID = (HttpxUserID, userID) # ctx"

definition UserIDFrom :: "req_context \<Rightarrow> string" where
  "UserIDFrom ctx = ctxString HttpxUserID ctx"

section \<open>The bearer token\<close>

text \<open>
  \<open>strings.EqualFold\<close> against the prefix: none of its letters folds to a rune outside
  ASCII, so folding the ASCII letters decides it.
\<close>

definition bearerPrefix :: string where
  "bearerPrefix = ''Bearer ''"

definition BearerToken :: "string \<Rightarrow> string" where
  "BearerToken header =
     (if length header \<le> length bearerPrefix \<or>
         map ascii_lower (take (length bearerPrefix) header) \<noteq> map ascii_lower bearerPrefix
      then '''' else trim_space (drop (length bearerPrefix) header))"

lemma UserIDFrom_WithUserID [simp]: "UserIDFrom (WithUserID ctx u) = u"
  by (simp add: UserIDFrom_def WithUserID_def ctxString_def)

lemma ctxString_WithUserID: "key \<noteq> HttpxUserID \<Longrightarrow> ctxString key (WithUserID ctx u) = ctxString key ctx"
  by (simp add: ctxString_def WithUserID_def)

end
