(* ===== verification/SyncStore.thy ===== *)
theory SyncStore
  imports Httpx
begin

text \<open>
  The record store of the cloud backend (\<open>backend/sync/store.go\<close>): per user and per
  scope, versioned records with server-assigned revisions, the push conflict rule, the
  incremental pull and the watermark; and the push path of its HTTP handler
  (\<open>backend/sync/handler.go\<close>) with the notifications it sends to the realtime observer.
  The payload of a record is a type parameter: the store never looks into it.
\<close>

section \<open>Data\<close>

record 'p sync_record =
  recScope :: string
  recID :: string
  recRevision :: int
  recUpdatedAt :: time
  recDeleted :: bool
  recPayload :: 'p

definition ValidScopes :: "string list" where
  "ValidScopes =
     [''favorites'', ''playlists'', ''settings'', ''history'', ''queueState'',
      ''downloadPreferences'', ''podcasts'', ''social'']"

definition MaxRecordsPerScope :: nat where
  "MaxRecordsPerScope = 10000"

datatype sync_error = ErrScopeUnknown | ErrScopeFull | ErrRecordInvalid

record 'p stored_record =
  storedRecord :: "'p sync_record"
  clientRevision :: int
  clientUpdatedAt :: time

record 'p scope_state =
  scopeRecords :: "(string, 'p stored_record) gomap"
  maxRevision :: int

type_synonym 'p sync_store = "(string, (string, 'p scope_state) gomap) gomap"

record push_result =
  resRevision :: int
  resAccepted :: bool

definition new_scope :: "'p scope_state" where
  "new_scope = \<lparr>scopeRecords = [], maxRevision = 0\<rparr>"

definition scopeFor :: "'p sync_store \<Rightarrow> string \<Rightarrow> string \<Rightarrow> 'p scope_state" where
  "scopeFor s userID scope =
     (case map_of s userID of
        None \<Rightarrow> new_scope
      | Some byScope \<Rightarrow> (case map_of byScope scope of None \<Rightarrow> new_scope | Some state \<Rightarrow> state))"

text \<open>
  In Go \<open>scopeFor\<close> also inserts the empty state it makes, and \<open>Push\<close> then updates the
  state through its pointer; \<open>putScope\<close> is that write.
\<close>

definition putScope :: "'p sync_store \<Rightarrow> string \<Rightarrow> string \<Rightarrow> 'p scope_state \<Rightarrow> 'p sync_store" where
  "putScope s userID scope state =
     put userID (put scope state (get_or [] s userID)) s"

section \<open>The conflict rule\<close>

definition wins :: "'p sync_record \<Rightarrow> 'p sync_record \<Rightarrow> bool" where
  "wins candidate current =
     (if recDeleted candidate \<and> \<not> recDeleted current then
        \<not> recUpdatedAt candidate < recUpdatedAt current
      else if recDeleted current \<and> \<not> recDeleted candidate then
        recUpdatedAt candidate > recUpdatedAt current
      else if recUpdatedAt candidate > recUpdatedAt current then True
      else if recUpdatedAt candidate < recUpdatedAt current then False
      else if recRevision candidate > recRevision current then True
      else if recRevision candidate < recRevision current then False
      else False)"

section \<open>Push\<close>

text \<open>
  One iteration of the loop of \<open>Push\<close>. \<open>now\<close> is the clock reading the iteration
  would take. An accepted record is stored with the next server revision, next to the
  revision and the time the client sent.
\<close>

definition currentOf :: "'p stored_record \<Rightarrow> 'p sync_record" where
  "currentOf existing =
     (storedRecord existing)\<lparr>recRevision := clientRevision existing,
                             recUpdatedAt := clientUpdatedAt existing\<rparr>"

definition normalizeIncoming :: "time \<Rightarrow> string \<Rightarrow> 'p sync_record \<Rightarrow> 'p sync_record" where
  "normalizeIncoming now scope r =
     r\<lparr>recUpdatedAt := (if recUpdatedAt r = zero_time then now else recUpdatedAt r),
       recScope := scope\<rparr>"

definition acceptRecord :: "'p sync_record \<Rightarrow> 'p scope_state \<Rightarrow> 'p scope_state" where
  "acceptRecord r state =
     (let rev = maxRevision state + 1 in
      state\<lparr>maxRevision := rev,
            scopeRecords :=
              put (recID r)
                \<lparr>storedRecord = r\<lparr>recRevision := rev\<rparr>,
                 clientRevision = recRevision r,
                 clientUpdatedAt = recUpdatedAt r\<rparr>
                (scopeRecords state)\<rparr>)"

definition pushOne ::
  "time \<Rightarrow> string \<Rightarrow> 'p sync_record \<Rightarrow> 'p scope_state \<Rightarrow> sync_error + ('p scope_state \<times> push_result)" where
  "pushOne now scope incoming state =
     (if recID incoming = '''' then Inl ErrRecordInvalid
      else
        let r = normalizeIncoming now scope incoming;
            accepted = acceptRecord r state;
            ack = \<lparr>resRevision = maxRevision accepted, resAccepted = True\<rparr>
        in case map_of (scopeRecords state) (recID r) of
             Some existing \<Rightarrow>
               if \<not> wins r (currentOf existing)
               then Inr (state, \<lparr>resRevision = recRevision (storedRecord existing), resAccepted = False\<rparr>)
               else Inr (accepted, ack)
           | None \<Rightarrow>
               if length (scopeRecords state) \<ge> MaxRecordsPerScope then Inl ErrScopeFull
               else Inr (accepted, ack))"

text \<open>
  The loop. \<open>clock i\<close> is what the store's clock reads in iteration \<open>i\<close>. An error stops
  it; the records already applied stay applied, because the state is updated in place.
\<close>

fun pushLoop ::
  "(nat \<Rightarrow> time) \<Rightarrow> string \<Rightarrow> nat \<Rightarrow> 'p sync_record list \<Rightarrow> 'p scope_state \<Rightarrow> (string, push_result) gomap
    \<Rightarrow> (sync_error + (string, push_result) gomap) \<times> 'p scope_state" where
  "pushLoop clock scope i [] state results = (Inr results, state)"
| "pushLoop clock scope i (r # rs) state results =
     (case pushOne (clock i) scope r state of
        Inl e \<Rightarrow> (Inl e, state)
      | Inr (state', res) \<Rightarrow> pushLoop clock scope (Suc i) rs state' (put (recID r) res results))"

definition Push ::
  "(nat \<Rightarrow> time) \<Rightarrow> string \<Rightarrow> string \<Rightarrow> 'p sync_record list \<Rightarrow> 'p sync_store
    \<Rightarrow> (sync_error + (string, push_result) gomap) \<times> 'p sync_store" where
  "Push clock userID scope incoming s =
     (if scope \<notin> set ValidScopes then (Inl ErrScopeUnknown, s)
      else case pushLoop clock scope 0 incoming (scopeFor s userID scope) [] of
             (res, state) \<Rightarrow> (res, putScope s userID scope state))"

section \<open>Pull and the watermark\<close>

definition pullScope :: "'p scope_state \<Rightarrow> int \<Rightarrow> 'p sync_record list" where
  "pullScope state since =
     sort_key recRevision
       (filter (\<lambda>r. recRevision r > since) (map (storedRecord \<circ> snd) (scopeRecords state)))"

definition Pull :: "string \<Rightarrow> string \<Rightarrow> int \<Rightarrow> 'p sync_store \<Rightarrow> sync_error + 'p sync_record list" where
  "Pull userID scope since s =
     (if scope \<notin> set ValidScopes then Inl ErrScopeUnknown
      else case map_of s userID of
             None \<Rightarrow> Inr []
           | Some byScope \<Rightarrow>
               (case map_of byScope scope of
                  None \<Rightarrow> Inr []
                | Some state \<Rightarrow> Inr (pullScope state since)))"

definition Watermark :: "string \<Rightarrow> string \<Rightarrow> 'p sync_store \<Rightarrow> int" where
  "Watermark userID scope s =
     (case map_of s userID of
        None \<Rightarrow> 0
      | Some byScope \<Rightarrow>
          (case map_of byScope scope of None \<Rightarrow> 0 | Some state \<Rightarrow> maxRevision state))"

section \<open>Last-writer-wins registers, abstractly\<close>

text \<open>
  What the store promises: each record id is a register that keeps the record which beats
  every other record pushed under that id. \<open>lwwPut\<close> is one write of such a register
  family. The locale collects what follows when \<open>beats\<close> compares a rank in a linear order.
\<close>

definition lwwPut :: "('r \<Rightarrow> 'r \<Rightarrow> bool) \<Rightarrow> ('r \<Rightarrow> 'k) \<Rightarrow> 'r \<Rightarrow> ('k \<rightharpoonup> 'r) \<Rightarrow> ('k \<rightharpoonup> 'r)" where
  "lwwPut beats key r m =
     (case m (key r) of
        None \<Rightarrow> m(key r \<mapsto> r)
      | Some c \<Rightarrow> if beats r c then m(key r \<mapsto> r) else m)"

locale lww_register =
  fixes beats :: "'r \<Rightarrow> 'r \<Rightarrow> bool"
    and rank :: "'r \<Rightarrow> 'o::linorder"
    and key :: "'r \<Rightarrow> 'k"
  assumes beats_rank: "beats a b \<longleftrightarrow> rank b < rank a"
begin

lemma put_idem: "lwwPut beats key r (lwwPut beats key r m) = lwwPut beats key r m"
  by (auto simp: lwwPut_def beats_rank split: option.splits)

lemma put_lookup: "lwwPut beats key r m k =
    (if k = key r then Some (case m k of None \<Rightarrow> r | Some c \<Rightarrow> if rank c < rank r then r else c) else m k)"
  by (auto simp: lwwPut_def beats_rank split: option.splits)

lemma put_commute:
  assumes "key a = key b \<Longrightarrow> rank a = rank b \<Longrightarrow> a = b"
  shows "lwwPut beats key a \<circ> lwwPut beats key b = lwwPut beats key b \<circ> lwwPut beats key a"
proof (intro ext)
  fix m k
  show "(lwwPut beats key a \<circ> lwwPut beats key b) m k = (lwwPut beats key b \<circ> lwwPut beats key a) m k"
  proof (cases "key a = key b \<and> k = key b")
    case False
    then consider "key a \<noteq> key b" | "key a = key b" "k \<noteq> key b" by blast
    then show ?thesis by cases (auto simp: put_lookup)
  next
    case True
    then have keys: "key a = key b" "k = key b" by simp_all
    have "rank a < rank b \<or> rank b < rank a \<or> a = b"
      using assms keys by (metis linorder_cases)
    then show ?thesis
      by (cases "m (key b)") (auto simp: put_lookup keys)
  qed
qed

lemma converges:
  assumes "mset xs = mset ys"
    and "\<And>a b. a \<in> set xs \<Longrightarrow> b \<in> set xs \<Longrightarrow> key a = key b \<Longrightarrow> rank a = rank b \<Longrightarrow> a = b"
  shows "fold (lwwPut beats key) xs m = fold (lwwPut beats key) ys m"
proof -
  have "fold (lwwPut beats key) xs = fold (lwwPut beats key) ys"
    using assms by (intro fold_multiset_equiv put_commute) auto
  then show ?thesis by simp
qed

lemma fold_winner:
  "fold (lwwPut beats key) xs m k = Some w \<Longrightarrow>
     (m k = Some w \<or> (w \<in> set xs \<and> key w = k)) \<and>
     (\<forall>x \<in> set xs. key x = k \<longrightarrow> rank x \<le> rank w) \<and>
     (\<forall>c. m k = Some c \<longrightarrow> rank c \<le> rank w)"
proof (induction xs arbitrary: m)
  case (Cons x xs)
  from Cons.prems have "fold (lwwPut beats key) xs (lwwPut beats key x m) k = Some w" by simp
  note Cons.IH [OF this]
  then show ?case
    by (cases "m k") (auto simp: put_lookup not_less split: if_splits)
qed simp

end

definition syncRank :: "'p sync_record \<Rightarrow> time \<times> bool \<times> int" where
  "syncRank r = (recUpdatedAt r, recDeleted r, recRevision r)"

lemma wins_rank: "wins a b \<longleftrightarrow> syncRank b < syncRank a"
  by (auto simp: wins_def syncRank_def)

interpretation sync_lww: lww_register wins syncRank recID
  by unfold_locales (rule wins_rank)

section \<open>The abstraction of a scope\<close>

text \<open>
  \<open>absScope\<close> forgets the server revisions: it maps a record id to the record as its
  client sent it. \<open>serverView\<close> is what a pull shows: the record with its server revision.
\<close>

definition absScope :: "'p scope_state \<Rightarrow> string \<rightharpoonup> 'p sync_record" where
  "absScope state k = map_option currentOf (map_of (scopeRecords state) k)"

definition serverView :: "'p scope_state \<Rightarrow> string \<rightharpoonup> 'p sync_record" where
  "serverView state k = map_option storedRecord (map_of (scopeRecords state) k)"

definition stampAll :: "(nat \<Rightarrow> time) \<Rightarrow> string \<Rightarrow> nat \<Rightarrow> 'p sync_record list \<Rightarrow> 'p sync_record list" where
  "stampAll clock scope i rs = map (\<lambda>(j, r). normalizeIncoming (clock j) scope r) (enumerate i rs)"

lemma stampAll_simps [simp]:
  "stampAll clock scope i [] = []"
  "stampAll clock scope i (r # rs) = normalizeIncoming (clock i) scope r # stampAll clock scope (Suc i) rs"
  by (simp_all add: stampAll_def)

lemma recID_normalizeIncoming [simp]: "recID (normalizeIncoming now scope r) = recID r"
  by (simp add: normalizeIncoming_def)

lemma scopeRecords_acceptRecord:
  "scopeRecords (acceptRecord r state) =
     put (recID r) \<lparr>storedRecord = r\<lparr>recRevision := maxRevision state + 1\<rparr>,
                    clientRevision = recRevision r, clientUpdatedAt = recUpdatedAt r\<rparr>
       (scopeRecords state)"
  by (simp add: acceptRecord_def Let_def)

lemma maxRevision_acceptRecord [simp]: "maxRevision (acceptRecord r state) = maxRevision state + 1"
  by (simp add: acceptRecord_def Let_def)

lemma absScope_acceptRecord: "absScope (acceptRecord r state) = (absScope state)(recID r \<mapsto> r)"
  by (auto simp: absScope_def scopeRecords_acceptRecord fun_eq_iff currentOf_def)

lemma serverView_acceptRecord:
  "serverView (acceptRecord r state) = (serverView state)(recID r \<mapsto> r\<lparr>recRevision := maxRevision state + 1\<rparr>)"
  by (auto simp: serverView_def scopeRecords_acceptRecord fun_eq_iff)

text \<open>The two ways in which one iteration succeeds.\<close>

lemma pushOne_cases:
  assumes "pushOne now scope r state = Inr (state', res)"
  obtains (accepted) "state' = acceptRecord (normalizeIncoming now scope r) state" "recID r \<noteq> ''''"
      "resAccepted res" "resRevision res = maxRevision state + 1"
      "\<forall>ex. map_of (scopeRecords state) (recID r) = Some ex \<longrightarrow> wins (normalizeIncoming now scope r) (currentOf ex)"
      "map_of (scopeRecords state) (recID r) = None \<longrightarrow> length (scopeRecords state) < MaxRecordsPerScope"
  | (stale) ex where "state' = state" "recID r \<noteq> ''''" "\<not> resAccepted res"
      "map_of (scopeRecords state) (recID r) = Some ex"
      "resRevision res = recRevision (storedRecord ex)"
      "\<not> wins (normalizeIncoming now scope r) (currentOf ex)"
  using assms by (auto simp: pushOne_def Let_def split: if_splits option.splits)

lemma pushOne_refines:
  assumes "pushOne now scope r state = Inr (state', res)"
  shows "absScope state' = lwwPut wins recID (normalizeIncoming now scope r) (absScope state)"
  using assms
proof (cases rule: pushOne_cases)
  case accepted
  then show ?thesis
    by (cases "map_of (scopeRecords state) (recID r)")
      (auto simp: absScope_acceptRecord lwwPut_def absScope_def)
next
  case (stale ex)
  then show ?thesis by (auto simp: lwwPut_def absScope_def)
qed

lemma pushLoop_refines:
  "pushLoop clock scope i rs state results = (Inr res, state') \<Longrightarrow>
     absScope state' = fold (lwwPut wins recID) (stampAll clock scope i rs) (absScope state)"
proof (induction rs arbitrary: i state results)
  case (Cons r rs)
  from Cons.prems obtain state1 res1
    where one: "pushOne (clock i) scope r state = Inr (state1, res1)"
      and rest: "pushLoop clock scope (Suc i) rs state1 (put (recID r) res1 results) = (Inr res, state')"
    by (auto split: sum.splits)
  show ?case using Cons.IH [OF rest] pushOne_refines [OF one] by simp
qed simp

section \<open>The invariant of a scope\<close>

text \<open>
  The keys are the record ids and none is empty; at most \<open>MaxRecordsPerScope\<close> records;
  every server revision lies between 1 and the watermark, and no two records share one.
\<close>

definition scopeInv :: "'p scope_state \<Rightarrow> bool" where
  "scopeInv state \<longleftrightarrow>
     wf_map (scopeRecords state) \<and>
     length (scopeRecords state) \<le> MaxRecordsPerScope \<and>
     0 \<le> maxRevision state \<and>
     (\<forall>k sr. map_of (scopeRecords state) k = Some sr \<longrightarrow>
        k \<noteq> '''' \<and> recID (storedRecord sr) = k \<and>
        1 \<le> recRevision (storedRecord sr) \<and> recRevision (storedRecord sr) \<le> maxRevision state) \<and>
     (\<forall>k k' sr sr'. map_of (scopeRecords state) k = Some sr \<longrightarrow>
        map_of (scopeRecords state) k' = Some sr' \<longrightarrow>
        recRevision (storedRecord sr) = recRevision (storedRecord sr') \<longrightarrow> k = k')"

lemma scopeInv_new [simp, go_invariants]: "scopeInv new_scope"
  by (simp add: scopeInv_def new_scope_def)

lemma scopeInv_acceptRecord [go_invariants]:
  assumes inv: "scopeInv state" and id: "recID r \<noteq> ''''"
    and room: "map_of (scopeRecords state) (recID r) = None \<longrightarrow> length (scopeRecords state) < MaxRecordsPerScope"
  shows "scopeInv (acceptRecord r state)"
proof -
  let ?m = "scopeRecords state" and ?m' = "scopeRecords (acceptRecord r state)"
  have wf: "wf_map ?m" and max0: "0 \<le> maxRevision state" and len: "length ?m \<le> MaxRecordsPerScope"
    using inv by (simp_all add: scopeInv_def)
  have old: "k \<noteq> '''' \<and> recID (storedRecord sr) = k \<and> 1 \<le> recRevision (storedRecord sr) \<and>
      recRevision (storedRecord sr) \<le> maxRevision state" if "map_of ?m k = Some sr" for k sr
    using inv that by (simp add: scopeInv_def)
  have inj: "k = k'" if "map_of ?m k = Some sr" "map_of ?m k' = Some sr'"
      "recRevision (storedRecord sr) = recRevision (storedRecord sr')" for k k' sr sr'
    using inv that by (simp add: scopeInv_def)
  have look: "map_of ?m' k = Some sr \<longleftrightarrow>
      (if k = recID r
       then sr = \<lparr>storedRecord = r\<lparr>recRevision := maxRevision state + 1\<rparr>,
                  clientRevision = recRevision r, clientUpdatedAt = recUpdatedAt r\<rparr>
       else map_of ?m k = Some sr)" for k sr
    by (auto simp: scopeRecords_acceptRecord)
  show ?thesis
    unfolding scopeInv_def
  proof (intro conjI allI impI)
    show "wf_map ?m'" using wf by (simp add: scopeRecords_acceptRecord)
    show "length ?m' \<le> MaxRecordsPerScope"
      using len room by (simp add: scopeRecords_acceptRecord length_put [OF wf] Suc_le_eq)
    show "0 \<le> maxRevision (acceptRecord r state)" using max0 by simp
  next
    fix k k' sr sr'
    assume m: "map_of ?m' k = Some sr" "map_of ?m' k' = Some sr'"
      and eq: "recRevision (storedRecord sr) = recRevision (storedRecord sr')"
    have new: "recRevision (storedRecord x) = maxRevision state + 1" if "map_of ?m' (recID r) = Some x" for x
      using that by (simp add: look)
    have keep: "map_of ?m j = Some x \<and> recRevision (storedRecord x) \<le> maxRevision state"
      if "map_of ?m' j = Some x" "j \<noteq> recID r" for j x
      using that old [of j x] by (simp add: look)
    show "k = k'"
    proof (cases "k = recID r \<or> k' = recID r")
      case True
      have "k \<noteq> recID r \<Longrightarrow> k' = recID r \<Longrightarrow> False" using keep [OF m(1)] new [of sr'] m(2) eq by auto
      moreover have "k' \<noteq> recID r \<Longrightarrow> k = recID r \<Longrightarrow> False" using keep [OF m(2)] new [of sr] m(1) eq by auto
      ultimately show ?thesis using True by metis
    next
      case False
      then show ?thesis using keep [OF m(1)] keep [OF m(2)] by (intro inj [OF _ _ eq]) simp_all
    qed
  next
    fix k sr
    assume sr: "map_of ?m' k = Some sr"
    have "k \<noteq> '''' \<and> recID (storedRecord sr) = k \<and> 1 \<le> recRevision (storedRecord sr) \<and>
      recRevision (storedRecord sr) \<le> maxRevision state + 1"
    proof (cases "k = recID r")
      case True
      then show ?thesis using sr id max0 by (simp add: look)
    next
      case False
      then show ?thesis using old [of k sr] sr by (simp add: look)
    qed
    then show "k \<noteq> ''''" "recID (storedRecord sr) = k" "1 \<le> recRevision (storedRecord sr)"
      "recRevision (storedRecord sr) \<le> maxRevision (acceptRecord r state)"
      by simp_all
  qed
qed

lemma scopeInv_pushOne [go_invariants]:
  assumes "scopeInv state" and "pushOne now scope r state = Inr (state', res)"
  shows "scopeInv state'"
  using assms(2)
proof (cases rule: pushOne_cases)
  case accepted
  then show ?thesis using assms(1) by (simp add: scopeInv_acceptRecord)
qed (use assms(1) in simp)

text \<open>
  How a scope evolves: the watermark never falls, no record disappears (a deletion is a
  tombstone), and a record whose revision is not newer than the old watermark is the old one.
\<close>

definition scopeExt :: "'p scope_state \<Rightarrow> 'p scope_state \<Rightarrow> bool" where
  "scopeExt old new \<longleftrightarrow>
     maxRevision old \<le> maxRevision new \<and>
     (\<forall>k. serverView new k = None \<longrightarrow> serverView old k = None) \<and>
     (\<forall>k r. serverView new k = Some r \<longrightarrow> recRevision r \<le> maxRevision old \<longrightarrow> serverView old k = Some r)"

lemma scopeExt_refl [simp]: "scopeExt state state"
  by (simp add: scopeExt_def)

lemma scopeExt_trans: "scopeExt a b \<Longrightarrow> scopeExt b c \<Longrightarrow> scopeExt a c"
  by (auto simp: scopeExt_def intro: order_trans)

lemma scopeExt_acceptRecord: "scopeExt state (acceptRecord r state)"
  by (auto simp: scopeExt_def serverView_acceptRecord)

lemma scopeExt_pushOne: "pushOne now scope r state = Inr (state', res) \<Longrightarrow> scopeExt state state'"
  by (erule pushOne_cases) (simp_all add: scopeExt_acceptRecord)

text \<open>The loop keeps the invariant and extends the scope whether or not it stops at an error.\<close>

lemma pushLoop_inv_ext:
  "scopeInv state \<Longrightarrow> pushLoop clock scope i rs state results = (out, state') \<Longrightarrow>
     scopeInv state' \<and> scopeExt state state'"
proof (induction rs arbitrary: i state results)
  case (Cons r rs)
  show ?case
  proof (cases "pushOne (clock i) scope r state")
    case (Inl e)
    with Cons.prems show ?thesis by auto
  next
    case (Inr p)
    obtain state1 res1 where p: "p = (state1, res1)" by (cases p)
    have "scopeInv state1" and "scopeExt state state1"
      using Inr p Cons.prems(1) by (auto intro: scopeInv_pushOne scopeExt_pushOne)
    then show ?thesis
      using Cons.IH [of state1 "Suc i" "put (recID r) res1 results"] Cons.prems(2) Inr p
      by (auto intro: scopeExt_trans)
  qed
qed auto

section \<open>The store\<close>

definition storeInv :: "'p sync_store \<Rightarrow> bool" where
  "storeInv s \<longleftrightarrow>
     wf_map s \<and>
     (\<forall>u byScope. map_of s u = Some byScope \<longrightarrow>
        wf_map byScope \<and>
        (\<forall>sc state. map_of byScope sc = Some state \<longrightarrow> sc \<in> set ValidScopes \<and> scopeInv state))"

lemma storeInv_empty [simp, go_invariants]: "storeInv []"
  by (simp add: storeInv_def)

lemma scopeFor_putScope:
  "scopeFor (putScope s u sc state) u' sc' = (if u' = u \<and> sc' = sc then state else scopeFor s u' sc')"
  by (auto simp: scopeFor_def putScope_def get_or_def split: option.splits)

lemma scopeInv_scopeFor: "storeInv s \<Longrightarrow> scopeInv (scopeFor s u sc)"
  by (auto simp: storeInv_def scopeFor_def split: option.splits)

lemma storeInv_putScope [go_invariants]:
  "storeInv s \<Longrightarrow> scopeInv state \<Longrightarrow> sc \<in> set ValidScopes \<Longrightarrow> storeInv (putScope s u sc state)"
  by (auto simp: storeInv_def putScope_def get_or_def split: option.splits if_splits)

lemma pullScope_new [simp]: "pullScope new_scope since = []"
  by (simp add: pullScope_def new_scope_def)

lemma Pull_scopeFor:
  "Pull u sc since s =
     (if sc \<notin> set ValidScopes then Inl ErrScopeUnknown else Inr (pullScope (scopeFor s u sc) since))"
  by (auto simp: Pull_def scopeFor_def split: option.splits)

lemma Watermark_scopeFor: "Watermark u sc s = maxRevision (scopeFor s u sc)"
  by (auto simp: Watermark_def scopeFor_def new_scope_def split: option.splits)

lemma Push_eq:
  assumes "scope \<in> set ValidScopes"
    and "pushLoop clock scope 0 rs (scopeFor s u scope) [] = (out, state)"
  shows "Push clock u scope rs s = (out, putScope s u scope state)"
  using assms by (simp add: Push_def)

lemma storeInv_Push [go_invariants]: "storeInv s \<Longrightarrow> storeInv (snd (Push clock u sc rs s))"
proof (cases "sc \<in> set ValidScopes")
  case True
  assume inv: "storeInv s"
  obtain out state where loop: "pushLoop clock sc 0 rs (scopeFor s u sc) [] = (out, state)"
    by (meson surj_pair)
  have "scopeInv state"
    using pushLoop_inv_ext [OF scopeInv_scopeFor [OF inv] loop] by simp
  then show ?thesis using inv True by (simp add: Push_eq [OF True loop] storeInv_putScope)
qed (simp add: Push_def)

lemma scopeExt_Push: "storeInv s \<Longrightarrow> scopeExt (scopeFor s u' sc') (scopeFor (snd (Push clock u sc rs s)) u' sc')"
proof (cases "sc \<in> set ValidScopes")
  case True
  assume inv: "storeInv s"
  obtain out state where loop: "pushLoop clock sc 0 rs (scopeFor s u sc) [] = (out, state)"
    by (meson surj_pair)
  show ?thesis
    using pushLoop_inv_ext [OF scopeInv_scopeFor [OF inv] loop]
    by (auto simp: Push_eq [OF True loop] scopeFor_putScope)
qed (simp add: Push_def)

section \<open>What a pull returns\<close>

lemma serverView_Some_iff:
  "serverView state k = Some r \<longleftrightarrow> (\<exists>sr. map_of (scopeRecords state) k = Some sr \<and> storedRecord sr = r)"
  by (auto simp: serverView_def)

lemma set_pullScope:
  assumes "scopeInv state"
  shows "set (pullScope state since) = {r. serverView state (recID r) = Some r \<and> recRevision r > since}"
proof -
  have wf: "wf_map (scopeRecords state)" using assms by (simp add: scopeInv_def)
  have id: "recID (storedRecord sr) = k" if "map_of (scopeRecords state) k = Some sr" for k sr
    using assms that by (simp add: scopeInv_def)
  have "r \<in> (storedRecord \<circ> snd) ` set (scopeRecords state) \<longleftrightarrow> serverView state (recID r) = Some r" for r
  proof
    assume "r \<in> (storedRecord \<circ> snd) ` set (scopeRecords state)"
    then obtain k sr where "(k, sr) \<in> set (scopeRecords state)" and r: "r = storedRecord sr" by auto
    then have "map_of (scopeRecords state) k = Some sr" using wf by (simp add: in_set_map_of)
    then show "serverView state (recID r) = Some r" using id [of k sr] r by (simp add: serverView_def)
  next
    assume "serverView state (recID r) = Some r"
    then obtain sr where "map_of (scopeRecords state) (recID r) = Some sr" and "storedRecord sr = r"
      by (auto simp: serverView_Some_iff)
    then show "r \<in> (storedRecord \<circ> snd) ` set (scopeRecords state)"
      using map_of_SomeD by (force simp: image_iff)
  qed
  then show ?thesis by (auto simp: pullScope_def)
qed

lemma serverView_inj:
  "scopeInv state \<Longrightarrow> serverView state k = Some r \<Longrightarrow> serverView state k' = Some r' \<Longrightarrow>
     recRevision r = recRevision r' \<Longrightarrow> k = k'"
  unfolding scopeInv_def by (auto simp: serverView_Some_iff)

lemma serverView_id: "scopeInv state \<Longrightarrow> serverView state k = Some r \<Longrightarrow> recID r = k"
  by (auto simp: scopeInv_def serverView_Some_iff)

lemma serverView_bounds:
  "scopeInv state \<Longrightarrow> serverView state k = Some r \<Longrightarrow> 1 \<le> recRevision r \<and> recRevision r \<le> maxRevision state"
  by (auto simp: scopeInv_def serverView_Some_iff)

lemma pullScope_inj: "scopeInv state \<Longrightarrow> inj_on recRevision (set (pullScope state since))"
proof (rule inj_onI)
  fix x y
  assume inv: "scopeInv state" and "x \<in> set (pullScope state since)" "y \<in> set (pullScope state since)"
    and eq: "recRevision x = recRevision y"
  then have x: "serverView state (recID x) = Some x" and y: "serverView state (recID y) = Some y"
    by (simp_all add: set_pullScope)
  from serverView_inj [OF inv x y eq] x y show "x = y" by (metis option.inject)
qed

lemma distinct_values:
  assumes "scopeInv state"
  shows "distinct (map (storedRecord \<circ> snd) (scopeRecords state))"
proof -
  have wf: "wf_map (scopeRecords state)" using assms by (simp add: scopeInv_def)
  have "inj_on (storedRecord \<circ> snd) (set (scopeRecords state))"
  proof (rule inj_onI)
    fix p q
    assume p: "p \<in> set (scopeRecords state)" and q: "q \<in> set (scopeRecords state)"
      and eq: "(storedRecord \<circ> snd) p = (storedRecord \<circ> snd) q"
    have "map_of (scopeRecords state) (fst p) = Some (snd p)"
      and "map_of (scopeRecords state) (fst q) = Some (snd q)"
      using p q wf by (simp_all add: in_set_map_of [symmetric])
    moreover from this have "fst p = fst q" using assms eq by (simp add: scopeInv_def)
    ultimately show "p = q" by (simp add: prod_eq_iff)
  qed
  moreover have "distinct (scopeRecords state)" using wf by (auto simp: wf_map_def distinct_map)
  ultimately show ?thesis by (simp add: distinct_map)
qed

lemma sorted_distinct_pull:
  assumes "scopeInv state"
  shows "sorted_wrt (<) (map recRevision (pullScope state since))"
proof -
  have "distinct (pullScope state since)"
    using distinct_values [OF assms] by (simp add: pullScope_def)
  then have "distinct (map recRevision (pullScope state since))"
    using pullScope_inj [OF assms] by (simp add: distinct_map)
  moreover have "sorted (map recRevision (pullScope state since))" by (simp add: pullScope_def)
  ultimately show ?thesis by (simp add: strict_sorted_iff)
qed

text \<open>
  \<open>sort.Slice\<close> is not stable and the map is ranged over in an unspecified order; neither
  shows, because the revisions of a scope differ.
\<close>

lemma pullScope_unique:
  assumes inv: "scopeInv state"
    and perm: "mset xs = mset (filter (\<lambda>r. recRevision r > since) (map (storedRecord \<circ> snd) (scopeRecords state)))"
    and sorted: "sorted (map recRevision xs)"
  shows "xs = pullScope state since"
proof (rule map_inj_on)
  have ms: "mset xs = mset (pullScope state since)" using perm by (simp add: pullScope_def)
  then have "mset (map recRevision xs) = mset (map recRevision (pullScope state since))" by simp
  moreover have "sorted (map recRevision (pullScope state since))" by (simp add: pullScope_def)
  ultimately show "map recRevision xs = map recRevision (pullScope state since)"
    using sorted by (metis properties_for_sort)
  have "set xs = set (pullScope state since)" using ms by (metis set_mset_mset)
  then show "inj_on recRevision (set xs \<union> set (pullScope state since))"
    using pullScope_inj [OF inv] by simp
qed

section \<open>Replication by delta pulls\<close>

text \<open>
  A client keeps the records it pulled, by id; applying the answer to a pull overwrites
  the ids it mentions.
\<close>

definition applyPull :: "(string \<rightharpoonup> 'p sync_record) \<Rightarrow> 'p sync_record list \<Rightarrow> (string \<rightharpoonup> 'p sync_record)" where
  "applyPull replica rs = replica ++ map_of (map (\<lambda>r. (recID r, r)) rs)"

lemma map_of_by_id:
  assumes "\<And>r r'. r \<in> set rs \<Longrightarrow> r' \<in> set rs \<Longrightarrow> recID r = recID r' \<Longrightarrow> r = r'"
  shows "map_of (map (\<lambda>r. (recID r, r)) rs) k = Some r \<longleftrightarrow> r \<in> set rs \<and> recID r = k"
proof
  assume "map_of (map (\<lambda>r. (recID r, r)) rs) k = Some r"
  then show "r \<in> set rs \<and> recID r = k" by (auto dest: map_of_SomeD)
next
  assume r: "r \<in> set rs \<and> recID r = k"
  then have "map_of (map (\<lambda>r. (recID r, r)) rs) k \<noteq> None" by (auto simp: map_of_eq_None_iff image_image)
  then obtain r' where r': "map_of (map (\<lambda>r. (recID r, r)) rs) k = Some r'" by blast
  then have "r' \<in> set rs" "recID r' = k" by (auto dest: map_of_SomeD)
  with r r' assms [of r' r] show "map_of (map (\<lambda>r. (recID r, r)) rs) k = Some r" by simp
qed

lemma applyPull_extends:
  assumes inv: "scopeInv new" and ext: "scopeExt old new"
  shows "applyPull (serverView old) (pullScope new (maxRevision old)) = serverView new"
proof
  fix k
  let ?rs = "pullScope new (maxRevision old)"
  have pulled: "map_of (map (\<lambda>r. (recID r, r)) ?rs) k = Some r \<longleftrightarrow>
      serverView new k = Some r \<and> recRevision r > maxRevision old" for r
    by (subst map_of_by_id) (auto simp: set_pullScope [OF inv] dest: serverView_id [OF inv])
  show "applyPull (serverView old) ?rs k = serverView new k"
  proof (cases "map_of (map (\<lambda>r. (recID r, r)) ?rs) k")
    case (Some r)
    then show ?thesis using pulled by (simp add: applyPull_def map_add_Some_iff)
  next
    case None
    then have *: "\<not> (serverView new k = Some r \<and> recRevision r > maxRevision old)" for r
      using pulled by simp
    have "serverView old k = serverView new k"
    proof (cases "serverView new k")
      case None
      then show ?thesis using ext by (simp add: scopeExt_def)
    next
      case (Some r)
      with * [of r] have "recRevision r \<le> maxRevision old" by simp
      then show ?thesis using ext Some by (simp add: scopeExt_def)
    qed
    then show ?thesis using None by (simp add: applyPull_def map_add_def)
  qed
qed

section \<open>Runs of the store\<close>

text \<open>Any sequence of pushes of any users, failed ones included.\<close>

inductive sync_step :: "'p sync_store \<Rightarrow> 'p sync_store \<Rightarrow> bool" where
  push: "sync_step s (snd (Push clock userID scope incoming s))"

inductive_cases sync_stepE: "sync_step s s'"

definition sync_reachable :: "'p sync_store \<Rightarrow> bool" where
  "sync_reachable s = sync_step\<^sup>*\<^sup>* [] s"

lemma sync_steps_inv: "sync_step\<^sup>*\<^sup>* s s' \<Longrightarrow> storeInv s \<Longrightarrow> storeInv s'"
  by (induction rule: rtranclp_induct) (auto elim!: sync_stepE intro: storeInv_Push)

lemma sync_reachable_inv: "sync_reachable s \<Longrightarrow> storeInv s"
  unfolding sync_reachable_def by (erule sync_steps_inv) simp

lemma sync_steps_ext:
  "sync_step\<^sup>*\<^sup>* s s' \<Longrightarrow> storeInv s \<Longrightarrow> scopeExt (scopeFor s u sc) (scopeFor s' u sc)"
proof (induction rule: rtranclp_induct)
  case (step s' s'')
  then have "storeInv s'" by (simp add: sync_steps_inv)
  with step show ?case by (auto elim!: sync_stepE intro: scopeExt_trans scopeExt_Push)
qed simp

lemma sync_reachable_Push: "sync_reachable s \<Longrightarrow> sync_reachable (snd (Push clock u sc rs s))"
  unfolding sync_reachable_def by (meson rtranclp.rtrancl_into_rtrancl sync_step.push)

section \<open>The HTTP handlers\<close>

text \<open>
  A handler gets the user id of the request context, the decoded body (or the error text
  of \<open>ReadJSON\<close>) and, for a push, the device header. The observer is the optional hook
  of \<open>observer.go\<close>: the calls made to it are returned, in order.
\<close>

datatype observation =
    ObservePush string string string string int bool bool time
  | ObserveScopeAdvanced string string string int time

definition syncErrorText :: "sync_error \<Rightarrow> string" where
  "syncErrorText e =
     (case e of
        ErrScopeUnknown \<Rightarrow> ''unknown sync scope''
      | ErrScopeFull \<Rightarrow> ''scope record limit reached''
      | ErrRecordInvalid \<Rightarrow> ''invalid sync record'')"

fun notifyLoop ::
  "string \<Rightarrow> string \<Rightarrow> string \<Rightarrow> (string, push_result) gomap \<Rightarrow> time \<Rightarrow> 'p sync_record list
    \<Rightarrow> int \<Rightarrow> bool \<Rightarrow> observation list \<times> int \<times> bool" where
  "notifyLoop userID deviceID scope results now [] maxRev changed = ([], maxRev, changed)"
| "notifyLoop userID deviceID scope results now (r # rs) maxRev changed =
     (case map_of results (recID r) of
        None \<Rightarrow> notifyLoop userID deviceID scope results now rs maxRev changed
      | Some result \<Rightarrow>
          let obs = ObservePush userID deviceID scope (recID r) (resRevision result)
                      (resAccepted result) (recDeleted r) now;
              changed' = (if resAccepted result then True else changed);
              maxRev' = (if resAccepted result \<and> resRevision result > maxRev
                         then resRevision result else maxRev)
          in case notifyLoop userID deviceID scope results now rs maxRev' changed' of
               (os, m, c) \<Rightarrow> (obs # os, m, c))"

definition notify ::
  "bool \<Rightarrow> string \<Rightarrow> string \<Rightarrow> string \<Rightarrow> 'p sync_record list \<Rightarrow> (string, push_result) gomap \<Rightarrow> time
    \<Rightarrow> observation list" where
  "notify hasObserver userID deviceHeader scope records results now =
     (if \<not> hasObserver then []
      else
        let deviceID = trim_space deviceHeader
        in case notifyLoop userID deviceID scope results now records 0 False of
             (os, maxRev, changed) \<Rightarrow>
               if changed then os @ [ObserveScopeAdvanced userID deviceID scope maxRev now] else os)"

definition pushHandler ::
  "bool \<Rightarrow> (nat \<Rightarrow> time) \<Rightarrow> time \<Rightarrow> string \<Rightarrow> string \<Rightarrow> string + (string \<times> 'p sync_record list) \<Rightarrow> 'p sync_store
    \<Rightarrow> (string, int) gomap http_response \<times> 'p sync_store \<times> observation list" where
  "pushHandler hasObserver clock now userID deviceHeader body s =
     (if userID = '''' then (WriteError StatusUnauthorized ''unauthorized'', s, [])
      else case body of
             Inl e \<Rightarrow> (WriteError StatusBadRequest e, s, [])
           | Inr (scope, records) \<Rightarrow>
               (case Push clock userID scope records s of
                  (Inl e, s') \<Rightarrow>
                    (WriteError (if e = ErrScopeFull then StatusInsufficientStorage else StatusBadRequest)
                       (syncErrorText e), s', [])
                | (Inr results, s') \<Rightarrow>
                    (WriteJSON StatusOK (map (\<lambda>(k, res). (k, resRevision res)) results), s',
                     notify hasObserver userID deviceHeader scope records results now)))"

definition pullHandler ::
  "string \<Rightarrow> string + (string \<times> int option) \<Rightarrow> 'p sync_store \<Rightarrow> 'p sync_record list http_response" where
  "pullHandler userID body s =
     (if userID = '''' then WriteError StatusUnauthorized ''unauthorized''
      else case body of
             Inl e \<Rightarrow> WriteError StatusBadRequest e
           | Inr (scope, sinceRevision) \<Rightarrow>
               let since = (case sinceRevision of None \<Rightarrow> 0 | Some n \<Rightarrow> n)
               in case Pull userID scope since s of
                    Inl e \<Rightarrow> WriteError StatusBadRequest (syncErrorText e)
                  | Inr records \<Rightarrow> WriteJSON StatusOK records)"

definition meHandler :: "string \<Rightarrow> (string \<times> string) http_response" where
  "meHandler userID =
     (if userID = '''' then WriteError StatusUnauthorized ''unauthorized''
      else WriteJSON StatusOK (userID, ''selfhosted''))"

section \<open>What the observer learns\<close>

text \<open>The revisions of the accepted records, in the order of the batch.\<close>

definition acceptedRevisions :: "(string, push_result) gomap \<Rightarrow> 'p sync_record list \<Rightarrow> int list" where
  "acceptedRevisions results rs =
     concat (map (\<lambda>r. case map_of results (recID r) of
                        None \<Rightarrow> []
                      | Some p \<Rightarrow> if resAccepted p then [resRevision p] else []) rs)"

lemma acceptedRevisions_Cons:
  "acceptedRevisions results (r # rs) =
     (case map_of results (recID r) of
        None \<Rightarrow> []
      | Some p \<Rightarrow> if resAccepted p then [resRevision p] else []) @ acceptedRevisions results rs"
  by (simp add: acceptedRevisions_def)

lemma acceptedRevisions_Nil [simp]: "acceptedRevisions results [] = []"
  by (simp add: acceptedRevisions_def)

lemma notifyLoop_eq:
  "snd (notifyLoop u d sc results now rs m c) =
     (fold max (acceptedRevisions results rs) m, c \<or> acceptedRevisions results rs \<noteq> [])"
proof (induction rs arbitrary: m c)
  case (Cons r rs)
  show ?case
  proof (cases "map_of results (recID r)")
    case None
    then show ?thesis using Cons.IH by (simp add: acceptedRevisions_Cons)
  next
    case (Some p)
    have max: "(if m < a then a else m) = max a m" for a by (simp add: max_def)
    show ?thesis
      using Some
      by (cases "resAccepted p")
        (simp_all add: acceptedRevisions_Cons Let_def case_prod_unfold prod_eq_iff Cons.IH max)
  qed
qed simp

lemma notifyLoop_events:
  "ob \<in> set (fst (notifyLoop u d sc results now rs m c)) \<Longrightarrow>
     \<exists>k rv acc dl. ob = ObservePush u d sc k rv acc dl now"
proof (induction rs arbitrary: m c)
  case (Cons r rs)
  then show ?case by (auto simp: Let_def split: option.splits prod.splits if_splits) (metis fst_conv)+
qed simp

lemma notify_eq:
  "notify True u dev sc rs results now =
     fst (notifyLoop u (trim_space dev) sc results now rs 0 False) @
     (if acceptedRevisions results rs = [] then []
      else [ObserveScopeAdvanced u (trim_space dev) sc (fold max (acceptedRevisions results rs) 0) now])"
  using notifyLoop_eq [of u "trim_space dev" sc results now rs 0 False]
  by (auto simp: notify_def Let_def split: prod.splits)

lemma scopeAdvanced_in_notify:
  "ObserveScopeAdvanced u' d sc' rv t \<in> set (notify True u dev sc rs results now) \<longleftrightarrow>
     acceptedRevisions results rs \<noteq> [] \<and>
     u' = u \<and> d = trim_space dev \<and> sc' = sc \<and> rv = fold max (acceptedRevisions results rs) 0 \<and> t = now"
  by (auto simp: notify_eq dest: notifyLoop_events)

lemma pushLoop_other:
  "pushLoop clock sc i rs state results = (Inr res, state') \<Longrightarrow> k \<notin> recID ` set rs \<Longrightarrow>
     map_of res k = map_of results k"
  by (induction rs arbitrary: i state results) (auto split: sum.splits)

lemma pushLoop_accepted:
  "pushLoop clock sc i rs state results = (Inr res, state') \<Longrightarrow> distinct (map recID rs) \<Longrightarrow>
     \<exists>n. acceptedRevisions res rs = map (\<lambda>j. maxRevision state + 1 + int j) [0..<n] \<and>
         maxRevision state' = maxRevision state + int n"
proof (induction rs arbitrary: i state results)
  case (Cons r rs)
  from Cons.prems obtain state1 res1
    where one: "pushOne (clock i) sc r state = Inr (state1, res1)"
      and rest: "pushLoop clock sc (Suc i) rs state1 (put (recID r) res1 results) = (Inr res, state')"
    by (auto split: sum.splits)
  from Cons.prems have fresh: "recID r \<notin> recID ` set rs" and dist: "distinct (map recID rs)" by auto
  have hd: "map_of res (recID r) = Some res1"
    using pushLoop_other [OF rest fresh] by simp
  obtain n where n: "acceptedRevisions res rs = map (\<lambda>j. maxRevision state1 + 1 + int j) [0..<n]"
      "maxRevision state' = maxRevision state1 + int n"
    using Cons.IH [OF rest dist] by blast
  from one show ?case
  proof (cases rule: pushOne_cases)
    case accepted
    then have "acceptedRevisions res (r # rs) = map (\<lambda>j. maxRevision state + 1 + int j) [0..<Suc n]"
      by (simp add: acceptedRevisions_Cons hd n map_upt_Suc add.assoc del: upt_Suc)
    then show ?thesis using accepted(1) n(2) by (intro exI [of _ "Suc n"]) simp
  next
    case (stale ex)
    then have "acceptedRevisions res (r # rs) = acceptedRevisions res rs"
      by (simp add: acceptedRevisions_Cons hd)
    then show ?thesis using stale(1) n by auto
  qed
qed simp

lemma fold_max_upto: "m \<le> b + 1 \<Longrightarrow> fold max (map (\<lambda>j. b + 1 + int j) [0..<Suc n]) m = b + 1 + int n"
  by (induction n) auto

lemma notify_scope_advanced:
  assumes ok: "Push clock u sc rs s = (Inr results, s')"
    and inv: "storeInv s" and dist: "distinct (map recID rs)"
  shows "ObserveScopeAdvanced u' d sc' rv t \<in> set (notify True u dev sc rs results now) \<longleftrightarrow>
           Watermark u sc s < Watermark u sc s' \<and>
           u' = u \<and> d = trim_space dev \<and> sc' = sc \<and> rv = Watermark u sc s' \<and> t = now"
proof -
  have sc: "sc \<in> set ValidScopes" using ok by (auto simp: Push_def split: if_splits)
  obtain state where loop: "pushLoop clock sc 0 rs (scopeFor s u sc) [] = (Inr results, state)"
    and s': "s' = putScope s u sc state"
    using ok sc by (auto simp: Push_def split: prod.splits)
  have new: "Watermark u sc s' = maxRevision state"
    and old: "Watermark u sc s = maxRevision (scopeFor s u sc)"
    by (simp_all add: Watermark_scopeFor s' scopeFor_putScope)
  have pos: "0 \<le> maxRevision (scopeFor s u sc)"
    using scopeInv_scopeFor [OF inv] by (simp add: scopeInv_def)
  obtain n where n: "acceptedRevisions results rs = map (\<lambda>j. Watermark u sc s + 1 + int j) [0..<n]"
      "Watermark u sc s' = Watermark u sc s + int n"
    using pushLoop_accepted [OF loop dist] by (auto simp: new old)
  show ?thesis
  proof (cases n)
    case 0
    then show ?thesis using n by (simp add: scopeAdvanced_in_notify)
  next
    case (Suc k)
    have "fold max (acceptedRevisions results rs) 0 = Watermark u sc s'"
      using fold_max_upto [of 0 "Watermark u sc s" k] pos n old Suc by simp
    then show ?thesis using n Suc by (auto simp: scopeAdvanced_in_notify)
  qed
qed

section \<open>Sequences of pushes to one scope\<close>

fun runPushes ::
  "string \<Rightarrow> string \<Rightarrow> ((nat \<Rightarrow> time) \<times> 'p sync_record list) list \<Rightarrow> 'p sync_store \<Rightarrow> 'p sync_store option" where
  "runPushes u sc [] s = Some s"
| "runPushes u sc ((clock, rs) # batches) s =
     (case Push clock u sc rs s of
        (Inl _, _) \<Rightarrow> None
      | (Inr _, s') \<Rightarrow> runPushes u sc batches s')"

lemma Push_refines:
  assumes ok: "Push clock u sc rs s = (Inr res, s')"
  shows "absScope (scopeFor s' u' sc') =
     (if u' = u \<and> sc' = sc
      then fold (lwwPut wins recID) (stampAll clock sc 0 rs) (absScope (scopeFor s u sc))
      else absScope (scopeFor s u' sc'))"
proof -
  have sc: "sc \<in> set ValidScopes" using ok by (auto simp: Push_def split: if_splits)
  obtain state where loop: "pushLoop clock sc 0 rs (scopeFor s u sc) [] = (Inr res, state)"
    and s': "s' = putScope s u sc state"
    using ok sc by (auto simp: Push_def split: prod.splits)
  show ?thesis using pushLoop_refines [OF loop] by (simp add: s' scopeFor_putScope)
qed

definition setScope :: "string \<Rightarrow> 'p sync_record \<Rightarrow> 'p sync_record" where
  "setScope sc r = r\<lparr>recScope := sc\<rparr>"

lemma stampAll_timed:
  "\<forall>r \<in> set rs. recUpdatedAt r \<noteq> zero_time \<Longrightarrow> stampAll clock sc i rs = map (setScope sc) rs"
  by (induction rs arbitrary: i) (simp_all add: normalizeIncoming_def setScope_def)

lemma runPushes_refines:
  "runPushes u sc batches s = Some s' \<Longrightarrow>
   \<forall>r \<in> set (concat (map snd batches)). recUpdatedAt r \<noteq> zero_time \<Longrightarrow>
     absScope (scopeFor s' u sc) =
       fold (lwwPut wins recID) (map (setScope sc) (concat (map snd batches))) (absScope (scopeFor s u sc))"
proof (induction batches arbitrary: s)
  case (Cons b batches)
  obtain clock rs where b: "b = (clock, rs)" by (cases b)
  from Cons.prems obtain res s1 where one: "Push clock u sc rs s = (Inr res, s1)"
    and rest: "runPushes u sc batches s1 = Some s'"
    by (auto simp: b split: prod.splits sum.splits)
  have "absScope (scopeFor s' u sc) =
      fold (lwwPut wins recID) (map (setScope sc) (concat (map snd batches))) (absScope (scopeFor s1 u sc))"
    using Cons.IH [OF rest] Cons.prems(2) by simp
  moreover have "absScope (scopeFor s1 u sc) =
      fold (lwwPut wins recID) (map (setScope sc) rs) (absScope (scopeFor s u sc))"
    using Cons.prems(2) by (simp add: Push_refines [OF one] stampAll_timed b)
  ultimately show ?case by (simp add: b)
qed simp

text \<open>An error stops the loop at the record that caused it; what came before is applied.\<close>

lemma pushLoop_error:
  "pushLoop clock sc i rs state results = (Inl e, state') \<Longrightarrow>
     \<exists>k < length rs. \<exists>res. pushLoop clock sc i (take k rs) state results = (Inr res, state') \<and>
       pushOne (clock (i + k)) sc (rs ! k) state' = Inl e"
proof (induction rs arbitrary: i state results)
  case (Cons r rs)
  show ?case
  proof (cases "pushOne (clock i) sc r state")
    case (Inl e')
    then show ?thesis using Cons.prems by (intro exI [of _ 0]) simp
  next
    case (Inr p)
    obtain state1 res1 where p: "p = (state1, res1)" by (cases p)
    have "pushLoop clock sc (Suc i) rs state1 (put (recID r) res1 results) = (Inl e, state')"
      using Cons.prems Inr p by simp
    from Cons.IH [OF this] obtain k res where "k < length rs"
      "pushLoop clock sc (Suc i) (take k rs) state1 (put (recID r) res1 results) = (Inr res, state')"
      "pushOne (clock (Suc i + k)) sc (rs ! k) state' = Inl e"
      by blast
    then show ?thesis using Inr p by (intro exI [of _ "Suc k"]) simp
  qed
qed simp

lemma pushOne_error:
  "pushOne now sc r state = Inl e \<longleftrightarrow>
     (recID r = '''' \<and> e = ErrRecordInvalid) \<or>
     (recID r \<noteq> '''' \<and> map_of (scopeRecords state) (recID r) = None \<and>
      length (scopeRecords state) \<ge> MaxRecordsPerScope \<and> e = ErrScopeFull)"
  by (auto simp: pushOne_def Let_def split: option.splits)

section \<open>Properties\<close>

definition exRecord :: "string \<Rightarrow> int \<Rightarrow> time \<Rightarrow> bool \<Rightarrow> nat \<Rightarrow> nat sync_record" where
  "exRecord k rv t d p =
     \<lparr>recScope = '''', recID = k, recRevision = rv, recUpdatedAt = t, recDeleted = d, recPayload = p\<rparr>"

text \<open>
  C3: A push that succeeds implements the last-writer-wins registers: after it, the scope
  holds for every record id the record that beats the stored one and every pushed one, the
  records being stamped with the scope and, where they carry no time, with the clock; the
  scopes of other users and the user's other scopes are untouched.
\<close>

theorem sync_push_refines_lww:
  assumes "Push clock u sc rs s = (Inr res, s')"
  shows "absScope (scopeFor s' u' sc') =
     (if u' = u \<and> sc' = sc
      then fold (lwwPut wins recID) (stampAll clock sc 0 rs) (absScope (scopeFor s u sc))
      else absScope (scopeFor s u' sc'))"
  by (rule Push_refines [OF assms])

lemmas sync_eval_simps =
  Push_def ValidScopes_def scopeFor_def putScope_def get_or_def new_scope_def pushOne_def
  normalizeIncoming_def acceptRecord_def currentOf_def wins_def zero_time_def
  MaxRecordsPerScope_def exRecord_def Let_def

theorem sync_push_refines_lww_witness:
  "absScope (scopeFor (snd (Push (\<lambda>_. 50) ''u'' ''favorites''
      [exRecord ''a'' 1 10 False 7, exRecord ''a'' 1 0 True 8] [])) ''u'' ''favorites'') ''a'' =
     Some (exRecord ''a'' 1 50 True 8\<lparr>recScope := ''favorites''\<rparr>)"
proof -
  let ?rs = "[exRecord ''a'' 1 10 False 7, exRecord ''a'' 1 0 True 8]"
  have "\<exists>res. fst (Push (\<lambda>_. 50) ''u'' ''favorites'' ?rs []) = Inr res"
    by (simp add: sync_eval_simps)
  then obtain res s' where "Push (\<lambda>_. 50) ''u'' ''favorites'' ?rs [] = (Inr res, s')"
    by (metis prod.collapse)
  from sync_push_refines_lww [OF this, of "''u''" "''favorites''"] this show ?thesis
    by (simp add: lwwPut_def absScope_def wins_def scopeFor_def new_scope_def normalizeIncoming_def
        exRecord_def zero_time_def)
qed

text \<open>
  C2: Convergence: two servers that accept the same records, in whatever order and cut into
  whatever batches, end with the same record under every id, provided the records carry
  their time and two different records of one id are not tied in the conflict rule.
\<close>

theorem sync_converges:
  assumes "runPushes u sc bs [] = Some s" and "runPushes u sc bs' [] = Some s'"
    and "mset (concat (map snd bs)) = mset (concat (map snd bs'))"
    and "\<forall>r \<in> set (concat (map snd bs)). recUpdatedAt r \<noteq> zero_time"
    and "\<forall>a \<in> set (concat (map snd bs)). \<forall>b \<in> set (concat (map snd bs)).
           recID a = recID b \<longrightarrow> syncRank a = syncRank b \<longrightarrow> a = b"
  shows "absScope (scopeFor s u sc) = absScope (scopeFor s' u sc)"
proof -
  let ?f = "map (setScope sc)" and ?rs = "concat (map snd bs)" and ?rs' = "concat (map snd bs')"
  have same: "set ?rs' = set ?rs" using assms(3) by (metis set_mset_mset)
  have "fold (lwwPut wins recID) (?f ?rs) Map.empty = fold (lwwPut wins recID) (?f ?rs') Map.empty"
  proof (rule sync_lww.converges)
    show "mset (?f ?rs) = mset (?f ?rs')" using assms(3) by simp
  next
    fix a b
    assume ab: "a \<in> set (?f ?rs)" "b \<in> set (?f ?rs)" "recID a = recID b" "syncRank a = syncRank b"
    from ab(1,2) obtain a0 b0 where a: "a = setScope sc a0" "a0 \<in> set ?rs" and b: "b = setScope sc b0" "b0 \<in> set ?rs"
      by (auto simp only: set_map)
    have "recID a0 = recID b0" and "syncRank a0 = syncRank b0"
      using ab(3,4) by (simp_all add: a(1) b(1) setScope_def syncRank_def)
    with assms(5) a b show "a = b" by metis
  qed
  moreover have "absScope (scopeFor [] u sc) = (Map.empty :: string \<rightharpoonup> 'a sync_record)"
    by (auto simp: absScope_def scopeFor_def new_scope_def)
  moreover have "\<forall>r \<in> set ?rs'. recUpdatedAt r \<noteq> zero_time" using assms(4) same by simp
  ultimately show ?thesis
    using runPushes_refines [OF assms(1,4)] runPushes_refines [OF assms(2)] by metis
qed

theorem sync_converges_witness:
  "\<exists>s s'. runPushes ''u'' ''favorites'' [(\<lambda>_. 1, [exRecord ''a'' 1 10 False 7, exRecord ''a'' 2 10 False 8])] [] = Some s \<and>
     runPushes ''u'' ''favorites'' [(\<lambda>_. 2, [exRecord ''a'' 2 10 False 8]), (\<lambda>_. 3, [exRecord ''a'' 1 10 False 7])] [] = Some s' \<and>
     absScope (scopeFor s ''u'' ''favorites'') = absScope (scopeFor s' ''u'' ''favorites'')"
proof -
  let ?r = "exRecord ''a'' 1 10 False 7" and ?q = "exRecord ''a'' 2 10 False 8"
  obtain s where s: "runPushes ''u'' ''favorites'' [(\<lambda>_. 1, [?r, ?q])] [] = Some s"
    by (simp add: sync_eval_simps)
  obtain s' where s': "runPushes ''u'' ''favorites'' [(\<lambda>_. 2, [?q]), (\<lambda>_. 3, [?r])] [] = Some s'"
    by (simp add: sync_eval_simps)
  have "absScope (scopeFor s ''u'' ''favorites'') = absScope (scopeFor s' ''u'' ''favorites'')"
  proof (rule sync_converges [OF s s'])
    show "mset (concat (map snd [(\<lambda>_ :: nat. 1 :: int, [?r, ?q])])) =
        mset (concat (map snd [(\<lambda>_ :: nat. 2 :: int, [?q]), (\<lambda>_. 3, [?r])]))"
      by (simp add: add_mset_commute)
  qed (simp_all add: exRecord_def zero_time_def syncRank_def)
  with s s' show ?thesis by blast
qed

text \<open>
  C1: Delta synchronisation is complete: if a client's replica of a scope is the server's at
  some moment, then after any further pushes by anyone, pulling the records newer than the
  watermark of that moment and applying them makes the replica the server's again.
\<close>

theorem sync_delta_pull_replicates:
  assumes "sync_reachable s" and "sync_step\<^sup>*\<^sup>* s s'"
    and "Pull u sc (Watermark u sc s) s' = Inr rs"
  shows "applyPull (serverView (scopeFor s u sc)) rs = serverView (scopeFor s' u sc)"
proof -
  have inv: "storeInv s" using assms(1) by (rule sync_reachable_inv)
  then have "storeInv s'" using assms(2) by (blast intro: sync_steps_inv)
  then have "scopeInv (scopeFor s' u sc)" by (rule scopeInv_scopeFor)
  moreover have "scopeExt (scopeFor s u sc) (scopeFor s' u sc)"
    using assms(2) inv by (rule sync_steps_ext)
  moreover have "rs = pullScope (scopeFor s' u sc) (maxRevision (scopeFor s u sc))"
    using assms(3) by (simp add: Pull_scopeFor Watermark_scopeFor split: if_splits)
  ultimately show ?thesis by (simp add: applyPull_extends)
qed

theorem sync_delta_pull_replicates_witness:
  "\<exists>s s' rs. sync_reachable (s :: nat sync_store) \<and> sync_step\<^sup>*\<^sup>* s s' \<and>
     Pull ''u'' ''favorites'' (Watermark ''u'' ''favorites'' s) s' = Inr rs \<and> rs \<noteq> [] \<and>
     applyPull (serverView (scopeFor s ''u'' ''favorites'')) rs = serverView (scopeFor s' ''u'' ''favorites'')"
proof -
  define s :: "nat sync_store" where
    "s = snd (Push (\<lambda>_. 1) ''u'' ''favorites'' [exRecord ''a'' 1 10 False 7] [])"
  define s' where "s' = snd (Push (\<lambda>_. 1) ''u'' ''favorites'' [exRecord ''b'' 1 10 False 8] s)"
  have r: "sync_reachable s" unfolding s_def by (rule sync_reachable_Push) (simp add: sync_reachable_def)
  have step: "sync_step\<^sup>*\<^sup>* s s'" unfolding s'_def by (rule r_into_rtranclp) (rule sync_step.push)
  obtain rs where rs: "Pull ''u'' ''favorites'' (Watermark ''u'' ''favorites'' s) s' = Inr rs" "rs \<noteq> []"
    by (simp add: s_def s'_def sync_eval_simps Pull_def Watermark_def pullScope_def)
  show ?thesis using r step rs sync_delta_pull_replicates [OF r step rs(1)] by blast
qed

text \<open>
  C9: In every reachable store a pull returns exactly the records of the scope that are newer
  than the watermark it was given, in strictly increasing order of revision, and the answer
  does not depend on how Go ranges over the map or sorts ties: every sorted arrangement of
  these records is this one.
\<close>

theorem sync_pull_exact:
  assumes "sync_reachable s" and "Pull u sc since s = Inr rs"
  shows "set rs = {r. serverView (scopeFor s u sc) (recID r) = Some r \<and> recRevision r > since} \<and>
    sorted_wrt (<) (map recRevision rs) \<and>
    (\<forall>xs. mset xs = mset (filter (\<lambda>r. recRevision r > since)
            (map (storedRecord \<circ> snd) (scopeRecords (scopeFor s u sc)))) \<longrightarrow>
          sorted (map recRevision xs) \<longrightarrow> xs = rs)"
proof (intro conjI)
  have inv: "scopeInv (scopeFor s u sc)"
    using assms(1) by (intro scopeInv_scopeFor sync_reachable_inv)
  have rs: "rs = pullScope (scopeFor s u sc) since"
    using assms(2) by (simp add: Pull_scopeFor split: if_splits)
  show "set rs = {r. serverView (scopeFor s u sc) (recID r) = Some r \<and> recRevision r > since}"
    using inv by (simp add: rs set_pullScope)
  show "sorted_wrt (<) (map recRevision rs)" using inv by (simp add: rs sorted_distinct_pull)
  show "\<forall>xs. mset xs = mset (filter (\<lambda>r. recRevision r > since)
            (map (storedRecord \<circ> snd) (scopeRecords (scopeFor s u sc)))) \<longrightarrow>
          sorted (map recRevision xs) \<longrightarrow> xs = rs"
    using pullScope_unique [OF inv] by (simp add: rs)
qed

theorem sync_pull_exact_witness:
  "\<exists>(s :: nat sync_store) rs. sync_reachable s \<and> Pull ''u'' ''queueState'' 0 s = Inr rs \<and>
     map recRevision rs = [1, 2] \<and> sorted_wrt (<) (map recRevision rs)"
proof -
  define s :: "nat sync_store" where
    "s = snd (Push (\<lambda>_. 1) ''u'' ''queueState'' [exRecord ''a'' 9 10 False 7, exRecord ''b'' 3 5 True 7] [])"
  have r: "sync_reachable s" unfolding s_def by (rule sync_reachable_Push) (simp add: sync_reachable_def)
  obtain rs where rs: "Pull ''u'' ''queueState'' 0 s = Inr rs" "map recRevision rs = [1, 2]"
    by (simp add: s_def sync_eval_simps Pull_def pullScope_def)
  show ?thesis using r rs sync_pull_exact [OF r rs(1)] by auto
qed

text \<open>
  C7: In every reachable store every scope belongs to the fixed list, holds at most 10,000
  records, none with an empty id, and its records carry pairwise different server revisions
  between 1 and the scope's watermark.
\<close>

theorem sync_reachable_scope_invariant:
  assumes "sync_reachable s" and "map_of s u = Some byScope" and "map_of byScope sc = Some state"
  shows "sc \<in> set ValidScopes \<and> length (scopeRecords state) \<le> 10000 \<and> scopeInv state"
proof -
  have "storeInv s" using assms(1) by (rule sync_reachable_inv)
  with assms(2,3) have "sc \<in> set ValidScopes" and inv: "scopeInv state" by (auto simp: storeInv_def)
  then show ?thesis by (simp add: scopeInv_def MaxRecordsPerScope_def)
qed

theorem sync_reachable_scope_invariant_witness:
  "\<exists>(s :: nat sync_store) byScope state. sync_reachable s \<and> map_of s ''u'' = Some byScope \<and>
     map_of byScope ''social'' = Some state \<and> length (scopeRecords state) = 1 \<and> scopeInv state"
proof -
  define s :: "nat sync_store" where
    "s = snd (Push (\<lambda>_. 1) ''u'' ''social'' [exRecord ''a'' 9 10 False 7] [])"
  have r: "sync_reachable s" unfolding s_def by (rule sync_reachable_Push) (simp add: sync_reachable_def)
  obtain byScope state where m: "map_of s ''u'' = Some byScope" "map_of byScope ''social'' = Some state"
    "length (scopeRecords state) = 1"
    by (simp add: s_def sync_eval_simps)
  show ?thesis using r m sync_reachable_scope_invariant [OF r m(1,2)] by blast
qed

text \<open>
  When the ids of a batch differ, the observer hears that the scope advanced exactly when
  the push moved the watermark, once it has, with the new watermark as revision and the
  pushing device as origin.
\<close>

theorem sync_scope_advanced_event:
  assumes "sync_reachable s" and "Push clock u sc rs s = (Inr results, s')" and "distinct (map recID rs)"
  shows "ObserveScopeAdvanced u' d sc' rv t \<in> set (notify True u dev sc rs results now) \<longleftrightarrow>
           Watermark u sc s < Watermark u sc s' \<and>
           u' = u \<and> d = trim_space dev \<and> sc' = sc \<and> rv = Watermark u sc s' \<and> t = now"
  by (rule notify_scope_advanced [OF assms(2) sync_reachable_inv [OF assms(1)] assms(3)])

theorem sync_scope_advanced_event_witness:
  "\<exists>results s'. Push (\<lambda>_. 1) ''u'' ''social'' [exRecord ''a'' 9 10 False 7] [] = (Inr results, s') \<and>
     ObserveScopeAdvanced ''u'' (trim_space ''phone'') ''social'' 1 99
       \<in> set (notify True ''u'' ''phone'' ''social'' [exRecord ''a'' 9 10 False 7] results 99)"
proof -
  have r: "sync_reachable ([] :: nat sync_store)" by (simp add: sync_reachable_def)
  obtain results s' where p: "Push (\<lambda>_. 1) ''u'' ''social'' [exRecord ''a'' 9 10 False 7] [] = (Inr results, s')"
    and w: "Watermark ''u'' ''social'' s' = 1"
    by (simp add: sync_eval_simps Watermark_def)
  have "Watermark ''u'' ''social'' ([] :: nat sync_store) = 0" by (simp add: Watermark_def)
  with p w sync_scope_advanced_event [OF r p, of "''u''" "trim_space ''phone''" "''social''" 1 99 "''phone''" 99]
  show ?thesis by auto
qed

text \<open>
  A batch that names a record twice, the second time with a version the first one beats,
  moves the scope's watermark and yet no scope-advanced event is sent, so the user's other
  devices are not woken: the handler keeps one outcome per id, the last.
\<close>

theorem sync_duplicate_id_is_silent:
  assumes "Push clock u sc [r, q] s = (Inr results, s')"
    and "recID r = recID q" and "Watermark u sc s < Watermark u sc s'"
    and "\<not> wins (normalizeIncoming (clock 1) sc q) (normalizeIncoming (clock 0) sc r)"
    and "map_of (scopeRecords (scopeFor s u sc)) (recID r) = None"
  shows "ObserveScopeAdvanced u' d sc' rv t \<notin> set (notify True u dev sc [r, q] results now)"
proof -
  have sc: "sc \<in> set ValidScopes" using assms(1) by (auto simp: Push_def split: if_splits)
  let ?st = "scopeFor s u sc"
  obtain state where loop: "pushLoop clock sc 0 [r, q] ?st [] = (Inr results, state)"
    using assms(1) sc by (auto simp: Push_def split: prod.splits)
  then obtain st1 res1 st2 res2 where one: "pushOne (clock 0) sc r ?st = Inr (st1, res1)"
    and two: "pushOne (clock 1) sc q st1 = Inr (st2, res2)"
    and res: "results = put (recID q) res2 (put (recID r) res1 [])"
    by (auto split: sum.splits prod.splits)
  have st1: "st1 = acceptRecord (normalizeIncoming (clock 0) sc r) ?st"
    using one assms(5) by (auto elim!: pushOne_cases)
  have "absScope st1 (recID q) = Some (normalizeIncoming (clock 0) sc r)"
    by (simp add: st1 absScope_acceptRecord assms(2))
  then have "\<not> resAccepted res2"
    using two assms(4) by (auto elim!: pushOne_cases simp: absScope_def)
  then show ?thesis
    by (simp add: scopeAdvanced_in_notify acceptedRevisions_def res assms(2))
qed

theorem sync_duplicate_id_is_silent_witness:
  "\<exists>results s'. Push (\<lambda>_. 1) ''u'' ''social'' [exRecord ''a'' 2 20 False 7, exRecord ''a'' 1 10 False 6] [] =
       (Inr results, s') \<and>
     Watermark ''u'' ''social'' s' = 1 \<and>
     ObserveScopeAdvanced ''u'' [] ''social'' 1 99
       \<notin> set (notify True ''u'' [] ''social'' [exRecord ''a'' 2 20 False 7, exRecord ''a'' 1 10 False 6] results 99)"
proof -
  let ?r = "exRecord ''a'' 2 20 False 7" and ?q = "exRecord ''a'' 1 10 False 6"
  obtain results s' where p: "Push (\<lambda>_. 1) ''u'' ''social'' [?r, ?q] [] = (Inr results, s')"
    and w: "Watermark ''u'' ''social'' s' = 1"
    by (simp add: sync_eval_simps Watermark_def)
  have "ObserveScopeAdvanced ''u'' [] ''social'' 1 99 \<notin> set (notify True ''u'' [] ''social'' [?r, ?q] results 99)"
  proof (rule sync_duplicate_id_is_silent [OF p])
    have "Watermark ''u'' ''social'' ([] :: nat sync_store) = 0" by (simp add: Watermark_def)
    then show "Watermark ''u'' ''social'' ([] :: nat sync_store) < Watermark ''u'' ''social'' s'" by (simp add: w)
  qed (simp_all add: exRecord_def wins_def normalizeIncoming_def zero_time_def scopeFor_def new_scope_def)
  with p w show ?thesis by blast
qed

text \<open>
  A push that fails is not atomic: the store it leaves is the one that a successful push of
  the records before the first refused one would have left, and that record has an empty id or
  would be the 10,001st of its scope.
\<close>

theorem sync_failed_push_keeps_prefix:
  assumes "Push clock u sc rs s = (Inl e, s')" and "sc \<in> set ValidScopes"
  shows "\<exists>k < length rs. \<exists>res. Push clock u sc (take k rs) s = (Inr res, s') \<and>
           ((recID (rs ! k) = '''' \<and> e = ErrRecordInvalid) \<or>
            (map_of (scopeRecords (scopeFor s' u sc)) (recID (rs ! k)) = None \<and>
             length (scopeRecords (scopeFor s' u sc)) \<ge> 10000 \<and> e = ErrScopeFull))"
proof -
  obtain state where loop: "pushLoop clock sc 0 rs (scopeFor s u sc) [] = (Inl e, state)"
    and s': "s' = putScope s u sc state"
    using assms by (auto simp: Push_def split: prod.splits)
  from pushLoop_error [OF loop] obtain k res where k: "k < length rs"
    "pushLoop clock sc 0 (take k rs) (scopeFor s u sc) [] = (Inr res, state)"
    "pushOne (clock (0 + k)) sc (rs ! k) state = Inl e" by blast
  have "Push clock u sc (take k rs) s = (Inr res, s')" using k(2) assms(2) s' by (simp add: Push_eq)
  with k show ?thesis by (auto simp: pushOne_error s' scopeFor_putScope MaxRecordsPerScope_def)
qed

theorem sync_failed_push_keeps_prefix_witness:
  "\<exists>s' res. Push (\<lambda>_. 1) ''u'' ''social'' [exRecord ''a'' 2 20 False 7, exRecord '''' 1 10 False 6] [] =
       (Inl ErrRecordInvalid, s') \<and>
     Push (\<lambda>_. 1) ''u'' ''social'' [exRecord ''a'' 2 20 False 7] [] = (Inr res, s')"
proof -
  let ?rs = "[exRecord ''a'' 2 20 False 7, exRecord '''' 1 10 False 6]"
  obtain s' where p: "Push (\<lambda>_. 1) ''u'' ''social'' ?rs [] = (Inl ErrRecordInvalid, s')"
    by (simp add: sync_eval_simps)
  have "''social'' \<in> set ValidScopes" by (simp add: ValidScopes_def)
  from sync_failed_push_keeps_prefix [OF p this] obtain k res where k: "k < length ?rs"
    "Push (\<lambda>_. 1) ''u'' ''social'' (take k ?rs) [] = (Inr res, s')"
    "recID (?rs ! k) = '''' \<or> length (scopeRecords (scopeFor s' ''u'' ''social'')) \<ge> 10000"
    by blast
  have "length (scopeRecords (scopeFor s' ''u'' ''social'')) = 1"
    using p by (auto simp: sync_eval_simps)
  with k have "k = 1" by (cases k) (auto simp: exRecord_def)
  with k p show ?thesis by auto
qed

end
