(* ===== verification/Backup.thy ===== *)
theory Backup
  imports Httpx
begin

text \<open>
  Backup blobs (\<open>backend/sync/backup.go\<close>, \<open>backend/sync/backup_handler.go\<close>): upload with
  its size cap and pruning, download, listing and deletion, and the handlers. SHA-256 is the
  argument \<open>sha\<close> (bytes to digest), the id factory's answer the argument \<open>suffix\<close>, and
  the answer of a second call of the random source the argument \<open>fallback\<close>.
\<close>

section \<open>Data\<close>

definition MaxBackupBytes :: nat where
  "MaxBackupBytes = 8388608"

definition KeptBackupsPerDevice :: nat where
  "KeptBackupsPerDevice = 3"

record backup =
  bkID :: string
  bkDeviceID :: string
  bkSizeBytes :: nat
  bkSHA256 :: string
  bkCreatedAt :: time

record backup_blob =
  blobMeta :: backup
  blobBytes :: string

datatype backup_error = ErrBackupEmpty | ErrBackupTooLarge | ErrDeviceIDRequired | ErrBackupNotFound

type_synonym backup_store = "(string, backup_blob list) gomap"

definition NewBackupID :: "string option \<Rightarrow> nat \<Rightarrow> string" where
  "NewBackupID random nano =
     (case random of Some buf \<Rightarrow> hex_encode buf | None \<Rightarrow> ''b'' @ show_nat nano)"

definition backupID :: "string \<Rightarrow> string \<Rightarrow> string \<Rightarrow> string" where
  "backupID sum0 suffix0 fallback =
     (let suffix1 = (if length suffix0 > 4 then drop 4 suffix0 else suffix0);
          suffix2 = (if suffix1 = '''' then fallback else suffix1)
      in ''bkp_'' @ hex_encode (take 6 sum0) @ ''_'' @ suffix2)"

section \<open>Operations\<close>

definition newBackup :: "(string \<Rightarrow> string) \<Rightarrow> string \<Rightarrow> string \<Rightarrow> time \<Rightarrow> string \<Rightarrow> string \<Rightarrow> backup" where
  "newBackup sha suffix fallback now deviceID payload =
     \<lparr>bkID = backupID (sha payload) suffix fallback, bkDeviceID = deviceID,
      bkSizeBytes = length payload, bkSHA256 = hex_encode (sha payload), bkCreatedAt = now\<rparr>"

definition Upload ::
  "(string \<Rightarrow> string) \<Rightarrow> string \<Rightarrow> string \<Rightarrow> time \<Rightarrow> string \<Rightarrow> string \<Rightarrow> string \<Rightarrow> backup_store
    \<Rightarrow> (backup_error + backup) \<times> backup_store" where
  "Upload sha suffix fallback now userID deviceID payload s =
     (if length payload = 0 then (Inl ErrBackupEmpty, s)
      else if length payload > MaxBackupBytes then (Inl ErrBackupTooLarge, s)
      else if deviceID = '''' then (Inl ErrDeviceIDRequired, s)
      else
        let meta = newBackup sha suffix fallback now deviceID payload;
            list = get_or [] s userID @ [\<lparr>blobMeta = meta, blobBytes = payload\<rparr>];
            kept = (if length list > KeptBackupsPerDevice
                    then drop (length list - KeptBackupsPerDevice) list else list)
        in (Inr meta, put userID kept s))"

definition Download :: "string \<Rightarrow> string \<Rightarrow> backup_store \<Rightarrow> backup_error + (backup \<times> string)" where
  "Download userID wanted s =
     (case find (\<lambda>blob. bkID (blobMeta blob) = wanted) (get_or [] s userID) of
        Some blob \<Rightarrow> Inr (blobMeta blob, blobBytes blob)
      | None \<Rightarrow> Inl ErrBackupNotFound)"

definition ListBackups :: "string \<Rightarrow> string \<Rightarrow> backup_store \<Rightarrow> backup list" where
  "ListBackups userID deviceID s =
     sort_key (\<lambda>b. - bkCreatedAt b)
       (map blobMeta
         (filter (\<lambda>blob. deviceID = '''' \<or> bkDeviceID (blobMeta blob) = deviceID) (get_or [] s userID)))"

definition DeleteBackup :: "string \<Rightarrow> string \<Rightarrow> backup_store \<Rightarrow> backup_error option \<times> backup_store" where
  "DeleteBackup userID wanted s =
     (let list = get_or [] s userID;
          kept = filter (\<lambda>blob. bkID (blobMeta blob) \<noteq> wanted) list;
          found = list_ex (\<lambda>blob. bkID (blobMeta blob) = wanted) list
      in if \<not> found then (Some ErrBackupNotFound, s) else (None, put userID kept s))"

section \<open>Handlers\<close>

definition backupErrorText :: "backup_error \<Rightarrow> string" where
  "backupErrorText e =
     (case e of
        ErrBackupEmpty \<Rightarrow> ''backup payload is empty''
      | ErrBackupTooLarge \<Rightarrow> ''backup exceeds the size limit''
      | ErrDeviceIDRequired \<Rightarrow> ''deviceId is required''
      | ErrBackupNotFound \<Rightarrow> ''backup not found'')"

definition uploadHandler ::
  "(string \<Rightarrow> string) \<Rightarrow> string \<Rightarrow> string \<Rightarrow> time \<Rightarrow> string \<Rightarrow> string \<Rightarrow> string \<Rightarrow> backup_store
    \<Rightarrow> backup http_response \<times> backup_store" where
  "uploadHandler sha suffix fallback now userID deviceID body s =
     (if userID = '''' then (WriteError StatusUnauthorized ''unauthorized'', s)
      else if length body > MaxBackupBytes + 1
      then (WriteError StatusRequestEntityTooLarge (backupErrorText ErrBackupTooLarge), s)
      else case Upload sha suffix fallback now userID deviceID body s of
             (Inl e, s') \<Rightarrow>
               (WriteError (if e = ErrBackupTooLarge then StatusRequestEntityTooLarge else StatusBadRequest)
                  (backupErrorText e), s')
           | (Inr meta, s') \<Rightarrow> (WriteJSON StatusCreated meta, s'))"

definition listHandler :: "string \<Rightarrow> string \<Rightarrow> backup_store \<Rightarrow> backup list http_response" where
  "listHandler userID deviceID s =
     (if userID = '''' then WriteError StatusUnauthorized ''unauthorized''
      else WriteJSON StatusOK (ListBackups userID deviceID s))"

text \<open>The payload is written with the digest in the header \<open>X-Backup-SHA256\<close>.\<close>

definition downloadHandler :: "string \<Rightarrow> string \<Rightarrow> backup_store \<Rightarrow> (string \<times> string) http_response" where
  "downloadHandler userID wanted s =
     (if userID = '''' then WriteError StatusUnauthorized ''unauthorized''
      else case Download userID wanted s of
             Inl e \<Rightarrow> WriteError StatusNotFound (backupErrorText e)
           | Inr (meta, payload) \<Rightarrow> WriteJSON StatusOK (bkSHA256 meta, payload))"

definition deleteHandler :: "string \<Rightarrow> string \<Rightarrow> backup_store \<Rightarrow> string http_response \<times> backup_store" where
  "deleteHandler userID wanted s =
     (if userID = '''' then (WriteError StatusUnauthorized ''unauthorized'', s)
      else case DeleteBackup userID wanted s of
             (Some e, s') \<Rightarrow> (WriteError StatusNotFound (backupErrorText e), s')
           | (None, s') \<Rightarrow> (WriteJSON StatusOK ''ok'', s'))"

section \<open>Lemmas\<close>

definition backupInv :: "backup_store \<Rightarrow> bool" where
  "backupInv s \<longleftrightarrow> wf_map s \<and> (\<forall>(u, list) \<in> set s. length list \<le> KeptBackupsPerDevice \<and>
     (\<forall>blob \<in> set list. bkSizeBytes (blobMeta blob) = length (blobBytes blob) \<and>
        0 < length (blobBytes blob) \<and> length (blobBytes blob) \<le> MaxBackupBytes \<and>
        bkDeviceID (blobMeta blob) \<noteq> ''''))"

lemma UploadE:
  assumes "Upload sha suffix fallback now u d payload s = (Inr meta, s')"
  obtains "0 < length payload" "length payload \<le> MaxBackupBytes" "d \<noteq> ''''"
    "meta = newBackup sha suffix fallback now d payload"
    "s' = put u (let list = get_or [] s u @ [\<lparr>blobMeta = meta, blobBytes = payload\<rparr>]
                 in drop (length list - KeptBackupsPerDevice) list) s"
  using assms by (auto simp: Upload_def Let_def split: if_splits)

lemma get_or_in_set: "get_or [] s u = list \<Longrightarrow> list \<noteq> [] \<Longrightarrow> (u, list) \<in> set s"
  by (auto simp: get_or_def split: option.splits dest: map_of_SomeD)

lemma backupInv_list:
  assumes "backupInv s"
  shows "length (get_or [] s u) \<le> KeptBackupsPerDevice"
    and "blob \<in> set (get_or [] s u) \<Longrightarrow>
       bkSizeBytes (blobMeta blob) = length (blobBytes blob) \<and> 0 < length (blobBytes blob) \<and>
       length (blobBytes blob) \<le> MaxBackupBytes \<and> bkDeviceID (blobMeta blob) \<noteq> ''''"
  using assms get_or_in_set [of s u "get_or [] s u"]
  by (cases "get_or [] s u = []"; auto simp: backupInv_def KeptBackupsPerDevice_def)+

lemma backupInv_put:
  assumes "backupInv s" and "length list \<le> KeptBackupsPerDevice"
    and "\<And>blob. blob \<in> set list \<Longrightarrow> bkSizeBytes (blobMeta blob) = length (blobBytes blob) \<and>
       0 < length (blobBytes blob) \<and> length (blobBytes blob) \<le> MaxBackupBytes \<and>
       bkDeviceID (blobMeta blob) \<noteq> ''''"
  shows "backupInv (put u list s)"
proof -
  have sub: "set (put u list s) \<subseteq> insert (u, list) (set s)" by (rule set_put_subset)
  have old: "\<forall>(v, l) \<in> set s. length l \<le> KeptBackupsPerDevice \<and>
     (\<forall>blob \<in> set l. bkSizeBytes (blobMeta blob) = length (blobBytes blob) \<and>
        0 < length (blobBytes blob) \<and> length (blobBytes blob) \<le> MaxBackupBytes \<and>
        bkDeviceID (blobMeta blob) \<noteq> '''')"
    using assms(1) unfolding backupInv_def by (rule conjunct2)
  have wf: "wf_map (put u list s)" using assms(1) by (simp add: backupInv_def)
  show ?thesis
    unfolding backupInv_def
  proof (intro conjI wf ballI)
    fix p
    assume "p \<in> set (put u list s)"
    with sub have "p = (u, list) \<or> p \<in> set s" by blast
    then show "case p of (v, l) \<Rightarrow> length l \<le> KeptBackupsPerDevice \<and>
       (\<forall>blob \<in> set l. bkSizeBytes (blobMeta blob) = length (blobBytes blob) \<and>
          0 < length (blobBytes blob) \<and> length (blobBytes blob) \<le> MaxBackupBytes \<and>
          bkDeviceID (blobMeta blob) \<noteq> '''')"
    proof
      assume "p = (u, list)"
      then show ?thesis using assms(2,3) by simp
    next
      assume "p \<in> set s"
      then show ?thesis by (rule bspec [OF old])
    qed
  qed
qed

lemma backupInv_Upload [go_invariants]:
  assumes inv: "backupInv s"
  shows "backupInv (snd (Upload sha suffix fallback now u d payload s))"
proof (cases "Upload sha suffix fallback now u d payload s")
  case (Pair r s')
  show ?thesis
  proof (cases r)
    case (Inl e)
    then show ?thesis using inv Pair by (auto simp: Upload_def Let_def split: if_splits)
  next
    case (Inr meta)
    with Pair have "Upload sha suffix fallback now u d payload s = (Inr meta, s')" by simp
    then show ?thesis
    proof (rule UploadE)
      let ?list = "get_or [] s u @ [\<lparr>blobMeta = meta, blobBytes = payload\<rparr>]"
      assume p: "0 < length payload" "length payload \<le> MaxBackupBytes" "d \<noteq> ''''"
        and meta: "meta = newBackup sha suffix fallback now d payload"
        and s': "s' = put u (let list = ?list in drop (length list - KeptBackupsPerDevice) list) s"
      have "backupInv (put u (drop (length ?list - KeptBackupsPerDevice) ?list) s)"
      proof (rule backupInv_put [OF inv])
        show "length (drop (length ?list - KeptBackupsPerDevice) ?list) \<le> KeptBackupsPerDevice" by simp
      next
        fix blob
        assume "blob \<in> set (drop (length ?list - KeptBackupsPerDevice) ?list)"
        then have "blob \<in> set (get_or [] s u) \<or> blob = \<lparr>blobMeta = meta, blobBytes = payload\<rparr>"
          by (auto dest: in_set_dropD)
        then show "bkSizeBytes (blobMeta blob) = length (blobBytes blob) \<and>
           0 < length (blobBytes blob) \<and> length (blobBytes blob) \<le> MaxBackupBytes \<and>
           bkDeviceID (blobMeta blob) \<noteq> ''''"
          using backupInv_list(2) [OF inv] p by (auto simp: meta newBackup_def)
      qed
      then show ?thesis by (simp add: Pair s' Let_def)
    qed
  qed
qed

lemma backupInv_Delete [go_invariants]:
  assumes inv: "backupInv s"
  shows "backupInv (snd (DeleteBackup u wanted s))"
proof -
  have "backupInv (put u (filter (\<lambda>blob. bkID (blobMeta blob) \<noteq> wanted) (get_or [] s u)) s)"
  proof (rule backupInv_put [OF inv])
    show "length (filter (\<lambda>blob. bkID (blobMeta blob) \<noteq> wanted) (get_or [] s u)) \<le> KeptBackupsPerDevice"
      using backupInv_list(1) [OF inv, of u] length_filter_le order_trans by blast
  qed (use backupInv_list(2) [OF inv] in auto)
  with inv show ?thesis by (auto simp: DeleteBackup_def Let_def)
qed

text \<open>A run of uploads of one user.\<close>

record upload_request =
  upSuffix :: string
  upFallback :: string
  upNow :: time
  upDevice :: string
  upPayload :: string

fun uploadAll :: "(string \<Rightarrow> string) \<Rightarrow> string \<Rightarrow> upload_request list \<Rightarrow> backup_store \<Rightarrow> backup_store" where
  "uploadAll sha u [] s = s"
| "uploadAll sha u (r # rs) s =
     uploadAll sha u rs (snd (Upload sha (upSuffix r) (upFallback r) (upNow r) u (upDevice r) (upPayload r) s))"

definition validUpload :: "upload_request \<Rightarrow> bool" where
  "validUpload r \<longleftrightarrow> 0 < length (upPayload r) \<and> length (upPayload r) \<le> MaxBackupBytes \<and> upDevice r \<noteq> ''''"

definition blobOf :: "(string \<Rightarrow> string) \<Rightarrow> upload_request \<Rightarrow> backup_blob" where
  "blobOf sha r =
     \<lparr>blobMeta = newBackup sha (upSuffix r) (upFallback r) (upNow r) (upDevice r) (upPayload r),
      blobBytes = upPayload r\<rparr>"

definition lastKept :: "backup_blob list \<Rightarrow> backup_blob list" where
  "lastKept list = drop (length list - KeptBackupsPerDevice) list"

lemma lastKept_lastKept: "lastKept (lastKept xs @ ys) = lastKept (xs @ ys)"
  by (cases "length xs \<le> KeptBackupsPerDevice") (simp_all add: lastKept_def add.commute)

lemma Upload_valid:
  "validUpload r \<Longrightarrow>
     snd (Upload sha (upSuffix r) (upFallback r) (upNow r) u (upDevice r) (upPayload r) s) =
       put u (lastKept (get_or [] s u @ [blobOf sha r])) s"
  by (auto simp: Upload_def validUpload_def blobOf_def lastKept_def Let_def)

lemma uploadAll_kept:
  "list_all validUpload rs \<Longrightarrow> length (get_or [] s u) \<le> KeptBackupsPerDevice \<Longrightarrow>
     get_or [] (uploadAll sha u rs s) u = lastKept (get_or [] s u @ map (blobOf sha) rs)"
proof (induction rs arbitrary: s)
  case (Cons r rs)
  let ?s1 = "put u (lastKept (get_or [] s u @ [blobOf sha r])) s"
  have "uploadAll sha u (r # rs) s = uploadAll sha u rs ?s1"
    using Cons.prems by (simp add: Upload_valid)
  moreover have "length (get_or [] ?s1 u) \<le> KeptBackupsPerDevice" by (simp add: lastKept_def)
  ultimately show ?case using Cons by (simp add: lastKept_lastKept)
qed (simp add: lastKept_def)

section \<open>Properties\<close>

text \<open>
  C31: A backup that was accepted can be downloaded again: the bytes are those uploaded, the
  metadata carries their length and digest; every other user's blobs are untouched. The id
  must not already name one of the user's kept blobs.
\<close>

theorem backup_upload_download:
  assumes "Upload sha suffix fallback now u d payload s = (Inr meta, s')"
    and "\<forall>blob \<in> set (get_or [] s u). bkID (blobMeta blob) \<noteq> bkID meta"
  shows "Download u (bkID meta) s' = Inr (meta, payload) \<and>
    bkSizeBytes meta = length payload \<and> bkSHA256 meta = hex_encode (sha payload) \<and>
    (\<forall>u'. u' \<noteq> u \<longrightarrow> get_or [] s' u' = get_or [] s u')"
  using assms(1)
proof (rule UploadE)
  let ?new = "\<lparr>blobMeta = meta, blobBytes = payload\<rparr>"
  let ?list = "get_or [] s u @ [?new]"
  let ?n = "length ?list - KeptBackupsPerDevice"
  assume meta: "meta = newBackup sha suffix fallback now d payload"
    and s': "s' = put u (let list = ?list in drop (length list - KeptBackupsPerDevice) list) s"
  have kept: "drop ?n ?list = drop ?n (get_or [] s u) @ [?new]"
    by (simp add: KeptBackupsPerDevice_def)
  have none: "find (\<lambda>blob. bkID (blobMeta blob) = bkID meta) (drop ?n (get_or [] s u)) = None"
    using assms(2) by (auto simp: find_None_iff dest: in_set_dropD)
  have "find P (xs @ [y]) = (if P y then Some y else None)" if "find P xs = None" for P and xs :: "backup_blob list" and y
    using that by (induction xs) (auto split: if_splits)
  from this [OF none, of ?new] kept
  have "find (\<lambda>blob. bkID (blobMeta blob) = bkID meta) (drop ?n ?list) = Some ?new" by simp
  then show ?thesis by (simp add: Download_def s' Let_def meta newBackup_def)
qed

theorem backup_upload_download_witness:
  "\<exists>meta s'. Upload (\<lambda>_. ''0123456789'') ''xxxxAB'' '''' 5 ''u'' ''phone'' ''data'' [] = (Inr meta, s') \<and>
     Download ''u'' (bkID meta) s' = Inr (meta, ''data'')"
proof -
  obtain meta s' where up: "Upload (\<lambda>_. ''0123456789'') ''xxxxAB'' '''' 5 ''u'' ''phone'' ''data'' [] = (Inr meta, s')"
    by (simp add: Upload_def MaxBackupBytes_def Let_def)
  have "\<forall>blob \<in> set (get_or [] [] ''u''). bkID (blobMeta blob) \<noteq> bkID meta" by (simp add: get_or_def)
  from up backup_upload_download [OF up this] show ?thesis by blast
qed

text \<open>
  Whatever a user uploads, exactly the three newest accepted blobs of the user are kept,
  in upload order, whichever devices they came from.
\<close>

theorem backup_keeps_last_three:
  assumes "list_all validUpload rs" and "length (get_or [] s u) \<le> 3"
  shows "get_or [] (uploadAll sha u rs s) u =
    (let all = get_or [] s u @ map (blobOf sha) rs in drop (length all - 3) all)"
  using uploadAll_kept [of rs s u sha] assms by (simp add: lastKept_def KeptBackupsPerDevice_def Let_def)

definition exUpload :: "string \<Rightarrow> string \<Rightarrow> upload_request" where
  "exUpload d p = \<lparr>upSuffix = ''abcdef'', upFallback = '''', upNow = 1, upDevice = d, upPayload = p\<rparr>"

theorem backup_keeps_last_three_witness:
  "map (bkDeviceID \<circ> blobMeta) (get_or [] (uploadAll (\<lambda>_. '''') ''u''
      [exUpload ''tablet'' ''a'', exUpload ''phone'' ''b'', exUpload ''phone'' ''c'', exUpload ''phone'' ''d''] []) ''u'') =
     [''phone'', ''phone'', ''phone'']"
proof -
  let ?rs = "[exUpload ''tablet'' ''a'', exUpload ''phone'' ''b'', exUpload ''phone'' ''c'', exUpload ''phone'' ''d'']"
  have "list_all validUpload ?rs" by (simp add: validUpload_def exUpload_def MaxBackupBytes_def)
  from backup_keeps_last_three [OF this, of "[]" "''u''" "\<lambda>_. ''''"] show ?thesis
    by (simp add: get_or_def blobOf_def newBackup_def exUpload_def)
qed

text \<open>
  The cap named per device is per user: three accepted uploads of one device leave no
  backup of any other device of the same user.
\<close>

theorem backup_pruning_crosses_devices:
  assumes "validUpload r1" and "validUpload r2" and "validUpload r3"
    and "upDevice r1 = d" and "upDevice r2 = d" and "upDevice r3 = d" and "d' \<noteq> d" and "d' \<noteq> ''''"
    and "backupInv s"
  shows "ListBackups u d' (uploadAll sha u [r1, r2, r3] s) = []"
proof -
  have "length (get_or [] s u) \<le> KeptBackupsPerDevice" using assms(9) by (rule backupInv_list)
  then have "get_or [] (uploadAll sha u [r1, r2, r3] s) u = map (blobOf sha) [r1, r2, r3]"
    using assms(1-3) by (subst uploadAll_kept) (simp_all add: lastKept_def KeptBackupsPerDevice_def del: uploadAll.simps)
  then show ?thesis
    using assms(4-8) by (simp add: ListBackups_def blobOf_def newBackup_def del: uploadAll.simps)
qed

theorem backup_pruning_crosses_devices_witness:
  "ListBackups ''u'' ''tablet'' (uploadAll (\<lambda>_. '''') ''u''
      [exUpload ''phone'' ''b'', exUpload ''phone'' ''c'', exUpload ''phone'' ''d'']
      (snd (Upload (\<lambda>_. '''') ''s'' '''' 1 ''u'' ''tablet'' ''a'' []))) = []"
proof -
  have inv: "backupInv (snd (Upload (\<lambda>_. '''') ''s'' '''' 1 ''u'' ''tablet'' ''a'' []))"
    by (rule backupInv_Upload) (simp add: backupInv_def)
  have v: "validUpload (exUpload ''phone'' p)" if "p \<in> {''b'', ''c'', ''d''}" for p
    using that by (auto simp: validUpload_def exUpload_def MaxBackupBytes_def)
  show ?thesis
    by (rule backup_pruning_crosses_devices [where d = "''phone''", OF _ _ _ _ _ _ _ _ inv])
      (simp_all add: v, simp_all add: exUpload_def)
qed

end
