(* ===== verification/Hub.thy ===== *)
theory Hub
  imports SyncStore
begin

text \<open>
  The realtime event hub (\<open>backend/cloud/hub.go\<close>, \<open>backend/cloud/events.go\<close>,
  \<open>backend/cloud/observer.go\<close>). Go channels live in an explicit store: a channel is its
  buffer and a closed flag, a subscriber holds the index of its channel, and closing a closed
  channel or sending on one is a panic, a value of the model. The hub's lock makes its operations
  atomic, so a run is a sequence of operations; a receive by the consumer is one of them.
  Marshalling an event is the argument \<open>encode\<close>, unmarshalling \<open>decode\<close>.
\<close>

section \<open>Events\<close>

record event =
  evKind :: string
  evScope :: string
  evRevision :: int
  evOrigin :: string
  evPayload :: "string option"
  evAt :: time

definition EventSync :: string where "EventSync = ''sync''"
definition EventContinuity :: string where "EventContinuity = ''continuity''"
definition EventDeviceRevoked :: string where "EventDeviceRevoked = ''device.revoked''"
definition EventDevices :: string where "EventDevices = ''devices''"

definition NewSyncEvent :: "string \<Rightarrow> int \<Rightarrow> string \<Rightarrow> time \<Rightarrow> event" where
  "NewSyncEvent scope revision origin at =
     \<lparr>evKind = EventSync, evScope = scope, evRevision = revision, evOrigin = origin,
      evPayload = None, evAt = at\<rparr>"

text \<open>\<open>payload\<close> is the marshalled state, \<open>None\<close> when marshalling failed.\<close>

definition NewContinuityEvent :: "string \<Rightarrow> string option \<Rightarrow> time \<Rightarrow> event" where
  "NewContinuityEvent deviceID payload at =
     \<lparr>evKind = EventContinuity, evScope = '''', evRevision = 0, evOrigin = deviceID,
      evPayload = payload, evAt = at\<rparr>"

definition NewDeviceEvent :: "string \<Rightarrow> string \<Rightarrow> time \<Rightarrow> event" where
  "NewDeviceEvent kind deviceID at =
     \<lparr>evKind = kind, evScope = '''', evRevision = 0, evOrigin = deviceID, evPayload = None, evAt = at\<rparr>"

section \<open>Redis channel names\<close>

definition channelPrefix :: string where
  "channelPrefix = ''spotiflac:events:''"

definition UserChannel :: "string \<Rightarrow> string" where
  "UserChannel userID = channelPrefix @ userID"

definition UserFromChannel :: "string \<Rightarrow> string" where
  "UserFromChannel channel =
     (if starts_with channelPrefix channel then drop (length channelPrefix) channel else '''')"

section \<open>Channels\<close>

record channel =
  chanBuf :: "event list"
  chanClosed :: bool

datatype hub_panic = CloseOfClosedChannel | SendOnClosedChannel

definition closeChan :: "nat \<Rightarrow> channel list \<Rightarrow> hub_panic + channel list" where
  "closeChan c chans =
     (if chanClosed (chans ! c) then Inl CloseOfClosedChannel
      else Inr (chans[c := (chans ! c)\<lparr>chanClosed := True\<rparr>]))"

section \<open>The hub\<close>

definition SubscriberBuffer :: nat where
  "SubscriberBuffer = 64"

record subscriber =
  subDevice :: string
  subEvents :: nat

text \<open>\<open>hubPublisher\<close> tells whether a publisher is configured; \<open>hubChans\<close> is the channel store.\<close>

record hub =
  hubSubs :: "(string, (int, subscriber) gomap) gomap"
  hubNextID :: int
  hubClosed :: bool
  hubPublisher :: bool
  hubChans :: "channel list"

definition NewHub :: "bool \<Rightarrow> hub" where
  "NewHub publisher =
     \<lparr>hubSubs = [], hubNextID = 0, hubClosed = False, hubPublisher = publisher, hubChans = []\<rparr>"

record subscription =
  ssHub :: bool
  ssUser :: string
  ssID :: int
  ssSub :: subscriber

definition Subscribe :: "string \<Rightarrow> string \<Rightarrow> hub \<Rightarrow> hub_panic + (subscription \<times> hub)" where
  "Subscribe userID deviceID h =
     (let sub = \<lparr>subDevice = deviceID, subEvents = length (hubChans h)\<rparr>;
          chans = hubChans h @ [\<lparr>chanBuf = [], chanClosed = False\<rparr>]
      in if hubClosed h then
           (case closeChan (subEvents sub) chans of
              Inl p \<Rightarrow> Inl p
            | Inr chans' \<Rightarrow>
                Inr (\<lparr>ssHub = False, ssUser = userID, ssID = 0, ssSub = sub\<rparr>, h\<lparr>hubChans := chans'\<rparr>))
         else
           let i = hubNextID h + 1;
               byID = put i sub (get_or [] (hubSubs h) userID)
           in Inr (\<lparr>ssHub = True, ssUser = userID, ssID = i, ssSub = sub\<rparr>,
                   h\<lparr>hubNextID := i, hubSubs := put userID byID (hubSubs h), hubChans := chans\<rparr>))"

definition unsubscribe :: "string \<Rightarrow> int \<Rightarrow> hub \<Rightarrow> hub_panic + hub" where
  "unsubscribe userID i h =
     (case map_of (hubSubs h) userID of
        None \<Rightarrow> Inr h
      | Some byID \<Rightarrow>
          (case map_of byID i of
             None \<Rightarrow> Inr h
           | Some sub \<Rightarrow>
               let byID' = del i byID;
                   subs = (if byID' = [] then del userID (hubSubs h) else put userID byID' (hubSubs h))
               in (case closeChan (subEvents sub) (hubChans h) of
                     Inl p \<Rightarrow> Inl p
                   | Inr chans \<Rightarrow> Inr (h\<lparr>hubSubs := subs, hubChans := chans\<rparr>))))"

definition subscriptionClose :: "subscription \<Rightarrow> hub \<Rightarrow> hub_panic + (subscription \<times> hub)" where
  "subscriptionClose s h =
     (if \<not> ssHub s then Inr (s, h)
      else case unsubscribe (ssUser s) (ssID s) h of
             Inl p \<Rightarrow> Inl p
           | Inr h' \<Rightarrow> Inr (s\<lparr>ssHub := False\<rparr>, h'))"

text \<open>The loop body of \<open>deliverLocal\<close>: echo suppression and the non-blocking select.\<close>

definition deliverOne :: "event \<Rightarrow> subscriber \<Rightarrow> channel list \<Rightarrow> hub_panic + channel list" where
  "deliverOne e sub chans =
     (if evOrigin e \<noteq> '''' \<and> subDevice sub = evOrigin e then Inr chans
      else let ch = chans ! subEvents sub
           in if chanClosed ch then Inl SendOnClosedChannel
              else if length (chanBuf ch) < SubscriberBuffer
              then Inr (chans[subEvents sub := ch\<lparr>chanBuf := chanBuf ch @ [e]\<rparr>])
              else Inr chans)"

fun deliverLoop :: "event \<Rightarrow> (int \<times> subscriber) list \<Rightarrow> channel list \<Rightarrow> hub_panic + channel list" where
  "deliverLoop e [] chans = Inr chans"
| "deliverLoop e ((i, sub) # rest) chans =
     (case deliverOne e sub chans of
        Inl p \<Rightarrow> Inl p
      | Inr chans' \<Rightarrow> deliverLoop e rest chans')"

definition deliverLocal :: "string \<Rightarrow> event \<Rightarrow> hub \<Rightarrow> hub_panic + hub" where
  "deliverLocal userID e h =
     (case deliverLoop e (get_or [] (hubSubs h) userID) (hubChans h) of
        Inl p \<Rightarrow> Inl p
      | Inr chans \<Rightarrow> Inr (h\<lparr>hubChans := chans\<rparr>))"

text \<open>Besides the hub, \<open>Broadcast\<close> yields what it hands to the publisher.\<close>

definition Broadcast ::
  "(event \<Rightarrow> string option) \<Rightarrow> string \<Rightarrow> event \<Rightarrow> hub \<Rightarrow> hub_panic + ((string \<times> string) list \<times> hub)" where
  "Broadcast encode userID e h =
     (case deliverLocal userID e h of
        Inl p \<Rightarrow> Inl p
      | Inr h' \<Rightarrow>
          Inr (if \<not> hubPublisher h' then []
               else (case encode e of None \<Rightarrow> [] | Some payload \<Rightarrow> [(UserChannel userID, payload)]), h'))"

text \<open>\<open>Bridge\<close> over the messages that arrive before it is cancelled.\<close>

fun Bridge :: "(string \<Rightarrow> event option) \<Rightarrow> (string \<times> string) list \<Rightarrow> hub \<Rightarrow> hub_panic + hub" where
  "Bridge decode [] h = Inr h"
| "Bridge decode ((channel, payload) # msgs) h =
     (let userID = UserFromChannel channel
      in if userID = '''' then Bridge decode msgs h
         else case decode payload of
                None \<Rightarrow> Bridge decode msgs h
              | Some e \<Rightarrow>
                  (case deliverLocal userID e h of
                     Inl p \<Rightarrow> Inl p
                   | Inr h' \<Rightarrow> Bridge decode msgs h'))"

definition Connections :: "string \<Rightarrow> hub \<Rightarrow> nat" where
  "Connections userID h = length (get_or [] (hubSubs h) userID)"

fun closeAll :: "nat list \<Rightarrow> channel list \<Rightarrow> hub_panic + channel list" where
  "closeAll [] chans = Inr chans"
| "closeAll (c # cs) chans =
     (case closeChan c chans of Inl p \<Rightarrow> Inl p | Inr chans' \<Rightarrow> closeAll cs chans')"

definition subChans :: "(string, (int, subscriber) gomap) gomap \<Rightarrow> nat list" where
  "subChans subs = concat (map (\<lambda>(u, byID). map (\<lambda>(i, sub). subEvents sub) byID) subs)"

definition HubClose :: "hub \<Rightarrow> hub_panic + hub" where
  "HubClose h =
     (if hubClosed h then Inr h
      else case closeAll (subChans (hubSubs h)) (hubChans h) of
             Inl p \<Rightarrow> Inl p
           | Inr chans \<Rightarrow> Inr (h\<lparr>hubClosed := True, hubSubs := [], hubChans := chans\<rparr>))"

text \<open>A receive on an event channel: it blocks, reports a closed channel, or takes an event.\<close>

datatype received = RecvBlocks | RecvClosed | RecvEvent event

definition Receive :: "nat \<Rightarrow> hub \<Rightarrow> received \<times> hub" where
  "Receive c h =
     (if length (hubChans h) \<le> c then (RecvBlocks, h)
      else case chanBuf (hubChans h ! c) of
             e # es \<Rightarrow> (RecvEvent e, h\<lparr>hubChans := (hubChans h)[c := (hubChans h ! c)\<lparr>chanBuf := es\<rparr>]\<rparr>)
           | [] \<Rightarrow> ((if chanClosed (hubChans h ! c) then RecvClosed else RecvBlocks), h))"

section \<open>Operations as steps\<close>

datatype hub_op =
    OpSubscribe string string
  | OpUnsubscribe string int
  | OpDeliver string event
  | OpReceive nat
  | OpClose

fun runOp :: "hub_op \<Rightarrow> hub \<Rightarrow> hub_panic + hub" where
  "runOp (OpSubscribe u d) h = (case Subscribe u d h of Inl p \<Rightarrow> Inl p | Inr (s, h') \<Rightarrow> Inr h')"
| "runOp (OpUnsubscribe u i) h = unsubscribe u i h"
| "runOp (OpDeliver u e) h = deliverLocal u e h"
| "runOp (OpReceive c) h = Inr (snd (Receive c h))"
| "runOp OpClose h = HubClose h"

fun runOps :: "hub_op list \<Rightarrow> hub \<Rightarrow> hub_panic + hub" where
  "runOps [] h = Inr h"
| "runOps (op # ops) h = (case runOp op h of Inl p \<Rightarrow> Inl p | Inr h' \<Rightarrow> runOps ops h')"

inductive hub_reachable :: "hub \<Rightarrow> bool" where
  hub_new: "hub_reachable (NewHub publisher)"
| hub_op: "hub_reachable h \<Longrightarrow> runOp op h = Inr h' \<Longrightarrow> hub_reachable h'"

section \<open>The invariant\<close>

definition registered :: "(string, (int, subscriber) gomap) gomap \<Rightarrow> string \<Rightarrow> int \<Rightarrow> subscriber option" where
  "registered subs u i = (case map_of subs u of None \<Rightarrow> None | Some byID \<Rightarrow> map_of byID i)"

definition tablesOK :: "(string, (int, subscriber) gomap) gomap \<Rightarrow> bool" where
  "tablesOK subs \<longleftrightarrow> wf_map subs \<and> (\<forall>u t. map_of subs u = Some t \<longrightarrow> wf_map t \<and> t \<noteq> [])"

definition chansOK :: "(string, (int, subscriber) gomap) gomap \<Rightarrow> int \<Rightarrow> channel list \<Rightarrow> bool" where
  "chansOK subs n chans \<longleftrightarrow>
     (\<forall>u i s. registered subs u i = Some s \<longrightarrow>
        subEvents s < length chans \<and> \<not> chanClosed (chans ! subEvents s) \<and> i \<le> n) \<and>
     (\<forall>u i s u' i' s'. registered subs u i = Some s \<longrightarrow> registered subs u' i' = Some s' \<longrightarrow>
        subEvents s = subEvents s' \<longrightarrow> u = u' \<and> i = i') \<and>
     (\<forall>c < length chans. \<not> chanClosed (chans ! c) \<longrightarrow> (\<exists>u i s. registered subs u i = Some s \<and> subEvents s = c)) \<and>
     (\<forall>c < length chans. length (chanBuf (chans ! c)) \<le> SubscriberBuffer)"

definition hubInv :: "hub \<Rightarrow> bool" where
  "hubInv h \<longleftrightarrow> tablesOK (hubSubs h) \<and> chansOK (hubSubs h) (hubNextID h) (hubChans h) \<and>
     (hubClosed h \<longrightarrow> hubSubs h = [])"

lemma tablesOK_D:
  "tablesOK subs \<Longrightarrow> wf_map subs"
  "tablesOK subs \<Longrightarrow> map_of subs u = Some t \<Longrightarrow> wf_map t"
  "tablesOK subs \<Longrightarrow> map_of subs u = Some t \<Longrightarrow> t \<noteq> []"
  by (simp_all add: tablesOK_def)

lemma chansOK_D:
  "chansOK subs n chans \<Longrightarrow> registered subs u i = Some s \<Longrightarrow> subEvents s < length chans"
  "chansOK subs n chans \<Longrightarrow> registered subs u i = Some s \<Longrightarrow> \<not> chanClosed (chans ! subEvents s)"
  "chansOK subs n chans \<Longrightarrow> registered subs u i = Some s \<Longrightarrow> i \<le> n"
  "chansOK subs n chans \<Longrightarrow> registered subs u i = Some s \<Longrightarrow> registered subs u' i' = Some s' \<Longrightarrow>
     subEvents s = subEvents s' \<Longrightarrow> u = u' \<and> i = i'"
  "chansOK subs n chans \<Longrightarrow> c < length chans \<Longrightarrow> \<not> chanClosed (chans ! c) \<Longrightarrow>
     \<exists>u i s. registered subs u i = Some s \<and> subEvents s = c"
  "chansOK subs n chans \<Longrightarrow> c < length chans \<Longrightarrow> length (chanBuf (chans ! c)) \<le> SubscriberBuffer"
  by (fastforce simp: chansOK_def)+

lemma registered_put:
  "registered (put u t subs) v i = (if v = u then map_of t i else registered subs v i)"
  by (simp add: registered_def)

lemma registered_del: "registered (del u subs) v i = (if v = u then None else registered subs v i)"
  by (simp add: registered_def)

lemma registered_Nil [simp]: "registered [] u i = None"
  by (simp add: registered_def)

lemma registered_get_or: "map_of (get_or [] subs u) i = registered subs u i"
  by (simp add: registered_def get_or_def split: option.splits)

lemma tablesOK_get_or: "tablesOK subs \<Longrightarrow> wf_map (get_or [] subs u)"
  by (simp add: get_or_def tablesOK_D split: option.splits)

lemma hubInv_New [simp, intro]: "hubInv (NewHub publisher)"
  by (simp add: hubInv_def NewHub_def tablesOK_def chansOK_def)

lemma put_not_Nil [simp]: "put k v m \<noteq> []"
  by (cases m) (auto split: if_splits)

lemma tablesOK_put: "tablesOK subs \<Longrightarrow> wf_map t \<Longrightarrow> t \<noteq> [] \<Longrightarrow> tablesOK (put u t subs)"
  by (simp add: tablesOK_def)

lemma tablesOK_del: "tablesOK subs \<Longrightarrow> tablesOK (del u subs)"
  by (simp add: tablesOK_def)

lemma hubInv_Subscribe:
  assumes inv: "hubInv h"
  shows "\<exists>s h'. Subscribe u d h = Inr (s, h') \<and> hubInv h'"
proof (cases "hubClosed h")
  case True
  let ?chans = "(hubChans h @ [\<lparr>chanBuf = [], chanClosed = False\<rparr>])
    [length (hubChans h) := \<lparr>chanBuf = [], chanClosed = True\<rparr>]"
  have "chansOK [] (hubNextID h) ?chans"
    using inv True by (auto simp: hubInv_def chansOK_def nth_append less_Suc_eq)
  with inv True show ?thesis
    by (simp add: Subscribe_def closeChan_def hubInv_def tablesOK_def)
next
  case False
  let ?c = "length (hubChans h)" and ?n = "hubNextID h + 1"
  let ?sub = "\<lparr>subDevice = d, subEvents = ?c\<rparr>"
  let ?chans = "hubChans h @ [\<lparr>chanBuf = [], chanClosed = False\<rparr>]"
  let ?byID = "put ?n ?sub (get_or [] (hubSubs h) u)"
  let ?subs = "put u ?byID (hubSubs h)"
  have t: "tablesOK (hubSubs h)" and c: "chansOK (hubSubs h) (hubNextID h) (hubChans h)"
    using inv by (simp_all add: hubInv_def)
  have reg: "registered ?subs v i =
      (if v = u \<and> i = ?n then Some ?sub else registered (hubSubs h) v i)" for v i
    by (simp add: registered_put registered_get_or)
  have "tablesOK ?subs" using t by (simp add: tablesOK_put tablesOK_get_or)
  moreover have "chansOK ?subs ?n ?chans"
    unfolding chansOK_def reg
  proof (intro conjI allI impI)
    fix v i s
    assume r: "(if v = u \<and> i = ?n then Some ?sub else registered (hubSubs h) v i) = Some s"
    show "subEvents s < length ?chans" using r chansOK_D(1) [OF c, of v i s] by (auto split: if_splits)
    show "\<not> chanClosed (?chans ! subEvents s)"
      using r chansOK_D(1,2) [OF c, of v i s] by (auto simp: nth_append split: if_splits)
    show "i \<le> ?n" using r chansOK_D(3) [OF c, of v i s] by (simp split: if_splits)
  next
    fix v i s v' i' s'
    assume r: "(if v = u \<and> i = ?n then Some ?sub else registered (hubSubs h) v i) = Some s"
      and r': "(if v' = u \<and> i' = ?n then Some ?sub else registered (hubSubs h) v' i') = Some s'"
      and eq: "subEvents s = subEvents s'"
    show "v = v'" using r r' eq chansOK_D(1) [OF c, of v i s] chansOK_D(1) [OF c, of v' i' s']
        chansOK_D(4) [OF c, of v i s v' i' s'] by (auto split: if_splits)
    show "i = i'" using r r' eq chansOK_D(1) [OF c, of v i s] chansOK_D(1) [OF c, of v' i' s']
        chansOK_D(4) [OF c, of v i s v' i' s'] by (auto split: if_splits)
  next
    fix k
    assume k: "k < length ?chans" and o: "\<not> chanClosed (?chans ! k)"
    show "\<exists>v i s. (if v = u \<and> i = ?n then Some ?sub else registered (hubSubs h) v i) = Some s \<and> subEvents s = k"
    proof (cases "k = ?c")
      case True
      then show ?thesis by (intro exI [of _ u] exI [of _ ?n] exI [of _ ?sub]) simp
    next
      case False
      with k o have "k < ?c" "\<not> chanClosed (hubChans h ! k)" by (auto simp: nth_append)
      then obtain v i s where r: "registered (hubSubs h) v i = Some s" "subEvents s = k"
        using chansOK_D(5) [OF c] by blast
      moreover from chansOK_D(3) [OF c r(1)] have "i \<noteq> ?n" by simp
      ultimately show ?thesis by (intro exI [of _ v] exI [of _ i] exI [of _ s]) simp
    qed
  next
    fix k
    assume "k < length ?chans"
    then show "length (chanBuf (?chans ! k)) \<le> SubscriberBuffer"
      using chansOK_D(6) [OF c, of k] by (auto simp: nth_append less_Suc_eq)
  qed
  ultimately show ?thesis using False by (simp add: Subscribe_def Let_def hubInv_def)
qed

lemma registered_without:
  fixes i :: int
  assumes t: "tablesOK subs" and byID: "map_of subs u = Some byID"
  defines "byID' \<equiv> del i byID"
  defines "subs' \<equiv> (if byID' = [] then del u subs else put u byID' subs)"
  shows "tablesOK subs'"
    and "registered subs' v k = (if v = u \<and> k = i then None else registered subs v k)"
proof -
  show "tablesOK subs'"
    using tablesOK_D(2) [OF t byID] by (simp add: subs'_def byID'_def tablesOK_put tablesOK_del t)
  show "registered subs' v k = (if v = u \<and> k = i then None else registered subs v k)"
  proof (cases "byID' = []")
    case True
    then have "map_of byID' k = None" by simp
    then have "k \<noteq> i \<Longrightarrow> map_of byID k = None" by (simp add: byID'_def)
    with True byID show ?thesis by (auto simp: subs'_def registered_del registered_def)
  next
    case False
    with byID show ?thesis by (auto simp: subs'_def registered_put byID'_def) (simp_all add: registered_def)
  qed
qed

lemma hubInv_unsubscribe:
  assumes inv: "hubInv h"
  shows "\<exists>h'. unsubscribe u i h = Inr h' \<and> hubInv h'"
proof (cases "registered (hubSubs h) u i")
  case None
  with inv show ?thesis by (simp add: unsubscribe_def registered_def split: option.splits)
next
  case (Some sub)
  then obtain byID where byID: "map_of (hubSubs h) u = Some byID" and sub: "map_of byID i = Some sub"
    by (auto simp: registered_def split: option.splits)
  have t: "tablesOK (hubSubs h)" and c: "chansOK (hubSubs h) (hubNextID h) (hubChans h)"
    using inv by (simp_all add: hubInv_def)
  let ?subs = "if del i byID = [] then del u (hubSubs h) else put u (del i byID) (hubSubs h)"
  let ?k = "subEvents sub"
  let ?chans = "(hubChans h)[?k := (hubChans h ! ?k)\<lparr>chanClosed := True\<rparr>]"
  have reg: "registered ?subs v j = (if v = u \<and> j = i then None else registered (hubSubs h) v j)" for v j
    by (rule registered_without(2) [OF t byID])
  have other: "subEvents s \<noteq> ?k" if "registered (hubSubs h) v j = Some s" "v \<noteq> u \<or> j \<noteq> i" for v j s
    using chansOK_D(4) [OF c that(1) Some] that(2) by blast
  have "chansOK ?subs (hubNextID h) ?chans"
    unfolding chansOK_def reg
  proof (intro conjI allI impI)
    fix v j s
    assume r: "(if v = u \<and> j = i then None else registered (hubSubs h) v j) = Some s"
    then have r': "registered (hubSubs h) v j = Some s" and ne: "v \<noteq> u \<or> j \<noteq> i"
      by (auto split: if_splits)
    show "subEvents s < length ?chans" using chansOK_D(1) [OF c r'] by simp
    show "\<not> chanClosed (?chans ! subEvents s)" using chansOK_D(2) [OF c r'] other [OF r' ne] by simp
    show "j \<le> hubNextID h" by (rule chansOK_D(3) [OF c r'])
  next
    fix v j s v' j' s'
    assume "(if v = u \<and> j = i then None else registered (hubSubs h) v j) = Some s"
      and "(if v' = u \<and> j' = i then None else registered (hubSubs h) v' j') = Some s'"
      and eq: "subEvents s = subEvents s'"
    then have "registered (hubSubs h) v j = Some s" "registered (hubSubs h) v' j' = Some s'"
      by (auto split: if_splits)
    from chansOK_D(4) [OF c this eq] show "v = v'" "j = j'" by simp_all
  next
    fix k
    assume k: "k < length ?chans" and o: "\<not> chanClosed (?chans ! k)"
    from o k have ne: "k \<noteq> ?k" by auto
    with k o obtain v j s where r: "registered (hubSubs h) v j = Some s" "subEvents s = k"
      using chansOK_D(5) [OF c, of k] by auto
    with ne Some have "\<not> (v = u \<and> j = i)" by auto
    with r show "\<exists>v j s. (if v = u \<and> j = i then None else registered (hubSubs h) v j) = Some s \<and> subEvents s = k"
      by metis
  next
    fix k
    assume k: "k < length ?chans"
    with chansOK_D(6) [OF c, of k] show "length (chanBuf (?chans ! k)) \<le> SubscriberBuffer"
      by (cases "k = ?k") simp_all
  qed
  moreover have "tablesOK ?subs" by (rule registered_without(1) [OF t byID])
  moreover have "\<not> hubClosed h" using inv byID by (auto simp: hubInv_def)
  ultimately show ?thesis
    using byID sub chansOK_D(2) [OF c Some]
    by (simp add: unsubscribe_def closeChan_def Let_def hubInv_def)
qed

lemma chansOK_same:
  assumes c: "chansOK subs n chans" and len: "length chans' = length chans"
    and closed: "\<And>j. j < length chans \<Longrightarrow> chanClosed (chans' ! j) = chanClosed (chans ! j)"
    and bound: "\<And>j. j < length chans \<Longrightarrow> length (chanBuf (chans' ! j)) \<le> SubscriberBuffer"
  shows "chansOK subs n chans'"
  unfolding chansOK_def
proof (intro conjI allI impI)
  fix v j s assume r: "registered subs v j = Some s"
  show "subEvents s < length chans'" using chansOK_D(1) [OF c r] len by simp
  show "\<not> chanClosed (chans' ! subEvents s)" using chansOK_D(1,2) [OF c r] by (simp add: closed)
  show "j \<le> n" by (rule chansOK_D(3) [OF c r])
next
  fix v j s v' j' s'
  assume r: "registered subs v j = Some s" "registered subs v' j' = Some s'"
    and eq: "subEvents s = subEvents s'"
  from chansOK_D(4) [OF c r eq] show "v = v'" "j = j'" by simp_all
next
  fix j assume "j < length chans'" "\<not> chanClosed (chans' ! j)"
  then show "\<exists>v i s. registered subs v i = Some s \<and> subEvents s = j"
    using chansOK_D(5) [OF c, of j] by (simp add: closed len)
next
  fix j assume "j < length chans'"
  then show "length (chanBuf (chans' ! j)) \<le> SubscriberBuffer" by (simp add: bound len)
qed

lemma hubInv_Receive:
  assumes inv: "hubInv h"
  shows "hubInv (snd (Receive k h))"
proof (cases "k < length (hubChans h) \<and> chanBuf (hubChans h ! k) \<noteq> []")
  case False
  with inv show ?thesis by (auto simp: Receive_def split: list.splits)
next
  case True
  then obtain e es where es: "chanBuf (hubChans h ! k) = e # es" by (cases "chanBuf (hubChans h ! k)") auto
  let ?chans = "(hubChans h)[k := (hubChans h ! k)\<lparr>chanBuf := es\<rparr>]"
  have c: "chansOK (hubSubs h) (hubNextID h) (hubChans h)" using inv by (simp add: hubInv_def)
  have closed: "chanClosed (?chans ! j) = chanClosed (hubChans h ! j)" if "j < length (hubChans h)" for j
    using that by (cases "j = k") simp_all
  have buf: "length (chanBuf (?chans ! j)) \<le> SubscriberBuffer" if "j < length (hubChans h)" for j
    using that chansOK_D(6) [OF c that] es by (cases "j = k") simp_all
  have "chansOK (hubSubs h) (hubNextID h) ?chans"
    by (rule chansOK_same [OF c]) (simp_all add: closed buf)
  with True inv es show ?thesis by (simp add: Receive_def hubInv_def)
qed

section \<open>Delivery\<close>

definition eligible :: "event \<Rightarrow> subscriber \<Rightarrow> bool" where
  "eligible e sub \<longleftrightarrow> evOrigin e = '''' \<or> subDevice sub \<noteq> evOrigin e"

definition offer :: "event \<Rightarrow> channel \<Rightarrow> channel" where
  "offer e ch = (if length (chanBuf ch) < SubscriberBuffer then ch\<lparr>chanBuf := chanBuf ch @ [e]\<rparr> else ch)"

definition hears :: "event \<Rightarrow> (int \<times> subscriber) list \<Rightarrow> nat \<Rightarrow> bool" where
  "hears e xs c \<longleftrightarrow> (\<exists>i sub. (i, sub) \<in> set xs \<and> subEvents sub = c \<and> eligible e sub)"

lemma offer_closed [simp]: "chanClosed (offer e ch) = chanClosed ch"
  by (simp add: offer_def)

lemma offer_bound: "length (chanBuf ch) \<le> SubscriberBuffer \<Longrightarrow> length (chanBuf (offer e ch)) \<le> SubscriberBuffer"
  by (simp add: offer_def)

lemma deliverOne_open:
  "subEvents sub < length chans \<Longrightarrow> \<not> chanClosed (chans ! subEvents sub) \<Longrightarrow>
   deliverOne e sub chans = Inr (if eligible e sub then chans[subEvents sub := offer e (chans ! subEvents sub)] else chans)"
  by (auto simp: deliverOne_def eligible_def offer_def Let_def)

lemma deliverLoop_open:
  assumes "\<forall>(i, sub) \<in> set xs. subEvents sub < length chans \<and> \<not> chanClosed (chans ! subEvents sub)"
    and "distinct (map (subEvents \<circ> snd) xs)"
  shows "\<exists>chans'. deliverLoop e xs chans = Inr chans' \<and> length chans' = length chans \<and>
    (\<forall>c < length chans. chans' ! c = (if hears e xs c then offer e (chans ! c) else chans ! c))"
  using assms
proof (induction xs arbitrary: chans)
  case Nil
  then show ?case by (simp add: hears_def)
next
  case (Cons p xs)
  obtain i sub where p: "p = (i, sub)" by (cases p)
  let ?k = "subEvents sub"
  let ?chans = "if eligible e sub then chans[?k := offer e (chans ! ?k)] else chans"
  have k: "?k < length chans" "\<not> chanClosed (chans ! ?k)" using Cons.prems(1) p by auto
  have fresh: "subEvents s \<noteq> ?k" if "(j, s) \<in> set xs" for j s
    using Cons.prems(2) that p by force
  have nth: "?chans ! c = (if c = ?k \<and> eligible e sub then offer e (chans ! c) else chans ! c)" for c
    using k(1) by (cases "c = ?k") simp_all
  have "\<forall>(j, s) \<in> set xs. subEvents s < length ?chans \<and> \<not> chanClosed (?chans ! subEvents s)"
  proof (rule ballI)
    fix q assume q: "q \<in> set xs"
    obtain j s where js: "q = (j, s)" by (cases q)
    have "subEvents s < length chans \<and> \<not> chanClosed (chans ! subEvents s)"
      using Cons.prems(1) q js by auto
    then show "case q of (j, s) \<Rightarrow> subEvents s < length ?chans \<and> \<not> chanClosed (?chans ! subEvents s)"
      using fresh [of j s] q unfolding js prod.case nth by simp
  qed
  moreover have "distinct (map (subEvents \<circ> snd) xs)" using Cons.prems(2) by (simp add: comp_def)
  ultimately obtain chans' where rest: "deliverLoop e xs ?chans = Inr chans'"
      and len: "length chans' = length ?chans"
      and eq: "\<forall>c < length ?chans. chans' ! c = (if hears e xs c then offer e (?chans ! c) else ?chans ! c)"
    using Cons.IH by blast
  have hears: "hears e (p # xs) c \<longleftrightarrow> (c = ?k \<and> eligible e sub) \<or> hears e xs c" for c
    by (auto simp: hears_def p)
  have not_k: "\<not> hears e xs ?k" using fresh by (auto simp: hears_def)
  have "chans' ! c = (if hears e (p # xs) c then offer e (chans ! c) else chans ! c)" if "c < length chans" for c
  proof -
    have "chans' ! c = (if hears e xs c then offer e (?chans ! c) else ?chans ! c)"
      using eq that by (simp split: if_splits)
    then show ?thesis unfolding hears nth using not_k by (cases "c = ?k") simp_all
  qed
  moreover have "deliverLoop e (p # xs) chans = Inr chans'"
    using rest deliverOne_open [OF k, of e] by (simp add: p)
  ultimately show ?case using len by (simp split: if_splits)
qed

lemma tablesOK_distinct:
  assumes t: "tablesOK subs" and c: "chansOK subs n chans"
  shows "distinct (map (subEvents \<circ> snd) (get_or [] subs u))"
proof -
  let ?t = "get_or [] subs u"
  have wf: "wf_map ?t" by (rule tablesOK_get_or [OF t])
  have "inj_on (subEvents \<circ> snd) (set ?t)"
  proof (rule inj_onI)
    fix p q
    assume pq: "p \<in> set ?t" "q \<in> set ?t" "(subEvents \<circ> snd) p = (subEvents \<circ> snd) q"
    obtain i s j s' where p: "p = (i, s)" and q: "q = (j, s')" by (cases p, cases q)
    have r: "registered subs u i = Some s" "registered subs u j = Some s'"
      using pq wf by (simp_all add: p q in_set_map_of registered_get_or)
    from chansOK_D(4) [OF c r] pq(3) have "i = j" by (simp add: p q)
    with r show "p = q" by (simp add: p q)
  qed
  moreover have "distinct ?t" using wf by (simp add: wf_map_def distinct_map)
  ultimately show ?thesis by (simp add: distinct_map)
qed

text \<open>What a delivery does, for a hub that satisfies the invariant.\<close>

lemma deliverLocal_open:
  assumes inv: "hubInv h"
  obtains chans where "deliverLocal u e h = Inr (h\<lparr>hubChans := chans\<rparr>)" "length chans = length (hubChans h)"
    "\<forall>c < length chans. chans ! c = (if hears e (get_or [] (hubSubs h) u) c
       then offer e (hubChans h ! c) else hubChans h ! c)"
proof -
  have t: "tablesOK (hubSubs h)" and c: "chansOK (hubSubs h) (hubNextID h) (hubChans h)"
    using inv by (simp_all add: hubInv_def)
  have avail: "\<forall>(i, sub) \<in> set (get_or [] (hubSubs h) u).
      subEvents sub < length (hubChans h) \<and> \<not> chanClosed (hubChans h ! subEvents sub)"
  proof (rule ballI)
    fix p
    assume "p \<in> set (get_or [] (hubSubs h) u)"
    moreover obtain i sub where p: "p = (i, sub)" by (cases p)
    ultimately have "registered (hubSubs h) u i = Some sub"
      using tablesOK_get_or [OF t, of u] by (simp add: in_set_map_of registered_get_or)
    from chansOK_D(1,2) [OF c this] show "case p of (i, sub) \<Rightarrow>
        subEvents sub < length (hubChans h) \<and> \<not> chanClosed (hubChans h ! subEvents sub)"
      by (simp add: p)
  qed
  from deliverLoop_open [OF this tablesOK_distinct [OF t c], of e] that show thesis
    by (auto simp: deliverLocal_def)
qed

lemma hubInv_deliverLocal:
  assumes inv: "hubInv h"
  shows "\<exists>h'. deliverLocal u e h = Inr h' \<and> hubInv h'"
proof -
  from inv obtain chans where d: "deliverLocal u e h = Inr (h\<lparr>hubChans := chans\<rparr>)"
      and len: "length chans = length (hubChans h)"
      and nth: "\<forall>c < length chans. chans ! c = (if hears e (get_or [] (hubSubs h) u) c
       then offer e (hubChans h ! c) else hubChans h ! c)"
    by (rule deliverLocal_open)
  have c: "chansOK (hubSubs h) (hubNextID h) (hubChans h)" using inv by (simp add: hubInv_def)
  have "chansOK (hubSubs h) (hubNextID h) chans"
    by (rule chansOK_same [OF c len]) (simp_all add: nth len chansOK_D(6) [OF c] offer_bound)
  with d inv show ?thesis by (simp add: hubInv_def)
qed

section \<open>Closing\<close>

lemma closeAll_open:
  assumes "\<forall>c \<in> set cs. c < length chans \<and> \<not> chanClosed (chans ! c)" and "distinct cs"
  shows "\<exists>chans'. closeAll cs chans = Inr chans' \<and> length chans' = length chans \<and>
    (\<forall>c < length chans. chans' ! c = (if c \<in> set cs then (chans ! c)\<lparr>chanClosed := True\<rparr> else chans ! c))"
  using assms
proof (induction cs arbitrary: chans)
  case (Cons k cs)
  let ?chans = "chans[k := (chans ! k)\<lparr>chanClosed := True\<rparr>]"
  have k: "k < length chans" "\<not> chanClosed (chans ! k)" "k \<notin> set cs" using Cons.prems by simp_all
  have "\<forall>c \<in> set cs. c < length ?chans \<and> \<not> chanClosed (?chans ! c)"
  proof (rule ballI)
    fix c assume "c \<in> set cs"
    with k(3) have "c \<noteq> k" by blast
    with \<open>c \<in> set cs\<close> show "c < length ?chans \<and> \<not> chanClosed (?chans ! c)" using Cons.prems(1) by simp
  qed
  moreover have "distinct cs" using Cons.prems(2) by simp
  ultimately obtain chans' where r: "closeAll cs ?chans = Inr chans'" and len: "length chans' = length ?chans"
    and nth: "\<forall>c < length ?chans. chans' ! c = (if c \<in> set cs then (?chans ! c)\<lparr>chanClosed := True\<rparr> else ?chans ! c)"
    using Cons.IH by blast
  have "chans' ! c = (if c \<in> set (k # cs) then (chans ! c)\<lparr>chanClosed := True\<rparr> else chans ! c)"
    if "c < length chans" for c
  proof (cases "c = k")
    case True
    with nth that k(3) show ?thesis by simp
  next
    case False
    with nth that show ?thesis by simp
  qed
  with r k len show ?case by (simp add: closeChan_def)
qed simp

lemma subChans_distinct:
  assumes "wf_map subs" and "\<forall>u t. map_of subs u = Some t \<longrightarrow> wf_map t"
    and "\<forall>u i s u' i' s'. registered subs u i = Some s \<longrightarrow> registered subs u' i' = Some s' \<longrightarrow>
        subEvents s = subEvents s' \<longrightarrow> u = u' \<and> i = i'"
  shows "distinct (subChans subs) \<and>
    (\<forall>c. c \<in> set (subChans subs) \<longleftrightarrow> (\<exists>u i s. registered subs u i = Some s \<and> subEvents s = c))"
  using assms
proof (induction subs)
  case Nil
  then show ?case by (simp add: subChans_def)
next
  case (Cons p subs)
  obtain u t where p: "p = (u, t)" by (cases p)
  have u: "map_of subs u = None" using Cons.prems(1) by (simp add: p wf_map_def map_of_None_iff)
  have reg: "registered (p # subs) v i = (if v = u then map_of t i else registered subs v i)" for v i
    by (simp add: registered_def p)
  have reg_ne: "v \<noteq> u" if "registered subs v i = Some s" for v i s
    using that u by (auto simp: registered_def)
  have wft: "wf_map t" using Cons.prems(2) p by (metis fun_upd_same map_of.simps(2) fst_conv snd_conv)
  have ih: "distinct (subChans subs) \<and>
    (\<forall>c. c \<in> set (subChans subs) \<longleftrightarrow> (\<exists>u i s. registered subs u i = Some s \<and> subEvents s = c))"
  proof (rule Cons.IH)
    show "wf_map subs" using Cons.prems(1) by (simp add: wf_map_def)
    show "\<forall>v t. map_of subs v = Some t \<longrightarrow> wf_map t"
    proof (intro allI impI)
      fix v t' assume "map_of subs v = Some t'"
      moreover from this u have "v \<noteq> u" by auto
      ultimately show "wf_map t'" using Cons.prems(2) [rule_format, of v t'] by (simp add: p)
    qed
    show "\<forall>v i s v' i' s'. registered subs v i = Some s \<longrightarrow> registered subs v' i' = Some s' \<longrightarrow>
        subEvents s = subEvents s' \<longrightarrow> v = v' \<and> i = i'"
    proof (intro allI impI)
      fix v i s v' i' s'
      assume r: "registered subs v i = Some s" "registered subs v' i' = Some s'" and eq: "subEvents s = subEvents s'"
      have "registered (p # subs) v i = Some s" "registered (p # subs) v' i' = Some s'"
        using r reg_ne [OF r(1)] reg_ne [OF r(2)] by (simp_all add: reg)
      with Cons.prems(3) eq show "v = v' \<and> i = i'" by blast
    qed
  qed
  let ?cs = "map (\<lambda>(i, sub). subEvents sub) t"
  have mem: "c \<in> set ?cs \<longleftrightarrow> (\<exists>i s. map_of t i = Some s \<and> subEvents s = c)" for c
    by (force simp: in_set_map_of [OF wft, symmetric])
  have chans: "subChans (p # subs) = ?cs @ subChans subs" by (simp add: subChans_def p)
  have "inj_on (\<lambda>(i, sub). subEvents sub) (set t)"
  proof (rule inj_onI)
    fix a b assume ab: "a \<in> set t" "b \<in> set t" and eq: "(case a of (i, sub) \<Rightarrow> subEvents sub) = (case b of (i, sub) \<Rightarrow> subEvents sub)"
    obtain i s j s' where a: "a = (i, s)" and b: "b = (j, s')" by (cases a, cases b)
    have r: "registered (p # subs) u i = Some s" "registered (p # subs) u j = Some s'"
      using ab by (simp_all add: reg a b in_set_map_of [OF wft])
    with Cons.prems(3) eq have "i = j" by (simp add: a b)
    with r show "a = b" by (simp add: a b)
  qed
  moreover have "distinct t" using wft by (simp add: wf_map_def distinct_map)
  ultimately have d: "distinct ?cs" by (simp add: distinct_map)
  have disj: "c \<notin> set (subChans subs)" if "c \<in> set ?cs" for c
  proof
    assume "c \<in> set (subChans subs)"
    with ih obtain v i s where r: "registered subs v i = Some s" "subEvents s = c" by blast
    from that mem obtain j s' where r': "map_of t j = Some s'" "subEvents s' = c" by blast
    have "registered (p # subs) v i = Some s" "registered (p # subs) u j = Some s'"
      using r r' reg_ne [OF r(1)] by (simp_all add: reg)
    with Cons.prems(3) r(2) r'(2) have "v = u" by metis
    with reg_ne [OF r(1)] show False by simp
  qed
  have all: "c \<in> set (subChans (p # subs)) \<longleftrightarrow> (\<exists>v i s. registered (p # subs) v i = Some s \<and> subEvents s = c)" for c
  proof -
    have "c \<in> set (subChans (p # subs)) \<longleftrightarrow>
        (\<exists>i s. map_of t i = Some s \<and> subEvents s = c) \<or> (\<exists>v i s. registered subs v i = Some s \<and> subEvents s = c)"
      unfolding chans set_append Un_iff mem using ih by blast
    also have "\<dots> \<longleftrightarrow> (\<exists>v i s. registered (p # subs) v i = Some s \<and> subEvents s = c)"
      unfolding reg using reg_ne by (metis (mono_tags))
    finally show ?thesis .
  qed
  have "set ?cs \<inter> set (subChans subs) = {}" using disj by blast
  with d ih have "distinct (subChans (p # subs))" unfolding chans distinct_append by blast
  with all show ?case by blast
qed

lemma hubInv_Close:
  assumes inv: "hubInv h"
  shows "\<exists>h'. HubClose h = Inr h' \<and> hubInv h' \<and> hubClosed h' \<and>
    (\<forall>ch \<in> set (hubChans h'). chanClosed ch)"
proof (cases "hubClosed h")
  case True
  with inv have "hubSubs h = []" and c: "chansOK (hubSubs h) (hubNextID h) (hubChans h)"
    by (auto simp: hubInv_def)
  then have "chanClosed (hubChans h ! k)" if "k < length (hubChans h)" for k
    using chansOK_D(5) [OF c that] by auto
  then have "\<forall>ch \<in> set (hubChans h). chanClosed ch" by (auto simp: in_set_conv_nth)
  with inv True show ?thesis by (simp add: HubClose_def)
next
  case False
  have t: "tablesOK (hubSubs h)" and c: "chansOK (hubSubs h) (hubNextID h) (hubChans h)"
    using inv by (simp_all add: hubInv_def)
  let ?cs = "subChans (hubSubs h)"
  have "wf_map (hubSubs h)" by (rule tablesOK_D(1) [OF t])
  moreover have "\<forall>u t. map_of (hubSubs h) u = Some t \<longrightarrow> wf_map t" using tablesOK_D(2) [OF t] by blast
  moreover have "\<forall>u i s u' i' s'. registered (hubSubs h) u i = Some s \<longrightarrow> registered (hubSubs h) u' i' = Some s' \<longrightarrow>
        subEvents s = subEvents s' \<longrightarrow> u = u' \<and> i = i'" using chansOK_D(4) [OF c] by blast
  ultimately have d: "distinct ?cs" and mem: "\<And>k. k \<in> set ?cs \<longleftrightarrow>
      (\<exists>u i s. registered (hubSubs h) u i = Some s \<and> subEvents s = k)"
    using subChans_distinct by blast+
  have "\<forall>k \<in> set ?cs. k < length (hubChans h) \<and> \<not> chanClosed (hubChans h ! k)"
  proof (rule ballI)
    fix k assume "k \<in> set ?cs"
    with mem obtain v i s where r: "registered (hubSubs h) v i = Some s" "subEvents s = k" by blast
    with chansOK_D(1,2) [OF c r(1)] show "k < length (hubChans h) \<and> \<not> chanClosed (hubChans h ! k)" by simp
  qed
  from closeAll_open [OF this d] obtain chans where r: "closeAll ?cs (hubChans h) = Inr chans"
    and len: "length chans = length (hubChans h)"
    and nth: "\<forall>k < length (hubChans h). chans ! k = (if k \<in> set ?cs then (hubChans h ! k)\<lparr>chanClosed := True\<rparr> else hubChans h ! k)"
    by blast
  have closed: "chanClosed (chans ! k)" if "k < length (hubChans h)" for k
    using nth that mem chansOK_D(5) [OF c that] by auto
  have "length (chanBuf (chans ! k)) \<le> SubscriberBuffer" if "k < length (hubChans h)" for k
    using nth that chansOK_D(6) [OF c that] by simp
  with closed have "chansOK [] (hubNextID h) chans" by (simp add: chansOK_def len)
  moreover have "\<forall>ch \<in> set chans. chanClosed ch" using closed len by (auto simp: in_set_conv_nth)
  ultimately show ?thesis using False r by (simp add: HubClose_def hubInv_def tablesOK_def)
qed

lemma hubInv_runOp: "hubInv h \<Longrightarrow> \<exists>h'. runOp op h = Inr h' \<and> hubInv h'"
proof (cases op)
  case (OpSubscribe u d)
  assume "hubInv h"
  from hubInv_Subscribe [OF this, of u d] OpSubscribe show ?thesis by auto
next
  case (OpReceive c)
  assume "hubInv h"
  from hubInv_Receive [OF this, of c] OpReceive show ?thesis by simp
next
  case OpClose
  assume "hubInv h"
  from hubInv_Close [OF this] OpClose show ?thesis by auto
qed (simp_all add: hubInv_unsubscribe hubInv_deliverLocal)

lemma hubInv_runOps: "hubInv h \<Longrightarrow> \<exists>h'. runOps ops h = Inr h' \<and> hubInv h'"
proof (induction ops arbitrary: h)
  case (Cons op ops)
  from hubInv_runOp [OF Cons.prems] obtain h1 where "runOp op h = Inr h1" "hubInv h1" by blast
  with Cons.IH [of h1] show ?case by simp
qed simp

lemma hub_reachable_inv [go_invariants]: "hub_reachable h \<Longrightarrow> hubInv h"
proof (induction rule: hub_reachable.induct)
  case (hub_op h op h')
  with hubInv_runOp [of h op] show ?case by auto
qed simp

section \<open>The observer of pushes\<close>

datatype sync_log_resolution = ResolutionAccepted | ResolutionRejected | ResolutionTombstone

record sync_log_row =
  slUserID :: string
  slDeviceID :: string
  slScope :: string
  slRecordID :: string
  slResolution :: sync_log_resolution
  slRevision :: int
  slAt :: time

text \<open>
  \<open>SyncObserver\<close>: what one observation appends to the sync log, and the event it broadcasts.
  \<open>hasStorage\<close> and \<open>logAll\<close> are its fields; a storage failure is ignored by the code.
\<close>

definition observePush ::
  "bool \<Rightarrow> bool \<Rightarrow> string \<Rightarrow> string \<Rightarrow> string \<Rightarrow> string \<Rightarrow> int \<Rightarrow> bool \<Rightarrow> bool \<Rightarrow> time \<Rightarrow> sync_log_row list" where
  "observePush hasStorage logAll userID deviceID scope recordID revision accepted deleted at =
     (if \<not> hasStorage \<or> (\<not> accepted \<and> \<not> logAll) then []
      else [\<lparr>slUserID = userID, slDeviceID = deviceID, slScope = scope, slRecordID = recordID,
             slResolution = (if accepted \<and> deleted then ResolutionTombstone
                             else if accepted then ResolutionAccepted else ResolutionRejected),
             slRevision = revision, slAt = at\<rparr>])"

definition observeScopeAdvanced ::
  "(event \<Rightarrow> string option) \<Rightarrow> string \<Rightarrow> string \<Rightarrow> string \<Rightarrow> int \<Rightarrow> time \<Rightarrow> hub
    \<Rightarrow> hub_panic + ((string \<times> string) list \<times> hub)" where
  "observeScopeAdvanced encode userID deviceID scope revision at h =
     Broadcast encode userID (NewSyncEvent scope revision deviceID at) h"

fun syncObserver ::
  "(event \<Rightarrow> string option) \<Rightarrow> bool \<Rightarrow> bool \<Rightarrow> observation list \<Rightarrow> sync_log_row list \<times> hub
    \<Rightarrow> hub_panic + (sync_log_row list \<times> hub)" where
  "syncObserver encode hasStorage logAll [] (log, h) = Inr (log, h)"
| "syncObserver encode hasStorage logAll (ObservePush u d sc rid rv acc gone at # os) (log, h) =
     syncObserver encode hasStorage logAll os (log @ observePush hasStorage logAll u d sc rid rv acc gone at, h)"
| "syncObserver encode hasStorage logAll (ObserveScopeAdvanced u d sc rv at # os) (log, h) =
     (case observeScopeAdvanced encode u d sc rv at h of
        Inl p \<Rightarrow> Inl p
      | Inr (_, h') \<Rightarrow> syncObserver encode hasStorage logAll os (log, h'))"

section \<open>Properties\<close>

text \<open>
  C6: No interleaving of subscriptions, closings, deliveries and receives panics: the hub
  never sends on a closed channel and never closes one twice, and the state it reaches keeps
  every registered channel open and every other one closed, no buffer above 64 events.
\<close>

theorem hub_never_panics:
  "\<exists>h. runOps ops (NewHub publisher) = Inr h \<and>
     (\<forall>c < length (hubChans h).
        length (chanBuf (hubChans h ! c)) \<le> 64 \<and>
        (\<not> chanClosed (hubChans h ! c) \<longleftrightarrow>
           (\<exists>u i s. registered (hubSubs h) u i = Some s \<and> subEvents s = c)))"
proof -
  obtain h where h: "runOps ops (NewHub publisher) = Inr h" and inv: "hubInv h"
    using hubInv_runOps [OF hubInv_New] by blast
  have c: "chansOK (hubSubs h) (hubNextID h) (hubChans h)" using inv by (simp add: hubInv_def)
  have "length (chanBuf (hubChans h ! c)) \<le> 64 \<and>
        (\<not> chanClosed (hubChans h ! c) \<longleftrightarrow>
           (\<exists>u i s. registered (hubSubs h) u i = Some s \<and> subEvents s = c))"
    if "c < length (hubChans h)" for c
    using chansOK_D(6) [OF c that] chansOK_D(5) [OF c that] chansOK_D(2) [OF c]
    by (auto simp: SubscriberBuffer_def)
  with h show ?thesis by blast
qed

text \<open>Two connections of a user, one closed twice, one filled past its buffer, then the shutdown.\<close>

definition exTrace :: "hub_op list" where
  "exTrace = [OpSubscribe ''u'' ''phone'', OpSubscribe ''u'' ''tablet'', OpUnsubscribe ''u'' 1,
     OpUnsubscribe ''u'' 1, OpReceive 1, OpClose, OpUnsubscribe ''u'' 2]"

theorem hub_never_panics_witness:
  "\<exists>h. runOps exTrace (NewHub False) = Inr h \<and> length (hubChans h) = 2 \<and>
     length (chanBuf (hubChans h ! 1)) \<le> 64 \<and>
     (\<not> chanClosed (hubChans h ! 1) \<longleftrightarrow>
        (\<exists>u i s. registered (hubSubs h) u i = Some s \<and> subEvents s = 1))"
proof -
  have n: "case runOps exTrace (NewHub False) of Inl _ \<Rightarrow> False | Inr h \<Rightarrow> length (hubChans h) = 2"
    by code_simp
  from hub_never_panics [of exTrace False] obtain h where h: "runOps exTrace (NewHub False) = Inr h"
    and c: "\<forall>c < length (hubChans h). length (chanBuf (hubChans h ! c)) \<le> 64 \<and>
      (\<not> chanClosed (hubChans h ! c) \<longleftrightarrow> (\<exists>u i s. registered (hubSubs h) u i = Some s \<and> subEvents s = c))" by blast
  from n h have l: "length (hubChans h) = 2" by simp
  with c have "length (chanBuf (hubChans h ! 1)) \<le> 64 \<and>
      (\<not> chanClosed (hubChans h ! 1) \<longleftrightarrow> (\<exists>u i s. registered (hubSubs h) u i = Some s \<and> subEvents s = 1))" by simp
  with h l show ?thesis by blast
qed

text \<open>
  C17: A delivery reaches exactly the subscribers of the user whose device is not the origin:
  each of their channels with room gets the event at its end, every other channel of the
  process (other users, the origin, full buffers) is as before, and nobody is unsubscribed.
  So a device whose buffer is full loses the event and stays connected, although the comment on
  \<open>SubscriberBuffer\<close> says that it is disconnected.
\<close>

theorem hub_delivery_exact:
  assumes "hub_reachable h"
  shows "\<exists>h'. deliverLocal u e h = Inr h' \<and> hubSubs h' = hubSubs h \<and>
    length (hubChans h') = length (hubChans h) \<and>
    (\<forall>c < length (hubChans h). hubChans h' ! c =
       (if (\<exists>i s. registered (hubSubs h) u i = Some s \<and> subEvents s = c \<and>
              (evOrigin e = '''' \<or> subDevice s \<noteq> evOrigin e)) \<and>
           length (chanBuf (hubChans h ! c)) < 64
        then (hubChans h ! c)\<lparr>chanBuf := chanBuf (hubChans h ! c) @ [e]\<rparr>
        else hubChans h ! c))"
proof -
  have inv: "hubInv h" using assms by (rule hub_reachable_inv)
  then have t: "tablesOK (hubSubs h)" by (simp add: hubInv_def)
  have hears: "hears e (get_or [] (hubSubs h) u) c \<longleftrightarrow>
      (\<exists>i s. registered (hubSubs h) u i = Some s \<and> subEvents s = c \<and>
              (evOrigin e = '''' \<or> subDevice s \<noteq> evOrigin e))" for c
    by (simp add: hears_def in_set_map_of [OF tablesOK_get_or [OF t]] registered_get_or eligible_def)
  from inv obtain chans where d: "deliverLocal u e h = Inr (h\<lparr>hubChans := chans\<rparr>)"
      and len: "length chans = length (hubChans h)"
      and nth: "\<forall>c < length chans. chans ! c = (if hears e (get_or [] (hubSubs h) u) c
       then offer e (hubChans h ! c) else hubChans h ! c)"
    by (rule deliverLocal_open)
  show ?thesis
    by (rule exI [of _ "h\<lparr>hubChans := chans\<rparr>"])
      (use d len nth in \<open>simp add: hears offer_def SubscriberBuffer_def\<close>)
qed

definition exEvent :: "string \<Rightarrow> event" where
  "exEvent origin = \<lparr>evKind = EventSync, evScope = ''library'', evRevision = 7, evOrigin = origin,
     evPayload = None, evAt = 3\<rparr>"

definition exHub :: hub where
  "exHub = \<lparr>hubSubs = [(''u'', [(1, \<lparr>subDevice = ''phone'', subEvents = 0\<rparr>),
                              (2, \<lparr>subDevice = ''tablet'', subEvents = 1\<rparr>)])],
     hubNextID = 2, hubClosed = False, hubPublisher = True,
     hubChans = [\<lparr>chanBuf = [], chanClosed = False\<rparr>, \<lparr>chanBuf = [], chanClosed = False\<rparr>]\<rparr>"

lemma exHub_reachable: "hub_reachable exHub"
proof -
  have "runOp (OpSubscribe ''u'' ''tablet'') (\<lparr>hubSubs = [(''u'', [(1, \<lparr>subDevice = ''phone'', subEvents = 0\<rparr>)])],
     hubNextID = 1, hubClosed = False, hubPublisher = True, hubChans = [\<lparr>chanBuf = [], chanClosed = False\<rparr>]\<rparr>) = Inr exHub"
    by (simp add: Subscribe_def exHub_def get_or_def Let_def)
  moreover have "runOp (OpSubscribe ''u'' ''phone'') (NewHub True) =
      Inr (\<lparr>hubSubs = [(''u'', [(1, \<lparr>subDevice = ''phone'', subEvents = 0\<rparr>)])],
     hubNextID = 1, hubClosed = False, hubPublisher = True, hubChans = [\<lparr>chanBuf = [], chanClosed = False\<rparr>]\<rparr>)"
    by (simp add: Subscribe_def NewHub_def get_or_def Let_def)
  ultimately show ?thesis by (metis hub_reachable.intros)
qed

theorem hub_delivery_exact_witness:
  "\<exists>h'. deliverLocal ''u'' (exEvent ''phone'') exHub = Inr h' \<and>
     map chanBuf (hubChans h') = [[], [exEvent ''phone'']]"
proof -
  from hub_delivery_exact [OF exHub_reachable, of "''u''" "exEvent ''phone''"] obtain h' where
    d: "deliverLocal ''u'' (exEvent ''phone'') exHub = Inr h'" by blast
  then show ?thesis
    by (auto simp: deliverLocal_def deliverOne_def exHub_def get_or_def exEvent_def SubscriberBuffer_def)
qed

text \<open>A device's view of a delivery: its channel and its registration.\<close>

lemma deliverLocal_channel:
  assumes inv: "hubInv h" and r: "registered (hubSubs h) u i = Some s"
  shows "\<exists>h'. deliverLocal u e h = Inr h' \<and> hubInv h' \<and> hubSubs h' = hubSubs h \<and>
    hubPublisher h' = hubPublisher h \<and>
    hubChans h' ! subEvents s =
      (if eligible e s then offer e (hubChans h ! subEvents s) else hubChans h ! subEvents s)"
proof -
  from inv obtain chans where d: "deliverLocal u e h = Inr (h\<lparr>hubChans := chans\<rparr>)"
      and len: "length chans = length (hubChans h)"
      and nth: "\<forall>c < length chans. chans ! c = (if hears e (get_or [] (hubSubs h) u) c
       then offer e (hubChans h ! c) else hubChans h ! c)"
    by (rule deliverLocal_open)
  have t: "tablesOK (hubSubs h)" and c: "chansOK (hubSubs h) (hubNextID h) (hubChans h)"
    using inv by (simp_all add: hubInv_def)
  have "hears e (get_or [] (hubSubs h) u) (subEvents s) \<longleftrightarrow> eligible e s"
  proof
    assume "hears e (get_or [] (hubSubs h) u) (subEvents s)"
    then obtain j s' where r': "registered (hubSubs h) u j = Some s'" and eq: "subEvents s' = subEvents s"
      and el: "eligible e s'"
      by (auto simp: hears_def in_set_map_of [OF tablesOK_get_or [OF t]] registered_get_or)
    from chansOK_D(4) [OF c r' r eq] have "j = i" by simp
    with r r' el show "eligible e s" by simp
  next
    assume "eligible e s"
    with r show "hears e (get_or [] (hubSubs h) u) (subEvents s)"
      by (auto simp: hears_def in_set_map_of [OF tablesOK_get_or [OF t]] registered_get_or)
  qed
  with nth chansOK_D(1) [OF c r] len
  have "chans ! subEvents s = (if eligible e s then offer e (hubChans h ! subEvents s) else hubChans h ! subEvents s)"
    by simp
  moreover from hubInv_deliverLocal [OF inv, of u e] d have "hubInv (h\<lparr>hubChans := chans\<rparr>)" by simp
  ultimately show ?thesis using d by simp
qed

lemma offer_take:
  "length (chanBuf ch) \<le> SubscriberBuffer \<Longrightarrow>
   chanBuf (offer e ch) = take SubscriberBuffer (chanBuf ch @ [e])"
  by (auto simp: offer_def)

text \<open>
  A device that does not read keeps its subscription and the oldest 64 events; what
  arrives after that is lost to it. No slow consumer is ever disconnected by the hub.
\<close>

theorem hub_slow_consumer_keeps_oldest:
  assumes "hub_reachable h" and "registered (hubSubs h) u i = Some s"
  shows "\<exists>h'. runOps (map (OpDeliver u) es) h = Inr h' \<and>
    registered (hubSubs h') u i = Some s \<and> \<not> chanClosed (hubChans h' ! subEvents s) \<and>
    chanBuf (hubChans h' ! subEvents s) =
      take 64 (chanBuf (hubChans h ! subEvents s) @
               filter (\<lambda>e. evOrigin e = '''' \<or> subDevice s \<noteq> evOrigin e) es)"
proof -
  have "hubInv h \<Longrightarrow> registered (hubSubs h) u i = Some s \<Longrightarrow>
    \<exists>h'. runOps (map (OpDeliver u) es) h = Inr h' \<and> hubInv h' \<and>
      registered (hubSubs h') u i = Some s \<and>
      chanBuf (hubChans h' ! subEvents s) =
        take SubscriberBuffer (chanBuf (hubChans h ! subEvents s) @ filter (\<lambda>e. eligible e s) es)" for h
  proof (induction es arbitrary: h)
    case Nil
    then have "chansOK (hubSubs h) (hubNextID h) (hubChans h)" by (simp add: hubInv_def)
    from chansOK_D(6) [OF this chansOK_D(1) [OF this Nil(2)]] Nil show ?case by simp
  next
    case (Cons e es)
    let ?c = "subEvents s"
    have c: "chansOK (hubSubs h) (hubNextID h) (hubChans h)" using Cons.prems(1) by (simp add: hubInv_def)
    have bound: "length (chanBuf (hubChans h ! ?c)) \<le> SubscriberBuffer"
      by (rule chansOK_D(6) [OF c chansOK_D(1) [OF c Cons.prems(2)]])
    from deliverLocal_channel [OF Cons.prems] obtain h1 where d: "deliverLocal u e h = Inr h1"
      and inv1: "hubInv h1" and subs: "hubSubs h1 = hubSubs h"
      and ch: "hubChans h1 ! ?c = (if eligible e s then offer e (hubChans h ! ?c) else hubChans h ! ?c)"
      by blast
    from Cons.IH [OF inv1] Cons.prems(2) subs obtain h' where
      rest: "runOps (map (OpDeliver u) es) h1 = Inr h'" "hubInv h'" "registered (hubSubs h') u i = Some s"
      and buf: "chanBuf (hubChans h' ! ?c) =
        take SubscriberBuffer (chanBuf (hubChans h1 ! ?c) @ filter (\<lambda>e. eligible e s) es)"
      by auto
    have "take SubscriberBuffer (chanBuf (hubChans h1 ! ?c) @ filter (\<lambda>e. eligible e s) es) =
        take SubscriberBuffer (chanBuf (hubChans h ! ?c) @ filter (\<lambda>e. eligible e s) (e # es))"
      using bound by (cases "length (chanBuf (hubChans h ! ?c)) < SubscriberBuffer") (auto simp: ch offer_def take_Cons')
    with d rest buf show ?case by simp
  qed
  from this [OF hub_reachable_inv [OF assms(1)] assms(2)] obtain h' where
    r: "runOps (map (OpDeliver u) es) h = Inr h'" "hubInv h'" "registered (hubSubs h') u i = Some s"
    and buf: "chanBuf (hubChans h' ! subEvents s) =
        take SubscriberBuffer (chanBuf (hubChans h ! subEvents s) @ filter (\<lambda>e. eligible e s) es)"
    by blast
  have "chansOK (hubSubs h') (hubNextID h') (hubChans h')" using r(2) by (simp add: hubInv_def)
  from chansOK_D(2) [OF this r(3)] r buf show ?thesis
    by (simp add: SubscriberBuffer_def eligible_def)
qed

theorem hub_slow_consumer_keeps_oldest_witness:
  "\<exists>h'. runOps (map (OpDeliver ''u'') (replicate 70 (exEvent ''phone''))) exHub = Inr h' \<and>
     length (chanBuf (hubChans h' ! 1)) = 64 \<and> \<not> chanClosed (hubChans h' ! 1)"
proof -
  have r: "registered (hubSubs exHub) ''u'' 2 = Some \<lparr>subDevice = ''tablet'', subEvents = 1\<rparr>"
    by (simp add: exHub_def registered_def)
  from hub_slow_consumer_keeps_oldest [OF exHub_reachable r, of "replicate 70 (exEvent ''phone'')"]
  show ?thesis by (auto simp: exHub_def exEvent_def)
qed

text \<open>
  With Redis configured, the process that broadcasts hears its own message back through
  the bridge: a device of the user connected to it gets the event twice.
\<close>

theorem hub_redis_echo_duplicates:
  assumes "hub_reachable h" and "hubPublisher h" and "registered (hubSubs h) u i = Some s"
    and "evOrigin e = '''' \<or> subDevice s \<noteq> evOrigin e"
    and "length (chanBuf (hubChans h ! subEvents s)) \<le> 62"
    and "encode e = Some payload" and "decode payload = Some e" and "u \<noteq> ''''"
  shows "\<exists>msgs h1 h2. Broadcast encode u e h = Inr (msgs, h1) \<and> Bridge decode msgs h1 = Inr h2 \<and>
    chanBuf (hubChans h2 ! subEvents s) = chanBuf (hubChans h ! subEvents s) @ [e, e]"
proof -
  have el: "eligible e s" using assms(4) by (simp add: eligible_def)
  from deliverLocal_channel [OF hub_reachable_inv [OF assms(1)] assms(3), of e] el obtain h1 where
    d1: "deliverLocal u e h = Inr h1" "hubInv h1" "hubSubs h1 = hubSubs h" "hubPublisher h1 = hubPublisher h"
    and c1: "hubChans h1 ! subEvents s = offer e (hubChans h ! subEvents s)" by auto
  have r1: "registered (hubSubs h1) u i = Some s" by (simp add: d1 assms(3))
  from deliverLocal_channel [OF d1(2) r1, of e] el obtain h2 where
    d2: "deliverLocal u e h1 = Inr h2" and c2: "hubChans h2 ! subEvents s = offer e (hubChans h1 ! subEvents s)"
    by auto
  have "Broadcast encode u e h = Inr ([(UserChannel u, payload)], h1)"
    by (simp add: Broadcast_def d1 assms(2,6))
  moreover have "UserFromChannel (UserChannel u) = u"
    by (simp add: UserFromChannel_def UserChannel_def channelPrefix_def starts_with_def)
  with d2 assms(7,8) have "Bridge decode [(UserChannel u, payload)] h1 = Inr h2" by simp
  moreover have "chanBuf (hubChans h2 ! subEvents s) = chanBuf (hubChans h ! subEvents s) @ [e, e]"
    using assms(5) by (simp add: c1 c2 offer_def SubscriberBuffer_def)
  ultimately show ?thesis by blast
qed

theorem hub_redis_echo_duplicates_witness:
  "\<exists>msgs h1 h2. Broadcast (\<lambda>_. Some ''{}'') ''u'' (exEvent ''phone'') exHub = Inr (msgs, h1) \<and>
     Bridge (\<lambda>_. Some (exEvent ''phone'')) msgs h1 = Inr h2 \<and>
     chanBuf (hubChans h2 ! 1) = [exEvent ''phone'', exEvent ''phone'']"
proof -
  have r: "registered (hubSubs exHub) ''u'' 2 = Some \<lparr>subDevice = ''tablet'', subEvents = 1\<rparr>"
    by (simp add: exHub_def registered_def)
  from hub_redis_echo_duplicates [OF exHub_reachable _ r, of "exEvent ''phone''"
      "\<lambda>_. Some ''{}''" "''{}''" "\<lambda>_. Some (exEvent ''phone'')"]
  show ?thesis by (simp add: exHub_def exEvent_def)
qed

end
