(* ===== verification/AuthToken.thy ===== *)
theory AuthToken
  imports Httpx
begin

text \<open>
  Password hashes and access tokens (\<open>backend/auth/auth.go\<close>): PBKDF2, the stored hash
  format, and HS256 JSON Web Tokens, on a model of \<open>encoding/base64\<close>. The keyed hash
  (HMAC-SHA256) is the argument \<open>mac\<close>, from key and message to 32 bytes; \<open>encoding/json\<close>
  on the claims is \<open>marshal\<close> and \<open>unmarshal\<close>; a random salt is an argument, \<open>None\<close> when
  the random source failed.
\<close>

section \<open>Errors\<close>

datatype auth_error =
    ErrInvalidCredentials | ErrUnauthorized | ErrEmailTaken | ErrWeakPassword
  | ErrEmailInvalid | ErrRandom | ErrAuthDeviceRequired | ErrAuthDeviceNotFound | ErrClaims

definition authErrorText :: "auth_error \<Rightarrow> string" where
  "authErrorText e =
     (case e of
        ErrInvalidCredentials \<Rightarrow> ''invalid email or password''
      | ErrUnauthorized \<Rightarrow> ''unauthorized''
      | ErrEmailTaken \<Rightarrow> ''email already registered''
      | ErrWeakPassword \<Rightarrow> ''password must be at least 8 characters''
      | ErrEmailInvalid \<Rightarrow> ''a valid email is required''
      | ErrRandom \<Rightarrow> ''salt''
      | ErrAuthDeviceRequired \<Rightarrow> ''deviceId is required''
      | ErrAuthDeviceNotFound \<Rightarrow> ''device not found''
      | ErrClaims \<Rightarrow> ''claims'')"

section \<open>Base64 without padding\<close>

definition stdAlphabet :: string where
  "stdAlphabet = ''ABCDEFGHIJKLMNOPQRSTUVWXYZabcdefghijklmnopqrstuvwxyz0123456789+/''"

definition urlAlphabet :: string where
  "urlAlphabet = ''ABCDEFGHIJKLMNOPQRSTUVWXYZabcdefghijklmnopqrstuvwxyz0123456789-_''"

definition b64_groups3 :: "nat \<Rightarrow> nat \<Rightarrow> nat \<Rightarrow> nat list" where
  "b64_groups3 a b c = [a div 4, (a mod 4) * 16 + b div 16, (b mod 16) * 4 + c div 64, c mod 64]"

fun b64_digits :: "nat list \<Rightarrow> nat list" where
  "b64_digits [] = []"
| "b64_digits [a] = [a div 4, (a mod 4) * 16]"
| "b64_digits [a, b] = [a div 4, (a mod 4) * 16 + b div 16, (b mod 16) * 4]"
| "b64_digits (a # b # c # rest) = b64_groups3 a b c @ b64_digits rest"

fun b64_bytes :: "nat list \<Rightarrow> nat list option" where
  "b64_bytes [] = Some []"
| "b64_bytes [w] = None"
| "b64_bytes [w, x] = Some [w * 4 + x div 16]"
| "b64_bytes [w, x, y] = Some [w * 4 + x div 16, (x mod 16) * 16 + y div 4]"
| "b64_bytes (w # x # y # z # rest) =
     map_option (\<lambda>bs. [w * 4 + x div 16, (x mod 16) * 16 + y div 4, (y mod 4) * 64 + z] @ bs)
       (b64_bytes rest)"

definition EncodeToString :: "string \<Rightarrow> string \<Rightarrow> string" where
  "EncodeToString alphabet s = map (\<lambda>d. alphabet ! d) (b64_digits (map of_char s))"

fun index_of :: "string \<Rightarrow> char \<Rightarrow> nat option" where
  "index_of [] c = None"
| "index_of (x # xs) c = (if x = c then Some 0 else map_option Suc (index_of xs c))"

text \<open>The decoder skips carriage returns and line feeds and ignores trailing bits.\<close>

definition DecodeString :: "string \<Rightarrow> string \<Rightarrow> string option" where
  "DecodeString alphabet s =
     (let ds = map (index_of alphabet) (filter (\<lambda>c. c \<noteq> CHR 0x0D \<and> c \<noteq> CHR 0x0A) s)
      in if None \<in> set ds then None
         else map_option (map char_of) (b64_bytes (map the ds)))"

lemma pack_div: "(r :: nat) < m \<Longrightarrow> (k * m + r) div m = k"
  and pack_mod: "(r :: nat) < m \<Longrightarrow> (k * m + r) mod m = r"
  by simp_all

lemma b64_split:
  fixes a b c :: nat
  assumes "b < 256" and "c < 256"
  shows "a div 4 * 4 + ((a mod 4) * 16 + b div 16) div 16 = a"
    and "((a mod 4) * 16 + b div 16) mod 16 * 16 + ((b mod 16) * 4 + c div 64) div 4 = b"
    and "((b mod 16) * 4 + c div 64) mod 4 * 64 + c mod 64 = c"
proof -
  have "b div 16 < 16" "c div 64 < 4" using assms by simp_all
  then show "a div 4 * 4 + ((a mod 4) * 16 + b div 16) div 16 = a"
    and "((a mod 4) * 16 + b div 16) mod 16 * 16 + ((b mod 16) * 4 + c div 64) div 4 = b"
    and "((b mod 16) * 4 + c div 64) mod 4 * 64 + c mod 64 = c"
    by (simp_all add: pack_div pack_mod)
qed

lemma b64_bytes_digits: "\<forall>n \<in> set ns. n < 256 \<Longrightarrow> b64_bytes (b64_digits ns) = Some ns"
proof (induction ns rule: b64_digits.induct)
  case (2 a)
  then show ?case by simp
next
  case (3 a b)
  then show ?case using b64_split(1,2) [where a = a and b = b and c = 0] by simp
next
  case (4 a b c rest)
  then show ?case using b64_split(1,2) [where a = a and b = b and c = c] b64_split(3) [where b = b and c = c] by (simp add: b64_groups3_def)
qed simp

lemma b64_digit_bounds:
  fixes a b c :: nat
  assumes "a < 256" "b < 256" "c < 256"
  shows "a div 4 < 64" and "(a mod 4) * 16 + b div 16 < 64" and "(b mod 16) * 4 + c div 64 < 64" and "c mod 64 < 64"
proof -
  have d: "a div 4 < 64" "b div 16 < 16" "c div 64 < 4" using assms by (simp_all add: less_mult_imp_div_less)
  have m: "a mod 4 < 4" "b mod 16 < 16" "c mod 64 < 64" by simp_all
  show "a div 4 < 64" by (rule d)
  show "(a mod 4) * 16 + b div 16 < 64" using d m by linarith
  show "(b mod 16) * 4 + c div 64 < 64" using d m by linarith
  show "c mod 64 < 64" by (rule m)
qed

lemma b64_digits_bound: "\<forall>n \<in> set ns. n < 256 \<Longrightarrow> \<forall>d \<in> set (b64_digits ns). d < 64"
proof (induction ns rule: b64_digits.induct)
  case (2 a)
  then show ?case by simp
next
  case (3 a b)
  then have "a < 256" "b < 256" by simp_all
  then show ?case using b64_digit_bounds [of a b 0] by simp
next
  case (4 a b c rest)
  then have "a < 256" "b < 256" "c < 256" by simp_all
  from b64_digit_bounds [OF this] 4 show ?case by (simp add: b64_groups3_def)
qed simp

lemma index_of_nth: "distinct xs \<Longrightarrow> i < length xs \<Longrightarrow> index_of xs (xs ! i) = Some i"
proof (induction xs arbitrary: i)
  case (Cons x xs)
  then show ?case by (cases i) auto
qed simp

definition good_alphabet :: "string \<Rightarrow> bool" where
  "good_alphabet a \<longleftrightarrow> length a = 64 \<and> distinct a \<and>
     CHR 0x0D \<notin> set a \<and> CHR 0x0A \<notin> set a \<and> CHR ''.'' \<notin> set a \<and> CHR ''$'' \<notin> set a"

lemma good_std [simp]: "good_alphabet stdAlphabet"
  unfolding good_alphabet_def stdAlphabet_def by code_simp

lemma good_url [simp]: "good_alphabet urlAlphabet"
  unfolding good_alphabet_def urlAlphabet_def by code_simp

lemma bytes_of_string: "\<forall>n \<in> set (map (of_char :: char \<Rightarrow> nat) s). n < 256"
  by (auto simp: of_char_of)

lemma EncodeToString_chars: "good_alphabet a \<Longrightarrow> set (EncodeToString a s) \<subseteq> set a"
  using b64_digits_bound [OF bytes_of_string, of s] by (auto simp: EncodeToString_def good_alphabet_def)

lemma EncodeToString_no_dot:
  "good_alphabet a \<Longrightarrow> CHR ''.'' \<notin> set (EncodeToString a s)"
  "good_alphabet a \<Longrightarrow> CHR ''$'' \<notin> set (EncodeToString a s)"
  using EncodeToString_chars [of a s] by (auto simp: good_alphabet_def)

lemma Decode_Encode [simp]:
  assumes "good_alphabet a"
  shows "DecodeString a (EncodeToString a s) = Some s"
proof -
  let ?ds = "b64_digits (map of_char s) :: nat list"
  have bound: "\<forall>d \<in> set ?ds. d < 64" by (rule b64_digits_bound [OF bytes_of_string])
  have "filter (\<lambda>c. c \<noteq> CHR 0x0D \<and> c \<noteq> CHR 0x0A) (EncodeToString a s) = EncodeToString a s"
    using EncodeToString_chars [OF assms, of s] assms by (auto simp: filter_id_conv good_alphabet_def)
  moreover have "map (index_of a) (EncodeToString a s) = map Some ?ds"
    using bound assms by (simp add: EncodeToString_def good_alphabet_def index_of_nth)
  moreover have "b64_bytes ?ds = Some (map of_char s)" by (rule b64_bytes_digits [OF bytes_of_string])
  ultimately show ?thesis by (simp add: DecodeString_def comp_def)
qed

section \<open>PBKDF2\<close>

definition hashLen :: nat where
  "hashLen = 32"

definition be32 :: "nat \<Rightarrow> string" where
  "be32 n = map char_of [n div 16777216, n div 65536, n div 256, n]"

text \<open>\<open>t[x] ^= u[x]\<close> for every index of \<open>u\<close>; both have the length of the hash.\<close>

definition xor_bytes :: "string \<Rightarrow> string \<Rightarrow> string" where
  "xor_bytes t u = map2 (\<lambda>a b. char_of (Bit_Operations.xor (of_char a :: nat) (of_char b))) t u"

text \<open>The inner loop: \<open>k\<close> more rounds on \<open>u\<close> and \<open>t\<close>.\<close>

fun pbkdf2Rounds :: "(string \<Rightarrow> string \<Rightarrow> string) \<Rightarrow> string \<Rightarrow> nat \<Rightarrow> string \<Rightarrow> string \<Rightarrow> string" where
  "pbkdf2Rounds mac password 0 u t = t"
| "pbkdf2Rounds mac password (Suc k) u t =
     (let u' = mac password u in pbkdf2Rounds mac password k u' (xor_bytes t u'))"

text \<open>The outer loop from block \<open>block\<close> on, \<open>n\<close> blocks to go, appending to \<open>dk\<close>.\<close>

fun pbkdf2Blocks ::
  "(string \<Rightarrow> string \<Rightarrow> string) \<Rightarrow> string \<Rightarrow> string \<Rightarrow> nat \<Rightarrow> nat \<Rightarrow> nat \<Rightarrow> string \<Rightarrow> string" where
  "pbkdf2Blocks mac password salt iterations block 0 dk = dk"
| "pbkdf2Blocks mac password salt iterations block (Suc n) dk =
     (let u = mac password (salt @ be32 block);
          t = pbkdf2Rounds mac password (iterations - 1) u u
      in pbkdf2Blocks mac password salt iterations (block + 1) n (dk @ t))"

definition PBKDF2SHA256 :: "(string \<Rightarrow> string \<Rightarrow> string) \<Rightarrow> string \<Rightarrow> string \<Rightarrow> nat \<Rightarrow> nat \<Rightarrow> string" where
  "PBKDF2SHA256 mac password salt iterations keyLen =
     (let numBlocks = (keyLen + hashLen - 1) div hashLen
      in take keyLen (pbkdf2Blocks mac password salt iterations 1 numBlocks []))"

section \<open>Stored hashes\<close>

definition passwordIterations :: nat where "passwordIterations = 210000"
definition passwordKeyLen :: nat where "passwordKeyLen = 32"
definition saltLen :: nat where "saltLen = 16"

definition formatHash :: "(string \<Rightarrow> string \<Rightarrow> string) \<Rightarrow> string \<Rightarrow> string \<Rightarrow> string" where
  "formatHash mac password salt =
     ''pbkdf2-sha256$'' @ show_nat passwordIterations @ ''$'' @ EncodeToString stdAlphabet salt @ ''$'' @
     EncodeToString stdAlphabet (PBKDF2SHA256 mac password salt passwordIterations passwordKeyLen)"

definition HashPassword :: "(string \<Rightarrow> string \<Rightarrow> string) \<Rightarrow> string option \<Rightarrow> string \<Rightarrow> auth_error + string" where
  "HashPassword mac random password =
     (if length password < 8 then Inl ErrWeakPassword
      else case random of
             None \<Rightarrow> Inl ErrRandom
           | Some salt \<Rightarrow> Inr (formatHash mac password salt))"

text \<open>
  \<open>fmt.Sscanf(s, "%d", &n)\<close>: white space is skipped (a line feed in it is an error), then an
  optional sign and the digits; what follows is ignored; the value must fit 64 bits.
\<close>

definition sscanInt :: "string \<Rightarrow> int option" where
  "sscanInt s =
     (let body = trim_left s;
          skipped = take (length s - length body) s;
          neg = starts_with ''-'' body;
          digits = takeWhile is_digit (if neg \<or> starts_with ''+'' body then tl body else body);
          value = (if neg then - int (read_nat digits) else int (read_nat digits))
      in if CHR 0x0A \<in> set skipped \<or> digits = '''' \<or> value < - (2 ^ 63) \<or> 2 ^ 63 \<le> value then None
         else Some value)"

definition VerifyPassword :: "(string \<Rightarrow> string \<Rightarrow> string) \<Rightarrow> string \<Rightarrow> string \<Rightarrow> bool" where
  "VerifyPassword mac password stored =
     (case split_on CHR ''$'' stored of
        [scheme, iterText, saltText, hashText] \<Rightarrow>
          if scheme \<noteq> ''pbkdf2-sha256'' then False
          else (case sscanInt iterText of
                  None \<Rightarrow> False
                | Some iterations \<Rightarrow>
                    if iterations < 1 then False
                    else (case DecodeString stdAlphabet saltText of
                            None \<Rightarrow> False
                          | Some salt \<Rightarrow>
                              (case DecodeString stdAlphabet hashText of
                                 None \<Rightarrow> False
                               | Some want \<Rightarrow>
                                   want \<noteq> '''' \<and>
                                   PBKDF2SHA256 mac password salt (nat iterations) (length want) = want)))
      | _ \<Rightarrow> False)"

text \<open>The hash that equalises the time of unknown users.\<close>

definition dummyHash :: "(string \<Rightarrow> string \<Rightarrow> string) \<Rightarrow> string" where
  "dummyHash mac = formatHash mac ''spotiflac-dummy-password'' (replicate saltLen (CHR 0x5A))"

section \<open>Access tokens\<close>

definition TokenTTL :: int where
  "TokenTTL = 3600 * nanos_per_second"

record claims =
  clIssuer :: string
  clSubject :: string
  clAudience :: string
  clIssuedAt :: int
  clExpires :: int

record token_issuer =
  tiSecret :: string
  tiIssuer :: string
  tiAud :: string

definition sign :: "(string \<Rightarrow> string \<Rightarrow> string) \<Rightarrow> token_issuer \<Rightarrow> string \<Rightarrow> string" where
  "sign mac t signingInput = EncodeToString urlAlphabet (mac (tiSecret t) signingInput)"

definition jwtHeader :: string where
  "jwtHeader = EncodeToString urlAlphabet (''{'' @ [CHR 0x22] @ ''alg'' @ [CHR 0x22] @ '':'' @ [CHR 0x22] @
     ''HS256'' @ [CHR 0x22] @ '','' @ [CHR 0x22] @ ''typ'' @ [CHR 0x22] @ '':'' @ [CHR 0x22] @ ''JWT'' @
     [CHR 0x22] @ ''}'')"

definition issuedClaims :: "token_issuer \<Rightarrow> time \<Rightarrow> string \<Rightarrow> int \<Rightarrow> claims" where
  "issuedClaims t now userID ttl =
     \<lparr>clIssuer = tiIssuer t, clSubject = userID, clAudience = tiAud t,
      clIssuedAt = unix_seconds now, clExpires = unix_seconds (now + ttl)\<rparr>"

definition IssueWithTTL ::
  "(string \<Rightarrow> string \<Rightarrow> string) \<Rightarrow> (claims \<Rightarrow> string option) \<Rightarrow> token_issuer \<Rightarrow> time \<Rightarrow> string \<Rightarrow> int
    \<Rightarrow> auth_error + string" where
  "IssueWithTTL mac marshal t now userID ttl =
     (case marshal (issuedClaims t now userID ttl) of
        None \<Rightarrow> Inl ErrClaims
      | Some payloadJSON \<Rightarrow>
          let signingInput = jwtHeader @ ''.'' @ EncodeToString urlAlphabet payloadJSON
          in Inr (signingInput @ ''.'' @ sign mac t signingInput))"

definition IssueToken ::
  "(string \<Rightarrow> string \<Rightarrow> string) \<Rightarrow> (claims \<Rightarrow> string option) \<Rightarrow> token_issuer \<Rightarrow> time \<Rightarrow> string
    \<Rightarrow> auth_error + string" where
  "IssueToken mac marshal t now userID = IssueWithTTL mac marshal t now userID TokenTTL"

definition VerifyToken ::
  "(string \<Rightarrow> string \<Rightarrow> string) \<Rightarrow> (string \<Rightarrow> claims option) \<Rightarrow> token_issuer \<Rightarrow> time \<Rightarrow> string
    \<Rightarrow> auth_error + string" where
  "VerifyToken mac unmarshal t now token =
     (case split_on CHR ''.'' token of
        [p0, p1, p2] \<Rightarrow>
          if sign mac t (p0 @ ''.'' @ p1) \<noteq> p2 then Inl ErrUnauthorized
          else (case DecodeString urlAlphabet p1 of
                  None \<Rightarrow> Inl ErrUnauthorized
                | Some payloadJSON \<Rightarrow>
                    (case unmarshal payloadJSON of
                       None \<Rightarrow> Inl ErrUnauthorized
                     | Some cl \<Rightarrow>
                         if clIssuer cl \<noteq> tiIssuer t \<or> clAudience cl \<noteq> tiAud t then Inl ErrUnauthorized
                         else if clExpires cl < unix_seconds now - 30 \<or> clIssuedAt cl > unix_seconds now + 30
                         then Inl ErrUnauthorized
                         else if clSubject cl = '''' then Inl ErrUnauthorized
                         else Inr (clSubject cl)))
      | _ \<Rightarrow> Inl ErrUnauthorized)"

section \<open>The bearer middleware\<close>

text \<open>Either the response it writes itself, or the context the next handler runs in.\<close>

definition Middleware ::
  "(string \<Rightarrow> string \<Rightarrow> string) \<Rightarrow> (string \<Rightarrow> claims option) \<Rightarrow> token_issuer \<Rightarrow> time \<Rightarrow> string \<Rightarrow> req_context
    \<Rightarrow> unit http_response + req_context" where
  "Middleware mac unmarshal t now authorization ctx =
     (let token = BearerToken authorization
      in if token = '''' then Inl (WriteError StatusUnauthorized ''missing bearer token'')
         else case VerifyToken mac unmarshal t now token of
                Inl _ \<Rightarrow> Inl (WriteError StatusUnauthorized ''invalid or expired token'')
              | Inr userID \<Rightarrow> Inr (WithUserID ctx userID))"

section \<open>Properties\<close>

text \<open>The function \<open>F\<close> of RFC 8018, section 5.2, and the derived key it defines.\<close>

fun rfcU :: "(string \<Rightarrow> string \<Rightarrow> string) \<Rightarrow> string \<Rightarrow> string \<Rightarrow> nat \<Rightarrow> nat \<Rightarrow> string" where
  "rfcU mac password salt i 0 = mac password (salt @ be32 i)"
| "rfcU mac password salt i (Suc k) = mac password (rfcU mac password salt i k)"

definition rfcF :: "(string \<Rightarrow> string \<Rightarrow> string) \<Rightarrow> string \<Rightarrow> string \<Rightarrow> nat \<Rightarrow> nat \<Rightarrow> string" where
  "rfcF mac password salt c i =
     foldl xor_bytes (rfcU mac password salt i 0) (map (rfcU mac password salt i) [1..<c])"

lemma pbkdf2Rounds_rfc:
  "pbkdf2Rounds mac password k (rfcU mac password salt i j) t =
     foldl xor_bytes t (map (rfcU mac password salt i) [Suc j..<Suc j + k])"
proof (induction k arbitrary: j t)
  case (Suc k)
  have "[Suc j..<Suc j + Suc k] = Suc j # [Suc (Suc j)..<Suc (Suc j) + k]" by (simp add: upt_rec)
  then show ?case using Suc [of "Suc j" "xor_bytes t (rfcU mac password salt i (Suc j))"] by (simp add: Let_def)
qed simp

lemma pbkdf2Blocks_rfc:
  "1 \<le> c \<Longrightarrow> pbkdf2Blocks mac password salt c b n dk =
     dk @ concat (map (rfcF mac password salt c) [b..<b + n])"
proof (induction n arbitrary: b dk)
  case (Suc n)
  have "[b..<b + Suc n] = b # [b + 1..<b + 1 + n]" by (simp add: upt_rec)
  moreover have "pbkdf2Rounds mac password (c - 1) (mac password (salt @ be32 b)) (mac password (salt @ be32 b)) =
      rfcF mac password salt c b"
    using pbkdf2Rounds_rfc [of mac password "c - 1" salt b 0 "rfcU mac password salt b 0"] Suc.prems
    by (simp add: rfcF_def)
  ultimately show ?case using Suc.IH [OF Suc.prems, of "b + 1"] by (simp add: Let_def)
qed simp

lemma length_xor_bytes: "length (xor_bytes t u) = min (length t) (length u)"
  by (simp add: xor_bytes_def)

lemma length_rfcU: "(\<And>m. length (mac password m) = hashLen) \<Longrightarrow> length (rfcU mac password salt i k) = hashLen"
  by (cases k) simp_all

lemma length_foldl_xor:
  "\<forall>u \<in> set us. length u = length t \<Longrightarrow> length (foldl xor_bytes t us) = length t"
  by (induction us arbitrary: t) (simp_all add: length_xor_bytes)

lemma length_rfcF: "(\<And>m. length (mac password m) = hashLen) \<Longrightarrow> length (rfcF mac password salt c i) = hashLen"
  unfolding rfcF_def by (subst length_foldl_xor) (auto simp: length_rfcU)

lemma length_concat_const: "(\<And>x. length (f x) = n) \<Longrightarrow> length (concat (map f xs)) = n * length xs"
  by (induction xs) simp_all

lemma pbkdf2_spec:
  assumes "1 \<le> iterations" and "\<forall>m. length (mac password m) = 32"
  shows "PBKDF2SHA256 mac password salt iterations keyLen =
      take keyLen (concat (map (rfcF mac password salt iterations) [1..<1 + (keyLen + 31) div 32])) \<and>
    length (PBKDF2SHA256 mac password salt iterations keyLen) = keyLen"
proof -
  let ?n = "(keyLen + 31) div 32"
  have n: "(keyLen + 32 - 1) div 32 = ?n" by simp
  have eq: "PBKDF2SHA256 mac password salt iterations keyLen =
      take keyLen (concat (map (rfcF mac password salt iterations) [1..<1 + ?n]))"
    using pbkdf2Blocks_rfc [OF assms(1), of mac password salt 1 ?n "[]"]
    by (simp only: PBKDF2SHA256_def hashLen_def Let_def n append_Nil)
  have len: "length (concat (map (rfcF mac password salt iterations) [1..<1 + ?n])) = 32 * ?n"
    using length_concat_const [of "rfcF mac password salt iterations" 32 "[1..<1 + ?n]"]
      length_rfcF [of mac password salt iterations] assms(2) by (simp add: hashLen_def)
  have "keyLen \<le> 32 * ?n" by presburger
  with eq len show ?thesis by simp
qed

text \<open>
  The key derivation is the PBKDF2 of RFC 8018 over the given keyed hash: the first
  \<open>keyLen\<close> bytes of the blocks \<open>F(1), F(2), ...\<close>, exactly \<open>keyLen\<close> of them, for every
  number of iterations from 1.
\<close>

theorem auth_pbkdf2_rfc:
  assumes "1 \<le> iterations" and "\<forall>m. length (mac password m) = 32"
  shows "PBKDF2SHA256 mac password salt iterations keyLen =
      take keyLen (concat (map (rfcF mac password salt iterations) [1..<1 + (keyLen + 31) div 32])) \<and>
    length (PBKDF2SHA256 mac password salt iterations keyLen) = keyLen"
  using assms by (rule pbkdf2_spec)

definition toyHash :: "string \<Rightarrow> string \<Rightarrow> string" where
  "toyHash key msg = take 32 (key @ msg @ replicate 32 (CHR ''x''))"

lemma toyHash_length [simp]: "length (toyHash k m) = 32"
  by (simp add: toyHash_def)

theorem auth_pbkdf2_rfc_witness:
  "length (PBKDF2SHA256 toyHash ''password'' ''salt'' 2 40) = 40"
proof -
  have "\<forall>m. length (toyHash ''password'' m) = 32" by simp
  then show ?thesis
    by (intro conjunct2 [OF auth_pbkdf2_rfc [where iterations = 2]]) simp_all
qed

lemma sscanInt_show_nat:
  assumes "int n < 2 ^ 63"
  shows "sscanInt (show_nat n) = Some (int n)"
proof -
  obtain c cs where s: "show_nat n = c # cs" by (cases "show_nat n") simp_all
  have digits: "\<forall>d \<in> set (show_nat n). is_digit d" by (rule show_nat_digits)
  then have c: "is_digit c" by (simp add: s)
  have "\<forall>r \<in> set space_runes. r \<noteq> [] \<longrightarrow> \<not> starts_with r (show_nat n)"
  proof (intro ballI impI)
    fix r assume "r \<in> set space_runes" "r \<noteq> []"
    then have "\<not> is_digit (hd r)" by (auto simp: space_runes_def is_digit_def)
    with c \<open>r \<noteq> []\<close> show "\<not> starts_with r (show_nat n)"
      by (cases r) (auto simp: s starts_with_def)
  qed
  then have "lead_rune space_runes (show_nat n) = 0" by (simp add: lead_rune_0_iff)
  then have trim: "trim_left (show_nat n) = show_nat n" by (simp add: trim_left_def trim_runes_idle)
  have "\<not> starts_with ''-'' (show_nat n)" "\<not> starts_with ''+'' (show_nat n)"
    using c by (auto simp: s starts_with_def is_digit_def)
  moreover have tw: "takeWhile is_digit (show_nat n) = show_nat n" using digits by (simp only: takeWhile_eq_all_conv)
  moreover have "- (2 ^ 63) \<le> int n" by simp
  ultimately show ?thesis using assms by (simp add: sscanInt_def trim Let_def tw)
qed

lemma VerifyPassword_formatHash:
  assumes "\<forall>k m. length (mac k m) = 32"
  shows "VerifyPassword mac p (formatHash mac password salt) \<longleftrightarrow>
    PBKDF2SHA256 mac p salt 210000 32 = PBKDF2SHA256 mac password salt 210000 32"
proof -
  let ?dk = "PBKDF2SHA256 mac password salt passwordIterations passwordKeyLen"
  have "1 \<le> passwordIterations" by (simp add: passwordIterations_def)
  from conjunct2 [OF pbkdf2_spec [OF this]] assms have len: "length ?dk = passwordKeyLen" by blast
  have no: "CHR ''$'' \<notin> set ''pbkdf2-sha256''" "CHR ''$'' \<notin> set (show_nat passwordIterations)"
    using show_nat_digits [of passwordIterations] by (auto simp: is_digit_def)
  have "split_on CHR ''$'' (formatHash mac password salt) =
      [''pbkdf2-sha256'', show_nat passwordIterations, EncodeToString stdAlphabet salt, EncodeToString stdAlphabet ?dk]"
    unfolding formatHash_def
    using split_on_append [OF no(1)] split_on_append [OF no(2)]
      split_on_append [OF EncodeToString_no_dot(2) [OF good_std]] split_on_none [OF EncodeToString_no_dot(2) [OF good_std]]
    by simp
  moreover have "sscanInt (show_nat passwordIterations) = Some 210000"
    by (simp add: sscanInt_show_nat passwordIterations_def)
  ultimately show ?thesis
    using len by (auto simp: VerifyPassword_def passwordIterations_def passwordKeyLen_def)
qed

text \<open>
  A password verifies against the hash stored for it, and another password verifies
  exactly when it derives the same key: the stored text loses nothing of salt, iteration
  count and key.
\<close>

theorem auth_password_roundtrip:
  assumes "HashPassword mac (Some salt) password = Inr stored" and "\<forall>k m. length (mac k m) = 32"
  shows "VerifyPassword mac password stored \<and>
    (VerifyPassword mac other stored \<longleftrightarrow>
       PBKDF2SHA256 mac other salt 210000 32 = PBKDF2SHA256 mac password salt 210000 32)"
  using assms by (auto simp: HashPassword_def VerifyPassword_formatHash split: if_splits)

theorem auth_password_roundtrip_witness:
  "VerifyPassword toyHash ''correct horse'' (formatHash toyHash ''correct horse'' ''0123456789abcdef'')"
proof -
  have "HashPassword toyHash (Some ''0123456789abcdef'') ''correct horse'' =
      Inr (formatHash toyHash ''correct horse'' ''0123456789abcdef'')" by (simp add: HashPassword_def)
  from auth_password_roundtrip [OF this] show ?thesis by simp
qed

lemma VerifyToken_parts:
  "CHR ''.'' \<notin> set p0 \<Longrightarrow> CHR ''.'' \<notin> set p1 \<Longrightarrow> CHR ''.'' \<notin> set p2 \<Longrightarrow>
   split_on CHR ''.'' (p0 @ ''.'' @ p1 @ ''.'' @ p2) = [p0, p1, p2]"
  by (simp add: split_on_append split_on_none)

text \<open>
  C25: The issuer's own token verifies to the user it was issued for exactly from 30 seconds
  before the issue to 30 seconds after the hour it lives, in whole seconds; an empty user id
  never verifies. \<open>unmarshal\<close> inverts \<open>marshal\<close> on the issued claims.
\<close>

theorem auth_token_lifetime:
  assumes "marshal (issuedClaims t now userID TokenTTL) = Some json"
    and "unmarshal json = Some (issuedClaims t now userID TokenTTL)"
  shows "\<exists>token. IssueToken mac marshal t now userID = Inr token \<and>
    VerifyToken mac unmarshal t later token =
      (if userID \<noteq> '''' \<and> unix_seconds now - 30 \<le> unix_seconds later \<and>
          unix_seconds later \<le> unix_seconds now + 3630
       then Inr userID else Inl ErrUnauthorized)"
proof -
  let ?p1 = "EncodeToString urlAlphabet json"
  let ?input = "jwtHeader @ ''.'' @ ?p1"
  let ?token = "jwtHeader @ ''.'' @ ?p1 @ ''.'' @ sign mac t ?input"
  have issue: "IssueToken mac marshal t now userID = Inr ?token"
    by (simp add: IssueToken_def IssueWithTTL_def assms Let_def)
  have "CHR ''.'' \<notin> set jwtHeader" "CHR ''.'' \<notin> set ?p1" "CHR ''.'' \<notin> set (sign mac t ?input)"
    by (simp_all only: jwtHeader_def sign_def EncodeToString_no_dot good_url not_False_eq_True)
  from VerifyToken_parts [OF this] have "split_on CHR ''.'' ?token = [jwtHeader, ?p1, sign mac t ?input]" .
  moreover have "unix_seconds (now + TokenTTL) = unix_seconds now + 3600"
    by (simp add: TokenTTL_def unix_seconds_add)
  ultimately have "VerifyToken mac unmarshal t later ?token =
      (if userID \<noteq> '''' \<and> unix_seconds now - 30 \<le> unix_seconds later \<and>
          unix_seconds later \<le> unix_seconds now + 3630
       then Inr userID else Inl ErrUnauthorized)"
    by (simp add: VerifyToken_def assms issuedClaims_def)
  with issue show ?thesis by blast
qed

definition exIssuer :: token_issuer where
  "exIssuer = \<lparr>tiSecret = ''k'', tiIssuer = ''spotiflac-cloud'', tiAud = ''spotiflac-mobile''\<rparr>"

theorem auth_token_lifetime_witness:
  "\<exists>token. IssueToken toyHash (\<lambda>_. Some ''{}'') exIssuer 0 ''u'' = Inr token \<and>
     VerifyToken toyHash (\<lambda>_. Some (issuedClaims exIssuer 0 ''u'' TokenTTL)) exIssuer nanos_per_second token = Inr ''u''"
  using auth_token_lifetime [of "\<lambda>_. Some ''{}''" exIssuer 0 "''u''" "''{}''"
      "\<lambda>_. Some (issuedClaims exIssuer 0 ''u'' TokenTTL)" toyHash nanos_per_second]
  by (simp add: unix_seconds_def nanos_per_second_def)

text \<open>
  C10: Whatever bytes are presented, the middleware lets a request through only as the
  subject of a payload that carries the issuer's signature, its name and audience, and that
  is neither expired nor from the future; the next handler sees exactly that user id.
\<close>

theorem auth_middleware_sound:
  assumes "Middleware mac unmarshal t now authorization ctx = Inr ctx'"
  shows "\<exists>p0 p1 json cl. BearerToken authorization = p0 @ ''.'' @ p1 @ ''.'' @ sign mac t (p0 @ ''.'' @ p1) \<and>
    DecodeString urlAlphabet p1 = Some json \<and> unmarshal json = Some cl \<and>
    clIssuer cl = tiIssuer t \<and> clAudience cl = tiAud t \<and>
    unix_seconds now \<le> clExpires cl + 30 \<and> clIssuedAt cl \<le> unix_seconds now + 30 \<and>
    clSubject cl \<noteq> '''' \<and> UserIDFrom ctx' = clSubject cl"
proof -
  let ?token = "BearerToken authorization"
  from assms obtain userID where v: "VerifyToken mac unmarshal t now ?token = Inr userID"
    and ctx': "ctx' = WithUserID ctx userID"
    by (auto simp: Middleware_def Let_def split: if_splits sum.splits)
  obtain p0 p1 p2 where parts: "split_on CHR ''.'' ?token = [p0, p1, p2]"
    using v by (auto simp: VerifyToken_def split: list.splits)
  have sig: "sign mac t (p0 @ ''.'' @ p1) = p2"
    using v by (auto simp: VerifyToken_def parts split: if_splits)
  obtain json cl where dec: "DecodeString urlAlphabet p1 = Some json" "unmarshal json = Some cl"
    using v by (auto simp: VerifyToken_def parts sig split: option.splits)
  have "?token = p0 @ ''.'' @ p1 @ ''.'' @ p2" using join_split [of "CHR ''.''" ?token] by (simp add: parts)
  moreover have "clIssuer cl = tiIssuer t \<and> clAudience cl = tiAud t \<and>
    unix_seconds now \<le> clExpires cl + 30 \<and> clIssuedAt cl \<le> unix_seconds now + 30 \<and>
    clSubject cl \<noteq> '''' \<and> userID = clSubject cl"
    using v by (simp add: VerifyToken_def parts sig dec split: if_splits)
  ultimately show ?thesis using dec sig by (auto simp: ctx')
qed

definition exToken :: string where
  "exToken = jwtHeader @ ''.'' @ EncodeToString urlAlphabet ''{}'' @ ''.'' @
     sign toyHash exIssuer (jwtHeader @ ''.'' @ EncodeToString urlAlphabet ''{}'')"

theorem auth_middleware_sound_witness:
  "\<exists>ctx. Middleware toyHash (\<lambda>_. Some (issuedClaims exIssuer 0 ''u'' TokenTTL)) exIssuer 0
       (''Bearer '' @ exToken) [] = Inr ctx \<and> UserIDFrom ctx = ''u''"
proof -
  have run: "Middleware toyHash (\<lambda>_. Some (issuedClaims exIssuer 0 ''u'' TokenTTL)) exIssuer 0
       (''Bearer '' @ exToken) [] = Inr (WithUserID [] ''u'')"
    by code_simp
  from auth_middleware_sound [OF run] show ?thesis using run by (auto simp: issuedClaims_def)
qed

end
