(* ===== verification/AuthStore.thy ===== *)
theory AuthStore
  imports AuthToken
begin

text \<open>
  Accounts, refresh tokens and devices (\<open>backend/auth/store.go\<close>) and the handlers of
  \<open>/v1/auth/*\<close> (\<open>backend/auth/handler.go\<close>). Each critical section of the store is one
  function; \<open>RotateRefreshToken\<close> and the sign-in handlers are sequences of such sections, and
  the last part of the theory runs them interleaved. What the code takes from outside (hashes,
  JSON of the claims, Unicode lower-casing, the token issuer) is the record \<open>auth_env\<close>;
  random material is an argument, \<open>None\<close> when the random source failed. \<open>sort.Slice\<close> is
  modelled by a stable sort, one of the orders it may produce where instants tie.
\<close>

section \<open>Data\<close>

record auth_env =
  aeSha :: "string \<Rightarrow> string"
  aeMac :: "string \<Rightarrow> string \<Rightarrow> string"
  aeMarshal :: "claims \<Rightarrow> string option"
  aeTokens :: token_issuer
  aeLower :: "string \<Rightarrow> string"

record user =
  usID :: string
  usEmail :: string
  usDisplayName :: string
  usPasswordHash :: string
  usCreatedAt :: time
  usEmailVerified :: bool

record auth_device =
  adID :: string
  adName :: string
  adPlatform :: string
  adCreatedAt :: time
  adLastSeenAt :: time

record session =
  seAccessToken :: string
  seRefreshToken :: string
  seExpiresIn :: int
  seUser :: user

record refresh_record =
  rfHash :: string
  rfUserID :: string
  rfDeviceID :: string
  rfExpires :: time

record auth_store =
  asUsersByEmail :: "(string, user) gomap"
  asUsersByID :: "(string, user) gomap"
  asRefresh :: "(string, refresh_record) gomap"
  asRotated :: "(string, bool) gomap"
  asRotatedOwner :: "(string, string) gomap"
  asDevices :: "(string, auth_device list) gomap"

definition NewAuthStore :: auth_store where
  "NewAuthStore = \<lparr>asUsersByEmail = [], asUsersByID = [], asRefresh = [], asRotated = [],
     asRotatedOwner = [], asDevices = []\<rparr>"

section \<open>Users\<close>

definition normalizeEmail :: "auth_env \<Rightarrow> string \<Rightarrow> string" where
  "normalizeEmail env email = aeLower env (trim_space email)"

text \<open>\<open>raw\<close> is the 12 random bytes of the new id (the code panics without them).\<close>

definition newID :: "string \<Rightarrow> string \<Rightarrow> string" where
  "newID pre raw = pre @ ''_'' @ hex_encode raw"

definition Register ::
  "auth_env \<Rightarrow> string option \<Rightarrow> string \<Rightarrow> time \<Rightarrow> string \<Rightarrow> string \<Rightarrow> string \<Rightarrow> auth_store
    \<Rightarrow> (auth_error + user) \<times> auth_store" where
  "Register env salt raw now email password displayName s =
     (let email' = normalizeEmail env email
      in if email' = '''' \<or> CHR ''@'' \<notin> set email' then (Inl ErrEmailInvalid, s)
         else case HashPassword (aeMac env) salt password of
                Inl e \<Rightarrow> (Inl e, s)
              | Inr hash \<Rightarrow>
                  if map_of (asUsersByEmail s) email' \<noteq> None then (Inl ErrEmailTaken, s)
                  else
                    let u = \<lparr>usID = newID ''usr'' raw, usEmail = email', usDisplayName = trim_space displayName,
                             usPasswordHash = hash, usCreatedAt = now, usEmailVerified = False\<rparr>
                    in (Inr u, s\<lparr>asUsersByEmail := put email' u (asUsersByEmail s),
                                 asUsersByID := put (usID u) u (asUsersByID s)\<rparr>))"

definition Authenticate :: "auth_env \<Rightarrow> string \<Rightarrow> string \<Rightarrow> auth_store \<Rightarrow> auth_error + user" where
  "Authenticate env email password s =
     (case map_of (asUsersByEmail s) (normalizeEmail env email) of
        None \<Rightarrow> Inl ErrInvalidCredentials
      | Some u \<Rightarrow>
          if \<not> VerifyPassword (aeMac env) password (usPasswordHash u) then Inl ErrInvalidCredentials
          else Inr u)"

definition UserByID :: "string \<Rightarrow> auth_store \<Rightarrow> auth_error + user" where
  "UserByID i s = (case map_of (asUsersByID s) i of None \<Rightarrow> Inl ErrUnauthorized | Some u \<Rightarrow> Inr u)"

section \<open>Devices\<close>

definition maxDevicesPerUser :: nat where
  "maxDevicesPerUser = 32"

text \<open>The loop that updates the first device with the id, if there is one.\<close>

fun updateDevice :: "string \<Rightarrow> (auth_device \<Rightarrow> auth_device) \<Rightarrow> auth_device list \<Rightarrow> auth_device list option" where
  "updateDevice i f [] = None"
| "updateDevice i f (d # ds) =
     (if adID d = i then Some (f d # ds) else map_option ((#) d) (updateDevice i f ds))"

definition RegisterDevice ::
  "time \<Rightarrow> string \<Rightarrow> string \<Rightarrow> string \<Rightarrow> string \<Rightarrow> auth_store \<Rightarrow> (auth_error + auth_device list) \<times> auth_store" where
  "RegisterDevice now userID deviceID name platform s =
     (if trim_space deviceID = '''' then (Inl ErrAuthDeviceRequired, s)
      else
        let list = get_or [] (asDevices s) userID
        in case updateDevice deviceID
                  (\<lambda>d. d\<lparr>adName := trim_space name, adPlatform := trim_space platform, adLastSeenAt := now\<rparr>) list of
             Some list' \<Rightarrow> (Inr list', s\<lparr>asDevices := put userID list' (asDevices s)\<rparr>)
           | None \<Rightarrow>
               let list' = list @ [\<lparr>adID = deviceID, adName = trim_space name, adPlatform = trim_space platform,
                                   adCreatedAt = now, adLastSeenAt = now\<rparr>];
                   kept = (if length list' > maxDevicesPerUser
                           then drop (length list' - maxDevicesPerUser) (sort_key adLastSeenAt list')
                           else list')
               in (Inr kept, s\<lparr>asDevices := put userID kept (asDevices s)\<rparr>))"

definition Devices :: "string \<Rightarrow> auth_store \<Rightarrow> auth_device list" where
  "Devices userID s = sort_key (\<lambda>d. - adLastSeenAt d) (get_or [] (asDevices s) userID)"

definition RevokeDevice :: "string \<Rightarrow> string \<Rightarrow> auth_store \<Rightarrow> auth_error option \<times> auth_store" where
  "RevokeDevice userID deviceID s =
     (let list = get_or [] (asDevices s) userID;
          found = list_ex (\<lambda>d. adID d = deviceID) list;
          kept = filter (\<lambda>d. adID d \<noteq> deviceID) list
      in if \<not> found then (Some ErrAuthDeviceNotFound, s)
         else (None, s\<lparr>asDevices := put userID kept (asDevices s),
                       asRefresh := filter (\<lambda>(h, r). \<not> (rfUserID r = userID \<and> rfDeviceID r = deviceID))
                                      (asRefresh s)\<rparr>))"

definition TouchDevice :: "time \<Rightarrow> string \<Rightarrow> string \<Rightarrow> auth_store \<Rightarrow> auth_store" where
  "TouchDevice now userID deviceID s =
     (case updateDevice deviceID (\<lambda>d. d\<lparr>adLastSeenAt := now\<rparr>) (get_or [] (asDevices s) userID) of
        None \<Rightarrow> s
      | Some list \<Rightarrow> s\<lparr>asDevices := put userID list (asDevices s)\<rparr>)"

section \<open>Refresh tokens\<close>

definition RefreshTTL :: int where
  "RefreshTTL = 30 * 24 * 3600 * nanos_per_second"

definition hashToken :: "auth_env \<Rightarrow> string \<Rightarrow> string" where
  "hashToken env token = hex_encode (aeSha env token)"

text \<open>\<open>random\<close> is the 32 bytes of the random source.\<close>

definition newTokenMaterial :: "string option \<Rightarrow> auth_error + string" where
  "newTokenMaterial random =
     (case random of None \<Rightarrow> Inl ErrRandom | Some raw \<Rightarrow> Inr (EncodeToString urlAlphabet raw))"

definition IssueSession ::
  "auth_env \<Rightarrow> string option \<Rightarrow> time \<Rightarrow> user \<Rightarrow> string \<Rightarrow> auth_store \<Rightarrow> (auth_error + session) \<times> auth_store" where
  "IssueSession env random now u deviceID s =
     (case IssueToken (aeMac env) (aeMarshal env) (aeTokens env) now (usID u) of
        Inl e \<Rightarrow> (Inl e, s)
      | Inr access \<Rightarrow>
          (case newTokenMaterial random of
             Inl e \<Rightarrow> (Inl e, s)
           | Inr material \<Rightarrow>
               (Inr \<lparr>seAccessToken = access, seRefreshToken = material,
                     seExpiresIn = TokenTTL div nanos_per_second, seUser = u\<rparr>,
                s\<lparr>asRefresh := put (hashToken env material)
                    \<lparr>rfHash = hashToken env material, rfUserID = usID u, rfDeviceID = deviceID,
                     rfExpires = now + RefreshTTL\<rparr> (asRefresh s)\<rparr>)))"

text \<open>
  The first critical section of \<open>RotateRefreshToken\<close>: the token was live and is now spent
  (then a session is to be issued), it was live but expired or orphaned, or it is not live.
\<close>

datatype rotate_outcome = RotateSpent user string | RotateDead | RotateUnknown

definition rotateLookup :: "time \<Rightarrow> string \<Rightarrow> auth_store \<Rightarrow> rotate_outcome \<times> auth_store" where
  "rotateLookup now hash s =
     (case map_of (asRefresh s) hash of
        None \<Rightarrow> (RotateUnknown, s)
      | Some r \<Rightarrow>
          if now > rfExpires r then (RotateDead, s\<lparr>asRefresh := del hash (asRefresh s)\<rparr>)
          else (case map_of (asUsersByID s) (rfUserID r) of
                  None \<Rightarrow> (RotateDead, s\<lparr>asRefresh := del hash (asRefresh s)\<rparr>)
                | Some u \<Rightarrow>
                    (RotateSpent u (rfDeviceID r),
                     s\<lparr>asRefresh := del hash (asRefresh s), asRotated := put hash True (asRotated s),
                       asRotatedOwner := put hash (usID u) (asRotatedOwner s)\<rparr>)))"

definition isRotated :: "string \<Rightarrow> auth_store \<Rightarrow> bool" where
  "isRotated hash s = get_or False (asRotated s) hash"

definition revokeAllForRotated :: "string \<Rightarrow> auth_store \<Rightarrow> auth_store" where
  "revokeAllForRotated hash s =
     (case map_of (asRotatedOwner s) hash of
        None \<Rightarrow> s
      | Some userID \<Rightarrow>
          let gone = filter (\<lambda>(h, r). rfUserID r = userID) (asRefresh s)
          in s\<lparr>asRefresh := filter (\<lambda>(h, r). rfUserID r \<noteq> userID) (asRefresh s),
               asRotated := fold (\<lambda>(h, r) m. put h True m) gone (asRotated s),
               asRotatedOwner := fold (\<lambda>(h, r) m. put h userID m) gone (asRotatedOwner s)\<rparr>)"

definition RotateRefreshToken ::
  "auth_env \<Rightarrow> string option \<Rightarrow> time \<Rightarrow> string \<Rightarrow> auth_store \<Rightarrow> (auth_error + session) \<times> auth_store" where
  "RotateRefreshToken env random now refreshToken s =
     (let hash = hashToken env refreshToken
      in case rotateLookup now hash s of
           (RotateSpent u deviceID, s1) \<Rightarrow>
             let s2 = (if deviceID \<noteq> '''' then TouchDevice now (usID u) deviceID s1 else s1)
             in IssueSession env random now u deviceID s2
         | (RotateDead, s1) \<Rightarrow> (Inl ErrUnauthorized, s1)
         | (RotateUnknown, s1) \<Rightarrow>
             if isRotated hash s1 then (Inl ErrUnauthorized, revokeAllForRotated hash s1)
             else (Inl ErrUnauthorized, s1))"

definition RevokeRefreshToken :: "auth_env \<Rightarrow> string \<Rightarrow> auth_store \<Rightarrow> auth_store" where
  "RevokeRefreshToken env refreshToken s =
     (let hash = hashToken env refreshToken
      in if map_of (asRefresh s) hash \<noteq> None
         then s\<lparr>asRefresh := del hash (asRefresh s), asRotated := put hash True (asRotated s)\<rparr>
         else s)"

section \<open>Handlers\<close>

record register_request =
  rqEmail :: string
  rqPassword :: string
  rqDisplayName :: string
  rqDeviceID :: string
  rqDeviceName :: string
  rqPlatform :: string

definition sessionWithDevice ::
  "auth_env \<Rightarrow> string option \<Rightarrow> time \<Rightarrow> user \<Rightarrow> string \<Rightarrow> string \<Rightarrow> string \<Rightarrow> auth_store
    \<Rightarrow> (auth_error + session) \<times> auth_store" where
  "sessionWithDevice env random now u deviceID deviceName platform s =
     (case IssueSession env random now u deviceID s of
        (Inl e, s1) \<Rightarrow> (Inl e, s1)
      | (Inr ses, s1) \<Rightarrow>
          (Inr ses, if deviceID \<noteq> '''' then snd (RegisterDevice now (usID u) deviceID deviceName platform s1) else s1))"

definition registerHandler ::
  "auth_env \<Rightarrow> string option \<Rightarrow> string \<Rightarrow> string option \<Rightarrow> time \<Rightarrow> string + register_request \<Rightarrow> auth_store
    \<Rightarrow> session http_response \<times> auth_store" where
  "registerHandler env salt raw random now body s =
     (case body of
        Inl e \<Rightarrow> (WriteError StatusBadRequest e, s)
      | Inr req \<Rightarrow>
          (case Register env salt raw now (rqEmail req) (rqPassword req) (rqDisplayName req) s of
             (Inl e, s1) \<Rightarrow>
               (WriteError (if e = ErrEmailTaken then StatusConflict else StatusBadRequest) (authErrorText e), s1)
           | (Inr u, s1) \<Rightarrow>
               (case sessionWithDevice env random now u (rqDeviceID req) (rqDeviceName req) (rqPlatform req) s1 of
                  (Inl e, s2) \<Rightarrow> (WriteError StatusInternalServerError ''could not create session'', s2)
                | (Inr ses, s2) \<Rightarrow> (WriteJSON StatusCreated ses, s2))))"

definition loginHandler ::
  "auth_env \<Rightarrow> string option \<Rightarrow> time \<Rightarrow> string + (string \<times> string \<times> string) \<Rightarrow> auth_store
    \<Rightarrow> session http_response \<times> auth_store" where
  "loginHandler env random now body s =
     (case body of
        Inl e \<Rightarrow> (WriteError StatusBadRequest e, s)
      | Inr (email, password, deviceID) \<Rightarrow>
          (case Authenticate env email password s of
             Inl e \<Rightarrow> (WriteError StatusUnauthorized (authErrorText e), s)
           | Inr u \<Rightarrow>
               (case sessionWithDevice env random now u deviceID '''' '''' s of
                  (Inl e, s2) \<Rightarrow> (WriteError StatusInternalServerError ''could not create session'', s2)
                | (Inr ses, s2) \<Rightarrow> (WriteJSON StatusOK ses, s2))))"

definition refreshHandler ::
  "auth_env \<Rightarrow> string option \<Rightarrow> time \<Rightarrow> string + string \<Rightarrow> auth_store \<Rightarrow> session http_response \<times> auth_store" where
  "refreshHandler env random now body s =
     (case body of
        Inl e \<Rightarrow> (WriteError StatusBadRequest e, s)
      | Inr refreshToken \<Rightarrow>
          if trim_space refreshToken = '''' then (WriteError StatusBadRequest ''refreshToken is required'', s)
          else (case RotateRefreshToken env random now refreshToken s of
                  (Inl e, s1) \<Rightarrow> (WriteError StatusUnauthorized ''refresh token rejected'', s1)
                | (Inr ses, s1) \<Rightarrow> (WriteJSON StatusOK ses, s1)))"

definition logoutHandler :: "auth_env \<Rightarrow> string + string \<Rightarrow> auth_store \<Rightarrow> string http_response \<times> auth_store" where
  "logoutHandler env body s =
     (case body of
        Inl e \<Rightarrow> (WriteError StatusBadRequest e, s)
      | Inr refreshToken \<Rightarrow> (WriteJSON StatusOK ''ok'', RevokeRefreshToken env refreshToken s))"

definition authMeHandler :: "string \<Rightarrow> auth_store \<Rightarrow> user http_response" where
  "authMeHandler userID s =
     (if userID = '''' then WriteError StatusUnauthorized (authErrorText ErrUnauthorized)
      else case UserByID userID s of
             Inl e \<Rightarrow> WriteError StatusUnauthorized (authErrorText ErrUnauthorized)
           | Inr u \<Rightarrow> WriteJSON StatusOK u)"

definition registerDeviceHandler ::
  "time \<Rightarrow> string \<Rightarrow> string + (string \<times> string \<times> string) \<Rightarrow> auth_store
    \<Rightarrow> auth_device list http_response \<times> auth_store" where
  "registerDeviceHandler now userID body s =
     (if userID = '''' then (WriteError StatusUnauthorized (authErrorText ErrUnauthorized), s)
      else case body of
             Inl e \<Rightarrow> (WriteError StatusBadRequest e, s)
           | Inr (deviceID, name, platform) \<Rightarrow>
               (case RegisterDevice now userID deviceID name platform s of
                  (Inl e, s1) \<Rightarrow> (WriteError StatusBadRequest (authErrorText e), s1)
                | (Inr devices, s1) \<Rightarrow> (WriteJSON StatusOK devices, s1)))"

definition listDevicesHandler :: "string \<Rightarrow> auth_store \<Rightarrow> auth_device list http_response" where
  "listDevicesHandler userID s =
     (if userID = '''' then WriteError StatusUnauthorized (authErrorText ErrUnauthorized)
      else WriteJSON StatusOK (Devices userID s))"

definition revokeDeviceHandler :: "string \<Rightarrow> string \<Rightarrow> auth_store \<Rightarrow> string http_response \<times> auth_store" where
  "revokeDeviceHandler userID deviceID s =
     (if userID = '''' then (WriteError StatusUnauthorized (authErrorText ErrUnauthorized), s)
      else case RevokeDevice userID deviceID s of
             (Some e, s1) \<Rightarrow> (WriteError StatusNotFound (authErrorText e), s1)
           | (None, s1) \<Rightarrow> (WriteJSON StatusOK ''ok'', s1))"

section \<open>Runs\<close>

text \<open>
  The operations of the store as values; \<open>OpIssue\<close> is the session of a sign-in, for whatever
  user the handler holds. \<open>issuedHash\<close> is the hash of the token an operation would issue.
\<close>

datatype auth_op =
    OpRegister "string option" string time string string string
  | OpIssue "string option" time user string
  | OpRotate "string option" time string
  | OpLogout string
  | OpRegisterDevice time string string string string
  | OpRevokeDevice string string

fun applyAuth :: "auth_env \<Rightarrow> auth_op \<Rightarrow> auth_store \<Rightarrow> auth_store" where
  "applyAuth env (OpRegister salt raw now email password name) s = snd (Register env salt raw now email password name s)"
| "applyAuth env (OpIssue random now u d) s = snd (IssueSession env random now u d s)"
| "applyAuth env (OpRotate random now token) s = snd (RotateRefreshToken env random now token s)"
| "applyAuth env (OpLogout token) s = RevokeRefreshToken env token s"
| "applyAuth env (OpRegisterDevice now u d name platform) s = snd (RegisterDevice now u d name platform s)"
| "applyAuth env (OpRevokeDevice u d) s = snd (RevokeDevice u d s)"

fun issuedHash :: "auth_env \<Rightarrow> auth_op \<Rightarrow> string option" where
  "issuedHash env (OpIssue (Some raw) now u d) = Some (hashToken env (EncodeToString urlAlphabet raw))"
| "issuedHash env (OpRotate (Some raw) now token) = Some (hashToken env (EncodeToString urlAlphabet raw))"
| "issuedHash env _ = None"

fun runAuth :: "auth_env \<Rightarrow> auth_op list \<Rightarrow> auth_store \<Rightarrow> auth_store" where
  "runAuth env [] s = s"
| "runAuth env (op # ops) s = runAuth env ops (applyAuth env op s)"

text \<open>No token issued in a run has the hash \<open>h\<close>.\<close>

definition avoids :: "auth_env \<Rightarrow> string \<Rightarrow> auth_op list \<Rightarrow> bool" where
  "avoids env h ops \<longleftrightarrow> list_all (\<lambda>op. issuedHash env op \<noteq> Some h) ops"

definition spent :: "string \<Rightarrow> string \<Rightarrow> auth_store \<Rightarrow> bool" where
  "spent h userID s \<longleftrightarrow> map_of (asRefresh s) h = None \<and> map_of (asRotated s) h = Some True \<and>
     map_of (asRotatedOwner s) h = Some userID"

lemma map_of_filter_None: "map_of m k = None \<Longrightarrow> map_of (filter P m) k = None"
  by (induction m) auto

lemma map_of_fold_put: "map_of (fold (\<lambda>(h, r) m. put h v m) xs m) k =
    (if k \<in> fst ` set xs then Some v else map_of m k)"
  by (induction xs arbitrary: m) (auto simp: image_iff)

lemma asRefresh_TouchDevice [simp]:
  "asRefresh (TouchDevice now u d s) = asRefresh s"
  "asRotated (TouchDevice now u d s) = asRotated s"
  "asRotatedOwner (TouchDevice now u d s) = asRotatedOwner s"
  "asUsersByID (TouchDevice now u d s) = asUsersByID s"
  "asUsersByEmail (TouchDevice now u d s) = asUsersByEmail s"
  by (simp_all add: TouchDevice_def split: option.splits)

lemma spent_IssueSession:
  assumes "spent h v s" and "\<And>raw. random = Some raw \<Longrightarrow> hashToken env (EncodeToString urlAlphabet raw) \<noteq> h"
  shows "spent h v (snd (IssueSession env random now u d s))"
  using assms by (auto simp: IssueSession_def newTokenMaterial_def spent_def split: sum.splits option.splits)

lemma spent_rotateLookup: "spent h v s \<Longrightarrow> spent h v (snd (rotateLookup now k s))"
  by (auto simp: rotateLookup_def spent_def split: option.splits)

lemma spent_revokeAll: "spent h v s \<Longrightarrow> spent h v (revokeAllForRotated k s)"
  by (auto simp: revokeAllForRotated_def spent_def map_of_filter_None map_of_fold_put map_of_None_iff
      Let_def split: option.splits)

lemma spent_Touch: "spent h v s \<Longrightarrow> spent h v (TouchDevice now u d s)"
  by (simp add: spent_def)

lemma spent_RotateRefreshToken:
  assumes "spent h v s" and "\<And>raw. random = Some raw \<Longrightarrow> hashToken env (EncodeToString urlAlphabet raw) \<noteq> h"
  shows "spent h v (snd (RotateRefreshToken env random now token s))"
proof (cases "rotateLookup now (hashToken env token) s")
  case (Pair out s1)
  have s1: "spent h v s1" using spent_rotateLookup [OF assms(1), of now "hashToken env token"] Pair by simp
  show ?thesis
    by (cases out)
      (simp_all add: RotateRefreshToken_def Pair Let_def spent_IssueSession [OF _ assms(2)] spent_Touch s1 spent_revokeAll)
qed

lemma spent_applyAuth:
  assumes "spent h v s" and "issuedHash env op \<noteq> Some h"
  shows "spent h v (applyAuth env op s)"
proof (cases op)
  case (OpRegister salt raw now email password name)
  then show ?thesis using assms(1)
    by (auto simp: Register_def spent_def Let_def split: sum.splits)
next
  case (OpIssue random now u d)
  with assms show ?thesis by (cases random) (auto intro!: spent_IssueSession)
next
  case (OpRotate random now token)
  with assms show ?thesis by (cases random) (auto intro!: spent_RotateRefreshToken)
next
  case (OpLogout token)
  with assms(1) show ?thesis by (auto simp: RevokeRefreshToken_def spent_def Let_def)
next
  case (OpRegisterDevice now u d name platform)
  with assms(1) show ?thesis by (auto simp: RegisterDevice_def spent_def Let_def split: option.splits)
next
  case (OpRevokeDevice u d)
  with assms(1) show ?thesis by (auto simp: RevokeDevice_def spent_def Let_def map_of_filter_None)
qed

lemma spent_runAuth: "spent h v s \<Longrightarrow> avoids env h ops \<Longrightarrow> spent h v (runAuth env ops s)"
  by (induction ops arbitrary: s) (simp_all add: avoids_def spent_applyAuth)

text \<open>What presenting a spent token does.\<close>

lemma RotateRefreshToken_spent:
  assumes "spent (hashToken env token) v s"
  shows "RotateRefreshToken env random now token s =
      (Inl ErrUnauthorized, revokeAllForRotated (hashToken env token) s) \<and>
    (\<forall>(k, r) \<in> set (asRefresh (revokeAllForRotated (hashToken env token) s)). rfUserID r \<noteq> v)"
  using assms by (auto simp: spent_def RotateRefreshToken_def rotateLookup_def isRotated_def get_or_def
      revokeAllForRotated_def Let_def)

section \<open>Properties\<close>

text \<open>
  C4: A refresh token works once. After it has been exchanged, whatever happens in between,
  presenting it again is refused and leaves its owner without any live refresh token. The
  only hypothesis on the random source is that no later token has the same hash.
\<close>

theorem auth_refresh_single_use:
  assumes "RotateRefreshToken env random now token s = (Inr ses, s1)"
    and "avoids env (hashToken env token) (OpRotate random now token # ops)"
  shows "\<exists>s3. RotateRefreshToken env random' now' token (runAuth env ops s1) = (Inl ErrUnauthorized, s3) \<and>
    (\<forall>(k, r) \<in> set (asRefresh s3). rfUserID r \<noteq> usID (seUser ses))"
proof -
  let ?h = "hashToken env token"
  obtain out s0 where l: "rotateLookup now ?h s = (out, s0)" by (cases "rotateLookup now ?h s")
  obtain u d where out: "out = RotateSpent u d"
    using assms(1) l by (cases out) (auto simp: RotateRefreshToken_def Let_def split: if_splits)
  have spent0: "spent ?h (usID u) s0"
    using l unfolding out by (auto simp: rotateLookup_def spent_def split: option.splits if_splits)
  let ?s' = "if d \<noteq> '''' then TouchDevice now (usID u) d s0 else s0"
  have issue: "IssueSession env random now u d ?s' = (Inr ses, s1)"
    using assms(1) l by (simp add: RotateRefreshToken_def out Let_def split: if_splits)
  then have u: "seUser ses = u"
    by (auto simp: IssueSession_def split: sum.splits)
  have "spent ?h (usID u) (snd (IssueSession env random now u d ?s'))"
  proof (rule spent_IssueSession)
    show "spent ?h (usID u) ?s'" using spent0 by (simp add: spent_Touch)
    show "hashToken env (EncodeToString urlAlphabet raw) \<noteq> ?h" if "random = Some raw" for raw
      using assms(2) that by (simp add: avoids_def)
  qed
  then have "spent ?h (usID (seUser ses)) s1" using issue u by simp
  then have "spent ?h (usID (seUser ses)) (runAuth env ops s1)"
    using assms(2) by (intro spent_runAuth) (simp_all add: avoids_def)
  from RotateRefreshToken_spent [OF this] show ?thesis by blast
qed

definition exUser :: user where
  "exUser = \<lparr>usID = ''usr_1'', usEmail = ''a@b'', usDisplayName = '''', usPasswordHash = '''',
     usCreatedAt = 1, usEmailVerified = False\<rparr>"

text \<open>The hash of the examples is the identity, so the token of \<open>raw\<close> is its encoding.\<close>

definition exEnv :: auth_env where
  "exEnv = \<lparr>aeSha = id, aeMac = toyHash, aeMarshal = (\<lambda>_. Some ''{}''), aeTokens = exIssuer, aeLower = id\<rparr>"

definition exAuthStore :: auth_store where
  "exAuthStore = NewAuthStore\<lparr>asUsersByID := [(''usr_1'', exUser)]\<rparr>"

definition exSessions :: auth_store where
  "exSessions = snd (IssueSession exEnv (Some ''bbb'') 1 exUser ''phone''
     (snd (IssueSession exEnv (Some ''aaa'') 1 exUser ''tablet'' exAuthStore)))"

theorem auth_refresh_single_use_witness:
  "\<exists>s3. RotateRefreshToken exEnv (Some ''ddd'') 9 (EncodeToString urlAlphabet ''aaa'')
       (runAuth exEnv [OpIssue (Some ''eee'') 3 exUser '''']
         (snd (RotateRefreshToken exEnv (Some ''ccc'') 2 (EncodeToString urlAlphabet ''aaa'') exSessions)))
       = (Inl ErrUnauthorized, s3) \<and>
     (\<forall>(k, r) \<in> set (asRefresh s3). rfUserID r \<noteq> ''usr_1'')"
proof -
  have "case fst (RotateRefreshToken exEnv (Some ''ccc'') 2 (EncodeToString urlAlphabet ''aaa'') exSessions) of
      Inl _ \<Rightarrow> False | Inr ses \<Rightarrow> usID (seUser ses) = ''usr_1''"
    by code_simp
  then have "\<exists>ses s1. RotateRefreshToken exEnv (Some ''ccc'') 2 (EncodeToString urlAlphabet ''aaa'') exSessions = (Inr ses, s1) \<and>
      usID (seUser ses) = ''usr_1''"
    by (cases "RotateRefreshToken exEnv (Some ''ccc'') 2 (EncodeToString urlAlphabet ''aaa'') exSessions")
      (simp split: sum.splits)
  then obtain ses s1 where r: "RotateRefreshToken exEnv (Some ''ccc'') 2 (EncodeToString urlAlphabet ''aaa'') exSessions = (Inr ses, s1)"
    and u: "usID (seUser ses) = ''usr_1''" by blast
  have "avoids exEnv (hashToken exEnv (EncodeToString urlAlphabet ''aaa''))
      (OpRotate (Some ''ccc'') 2 (EncodeToString urlAlphabet ''aaa'') # [OpIssue (Some ''eee'') 3 exUser ''''])"
    by code_simp
  from auth_refresh_single_use [OF r this] show ?thesis by (simp add: r u)
qed

text \<open>
  Reuse detection has a gap. The rotation of a token is two critical sections; when the
  same token is presented a second time between them, every session of the owner is revoked,
  and then the first caller is handed a live session all the same.
\<close>

theorem auth_reuse_race:
  assumes "rotateLookup now (hashToken env token) s = (RotateSpent u d, s1)"
    and "IssueSession env (Some raw) now u d (snd (RotateRefreshToken env random' now token s1)) = (Inr ses, s3)"
  shows "RotateRefreshToken env random' now token s1 = (Inl ErrUnauthorized, revokeAllForRotated (hashToken env token) s1) \<and>
    (\<forall>(k, r) \<in> set (asRefresh (revokeAllForRotated (hashToken env token) s1)). rfUserID r \<noteq> usID u) \<and>
    (\<exists>r. map_of (asRefresh s3) (hashToken env (seRefreshToken ses)) = Some r \<and>
       rfUserID r = usID u \<and> rfExpires r = now + RefreshTTL)"
proof -
  have spent: "spent (hashToken env token) (usID u) s1"
    using assms(1) by (auto simp: rotateLookup_def spent_def split: option.splits if_splits)
  have "\<exists>r. map_of (asRefresh s3) (hashToken env (seRefreshToken ses)) = Some r \<and>
       rfUserID r = usID u \<and> rfExpires r = now + RefreshTTL"
    using assms(2) by (auto simp: IssueSession_def newTokenMaterial_def split: sum.splits)
  with RotateRefreshToken_spent [OF spent, of random' now] show ?thesis by blast
qed

theorem auth_reuse_race_witness:
  "\<exists>s1 s2 ses s3.
     rotateLookup 2 (hashToken exEnv (EncodeToString urlAlphabet ''aaa'')) exSessions = (RotateSpent exUser ''tablet'', s1) \<and>
     RotateRefreshToken exEnv None 2 (EncodeToString urlAlphabet ''aaa'') s1 = (Inl ErrUnauthorized, s2) \<and>
     IssueSession exEnv (Some ''ccc'') 2 exUser ''tablet'' s2 = (Inr ses, s3) \<and>
     map rfUserID (map snd (asRefresh s2)) = [] \<and> map_of (asRefresh s3) (hashToken exEnv (seRefreshToken ses)) \<noteq> None"
proof -
  let ?t = "EncodeToString urlAlphabet ''aaa''"
  define s1 where "s1 = snd (rotateLookup 2 (hashToken exEnv ?t) exSessions)"
  have "fst (rotateLookup 2 (hashToken exEnv ?t) exSessions) = RotateSpent exUser ''tablet''" by code_simp
  then have l: "rotateLookup 2 (hashToken exEnv ?t) exSessions = (RotateSpent exUser ''tablet'', s1)"
    by (simp add: s1_def prod_eq_iff)
  define s2 where "s2 = snd (RotateRefreshToken exEnv None 2 ?t s1)"
  have "\<not> isl (fst (IssueSession exEnv (Some ''ccc'') 2 exUser ''tablet'' s2))"
    unfolding s2_def s1_def by code_simp
  then have "\<exists>ses. fst (IssueSession exEnv (Some ''ccc'') 2 exUser ''tablet'' s2) = Inr ses"
    by (auto simp: isl_def split: sum.splits) (metis old.sum.exhaust)
  then obtain ses s3 where i: "IssueSession exEnv (Some ''ccc'') 2 exUser ''tablet'' s2 = (Inr ses, s3)"
    by (cases "IssueSession exEnv (Some ''ccc'') 2 exUser ''tablet'' s2") auto
  have empty: "asRefresh s2 = []" unfolding s2_def s1_def by code_simp
  from auth_reuse_race [OF l i [unfolded s2_def]] l i empty show ?thesis
    by (auto simp: s2_def)
qed

section \<open>The invariant of a run\<close>

definition devicesOK :: "auth_device list \<Rightarrow> bool" where
  "devicesOK list \<longleftrightarrow> length list \<le> maxDevicesPerUser \<and> distinct (map adID list) \<and>
     (\<forall>d \<in> set list. trim_space (adID d) \<noteq> '''')"

definition refreshOK :: "auth_store \<Rightarrow> bool" where
  "refreshOK s \<longleftrightarrow> wf_map (asRefresh s) \<and>
     (\<forall>h r. map_of (asRefresh s) h = Some r \<longrightarrow> rfHash r = h \<and> map_of (asRotated s) h = None)"

definition authInv :: "auth_store \<Rightarrow> bool" where
  "authInv s \<longleftrightarrow> refreshOK s \<and> (\<forall>u. devicesOK (get_or [] (asDevices s) u))"

text \<open>An operation issues no token whose hash was spent before, or that it spends itself.\<close>

definition freshOp :: "auth_env \<Rightarrow> auth_op \<Rightarrow> auth_store \<Rightarrow> bool" where
  "freshOp env op s \<longleftrightarrow>
     (case issuedHash env op of
        None \<Rightarrow> True
      | Some h \<Rightarrow> map_of (asRotated s) h = None \<and>
          (case op of OpRotate _ _ token \<Rightarrow> h \<noteq> hashToken env token | _ \<Rightarrow> True))"

fun freshRun :: "auth_env \<Rightarrow> auth_op list \<Rightarrow> auth_store \<Rightarrow> bool" where
  "freshRun env [] s = True"
| "freshRun env (op # ops) s = (freshOp env op s \<and> freshRun env ops (applyAuth env op s))"

lemma updateDevice_ids:
  "updateDevice i f ds = Some ds' \<Longrightarrow> (\<And>d. adID (f d) = adID d) \<Longrightarrow> map adID ds' = map adID ds"
  by (induction ds arbitrary: ds') (auto split: if_splits)

lemma updateDevice_None: "updateDevice i f ds = None \<longleftrightarrow> i \<notin> adID ` set ds"
  by (induction ds) auto

lemma devicesOK_map: "map adID ds' = map adID ds \<Longrightarrow> devicesOK ds \<Longrightarrow> devicesOK ds'"
proof -
  assume eq: "map adID ds' = map adID ds" and ok: "devicesOK ds"
  have "length ds' = length ds" using eq by (metis length_map)
  moreover have "trim_space (adID d) \<noteq> ''''" if "d \<in> set ds'" for d
  proof -
    have "adID d \<in> set (map adID ds)" using that by (simp flip: eq)
    with ok show ?thesis by (auto simp: devicesOK_def)
  qed
  ultimately show ?thesis using ok by (simp add: devicesOK_def eq)
qed

lemma devicesOK_RegisterDevice:
  assumes "\<And>u. devicesOK (get_or [] (asDevices s) u)"
  shows "devicesOK (get_or [] (asDevices (snd (RegisterDevice now u d name platform s))) v)"
proof (cases "trim_space d = ''''")
  case True
  with assms show ?thesis by (simp add: RegisterDevice_def)
next
  case False
  let ?list = "get_or [] (asDevices s) u"
  let ?f = "\<lambda>d. d\<lparr>adName := trim_space name, adPlatform := trim_space platform, adLastSeenAt := now\<rparr>"
  show ?thesis
  proof (cases "updateDevice d ?f ?list")
    case (Some list')
    then have "map adID list' = map adID ?list" by (rule updateDevice_ids) simp
    then have "devicesOK list'" using assms by (rule devicesOK_map)
    with Some False assms show ?thesis by (simp add: RegisterDevice_def)
  next
    case None
    let ?new = "\<lparr>adID = d, adName = trim_space name, adPlatform = trim_space platform, adCreatedAt = now, adLastSeenAt = now\<rparr>"
    let ?all = "?list @ [?new]"
    have fresh: "d \<notin> adID ` set ?list" using None by (simp add: updateDevice_None)
    have dist: "distinct (map adID ?all)" and blank: "\<forall>e \<in> set ?all. trim_space (adID e) \<noteq> ''''"
      using assms [of u] fresh False by (auto simp: devicesOK_def)
    have "distinct (map adID (sort_key adLastSeenAt ?all))"
      using dist by (metis (no_types, lifting) distinct_map distinct_sort set_sort)
    moreover have "trim_space (adID e) \<noteq> ''''"
      if "e \<in> set (drop (length ?all - maxDevicesPerUser) (sort_key adLastSeenAt ?all))" for e
      using in_set_dropD [OF that] blank by auto
    ultimately have "devicesOK (drop (length ?all - maxDevicesPerUser) (sort_key adLastSeenAt ?all))"
      by (simp add: devicesOK_def drop_map [symmetric])
    moreover have "devicesOK ?all" if "length ?all \<le> maxDevicesPerUser"
      using that dist blank by (auto simp: devicesOK_def)
    ultimately show ?thesis using None False assms by (simp add: RegisterDevice_def Let_def)
  qed
qed

lemma devicesOK_TouchDevice:
  assumes "\<And>u. devicesOK (get_or [] (asDevices s) u)"
  shows "devicesOK (get_or [] (asDevices (TouchDevice now u d s)) v)"
  using assms devicesOK_map [OF updateDevice_ids, of d "\<lambda>d. d\<lparr>adLastSeenAt := now\<rparr>" "get_or [] (asDevices s) u"]
  by (auto simp: TouchDevice_def split: option.splits)

lemma devicesOK_filter: "devicesOK ds \<Longrightarrow> devicesOK (filter P ds)"
  by (auto simp: devicesOK_def intro: distinct_map_filter order_trans [OF length_filter_le])

lemma refreshOK_IssueSession:
  assumes "refreshOK s" and "\<And>raw. random = Some raw \<Longrightarrow>
      map_of (asRotated s) (hashToken env (EncodeToString urlAlphabet raw)) = None"
  shows "refreshOK (snd (IssueSession env random now u d s))"
  using assms by (auto simp: IssueSession_def newTokenMaterial_def refreshOK_def split: sum.splits option.splits)

lemma refreshOK_del: "refreshOK s \<Longrightarrow> refreshOK (s\<lparr>asRefresh := del h (asRefresh s)\<rparr>)"
  by (simp add: refreshOK_def)

lemma refreshOK_spend:
  "refreshOK s \<Longrightarrow> refreshOK (s\<lparr>asRefresh := del h (asRefresh s), asRotated := put h True (asRotated s), asRotatedOwner := x\<rparr>)"
  by (simp add: refreshOK_def)

lemma refreshOK_rotateLookup: "refreshOK s \<Longrightarrow> refreshOK (snd (rotateLookup now h s))"
  by (simp add: rotateLookup_def refreshOK_del refreshOK_spend split: option.splits)

lemma refreshOK_filter:
  assumes "refreshOK s"
  shows "refreshOK (s\<lparr>asRefresh := filter P (asRefresh s)\<rparr>)"
  using assms map_of_filter [of "asRefresh s" P] by (auto simp: refreshOK_def split: option.splits if_splits)

lemma refreshOK_revokeAll:
  assumes ok: "refreshOK s"
  shows "refreshOK (revokeAllForRotated h s)"
proof (cases "map_of (asRotatedOwner s) h")
  case None
  with ok show ?thesis by (simp add: revokeAllForRotated_def)
next
  case (Some v)
  have wf: "wf_map (asRefresh s)" using ok by (simp add: refreshOK_def)
  let ?gone = "filter (\<lambda>(h, r). rfUserID r = v) (asRefresh s)"
  let ?kept = "filter (\<lambda>(h, r). rfUserID r \<noteq> v) (asRefresh s)"
  have "rfHash r = k \<and> map_of (fold (\<lambda>(h, r) m. put h True m) ?gone (asRotated s)) k = None"
    if "map_of ?kept k = Some r" for k r
  proof -
    from that have k: "map_of (asRefresh s) k = Some r" "rfUserID r \<noteq> v"
      using map_of_filter [OF wf, of "\<lambda>(h, r). rfUserID r \<noteq> v" k] by (auto split: option.splits if_splits)
    have "k \<notin> fst ` set ?gone"
    proof
      assume "k \<in> fst ` set ?gone"
      then obtain r' where "(k, r') \<in> set (asRefresh s)" "rfUserID r' = v" by auto
      with k wf show False by (simp add: in_set_map_of)
    qed
    with k ok show ?thesis by (simp add: map_of_fold_put refreshOK_def)
  qed
  with wf show ?thesis using Some by (simp add: revokeAllForRotated_def refreshOK_def Let_def)
qed

lemma rotateLookup_rotated:
  "map_of (asRotated s) k = None \<Longrightarrow> k \<noteq> h \<Longrightarrow> map_of (asRotated (snd (rotateLookup now h s))) k = None"
  by (simp add: rotateLookup_def split: option.splits)

lemma rotateLookup_devices [simp]: "asDevices (snd (rotateLookup now h s)) = asDevices s"
  by (simp add: rotateLookup_def split: option.splits)

lemma refreshOK_TouchDevice [simp]: "refreshOK (TouchDevice now u d s) = refreshOK s"
  by (simp add: refreshOK_def)

lemma IssueSession_devices [simp]: "asDevices (snd (IssueSession env random now u d s)) = asDevices s"
  by (simp add: IssueSession_def split: sum.splits)

lemma revokeAll_devices [simp]: "asDevices (revokeAllForRotated h s) = asDevices s"
  by (simp add: revokeAllForRotated_def Let_def split: option.splits)

lemma authInv_Rotate:
  assumes inv: "authInv s" and fresh: "freshOp env (OpRotate random now token) s"
  shows "authInv (snd (RotateRefreshToken env random now token s))"
proof (cases "rotateLookup now (hashToken env token) s")
  case (Pair out s1)
  have r1: "refreshOK s1" and d1: "asDevices s1 = asDevices s"
    using refreshOK_rotateLookup [of s now "hashToken env token"] rotateLookup_devices [of now "hashToken env token" s]
      inv Pair by (simp_all add: authInv_def)
  have dev: "devicesOK (get_or [] (asDevices s1) v)" for v using inv d1 by (simp add: authInv_def)
  have new: "map_of (asRotated s1) (hashToken env (EncodeToString urlAlphabet raw)) = None" if "random = Some raw" for raw
    using fresh that rotateLookup_rotated [of s _ "hashToken env token" now] Pair by (simp add: freshOp_def)
  show ?thesis
  proof (cases out)
    case (RotateSpent u d)
    let ?s2 = "if d \<noteq> '''' then TouchDevice now (usID u) d s1 else s1"
    have "refreshOK (snd (IssueSession env random now u d ?s2))"
      by (rule refreshOK_IssueSession) (simp_all add: r1 new)
    moreover have "devicesOK (get_or [] (asDevices ?s2) v)" for v
      using dev devicesOK_TouchDevice [of s1] by simp
    ultimately show ?thesis by (simp add: RotateRefreshToken_def Pair RotateSpent authInv_def)
  qed (simp_all add: RotateRefreshToken_def Pair authInv_def r1 dev refreshOK_revokeAll Let_def)
qed

lemma authInv_Register:
  assumes inv: "authInv s"
  shows "authInv (snd (Register env salt raw now email password name s))"
proof -
  have "asRefresh (snd (Register env salt raw now email password name s)) = asRefresh s"
    "asRotated (snd (Register env salt raw now email password name s)) = asRotated s"
    "asDevices (snd (Register env salt raw now email password name s)) = asDevices s"
    by (simp_all add: Register_def Let_def split: sum.splits)
  with inv show ?thesis by (simp add: authInv_def refreshOK_def)
qed

lemma authInv_RevokeDevice:
  assumes inv: "authInv s"
  shows "authInv (snd (RevokeDevice u d s))"
proof -
  have d: "devicesOK (get_or [] (asDevices s) v)" for v using inv by (simp add: authInv_def)
  have r0: "refreshOK s" using inv by (simp add: authInv_def)
  have r: "refreshOK (s\<lparr>asDevices := x, asRefresh := filter P (asRefresh s)\<rparr>)" for x P
    using refreshOK_filter [OF r0, of P] by (simp add: refreshOK_def)
  show ?thesis
    by (simp add: authInv_def RevokeDevice_def Let_def d r r0 devicesOK_filter [OF d])
qed

lemma authInv_applyAuth:
  assumes inv: "authInv s" and fresh: "freshOp env op s"
  shows "authInv (applyAuth env op s)"
proof (cases op)
  case (OpRegister salt raw now email password name)
  with authInv_Register [OF inv] show ?thesis by simp
next
  case (OpIssue random now u d)
  have "refreshOK (snd (IssueSession env random now u d s))"
  proof (rule refreshOK_IssueSession)
    show "refreshOK s" using inv by (simp add: authInv_def)
    show "map_of (asRotated s) (hashToken env (EncodeToString urlAlphabet raw)) = None" if "random = Some raw" for raw
      using fresh that OpIssue by (simp add: freshOp_def)
  qed
  with OpIssue inv show ?thesis by (simp add: authInv_def)
next
  case (OpRotate random now token)
  with authInv_Rotate [OF inv] fresh show ?thesis by simp
next
  case (OpLogout token)
  with inv refreshOK_spend [where s = s and h = "hashToken env token" and x = "asRotatedOwner s"] show ?thesis
    by (simp add: authInv_def RevokeRefreshToken_def Let_def)
next
  case (OpRegisterDevice now u d name platform)
  have "asRefresh (snd (RegisterDevice now u d name platform s)) = asRefresh s"
    "asRotated (snd (RegisterDevice now u d name platform s)) = asRotated s"
    by (simp_all add: RegisterDevice_def Let_def split: option.splits)
  with OpRegisterDevice inv devicesOK_RegisterDevice [of s] show ?thesis
    by (simp add: authInv_def refreshOK_def)
next
  case (OpRevokeDevice u d)
  with authInv_RevokeDevice [OF inv] show ?thesis by simp
qed

lemma authInv_runAuth [go_invariants]: "authInv s \<Longrightarrow> freshRun env ops s \<Longrightarrow> authInv (runAuth env ops s)"
  by (induction ops arbitrary: s) (simp_all add: authInv_applyAuth)

lemma authInv_New [simp]: "authInv NewAuthStore"
  by (simp add: authInv_def NewAuthStore_def refreshOK_def devicesOK_def get_or_def)

text \<open>
  C29: In every reachable store a user has at most 32 devices, with distinct non-blank ids,
  and no live refresh token is one that was already exchanged, logged out or revoked.
\<close>

theorem auth_store_invariant:
  assumes "freshRun env ops NewAuthStore"
  shows "(let s = runAuth env ops NewAuthStore in
    (\<forall>u. let list = get_or [] (asDevices s) u in length list \<le> 32 \<and> distinct (map adID list) \<and>
       (\<forall>d \<in> set list. trim_space (adID d) \<noteq> '''')) \<and>
    (\<forall>h. map_of (asRefresh s) h \<noteq> None \<longrightarrow> map_of (asRotated s) h = None))"
proof -
  have inv: "authInv (runAuth env ops NewAuthStore)" by (rule authInv_runAuth [OF authInv_New assms])
  then have "\<forall>u. devicesOK (get_or [] (asDevices (runAuth env ops NewAuthStore)) u)"
    and "refreshOK (runAuth env ops NewAuthStore)" by (simp_all add: authInv_def)
  then have "\<forall>h. map_of (asRefresh (runAuth env ops NewAuthStore)) h \<noteq> None \<longrightarrow>
      map_of (asRotated (runAuth env ops NewAuthStore)) h = None" by (auto simp: refreshOK_def)
  with \<open>\<forall>u. devicesOK _\<close> show ?thesis by (simp add: Let_def devicesOK_def maxDevicesPerUser_def)
qed

theorem auth_store_invariant_witness:
  "map_of (asRotated (runAuth exEnv [OpIssue (Some ''aaa'') 1 exUser ''phone'', OpRegisterDevice 1 ''usr_1'' ''phone'' ''Pixel'' ''android'']
       NewAuthStore)) (hashToken exEnv (EncodeToString urlAlphabet ''aaa'')) = None"
proof -
  have "freshRun exEnv [OpIssue (Some ''aaa'') 1 exUser ''phone'', OpRegisterDevice 1 ''usr_1'' ''phone'' ''Pixel'' ''android''] NewAuthStore"
    by code_simp
  moreover have "map_of (asRefresh (runAuth exEnv [OpIssue (Some ''aaa'') 1 exUser ''phone'',
      OpRegisterDevice 1 ''usr_1'' ''phone'' ''Pixel'' ''android''] NewAuthStore)) (hashToken exEnv (EncodeToString urlAlphabet ''aaa'')) \<noteq> None"
    by code_simp
  ultimately show ?thesis using auth_store_invariant by (simp only: Let_def) blast
qed

text \<open>
  Signing in with the id of a registered device erases the name and platform the device
  was registered with: the password grant passes neither on.
\<close>

theorem auth_login_blanks_device:
  assumes "Authenticate env email password s = Inr u"
    and "IssueToken (aeMac env) (aeMarshal env) (aeTokens env) now (usID u) = Inr access"
    and "d \<in> set (get_or [] (asDevices s) (usID u))" and "trim_space (adID d) \<noteq> ''''"
  shows "\<exists>ses s'. loginHandler env (Some raw) now (Inr (email, password, adID d)) s = (WriteJSON StatusOK ses, s') \<and>
    (\<exists>d' \<in> set (get_or [] (asDevices s') (usID u)). adID d' = adID d \<and> adName d' = '''' \<and> adPlatform d' = '''')"
proof -
  let ?f = "\<lambda>d. d\<lparr>adName := trim_space '''', adPlatform := trim_space '''', adLastSeenAt := now\<rparr>"
  have "\<exists>list. updateDevice i ?f ds = Some list \<and>
      (\<exists>d' \<in> set list. adID d' = i \<and> adName d' = trim_space '''' \<and> adPlatform d' = trim_space '''')"
    if "i \<in> adID ` set ds" for i ds
    using that
  proof (induction ds)
    case (Cons a ds)
    show ?case
    proof (cases "adID a = i")
      case False
      with Cons.prems have "i \<in> adID ` set ds" by auto
      from Cons.IH [OF this] False show ?thesis by auto
    qed simp
  qed simp
  moreover have "adID d \<in> adID ` set (get_or [] (asDevices s) (usID u))" using assms(3) by simp
  ultimately obtain list where up: "updateDevice (adID d) ?f (get_or [] (asDevices s) (usID u)) = Some list"
    and ex: "\<exists>d' \<in> set list. adID d' = adID d \<and> adName d' = trim_space '''' \<and> adPlatform d' = trim_space ''''"
    by blast
  have blank: "trim_space '''' = ''''" by code_simp
  have "adID d \<noteq> ''''" using assms(4) blank by auto
  with assms up ex show ?thesis
    by (simp add: loginHandler_def sessionWithDevice_def IssueSession_def newTokenMaterial_def RegisterDevice_def blank)
qed

definition exAccount :: auth_store where
  "exAccount = snd (RegisterDevice 1 (newID ''usr'' ''r'') ''phone'' ''Pixel'' ''android''
     (snd (Register exEnv (Some ''0123456789abcdef'') ''r'' 1 ''a@b'' ''correct horse'' '''' NewAuthStore)))"

theorem auth_login_blanks_device_witness:
  "\<exists>ses s'. loginHandler exEnv (Some ''bbb'') 2 (Inr (''a@b'', ''correct horse'', ''phone'')) exAccount =
       (WriteJSON StatusOK ses, s') \<and>
     (\<exists>d' \<in> set (get_or [] (asDevices s') (newID ''usr'' ''r'')). adID d' = ''phone'' \<and> adName d' = '''' \<and> adPlatform d' = '''')"
proof -
  let ?hash = "formatHash toyHash ''correct horse'' ''0123456789abcdef''"
  let ?u = "\<lparr>usID = newID ''usr'' ''r'', usEmail = ''a@b'', usDisplayName = '''', usPasswordHash = ?hash,
      usCreatedAt = 1, usEmailVerified = False\<rparr>"
  let ?d = "\<lparr>adID = ''phone'', adName = ''Pixel'', adPlatform = ''android'', adCreatedAt = 1, adLastSeenAt = 1\<rparr>"
  have trims: "trim_space ''a@b'' = ''a@b''" "trim_space '''' = ''''" "trim_space ''phone'' = ''phone''"
    "trim_space ''Pixel'' = ''Pixel''" "trim_space ''android'' = ''android''" by code_simp+
  have reg: "Register exEnv (Some ''0123456789abcdef'') ''r'' 1 ''a@b'' ''correct horse'' '''' NewAuthStore =
      (Inr ?u, NewAuthStore\<lparr>asUsersByEmail := [(''a@b'', ?u)], asUsersByID := [(usID ?u, ?u)]\<rparr>)"
    by (simp add: Register_def normalizeEmail_def exEnv_def trims HashPassword_def NewAuthStore_def Let_def)
  have acc: "asUsersByEmail exAccount = [(''a@b'', ?u)]"
    "get_or [] (asDevices exAccount) (newID ''usr'' ''r'') = [?d]"
    unfolding exAccount_def reg snd_conv
    by (simp_all add: RegisterDevice_def trims NewAuthStore_def get_or_def maxDevicesPerUser_def Let_def)
  have "VerifyPassword toyHash ''correct horse'' ?hash" by (simp add: VerifyPassword_formatHash)
  then have auth: "Authenticate exEnv ''a@b'' ''correct horse'' exAccount = Inr ?u"
    by (simp add: Authenticate_def normalizeEmail_def exEnv_def trims acc)
  obtain access where issue: "IssueToken (aeMac exEnv) (aeMarshal exEnv) (aeTokens exEnv) 2 (usID ?u) = Inr access"
    by (simp add: IssueToken_def IssueWithTTL_def exEnv_def Let_def)
  have d: "?d \<in> set (get_or [] (asDevices exAccount) (usID ?u))" by (simp add: acc)
  have "trim_space (adID ?d) \<noteq> ''''" by (simp add: trims)
  from auth_login_blanks_device [OF auth issue d this, of "''bbb''"] show ?thesis by simp
qed

end
