(* ===== verification/Continuity.thy ===== *)
theory Continuity
  imports Prelude
begin

text \<open>
  Playback hand-off snapshots (\<open>backend/cloud/continuity.go\<close>): the state, its normalisation,
  the queue window, freshness, the resume position with the wrap-around of 64-bit durations,
  and the rune-safe truncation on a model of \<open>unicode/utf8\<close>. Millisecond fields are 64-bit
  integers, kept as \<^typ>\<open>int\<close>; the products that can overflow go through \<open>wrap64\<close>.
\<close>

section \<open>UTF-8\<close>

definition byte :: "char \<Rightarrow> nat" where
  "byte c = of_char c"

definition cont_byte :: "char \<Rightarrow> bool" where
  "cont_byte c \<longleftrightarrow> 128 \<le> byte c \<and> byte c < 192"

text \<open>\<open>utf8.RuneStart\<close>.\<close>

definition rune_start :: "char \<Rightarrow> bool" where
  "rune_start c \<longleftrightarrow> \<not> cont_byte c"

text \<open>
  The bytes the first byte calls for, and the range of the second byte, as in the tables of
  \<open>unicode/utf8\<close>; 0 for a byte that starts no rune.
\<close>

definition rune_len :: "char \<Rightarrow> nat" where
  "rune_len c = (let b = byte c in
     if b < 128 then 1 else if b < 194 then 0 else if b < 224 then 2 else if b < 240 then 3
     else if b < 245 then 4 else 0)"

definition second_ok :: "char \<Rightarrow> char \<Rightarrow> bool" where
  "second_ok c d = (let b = byte c; e = byte d in
     (if b = 224 then 160 else if b = 240 then 144 else 128) \<le> e \<and>
     e \<le> (if b = 237 then 159 else if b = 244 then 143 else 191))"

text \<open>\<open>utf8.DecodeRuneInString\<close>: the size of the rune at the front, \<open>None\<close> for an error.\<close>

definition rune_size :: "string \<Rightarrow> nat option" where
  "rune_size s =
     (case s of
        [] \<Rightarrow> None
      | c # rest \<Rightarrow>
          let n = rune_len c
          in if n = 1 then Some 1
             else if n = 0 \<or> length s < n then None
             else if second_ok c (rest ! 0) \<and> list_all cont_byte (take (n - 1) rest) then Some n
             else None)"

text \<open>
  \<open>utf8.DecodeLastRuneInString\<close>: the size of the last rune, \<open>None\<close> for \<open>RuneError\<close> with
  size at most 1. The search for the start goes back to the fourth byte from the end.
\<close>

definition last_rune_size :: "string \<Rightarrow> nat option" where
  "last_rune_size s =
     (if s = '''' then None
      else if byte (last s) < 128 then Some 1
      else case find (\<lambda>k. k \<le> length s \<and> rune_start (s ! (length s - k))) [2, 3, 4] of
             None \<Rightarrow> None
           | Some k \<Rightarrow> if rune_size (drop (length s - k) s) = Some k then Some k else None)"

function truncLoop :: "string \<Rightarrow> string" where
  "truncLoop s = (if s \<noteq> '''' \<and> last_rune_size s = None then truncLoop (butlast s) else s)"
  by pat_completeness auto
termination
  by (relation "measure length") auto

declare truncLoop.simps [simp del]

definition truncateRunes :: "string \<Rightarrow> nat \<Rightarrow> string" where
  "truncateRunes value limit = (if length value \<le> limit then value else truncLoop (take limit value))"

section \<open>Snapshots\<close>

record continuity =
  ctUserID :: string
  ctDeviceID :: string
  ctTrackID :: string
  ctTitle :: string
  ctArtist :: string
  ctArtworkURL :: string
  ctPositionMs :: int
  ctDurationMs :: int
  ctPlaying :: bool
  ctQueue :: "string list"
  ctQueueIndex :: int
  ctUpdatedAt :: time

definition MaxContinuityQueue :: int where
  "MaxContinuityQueue = 500"

text \<open>\<open>clampQueue\<close> returns the queue and the index it leaves behind the pointer.\<close>

definition clampQueue :: "string list \<Rightarrow> int \<Rightarrow> string list \<times> int" where
  "clampQueue queue index =
     (let index1 = (if index < 0 then 0 else index)
      in if queue = [] then ([], 0)
         else
           let index2 = (if int (length queue) \<le> index1 then int (length queue) - 1 else index1)
           in if int (length queue) \<le> MaxContinuityQueue then (queue, index2)
              else
                let start0 = index2 - MaxContinuityQueue div 4;
                    start1 = (if start0 < 0 then 0 else start0);
                    start2 = (if start1 + MaxContinuityQueue > int (length queue)
                              then int (length queue) - MaxContinuityQueue else start1)
                in (take (nat MaxContinuityQueue) (drop (nat start2) queue), index2 - start2))"

definition Normalize :: "time \<Rightarrow> continuity \<Rightarrow> continuity" where
  "Normalize now c =
     (let position0 = (if ctPositionMs c < 0 then 0 else ctPositionMs c);
          duration = (if ctDurationMs c < 0 then 0 else ctDurationMs c);
          position = (if duration > 0 \<and> position0 > duration then duration else position0);
          (queue, index) = clampQueue (ctQueue c) (ctQueueIndex c)
      in c\<lparr>ctDeviceID := trim_space (ctDeviceID c), ctTrackID := trim_space (ctTrackID c),
           ctTitle := truncateRunes (trim_space (ctTitle c)) 512,
           ctArtist := truncateRunes (trim_space (ctArtist c)) 512,
           ctArtworkURL := truncateRunes (trim_space (ctArtworkURL c)) 2048,
           ctPositionMs := position, ctDurationMs := duration,
           ctQueue := queue, ctQueueIndex := index,
           ctUpdatedAt := (if ctUpdatedAt c = zero_time then now else ctUpdatedAt c)\<rparr>)"

definition Fresher :: "continuity \<Rightarrow> continuity \<Rightarrow> bool" where
  "Fresher c other \<longleftrightarrow> ctUpdatedAt c > ctUpdatedAt other"

text \<open>\<open>Time.Sub\<close> saturates at the ends of a 64-bit duration.\<close>

definition time_sub :: "time \<Rightarrow> time \<Rightarrow> int" where
  "time_sub a b = max (- (2 ^ 63)) (min (2 ^ 63 - 1) (a - b))"

definition nanos_per_milli :: int where
  "nanos_per_milli = 1000000"

definition ResumePosition :: "continuity \<Rightarrow> time \<Rightarrow> int" where
  "ResumePosition c now =
     (let position0 = wrap64 (ctPositionMs c * nanos_per_milli);
          position1 = (if ctPlaying c \<and> ctUpdatedAt c \<noteq> zero_time \<and> time_sub now (ctUpdatedAt c) > 0
                       then wrap64 (position0 + time_sub now (ctUpdatedAt c)) else position0);
          position2 = (if position1 < 0 then 0 else position1);
          most = wrap64 (ctDurationMs c * nanos_per_milli)
      in if ctDurationMs c > 0 \<and> position2 > most then most else position2)"

section \<open>Lemmas on UTF-8\<close>

text \<open>A whole rune, and valid UTF-8 as a sequence of whole runes.\<close>

definition whole_rune :: "string \<Rightarrow> bool" where
  "whole_rune r \<longleftrightarrow> rune_size r = Some (length r)"

inductive valid_utf8 :: "string \<Rightarrow> bool" where
  valid_Nil: "valid_utf8 []"
| valid_rune: "whole_rune r \<Longrightarrow> valid_utf8 s \<Longrightarrow> valid_utf8 (r @ s)"

lemma rune_size_Cons:
  "rune_size (c # rest) =
     (if rune_len c = 1 then Some 1
      else if rune_len c = 0 \<or> length rest + 1 < rune_len c then None
      else if second_ok c (rest ! 0) \<and> list_all cont_byte (take (rune_len c - 1) rest) then Some (rune_len c)
      else None)"
  by (simp add: rune_size_def Let_def)

lemma rune_len_le: "rune_len c \<le> 4"
  by (simp add: rune_len_def Let_def)

lemma cont_rune_len: "cont_byte c \<Longrightarrow> rune_len c = 0"
  by (simp add: rune_len_def cont_byte_def Let_def)

lemma rune_len_start: "rune_len c \<noteq> 0 \<Longrightarrow> rune_start c"
  using cont_rune_len by (auto simp: rune_start_def)

lemma whole_runeE:
  assumes "whole_rune r"
  obtains c rest where "r = c # rest" "rune_len c = length r" "list_all cont_byte rest"
    "length r \<noteq> 1 \<Longrightarrow> second_ok c (rest ! 0)"
proof (cases r)
  case Nil
  with assms show ?thesis by (simp add: whole_rune_def rune_size_def)
next
  case (Cons c rest)
  with assms have s: "rune_size (c # rest) = Some (length r)" by (simp add: whole_rune_def)
  show ?thesis
  proof (rule that [OF Cons])
    show "rune_len c = length r" using s by (auto simp: rune_size_Cons split: if_splits)
    show "list_all cont_byte rest" using s Cons by (auto simp: rune_size_Cons split: if_splits)
    show "length r \<noteq> 1 \<Longrightarrow> second_ok c (rest ! 0)" using s Cons by (auto simp: rune_size_Cons split: if_splits)
  qed
qed

lemma whole_rune_length: "whole_rune r \<Longrightarrow> 1 \<le> length r \<and> length r \<le> 4"
  using rune_len_le by (metis One_nat_def Suc_leI length_greater_0_conv list.distinct(1) whole_runeE)

text \<open>The end of a string that is a lead byte and the continuation bytes read so far.\<close>

lemma find_start:
  assumes "list_all cont_byte q" and "rune_start c" and "1 \<le> length q" and "length q \<le> 3"
  shows "find (\<lambda>k. k \<le> length (s @ c # q) \<and> rune_start ((s @ c # q) ! (length (s @ c # q) - k))) [2, 3, 4] =
    Some (Suc (length q))"
proof -
  have "length q = 1 \<or> length q = 2 \<or> length q = 3" using assms(3,4) by linarith
  then consider a where "q = [a]" | a b where "q = [a, b]" | a b d where "q = [a, b, d]"
    by (auto simp: length_Suc_conv numeral_eq_Suc)
  then show ?thesis
  proof cases
    case 1
    with assms show ?thesis by (simp add: nth_append)
  next
    case 2
    with assms show ?thesis by (simp add: nth_append rune_start_def)
  next
    case 3
    with assms show ?thesis by (simp add: nth_append rune_start_def)
  qed
qed

lemma rune_size_last_cont:
  assumes "rune_size (x @ [c]) = Some (Suc (length x))" and "x \<noteq> []"
  shows "cont_byte c"
proof -
  obtain a y where x: "x = a # y" using assms(2) by (cases x) auto
  from assms(1) have "rune_len a = Suc (length x)" and "list_all cont_byte (take (rune_len a - 1) (y @ [c]))"
    using x by (auto simp: rune_size_Cons split: if_splits)
  then show ?thesis by (simp add: x)
qed

lemma last_rune_size_partial:
  assumes "list_all cont_byte q" and "length q + 1 < rune_len c"
  shows "last_rune_size (s @ c # q) = None"
proof -
  have c: "rune_start c" using assms(2) by (intro rune_len_start) simp
  have big: "128 \<le> byte c" using assms(2) by (auto simp: rune_len_def Let_def split: if_splits)
  show ?thesis
  proof (cases "q = []")
    case True
    have "rune_size (drop (length (s @ [c]) - k) (s @ [c])) \<noteq> Some k"
      if k: "2 \<le> k" "k \<le> length (s @ [c])" for k
    proof
      assume a: "rune_size (drop (length (s @ [c]) - k) (s @ [c])) = Some k"
      have d: "drop (length (s @ [c]) - k) (s @ [c]) = drop (Suc (length s) - k) s @ [c]"
        using k by simp
      have "rune_size (drop (Suc (length s) - k) s @ [c]) = Some (Suc (length (drop (Suc (length s) - k) s)))"
        using a k unfolding d by simp
      from rune_size_last_cont [OF this] k c show False by (simp add: rune_start_def)
    qed
    then show ?thesis using True big
      by (simp add: last_rune_size_def del: length_append drop_append split: option.splits)
  next
    case False
    have len: "1 \<le> length q" "length q \<le> 3" using False assms(2) rune_len_le [of c] by (simp_all add: Suc_leI)
    have "128 \<le> byte (last (s @ c # q))"
      using False assms(1) by (simp add: list_all_iff cont_byte_def)
    moreover have "rune_size (c # q) = None" using assms(2) by (simp add: rune_size_Cons)
    ultimately show ?thesis
      using find_start [OF assms(1) c len, of s] by (simp add: last_rune_size_def)
  qed
qed

lemma last_rune_size_whole:
  assumes "whole_rune r"
  shows "last_rune_size (s @ r) \<noteq> None"
  using assms
proof (rule whole_runeE)
  fix c q
  assume r: "r = c # q" and n: "rune_len c = length r" and q: "list_all cont_byte q"
  show ?thesis
  proof (cases "q = []")
    case True
    with n r have "byte c < 128" by (auto simp: rune_len_def Let_def split: if_splits)
    with True r show ?thesis by (simp add: last_rune_size_def)
  next
    case False
    have "length q \<le> 3" using n r rune_len_le [of c] by simp
    moreover have "1 \<le> length q" using False by (simp add: Suc_leI)
    moreover have "rune_start c" using n r by (intro rune_len_start) simp
    ultimately have f: "find (\<lambda>k. k \<le> length (s @ c # q) \<and> rune_start ((s @ c # q) ! (length (s @ c # q) - k))) [2, 3, 4] =
        Some (Suc (length q))" by (intro find_start [OF q])
    have "rune_size (c # q) = Some (Suc (length q))" using assms r by (simp add: whole_rune_def)
    with f r show ?thesis by (simp add: last_rune_size_def)
  qed
qed

lemma valid_utf8_last:
  "valid_utf8 s \<Longrightarrow> s \<noteq> [] \<Longrightarrow> \<exists>s' r. s = s' @ r \<and> whole_rune r"
proof (induction rule: valid_utf8.induct)
  case (valid_rune r s)
  show ?case
  proof (cases "s = []")
    case True
    with valid_rune.hyps(1) show ?thesis by (intro exI [of _ "[]"] exI [of _ r]) simp
  next
    case False
    with valid_rune.IH obtain s' r' where "s = s' @ r'" "whole_rune r'" by blast
    then show ?thesis by (intro exI [of _ "r @ s'"] exI [of _ r']) simp
  qed
qed simp

lemma truncLoop_valid: "valid_utf8 s \<Longrightarrow> truncLoop s = s"
proof (cases "s = []")
  case False
  assume "valid_utf8 s"
  from valid_utf8_last [OF this False] obtain s' r where "s = s' @ r" "whole_rune r" by blast
  then have "last_rune_size s \<noteq> None" using last_rune_size_whole by blast
  then show ?thesis by (subst truncLoop.simps) auto
qed (simp add: truncLoop.simps)

lemma truncLoop_partial:
  "list_all cont_byte q \<Longrightarrow> length q + 1 < rune_len c \<Longrightarrow> truncLoop (s @ c # q) = truncLoop s"
proof (induction q rule: rev_induct)
  case Nil
  then show ?case using last_rune_size_partial [of "[]" c s]
    by (simp add: truncLoop.simps [of "s @ [c]"] butlast_append)
next
  case (snoc a q)
  have "last_rune_size (s @ c # q @ [a]) = None" using last_rune_size_partial [of "q @ [a]" c s] snoc.prems by simp
  moreover have "butlast (s @ c # q @ [a]) = s @ c # q" by (simp add: butlast_append)
  ultimately have "truncLoop (s @ c # q @ [a]) = truncLoop (s @ c # q)" by (subst truncLoop.simps) simp
  with snoc show ?case by simp
qed

lemma valid_utf8_append: "valid_utf8 a \<Longrightarrow> valid_utf8 b \<Longrightarrow> valid_utf8 (a @ b)"
  by (induction rule: valid_utf8.induct) (simp_all add: valid_utf8.intros)

text \<open>A prefix of valid UTF-8 is valid UTF-8 and the beginning of one more rune.\<close>

lemma take_valid:
  "valid_utf8 s \<Longrightarrow> \<exists>t p. take n s = t @ p \<and> valid_utf8 t \<and>
     (p = [] \<or> (\<exists>c q. p = c # q \<and> list_all cont_byte q \<and> length q + 1 < rune_len c))"
proof (induction arbitrary: n rule: valid_utf8.induct)
  case valid_Nil
  show ?case by (auto intro: valid_utf8.intros)
next
  case (valid_rune r s)
  show ?case
  proof (cases "length r \<le> n")
    case True
    obtain t p where tp: "take (n - length r) s = t @ p" "valid_utf8 t"
      "p = [] \<or> (\<exists>c q. p = c # q \<and> list_all cont_byte q \<and> length q + 1 < rune_len c)"
      using valid_rune.IH by blast
    moreover have "take n (r @ s) = (r @ t) @ p" using True tp(1) by simp
    moreover have "valid_utf8 (r @ t)" by (rule valid_utf8.valid_rune [OF valid_rune.hyps(1) tp(2)])
    ultimately show ?thesis by blast
  next
    case False
    then have tk: "take n (r @ s) = take n r" by simp
    from valid_rune.hyps(1) obtain c rest where r: "r = c # rest" "rune_len c = length r" "list_all cont_byte rest"
      by (rule whole_runeE)
    show ?thesis
    proof (cases n)
      case 0
      then show ?thesis by (auto intro: valid_utf8.intros)
    next
      case (Suc m)
      have "take n r = [] @ c # take m rest" by (simp add: r Suc)
      moreover have "list_all cont_byte (take m rest)" using r(3) by (auto simp: list_all_iff dest: in_set_takeD)
      moreover have "length (take m rest) + 1 < rune_len c" using False r Suc by simp
      ultimately show ?thesis unfolding tk using valid_Nil by blast
    qed
  qed
qed

section \<open>Properties\<close>

text \<open>
  Cutting a valid UTF-8 string to a byte limit yields a valid UTF-8 prefix of it that
  is at most three bytes shorter than the limit: no rune is split and none is lost needlessly.
\<close>

theorem continuity_truncate_utf8:
  assumes "valid_utf8 value"
  shows "valid_utf8 (truncateRunes value limit) \<and> (\<exists>rest. value = truncateRunes value limit @ rest) \<and>
    length (truncateRunes value limit) \<le> limit \<and>
    (length value \<le> limit \<and> truncateRunes value limit = value \<or> limit \<le> length (truncateRunes value limit) + 3)"
proof (cases "length value \<le> limit")
  case True
  with assms show ?thesis by (simp add: truncateRunes_def)
next
  case False
  from take_valid [OF assms, of limit] obtain t p where tp: "take limit value = t @ p" "valid_utf8 t"
    and p: "p = [] \<or> (\<exists>c q. p = c # q \<and> list_all cont_byte q \<and> length q + 1 < rune_len c)" by blast
  have cut: "truncLoop (t @ p) = t"
    using p truncLoop_valid [OF tp(2)] truncLoop_partial by fastforce
  have "length q + 1 < rune_len c \<Longrightarrow> length q \<le> 2" for c :: char and q :: string
    using rune_len_le [of c] by linarith
  with p have short: "length p \<le> 3" by fastforce
  have len: "length t + length p = limit" using tp(1) False
    by (metis length_append length_take min.absorb2 nat_le_linear)
  have "value = t @ (p @ drop limit value)" using tp(1) by (metis append.assoc append_take_drop_id)
  moreover have "truncateRunes value limit = t" using False tp(1) cut by (simp add: truncateRunes_def)
  ultimately show ?thesis using tp(2) short len by (auto simp del: append.assoc)
qed

theorem continuity_truncate_utf8_witness:
  "truncateRunes [CHR ''a'', CHR 0xC3, CHR 0xA9, CHR 0xE2, CHR 0x82, CHR 0xAC] 5 = [CHR ''a'', CHR 0xC3, CHR 0xA9] \<and>
   valid_utf8 (truncateRunes [CHR ''a'', CHR 0xC3, CHR 0xA9, CHR 0xE2, CHR 0x82, CHR 0xAC] 5)"
proof -
  have "whole_rune [CHR ''a'']" "whole_rune [CHR 0xC3, CHR 0xA9]" "whole_rune [CHR 0xE2, CHR 0x82, CHR 0xAC]"
    unfolding whole_rune_def by code_simp+
  then have "valid_utf8 ([CHR ''a''] @ [CHR 0xC3, CHR 0xA9] @ [CHR 0xE2, CHR 0x82, CHR 0xAC] @ [])"
    by (intro valid_utf8.intros)
  then have "valid_utf8 [CHR ''a'', CHR 0xC3, CHR 0xA9, CHR 0xE2, CHR 0x82, CHR 0xAC]" by simp
  from continuity_truncate_utf8 [OF this, of 5]
  have "valid_utf8 (truncateRunes [CHR ''a'', CHR 0xC3, CHR 0xA9, CHR 0xE2, CHR 0x82, CHR 0xAC] 5)" by blast
  moreover have "truncateRunes [CHR ''a'', CHR 0xC3, CHR 0xA9, CHR 0xE2, CHR 0x82, CHR 0xAC] 5 = [CHR ''a'', CHR 0xC3, CHR 0xA9]"
    by code_simp
  ultimately show ?thesis by blast
qed

lemma clampQueue_window:
  assumes "queue \<noteq> []" and "clampQueue queue index = (queue', index')"
  shows "length queue' \<le> 500 \<and> 0 \<le> index' \<and> index' < int (length queue') \<and>
    queue' ! nat index' = queue ! nat (min (max index 0) (int (length queue) - 1)) \<and>
    (\<exists>pre post. queue = pre @ queue' @ post)"
proof -
  let ?n = "int (length queue)"
  let ?i = "min (max index 0) (?n - 1)"
  have n: "0 < ?n" using assms(1) by simp
  have i2: "(let index1 = (if index < 0 then 0 else index) in if ?n \<le> index1 then ?n - 1 else index1) = ?i"
    using n by (simp add: Let_def)
  have i: "0 \<le> ?i" "?i < ?n" using n by auto
  show ?thesis
  proof (cases "?n \<le> 500")
    case True
    then have "queue' = queue" using assms by (simp add: clampQueue_def MaxContinuityQueue_def Let_def)
    moreover have "index' = (let index1 = (if index < 0 then 0 else index) in if ?n \<le> index1 then ?n - 1 else index1)"
      using assms True by (auto simp: clampQueue_def MaxContinuityQueue_def Let_def)
    ultimately have "queue' = queue" "index' = ?i" unfolding i2 by simp_all
    with i True show ?thesis by (auto intro: exI [of _ "[]"])
  next
    case False
    define start where "start = (let s1 = (if ?i - 125 < 0 then 0 else ?i - 125) in if s1 + 500 > ?n then ?n - 500 else s1)"
    have c: "queue' = take 500 (drop (nat start) queue)" "index' = ?i - start"
      using assms i2 False by (auto simp: clampQueue_def MaxContinuityQueue_def start_def Let_def)
    have s: "0 \<le> start" "start + 500 \<le> ?n" "start \<le> ?i" "?i < start + 500"
      using False i by (auto simp: start_def Let_def)
    have len: "length queue' = 500" using s c by simp
    have "queue' ! nat index' = queue ! (nat start + nat (?i - start))" using s c by simp
    also have "nat start + nat (?i - start) = nat ?i"
      by (subst nat_add_distrib [symmetric]) (simp_all only: s diff_ge_0_iff_ge add.commute diff_add_cancel)
    finally have "queue' ! nat index' = queue ! nat ?i" .
    moreover have "queue = take (nat start) queue @ queue' @ drop 500 (drop (nat start) queue)"
      using c by (metis append_take_drop_id)
    ultimately show ?thesis using len s c by auto
  qed
qed

lemma Normalize_fields:
  "ctTitle (Normalize now c) = truncateRunes (trim_space (ctTitle c)) 512"
  "ctArtist (Normalize now c) = truncateRunes (trim_space (ctArtist c)) 512"
  "ctArtworkURL (Normalize now c) = truncateRunes (trim_space (ctArtworkURL c)) 2048"
  "ctDurationMs (Normalize now c) = max 0 (ctDurationMs c)"
  "ctPositionMs (Normalize now c) =
     (if ctDurationMs c > 0 then min (max 0 (ctPositionMs c)) (ctDurationMs c) else max 0 (ctPositionMs c))"
  "ctQueue (Normalize now c) = fst (clampQueue (ctQueue c) (ctQueueIndex c))"
  "ctQueueIndex (Normalize now c) = snd (clampQueue (ctQueue c) (ctQueueIndex c))"
  by (simp_all add: Normalize_def Let_def split: prod.splits)

text \<open>
  C34: A normalised snapshot is bounded: a queue of at most 500 entries that is a window of
  the given one and whose index points at the same entry (the nearest one when the given
  index was out of range), a position inside the track, and text fields within their limits.
\<close>

theorem continuity_normalize_bounds:
  "(let c' = Normalize now c in
     length (ctTitle c') \<le> 512 \<and> length (ctArtist c') \<le> 512 \<and> length (ctArtworkURL c') \<le> 2048 \<and>
     0 \<le> ctPositionMs c' \<and> 0 \<le> ctDurationMs c' \<and>
     (ctDurationMs c' = 0 \<or> ctPositionMs c' \<le> ctDurationMs c') \<and>
     length (ctQueue c') \<le> 500 \<and> (\<exists>pre post. ctQueue c = pre @ ctQueue c' @ post) \<and>
     (if ctQueue c = [] then ctQueue c' = [] \<and> ctQueueIndex c' = 0
      else 0 \<le> ctQueueIndex c' \<and> ctQueueIndex c' < int (length (ctQueue c')) \<and>
        ctQueue c' ! nat (ctQueueIndex c') =
          ctQueue c ! nat (min (max (ctQueueIndex c) 0) (int (length (ctQueue c)) - 1))))"
proof -
  obtain queue' index' where cq: "clampQueue (ctQueue c) (ctQueueIndex c) = (queue', index')" by fastforce
  have trunc: "length (truncateRunes v n) \<le> n" for v n
  proof (cases "length v \<le> n")
    case False
    have "length (truncLoop s) \<le> length s" for s
      by (induction s rule: truncLoop.induct) (subst truncLoop.simps, auto)
    from this [of "take n v"] False show ?thesis by (simp add: truncateRunes_def)
  qed (simp add: truncateRunes_def)
  have empty: "ctQueue c = [] \<Longrightarrow> queue' = [] \<and> index' = 0" using cq by (simp add: clampQueue_def)
  have window: "ctQueue c \<noteq> [] \<Longrightarrow> length queue' \<le> 500 \<and> 0 \<le> index' \<and> index' < int (length queue') \<and>
    queue' ! nat index' = ctQueue c ! nat (min (max (ctQueueIndex c) 0) (int (length (ctQueue c)) - 1)) \<and>
    (\<exists>pre post. ctQueue c = pre @ queue' @ post)"
    by (rule clampQueue_window [OF _ cq])
  show ?thesis
    unfolding Let_def Normalize_fields cq fst_conv snd_conv
    by (cases "ctQueue c = []") (simp_all add: trunc empty window)
qed

lemma time_sub_id: "- (2 ^ 63) \<le> a - b \<Longrightarrow> a - b < 2 ^ 63 \<Longrightarrow> time_sub a b = a - b"
  by (simp add: time_sub_def)

text \<open>
  While nothing overflows 64 bits, the resume position is the snapshot's position plus
  the time played since, clamped to the track when its duration is known.
\<close>

theorem continuity_resume_exact:
  assumes "0 \<le> ctPositionMs c" and "0 \<le> ctDurationMs c"
    and "ctPositionMs c * 1000000 + max 0 (now - ctUpdatedAt c) < 2 ^ 63"
    and "ctDurationMs c * 1000000 < 2 ^ 63" and "- (2 ^ 63) \<le> now - ctUpdatedAt c"
  shows "ResumePosition c now =
    (let played = (if ctPlaying c \<and> ctUpdatedAt c \<noteq> zero_time then max 0 (now - ctUpdatedAt c) else 0);
         position = ctPositionMs c * 1000000 + played
     in if ctDurationMs c > 0 then min position (ctDurationMs c * 1000000) else position)"
proof -
  have p: "ctPositionMs c * 1000000 < 2 ^ 63" "now - ctUpdatedAt c < 2 ^ 63" using assms(1,3) by simp_all
  have w: "wrap64 (ctPositionMs c * 1000000) = ctPositionMs c * 1000000"
    "wrap64 (ctDurationMs c * 1000000) = ctDurationMs c * 1000000"
    using assms p by (simp_all add: wrap64_id)
  have s: "time_sub now (ctUpdatedAt c) = now - ctUpdatedAt c" using assms(5) p by (simp add: time_sub_id)
  have "wrap64 (ctPositionMs c * 1000000 + (now - ctUpdatedAt c)) = ctPositionMs c * 1000000 + (now - ctUpdatedAt c)"
    if "0 < now - ctUpdatedAt c" using assms(1,3) that by (intro wrap64_id) simp_all
  with assms(1,2) show ?thesis by (auto simp: ResumePosition_def nanos_per_milli_def w s Let_def)
qed

definition exState :: "int \<Rightarrow> int \<Rightarrow> continuity" where
  "exState position duration = \<lparr>ctUserID = ''u'', ctDeviceID = ''phone'', ctTrackID = ''t'', ctTitle = ''T'',
     ctArtist = ''A'', ctArtworkURL = '''', ctPositionMs = position, ctDurationMs = duration, ctPlaying = True,
     ctQueue = [''t''], ctQueueIndex = 0, ctUpdatedAt = 1000000000\<rparr>"

theorem continuity_resume_exact_witness:
  "ResumePosition (exState 30000 200000) 6000000000 = 35000000000"
  using continuity_resume_exact [of "exState 30000 200000" 6000000000]
  by (simp add: exState_def zero_time_def Let_def)

text \<open>
  The clamp to the duration does not survive overflow: a normalised snapshot whose
  duration passes 2 to the 63 nanoseconds makes the resume position negative.
\<close>

theorem continuity_resume_overflow:
  "\<exists>c now. Normalize now c = c \<and> 0 < ctPositionMs c \<and> ctPositionMs c < ctDurationMs c \<and> ResumePosition c now < 0"
proof -
  let ?c = "exState 30000 9223372036855"
  have "Normalize 1000000000 ?c = ?c" by code_simp
  moreover have "ResumePosition ?c 1000000000 < 0" by code_simp
  ultimately show ?thesis by (intro exI [of _ ?c] exI [of _ 1000000000]) (simp add: exState_def)
qed

end
