(* ===== verification/WebSocket.thy ===== *)
theory WebSocket
  imports AuthToken
begin

text \<open>
  The WebSocket server (\<open>backend/cloud/websocket.go\<close>): the upgrade checks, the frame writer,
  the frame reader with its limits, and the message loop with reassembly, pings and close. The
  connection is the bytes that will arrive and the bytes written so far; an exhausted input is
  the read error \<open>WsEOF\<close>, and writing to an open connection succeeds. SHA-1 is an argument.
\<close>

section \<open>Constants and errors\<close>

definition opContinuation :: nat where "opContinuation = 0"
definition opText :: nat where "opText = 1"
definition opBinary :: nat where "opBinary = 2"
definition opClose :: nat where "opClose = 8"
definition opPing :: nat where "opPing = 9"
definition opPong :: nat where "opPong = 10"

lemmas opcodes = opContinuation_def opText_def opBinary_def opClose_def opPing_def opPong_def

definition MaxFrameBytes :: nat where
  "MaxFrameBytes = 1048576"

datatype ws_error =
    WsEOF | WsReservedBits | WsUnmasked | WsFrameTooLarge | WsInvalidControl | WsInterleaved
  | WsUnexpectedContinuation | WsMessageTooLarge | WsUnknownOpcode nat | ErrConnClosed
  | WsNotUpgrade | WsMissingConnection | WsUnsupportedVersion | WsMissingKey

section \<open>The handshake\<close>

text \<open>
  \<open>strings.EqualFold(header, token)\<close> for a token of lower-case ASCII letters: besides the two
  cases of a letter, the long s folds to \<open>s\<close> and the Kelvin sign to \<open>k\<close>.
\<close>

fun equalFold :: "string \<Rightarrow> string \<Rightarrow> bool" where
  "equalFold h [] = (h = [])"
| "equalFold h (t # ts) =
     (if starts_with [CHR 0xC5, CHR 0xBF] h \<and> t = CHR ''s'' then equalFold (drop 2 h) ts
      else if starts_with [CHR 0xE2, CHR 0x84, CHR 0xAA] h \<and> t = CHR ''k'' then equalFold (drop 3 h) ts
      else case h of [] \<Rightarrow> False | c # cs \<Rightarrow> ascii_lower c = t \<and> equalFold cs ts)"

definition headerContainsToken :: "string \<Rightarrow> string \<Rightarrow> bool" where
  "headerContainsToken header token =
     list_ex (\<lambda>part. equalFold (trim_space part) token) (split_on CHR '','' header)"

definition wsGUID :: string where
  "wsGUID = ''258EAFA5-E914-47DA-95CA-C5AB0DC85B11''"

text \<open>\<open>base64.StdEncoding\<close> pads to a multiple of four.\<close>

definition EncodePadded :: "string \<Rightarrow> string" where
  "EncodePadded s = EncodeToString stdAlphabet s @
     replicate (if length s mod 3 = 1 then 2 else if length s mod 3 = 2 then 1 else 0) CHR ''=''"

definition acceptKey :: "(string \<Rightarrow> string) \<Rightarrow> string \<Rightarrow> string" where
  "acceptKey sha1 key = EncodePadded (sha1 (key @ wsGUID))"

definition crlf :: string where
  "crlf = [CHR 0x0D, CHR 0x0A]"

text \<open>The header checks and the response that is written; hijacking is assumed to succeed.\<close>

definition Accept :: "(string \<Rightarrow> string) \<Rightarrow> string \<Rightarrow> string \<Rightarrow> string \<Rightarrow> string \<Rightarrow> ws_error + string" where
  "Accept sha1 upgrade connection version wsKey =
     (if \<not> equalFold upgrade ''websocket'' then Inl WsNotUpgrade
      else if \<not> headerContainsToken connection ''upgrade'' then Inl WsMissingConnection
      else if version \<noteq> ''13'' then Inl WsUnsupportedVersion
      else if trim_space wsKey = '''' then Inl WsMissingKey
      else Inr (''HTTP/1.1 101 Switching Protocols'' @ crlf @ ''Upgrade: websocket'' @ crlf @
                ''Connection: Upgrade'' @ crlf @ ''Sec-WebSocket-Accept: '' @
                acceptKey sha1 (trim_space wsKey) @ crlf @ crlf))"

section \<open>Writing\<close>

record ws_conn =
  wsDone :: bool
  wsOut :: string

fun be_bytes :: "nat \<Rightarrow> nat \<Rightarrow> string" where
  "be_bytes 0 v = []"
| "be_bytes (Suc n) v = be_bytes n (v div 256) @ [char_of (v mod 256)]"

fun be_value :: "string \<Rightarrow> nat" where
  "be_value s = foldl (\<lambda>v c. v * 256 + of_char c) 0 s"

definition frameBytes :: "nat \<Rightarrow> string \<Rightarrow> string" where
  "frameBytes opcode payload =
     (let sz = length payload;
          header = char_of (128 + opcode) #
            (if sz < 126 then [char_of sz]
             else if sz \<le> 65535 then char_of (126 :: nat) # be_bytes 2 sz
             else char_of (127 :: nat) # be_bytes 8 sz)
      in header @ payload)"

definition writeFrame :: "nat \<Rightarrow> string \<Rightarrow> ws_conn \<Rightarrow> ws_error option \<times> ws_conn" where
  "writeFrame opcode payload c =
     (if wsDone c then (Some ErrConnClosed, c)
      else (None, c\<lparr>wsOut := wsOut c @ frameBytes opcode payload\<rparr>))"

definition closePayload :: "nat \<Rightarrow> string \<Rightarrow> string" where
  "closePayload code reason = be_bytes 2 code @ reason"

text \<open>\<open>Close\<close> runs once: after it \<open>wsDone\<close> holds, and a second call changes nothing.\<close>

definition ConnClose :: "ws_conn \<Rightarrow> ws_conn" where
  "ConnClose c = (if wsDone c then c else (snd (writeFrame opClose (closePayload 1000 ''bye'') c))\<lparr>wsDone := True\<rparr>)"

definition WriteText :: "string \<Rightarrow> ws_conn \<Rightarrow> ws_error option \<times> ws_conn" where
  "WriteText payload = writeFrame opText payload"

definition WritePing :: "ws_conn \<Rightarrow> ws_error option \<times> ws_conn" where
  "WritePing = writeFrame opPing ''''"

section \<open>Reading\<close>

definition readFull :: "nat \<Rightarrow> string \<Rightarrow> (string \<times> string) option" where
  "readFull n input = (if length input < n then None else Some (take n input, drop n input))"

definition unmask :: "string \<Rightarrow> string \<Rightarrow> string" where
  "unmask key payload =
     map (\<lambda>i. char_of (Bit_Operations.xor (of_char (payload ! i) :: nat) (of_char (key ! (i mod 4)))))
       [0..<length payload]"

text \<open>The extended length; the result is the size and the remaining input.\<close>

definition readSize :: "nat \<Rightarrow> string \<Rightarrow> ws_error + (nat \<times> string)" where
  "readSize size7 input =
     (if size7 = 126 then
        (case readFull 2 input of None \<Rightarrow> Inl WsEOF | Some (ext, rest) \<Rightarrow> Inr (be_value ext, rest))
      else if size7 = 127 then
        (case readFull 8 input of
           None \<Rightarrow> Inl WsEOF
         | Some (ext, rest) \<Rightarrow>
             if be_value ext > MaxFrameBytes then Inl WsFrameTooLarge else Inr (be_value ext, rest))
      else Inr (size7, input))"

definition readBody :: "nat \<Rightarrow> bool \<Rightarrow> nat \<Rightarrow> string \<Rightarrow> ws_error + (nat \<times> string \<times> bool \<times> string)" where
  "readBody opcode fin sz input =
     (if sz > MaxFrameBytes then Inl WsFrameTooLarge
      else if opClose \<le> opcode \<and> (sz > 125 \<or> \<not> fin) then Inl WsInvalidControl
      else case readFull 4 input of
             None \<Rightarrow> Inl WsEOF
           | Some (key, rest) \<Rightarrow>
               (case readFull sz rest of
                  None \<Rightarrow> Inl WsEOF
                | Some (payload, rest') \<Rightarrow> Inr (opcode, unmask key payload, fin, rest')))"

text \<open>\<open>readFrame\<close>: opcode, payload, the FIN bit and the input that is left.\<close>

definition readFrame :: "string \<Rightarrow> ws_error + (nat \<times> string \<times> bool \<times> string)" where
  "readFrame input =
     (case input of
        b0 # b1 # rest \<Rightarrow>
          let h0 = of_char b0 :: nat; h1 = of_char b1 :: nat; fin = h0 \<ge> 128
          in if h0 div 16 mod 8 \<noteq> 0 then Inl WsReservedBits
             else if h1 < 128 then Inl WsUnmasked
             else (case readSize (h1 mod 128) rest of
                     Inl e \<Rightarrow> Inl e
                   | Inr (sz, rest') \<Rightarrow> readBody (h0 mod 16) fin sz rest')
      | _ \<Rightarrow> Inl WsEOF)"

record ws_message =
  msgBinary :: bool
  msgData :: string

lemma readSize_shrinks: "readSize n input = Inr (sz, rest) \<Longrightarrow> length rest \<le> length input"
  by (auto simp: readSize_def readFull_def split: if_splits option.splits)

lemma readFrame_shrinks: "readFrame input = Inr (opcode, payload, fin, rest) \<Longrightarrow> length rest < length input"
proof -
  assume r: "readFrame input = Inr (opcode, payload, fin, rest)"
  then obtain b0 b1 tail n sz rest' where input: "input = b0 # b1 # tail" and s: "readSize n tail = Inr (sz, rest')"
    and b: "readBody (of_char b0 mod 16) (128 \<le> (of_char b0 :: nat)) sz rest' = Inr (opcode, payload, fin, rest)"
    by (auto simp: readFrame_def Let_def split: list.splits if_splits sum.splits)
  have "length rest \<le> length rest'" using b by (auto simp: readBody_def readFull_def split: if_splits option.splits)
  with readSize_shrinks [OF s] input show ?thesis by simp
qed

text \<open>
  The loop of \<open>Read\<close> with its variables: \<open>building\<close> is the fragmented message under way (its
  kind and the bytes so far), \<open>None\<close> while there is none.
\<close>

function readLoop ::
  "(bool \<times> string) option \<Rightarrow> string \<Rightarrow> ws_conn \<Rightarrow> (ws_error + ws_message) \<times> string \<times> ws_conn" where
  "readLoop building input c =
     (case readFrame input of
        Inl e \<Rightarrow> (Inl e, input, c)
      | Inr (opcode, payload, fin, rest) \<Rightarrow>
          if opcode = opPing then
            (case writeFrame opPong payload c of
               (Some e, c') \<Rightarrow> (Inl e, rest, c')
             | (None, c') \<Rightarrow> readLoop building rest c')
          else if opcode = opPong then readLoop building rest c
          else if opcode = opClose then (Inl ErrConnClosed, rest, ConnClose c)
          else if opcode = opText \<or> opcode = opBinary then
            (if building \<noteq> None then (Inl WsInterleaved, rest, c)
             else if fin then (Inr \<lparr>msgBinary = (opcode = opBinary), msgData = payload\<rparr>, rest, c)
             else readLoop (Some (opcode = opBinary, payload)) rest c)
          else if opcode = opContinuation then
            (case building of
               None \<Rightarrow> (Inl WsUnexpectedContinuation, rest, c)
             | Some (binaryMsg, assembled) \<Rightarrow>
                 if length assembled + length payload > MaxFrameBytes then (Inl WsMessageTooLarge, rest, c)
                 else if fin then (Inr \<lparr>msgBinary = binaryMsg, msgData = assembled @ payload\<rparr>, rest, c)
                 else readLoop (Some (binaryMsg, assembled @ payload)) rest c)
          else (Inl (WsUnknownOpcode opcode), rest, c))"
  by pat_completeness auto
termination
  by (relation "measure (\<lambda>(building, input, c). length input)") (auto dest: readFrame_shrinks)

declare readLoop.simps [simp del]

definition ReadMessage :: "string \<Rightarrow> ws_conn \<Rightarrow> (ws_error + ws_message) \<times> string \<times> ws_conn" where
  "ReadMessage input c = readLoop None input c"

section \<open>Client frames (RFC 6455, section 5.2)\<close>

definition clientFrame :: "bool \<Rightarrow> nat \<Rightarrow> string \<Rightarrow> string \<Rightarrow> string" where
  "clientFrame fin opcode key payload =
     (let sz = length payload
      in char_of ((if fin then 128 else 0) + opcode) #
         (if sz < 126 then [char_of (128 + sz)]
          else if sz \<le> 65535 then char_of (254 :: nat) # be_bytes 2 sz
          else char_of (255 :: nat) # be_bytes 8 sz) @
         key @ unmask key payload)"

lemma length_be_bytes [simp]: "length (be_bytes n v) = n"
  by (induction n arbitrary: v) simp_all

lemma be_value_snoc: "be_value (s @ [c]) = be_value s * 256 + of_char c"
  by simp

lemma be_value_be_bytes: "v < 256 ^ n \<Longrightarrow> be_value (be_bytes n v) = v"
proof (induction n arbitrary: v)
  case (Suc n)
  have "v div 256 < 256 ^ n" using Suc.prems by (simp add: less_mult_imp_div_less mult.commute)
  with Suc.IH have ih: "be_value (be_bytes n (v div 256)) = v div 256" by simp
  show ?case unfolding be_bytes.simps be_value_snoc ih by simp
qed simp

declare be_value.simps [simp del]

lemma xor_byte_cancel:
  "char_of (Bit_Operations.xor (of_char (char_of (Bit_Operations.xor (of_char a :: nat) (of_char b)) :: char) :: nat) (of_char b)) = a"
proof -
  have byte: "take_bit 8 (of_char c :: nat) = of_char c" for c :: char by (simp add: take_bit_eq_mod)
  have "take_bit 8 (Bit_Operations.xor (of_char a :: nat) (of_char b)) = Bit_Operations.xor (of_char a) (of_char b)"
    by (simp add: take_bit_xor byte)
  moreover have "(of_char (char_of n :: char) :: nat) = take_bit 8 n" for n :: nat by (simp add: take_bit_eq_mod)
  ultimately have "(of_char (char_of (Bit_Operations.xor (of_char a :: nat) (of_char b)) :: char) :: nat) =
      Bit_Operations.xor (of_char a) (of_char b)" by simp
  then show ?thesis by (simp add: xor.assoc)
qed

lemma length_unmask [simp]: "length (unmask key s) = length s"
  by (simp add: unmask_def)

lemma unmask_unmask [simp]: "unmask key (unmask key s) = s"
proof (rule nth_equalityI)
  fix i assume "i < length (unmask key (unmask key s))"
  then have i: "i < length s" by simp
  then have "unmask key s ! i = char_of (Bit_Operations.xor (of_char (s ! i) :: nat) (of_char (key ! (i mod 4))))"
    by (simp add: unmask_def)
  with i show "unmask key (unmask key s) ! i = s ! i"
    using xor_byte_cancel [of "s ! i" "key ! (i mod 4)"] by (simp add: unmask_def)
qed simp

lemma readFull_append: "length s = n \<Longrightarrow> readFull n (s @ rest) = Some (s, rest)"
  by (simp add: readFull_def)

lemma readSize_client:
  assumes "length payload \<le> MaxFrameBytes"
  shows "\<exists>b ext. (if length payload < 126 then [char_of (128 + length payload)]
          else if length payload \<le> 65535 then char_of (254 :: nat) # be_bytes 2 (length payload)
          else char_of (255 :: nat) # be_bytes 8 (length payload)) = (b :: char) # ext \<and>
    128 \<le> (of_char b :: nat) \<and> readSize (of_char b mod 128) (ext @ rest) = Inr (length payload, rest)"
proof -
  let ?n = "length payload"
  have n: "?n < 256 ^ 8" using assms by (simp add: MaxFrameBytes_def)
  consider "?n < 126" | "126 \<le> ?n" "?n \<le> 65535" | "65535 < ?n" by linarith
  then show ?thesis
  proof cases
    case 1
    then have "(128 + ?n) mod 128 = ?n" by simp
    with 1 show ?thesis by (simp add: readSize_def)
  next
    case 2
    then have "?n < 256 ^ 2" by simp
    with 2 show ?thesis by (simp add: readSize_def readFull_append be_value_be_bytes)
  next
    case 3
    with n assms show ?thesis by (simp add: readSize_def readFull_append be_value_be_bytes)
  qed
qed

lemma readFrame_clientFrame:
  assumes "length key = 4" and "length payload \<le> MaxFrameBytes" and "opcode < 16"
    and "8 \<le> opcode \<Longrightarrow> length payload \<le> 125 \<and> fin"
  shows "readFrame (clientFrame fin opcode key payload @ rest) = Inr (opcode, payload, fin, rest)"
proof -
  define h where "h = (if fin then 128 else 0) + opcode"
  from readSize_client [OF assms(2), of "key @ unmask key payload @ rest"] obtain b ext where
    e: "(if length payload < 126 then [char_of (128 + length payload)]
          else if length payload \<le> 65535 then char_of (254 :: nat) # be_bytes 2 (length payload)
          else char_of (255 :: nat) # be_bytes 8 (length payload)) = b # ext"
    and b: "128 \<le> (of_char b :: nat)"
    and sz: "readSize (of_char b mod 128) (ext @ key @ unmask key payload @ rest) =
      Inr (length payload, key @ unmask key payload @ rest)" by blast
  have frame: "clientFrame fin opcode key payload @ rest = char_of h # b # ext @ key @ unmask key payload @ rest"
    by (simp add: clientFrame_def Let_def e h_def)
  have h: "h mod 256 = h" using assms(3) by (simp add: h_def)
  have "h div 16 mod 8 = 0" "h mod 16 = opcode" using assms(3) unfolding h_def by (cases fin, simp_all, presburger+)
  moreover have "(128 \<le> h) = fin" using assms(3) by (simp add: h_def)
  moreover have "readBody opcode fin (length payload) (key @ unmask key payload @ rest) = Inr (opcode, payload, fin, rest)"
    using assms by (auto simp: readBody_def readFull_append opClose_def)
  ultimately show ?thesis using b sz by (simp add: frame readFrame_def h Let_def)
qed

section \<open>Properties\<close>

text \<open>
  Every frame a client may send is read back exactly: opcode, unmasked payload, FIN bit,
  and not a byte of what follows is consumed, in each of the three length encodings.
\<close>

theorem ws_frame_roundtrip:
  assumes "length key = 4" and "length payload \<le> 1048576" and "opcode < 16"
    and "opcode < 8 \<or> length payload \<le> 125 \<and> fin"
  shows "readFrame (clientFrame fin opcode key payload @ rest) = Inr (opcode, payload, fin, rest)"
  by (rule readFrame_clientFrame) (use assms in \<open>auto simp: MaxFrameBytes_def\<close>)

theorem ws_frame_roundtrip_witness:
  "readFrame (clientFrame True 1 ''abcd'' (replicate 200 (CHR ''x'')) @ ''rest'') =
     Inr (1, replicate 200 (CHR ''x''), True, ''rest'')"
  by (rule ws_frame_roundtrip) simp_all

text \<open>A fragmented message with pings between its fragments.\<close>

type_synonym fragment = "(string \<times> string) list \<times> string \<times> string"

definition encodePings :: "(string \<times> string) list \<Rightarrow> string" where
  "encodePings pings = concat (map (\<lambda>(key, d). clientFrame True opPing key d) pings)"

definition pongs :: "(string \<times> string) list \<Rightarrow> string" where
  "pongs pings = concat (map (\<lambda>(key, d). frameBytes opPong d) pings)"

fun encodeMessage :: "nat \<Rightarrow> fragment list \<Rightarrow> string" where
  "encodeMessage opcode [] = []"
| "encodeMessage opcode ((pings, key, payload) # frags) =
     encodePings pings @ clientFrame (frags = []) opcode key payload @ encodeMessage opContinuation frags"

definition fragmentOK :: "fragment \<Rightarrow> bool" where
  "fragmentOK f \<longleftrightarrow> (case f of (pings, key, payload) \<Rightarrow>
     length key = 4 \<and> list_all (\<lambda>(k, d). length k = 4 \<and> length d \<le> 125) pings)"

lemma readLoop_pings:
  assumes "list_all (\<lambda>(k, d). length k = 4 \<and> length d \<le> 125) pings" and "\<not> wsDone c"
  shows "readLoop building (encodePings pings @ rest) c =
    readLoop building rest (c\<lparr>wsOut := wsOut c @ pongs pings\<rparr>)"
  using assms
proof (induction pings arbitrary: c)
  case Nil
  then show ?case by (simp add: encodePings_def pongs_def)
next
  case (Cons p pings)
  obtain k d where p: "p = (k, d)" by (cases p)
  have "readFrame (clientFrame True opPing k d @ encodePings pings @ rest) = Inr (opPing, d, True, encodePings pings @ rest)"
    by (rule readFrame_clientFrame) (use Cons.prems p in \<open>auto simp: opPing_def MaxFrameBytes_def\<close>)
  then have "readLoop building (encodePings (p # pings) @ rest) c =
      readLoop building (encodePings pings @ rest) (c\<lparr>wsOut := wsOut c @ frameBytes opPong d\<rparr>)"
    using Cons.prems(2) by (subst readLoop.simps) (simp add: encodePings_def p writeFrame_def)
  also have "\<dots> = readLoop building rest (c\<lparr>wsOut := wsOut c @ pongs (p # pings)\<rparr>)"
    using Cons.IH [of "c\<lparr>wsOut := wsOut c @ frameBytes opPong d\<rparr>"] Cons.prems by (simp add: p pongs_def)
  finally show ?case .
qed

lemma readLoop_continued:
  assumes "list_all fragmentOK frags" and "\<not> wsDone c" and "frags \<noteq> []"
    and "length assembled + length (concat (map (\<lambda>f. snd (snd f)) frags)) \<le> MaxFrameBytes"
  shows "readLoop (Some (bin, assembled)) (encodeMessage opContinuation frags @ rest) c =
    (Inr \<lparr>msgBinary = bin, msgData = assembled @ concat (map (\<lambda>f. snd (snd f)) frags)\<rparr>, rest,
     c\<lparr>wsOut := wsOut c @ concat (map (\<lambda>f. pongs (fst f)) frags)\<rparr>)"
  using assms
proof (induction frags arbitrary: assembled c)
  case (Cons f frags)
  obtain ps k d where f: "f = (ps, k, d)" by (cases f) auto
  let ?c = "c\<lparr>wsOut := wsOut c @ pongs ps\<rparr>"
  let ?tail = "encodeMessage opContinuation frags @ rest"
  have ok: "length k = 4" "list_all (\<lambda>(k, d). length k = 4 \<and> length d \<le> 125) ps"
    using Cons.prems(1) by (auto simp: fragmentOK_def f)
  have len: "length assembled + length d \<le> MaxFrameBytes" using Cons.prems(4) by (simp add: f)
  have "readFrame (clientFrame (frags = []) opContinuation k d @ ?tail) = Inr (opContinuation, d, frags = [], ?tail)"
    by (rule readFrame_clientFrame) (use ok len in \<open>auto simp: opContinuation_def\<close>)
  then have step: "readLoop (Some (bin, assembled)) (clientFrame (frags = []) opContinuation k d @ ?tail) ?c =
      (if frags = [] then (Inr \<lparr>msgBinary = bin, msgData = assembled @ d\<rparr>, ?tail, ?c)
       else readLoop (Some (bin, assembled @ d)) ?tail ?c)"
    using len by (subst readLoop.simps) (simp add: opcodes)
  have "readLoop (Some (bin, assembled)) (encodeMessage opContinuation (f # frags) @ rest) c =
      readLoop (Some (bin, assembled)) (clientFrame (frags = []) opContinuation k d @ ?tail) ?c"
    using readLoop_pings [OF ok(2) Cons.prems(2)] by (simp add: f)
  also have "\<dots> = (Inr \<lparr>msgBinary = bin, msgData = assembled @ concat (map (\<lambda>f. snd (snd f)) (f # frags))\<rparr>, rest,
     c\<lparr>wsOut := wsOut c @ concat (map (\<lambda>f. pongs (fst f)) (f # frags))\<rparr>)"
  proof (cases "frags = []")
    case True
    with step show ?thesis by (simp add: f)
  next
    case False
    with step Cons.IH [of ?c "assembled @ d"] Cons.prems show ?thesis by (simp add: f)
  qed
  finally show ?case .
qed simp

text \<open>
  C20: A fragmented message of up to 1 MiB is reassembled exactly, whatever pings arrive
  between and before its fragments; each ping is answered by one pong with its payload, in
  order, and reading stops at the end of the message.
\<close>

theorem ws_message_reassembled:
  assumes "opcode = opText \<or> opcode = opBinary" and "frags \<noteq> []" and "list_all fragmentOK frags"
    and "length (concat (map (\<lambda>f. snd (snd f)) frags)) \<le> 1048576" and "\<not> wsDone c"
  shows "ReadMessage (encodeMessage opcode frags @ rest) c =
    (Inr \<lparr>msgBinary = (opcode = opBinary), msgData = concat (map (\<lambda>f. snd (snd f)) frags)\<rparr>, rest,
     c\<lparr>wsOut := wsOut c @ concat (map (\<lambda>f. pongs (fst f)) frags)\<rparr>)"
proof -
  obtain ps k d more where frags: "frags = (ps, k, d) # more"
    using assms(2) by (cases frags) auto
  let ?c = "c\<lparr>wsOut := wsOut c @ pongs ps\<rparr>"
  let ?tail = "encodeMessage opContinuation more @ rest"
  have ok: "length k = 4" "list_all (\<lambda>(k, d). length k = 4 \<and> length d \<le> 125) ps"
    using assms(3) by (auto simp: fragmentOK_def frags)
  have len: "length d \<le> MaxFrameBytes" using assms(4) by (simp add: frags MaxFrameBytes_def)
  have op: "opcode < 8" "opcode \<noteq> opPing" "opcode \<noteq> opPong" "opcode \<noteq> opClose" "opcode \<noteq> opContinuation"
    using assms(1) by (auto simp: opcodes)
  have "readFrame (clientFrame (more = []) opcode k d @ ?tail) = Inr (opcode, d, more = [], ?tail)"
    by (rule readFrame_clientFrame) (use ok len op in auto)
  then have step: "readLoop None (clientFrame (more = []) opcode k d @ ?tail) ?c =
      (if more = [] then (Inr \<lparr>msgBinary = (opcode = opBinary), msgData = d\<rparr>, ?tail, ?c)
       else readLoop (Some (opcode = opBinary, d)) ?tail ?c)"
    using assms(1) op by (subst readLoop.simps) simp
  have "ReadMessage (encodeMessage opcode frags @ rest) c = readLoop None (clientFrame (more = []) opcode k d @ ?tail) ?c"
    using readLoop_pings [OF ok(2) assms(5)] by (simp add: ReadMessage_def frags)
  also have "\<dots> = (Inr \<lparr>msgBinary = (opcode = opBinary), msgData = concat (map (\<lambda>f. snd (snd f)) frags)\<rparr>, rest,
     c\<lparr>wsOut := wsOut c @ concat (map (\<lambda>f. pongs (fst f)) frags)\<rparr>)"
  proof (cases "more = []")
    case True
    with step show ?thesis by (simp add: frags)
  next
    case False
    with step assms readLoop_continued [of more ?c d "opcode = opBinary" rest] show ?thesis
      by (simp add: frags MaxFrameBytes_def)
  qed
  finally show ?thesis .
qed

theorem ws_message_reassembled_witness:
  "fst (ReadMessage (encodeMessage opText [([], ''abcd'', ''he''), ([(''wxyz'', ''p'')], ''abcd'', ''llo'')]) \<lparr>wsDone = False, wsOut = []\<rparr>) =
     Inr \<lparr>msgBinary = False, msgData = ''hello''\<rparr>"
proof -
  have "list_all fragmentOK [([], ''abcd'', ''he''), ([(''wxyz'', ''p'')], ''abcd'', ''llo'')]"
    by (simp add: fragmentOK_def)
  from ws_message_reassembled [of opText, OF _ _ this, of "\<lparr>wsDone = False, wsOut = []\<rparr>" "[]"] show ?thesis
    by (simp add: opcodes)
qed

lemma readFrame_bound: "readFrame input = Inr (opcode, payload, fin, rest) \<Longrightarrow> length payload \<le> MaxFrameBytes"
  by (auto simp: readFrame_def readBody_def readFull_def Let_def split: list.splits if_splits sum.splits option.splits)

text \<open>
  Whatever bytes arrive, a message the reader returns has at most 1 MiB.
\<close>

theorem ws_message_bounded:
  assumes "ReadMessage input c = (Inr msg, rest, c')"
  shows "length (msgData msg) \<le> 1048576"
proof -
  have "readLoop building input c = (Inr msg, rest, c') \<Longrightarrow> length (msgData msg) \<le> MaxFrameBytes" for building
  proof (induction building input c rule: readLoop.induct)
    case (1 building input c)
    from "1.prems" obtain opcode payload fin rest' where f: "readFrame input = Inr (opcode, payload, fin, rest')"
      by (subst (asm) readLoop.simps) (auto split: sum.splits)
    note bound = readFrame_bound [OF f]
    note IH = "1.IH" [OF f refl refl refl]
    from "1.prems" show ?case
      unfolding readLoop.simps [of building input c]
      using bound IH by (auto simp: f writeFrame_def split: if_splits option.splits)
  qed
  from this [of None] assms show ?thesis by (simp add: ReadMessage_def MaxFrameBytes_def)
qed

theorem ws_message_bounded_witness:
  "length (msgData (case fst (ReadMessage (clientFrame True opText ''abcd'' ''hello'') \<lparr>wsDone = False, wsOut = []\<rparr>) of
     Inr msg \<Rightarrow> msg | Inl _ \<Rightarrow> \<lparr>msgBinary = False, msgData = []\<rparr>)) \<le> 1048576"
proof -
  have "readFrame (clientFrame True opText ''abcd'' ''hello'' @ []) = Inr (opText, ''hello'', True, [])"
    by (rule readFrame_clientFrame) (simp_all add: opcodes MaxFrameBytes_def)
  then have r: "ReadMessage (clientFrame True opText ''abcd'' ''hello'') \<lparr>wsDone = False, wsOut = []\<rparr> =
      (Inr \<lparr>msgBinary = False, msgData = ''hello''\<rparr>, [], \<lparr>wsDone = False, wsOut = []\<rparr>)"
    by (simp add: ReadMessage_def readLoop.simps [of None] opcodes)
  from ws_message_bounded [OF r] show ?thesis by (simp add: r)
qed

end
