(* ===== verification/Resp.thy ===== *)
theory Resp
  imports WebSocket
begin

text \<open>
  The RESP2 client (\<open>backend/cloud/redis.go\<close>): the command writer, the reply reader, the
  replies of the commands the backend sends, and the decoding of pub/sub messages. The
  connection is the bytes that will arrive. The reader recurses into arrays; \<open>fuel\<close> bounds that
  recursion, and \<open>resp_fuel_enough\<close> shows that twice the input is always enough.
\<close>

section \<open>Replies\<close>

datatype reply = RStr string | RInt int | RArr "reply list" | RNil

datatype resp_error =
    RespEOF | RespServer string | RespBadInt string | RespBadBulk string | RespBadArray string
  | RespBulkTooLarge | RespArrayTooLarge | RespUnknownPrefix char | RespNotFound | RespUnexpected | RespFuel

section \<open>The codec\<close>

definition bulk :: "string \<Rightarrow> string" where
  "bulk arg = ''$'' @ show_nat (length arg) @ crlf @ arg @ crlf"

definition writeCommand :: "string list \<Rightarrow> string" where
  "writeCommand args = ''*'' @ show_nat (length args) @ crlf @ concat (map bulk args)"

text \<open>\<open>ReadString('\n')\<close>, then every carriage return and line feed at the end is cut off.\<close>

fun cutLine :: "string \<Rightarrow> (string \<times> string) option" where
  "cutLine [] = None"
| "cutLine (c # cs) =
     (if c = CHR 0x0A then Some ([c], cs)
      else case cutLine cs of None \<Rightarrow> None | Some (line, rest) \<Rightarrow> Some (c # line, rest))"

definition trimEOL :: "string \<Rightarrow> string" where
  "trimEOL s = rev (dropWhile (\<lambda>c. c = CHR 0x0D \<or> c = CHR 0x0A) (rev s))"

definition readLine :: "string \<Rightarrow> (string \<times> string) option" where
  "readLine input =
     (case cutLine input of None \<Rightarrow> None | Some (line, rest) \<Rightarrow> Some (trimEOL line, rest))"

definition MaxArrayItems :: int where
  "MaxArrayItems = 1048576"

definition readBulk :: "int \<Rightarrow> string \<Rightarrow> resp_error + (reply \<times> string)" where
  "readBulk sz rest =
     (if sz < 0 then Inr (RNil, rest)
      else if sz > int MaxFrameBytes then Inl RespBulkTooLarge
      else case readFull (nat sz + 2) rest of
             None \<Rightarrow> Inl RespEOF
           | Some (payload, rest') \<Rightarrow> Inr (RStr (take (nat sz) payload), rest'))"

fun readReply :: "nat \<Rightarrow> string \<Rightarrow> resp_error + (reply \<times> string)"
and readItems :: "nat \<Rightarrow> nat \<Rightarrow> string \<Rightarrow> resp_error + (reply list \<times> string)" where
  "readReply 0 input = Inl RespFuel"
| "readReply (Suc fuel) input =
     (case input of
        [] \<Rightarrow> Inl RespEOF
      | pfx # rest0 \<Rightarrow>
          if pfx \<notin> set ''+-:$*'' then Inl (RespUnknownPrefix pfx)
          else (case readLine rest0 of
             None \<Rightarrow> Inl RespEOF
           | Some (line, rest) \<Rightarrow>
               if pfx = CHR ''+'' then Inr (RStr line, rest)
               else if pfx = CHR ''-'' then Inl (RespServer line)
               else if pfx = CHR '':'' then
                 (case parseInt64 line of None \<Rightarrow> Inl (RespBadInt line) | Some n \<Rightarrow> Inr (RInt n, rest))
               else if pfx = CHR ''$'' then
                 (case parseInt64 line of None \<Rightarrow> Inl (RespBadBulk line) | Some sz \<Rightarrow> readBulk sz rest)
               else
                 (case parseInt64 line of
                    None \<Rightarrow> Inl (RespBadArray line)
                  | Some cnt \<Rightarrow>
                      if cnt < 0 then Inr (RNil, rest)
                      else if cnt > MaxArrayItems then Inl RespArrayTooLarge
                      else (case readItems fuel (nat cnt) rest of
                              Inl e \<Rightarrow> Inl e
                            | Inr (items, rest') \<Rightarrow> Inr (RArr items, rest')))))"
| "readItems fuel 0 input = Inr ([], input)"
| "readItems 0 (Suc n) input = Inl RespFuel"
| "readItems (Suc fuel) (Suc n) input =
     (case readReply fuel input of
        Inl e \<Rightarrow> Inl e
      | Inr (item, rest) \<Rightarrow>
          (case readItems fuel n rest of
             Inl e \<Rightarrow> Inl e
           | Inr (items, rest') \<Rightarrow> Inr (item # items, rest')))"

definition enough :: "string \<Rightarrow> nat" where
  "enough input = 2 * length input + 1"

section \<open>Commands\<close>

text \<open>What each command writes, given its arguments; \<open>ttl\<close> in nanoseconds.\<close>

definition publishCommand :: "string \<Rightarrow> string \<Rightarrow> string" where
  "publishCommand chan payload = writeCommand [''PUBLISH'', chan, payload]"

definition setCommand :: "string \<Rightarrow> string \<Rightarrow> int \<Rightarrow> string" where
  "setCommand key v ttl =
     writeCommand ([''SET'', key, v] @ (if ttl > 0 then [''PX'', show_int (ttl div 1000000)] else []))"

definition delCommand :: "string list \<Rightarrow> string option" where
  "delCommand keys = (if keys = [] then None else Some (writeCommand (''DEL'' # keys)))"

text \<open>\<open>Get\<close> on the reply it receives.\<close>

definition getReply :: "string \<Rightarrow> resp_error + string" where
  "getReply input =
     (case readReply (enough input) input of
        Inl e \<Rightarrow> Inl e
      | Inr (RNil, _) \<Rightarrow> Inl RespNotFound
      | Inr (RStr v, _) \<Rightarrow> Inr v
      | Inr (_, _) \<Rightarrow> Inl RespUnexpected)"

section \<open>Pub/sub\<close>

text \<open>\<open>parts[i].(string)\<close> with the result of a failed assertion, the empty string.\<close>

definition asString :: "reply \<Rightarrow> string" where
  "asString r = (case r of RStr s \<Rightarrow> s | _ \<Rightarrow> '''')"

definition messageOf :: "reply \<Rightarrow> (string \<times> string) option" where
  "messageOf r =
     (case r of
        RArr parts \<Rightarrow>
          if length parts < 3 then None
          else if asString (parts ! 0) = ''message'' \<and> length parts = 3
          then Some (asString (parts ! 1), asString (parts ! 2))
          else if asString (parts ! 0) = ''pmessage'' \<and> length parts = 4
          then Some (asString (parts ! 2), asString (parts ! 3))
          else None
      | _ \<Rightarrow> None)"

text \<open>The messages of a subscription, up to the first read error; each reply takes input.\<close>

fun subscribeLoop :: "nat \<Rightarrow> string \<Rightarrow> (string \<times> string) list" where
  "subscribeLoop 0 input = []"
| "subscribeLoop (Suc n) input =
     (case readReply (enough input) input of
        Inl e \<Rightarrow> []
      | Inr (r, rest) \<Rightarrow>
          (case messageOf r of None \<Rightarrow> subscribeLoop n rest | Some m \<Rightarrow> m # subscribeLoop n rest))"

section \<open>Lemmas\<close>

lemma cutLine_append: "CHR 0x0A \<notin> set s \<Longrightarrow> cutLine (s @ CHR 0x0A # rest) = Some (s @ [CHR 0x0A], rest)"
  by (induction s) auto

lemma cutLine_shrinks: "cutLine s = Some (line, rest) \<Longrightarrow> length rest < length s"
  by (induction s arbitrary: line) (auto split: if_splits option.splits)

lemma readLine_shrinks: "readLine s = Some (line, rest) \<Longrightarrow> length rest < length s"
  by (auto simp: readLine_def dest: cutLine_shrinks split: option.splits)

lemma readLine_crlf:
  assumes "CHR 0x0A \<notin> set s" and "CHR 0x0D \<notin> set s"
  shows "readLine (s @ crlf @ rest) = Some (s, rest)"
proof -
  have "cutLine ((s @ [CHR 0x0D]) @ CHR 0x0A # rest) = Some ((s @ [CHR 0x0D]) @ [CHR 0x0A], rest)"
    using assms by (intro cutLine_append) simp
  moreover have "dropWhile (\<lambda>c. c = CHR 0x0D \<or> c = CHR 0x0A) (rev s) = rev s"
    using assms by (cases "rev s") (auto simp: dropWhile_eq_self_iff dest: arg_cong [of _ _ set])
  ultimately show ?thesis by (simp add: readLine_def crlf_def trimEOL_def)
qed

lemma readLine_show_nat: "readLine (show_nat n @ crlf @ rest) = Some (show_nat n, rest)"
  by (rule readLine_crlf) (simp_all add: show_nat_no_eol)

lemma readLine_show_int: "readLine (show_int n @ crlf @ rest) = Some (show_int n, rest)"
  by (rule readLine_crlf) (simp_all add: show_int_def show_nat_no_eol)

lemma readBulk_shrinks: "readBulk sz rest = Inr (r, rest') \<Longrightarrow> length rest' \<le> length rest"
  by (auto simp: readBulk_def readFull_def split: if_splits)

lemma reply_shrinks:
  "readReply fuel input = Inr (r, rest) \<Longrightarrow> length rest < length input"
  "readItems fuel n input = Inr (rs, rest) \<Longrightarrow> length rest \<le> length input"
proof (induction fuel input and fuel n input arbitrary: r rest and rs rest rule: readReply_readItems.induct)
  case (2 fuel input)
  from "2.prems" obtain p rest0 line rest1 where i: "input = p # rest0" and l: "readLine rest0 = Some (line, rest1)"
    by (auto split: list.splits if_splits option.splits)
  have s: "length rest1 < length rest0" by (rule readLine_shrinks [OF l])
  have "length rest \<le> length rest1"
    using "2.prems" "2.IH" [OF i _ l refl]
    by (auto simp: i l dest: readBulk_shrinks split: if_splits option.splits sum.splits)
  with s i show ?case by simp
next
  case (5 fuel n input)
  from "5.prems" obtain item rest1 items where a: "readReply fuel input = Inr (item, rest1)"
    and b: "readItems fuel n rest1 = Inr (items, rest)" by (auto split: sum.splits)
  from "5.IH"(1) [OF a] "5.IH"(2) [OF a refl b] show ?case by simp
qed simp_all

lemma fuel_enough:
  "2 * length input + 1 \<le> fuel \<Longrightarrow> readReply fuel input \<noteq> Inl RespFuel"
  "2 * length input + 2 \<le> fuel \<Longrightarrow> readItems fuel n input \<noteq> Inl RespFuel"
proof (induction fuel input and fuel n input rule: readReply_readItems.induct)
  case (2 fuel input)
  show ?case
  proof (cases input)
    case (Cons p rest0)
    show ?thesis
    proof (cases "readLine rest0")
      case (Some q)
      obtain line rest where q: "q = (line, rest)" by (cases q)
      have "length rest < length rest0" using readLine_shrinks Some q by blast
      then have "2 * length rest + 2 \<le> fuel" using "2.prems" Cons by simp
      then show ?thesis using "2.IH" Some q Cons
        by (auto simp: readBulk_def split: option.splits sum.splits)
    qed (simp add: Cons)
  qed simp
next
  case (5 fuel n input)
  have a: "readReply fuel input \<noteq> Inl RespFuel" using "5.IH"(1) "5.prems" by simp
  show ?case
  proof (cases "readReply fuel input")
    case (Inl e)
    with a show ?thesis by simp
  next
    case (Inr p)
    obtain item rest where p: "p = (item, rest)" by (cases p)
    have "length rest < length input" using reply_shrinks(1) Inr p by blast
    with "5.prems" have "readItems fuel n rest \<noteq> Inl RespFuel"
      using "5.IH"(2) [OF Inr p [symmetric]] by simp
    with Inr p show ?thesis by (auto split: sum.splits)
  qed
qed simp_all

text \<open>The reply the server encodes, and the replies a client of 64-bit integers can be sent.\<close>

fun encodeReply :: "reply \<Rightarrow> string" where
  "encodeReply (RStr s) = bulk s"
| "encodeReply (RInt n) = '':'' @ show_int n @ crlf"
| "encodeReply (RArr rs) = ''*'' @ show_nat (length rs) @ crlf @ concat (map encodeReply rs)"
| "encodeReply RNil = ''$-1'' @ crlf"

fun replyOK :: "reply \<Rightarrow> bool" where
  "replyOK (RStr s) = (length s \<le> MaxFrameBytes)"
| "replyOK (RInt n) = (- (2 ^ 63) \<le> n \<and> n < 2 ^ 63)"
| "replyOK (RArr rs) = (length rs \<le> 1048576 \<and> list_all replyOK rs)"
| "replyOK RNil = True"

lemma readBulk_encoded:
  "length s \<le> MaxFrameBytes \<Longrightarrow> readBulk (int (length s)) (s @ crlf @ rest) = Inr (RStr s, rest)"
  by (simp add: readBulk_def readFull_def crlf_def)


lemma readItems_roundtrip:
  assumes "\<And>r rest fuel. r \<in> set rs \<Longrightarrow> 2 * length (encodeReply r @ rest) + 1 \<le> fuel \<Longrightarrow>
      readReply fuel (encodeReply r @ rest) = Inr (r, rest)"
    and "2 * length (concat (map encodeReply rs) @ rest) + 2 \<le> fuel"
  shows "readItems fuel (length rs) (concat (map encodeReply rs) @ rest) = Inr (rs, rest)"
  using assms
proof (induction rs arbitrary: fuel)
  case Nil
  then show ?case by simp
next
  case (Cons r rs)
  obtain f where f: "fuel = Suc f" using Cons.prems(2) by (cases fuel) simp_all
  let ?tail = "concat (map encodeReply rs) @ rest"
  have one: "1 \<le> length (encodeReply r)" by (cases r) (simp_all add: bulk_def)
  have "readReply f (encodeReply r @ ?tail) = Inr (r, ?tail)"
    using Cons.prems by (simp add: f)
  moreover have "readItems f (length rs) ?tail = Inr (rs, rest)"
    by (rule Cons.IH) (use Cons.prems one in \<open>simp_all add: f\<close>)
  ultimately show ?case by (simp add: f)
qed

lemma readReply_roundtrip:
  "replyOK r \<Longrightarrow> 2 * length (encodeReply r @ rest) + 1 \<le> fuel \<Longrightarrow>
     readReply fuel (encodeReply r @ rest) = Inr (r, rest)"
proof (induction r arbitrary: rest fuel)
  case (RStr s)
  obtain f where f: "fuel = Suc f" using RStr.prems(2) by (cases fuel) simp_all
  have "int (length s) < 2 ^ 63" using RStr.prems(1) by (simp add: MaxFrameBytes_def)
  with RStr.prems(1) show ?case
    by (simp add: f bulk_def readLine_show_nat parseInt64_show_nat readBulk_encoded)
next
  case (RInt n)
  obtain f where f: "fuel = Suc f" using RInt.prems(2) by (cases fuel) simp_all
  from RInt.prems(1) show ?case by (simp add: f readLine_show_int parseInt64_show_int)
next
  case (RArr rs)
  obtain f where f: "fuel = Suc f" using RArr.prems(2) by (cases fuel) simp_all
  have "readItems f (length rs) (concat (map encodeReply rs) @ rest) = Inr (rs, rest)"
  proof (rule readItems_roundtrip)
    show "2 * length (concat (map encodeReply rs) @ rest) + 2 \<le> f"
      using RArr.prems(2) by (simp add: f crlf_def)
    show "readReply fuel (encodeReply r @ rest) = Inr (r, rest)"
      if "r \<in> set rs" "2 * length (encodeReply r @ rest) + 1 \<le> fuel" for r rest fuel
      using RArr.IH [OF that(1) _ that(2)] RArr.prems(1) that(1) by (simp add: list_all_iff)
  qed
  moreover have "int (length rs) < 2 ^ 63" using RArr.prems(1) by simp
  ultimately show ?case using RArr.prems(1)
    by (simp add: f readLine_show_nat parseInt64_show_nat MaxArrayItems_def)
next
  case RNil
  obtain f where f: "fuel = Suc f" using RNil.prems(2) by (cases fuel) simp_all
  have "readLine (''-1'' @ crlf @ rest) = Some (''-1'', rest)" by (rule readLine_crlf) simp_all
  moreover have "parseInt64 ''-1'' = Some (- 1)" by code_simp
  ultimately show ?case by (simp add: f readBulk_def)
qed

section \<open>Properties\<close>

text \<open>
  C37: Twice the input plus one is always enough fuel: the reader returns a reply or one of
  the errors of the code on every input, and a reply it returns has taken at least one byte.
\<close>

theorem resp_reader_total:
  "(\<exists>r rest. readReply (enough input) input = Inr (r, rest) \<and> length rest < length input) \<or>
   (\<exists>e. readReply (enough input) input = Inl e \<and> e \<noteq> RespFuel)"
proof (cases "readReply (enough input) input")
  case (Inl e)
  with fuel_enough(1) [of input "enough input"] show ?thesis by (auto simp: enough_def)
next
  case (Inr p)
  obtain r rest where p: "p = (r, rest)" by (cases p)
  from reply_shrinks(1) [OF Inr [unfolded p]] Inr p show ?thesis by blast
qed

lemma writeCommand_encode: "writeCommand args = encodeReply (RArr (map RStr args))"
  by (simp add: writeCommand_def comp_def)

text \<open>
  Every reply of the protocol within the limits, arrays nested to any depth, is decoded
  exactly and the following bytes are left; what \<open>writeCommand\<close> sends is such a reply, an array
  of its arguments.
\<close>

theorem resp_roundtrip:
  assumes "replyOK r"
  shows "readReply (enough (encodeReply r @ rest)) (encodeReply r @ rest) = Inr (r, rest) \<and>
    writeCommand args = encodeReply (RArr (map RStr args))"
proof (intro conjI)
  show "readReply (enough (encodeReply r @ rest)) (encodeReply r @ rest) = Inr (r, rest)"
    by (rule readReply_roundtrip [OF assms]) (simp add: enough_def)
qed (rule writeCommand_encode)

theorem resp_roundtrip_witness:
  "readReply (enough (encodeReply (RArr [RStr ''a'', RArr [RInt (- 5), RNil]]) @ ''+OK''))
     (encodeReply (RArr [RStr ''a'', RArr [RInt (- 5), RNil]]) @ ''+OK'') =
     Inr (RArr [RStr ''a'', RArr [RInt (- 5), RNil]], ''+OK'')"
proof -
  have "replyOK (RArr [RStr ''a'', RArr [RInt (- 5), RNil]])" by (simp add: MaxFrameBytes_def)
  from resp_roundtrip [OF this, of "''+OK''"] show ?thesis by blast
qed

definition pushReply :: "string \<Rightarrow> string \<times> string \<Rightarrow> reply" where
  "pushReply pattern m = RArr [RStr ''pmessage'', RStr pattern, RStr (fst m), RStr (snd m)]"

text \<open>
  A pattern subscription yields exactly the messages the server pushed, in order,
  whatever other well-formed replies that are no messages (confirmations) stand between them.
\<close>

theorem resp_subscription_exact:
  assumes "list_all (\<lambda>(noise, m). replyOK noise \<and> messageOf noise = None \<and>
      replyOK (pushReply pattern m)) msgs"
    and "2 * length msgs < n"
  shows "subscribeLoop n (concat (map (\<lambda>(noise, m). encodeReply noise @ encodeReply (pushReply pattern m)) msgs)) =
    map snd msgs"
  using assms
proof (induction msgs arbitrary: n)
  case Nil
  then show ?case by (cases n) (simp_all add: enough_def)
next
  case (Cons p msgs)
  obtain noise m where p: "p = (noise, m)" by (cases p)
  obtain k where n: "n = Suc (Suc k)" and k: "2 * length msgs < k"
    using Cons.prems(2) by (cases n; cases "n - 1") auto
  let ?tail = "concat (map (\<lambda>(noise, m). encodeReply noise @ encodeReply (pushReply pattern m)) msgs)"
  have ok: "replyOK noise" "messageOf noise = None" "replyOK (pushReply pattern m)"
    using Cons.prems(1) by (simp_all add: p)
  have r1: "readReply (enough (encodeReply noise @ encodeReply (pushReply pattern m) @ ?tail))
      (encodeReply noise @ encodeReply (pushReply pattern m) @ ?tail) = Inr (noise, encodeReply (pushReply pattern m) @ ?tail)"
    by (rule readReply_roundtrip [OF ok(1)]) (simp add: enough_def)
  have r2: "readReply (enough (encodeReply (pushReply pattern m) @ ?tail)) (encodeReply (pushReply pattern m) @ ?tail) =
      Inr (pushReply pattern m, ?tail)"
    by (rule readReply_roundtrip [OF ok(3)]) (simp add: enough_def)
  have m: "messageOf (pushReply pattern m) = Some m"
    by (simp add: messageOf_def pushReply_def asString_def)
  show ?case using Cons.IH [OF _ k] Cons.prems(1)
    by (simp add: n p r1 r2 ok(2) m)
qed

theorem resp_subscription_exact_witness:
  "subscribeLoop 3 (encodeReply (RArr [RStr ''psubscribe'', RStr ''e*'', RInt 1]) @
      encodeReply (pushReply ''e*'' (''e:u'', ''hello''))) = [(''e:u'', ''hello'')]"
proof -
  have "list_all (\<lambda>(noise, m). replyOK noise \<and> messageOf noise = None \<and> replyOK (pushReply ''e*'' m))
      [(RArr [RStr ''psubscribe'', RStr ''e*'', RInt 1], (''e:u'', ''hello''))]"
    by (simp add: MaxFrameBytes_def messageOf_def asString_def pushReply_def)
  from resp_subscription_exact [OF this, of 3] show ?thesis by simp
qed

end
