(* ===== verification/Users.thy ===== *)
theory Users
  imports AuthToken
begin

text \<open>
  User profiles: the service and handlers of \<open>backend/users/\<close>, and the in-memory store
  that \<open>backend/stores.go\<close> wires in. The \<open>Store\<close> interface of the package is the record
  \<open>users_ops\<close> over any state; what a store promises is the locale \<open>user_store\<close>, interpreted on
  the in-memory store. The order in which Go ranges over the profile map is the argument
  \<open>shuffle\<close>.
\<close>

section \<open>Data\<close>

datatype users_error = UsersNotFound | UsersInvalidInput | UsersAlreadyExists | UsersFailure

record profile =
  pfUserID :: string
  pfHandle :: string
  pfDisplayName :: string
  pfBio :: string
  pfAvatarURL :: string
  pfIsPublic :: bool
  pfCreatedAt :: time

record update_request =
  urDisplayName :: string
  urBio :: string
  urAvatarURL :: string
  urIsPublic :: "bool option"

definition validateUpdate :: "update_request \<Rightarrow> string option" where
  "validateUpdate u =
     (if length (urDisplayName u) > 128 then Some ''display name too long''
      else if length (urBio u) > 1024 then Some ''bio too long''
      else if length (urAvatarURL u) > 2048 then Some ''avatar URL too long''
      else None)"

section \<open>The store interface and the service\<close>

record 'st users_ops =
  uoGetProfile :: "string \<Rightarrow> 'st \<Rightarrow> users_error + profile"
  uoUpdateProfile :: "string \<Rightarrow> update_request \<Rightarrow> 'st \<Rightarrow> (users_error + profile) \<times> 'st"
  uoListPublicProfiles :: "int \<Rightarrow> int \<Rightarrow> 'st \<Rightarrow> users_error + profile list"
  uoDeleteAccount :: "string \<Rightarrow> 'st \<Rightarrow> users_error option \<times> 'st"
  uoVerifyEmail :: "string \<Rightarrow> 'st \<Rightarrow> users_error option \<times> 'st"

definition GetProfile :: "'st users_ops \<Rightarrow> string \<Rightarrow> 'st \<Rightarrow> users_error + profile" where
  "GetProfile ops userID st = (if userID = '''' then Inl UsersInvalidInput else uoGetProfile ops userID st)"

definition UpdateProfile ::
  "'st users_ops \<Rightarrow> string \<Rightarrow> update_request \<Rightarrow> 'st \<Rightarrow> (users_error + profile) \<times> 'st" where
  "UpdateProfile ops userID req st =
     (if userID = '''' then (Inl UsersInvalidInput, st)
      else case validateUpdate req of
             Some _ \<Rightarrow> (Inl UsersInvalidInput, st)
           | None \<Rightarrow> uoUpdateProfile ops userID req st)"

definition ListPublicProfiles :: "'st users_ops \<Rightarrow> int \<Rightarrow> int \<Rightarrow> 'st \<Rightarrow> users_error + profile list" where
  "ListPublicProfiles ops limit offset st =
     (let limit' = (if limit \<le> 0 \<or> limit > 100 then 50 else limit);
          offset' = (if offset < 0 then 0 else offset)
      in uoListPublicProfiles ops limit' offset' st)"

definition DeleteAccount :: "'st users_ops \<Rightarrow> string \<Rightarrow> 'st \<Rightarrow> users_error option \<times> 'st" where
  "DeleteAccount ops userID st =
     (if userID = '''' then (Some UsersInvalidInput, st) else uoDeleteAccount ops userID st)"

definition VerifyEmail :: "'st users_ops \<Rightarrow> string \<Rightarrow> 'st \<Rightarrow> users_error option \<times> 'st" where
  "VerifyEmail ops userID st =
     (if userID = '''' then (Some UsersInvalidInput, st) else uoVerifyEmail ops userID st)"

section \<open>The in-memory store\<close>

type_synonym user_mem = "(string, profile) gomap"

definition memGetProfile :: "string \<Rightarrow> user_mem \<Rightarrow> users_error + profile" where
  "memGetProfile userID st = (case map_of st userID of None \<Rightarrow> Inl UsersNotFound | Some p \<Rightarrow> Inr p)"

definition applyUpdate :: "update_request \<Rightarrow> profile \<Rightarrow> profile" where
  "applyUpdate req p =
     p\<lparr>pfDisplayName := (if urDisplayName req \<noteq> '''' then urDisplayName req else pfDisplayName p),
       pfBio := (if urBio req \<noteq> '''' then urBio req else pfBio p),
       pfAvatarURL := (if urAvatarURL req \<noteq> '''' then urAvatarURL req else pfAvatarURL p),
       pfIsPublic := (case urIsPublic req of None \<Rightarrow> pfIsPublic p | Some b \<Rightarrow> b)\<rparr>"

definition emptyProfile :: "string \<Rightarrow> time \<Rightarrow> profile" where
  "emptyProfile userID now = \<lparr>pfUserID = userID, pfHandle = '''', pfDisplayName = '''', pfBio = '''',
     pfAvatarURL = '''', pfIsPublic = False, pfCreatedAt = now\<rparr>"

definition memUpdateProfile ::
  "time \<Rightarrow> string \<Rightarrow> update_request \<Rightarrow> user_mem \<Rightarrow> (users_error + profile) \<times> user_mem" where
  "memUpdateProfile now userID req st =
     (let p = applyUpdate req (case map_of st userID of None \<Rightarrow> emptyProfile userID now | Some p \<Rightarrow> p)
      in (Inr p, put userID p st))"

text \<open>\<open>limit\<close> is positive here, so the slice bounds are in order.\<close>

definition memListPublic ::
  "((string \<times> profile) list \<Rightarrow> (string \<times> profile) list) \<Rightarrow> int \<Rightarrow> int \<Rightarrow> user_mem \<Rightarrow> users_error + profile list" where
  "memListPublic shuffle limit offset st =
     (let result = filter pfIsPublic (map snd (shuffle st))
      in if int (length result) \<le> offset then Inr []
         else
           let end0 = offset + limit;
               end1 = (if end0 > int (length result) then int (length result) else end0)
           in Inr (take (nat (end1 - offset)) (drop (nat offset) result)))"

definition memDeleteAccount :: "string \<Rightarrow> user_mem \<Rightarrow> users_error option \<times> user_mem" where
  "memDeleteAccount userID st = (None, del userID st)"

definition memVerifyEmail :: "string \<Rightarrow> user_mem \<Rightarrow> users_error option \<times> user_mem" where
  "memVerifyEmail userID st = (None, st)"

definition inMemoryUserStore ::
  "((string \<times> profile) list \<Rightarrow> (string \<times> profile) list) \<Rightarrow> time \<Rightarrow> user_mem users_ops" where
  "inMemoryUserStore shuffle now =
     \<lparr>uoGetProfile = memGetProfile, uoUpdateProfile = memUpdateProfile now,
      uoListPublicProfiles = memListPublic shuffle, uoDeleteAccount = memDeleteAccount,
      uoVerifyEmail = memVerifyEmail\<rparr>"

section \<open>Handlers\<close>

definition usersUserID :: "req_context \<Rightarrow> string" where
  "usersUserID ctx = ctxString UsersUserID ctx"

definition writeUsersError :: "users_error \<Rightarrow> 'b http_response" where
  "writeUsersError e =
     (case e of
        UsersNotFound \<Rightarrow> WriteError StatusNotFound ''user not found''
      | UsersInvalidInput \<Rightarrow> WriteError StatusBadRequest ''invalid input''
      | UsersAlreadyExists \<Rightarrow> WriteError StatusConflict ''resource already exists''
      | UsersFailure \<Rightarrow> WriteError StatusInternalServerError ''internal error'')"

definition getMeHandler :: "'st users_ops \<Rightarrow> req_context \<Rightarrow> 'st \<Rightarrow> profile http_response" where
  "getMeHandler ops ctx st =
     (let userID = usersUserID ctx
      in if userID = '''' then WriteError StatusUnauthorized ''unauthorized''
         else case GetProfile ops userID st of
                Inl e \<Rightarrow> writeUsersError e
              | Inr p \<Rightarrow> WriteJSON StatusOK p)"

definition updateMeHandler ::
  "'st users_ops \<Rightarrow> req_context \<Rightarrow> string + update_request \<Rightarrow> 'st \<Rightarrow> profile http_response \<times> 'st" where
  "updateMeHandler ops ctx body st =
     (let userID = usersUserID ctx
      in if userID = '''' then (WriteError StatusUnauthorized ''unauthorized'', st)
         else case body of
                Inl _ \<Rightarrow> (WriteError StatusBadRequest ''invalid request body'', st)
              | Inr req \<Rightarrow>
                  (case UpdateProfile ops userID req st of
                     (Inl e, st') \<Rightarrow> (writeUsersError e, st')
                   | (Inr p, st') \<Rightarrow> (WriteJSON StatusOK p, st')))"

definition deleteMeHandler :: "'st users_ops \<Rightarrow> req_context \<Rightarrow> 'st \<Rightarrow> string http_response \<times> 'st" where
  "deleteMeHandler ops ctx st =
     (let userID = usersUserID ctx
      in if userID = '''' then (WriteError StatusUnauthorized ''unauthorized'', st)
         else case DeleteAccount ops userID st of
                (Some e, st') \<Rightarrow> (writeUsersError e, st')
              | (None, st') \<Rightarrow> (WriteJSON StatusNoContent '''', st'))"

text \<open>A query parameter that is absent is the empty string.\<close>

definition listPublicHandler :: "'st users_ops \<Rightarrow> string \<Rightarrow> string \<Rightarrow> 'st \<Rightarrow> profile list http_response" where
  "listPublicHandler ops limitText offsetText st =
     (let limit = (if limitText = '''' then 50
                   else case parseInt64 (trim_space limitText) of
                          None \<Rightarrow> 50 | Some n \<Rightarrow> if n > 0 then n else 50);
          offset = (if offsetText = '''' then 0
                    else case parseInt64 (trim_space offsetText) of
                           None \<Rightarrow> 0 | Some n \<Rightarrow> if n \<ge> 0 then n else 0)
      in case ListPublicProfiles ops limit offset st of
           Inl e \<Rightarrow> writeUsersError e
         | Inr ps \<Rightarrow> WriteJSON StatusOK ps)"

section \<open>What a profile store promises\<close>

locale user_store =
  fixes ops :: "'st users_ops"
    and known :: "'st \<Rightarrow> string \<Rightarrow> profile option"
    and ok :: "'st \<Rightarrow> bool"
    and born :: "string \<Rightarrow> profile"
  assumes get_known: "uoGetProfile ops u st = (case known st u of None \<Rightarrow> Inl UsersNotFound | Some p \<Rightarrow> Inr p)"
    and update_known: "ok st \<Longrightarrow> \<exists>st'. uoUpdateProfile ops u req st =
        (Inr (applyUpdate req (case known st u of None \<Rightarrow> born u | Some p \<Rightarrow> p)), st') \<and> ok st' \<and>
        known st' = (known st)(u \<mapsto> applyUpdate req (case known st u of None \<Rightarrow> born u | Some p \<Rightarrow> p))"
    and delete_known: "ok st \<Longrightarrow> \<exists>st'. uoDeleteAccount ops u st = (None, st') \<and> ok st' \<and> known st' = (known st)(u := None)"
    and list_known: "ok st \<Longrightarrow> 0 < limit \<Longrightarrow> 0 \<le> offset \<Longrightarrow>
        \<exists>ps. uoListPublicProfiles ops limit offset st = Inr ps \<and> int (length ps) \<le> limit \<and>
          (\<forall>p \<in> set ps. pfIsPublic p \<and> (\<exists>u. known st u = Some p))"
begin

lemma update_then_get:
  assumes "ok st" and "u \<noteq> ''''" and "validateUpdate req = None"
  shows "\<exists>st'. UpdateProfile ops u req st = (Inr (applyUpdate req (case known st u of None \<Rightarrow> born u | Some p \<Rightarrow> p)), st') \<and>
    ok st' \<and> GetProfile ops u st' = Inr (applyUpdate req (case known st u of None \<Rightarrow> born u | Some p \<Rightarrow> p)) \<and>
    (\<forall>v. v \<noteq> u \<longrightarrow> GetProfile ops v st' = GetProfile ops v st)"
  using update_known [OF assms(1), of u req] assms(2,3)
  by (auto simp: UpdateProfile_def GetProfile_def get_known)

lemma delete_then_get:
  assumes "ok st" and "u \<noteq> ''''"
  shows "\<exists>st'. DeleteAccount ops u st = (None, st') \<and> ok st' \<and> GetProfile ops u st' = Inl UsersNotFound \<and>
    (\<forall>v. v \<noteq> u \<longrightarrow> GetProfile ops v st' = GetProfile ops v st)"
  using delete_known [OF assms(1), of u] assms(2) by (auto simp: DeleteAccount_def GetProfile_def get_known)

lemma listing_safe:
  assumes "ok st"
  shows "\<exists>ps. ListPublicProfiles ops limit offset st = Inr ps \<and> length ps \<le> 100 \<and>
    (\<forall>p \<in> set ps. pfIsPublic p \<and> (\<exists>u. known st u = Some p))"
proof -
  let ?l = "if limit \<le> 0 \<or> limit > 100 then 50 else limit"
  let ?o = "if offset < 0 then 0 else offset"
  have l: "0 < ?l" "?l \<le> 100" and o: "0 \<le> ?o" by simp_all
  from list_known [OF assms l(1) o] obtain ps where ps: "uoListPublicProfiles ops ?l ?o st = Inr ps"
      "int (length ps) \<le> ?l" "\<forall>p \<in> set ps. pfIsPublic p \<and> (\<exists>u. known st u = Some p)" by blast
  have "ListPublicProfiles ops limit offset st = Inr ps" using ps(1) by (simp add: ListPublicProfiles_def Let_def)
  moreover have "length ps \<le> 100" using ps(2) l(2) by linarith
  ultimately show ?thesis using ps(3) by blast
qed

end

lemma user_store_mem:
  assumes "\<And>st. map_order st (shuffle st)"
  shows "user_store (inMemoryUserStore shuffle now) map_of wf_map (\<lambda>u. emptyProfile u now)"
proof
  fix st :: user_mem and limit offset :: int
  assume wf: "wf_map st" and "0 < limit" "0 \<le> offset"
  have ranged: "set (shuffle st) = set st" using assms [of st] by (metis map_order_def set_mset_mset)
  let ?result = "filter pfIsPublic (map snd (shuffle st))"
  have "\<exists>ps. memListPublic shuffle limit offset st = Inr ps \<and> int (length ps) \<le> limit \<and> set ps \<subseteq> set ?result"
  proof (cases "int (length ?result) \<le> offset")
    case True
    with \<open>0 < limit\<close> show ?thesis by (simp add: memListPublic_def Let_def)
  next
    case False
    let ?stop = "if offset + limit > int (length ?result) then int (length ?result) else offset + limit"
    let ?ps = "take (nat (?stop - offset)) (drop (nat offset) ?result)"
    have "memListPublic shuffle limit offset st = Inr ?ps"
      using False by (simp only: memListPublic_def Let_def if_False)
    moreover have "int (length ?ps) \<le> limit"
    proof -
      have "length ?ps \<le> nat (?stop - offset)" by simp
      moreover have "?stop - offset \<le> limit" by auto
      ultimately show ?thesis using \<open>0 < limit\<close> by linarith
    qed
    moreover have "set ?ps \<subseteq> set ?result"
      using set_take_subset [of "nat (?stop - offset)" "drop (nat offset) ?result"] set_drop_subset [of "nat offset" ?result]
      by (rule subset_trans)
    ultimately show ?thesis by blast
  qed
  moreover have "pfIsPublic p \<and> (\<exists>u. map_of st u = Some p)" if "p \<in> set ?result" for p
    using that ranged wf in_set_map_of [OF wf] by force
  ultimately show "\<exists>ps. uoListPublicProfiles (inMemoryUserStore shuffle now) limit offset st = Inr ps \<and>
      int (length ps) \<le> limit \<and> (\<forall>p \<in> set ps. pfIsPublic p \<and> (\<exists>u. map_of st u = Some p))"
    unfolding inMemoryUserStore_def users_ops.simps by blast
qed (simp_all add: inMemoryUserStore_def memGetProfile_def memUpdateProfile_def memDeleteAccount_def Let_def)

interpretation usr: user_store "inMemoryUserStore id now" map_of wf_map "\<lambda>u. emptyProfile u now" for now
  by (rule user_store_mem) (simp add: map_order_def)

section \<open>Properties\<close>

text \<open>
  A valid update is what the next read of the profile returns: the non-empty fields
  replaced, the others kept, a new profile where there was none; no other user's profile
  changes.
\<close>

theorem users_update_read:
  assumes "wf_map st" and "u \<noteq> ''''" and "validateUpdate req = None"
  shows "\<exists>st' p. UpdateProfile (inMemoryUserStore id now) u req st = (Inr p, st') \<and> wf_map st' \<and>
    p = applyUpdate req (case map_of st u of None \<Rightarrow> emptyProfile u now | Some old \<Rightarrow> old) \<and>
    GetProfile (inMemoryUserStore id now) u st' = Inr p \<and>
    (\<forall>v. v \<noteq> u \<longrightarrow> GetProfile (inMemoryUserStore id now) v st' = GetProfile (inMemoryUserStore id now) v st)"
  using usr.update_then_get [OF assms] by blast

definition exUpdate :: update_request where
  "exUpdate = \<lparr>urDisplayName = ''Ann'', urBio = '''', urAvatarURL = '''', urIsPublic = Some True\<rparr>"

theorem users_update_read_witness:
  "\<exists>st' p. UpdateProfile (inMemoryUserStore id 5) ''u'' exUpdate [] = (Inr p, st') \<and>
     GetProfile (inMemoryUserStore id 5) ''u'' st' = Inr p \<and> pfDisplayName p = ''Ann''"
proof -
  have "validateUpdate exUpdate = None" by (simp add: validateUpdate_def exUpdate_def)
  from users_update_read [OF _ _ this, of "[]" "''u''" 5] show ?thesis
    by (auto simp: applyUpdate_def exUpdate_def)
qed

text \<open>
  Whatever order Go ranges over the profiles in and whatever paging a client asks for, a
  listing has at most 100 entries, all of them profiles that exist and are public.
\<close>

theorem users_listing_public:
  assumes "wf_map st" and "\<forall>m. map_order m (shuffle m)"
  shows "\<exists>ps. ListPublicProfiles (inMemoryUserStore shuffle now) limit offset st = Inr ps \<and> length ps \<le> 100 \<and>
    (\<forall>p \<in> set ps. pfIsPublic p \<and> (\<exists>u. map_of st u = Some p))"
  by (rule user_store.listing_safe [OF user_store_mem assms(1)]) (use assms(2) in blast)

theorem users_listing_public_witness:
  "\<exists>ps. ListPublicProfiles (inMemoryUserStore rev 5) 10 0
      [(''a'', (emptyProfile ''a'' 1)\<lparr>pfIsPublic := True\<rparr>), (''b'', emptyProfile ''b'' 1)] = Inr ps \<and> length ps \<le> 100"
proof -
  have wf: "wf_map [(''a'', (emptyProfile ''a'' 1)\<lparr>pfIsPublic := True\<rparr>), (''b'', emptyProfile ''b'' 1)]"
    by (simp add: wf_map_def)
  have "\<forall>m :: (string \<times> profile) list. map_order m (rev m)" by (simp add: map_order_def)
  from users_listing_public [OF wf this, of 5 10 0] show ?thesis by blast
qed

end
