(* ===== verification/Devices.thy ===== *)
theory Devices
  imports Httpx
begin

text \<open>
  Device registrations: the service and handlers of \<open>backend/devices/\<close>, and the in-memory
  store of \<open>backend/stores.go\<close>. The \<open>Store\<close> interface is the record \<open>device_ops\<close> over any
  state; what a store promises is the locale \<open>device_store\<close>, stated over the view
  \<open>user \<Rightarrow> device \<Rightarrow> registration\<close>, and interpreted on the in-memory store. The order in
  which Go ranges over a user's devices is the argument \<open>shuffle\<close>.
\<close>

section \<open>Data\<close>

datatype device_error = DeviceNotFound | DeviceInvalidInput | DeviceMaxDevices | DeviceFailure

record device =
  dvID :: string
  dvUserID :: string
  dvName :: string
  dvPlatform :: string
  dvTrusted :: bool
  dvCreatedAt :: time
  dvLastSeenAt :: time
  dvLastSyncAt :: time

record register_request =
  rqID :: string
  rqName :: string
  rqPlatform :: string

definition MaxDevicesPerUser :: nat where
  "MaxDevicesPerUser = 20"

definition validateRegister :: "register_request \<Rightarrow> device_error option" where
  "validateRegister r =
     (if rqID r = '''' \<or> length (rqID r) > 128 then Some DeviceInvalidInput
      else if length (rqName r) > 256 then Some DeviceInvalidInput
      else if length (rqPlatform r) > 64 then Some DeviceInvalidInput
      else None)"

section \<open>The store interface and the service\<close>

record 'st device_ops =
  doRegister :: "string \<Rightarrow> register_request \<Rightarrow> 'st \<Rightarrow> (device_error + device) \<times> 'st"
  doGet :: "string \<Rightarrow> string \<Rightarrow> 'st \<Rightarrow> device_error + device"
  doList :: "string \<Rightarrow> 'st \<Rightarrow> device_error + device list"
  doUpdateLastSeen :: "string \<Rightarrow> string \<Rightarrow> time \<Rightarrow> 'st \<Rightarrow> device_error option \<times> 'st"
  doUpdateLastSync :: "string \<Rightarrow> string \<Rightarrow> time \<Rightarrow> 'st \<Rightarrow> device_error option \<times> 'st"
  doRevoke :: "string \<Rightarrow> string \<Rightarrow> 'st \<Rightarrow> device_error option \<times> 'st"
  doRevokeAll :: "string \<Rightarrow> string \<Rightarrow> 'st \<Rightarrow> device_error option \<times> 'st"
  doSetTrusted :: "string \<Rightarrow> string \<Rightarrow> bool \<Rightarrow> 'st \<Rightarrow> device_error option \<times> 'st"

definition svcRegister ::
  "'st device_ops \<Rightarrow> string \<Rightarrow> register_request \<Rightarrow> 'st \<Rightarrow> (device_error + device) \<times> 'st" where
  "svcRegister ops userID req st =
     (if userID = '''' then (Inl DeviceInvalidInput, st)
      else case validateRegister req of
             Some e \<Rightarrow> (Inl e, st)
           | None \<Rightarrow> doRegister ops userID req st)"

definition svcGet :: "'st device_ops \<Rightarrow> string \<Rightarrow> string \<Rightarrow> 'st \<Rightarrow> device_error + device" where
  "svcGet ops userID deviceID st =
     (if userID = '''' \<or> deviceID = '''' then Inl DeviceInvalidInput else doGet ops userID deviceID st)"

definition svcList :: "'st device_ops \<Rightarrow> string \<Rightarrow> 'st \<Rightarrow> device_error + device list" where
  "svcList ops userID st = (if userID = '''' then Inl DeviceInvalidInput else doList ops userID st)"

definition svcTouch :: "'st device_ops \<Rightarrow> time \<Rightarrow> string \<Rightarrow> string \<Rightarrow> 'st \<Rightarrow> device_error option \<times> 'st" where
  "svcTouch ops now userID deviceID st = doUpdateLastSeen ops userID deviceID now st"

definition svcRevoke :: "'st device_ops \<Rightarrow> string \<Rightarrow> string \<Rightarrow> 'st \<Rightarrow> device_error option \<times> 'st" where
  "svcRevoke ops userID deviceID st =
     (if userID = '''' \<or> deviceID = '''' then (Some DeviceInvalidInput, st)
      else doRevoke ops userID deviceID st)"

definition svcRevokeAll :: "'st device_ops \<Rightarrow> string \<Rightarrow> string \<Rightarrow> 'st \<Rightarrow> device_error option \<times> 'st" where
  "svcRevokeAll ops userID exceptDeviceID st =
     (if userID = '''' then (Some DeviceInvalidInput, st)
      else doRevokeAll ops userID exceptDeviceID st)"

definition svcSetTrusted ::
  "'st device_ops \<Rightarrow> string \<Rightarrow> string \<Rightarrow> bool \<Rightarrow> 'st \<Rightarrow> device_error option \<times> 'st" where
  "svcSetTrusted ops userID deviceID trusted st =
     (if userID = '''' \<or> deviceID = '''' then (Some DeviceInvalidInput, st)
      else doSetTrusted ops userID deviceID trusted st)"

section \<open>The in-memory store\<close>

type_synonym device_mem = "(string, (string, device) gomap) gomap"

definition memRegister ::
  "time \<Rightarrow> string \<Rightarrow> register_request \<Rightarrow> device_mem \<Rightarrow> (device_error + device) \<times> device_mem" where
  "memRegister now userID req st =
     (let d = \<lparr>dvID = rqID req, dvUserID = userID, dvName = rqName req, dvPlatform = rqPlatform req,
               dvTrusted = False, dvCreatedAt = now, dvLastSeenAt = now, dvLastSyncAt = zero_time\<rparr>
      in (Inr d, put userID (put (rqID req) d (get_or [] st userID)) st))"

definition memGet :: "string \<Rightarrow> string \<Rightarrow> device_mem \<Rightarrow> device_error + device" where
  "memGet userID deviceID st =
     (case map_of st userID of
        Some userDevs \<Rightarrow>
          (case map_of userDevs deviceID of Some d \<Rightarrow> Inr d | None \<Rightarrow> Inl DeviceNotFound)
      | None \<Rightarrow> Inl DeviceNotFound)"

definition memList ::
  "((string \<times> device) list \<Rightarrow> (string \<times> device) list) \<Rightarrow> string \<Rightarrow> device_mem \<Rightarrow> device_error + device list" where
  "memList shuffle userID st = Inr (map snd (shuffle (get_or [] st userID)))"

text \<open>The write through the pointer that the three updates of one field share.\<close>

definition alterDevice :: "(device \<Rightarrow> device) \<Rightarrow> string \<Rightarrow> string \<Rightarrow> device_mem \<Rightarrow> device_mem" where
  "alterDevice f userID deviceID st =
     (case map_of st userID of
        Some userDevs \<Rightarrow>
          (case map_of userDevs deviceID of
             Some d \<Rightarrow> put userID (put deviceID (f d) userDevs) st
           | None \<Rightarrow> st)
      | None \<Rightarrow> st)"

definition memUpdateLastSeen :: "string \<Rightarrow> string \<Rightarrow> time \<Rightarrow> device_mem \<Rightarrow> device_error option \<times> device_mem" where
  "memUpdateLastSeen userID deviceID at st = (None, alterDevice (dvLastSeenAt_update (\<lambda>_. at)) userID deviceID st)"

definition memUpdateLastSync :: "string \<Rightarrow> string \<Rightarrow> time \<Rightarrow> device_mem \<Rightarrow> device_error option \<times> device_mem" where
  "memUpdateLastSync userID deviceID at st = (None, alterDevice (dvLastSyncAt_update (\<lambda>_. at)) userID deviceID st)"

definition memRevoke :: "string \<Rightarrow> string \<Rightarrow> device_mem \<Rightarrow> device_error option \<times> device_mem" where
  "memRevoke userID deviceID st =
     (None, case map_of st userID of Some userDevs \<Rightarrow> put userID (del deviceID userDevs) st | None \<Rightarrow> st)"

definition memRevokeAll :: "string \<Rightarrow> string \<Rightarrow> device_mem \<Rightarrow> device_error option \<times> device_mem" where
  "memRevokeAll userID exceptDeviceID st =
     (None, case map_of st userID of
              Some userDevs \<Rightarrow> put userID (filter (\<lambda>p. fst p = exceptDeviceID) userDevs) st
            | None \<Rightarrow> st)"

definition memSetTrusted :: "string \<Rightarrow> string \<Rightarrow> bool \<Rightarrow> device_mem \<Rightarrow> device_error option \<times> device_mem" where
  "memSetTrusted userID deviceID trusted st = (None, alterDevice (dvTrusted_update (\<lambda>_. trusted)) userID deviceID st)"

definition inMemoryDeviceStore ::
  "((string \<times> device) list \<Rightarrow> (string \<times> device) list) \<Rightarrow> time \<Rightarrow> device_mem device_ops" where
  "inMemoryDeviceStore shuffle now =
     \<lparr>doRegister = memRegister now, doGet = memGet, doList = memList shuffle,
      doUpdateLastSeen = memUpdateLastSeen, doUpdateLastSync = memUpdateLastSync,
      doRevoke = memRevoke, doRevokeAll = memRevokeAll, doSetTrusted = memSetTrusted\<rparr>"

section \<open>Handlers\<close>

definition devicesUserID :: "req_context \<Rightarrow> string" where
  "devicesUserID ctx = ctxString DevicesUserID ctx"

definition DevicesWithUserID :: "req_context \<Rightarrow> string \<Rightarrow> req_context" where
  "DevicesWithUserID ctx userID = (DevicesUserID, userID) # ctx"

definition writeDeviceError :: "device_error \<Rightarrow> 'b http_response" where
  "writeDeviceError e =
     (case e of
        DeviceNotFound \<Rightarrow> WriteError StatusNotFound ''device not found''
      | DeviceInvalidInput \<Rightarrow> WriteError StatusBadRequest ''invalid input''
      | DeviceMaxDevices \<Rightarrow> WriteError StatusTooManyRequests ''maximum device limit reached''
      | DeviceFailure \<Rightarrow> WriteError StatusInternalServerError ''internal error'')"

definition registerDeviceHandler ::
  "'st device_ops \<Rightarrow> req_context \<Rightarrow> string + register_request \<Rightarrow> 'st \<Rightarrow> device http_response \<times> 'st" where
  "registerDeviceHandler ops ctx body st =
     (let userID = devicesUserID ctx
      in if userID = '''' then (WriteError StatusUnauthorized ''unauthorized'', st)
         else case body of
                Inl _ \<Rightarrow> (WriteError StatusBadRequest ''invalid request body'', st)
              | Inr req \<Rightarrow>
                  (case svcRegister ops userID req st of
                     (Inl e, st') \<Rightarrow> (writeDeviceError e, st')
                   | (Inr d, st') \<Rightarrow> (WriteJSON StatusCreated d, st')))"

definition listDevicesHandler :: "'st device_ops \<Rightarrow> req_context \<Rightarrow> 'st \<Rightarrow> device list http_response" where
  "listDevicesHandler ops ctx st =
     (let userID = devicesUserID ctx
      in if userID = '''' then WriteError StatusUnauthorized ''unauthorized''
         else case svcList ops userID st of
                Inl e \<Rightarrow> writeDeviceError e
              | Inr ds \<Rightarrow> WriteJSON StatusOK ds)"

definition getDeviceHandler :: "'st device_ops \<Rightarrow> req_context \<Rightarrow> string \<Rightarrow> 'st \<Rightarrow> device http_response" where
  "getDeviceHandler ops ctx deviceID st =
     (let userID = devicesUserID ctx
      in if userID = '''' then WriteError StatusUnauthorized ''unauthorized''
         else case svcGet ops userID deviceID st of
                Inl e \<Rightarrow> writeDeviceError e
              | Inr d \<Rightarrow> WriteJSON StatusOK d)"

definition revokeDeviceHandler ::
  "'st device_ops \<Rightarrow> req_context \<Rightarrow> string \<Rightarrow> 'st \<Rightarrow> string http_response \<times> 'st" where
  "revokeDeviceHandler ops ctx deviceID st =
     (let userID = devicesUserID ctx
      in if userID = '''' then (WriteError StatusUnauthorized ''unauthorized'', st)
         else case svcRevoke ops userID deviceID st of
                (Some e, st') \<Rightarrow> (writeDeviceError e, st')
              | (None, st') \<Rightarrow> (WriteJSON StatusNoContent '''', st'))"

definition revokeAllDevicesHandler ::
  "'st device_ops \<Rightarrow> req_context \<Rightarrow> string \<Rightarrow> 'st \<Rightarrow> string http_response \<times> 'st" where
  "revokeAllDevicesHandler ops ctx exceptDevice st =
     (let userID = devicesUserID ctx
      in if userID = '''' then (WriteError StatusUnauthorized ''unauthorized'', st)
         else case svcRevokeAll ops userID exceptDevice st of
                (Some e, st') \<Rightarrow> (writeDeviceError e, st')
              | (None, st') \<Rightarrow> (WriteJSON StatusNoContent '''', st'))"

definition setTrustHandler ::
  "'st device_ops \<Rightarrow> req_context \<Rightarrow> string \<Rightarrow> string + bool \<Rightarrow> 'st \<Rightarrow> string http_response \<times> 'st" where
  "setTrustHandler ops ctx deviceID body st =
     (let userID = devicesUserID ctx
      in if userID = '''' then (WriteError StatusUnauthorized ''unauthorized'', st)
         else case body of
                Inl _ \<Rightarrow> (WriteError StatusBadRequest ''invalid request body'', st)
              | Inr trusted \<Rightarrow>
                  (case svcSetTrusted ops userID deviceID trusted st of
                     (Some e, st') \<Rightarrow> (writeDeviceError e, st')
                   | (None, st') \<Rightarrow> (WriteJSON StatusOK '''', st')))"

text \<open>The middleware touches the device and runs the wrapped handler whatever the store says.\<close>

definition TouchMiddleware ::
  "'st device_ops \<Rightarrow> time \<Rightarrow> (req_context \<Rightarrow> 'st \<Rightarrow> 'b http_response \<times> 'st) \<Rightarrow> req_context \<Rightarrow> string \<Rightarrow>
   'st \<Rightarrow> 'b http_response \<times> 'st" where
  "TouchMiddleware ops now nextHandler ctx deviceID st =
     (let userID = devicesUserID ctx;
          st' = (if userID \<noteq> '''' \<and> deviceID \<noteq> '''' then snd (doUpdateLastSeen ops userID deviceID now st) else st)
      in nextHandler ctx st')"

section \<open>The abstract registry\<close>

text \<open>What the service promises, over the registrations of each user by device identity.\<close>

type_synonym registry = "string \<Rightarrow> string \<Rightarrow> device option"

definition newDevice :: "time \<Rightarrow> string \<Rightarrow> register_request \<Rightarrow> device" where
  "newDevice now userID req = \<lparr>dvID = rqID req, dvUserID = userID, dvName = rqName req,
     dvPlatform = rqPlatform req, dvTrusted = False, dvCreatedAt = now, dvLastSeenAt = now,
     dvLastSyncAt = zero_time\<rparr>"

definition alterRow :: "(device \<Rightarrow> device) \<Rightarrow> string \<Rightarrow> string \<Rightarrow> registry \<Rightarrow> registry" where
  "alterRow f u i k = k(u := (k u)(i := map_option f (k u i)))"

datatype device_call =
    CallRegister time string register_request
  | CallTouch time string string
  | CallRevoke string string
  | CallRevokeAll string string
  | CallSetTrusted string string bool

fun specCall :: "device_call \<Rightarrow> registry \<Rightarrow> registry" where
  "specCall (CallRegister now u req) k =
     (if u = '''' \<or> validateRegister req \<noteq> None then k
      else k(u := (k u)(rqID req \<mapsto> newDevice now u req)))"
| "specCall (CallTouch now u i) k = alterRow (dvLastSeenAt_update (\<lambda>_. now)) u i k"
| "specCall (CallRevoke u i) k = (if u = '''' \<or> i = '''' then k else k(u := (k u)(i := None)))"
| "specCall (CallRevokeAll u i) k = (if u = '''' then k else k(u := (k u) |` {i}))"
| "specCall (CallSetTrusted u i b) k =
     (if u = '''' \<or> i = '''' then k else alterRow (dvTrusted_update (\<lambda>_. b)) u i k)"

fun runCall :: "(time \<Rightarrow> 'st device_ops) \<Rightarrow> device_call \<Rightarrow> 'st \<Rightarrow> 'st" where
  "runCall ops (CallRegister now u req) st = snd (svcRegister (ops now) u req st)"
| "runCall ops (CallTouch now u i) st = snd (svcTouch (ops now) now u i st)"
| "runCall ops (CallRevoke u i) st = snd (svcRevoke (ops 0) u i st)"
| "runCall ops (CallRevokeAll u i) st = snd (svcRevokeAll (ops 0) u i st)"
| "runCall ops (CallSetTrusted u i b) st = snd (svcSetTrusted (ops 0) u i b st)"

definition ownRows :: "registry \<Rightarrow> bool" where
  "ownRows k \<longleftrightarrow> (\<forall>u i d. k u i = Some d \<longrightarrow> dvUserID d = u \<and> dvID d = i \<and> i \<noteq> '''')"

lemma ownRows_specCall: "ownRows k \<Longrightarrow> ownRows (specCall c k)"
  by (cases c) (auto simp: ownRows_def newDevice_def alterRow_def validateRegister_def restrict_map_def
      split: if_splits)

lemma ownRows_fold: "ownRows k \<Longrightarrow> ownRows (fold specCall cs k)"
  by (induction cs arbitrary: k) (auto intro: ownRows_specCall)

section \<open>What a device store promises\<close>

locale device_store =
  fixes ops :: "time \<Rightarrow> 'st device_ops"
    and known :: "'st \<Rightarrow> registry"
    and ok :: "'st \<Rightarrow> bool"
  assumes register_known: "ok st \<Longrightarrow> \<exists>st'. doRegister (ops now) u req st = (Inr (newDevice now u req), st') \<and>
        ok st' \<and> known st' = (known st)(u := (known st u)(rqID req \<mapsto> newDevice now u req))"
    and seen_known: "ok st \<Longrightarrow> \<exists>st'. doUpdateLastSeen (ops now) u i at st = (None, st') \<and> ok st' \<and>
        known st' = alterRow (dvLastSeenAt_update (\<lambda>_. at)) u i (known st)"
    and revoke_known: "ok st \<Longrightarrow> \<exists>st'. doRevoke (ops now) u i st = (None, st') \<and> ok st' \<and>
        known st' = (known st)(u := (known st u)(i := None))"
    and revoke_all_known: "ok st \<Longrightarrow> \<exists>st'. doRevokeAll (ops now) u i st = (None, st') \<and> ok st' \<and>
        known st' = (known st)(u := (known st u) |` {i})"
    and trust_known: "ok st \<Longrightarrow> \<exists>st'. doSetTrusted (ops now) u i b st = (None, st') \<and> ok st' \<and>
        known st' = alterRow (dvTrusted_update (\<lambda>_. b)) u i (known st)"
    and get_known: "doGet (ops now) u i st = (case known st u i of None \<Rightarrow> Inl DeviceNotFound | Some d \<Rightarrow> Inr d)"
    and list_known: "ok st \<Longrightarrow> \<exists>is. doList (ops now) u st = Inr (map (\<lambda>i. the (known st u i)) is) \<and>
        distinct is \<and> set is = dom (known st u)"
begin

lemma call_refines: "ok st \<Longrightarrow> ok (runCall ops c st) \<and> known (runCall ops c st) = specCall c (known st)"
proof (cases c)
  case (CallRegister now u req)
  assume "ok st"
  from register_known [OF this, of now u req] show ?thesis
    by (auto simp: CallRegister svcRegister_def \<open>ok st\<close> split: option.splits)
next
  case (CallTouch now u i)
  assume "ok st"
  from seen_known [OF this, of now u i now] show ?thesis by (auto simp: CallTouch svcTouch_def)
next
  case (CallRevoke u i)
  assume "ok st"
  from revoke_known [OF this, of 0 u i] show ?thesis by (auto simp: CallRevoke svcRevoke_def \<open>ok st\<close>)
next
  case (CallRevokeAll u i)
  assume "ok st"
  from revoke_all_known [OF this, of 0 u i] show ?thesis by (auto simp: CallRevokeAll svcRevokeAll_def \<open>ok st\<close>)
next
  case (CallSetTrusted u i b)
  assume "ok st"
  from trust_known [OF this, of 0 u i b] show ?thesis by (auto simp: CallSetTrusted svcSetTrusted_def \<open>ok st\<close>)
qed

lemma calls_refine: "ok st \<Longrightarrow> ok (fold (runCall ops) cs st) \<and>
    known (fold (runCall ops) cs st) = fold specCall cs (known st)"
  by (induction cs arbitrary: st) (simp_all add: call_refines)

lemma listing_exact:
  assumes ok: "ok st" and own: "ownRows (known st)" and u: "u \<noteq> ''''"
  shows "\<exists>ds. svcList (ops now) u st = Inr ds \<and> distinct (map dvID ds) \<and> set ds = ran (known st u) \<and>
    (\<forall>d. d \<in> set ds \<longrightarrow> dvUserID d = u \<and> svcGet (ops now) u (dvID d) st = Inr d)"
proof -
  from list_known [OF ok, of now u] obtain "is" where l: "doList (ops now) u st = Inr (map (\<lambda>i. the (known st u i)) is)"
    and d: "distinct is" and s: "set is = dom (known st u)" by blast
  let ?ds = "map (\<lambda>i. the (known st u i)) is"
  have ids: "dvID (the (known st u i)) = i" if "i \<in> set is" for i
    using that own s by (auto simp: ownRows_def)
  have "map dvID ?ds = is" by (simp add: ids map_idI)
  with d have "distinct (map dvID ?ds)" by simp
  moreover have "set ?ds = ran (known st u)" using s by (force simp: ran_def)
  moreover have "dvUserID d = u \<and> svcGet (ops now) u (dvID d) st = Inr d" if "d \<in> set ?ds" for d
  proof -
    from that s obtain i where "known st u i = Some d" by auto
    with own u show ?thesis by (auto simp: ownRows_def svcGet_def get_known)
  qed
  ultimately show ?thesis using l u by (simp add: svcList_def)
qed

end

text \<open>The in-memory store, seen as a registry.\<close>

definition memKnown :: "device_mem \<Rightarrow> registry" where
  "memKnown st u i = (case map_of st u of None \<Rightarrow> None | Some userDevs \<Rightarrow> map_of userDevs i)"

definition memDevicesOK :: "device_mem \<Rightarrow> bool" where
  "memDevicesOK st \<longleftrightarrow> (\<forall>u userDevs. map_of st u = Some userDevs \<longrightarrow> wf_map userDevs)"

lemma memKnown_get_or: "memKnown st u = map_of (get_or [] st u)"
  by (auto simp: memKnown_def get_or_def fun_eq_iff split: option.splits)

lemma memDevicesOK_get_or: "memDevicesOK st \<Longrightarrow> wf_map (get_or [] st u)"
  by (auto simp: memDevicesOK_def get_or_def split: option.splits)

lemma memKnown_put: "memKnown (put u devs st) = (memKnown st)(u := map_of devs)"
  by (auto simp: memKnown_def fun_eq_iff)

lemma memDevicesOK_put: "memDevicesOK st \<Longrightarrow> wf_map devs \<Longrightarrow> memDevicesOK (put u devs st)"
  by (auto simp: memDevicesOK_def split: if_splits)

lemma memDevicesOK_lookup: "memDevicesOK st \<Longrightarrow> map_of st u = Some devs \<Longrightarrow> wf_map devs"
  by (simp add: memDevicesOK_def)

lemma memKnown_Some: "map_of st u = Some devs \<Longrightarrow> memKnown st u = map_of devs"
  by (simp add: memKnown_def fun_eq_iff)

lemma memKnown_None: "map_of st u = None \<Longrightarrow> memKnown st u = Map.empty"
  by (simp add: memKnown_def fun_eq_iff)

lemma alterDevice_known: "memDevicesOK st \<Longrightarrow> memDevicesOK (alterDevice f u i st) \<and>
    memKnown (alterDevice f u i st) = alterRow f u i (memKnown st)"
  by (auto simp: alterDevice_def alterRow_def memKnown_put memKnown_Some memKnown_None
      memDevicesOK_put memDevicesOK_lookup fun_eq_iff split: option.splits)

lemma device_store_mem:
  assumes order: "\<And>devs. map_order devs (shuffle devs)"
  shows "device_store (inMemoryDeviceStore shuffle) memKnown memDevicesOK"
proof
  fix st now u req
  assume "memDevicesOK st"
  then show "\<exists>st'. doRegister (inMemoryDeviceStore shuffle now) u req st = (Inr (newDevice now u req), st') \<and>
      memDevicesOK st' \<and> memKnown st' = (memKnown st)(u := (memKnown st u)(rqID req \<mapsto> newDevice now u req))"
    by (simp add: inMemoryDeviceStore_def memRegister_def newDevice_def Let_def memDevicesOK_put
        memDevicesOK_get_or memKnown_put memKnown_get_or)
next
  fix st now u i
  assume "memDevicesOK st"
  then show "\<exists>st'. doRevoke (inMemoryDeviceStore shuffle now) u i st = (None, st') \<and> memDevicesOK st' \<and>
      memKnown st' = (memKnown st)(u := (memKnown st u)(i := None))"
    by (auto simp: inMemoryDeviceStore_def memRevoke_def memKnown_put memKnown_Some memKnown_None
        memDevicesOK_put memDevicesOK_lookup split: option.splits)
next
  fix st now u i
  assume ok: "memDevicesOK st"
  have "map_of (filter (\<lambda>p. fst p = i) devs) = map_of devs |` {i}" if "map_of st u = Some devs" for devs
    using map_of_filter [OF memDevicesOK_lookup [OF ok that], of "\<lambda>p. fst p = i"]
    by (auto simp: fun_eq_iff restrict_map_def split: option.splits)
  with ok show "\<exists>st'. doRevokeAll (inMemoryDeviceStore shuffle now) u i st = (None, st') \<and> memDevicesOK st' \<and>
      memKnown st' = (memKnown st)(u := (memKnown st u) |` {i})"
    by (auto simp: inMemoryDeviceStore_def memRevokeAll_def memKnown_put memKnown_Some memKnown_None
        memDevicesOK_put memDevicesOK_lookup split: option.splits)
next
  fix st now u
  assume ok: "memDevicesOK st"
  let ?devs = "get_or [] st u" and ?is = "map fst (shuffle (get_or [] st u))"
  have wf: "wf_map ?devs" by (rule memDevicesOK_get_or [OF ok])
  have s: "set (shuffle ?devs) = set ?devs" by (rule map_order_set [OF order])
  have "mset ?is = mset (map fst ?devs)" using order [of ?devs] by (simp add: map_order_def)
  then have "distinct ?is" using wf by (metis wf_map_def mset_eq_imp_distinct_iff)
  moreover have "set ?is = dom (memKnown st u)" by (simp add: memKnown_get_or s dom_map_of_conv_image_fst)
  moreover have "map snd (shuffle ?devs) = map (\<lambda>i. the (memKnown st u i)) ?is"
    using s in_set_map_of [OF wf] by (auto simp: memKnown_get_or)
  ultimately show "\<exists>is. doList (inMemoryDeviceStore shuffle now) u st = Inr (map (\<lambda>i. the (memKnown st u i)) is) \<and>
      distinct is \<and> set is = dom (memKnown st u)"
    by (intro exI [of _ ?is]) (simp add: inMemoryDeviceStore_def memList_def)
qed (auto simp: inMemoryDeviceStore_def memUpdateLastSeen_def memSetTrusted_def alterDevice_known
    memGet_def memKnown_def split: option.splits)

interpretation dev: device_store "inMemoryDeviceStore id" memKnown memDevicesOK
  by (rule device_store_mem) simp

lemma memDevicesOK_Nil: "memDevicesOK []" and memKnown_Nil: "memKnown [] = (\<lambda>_ _. None)"
  by (simp_all add: memDevicesOK_def memKnown_def fun_eq_iff)

text \<open>
  No state makes a registration fail with the limit error: \<open>MaxDevicesPerUser\<close> is not
  consulted.
\<close>

lemma devices_limit_unenforced:
  assumes "u \<noteq> ''''" and "validateRegister req = None"
  shows "fst (svcRegister (inMemoryDeviceStore shuffle now) u req st) = Inr (newDevice now u req)"
  using assms by (simp add: svcRegister_def inMemoryDeviceStore_def memRegister_def newDevice_def Let_def)

section \<open>Properties\<close>

text \<open>
  C32: The device service over the in-memory store refines the abstract registry: after any
  calls of any users the listing of a user holds every device registered and not revoked
  since, exactly once, with the fields the registry gives it, and only devices of that user.
  There is no bound on their number: another valid registration succeeds in any state, although
  \<open>MaxDevicesPerUser\<close> documents a maximum of 20.
\<close>

theorem devices_refine_registry:
  assumes "\<And>devs. map_order devs (shuffle devs)" and "u \<noteq> ''''"
  shows "(\<exists>ds. svcList (inMemoryDeviceStore shuffle now) u (fold (runCall (inMemoryDeviceStore shuffle)) cs []) = Inr ds \<and>
    distinct (map dvID ds) \<and> set ds = ran (fold specCall cs (\<lambda>_ _. None) u) \<and>
    (\<forall>d. d \<in> set ds \<longrightarrow> dvUserID d = u))
    \<and> (\<forall>req st. validateRegister req = None \<longrightarrow>
         fst (svcRegister (inMemoryDeviceStore shuffle now) u req st) = Inr (newDevice now u req))"
proof -
  note store = device_store_mem [of shuffle, OF assms(1)]
  from device_store.calls_refine [OF store memDevicesOK_Nil, of cs]
  have ok: "memDevicesOK (fold (runCall (inMemoryDeviceStore shuffle)) cs [])"
    and k: "memKnown (fold (runCall (inMemoryDeviceStore shuffle)) cs []) = fold specCall cs (\<lambda>_ _. None)"
    by (simp_all add: memKnown_Nil)
  have "ownRows (fold specCall cs (\<lambda>_ _. None))" by (rule ownRows_fold) (simp add: ownRows_def)
  from device_store.listing_exact [OF store ok, unfolded k, OF this assms(2)] show ?thesis
    using devices_limit_unenforced [OF assms(2)] by blast
qed

theorem devices_refine_registry_witness:
  "\<exists>ds. svcList (inMemoryDeviceStore rev 9) ''u''
       (fold (runCall (inMemoryDeviceStore rev))
          [CallRegister 1 ''u'' \<lparr>rqID = ''phone'', rqName = ''P'', rqPlatform = ''android''\<rparr>,
           CallRegister 2 ''u'' \<lparr>rqID = ''tablet'', rqName = ''T'', rqPlatform = ''ios''\<rparr>,
           CallSetTrusted ''u'' ''tablet'' True, CallRevokeAll ''v'' ''phone'', CallRevoke ''u'' ''phone''] []) = Inr ds \<and>
     set ds = {\<lparr>dvID = ''tablet'', dvUserID = ''u'', dvName = ''T'', dvPlatform = ''ios'', dvTrusted = True,
       dvCreatedAt = 2, dvLastSeenAt = 2, dvLastSyncAt = 0\<rparr>}"
  using devices_refine_registry [of rev "''u''" 9
      "[CallRegister 1 ''u'' \<lparr>rqID = ''phone'', rqName = ''P'', rqPlatform = ''android''\<rparr>,
        CallRegister 2 ''u'' \<lparr>rqID = ''tablet'', rqName = ''T'', rqPlatform = ''ios''\<rparr>,
        CallSetTrusted ''u'' ''tablet'' True, CallRevokeAll ''v'' ''phone'', CallRevoke ''u'' ''phone'']"]
  by (auto simp: map_order_def validateRegister_def newDevice_def alterRow_def ran_def restrict_map_def zero_time_def
      split: if_splits)

end
