(* ===== verification/Collab.thy ===== *)
theory Collab
  imports Httpx
begin

text \<open>
  Collaborative playlists: the service and handlers of \<open>backend/collaboration/\<close>, and the
  in-memory store of \<open>backend/stores.go\<close>, whose maps may be nil: an assignment to an entry
  of a nil map panics, which is the error \<open>CollabPanic\<close> (\<open>net/http\<close> recovers the panic and
  aborts the connection, the handler's response is then \<open>None\<close>). The \<open>Store\<close> interface is
  the record \<open>collab_ops\<close>, its contract the locale \<open>collab_store\<close>.
\<close>

section \<open>Data\<close>

datatype collab_error =
    CollabNotFound | CollabForbidden | CollabInvalidInput | CollabAlreadyMember
  | CollabInviteNotFound | CollabInviteExpired | CollabFailure | CollabPanic

type_synonym role = string

definition RoleOwner :: role where "RoleOwner = ''OWNER''"
definition RoleEditor :: role where "RoleEditor = ''EDITOR''"
definition RoleViewer :: role where "RoleViewer = ''VIEWER''"

definition CanEdit :: "role \<Rightarrow> bool" where
  "CanEdit r \<longleftrightarrow> r = RoleOwner \<or> r = RoleEditor"

definition CanManage :: "role \<Rightarrow> bool" where
  "CanManage r \<longleftrightarrow> r = RoleOwner"

record member =
  mbPlaylistID :: string
  mbUserID :: string
  mbHandle :: string
  mbRole :: role
  mbJoinedAt :: time

record invite =
  ivID :: string
  ivPlaylistID :: string
  ivPlaylistName :: string
  ivInviterID :: string
  ivInviteeID :: string
  ivRole :: role
  ivCreatedAt :: time
  ivExpiresAt :: time
  ivAcceptedAt :: "time option"

record change =
  cgID :: string
  cgPlaylistID :: string
  cgUserID :: string
  cgAction :: string
  cgTrackID :: string
  cgPosition :: int
  cgRevision :: int
  cgCreatedAt :: time

section \<open>The store interface and the service\<close>

record 'st collab_ops =
  coGetMember :: "string \<Rightarrow> string \<Rightarrow> 'st \<Rightarrow> collab_error + member"
  coAddMember :: "member \<Rightarrow> 'st \<Rightarrow> collab_error option \<times> 'st"
  coRemoveMember :: "string \<Rightarrow> string \<Rightarrow> 'st \<Rightarrow> collab_error option \<times> 'st"
  coListMembers :: "string \<Rightarrow> 'st \<Rightarrow> collab_error + member list"
  coSetRole :: "string \<Rightarrow> string \<Rightarrow> role \<Rightarrow> 'st \<Rightarrow> collab_error option \<times> 'st"
  coCreateInvite :: "invite \<Rightarrow> 'st \<Rightarrow> collab_error option \<times> 'st"
  coGetInvite :: "string \<Rightarrow> 'st \<Rightarrow> collab_error + invite"
  coListInvites :: "string \<Rightarrow> 'st \<Rightarrow> collab_error + invite list"
  coAcceptInvite :: "string \<Rightarrow> time \<Rightarrow> 'st \<Rightarrow> collab_error option \<times> 'st"
  coDeleteInvite :: "string \<Rightarrow> 'st \<Rightarrow> collab_error option \<times> 'st"
  coRecordChange :: "change \<Rightarrow> 'st \<Rightarrow> collab_error option \<times> 'st"
  coListChanges :: "string \<Rightarrow> int \<Rightarrow> 'st \<Rightarrow> collab_error + change list"
  coListCollaborative :: "string \<Rightarrow> 'st \<Rightarrow> collab_error + string list"

definition generateInviteID :: "string \<Rightarrow> string \<Rightarrow> string \<Rightarrow> time \<Rightarrow> string" where
  "generateInviteID inviterID inviteeID playlistID at = playlistID @ '':'' @ inviteeID @ '':'' @ inviterID"

definition InviteUser ::
  "'st collab_ops \<Rightarrow> time \<Rightarrow> string \<Rightarrow> string \<Rightarrow> string \<Rightarrow> role \<Rightarrow> 'st \<Rightarrow> (collab_error + invite) \<times> 'st" where
  "InviteUser ops now playlistID inviterID inviteeID r st =
     (if playlistID = '''' \<or> inviterID = '''' \<or> inviteeID = '''' then (Inl CollabInvalidInput, st)
      else case coGetMember ops playlistID inviterID st of
             Inl _ \<Rightarrow> (Inl CollabForbidden, st)
           | Inr inviter \<Rightarrow>
               if \<not> CanManage (mbRole inviter) then (Inl CollabForbidden, st)
               else case coGetMember ops playlistID inviteeID st of
                      Inr _ \<Rightarrow> (Inl CollabAlreadyMember, st)
                    | Inl _ \<Rightarrow>
                        (let iv = \<lparr>ivID = generateInviteID inviterID inviteeID playlistID now,
                                    ivPlaylistID = playlistID, ivPlaylistName = '''', ivInviterID = inviterID,
                                    ivInviteeID = inviteeID, ivRole = r, ivCreatedAt = now,
                                    ivExpiresAt = now + 7 * 24 * 3600 * nanos_per_second, ivAcceptedAt = None\<rparr>
                         in case coCreateInvite ops iv st of
                              (Some e, st') \<Rightarrow> (Inl e, st')
                            | (None, st') \<Rightarrow> (Inr iv, st')))"

text \<open>\<open>AcceptInvite\<close> reads the clock twice: \<open>checked\<close> for the expiry, then \<open>now\<close>.\<close>

definition AcceptInvite ::
  "'st collab_ops \<Rightarrow> time \<Rightarrow> time \<Rightarrow> string \<Rightarrow> string \<Rightarrow> 'st \<Rightarrow> (collab_error + member) \<times> 'st" where
  "AcceptInvite ops checked now inviteID userID st =
     (case coGetInvite ops inviteID st of
        Inl _ \<Rightarrow> (Inl CollabInviteNotFound, st)
      | Inr iv \<Rightarrow>
          if ivInviteeID iv \<noteq> userID then (Inl CollabForbidden, st)
          else if checked > ivExpiresAt iv then (Inl CollabInviteExpired, st)
          else case coAcceptInvite ops inviteID now st of
                 (Some e, st') \<Rightarrow> (Inl e, st')
               | (None, st') \<Rightarrow>
                   (let mb = \<lparr>mbPlaylistID = ivPlaylistID iv, mbUserID = userID, mbHandle = '''',
                              mbRole = ivRole iv, mbJoinedAt = now\<rparr>
                    in case coAddMember ops mb st' of
                         (Some e, st'') \<Rightarrow> (Inl e, st'')
                       | (None, st'') \<Rightarrow> (Inr mb, st'')))"

definition RemoveUser :: "'st collab_ops \<Rightarrow> string \<Rightarrow> string \<Rightarrow> string \<Rightarrow> 'st \<Rightarrow> collab_error option \<times> 'st" where
  "RemoveUser ops playlistID removerID targetID st =
     (case coGetMember ops playlistID removerID st of
        Inl _ \<Rightarrow> (Some CollabForbidden, st)
      | Inr remover \<Rightarrow>
          if \<not> CanManage (mbRole remover) \<and> removerID \<noteq> targetID then (Some CollabForbidden, st)
          else coRemoveMember ops playlistID targetID st)"

definition ChangeRole ::
  "'st collab_ops \<Rightarrow> string \<Rightarrow> string \<Rightarrow> string \<Rightarrow> role \<Rightarrow> 'st \<Rightarrow> collab_error option \<times> 'st" where
  "ChangeRole ops playlistID changerID targetID newRole st =
     (case coGetMember ops playlistID changerID st of
        Inl _ \<Rightarrow> (Some CollabForbidden, st)
      | Inr changer \<Rightarrow>
          if \<not> CanManage (mbRole changer) then (Some CollabForbidden, st)
          else coSetRole ops playlistID targetID newRole st)"

definition RecordTrackChange ::
  "'st collab_ops \<Rightarrow> time \<Rightarrow> string \<Rightarrow> string \<Rightarrow> string \<Rightarrow> string \<Rightarrow> int \<Rightarrow> 'st \<Rightarrow> collab_error option \<times> 'st" where
  "RecordTrackChange ops now userID playlistID action trackID position st =
     (case coGetMember ops playlistID userID st of
        Inl _ \<Rightarrow> (Some CollabForbidden, st)
      | Inr mb \<Rightarrow>
          if \<not> CanEdit (mbRole mb) then (Some CollabForbidden, st)
          else coRecordChange ops
                 \<lparr>cgID = '''', cgPlaylistID = playlistID, cgUserID = userID, cgAction = action,
                  cgTrackID = trackID, cgPosition = position, cgRevision = 0, cgCreatedAt = now\<rparr> st)"

definition GetChanges :: "'st collab_ops \<Rightarrow> string \<Rightarrow> int \<Rightarrow> 'st \<Rightarrow> collab_error + change list" where
  "GetChanges ops playlistID sinceRevision st = coListChanges ops playlistID sinceRevision st"

definition ListMembers :: "'st collab_ops \<Rightarrow> string \<Rightarrow> 'st \<Rightarrow> collab_error + member list" where
  "ListMembers ops playlistID st = coListMembers ops playlistID st"

section \<open>The in-memory store\<close>

text \<open>A map that may be nil; the zero value of the struct has every map nil.\<close>

record collab_mem =
  cmMembers :: "(string, member list) gomap option"
  cmInvites :: "(string, invite) gomap option"
  cmChanges :: "(string, change list) gomap option"
  cmRevision :: "(string, int) gomap option"

definition emptyCollab :: collab_mem where
  "emptyCollab = \<lparr>cmMembers = None, cmInvites = None, cmChanges = None, cmRevision = None\<rparr>"

definition entry :: "'v \<Rightarrow> ('k, 'v) gomap option \<Rightarrow> 'k \<Rightarrow> 'v" where
  "entry d m k = (case m of None \<Rightarrow> d | Some g \<Rightarrow> get_or d g k)"

definition findMember :: "string \<Rightarrow> member list \<Rightarrow> member option" where
  "findMember userID ms = find (\<lambda>m. mbUserID m = userID) ms"

definition memGetMember :: "string \<Rightarrow> string \<Rightarrow> collab_mem \<Rightarrow> collab_error + member" where
  "memGetMember playlistID userID st =
     (case findMember userID (entry [] (cmMembers st) playlistID) of
        Some m \<Rightarrow> Inr m
      | None \<Rightarrow> Inl CollabNotFound)"

definition memAddMember :: "member \<Rightarrow> collab_mem \<Rightarrow> collab_error option \<times> collab_mem" where
  "memAddMember m st =
     (case cmMembers st of
        None \<Rightarrow> (Some CollabPanic, st)
      | Some g \<Rightarrow>
          (None, st\<lparr>cmMembers := Some (put (mbPlaylistID m) (get_or [] g (mbPlaylistID m) @ [m]) g)\<rparr>))"

text \<open>The first member with the identity is cut out of the list.\<close>

fun removeFirst :: "string \<Rightarrow> member list \<Rightarrow> member list" where
  "removeFirst userID [] = []"
| "removeFirst userID (m # ms) = (if mbUserID m = userID then ms else m # removeFirst userID ms)"

definition memRemoveMember :: "string \<Rightarrow> string \<Rightarrow> collab_mem \<Rightarrow> collab_error option \<times> collab_mem" where
  "memRemoveMember playlistID userID st =
     (case cmMembers st of
        None \<Rightarrow> (None, st)
      | Some g \<Rightarrow>
          if findMember userID (get_or [] g playlistID) = None then (None, st)
          else (None, st\<lparr>cmMembers := Some (put playlistID (removeFirst userID (get_or [] g playlistID)) g)\<rparr>))"

definition memListMembers :: "string \<Rightarrow> collab_mem \<Rightarrow> collab_error + member list" where
  "memListMembers playlistID st = Inr (entry [] (cmMembers st) playlistID)"

fun setFirstRole :: "string \<Rightarrow> role \<Rightarrow> member list \<Rightarrow> member list" where
  "setFirstRole userID r [] = []"
| "setFirstRole userID r (m # ms) =
     (if mbUserID m = userID then m\<lparr>mbRole := r\<rparr> # ms else m # setFirstRole userID r ms)"

definition memSetRole :: "string \<Rightarrow> string \<Rightarrow> role \<Rightarrow> collab_mem \<Rightarrow> collab_error option \<times> collab_mem" where
  "memSetRole playlistID userID r st =
     (case cmMembers st of
        None \<Rightarrow> (None, st)
      | Some g \<Rightarrow>
          if findMember userID (get_or [] g playlistID) = None then (None, st)
          else (None, st\<lparr>cmMembers := Some (put playlistID (setFirstRole userID r (get_or [] g playlistID)) g)\<rparr>))"

definition memCreateInvite :: "invite \<Rightarrow> collab_mem \<Rightarrow> collab_error option \<times> collab_mem" where
  "memCreateInvite iv st =
     (None, st\<lparr>cmInvites := Some (put (ivID iv) iv (case cmInvites st of None \<Rightarrow> [] | Some g \<Rightarrow> g))\<rparr>)"

definition memGetInvite :: "string \<Rightarrow> collab_mem \<Rightarrow> collab_error + invite" where
  "memGetInvite inviteID st =
     (case cmInvites st of
        None \<Rightarrow> Inl CollabInviteNotFound
      | Some g \<Rightarrow> (case map_of g inviteID of None \<Rightarrow> Inl CollabInviteNotFound | Some iv \<Rightarrow> Inr iv))"

definition memListInvites ::
  "((string \<times> invite) list \<Rightarrow> (string \<times> invite) list) \<Rightarrow> string \<Rightarrow> collab_mem \<Rightarrow> collab_error + invite list" where
  "memListInvites shuffle playlistID st =
     Inr (filter (\<lambda>iv. ivPlaylistID iv = playlistID \<and> ivAcceptedAt iv = None)
       (map snd (shuffle (case cmInvites st of None \<Rightarrow> [] | Some g \<Rightarrow> g))))"

definition memAcceptInvite :: "string \<Rightarrow> time \<Rightarrow> collab_mem \<Rightarrow> collab_error option \<times> collab_mem" where
  "memAcceptInvite inviteID at st =
     (None,
      case cmInvites st of
        None \<Rightarrow> st
      | Some g \<Rightarrow>
          (case map_of g inviteID of
             None \<Rightarrow> st
           | Some iv \<Rightarrow> st\<lparr>cmInvites := Some (put inviteID (iv\<lparr>ivAcceptedAt := Some at\<rparr>) g)\<rparr>))"

definition memDeleteInvite :: "string \<Rightarrow> collab_mem \<Rightarrow> collab_error option \<times> collab_mem" where
  "memDeleteInvite inviteID st = (None, st\<lparr>cmInvites := map_option (del inviteID) (cmInvites st)\<rparr>)"

text \<open>The revision is already counted up when the assignment to a nil \<open>changes\<close> panics.\<close>

definition memRecordChange :: "change \<Rightarrow> collab_mem \<Rightarrow> collab_error option \<times> collab_mem" where
  "memRecordChange c st =
     (let p = cgPlaylistID c;
          revision = (case cmRevision st of None \<Rightarrow> [] | Some g \<Rightarrow> g);
          n = wrap64 (get_or 0 revision p + 1);
          st1 = st\<lparr>cmRevision := Some (put p n revision)\<rparr>
      in case cmChanges st of
           None \<Rightarrow> (Some CollabPanic, st1)
         | Some g \<Rightarrow> (None, st1\<lparr>cmChanges := Some (put p (get_or [] g p @ [c\<lparr>cgRevision := n\<rparr>]) g)\<rparr>))"

definition memListChanges :: "string \<Rightarrow> int \<Rightarrow> collab_mem \<Rightarrow> collab_error + change list" where
  "memListChanges playlistID sinceRevision st =
     Inr (filter (\<lambda>c. cgRevision c > sinceRevision) (entry [] (cmChanges st) playlistID))"

definition memListCollaborative ::
  "((string \<times> member list) list \<Rightarrow> (string \<times> member list) list) \<Rightarrow> string \<Rightarrow> collab_mem \<Rightarrow> collab_error + string list" where
  "memListCollaborative shuffle userID st =
     Inr (map fst (filter (\<lambda>(pid, ms). findMember userID ms \<noteq> None)
       (shuffle (case cmMembers st of None \<Rightarrow> [] | Some g \<Rightarrow> g))))"

definition inMemoryCollabStore :: "collab_mem collab_ops" where
  "inMemoryCollabStore =
     \<lparr>coGetMember = memGetMember, coAddMember = memAddMember, coRemoveMember = memRemoveMember,
      coListMembers = memListMembers, coSetRole = memSetRole, coCreateInvite = memCreateInvite,
      coGetInvite = memGetInvite, coListInvites = memListInvites id, coAcceptInvite = memAcceptInvite,
      coDeleteInvite = memDeleteInvite, coRecordChange = memRecordChange, coListChanges = memListChanges,
      coListCollaborative = memListCollaborative id\<rparr>"

section \<open>Handlers\<close>

definition collabUserID :: "req_context \<Rightarrow> string" where
  "collabUserID ctx = ctxString CollabUserID ctx"

definition CollabWithUserID :: "req_context \<Rightarrow> string \<Rightarrow> req_context" where
  "CollabWithUserID ctx userID = (CollabUserID, userID) # ctx"

definition writeCollabError :: "collab_error \<Rightarrow> 'b http_response option" where
  "writeCollabError e =
     (case e of
        CollabNotFound \<Rightarrow> Some (WriteError StatusNotFound ''playlist not found'')
      | CollabForbidden \<Rightarrow> Some (WriteError StatusForbidden ''insufficient permissions'')
      | CollabInvalidInput \<Rightarrow> Some (WriteError StatusBadRequest ''invalid input'')
      | CollabAlreadyMember \<Rightarrow> Some (WriteError StatusConflict ''user is already a member'')
      | CollabInviteExpired \<Rightarrow> Some (WriteError StatusGone ''invite has expired'')
      | CollabInviteNotFound \<Rightarrow> Some (WriteError StatusNotFound ''invite not found'')
      | CollabFailure \<Rightarrow> Some (WriteError StatusInternalServerError ''internal error'')
      | CollabPanic \<Rightarrow> None)"

definition inviteHandler ::
  "'st collab_ops \<Rightarrow> time \<Rightarrow> req_context \<Rightarrow> string \<Rightarrow> string + string \<times> string \<Rightarrow> 'st \<Rightarrow>
   invite http_response option \<times> 'st" where
  "inviteHandler ops now ctx playlistID body st =
     (let userID = collabUserID ctx
      in if userID = '''' then (Some (WriteError StatusUnauthorized ''unauthorized''), st)
         else case body of
                Inl _ \<Rightarrow> (Some (WriteError StatusBadRequest ''invalid body''), st)
              | Inr (inviteeID, roleText) \<Rightarrow>
                  (let r = (if roleText = '''' then RoleViewer else roleText)
                   in case InviteUser ops now playlistID userID inviteeID r st of
                        (Inl e, st') \<Rightarrow> (writeCollabError e, st')
                      | (Inr iv, st') \<Rightarrow> (Some (WriteJSON StatusCreated iv), st')))"

definition acceptInviteHandler ::
  "'st collab_ops \<Rightarrow> time \<Rightarrow> time \<Rightarrow> req_context \<Rightarrow> string \<Rightarrow> 'st \<Rightarrow> member http_response option \<times> 'st" where
  "acceptInviteHandler ops checked now ctx inviteID st =
     (let userID = collabUserID ctx
      in if userID = '''' then (Some (WriteError StatusUnauthorized ''unauthorized''), st)
         else case AcceptInvite ops checked now inviteID userID st of
                (Inl e, st') \<Rightarrow> (writeCollabError e, st')
              | (Inr m, st') \<Rightarrow> (Some (WriteJSON StatusOK m), st'))"

definition listMembersHandler :: "'st collab_ops \<Rightarrow> string \<Rightarrow> 'st \<Rightarrow> member list http_response option" where
  "listMembersHandler ops playlistID st =
     (case ListMembers ops playlistID st of
        Inl e \<Rightarrow> writeCollabError e
      | Inr ms \<Rightarrow> Some (WriteJSON StatusOK ms))"

definition removeMemberHandler ::
  "'st collab_ops \<Rightarrow> req_context \<Rightarrow> string \<Rightarrow> string \<Rightarrow> 'st \<Rightarrow> string http_response option \<times> 'st" where
  "removeMemberHandler ops ctx playlistID targetID st =
     (let userID = collabUserID ctx
      in if userID = '''' then (Some (WriteError StatusUnauthorized ''unauthorized''), st)
         else case RemoveUser ops playlistID userID targetID st of
                (Some e, st') \<Rightarrow> (writeCollabError e, st')
              | (None, st') \<Rightarrow> (Some (WriteJSON StatusNoContent ''''), st'))"

definition changeRoleHandler ::
  "'st collab_ops \<Rightarrow> req_context \<Rightarrow> string \<Rightarrow> string \<Rightarrow> string + string \<Rightarrow> 'st \<Rightarrow>
   string http_response option \<times> 'st" where
  "changeRoleHandler ops ctx playlistID targetID body st =
     (let userID = collabUserID ctx
      in if userID = '''' then (Some (WriteError StatusUnauthorized ''unauthorized''), st)
         else case body of
                Inl _ \<Rightarrow> (Some (WriteError StatusBadRequest ''invalid body''), st)
              | Inr r \<Rightarrow>
                  (case ChangeRole ops playlistID userID targetID r st of
                     (Some e, st') \<Rightarrow> (writeCollabError e, st')
                   | (None, st') \<Rightarrow> (Some (WriteJSON StatusOK ''''), st')))"

text \<open>Every digit of the parameter is taken, everything else skipped, without a bound.\<close>

definition sinceRevisionOf :: "string \<Rightarrow> int" where
  "sinceRevisionOf v =
     fold (\<lambda>c n. if is_digit c then wrap64 (wrap64 (n * 10) + int (digit_val c)) else n) v 0"

definition getChangesHandler :: "'st collab_ops \<Rightarrow> string \<Rightarrow> string \<Rightarrow> 'st \<Rightarrow> change list http_response option" where
  "getChangesHandler ops playlistID since st =
     (case GetChanges ops playlistID (sinceRevisionOf since) st of
        Inl e \<Rightarrow> writeCollabError e
      | Inr cs \<Rightarrow> Some (WriteJSON StatusOK cs))"

definition recordChangeHandler ::
  "'st collab_ops \<Rightarrow> time \<Rightarrow> req_context \<Rightarrow> string \<Rightarrow> string + string \<times> string \<times> int \<Rightarrow> 'st \<Rightarrow>
   string http_response option \<times> 'st" where
  "recordChangeHandler ops now ctx playlistID body st =
     (let userID = collabUserID ctx
      in if userID = '''' then (Some (WriteError StatusUnauthorized ''unauthorized''), st)
         else case body of
                Inl _ \<Rightarrow> (Some (WriteError StatusBadRequest ''invalid body''), st)
              | Inr (action, trackID, position) \<Rightarrow>
                  (case RecordTrackChange ops now userID playlistID action trackID position st of
                     (Some e, st') \<Rightarrow> (writeCollabError e, st')
                   | (None, st') \<Rightarrow> (Some (WriteJSON StatusCreated ''''), st')))"

section \<open>Calls and what they may change\<close>

datatype collab_call =
    CallInvite time string string string role
  | CallAccept time time string string
  | CallRemove string string string
  | CallRole string string string role
  | CallRecord time string string string string int

fun actorOf :: "collab_call \<Rightarrow> string" where
  "actorOf (CallInvite _ _ u _ _) = u"
| "actorOf (CallAccept _ _ _ u) = u"
| "actorOf (CallRemove _ u _) = u"
| "actorOf (CallRole _ u _ _) = u"
| "actorOf (CallRecord _ _ u _ _ _) = u"

fun runCollab :: "'st collab_ops \<Rightarrow> collab_call \<Rightarrow> 'st \<Rightarrow> 'st" where
  "runCollab ops (CallInvite now p u v r) st = snd (InviteUser ops now p u v r st)"
| "runCollab ops (CallAccept t now i u) st = snd (AcceptInvite ops t now i u st)"
| "runCollab ops (CallRemove p u v) st = snd (RemoveUser ops p u v st)"
| "runCollab ops (CallRole p u v r) st = snd (ChangeRole ops p u v r st)"
| "runCollab ops (CallRecord now p u a t k) st = snd (RecordTrackChange ops now u p a t k st)"

definition roleIn :: "member list \<Rightarrow> string \<Rightarrow> (role \<Rightarrow> bool) \<Rightarrow> bool" where
  "roleIn ms u P \<longleftrightarrow> (case findMember u ms of None \<Rightarrow> False | Some m \<Rightarrow> P (mbRole m))"

text \<open>The revisions of a log are its positions.\<close>

definition numbered :: "change list \<Rightarrow> bool" where
  "numbered cs \<longleftrightarrow> map cgRevision cs = map int [1..<Suc (length cs)]"

lemma numbered_snoc: "numbered cs \<Longrightarrow> cgRevision c = int (Suc (length cs)) \<Longrightarrow> numbered (cs @ [c])"
  by (simp add: numbered_def)

lemma filter_upt_drop: "filter (\<lambda>n. k < n) [1..<Suc n] = [Suc k..<Suc n]"
proof (induction n)
  case (Suc n)
  then show ?case by (cases "k < Suc n") auto
qed simp

lemma numbered_since:
  assumes "numbered cs"
  shows "filter (\<lambda>c. int k < cgRevision c) cs = drop k cs"
proof -
  have gen: "filter (\<lambda>c. int k < cgRevision c) cs = drop (k - n) cs"
    if "map cgRevision cs = map int [Suc n..<Suc n + length cs]" for n
    using that
  proof (induction cs arbitrary: n)
    case (Cons c cs)
    from Cons.prems have c: "cgRevision c = int (Suc n)"
      and cs: "map cgRevision cs = map int [Suc (Suc n)..<Suc (Suc n) + length cs]"
      by (simp_all add: upt_conv_Cons del: upt_Suc)
    show ?case
    proof (cases "k \<le> n")
      case True
      with c Cons.IH [OF cs] show ?thesis by simp
    next
      case False
      then have "k - n = Suc (k - Suc n)" by simp
      with False c Cons.IH [OF cs] show ?thesis by simp
    qed
  qed simp
  from gen [of 0] assms show ?thesis by (simp add: numbered_def)
qed

section \<open>What a collaboration store promises\<close>

locale collab_store =
  fixes ops :: "'st collab_ops"
    and roster :: "'st \<Rightarrow> string \<Rightarrow> member list"
    and pending :: "'st \<Rightarrow> string \<Rightarrow> invite option"
    and log :: "'st \<Rightarrow> string \<Rightarrow> change list"
    and ok :: "'st \<Rightarrow> bool"
  assumes get_member: "coGetMember ops p u st =
        (case findMember u (roster st p) of Some m \<Rightarrow> Inr m | None \<Rightarrow> Inl CollabNotFound)"
    and add_member: "ok st \<Longrightarrow> \<exists>st'. coAddMember ops m st = (None, st') \<and> ok st' \<and> pending st' = pending st \<and>
        log st' = log st \<and> roster st' = (roster st)(mbPlaylistID m := roster st (mbPlaylistID m) @ [m])"
    and remove_member: "ok st \<Longrightarrow> \<exists>st'. coRemoveMember ops p u st = (None, st') \<and> ok st' \<and> pending st' = pending st \<and>
        log st' = log st \<and> roster st' = (roster st)(p := removeFirst u (roster st p))"
    and set_role: "ok st \<Longrightarrow> \<exists>st'. coSetRole ops p u r st = (None, st') \<and> ok st' \<and> pending st' = pending st \<and>
        log st' = log st \<and> roster st' = (roster st)(p := setFirstRole u r (roster st p))"
    and create_invite: "ok st \<Longrightarrow> \<exists>st'. coCreateInvite ops iv st = (None, st') \<and> ok st' \<and> roster st' = roster st \<and>
        log st' = log st \<and> pending st' = (pending st)(ivID iv \<mapsto> iv)"
    and get_invite: "coGetInvite ops i st = (case pending st i of Some iv \<Rightarrow> Inr iv | None \<Rightarrow> Inl CollabInviteNotFound)"
    and accept_invite: "ok st \<Longrightarrow> \<exists>st'. coAcceptInvite ops i at st = (None, st') \<and> ok st' \<and> roster st' = roster st \<and>
        log st' = log st \<and> pending st' = (pending st)(i := map_option (ivAcceptedAt_update (\<lambda>_. Some at)) (pending st i))"
    and record_change: "ok st \<Longrightarrow> \<exists>st'. coRecordChange ops c st = (None, st') \<and> ok st' \<and> roster st' = roster st \<and>
        pending st' = pending st \<and> log st' = (log st)(cgPlaylistID c := log st (cgPlaylistID c) @
          [c\<lparr>cgRevision := wrap64 (int (length (log st (cgPlaylistID c))) + 1)\<rparr>])"
    and list_changes: "coListChanges ops p k st = Inr (filter (\<lambda>c. k < cgRevision c) (log st p))"
begin

lemma invite_effect:
  assumes "ok st"
  shows "ok (snd (InviteUser ops now p u v r st)) \<and> roster (snd (InviteUser ops now p u v r st)) = roster st \<and>
    log (snd (InviteUser ops now p u v r st)) = log st \<and>
    (pending (snd (InviteUser ops now p u v r st)) = pending st \<or>
     roleIn (roster st p) u CanManage \<and>
     (\<exists>iv. pending (snd (InviteUser ops now p u v r st)) = (pending st)(ivID iv \<mapsto> iv) \<and> ivPlaylistID iv = p \<and>
        ivInviterID iv = u \<and> ivInviteeID iv = v))"
proof -
  let ?iv = "\<lparr>ivID = generateInviteID u v p now, ivPlaylistID = p, ivPlaylistName = '''', ivInviterID = u,
     ivInviteeID = v, ivRole = r, ivCreatedAt = now, ivExpiresAt = now + 7 * 24 * 3600 * nanos_per_second,
     ivAcceptedAt = None\<rparr>"
  from create_invite [OF assms, of ?iv] obtain st' where c: "coCreateInvite ops ?iv st = (None, st')"
    "ok st'" "roster st' = roster st" "log st' = log st" "pending st' = (pending st)(ivID ?iv \<mapsto> ?iv)" by blast
  show ?thesis
  proof (cases "p \<noteq> '''' \<and> u \<noteq> '''' \<and> v \<noteq> '''' \<and> roleIn (roster st p) u CanManage \<and> findMember v (roster st p) = None")
    case True
    then have "InviteUser ops now p u v r st = (Inr ?iv, st')"
      using c(1) by (auto simp: InviteUser_def get_member roleIn_def Let_def split: option.splits)
    then show ?thesis using True c(2-) by (auto intro!: exI [of _ ?iv])
  next
    case False
    then have "snd (InviteUser ops now p u v r st) = st"
      by (auto simp: InviteUser_def get_member roleIn_def split: option.splits)
    then show ?thesis using assms by simp
  qed
qed

lemma accept_effect:
  assumes "ok st"
  shows "snd (AcceptInvite ops t now i u st) = st \<or>
    ok (snd (AcceptInvite ops t now i u st)) \<and> log (snd (AcceptInvite ops t now i u st)) = log st \<and>
    (\<exists>iv. pending st i = Some iv \<and> ivInviteeID iv = u \<and> t \<le> ivExpiresAt iv \<and>
       pending (snd (AcceptInvite ops t now i u st)) = (pending st)(i \<mapsto> iv\<lparr>ivAcceptedAt := Some now\<rparr>) \<and>
       roster (snd (AcceptInvite ops t now i u st)) = (roster st)(ivPlaylistID iv := roster st (ivPlaylistID iv) @
         [\<lparr>mbPlaylistID = ivPlaylistID iv, mbUserID = u, mbHandle = '''', mbRole = ivRole iv, mbJoinedAt = now\<rparr>]))"
proof (cases "pending st i")
  case None
  then show ?thesis by (simp add: AcceptInvite_def get_invite)
next
  case (Some iv)
  show ?thesis
  proof (cases "ivInviteeID iv = u \<and> t \<le> ivExpiresAt iv")
    case True
    let ?m = "\<lparr>mbPlaylistID = ivPlaylistID iv, mbUserID = u, mbHandle = '''', mbRole = ivRole iv, mbJoinedAt = now\<rparr>"
    from accept_invite [OF assms, of i now] obtain s1 where s1: "coAcceptInvite ops i now st = (None, s1)" "ok s1"
      "roster s1 = roster st" "log s1 = log st" "pending s1 = (pending st)(i \<mapsto> iv\<lparr>ivAcceptedAt := Some now\<rparr>)"
      by (auto simp: Some)
    from add_member [OF s1(2), of ?m] obtain s2 where s2: "coAddMember ops ?m s1 = (None, s2)" "ok s2"
      "pending s2 = pending s1" "log s2 = log s1"
      "roster s2 = (roster s1)(ivPlaylistID iv := roster s1 (ivPlaylistID iv) @ [?m])" by auto
    have "snd (AcceptInvite ops t now i u st) = s2"
      using True s1(1) s2(1) by (simp add: AcceptInvite_def get_invite Some Let_def)
    then show ?thesis using Some True s1 s2 by simp
  next
    case False
    then show ?thesis by (auto simp: AcceptInvite_def get_invite Some)
  qed
qed

lemma remove_effect:
  assumes "ok st"
  shows "snd (RemoveUser ops p u v st) = st \<or>
    ok (snd (RemoveUser ops p u v st)) \<and> pending (snd (RemoveUser ops p u v st)) = pending st \<and>
    log (snd (RemoveUser ops p u v st)) = log st \<and> (roleIn (roster st p) u CanManage \<or> u = v) \<and>
    roster (snd (RemoveUser ops p u v st)) = (roster st)(p := removeFirst v (roster st p))"
proof -
  from remove_member [OF assms, of p v] obtain s1 where s1: "coRemoveMember ops p v st = (None, s1)" "ok s1"
    "pending s1 = pending st" "log s1 = log st" "roster s1 = (roster st)(p := removeFirst v (roster st p))" by blast
  then show ?thesis by (auto simp: RemoveUser_def get_member roleIn_def split: option.splits)
qed

lemma role_effect:
  assumes "ok st"
  shows "snd (ChangeRole ops p u v r st) = st \<or>
    ok (snd (ChangeRole ops p u v r st)) \<and> pending (snd (ChangeRole ops p u v r st)) = pending st \<and>
    log (snd (ChangeRole ops p u v r st)) = log st \<and> roleIn (roster st p) u CanManage \<and>
    roster (snd (ChangeRole ops p u v r st)) = (roster st)(p := setFirstRole v r (roster st p))"
proof -
  from set_role [OF assms, of p v r] obtain s1 where s1: "coSetRole ops p v r st = (None, s1)" "ok s1"
    "pending s1 = pending st" "log s1 = log st" "roster s1 = (roster st)(p := setFirstRole v r (roster st p))" by blast
  then show ?thesis by (auto simp: ChangeRole_def get_member roleIn_def split: option.splits)
qed

lemma record_effect:
  assumes "ok st"
  shows "snd (RecordTrackChange ops now u p a t k st) = st \<or>
    ok (snd (RecordTrackChange ops now u p a t k st)) \<and> pending (snd (RecordTrackChange ops now u p a t k st)) = pending st \<and>
    roster (snd (RecordTrackChange ops now u p a t k st)) = roster st \<and> roleIn (roster st p) u CanEdit \<and>
    (\<exists>c. cgUserID c = u \<and> cgRevision c = wrap64 (int (length (log st p)) + 1) \<and>
       log (snd (RecordTrackChange ops now u p a t k st)) = (log st)(p := log st p @ [c]))"
proof -
  let ?c = "\<lparr>cgID = '''', cgPlaylistID = p, cgUserID = u, cgAction = a, cgTrackID = t, cgPosition = k,
     cgRevision = 0, cgCreatedAt = now\<rparr>"
  from record_change [OF assms, of ?c] obtain s1 where s1: "coRecordChange ops ?c st = (None, s1)" "ok s1"
    "roster s1 = roster st" "pending s1 = pending st"
    "log s1 = (log st)(p := log st p @ [?c\<lparr>cgRevision := wrap64 (int (length (log st p)) + 1)\<rparr>])" by auto
  show ?thesis
  proof (cases "roleIn (roster st p) u CanEdit")
    case True
    then have "snd (RecordTrackChange ops now u p a t k st) = s1"
      using s1(1) by (auto simp: RecordTrackChange_def get_member roleIn_def split: option.splits)
    then show ?thesis using True s1
      by (intro disjI2 conjI exI [of _ "?c\<lparr>cgRevision := wrap64 (int (length (log st p)) + 1)\<rparr>"]) simp_all
  next
    case False
    then show ?thesis by (auto simp: RecordTrackChange_def get_member roleIn_def split: option.splits)
  qed
qed

lemmas effects = invite_effect accept_effect remove_effect role_effect record_effect

lemma ok_run: "ok st \<Longrightarrow> ok (runCollab ops c st)"
proof (cases c)
  case (CallInvite now p u v r)
  assume "ok st"
  from invite_effect [OF this, of now p u v r] show ?thesis by (simp add: CallInvite)
next
  case (CallAccept t now i u)
  assume "ok st"
  with accept_effect [OF this, of t now i u] show ?thesis by (auto simp: CallAccept)
next
  case (CallRemove p u v)
  assume "ok st"
  with remove_effect [OF this, of p u v] show ?thesis by (auto simp: CallRemove)
next
  case (CallRole p u v r)
  assume "ok st"
  with role_effect [OF this, of p u v r] show ?thesis by (auto simp: CallRole)
next
  case (CallRecord now p u a t k)
  assume "ok st"
  with record_effect [OF this, of now u p a t k] show ?thesis by (auto simp: CallRecord)
qed

lemma roster_changes:
  assumes "ok st" and "roster (runCollab ops c st) p \<noteq> roster st p"
  shows "roleIn (roster st p) (actorOf c) CanManage \<or>
    (\<exists>t now i iv. c = CallAccept t now i (actorOf c) \<and> pending st i = Some iv \<and> ivInviteeID iv = actorOf c \<and>
       ivPlaylistID iv = p \<and> t \<le> ivExpiresAt iv \<and>
       roster (runCollab ops c st) p = roster st p @ [\<lparr>mbPlaylistID = p, mbUserID = actorOf c,
         mbHandle = '''', mbRole = ivRole iv, mbJoinedAt = now\<rparr>]) \<or>
    (c = CallRemove p (actorOf c) (actorOf c) \<and>
       roster (runCollab ops c st) p = removeFirst (actorOf c) (roster st p))"
proof (cases c)
  case (CallInvite now q u v r)
  with assms invite_effect [OF assms(1), of now q u v r] show ?thesis by simp
next
  case (CallAccept t now i u)
  with assms(2) accept_effect [OF assms(1), of t now i u] obtain iv where
    iv: "pending st i = Some iv" "ivInviteeID iv = u" "t \<le> ivExpiresAt iv"
    and r: "roster (runCollab ops c st) = (roster st)(ivPlaylistID iv := roster st (ivPlaylistID iv) @
         [\<lparr>mbPlaylistID = ivPlaylistID iv, mbUserID = u, mbHandle = '''', mbRole = ivRole iv, mbJoinedAt = now\<rparr>])"
    by (simp only: runCollab.simps) metis
  from r assms(2) have p: "ivPlaylistID iv = p" by (metis fun_upd_apply)
  have "roster (runCollab ops c st) p = roster st p @
      [\<lparr>mbPlaylistID = p, mbUserID = u, mbHandle = '''', mbRole = ivRole iv, mbJoinedAt = now\<rparr>]"
    using r p by simp
  then show ?thesis using iv p CallAccept by auto
next
  case (CallRemove q u v)
  with assms(2) remove_effect [OF assms(1), of q u v] have
    r: "roleIn (roster st q) u CanManage \<or> u = v"
       "roster (runCollab ops c st) = (roster st)(q := removeFirst v (roster st q))"
    by (simp_all only: runCollab.simps) metis+
  from r(2) assms(2) have "q = p" by (metis fun_upd_apply)
  then show ?thesis using r CallRemove by auto
next
  case (CallRole q u v r)
  with assms(2) role_effect [OF assms(1), of q u v r] have
    r: "roleIn (roster st q) u CanManage"
       "roster (runCollab ops c st) = (roster st)(q := setFirstRole v r (roster st q))"
    by (simp_all only: runCollab.simps) metis+
  from r(2) assms(2) have "q = p" by (metis fun_upd_apply)
  then show ?thesis using r CallRole by auto
next
  case (CallRecord now q u a t k)
  with assms record_effect [OF assms(1), of now u q a t k] show ?thesis by auto
qed

lemma log_changes:
  assumes "ok st"
  shows "log (runCollab ops c st) p = log st p \<or>
    roleIn (roster st p) (actorOf c) CanEdit \<and>
    (\<exists>g. cgUserID g = actorOf c \<and> cgRevision g = wrap64 (int (length (log st p)) + 1) \<and>
       log (runCollab ops c st) p = log st p @ [g])"
proof (cases c)
  case (CallInvite now q u v r)
  with invite_effect [OF assms, of now q u v r] show ?thesis by simp
next
  case (CallAccept t now i u)
  with accept_effect [OF assms, of t now i u] show ?thesis by auto
next
  case (CallRemove q u v)
  with remove_effect [OF assms, of q u v] show ?thesis by auto
next
  case (CallRole q u v r)
  with role_effect [OF assms, of q u v r] show ?thesis by auto
next
  case (CallRecord now q u a t k)
  with record_effect [OF assms, of now u q a t k] show ?thesis by (cases "q = p") auto
qed

lemma pending_changes:
  assumes "ok st" and "pending (runCollab ops c st) i \<noteq> pending st i"
  shows "(\<exists>iv. pending (runCollab ops c st) i = Some iv \<and> ivInviterID iv = actorOf c \<and>
      roleIn (roster st (ivPlaylistID iv)) (actorOf c) CanManage) \<or>
    (\<exists>iv now. pending st i = Some iv \<and> ivInviteeID iv = actorOf c \<and>
      pending (runCollab ops c st) i = Some (iv\<lparr>ivAcceptedAt := Some now\<rparr>))"
proof (cases c)
  case (CallInvite now q u v r)
  with assms(2) invite_effect [OF assms(1), of now q u v r] obtain iv where
    o: "roleIn (roster st q) u CanManage" and iv: "ivPlaylistID iv = q" "ivInviterID iv = u"
    and e: "pending (runCollab ops c st) = (pending st)(ivID iv \<mapsto> iv)"
    by (simp only: runCollab.simps) metis
  from e assms(2) have "pending (runCollab ops c st) i = Some iv" by (metis fun_upd_apply)
  with o iv CallInvite show ?thesis by auto
next
  case (CallAccept t now j u)
  with assms(2) accept_effect [OF assms(1), of t now j u] obtain iv where
    iv: "pending st j = Some iv" "ivInviteeID iv = u"
    and e: "pending (runCollab ops c st) = (pending st)(j \<mapsto> iv\<lparr>ivAcceptedAt := Some now\<rparr>)"
    by (simp only: runCollab.simps) metis
  from e assms(2) have "j = i" by (metis fun_upd_apply)
  with iv e CallAccept show ?thesis by auto
next
  case (CallRemove q u v)
  with assms remove_effect [OF assms(1), of q u v] show ?thesis by auto
next
  case (CallRole q u v r)
  with assms role_effect [OF assms(1), of q u v r] show ?thesis by auto
next
  case (CallRecord now q u a t k)
  with assms record_effect [OF assms(1), of now u q a t k] show ?thesis by auto
qed

lemma log_grows:
  assumes "ok st"
  shows "\<exists>ext. log (fold (runCollab ops) cs st) p = log st p @ ext"
  using assms
proof (induction cs arbitrary: st)
  case (Cons c cs)
  from Cons.IH [OF ok_run [OF Cons.prems, of c]] log_changes [OF Cons.prems, of c p] show ?case by force
qed simp

lemma log_numbered:
  assumes "ok st" and "numbered (log st p)" and "length (log (fold (runCollab ops) cs st) p) < 2 ^ 63"
  shows "numbered (log (fold (runCollab ops) cs st) p)"
  using assms
proof (induction cs arbitrary: st)
  case (Cons c cs)
  let ?st = "runCollab ops c st"
  have ok: "ok ?st" by (rule ok_run [OF Cons.prems(1)])
  obtain ext where ext: "log (fold (runCollab ops) cs ?st) p = log ?st p @ ext" using log_grows [OF ok] by blast
  have "length (log ?st p) < 2 ^ 63" using Cons.prems(3) ext by simp
  then have "numbered (log ?st p)"
    using log_changes [OF Cons.prems(1), of c p] Cons.prems(2)
    by (auto intro!: numbered_snoc simp: wrap64_def)
  from Cons.IH [OF ok this] Cons.prems(3) show ?case by simp
qed simp

lemma pull_exact:
  assumes "ok st" and "numbered (log st p)" and "length (log (fold (runCollab ops) cs st) p) < 2 ^ 63"
  shows "GetChanges ops p (int k) (fold (runCollab ops) cs st) = Inr (drop k (log (fold (runCollab ops) cs st) p))"
  by (simp add: GetChanges_def list_changes numbered_since [OF log_numbered [OF assms]])

end

section \<open>The in-memory store keeps the promise\<close>

definition collabOK :: "collab_mem \<Rightarrow> bool" where
  "collabOK st \<longleftrightarrow> cmMembers st \<noteq> None \<and> cmChanges st \<noteq> None \<and>
     (\<forall>p. entry 0 (cmRevision st) p = wrap64 (int (length (entry [] (cmChanges st) p))))"

definition invitesOf :: "collab_mem \<Rightarrow> string \<Rightarrow> invite option" where
  "invitesOf st i = (case cmInvites st of None \<Rightarrow> None | Some g \<Rightarrow> map_of g i)"

lemma invitesOf_frame [simp]:
  "invitesOf (st\<lparr>cmMembers := a\<rparr>) = invitesOf st"
  "invitesOf (st\<lparr>cmChanges := b\<rparr>) = invitesOf st"
  "invitesOf (st\<lparr>cmRevision := d\<rparr>) = invitesOf st"
  by (simp_all add: invitesOf_def fun_eq_iff)

lemma removeFirst_none: "findMember u ms = None \<Longrightarrow> removeFirst u ms = ms"
  by (induction ms) (auto simp: findMember_def split: if_splits)

lemma setFirstRole_none: "findMember u ms = None \<Longrightarrow> setFirstRole u r ms = ms"
  by (induction ms) (auto simp: findMember_def split: if_splits)

lemma wrap64_Suc: "wrap64 (wrap64 x + 1) = wrap64 (x + 1)"
  by (simp add: wrap64_def mod_simps algebra_simps)

lemma entry_Some [simp]: "entry d (Some g) = get_or d g"
  by (simp add: entry_def fun_eq_iff)

lemma get_or_put_fun: "get_or d (put k v g) = (get_or d g)(k := v)"
  by (simp add: fun_eq_iff)

lemma collab_store_mem:
  "collab_store inMemoryCollabStore (\<lambda>st. entry [] (cmMembers st)) invitesOf (\<lambda>st. entry [] (cmChanges st)) collabOK"
proof
  fix st m
  assume "collabOK st"
  then show "\<exists>st'. coAddMember inMemoryCollabStore m st = (None, st') \<and> collabOK st' \<and> invitesOf st' = invitesOf st \<and>
      entry [] (cmChanges st') = entry [] (cmChanges st) \<and>
      entry [] (cmMembers st') = (entry [] (cmMembers st))(mbPlaylistID m := entry [] (cmMembers st) (mbPlaylistID m) @ [m])"
    by (auto simp: inMemoryCollabStore_def memAddMember_def collabOK_def invitesOf_def get_or_put_fun)
next
  fix st p u
  assume "collabOK st"
  then show "\<exists>st'. coRemoveMember inMemoryCollabStore p u st = (None, st') \<and> collabOK st' \<and> invitesOf st' = invitesOf st \<and>
      entry [] (cmChanges st') = entry [] (cmChanges st) \<and>
      entry [] (cmMembers st') = (entry [] (cmMembers st))(p := removeFirst u (entry [] (cmMembers st) p))"
    by (auto simp: inMemoryCollabStore_def memRemoveMember_def collabOK_def invitesOf_def get_or_put_fun
        removeFirst_none)
next
  fix st p u r
  assume "collabOK st"
  then show "\<exists>st'. coSetRole inMemoryCollabStore p u r st = (None, st') \<and> collabOK st' \<and> invitesOf st' = invitesOf st \<and>
      entry [] (cmChanges st') = entry [] (cmChanges st) \<and>
      entry [] (cmMembers st') = (entry [] (cmMembers st))(p := setFirstRole u r (entry [] (cmMembers st) p))"
    by (auto simp: inMemoryCollabStore_def memSetRole_def collabOK_def invitesOf_def get_or_put_fun
        setFirstRole_none)
next
  fix st iv
  assume "collabOK st"
  then show "\<exists>st'. coCreateInvite inMemoryCollabStore iv st = (None, st') \<and> collabOK st' \<and>
      entry [] (cmMembers st') = entry [] (cmMembers st) \<and> entry [] (cmChanges st') = entry [] (cmChanges st) \<and>
      invitesOf st' = (invitesOf st)(ivID iv \<mapsto> iv)"
    by (auto simp: inMemoryCollabStore_def memCreateInvite_def collabOK_def invitesOf_def fun_eq_iff split: option.splits)
next
  fix st i at
  assume "collabOK st"
  then show "\<exists>st'. coAcceptInvite inMemoryCollabStore i at st = (None, st') \<and> collabOK st' \<and>
      entry [] (cmMembers st') = entry [] (cmMembers st) \<and> entry [] (cmChanges st') = entry [] (cmChanges st) \<and>
      invitesOf st' = (invitesOf st)(i := map_option (ivAcceptedAt_update (\<lambda>_. Some at)) (invitesOf st i))"
    by (auto simp: inMemoryCollabStore_def memAcceptInvite_def collabOK_def invitesOf_def fun_eq_iff split: option.splits)
next
  fix st and c :: change
  assume "collabOK st"
  then obtain g where g: "cmChanges st = Some g"
    and n: "entry 0 (cmRevision st) p = wrap64 (int (length (get_or [] g p)))" for p
    by (auto simp: collabOK_def)
  let ?p = "cgPlaylistID c" and ?rv = "case cmRevision st of None \<Rightarrow> [] | Some g \<Rightarrow> g"
  have rv: "get_or 0 ?rv q = entry 0 (cmRevision st) q" for q
    by (simp add: entry_def get_or_def split: option.splits)
  have next_rv: "wrap64 (get_or 0 ?rv ?p + 1) = wrap64 (int (length (get_or [] g ?p)) + 1)"
    by (simp add: rv n wrap64_Suc)
  have r: "coRecordChange inMemoryCollabStore c st =
      (None, st\<lparr>cmRevision := Some (put ?p (wrap64 (int (length (get_or [] g ?p)) + 1)) ?rv),
        cmChanges := Some (put ?p (get_or [] g ?p @ [c\<lparr>cgRevision := wrap64 (int (length (get_or [] g ?p)) + 1)\<rparr>]) g)\<rparr>)"
    by (simp add: inMemoryCollabStore_def memRecordChange_def Let_def g next_rv)
  show "\<exists>st'. coRecordChange inMemoryCollabStore c st = (None, st') \<and> collabOK st' \<and>
      entry [] (cmMembers st') = entry [] (cmMembers st) \<and> invitesOf st' = invitesOf st \<and>
      entry [] (cmChanges st') = (entry [] (cmChanges st))(?p := entry [] (cmChanges st) ?p @
        [c\<lparr>cgRevision := wrap64 (int (length (entry [] (cmChanges st) ?p)) + 1)\<rparr>])"
    using \<open>collabOK st\<close> by (auto simp: r collabOK_def invitesOf_def get_or_put_fun g rv n add.commute)
qed (simp_all add: inMemoryCollabStore_def memGetMember_def memGetInvite_def memListChanges_def invitesOf_def
    split: option.splits)

interpretation collab: collab_store inMemoryCollabStore "\<lambda>st. entry [] (cmMembers st)" invitesOf
    "\<lambda>st. entry [] (cmChanges st)" collabOK
  by (rule collab_store_mem)

text \<open>
  The store that the server wires in has nil maps and no member: no call changes it, so no
  playlist ever becomes collaborative.
\<close>

lemma collab_empty_inert: "runCollab inMemoryCollabStore c emptyCollab = emptyCollab"
  by (cases c) (simp_all add: InviteUser_def AcceptInvite_def RemoveUser_def ChangeRole_def RecordTrackChange_def
      inMemoryCollabStore_def memGetMember_def memGetInvite_def emptyCollab_def entry_def findMember_def)

text \<open>
  An invitation stays valid after it is accepted: accepting it twice lists the member twice,
  and a removal cuts out one of the two entries.
\<close>

definition exOwner :: member where
  "exOwner = \<lparr>mbPlaylistID = ''p'', mbUserID = ''ann'', mbHandle = '''', mbRole = ''OWNER'', mbJoinedAt = 0\<rparr>"

definition exCollab :: collab_mem where
  "exCollab = \<lparr>cmMembers = Some [(''p'', [exOwner])], cmInvites = None, cmChanges = Some [], cmRevision = None\<rparr>"

lemma collab_removed_member_remains:
  "let st = fold (runCollab inMemoryCollabStore)
       [CallInvite 1 ''p'' ''ann'' ''bob'' ''EDITOR'', CallAccept 2 2 ''p:bob:ann'' ''bob'',
        CallAccept 3 3 ''p:bob:ann'' ''bob'', CallRemove ''p'' ''ann'' ''bob''] exCollab
   in fst (RecordTrackChange inMemoryCollabStore 4 ''bob'' ''p'' ''add'' ''t'' 0 st) = None"
  by code_simp

lemma exCollab_ok: "collabOK exCollab"
  by (simp add: collabOK_def exCollab_def entry_def get_or_def wrap64_def)

section \<open>Properties\<close>

text \<open>
  C13: Access control: a call changes the members or roles of a playlist only if its user is
  an owner of it, or accepts an unexpired invitation addressed to that user (which appends
  exactly that membership with the invited role), or leaves; it writes to the change log
  only if its user may edit.
\<close>

theorem collab_access_control:
  assumes "collabOK st"
  shows "(entry [] (cmMembers (runCollab inMemoryCollabStore c st)) p = entry [] (cmMembers st) p \<or>
      roleIn (entry [] (cmMembers st) p) (actorOf c) CanManage \<or>
      (\<exists>t now i iv. c = CallAccept t now i (actorOf c) \<and> invitesOf st i = Some iv \<and>
         ivInviteeID iv = actorOf c \<and> ivPlaylistID iv = p \<and> t \<le> ivExpiresAt iv \<and>
         entry [] (cmMembers (runCollab inMemoryCollabStore c st)) p = entry [] (cmMembers st) p @
           [\<lparr>mbPlaylistID = p, mbUserID = actorOf c, mbHandle = '''', mbRole = ivRole iv, mbJoinedAt = now\<rparr>]) \<or>
      (c = CallRemove p (actorOf c) (actorOf c) \<and>
         entry [] (cmMembers (runCollab inMemoryCollabStore c st)) p = removeFirst (actorOf c) (entry [] (cmMembers st) p))) \<and>
    (entry [] (cmChanges (runCollab inMemoryCollabStore c st)) p = entry [] (cmChanges st) p \<or>
      roleIn (entry [] (cmMembers st) p) (actorOf c) CanEdit)"
  using collab.roster_changes [OF assms, of c p] collab.log_changes [OF assms, of c p] by blast

theorem collab_access_control_witness:
  "entry [] (cmMembers (runCollab inMemoryCollabStore (CallRole ''p'' ''bob'' ''bob'' ''OWNER'') exCollab)) ''p'' = [exOwner]"
  using collab_access_control [OF exCollab_ok, of "CallRole ''p'' ''bob'' ''bob'' ''OWNER''" "''p''"]
  by (simp add: exCollab_def exOwner_def entry_def get_or_def roleIn_def findMember_def)

text \<open>
  A client that pulls the changes since the revision it holds gets exactly the changes
  recorded after it, in order, whatever calls come in between: with the first \<open>k\<close> changes
  and the answer it holds the whole log.
\<close>

theorem collab_pull_exact:
  assumes "collabOK st" and "numbered (entry [] (cmChanges st) p)"
    and "length (entry [] (cmChanges (fold (runCollab inMemoryCollabStore) cs st)) p) < 2 ^ 63"
  shows "GetChanges inMemoryCollabStore p (int k) (fold (runCollab inMemoryCollabStore) cs st) =
    Inr (drop k (entry [] (cmChanges (fold (runCollab inMemoryCollabStore) cs st)) p))"
  using collab.pull_exact [OF assms] .

theorem collab_pull_exact_witness:
  "\<exists>g. GetChanges inMemoryCollabStore ''p'' 1 (fold (runCollab inMemoryCollabStore)
      [CallRecord 1 ''p'' ''ann'' ''add'' ''t1'' 0, CallRecord 2 ''p'' ''eve'' ''add'' ''t2'' 0,
       CallRecord 3 ''p'' ''ann'' ''remove'' ''t1'' 0] exCollab) = Inr [g] \<and> cgAction g = ''remove'' \<and> cgRevision g = 2"
proof -
  let ?cs = "[CallRecord 1 ''p'' ''ann'' ''add'' ''t1'' 0, CallRecord 2 ''p'' ''eve'' ''add'' ''t2'' 0,
    CallRecord 3 ''p'' ''ann'' ''remove'' ''t1'' 0]"
  have l: "entry [] (cmChanges (fold (runCollab inMemoryCollabStore) ?cs exCollab)) ''p'' =
    [\<lparr>cgID = '''', cgPlaylistID = ''p'', cgUserID = ''ann'', cgAction = ''add'', cgTrackID = ''t1'', cgPosition = 0,
      cgRevision = 1, cgCreatedAt = 1\<rparr>,
     \<lparr>cgID = '''', cgPlaylistID = ''p'', cgUserID = ''ann'', cgAction = ''remove'', cgTrackID = ''t1'', cgPosition = 0,
      cgRevision = 2, cgCreatedAt = 3\<rparr>]"
    by code_simp
  have n: "numbered (entry [] (cmChanges exCollab) ''p'')" by (simp add: exCollab_def numbered_def get_or_def)
  have "length (entry [] (cmChanges (fold (runCollab inMemoryCollabStore) ?cs exCollab)) ''p'') < 2 ^ 63"
    unfolding l by simp
  from collab_pull_exact [OF exCollab_ok n this, of 1, unfolded l] show ?thesis
    by (simp del: fold_simps runCollab.simps)
qed

text \<open>
  The collaboration store that the server wires in never changes: no sequence of calls
  of any users gives any playlist a member, an invitation or a change.
\<close>

theorem collab_server_store_inert:
  "fold (runCollab inMemoryCollabStore) cs emptyCollab = emptyCollab"
  by (induction cs) (simp_all add: collab_empty_inert)

end
