(* ===== verification/Market.thy ===== *)
theory Market
  imports Httpx
begin

text \<open>
  The extension marketplace: the service and handlers of \<open>backend/marketplace/\<close>, and the
  in-memory store of \<open>backend/stores.go\<close>. The \<open>Store\<close> interface is the record
  \<open>market_ops\<close>, its contract for reviews and installs the locale \<open>market_store\<close>. Ratings
  and averages are floating point numbers: their type and the division are the parameters
  \<open>'f\<close> and \<open>ratio\<close>. The order in which Go ranges over a map is the argument \<open>shuffle\<close>
  of the operations that do.
\<close>

section \<open>Data\<close>

datatype market_error = MarketNotFound | MarketInvalidInput | MarketAlreadyExists | MarketFailure

record 'f extension =
  exID :: string
  exName :: string
  exVersion :: string
  exDescription :: string
  exAuthorID :: string
  exAuthorName :: string
  exVerified :: bool
  exCategory :: string
  exDownloadURL :: string
  exIconURL :: string
  exScreenshots :: "string list"
  exRating :: 'f
  exRatingCount :: int
  exDownloads :: int
  exActiveInstalls :: int
  exDependencies :: "string list"
  exSizeBytes :: int
  exMinAppVersion :: string
  exCreatedAt :: time
  exUpdatedAt :: time

record review =
  rvID :: string
  rvExtensionID :: string
  rvUserID :: string
  rvRating :: int
  rvText :: string
  rvCreatedAt :: time
  rvUpdatedAt :: time

record install_record =
  irExtensionID :: string
  irUserID :: string
  irVersion :: string
  irInstalledAt :: time
  irUpdatedAt :: time
  irActive :: bool

record analytics_record =
  arExtensionID :: string
  arPeriod :: string
  arInstalls :: int
  arUninstalls :: int
  arCrashes :: int
  arAt :: time

record search_request =
  srQuery :: string
  srCategory :: string
  srSort :: string
  srLimit :: int
  srOffset :: int

section \<open>The store interface and the service\<close>

record ('f, 'st) market_ops =
  moGetExtension :: "string \<Rightarrow> 'st \<Rightarrow> market_error + 'f extension"
  moListExtensions :: "search_request \<Rightarrow> 'st \<Rightarrow> market_error + 'f extension list"
  moPublishExtension :: "'f extension \<Rightarrow> 'st \<Rightarrow> market_error option \<times> 'st"
  moUpdateExtension :: "'f extension \<Rightarrow> 'st \<Rightarrow> market_error option \<times> 'st"
  moGetReviews :: "string \<Rightarrow> int \<Rightarrow> int \<Rightarrow> 'st \<Rightarrow> market_error + review list"
  moAddReview :: "review \<Rightarrow> 'st \<Rightarrow> market_error option \<times> 'st"
  moGetAverageRating :: "string \<Rightarrow> 'st \<Rightarrow> market_error + 'f \<times> int"
  moInstall :: "install_record \<Rightarrow> 'st \<Rightarrow> market_error option \<times> 'st"
  moUninstall :: "string \<Rightarrow> string \<Rightarrow> 'st \<Rightarrow> market_error option \<times> 'st"
  moGetUserInstalls :: "string \<Rightarrow> 'st \<Rightarrow> market_error + install_record list"
  moCheckUpdates :: "string \<Rightarrow> 'st \<Rightarrow> market_error + 'f extension list"
  moRecordAnalytics :: "analytics_record \<Rightarrow> 'st \<Rightarrow> market_error option \<times> 'st"
  moGetAnalytics :: "string \<Rightarrow> string \<Rightarrow> 'st \<Rightarrow> market_error + analytics_record list"
  moSetVerified :: "string \<Rightarrow> bool \<Rightarrow> 'st \<Rightarrow> market_error option \<times> 'st"

definition Search :: "('f, 'st) market_ops \<Rightarrow> search_request \<Rightarrow> 'st \<Rightarrow> market_error + 'f extension list" where
  "Search ops req st =
     (let req1 = (if srLimit req \<le> 0 then req\<lparr>srLimit := 20\<rparr> else req);
          req2 = (if srLimit req1 > 100 then req1\<lparr>srLimit := 100\<rparr> else req1)
      in moListExtensions ops req2 st)"

definition GetExtension :: "('f, 'st) market_ops \<Rightarrow> string \<Rightarrow> 'st \<Rightarrow> market_error + 'f extension" where
  "GetExtension ops i st = (if i = '''' then Inl MarketInvalidInput else moGetExtension ops i st)"

definition InstallExtension ::
  "('f, 'st) market_ops \<Rightarrow> time \<Rightarrow> string \<Rightarrow> string \<Rightarrow> string \<Rightarrow> 'st \<Rightarrow> market_error option \<times> 'st" where
  "InstallExtension ops now extensionID userID version st =
     (if extensionID = '''' \<or> userID = '''' then (Some MarketInvalidInput, st)
      else moInstall ops
        \<lparr>irExtensionID = extensionID, irUserID = userID, irVersion = version, irInstalledAt = now,
         irUpdatedAt = now, irActive = True\<rparr> st)"

definition UninstallExtension ::
  "('f, 'st) market_ops \<Rightarrow> string \<Rightarrow> string \<Rightarrow> 'st \<Rightarrow> market_error option \<times> 'st" where
  "UninstallExtension ops extensionID userID st = moUninstall ops extensionID userID st"

definition svcAddReview ::
  "('f, 'st) market_ops \<Rightarrow> time \<Rightarrow> time \<Rightarrow> string \<Rightarrow> string \<Rightarrow> int \<Rightarrow> string \<Rightarrow> 'st \<Rightarrow> market_error option \<times> 'st" where
  "svcAddReview ops created updated extensionID userID rating txt st =
     (if extensionID = '''' \<or> userID = '''' then (Some MarketInvalidInput, st)
      else if rating < 1 \<or> rating > 5 then (Some MarketInvalidInput, st)
      else moAddReview ops
        \<lparr>rvID = extensionID @ '':'' @ userID, rvExtensionID = extensionID, rvUserID = userID,
         rvRating = rating, rvText = txt, rvCreatedAt = created, rvUpdatedAt = updated\<rparr> st)"

definition svcGetReviews ::
  "('f, 'st) market_ops \<Rightarrow> string \<Rightarrow> int \<Rightarrow> int \<Rightarrow> 'st \<Rightarrow> market_error + review list" where
  "svcGetReviews ops extensionID limit offset st =
     moGetReviews ops extensionID (if limit \<le> 0 then 20 else limit) offset st"

definition svcCheckUpdates :: "('f, 'st) market_ops \<Rightarrow> string \<Rightarrow> 'st \<Rightarrow> market_error + 'f extension list" where
  "svcCheckUpdates ops userID st = moCheckUpdates ops userID st"

text \<open>
  The loops of \<open>ResolveDependencies\<close>: the state is \<open>resolved\<close>; \<open>seen\<close> holds the extension
  itself and exactly what \<open>resolved\<close> holds, so membership in it is written out.
\<close>

fun addTransitive :: "string \<Rightarrow> string list \<Rightarrow> string list \<Rightarrow> string list" where
  "addTransitive root [] resolved = resolved"
| "addTransitive root (t # ts) resolved =
     addTransitive root ts (if t = root \<or> t \<in> set resolved then resolved else resolved @ [t])"

definition expandDep :: "(string \<Rightarrow> market_error + 'f extension) \<Rightarrow> string \<Rightarrow> string \<Rightarrow> string list \<Rightarrow> string list" where
  "expandDep lookup root dep resolved =
     (let resolved1 = resolved @ [dep]
      in case lookup dep of
           Inl _ \<Rightarrow> resolved1
         | Inr depExt \<Rightarrow> addTransitive root (exDependencies depExt) resolved1)"

fun resolveLoop :: "(string \<Rightarrow> market_error + 'f extension) \<Rightarrow> string \<Rightarrow> string list \<Rightarrow> string list \<Rightarrow> string list" where
  "resolveLoop lookup root [] resolved = resolved"
| "resolveLoop lookup root (dep # deps) resolved =
     resolveLoop lookup root deps
       (if dep = root \<or> dep \<in> set resolved then resolved else expandDep lookup root dep resolved)"

definition ResolveDependencies :: "('f, 'st) market_ops \<Rightarrow> string \<Rightarrow> 'st \<Rightarrow> market_error + string list" where
  "ResolveDependencies ops extensionID st =
     (case moGetExtension ops extensionID st of
        Inl e \<Rightarrow> Inl e
      | Inr ext \<Rightarrow> Inr (resolveLoop (\<lambda>i. moGetExtension ops i st) extensionID (exDependencies ext) []))"

section \<open>The in-memory store\<close>

text \<open>Every assignment makes its map first, so a nil map behaves as an empty one.\<close>

record 'f market_mem =
  mmExtensions :: "(string, 'f extension) gomap"
  mmReviews :: "(string, review list) gomap"
  mmInstalls :: "(string, (string, install_record) gomap) gomap"

definition emptyMarket :: "'f market_mem" where
  "emptyMarket = \<lparr>mmExtensions = [], mmReviews = [], mmInstalls = []\<rparr>"

definition memGetExtension :: "string \<Rightarrow> 'f market_mem \<Rightarrow> market_error + 'f extension" where
  "memGetExtension i st = (case map_of (mmExtensions st) i of None \<Rightarrow> Inl MarketNotFound | Some x \<Rightarrow> Inr x)"

definition memListExtensions ::
  "((string \<times> 'f extension) list \<Rightarrow> (string \<times> 'f extension) list) \<Rightarrow> search_request \<Rightarrow> 'f market_mem \<Rightarrow>
   market_error + 'f extension list" where
  "memListExtensions shuffle req st = Inr (map snd (shuffle (mmExtensions st)))"

definition memPublishExtension :: "'f extension \<Rightarrow> 'f market_mem \<Rightarrow> market_error option \<times> 'f market_mem" where
  "memPublishExtension x st = (None, st\<lparr>mmExtensions := put (exID x) x (mmExtensions st)\<rparr>)"

definition memUpdateExtension :: "'f extension \<Rightarrow> 'f market_mem \<Rightarrow> market_error option \<times> 'f market_mem" where
  "memUpdateExtension x st = memPublishExtension x st"

definition memGetReviews :: "string \<Rightarrow> int \<Rightarrow> int \<Rightarrow> 'f market_mem \<Rightarrow> market_error + review list" where
  "memGetReviews extensionID limit offset st = Inr (get_or [] (mmReviews st) extensionID)"

definition memAddReview :: "review \<Rightarrow> 'f market_mem \<Rightarrow> market_error option \<times> 'f market_mem" where
  "memAddReview r st =
     (None, st\<lparr>mmReviews := put (rvExtensionID r) (get_or [] (mmReviews st) (rvExtensionID r) @ [r]) (mmReviews st)\<rparr>)"

text \<open>\<open>ratio a b\<close> stands for \<open>float64(a) / float64(b)\<close>, \<open>nil0\<close> for the constant 0.\<close>

definition memGetAverageRating ::
  "(int \<Rightarrow> int \<Rightarrow> 'f) \<Rightarrow> 'f \<Rightarrow> string \<Rightarrow> 'f market_mem \<Rightarrow> market_error + 'f \<times> int" where
  "memGetAverageRating ratio nil0 extensionID st =
     (let reviews = get_or [] (mmReviews st) extensionID
      in if length reviews = 0 then Inr (nil0, 0)
         else Inr (ratio (sum_list (map rvRating reviews)) (int (length reviews)), int (length reviews)))"

definition memInstall :: "install_record \<Rightarrow> 'f market_mem \<Rightarrow> market_error option \<times> 'f market_mem" where
  "memInstall r st =
     (None, st\<lparr>mmInstalls := put (irExtensionID r)
        (put (irUserID r) r (get_or [] (mmInstalls st) (irExtensionID r))) (mmInstalls st)\<rparr>)"

definition memUninstall :: "string \<Rightarrow> string \<Rightarrow> 'f market_mem \<Rightarrow> market_error option \<times> 'f market_mem" where
  "memUninstall extensionID userID st =
     (None,
      case map_of (mmInstalls st) extensionID of
        None \<Rightarrow> st
      | Some userInstalls \<Rightarrow> st\<lparr>mmInstalls := put extensionID (del userID userInstalls) (mmInstalls st)\<rparr>)"

definition memGetUserInstalls ::
  "((string \<times> (string, install_record) gomap) list \<Rightarrow> (string \<times> (string, install_record) gomap) list) \<Rightarrow>
   string \<Rightarrow> 'f market_mem \<Rightarrow> market_error + install_record list" where
  "memGetUserInstalls shuffle userID st =
     Inr (List.map_filter (\<lambda>(_, userInstalls). map_of userInstalls userID) (shuffle (mmInstalls st)))"

definition memCheckUpdates :: "string \<Rightarrow> 'f market_mem \<Rightarrow> market_error + 'f extension list" where
  "memCheckUpdates userID st = Inr []"

definition memRecordAnalytics :: "analytics_record \<Rightarrow> 'f market_mem \<Rightarrow> market_error option \<times> 'f market_mem" where
  "memRecordAnalytics r st = (None, st)"

definition memGetAnalytics :: "string \<Rightarrow> string \<Rightarrow> 'f market_mem \<Rightarrow> market_error + analytics_record list" where
  "memGetAnalytics extensionID period st = Inr []"

definition memSetVerified :: "string \<Rightarrow> bool \<Rightarrow> 'f market_mem \<Rightarrow> market_error option \<times> 'f market_mem" where
  "memSetVerified extensionID verified st =
     (None,
      case map_of (mmExtensions st) extensionID of
        None \<Rightarrow> st
      | Some x \<Rightarrow> st\<lparr>mmExtensions := put extensionID (x\<lparr>exVerified := verified\<rparr>) (mmExtensions st)\<rparr>)"

definition inMemoryMarketStore :: "(int \<Rightarrow> int \<Rightarrow> 'f) \<Rightarrow> 'f \<Rightarrow> ('f, 'f market_mem) market_ops" where
  "inMemoryMarketStore ratio nil0 =
     \<lparr>moGetExtension = memGetExtension, moListExtensions = memListExtensions id,
      moPublishExtension = memPublishExtension, moUpdateExtension = memUpdateExtension,
      moGetReviews = memGetReviews, moAddReview = memAddReview,
      moGetAverageRating = memGetAverageRating ratio nil0, moInstall = memInstall,
      moUninstall = memUninstall, moGetUserInstalls = memGetUserInstalls id,
      moCheckUpdates = memCheckUpdates, moRecordAnalytics = memRecordAnalytics,
      moGetAnalytics = memGetAnalytics, moSetVerified = memSetVerified\<rparr>"

section \<open>Handlers\<close>

definition marketUserID :: "req_context \<Rightarrow> string" where
  "marketUserID ctx = ctxString MarketUserID ctx"

definition MarketWithUserID :: "req_context \<Rightarrow> string \<Rightarrow> req_context" where
  "MarketWithUserID ctx userID = (MarketUserID, userID) # ctx"

definition writeMarketError :: "market_error \<Rightarrow> 'b http_response" where
  "writeMarketError e =
     (case e of
        MarketNotFound \<Rightarrow> WriteError StatusNotFound ''extension not found''
      | MarketInvalidInput \<Rightarrow> WriteError StatusBadRequest ''invalid input''
      | MarketAlreadyExists \<Rightarrow> WriteError StatusConflict ''already exists''
      | MarketFailure \<Rightarrow> WriteError StatusInternalServerError ''internal error'')"

text \<open>A query parameter read with \<open>strconv.Atoi\<close>: kept when it parses, else the default.\<close>

definition intParam :: "int \<Rightarrow> string \<Rightarrow> int" where
  "intParam dflt v =
     (if v \<noteq> '''' then (case parseInt64 v of Some n \<Rightarrow> n | None \<Rightarrow> dflt) else dflt)"

definition searchHandler ::
  "('f, 'st) market_ops \<Rightarrow> string \<Rightarrow> string \<Rightarrow> string \<Rightarrow> string \<Rightarrow> string \<Rightarrow> 'st \<Rightarrow> 'f extension list http_response" where
  "searchHandler ops q category sortText limitText offsetText st =
     (let req = \<lparr>srQuery = q, srCategory = category, srSort = sortText,
                 srLimit = intParam 0 limitText, srOffset = intParam 0 offsetText\<rparr>
      in case Search ops req st of
           Inl e \<Rightarrow> writeMarketError e
         | Inr xs \<Rightarrow> WriteJSON StatusOK xs)"

definition getExtensionHandler :: "('f, 'st) market_ops \<Rightarrow> string \<Rightarrow> 'st \<Rightarrow> 'f extension http_response" where
  "getExtensionHandler ops i st =
     (case GetExtension ops i st of
        Inl e \<Rightarrow> writeMarketError e
      | Inr x \<Rightarrow> WriteJSON StatusOK x)"

text \<open>
  The decoding error of the install body is ignored: \<open>version\<close> is what the decoder left in
  the field, the empty string when it set nothing.
\<close>

definition installHandler ::
  "('f, 'st) market_ops \<Rightarrow> time \<Rightarrow> req_context \<Rightarrow> string \<Rightarrow> string \<Rightarrow> 'st \<Rightarrow> string http_response \<times> 'st" where
  "installHandler ops now ctx i version st =
     (case InstallExtension ops now i (marketUserID ctx) version st of
        (Some e, st') \<Rightarrow> (writeMarketError e, st')
      | (None, st') \<Rightarrow> (WriteJSON StatusCreated '''', st'))"

definition uninstallHandler ::
  "('f, 'st) market_ops \<Rightarrow> req_context \<Rightarrow> string \<Rightarrow> 'st \<Rightarrow> string http_response \<times> 'st" where
  "uninstallHandler ops ctx i st =
     (case UninstallExtension ops i (marketUserID ctx) st of
        (Some e, st') \<Rightarrow> (writeMarketError e, st')
      | (None, st') \<Rightarrow> (WriteJSON StatusNoContent '''', st'))"

definition getReviewsHandler ::
  "('f, 'st) market_ops \<Rightarrow> string \<Rightarrow> string \<Rightarrow> string \<Rightarrow> 'st \<Rightarrow> review list http_response" where
  "getReviewsHandler ops i limitText offsetText st =
     (let limit = intParam 20 limitText; offset = intParam 0 offsetText
      in case svcGetReviews ops i limit offset st of
           Inl e \<Rightarrow> writeMarketError e
         | Inr rs \<Rightarrow> WriteJSON StatusOK rs)"

definition addReviewHandler ::
  "('f, 'st) market_ops \<Rightarrow> time \<Rightarrow> time \<Rightarrow> req_context \<Rightarrow> string \<Rightarrow> string + int \<times> string \<Rightarrow> 'st \<Rightarrow>
   string http_response \<times> 'st" where
  "addReviewHandler ops created updated ctx i body st =
     (case body of
        Inl _ \<Rightarrow> (WriteError StatusBadRequest ''invalid body'', st)
      | Inr (rating, txt) \<Rightarrow>
          (case svcAddReview ops created updated i (marketUserID ctx) rating txt st of
             (Some e, st') \<Rightarrow> (writeMarketError e, st')
           | (None, st') \<Rightarrow> (WriteJSON StatusCreated '''', st')))"

definition checkUpdatesHandler :: "('f, 'st) market_ops \<Rightarrow> req_context \<Rightarrow> 'st \<Rightarrow> 'f extension list http_response" where
  "checkUpdatesHandler ops ctx st =
     (case svcCheckUpdates ops (marketUserID ctx) st of
        Inl e \<Rightarrow> writeMarketError e
      | Inr xs \<Rightarrow> WriteJSON StatusOK xs)"

definition getDependenciesHandler :: "('f, 'st) market_ops \<Rightarrow> string \<Rightarrow> 'st \<Rightarrow> string list http_response" where
  "getDependenciesHandler ops i st =
     (case ResolveDependencies ops i st of
        Inl e \<Rightarrow> writeMarketError e
      | Inr ds \<Rightarrow> WriteJSON StatusOK ds)"

section \<open>Dependency resolution\<close>

definition dependsOn :: "(string \<Rightarrow> market_error + 'f extension) \<Rightarrow> string \<Rightarrow> string \<Rightarrow> bool" where
  "dependsOn lookup a b \<longleftrightarrow> (\<exists>x. lookup a = Inr x \<and> b \<in> set (exDependencies x))"

lemma addTransitive_distinct:
  "distinct resolved \<Longrightarrow> root \<notin> set resolved \<Longrightarrow>
   distinct (addTransitive root ts resolved) \<and> root \<notin> set (addTransitive root ts resolved)"
  by (induction ts arbitrary: resolved) auto

lemma addTransitive_set: "set (addTransitive root ts resolved) = set resolved \<union> (set ts - {root})"
  by (induction ts arbitrary: resolved) auto

lemma expandDep_distinct:
  "distinct resolved \<Longrightarrow> root \<notin> set resolved \<Longrightarrow> d \<noteq> root \<Longrightarrow> d \<notin> set resolved \<Longrightarrow>
   distinct (expandDep lookup root d resolved) \<and> root \<notin> set (expandDep lookup root d resolved)"
  using addTransitive_distinct [of "resolved @ [d]" root]
  by (auto simp: expandDep_def Let_def split: sum.split)

lemma expandDep_set: "set (expandDep lookup root d resolved) = insert d (set resolved) \<union> ({y. dependsOn lookup d y} - {root})"
  by (auto simp: expandDep_def Let_def addTransitive_set dependsOn_def split: sum.split)

lemma resolveLoop_distinct:
  "distinct resolved \<Longrightarrow> root \<notin> set resolved \<Longrightarrow>
   distinct (resolveLoop lookup root deps resolved) \<and> root \<notin> set (resolveLoop lookup root deps resolved)"
  by (induction deps arbitrary: resolved) (simp_all add: expandDep_distinct)

lemma resolveLoop_keeps: "set resolved \<subseteq> set (resolveLoop lookup root deps resolved)"
proof (induction deps arbitrary: resolved)
  case (Cons d deps)
  from Cons.IH [of "expandDep lookup root d resolved"] Cons.IH [of resolved]
  show ?case by (simp add: expandDep_set)
qed simp

lemma resolveLoop_direct: "set deps - {root} \<subseteq> set (resolveLoop lookup root deps resolved)"
proof (induction deps arbitrary: resolved)
  case (Cons d deps)
  from Cons.IH [of "expandDep lookup root d resolved"] Cons.IH [of resolved]
    resolveLoop_keeps [of "expandDep lookup root d resolved" lookup root deps]
    resolveLoop_keeps [of resolved lookup root deps]
  show ?case by (auto simp: expandDep_set)
qed simp

lemma resolveLoop_sound:
  assumes "\<And>d. d \<in> set deps \<Longrightarrow> (dependsOn lookup)\<^sup>+\<^sup>+ root d"
    and "\<And>d. d \<in> set resolved \<Longrightarrow> (dependsOn lookup)\<^sup>+\<^sup>+ root d"
  shows "x \<in> set (resolveLoop lookup root deps resolved) \<Longrightarrow> (dependsOn lookup)\<^sup>+\<^sup>+ root x"
  using assms
proof (induction deps arbitrary: resolved)
  case (Cons d deps)
  let ?r = "if d = root \<or> d \<in> set resolved then resolved else expandDep lookup root d resolved"
  have "(dependsOn lookup)\<^sup>+\<^sup>+ root y" if "y \<in> set ?r" for y
    using that Cons.prems(2) [of d] Cons.prems(3) tranclp.trancl_into_trancl [of "dependsOn lookup" root d]
    by (auto simp: expandDep_set split: if_splits)
  with Cons.IH [of ?r] Cons.prems show ?case by simp
qed simp

section \<open>What a marketplace store promises\<close>

locale market_store =
  fixes ops :: "('f, 'st) market_ops"
    and published :: "'st \<Rightarrow> string \<Rightarrow> 'f extension option"
    and installed :: "'st \<Rightarrow> string \<Rightarrow> string \<Rightarrow> install_record option"
    and reviews :: "'st \<Rightarrow> string \<Rightarrow> review list"
    and ok :: "'st \<Rightarrow> bool"
  assumes get_published: "moGetExtension ops i st = (case published st i of None \<Rightarrow> Inl MarketNotFound | Some x \<Rightarrow> Inr x)"
    and install_rec: "ok st \<Longrightarrow> \<exists>st'. moInstall ops r st = (None, st') \<and> ok st' \<and> published st' = published st \<and>
        reviews st' = reviews st \<and>
        installed st' = (installed st)(irExtensionID r := (installed st (irExtensionID r))(irUserID r \<mapsto> r))"
    and uninstall_rec: "ok st \<Longrightarrow> \<exists>st'. moUninstall ops e u st = (None, st') \<and> ok st' \<and> published st' = published st \<and>
        reviews st' = reviews st \<and> installed st' = (installed st)(e := (installed st e)(u := None))"
    and user_installs: "ok st \<Longrightarrow> \<exists>rs. moGetUserInstalls ops u st = Inr rs \<and> set rs = {r. \<exists>e. installed st e u = Some r}"
    and add_review: "ok st \<Longrightarrow> \<exists>st'. moAddReview ops v st = (None, st') \<and> ok st' \<and> published st' = published st \<and>
        installed st' = installed st \<and> reviews st' = (reviews st)(rvExtensionID v := reviews st (rvExtensionID v) @ [v])"
    and get_reviews: "moGetReviews ops e limit offset st = Inr (reviews st e)"
begin

lemma install_then_listed:
  assumes "ok st" and "e \<noteq> ''''" and "u \<noteq> ''''"
  shows "\<exists>st' rs. InstallExtension ops now e u v st = (None, st') \<and> moGetUserInstalls ops u st' = Inr rs \<and>
    \<lparr>irExtensionID = e, irUserID = u, irVersion = v, irInstalledAt = now, irUpdatedAt = now, irActive = True\<rparr> \<in> set rs"
proof -
  let ?r = "\<lparr>irExtensionID = e, irUserID = u, irVersion = v, irInstalledAt = now, irUpdatedAt = now, irActive = True\<rparr>"
  from install_rec [OF assms(1), of ?r] obtain st' where st': "moInstall ops ?r st = (None, st')" "ok st'"
    "installed st' = (installed st)(e := (installed st e)(u \<mapsto> ?r))" by auto
  from user_installs [OF st'(2), of u] st'(1,3) assms(2,3) show ?thesis
    by (auto simp: InstallExtension_def)
qed

text \<open>A user's second review stands beside the first one.\<close>

lemma review_twice:
  assumes "ok st" and "e \<noteq> ''''" and "u \<noteq> ''''" and "1 \<le> a" "a \<le> 5" "1 \<le> b" "b \<le> 5"
  shows "\<exists>st1 st2 rs r1 r2. svcAddReview ops t1 t1 e u a x st = (None, st1) \<and>
    svcAddReview ops t2 t2 e u b y st1 = (None, st2) \<and> svcGetReviews ops e limit offset st2 = Inr (rs @ [r1, r2]) \<and>
    rvID r1 = rvID r2 \<and> rvRating r1 = a \<and> rvRating r2 = b"
proof -
  let ?r = "\<lambda>t n z. \<lparr>rvID = e @ '':'' @ u, rvExtensionID = e, rvUserID = u, rvRating = n, rvText = z,
    rvCreatedAt = t, rvUpdatedAt = t\<rparr>"
  from add_review [OF assms(1), of "?r t1 a x"] obtain st1 where st1: "moAddReview ops (?r t1 a x) st = (None, st1)"
    "ok st1" "reviews st1 = (reviews st)(e := reviews st e @ [?r t1 a x])" by auto
  from add_review [OF st1(2), of "?r t2 b y"] obtain st2 where st2: "moAddReview ops (?r t2 b y) st1 = (None, st2)"
    "reviews st2 = (reviews st1)(e := reviews st1 e @ [?r t2 b y])" by auto
  have "svcGetReviews ops e limit offset st2 = Inr (reviews st e @ [?r t1 a x, ?r t2 b y])"
    by (simp add: svcGetReviews_def get_reviews st1 st2)
  then show ?thesis using assms(2-) st1(1) st2(1)
    by (intro exI [of _ st1] exI [of _ st2] exI [of _ "reviews st e"] exI [of _ "?r t1 a x"] exI [of _ "?r t2 b y"])
       (simp add: svcAddReview_def)
qed

end

definition memInstalled :: "'f market_mem \<Rightarrow> string \<Rightarrow> string \<Rightarrow> install_record option" where
  "memInstalled st e u = map_of (get_or [] (mmInstalls st) e) u"

lemma memInstalled_frame [simp]:
  "memInstalled (st\<lparr>mmReviews := a\<rparr>) = memInstalled st"
  "memInstalled (st\<lparr>mmExtensions := b\<rparr>) = memInstalled st"
  by (simp_all add: memInstalled_def fun_eq_iff)

lemma set_map_filter_values:
  "wf_map g \<Longrightarrow> set (List.map_filter (\<lambda>(_, m). map_of m u) g) = {r. \<exists>e. map_of (get_or [] g e) u = Some r}"
proof -
  assume wf: "wf_map g"
  have "set (List.map_filter (\<lambda>(_, m). map_of m u) g) = {r. \<exists>e m. (e, m) \<in> set g \<and> map_of m u = Some r}"
    by (force simp: List.map_filter_def)
  also have "\<dots> = {r. \<exists>e m. map_of g e = Some m \<and> map_of m u = Some r}"
    by (simp add: in_set_map_of [OF wf])
  also have "\<dots> = {r. \<exists>e. map_of (get_or [] g e) u = Some r}"
    by (auto simp: get_or_def split: option.splits)
  finally show ?thesis .
qed

interpretation market: market_store "inMemoryMarketStore ratio nil0" "\<lambda>st. map_of (mmExtensions st)" memInstalled
    "\<lambda>st. get_or [] (mmReviews st)" "\<lambda>st. wf_map (mmInstalls st)" for ratio :: "int \<Rightarrow> int \<Rightarrow> 'f" and nil0
proof
  fix st :: "'f market_mem" and r
  assume "wf_map (mmInstalls st)"
  then show "\<exists>st'. moInstall (inMemoryMarketStore ratio nil0) r st = (None, st') \<and> wf_map (mmInstalls st') \<and>
      map_of (mmExtensions st') = map_of (mmExtensions st) \<and> get_or [] (mmReviews st') = get_or [] (mmReviews st) \<and>
      memInstalled st' = (memInstalled st)(irExtensionID r := (memInstalled st (irExtensionID r))(irUserID r \<mapsto> r))"
    by (auto simp: inMemoryMarketStore_def memInstall_def memInstalled_def fun_eq_iff)
next
  fix st :: "'f market_mem" and e u
  assume "wf_map (mmInstalls st)"
  then show "\<exists>st'. moUninstall (inMemoryMarketStore ratio nil0) e u st = (None, st') \<and> wf_map (mmInstalls st') \<and>
      map_of (mmExtensions st') = map_of (mmExtensions st) \<and> get_or [] (mmReviews st') = get_or [] (mmReviews st) \<and>
      memInstalled st' = (memInstalled st)(e := (memInstalled st e)(u := None))"
    by (auto simp: inMemoryMarketStore_def memUninstall_def memInstalled_def get_or_def fun_eq_iff split: option.splits)
next
  fix st :: "'f market_mem" and u
  assume "wf_map (mmInstalls st)"
  then show "\<exists>rs. moGetUserInstalls (inMemoryMarketStore ratio nil0) u st = Inr rs \<and>
      set rs = {r. \<exists>e. memInstalled st e u = Some r}"
    by (simp add: inMemoryMarketStore_def memGetUserInstalls_def memInstalled_def set_map_filter_values)
next
  fix st :: "'f market_mem" and r
  assume "wf_map (mmInstalls st)"
  then show "\<exists>st'. moAddReview (inMemoryMarketStore ratio nil0) r st = (None, st') \<and> wf_map (mmInstalls st') \<and>
      map_of (mmExtensions st') = map_of (mmExtensions st) \<and> memInstalled st' = memInstalled st \<and>
      get_or [] (mmReviews st') = (get_or [] (mmReviews st))(rvExtensionID r := get_or [] (mmReviews st) (rvExtensionID r) @ [r])"
    by (auto simp: inMemoryMarketStore_def memAddReview_def fun_eq_iff)
qed (simp_all add: inMemoryMarketStore_def memGetExtension_def memGetReviews_def)

text \<open>
  The order of the listed dependencies decides what is found: a direct dependency that an
  earlier one has already pulled in is not expanded.
\<close>

definition exExtension :: "string \<Rightarrow> string list \<Rightarrow> int extension" where
  "exExtension i deps = \<lparr>exID = i, exName = i, exVersion = ''1'', exDescription = '''', exAuthorID = '''',
     exAuthorName = '''', exVerified = False, exCategory = '''', exDownloadURL = '''', exIconURL = '''',
     exScreenshots = [], exRating = 0, exRatingCount = 0, exDownloads = 0, exActiveInstalls = 0,
     exDependencies = deps, exSizeBytes = 0, exMinAppVersion = '''', exCreatedAt = 0, exUpdatedAt = 0\<rparr>"

definition exMarket :: "int market_mem" where
  "exMarket = emptyMarket\<lparr>mmExtensions :=
     map (\<lambda>(i, deps). (i, exExtension i deps))
       [(''x'', [''a'', ''b'']), (''y'', [''b'', ''a'']), (''a'', [''b'']), (''b'', [''c'', ''x'']), (''c'', [''d''])]\<rparr>"

lemma market_dependencies_order:
  "ResolveDependencies (inMemoryMarketStore (div) 0) ''x'' exMarket = Inr [''a'', ''b'']"
  "ResolveDependencies (inMemoryMarketStore (div) 0) ''y'' exMarket = Inr [''b'', ''c'', ''x'', ''a'']"
  by code_simp+

section \<open>Properties\<close>

text \<open>
  Dependency resolution returns each dependency once and never the extension itself,
  every direct dependency, and nothing that the extension does not depend on through some
  chain of published extensions; it terminates on cyclic dependencies.
\<close>

theorem market_dependencies_sound:
  assumes "ResolveDependencies ops i st = Inr ds" and "moGetExtension ops i st = Inr x"
  shows "distinct ds \<and> i \<notin> set ds \<and> set (exDependencies x) - {i} \<subseteq> set ds \<and>
    (\<forall>d \<in> set ds. (dependsOn (\<lambda>j. moGetExtension ops j st))\<^sup>+\<^sup>+ i d)"
proof -
  let ?f = "\<lambda>j. moGetExtension ops j st"
  have ds: "ds = resolveLoop ?f i (exDependencies x) []"
    using assms by (simp add: ResolveDependencies_def)
  have "(dependsOn ?f)\<^sup>+\<^sup>+ i d" if "d \<in> set (exDependencies x)" for d
    using assms(2) that by (auto intro!: tranclp.r_into_trancl simp: dependsOn_def)
  then have "\<forall>d \<in> set ds. (dependsOn ?f)\<^sup>+\<^sup>+ i d"
    unfolding ds using resolveLoop_sound [of "exDependencies x" ?f i "[]"] by auto
  then show ?thesis
    using resolveLoop_distinct [of "[]" i ?f "exDependencies x"] resolveLoop_direct [of "exDependencies x" i ?f "[]"]
    by (simp add: ds)
qed

theorem market_dependencies_sound_witness:
  "(dependsOn (\<lambda>j. moGetExtension (inMemoryMarketStore (div) 0) j exMarket))\<^sup>+\<^sup>+ ''y'' ''c''"
proof -
  have x: "moGetExtension (inMemoryMarketStore (div) 0) ''y'' exMarket = Inr (exExtension ''y'' [''b'', ''a''])"
    by (simp add: inMemoryMarketStore_def memGetExtension_def exMarket_def emptyMarket_def)
  from market_dependencies_sound [OF market_dependencies_order(2) x] show ?thesis by simp
qed

end
