(* ===== verification/Telemetry.thy ===== *)
theory Telemetry
  imports Httpx
begin

text \<open>
  Telemetry: the service and handlers of \<open>backend/telemetry/\<close>, and the in-memory store of
  \<open>backend/stores.go\<close>. The \<open>Store\<close> interface is the record \<open>tel_ops\<close>, its contract the
  locale \<open>tel_store\<close>. Percentages and error rates are floating point numbers of the
  parameter type \<open>'f\<close>: \<open>percent a b\<close> stands for \<open>float64(a) / float64(b) * 100\<close>, \<open>num n\<close>
  for the constant \<open>n\<close>.
\<close>

section \<open>Data\<close>

datatype tel_error = TelInvalidInput | TelQuotaExceeded | TelFailure

type_synonym event_type = string

definition EventCrash :: event_type where "EventCrash = ''crash''"
definition EventPerformance :: event_type where "EventPerformance = ''performance''"
definition EventSync :: event_type where "EventSync = ''sync''"
definition EventStreaming :: event_type where "EventStreaming = ''streaming''"
definition EventPlayback :: event_type where "EventPlayback = ''playback''"
definition EventDownload :: event_type where "EventDownload = ''download''"

record tel_event =
  teID :: string
  teUserID :: string
  teDeviceID :: string
  teType :: event_type
  teSeverity :: string
  teCategory :: string
  teMessage :: string
  teStacktrace :: string
  teMetadata :: "(string, string) gomap"
  teDurationMs :: int
  teSuccess :: "bool option"
  teProviderID :: string
  teCreatedAt :: time

definition validateEvent :: "tel_event \<Rightarrow> tel_error option" where
  "validateEvent e =
     (if teUserID e = '''' \<or> teDeviceID e = '''' then Some TelInvalidInput
      else if teType e = '''' then Some TelInvalidInput
      else if length (teMessage e) > 4096 then Some TelInvalidInput
      else if length (teStacktrace e) > 65536 then Some TelInvalidInput
      else None)"

record 'f metrics_summary =
  msPeriod :: string
  msPlaybackSuccess :: 'f
  msStreamFailures :: int
  msDownloadFailures :: int
  msProviderAvailable :: 'f
  msSyncLatencyMs :: int
  msCrashCount :: int
  msActiveUsers :: int

record 'f provider_health =
  phProviderID :: string
  phAvailable :: bool
  phLatencyMs :: int
  phErrorRate :: 'f
  phLastChecked :: time

section \<open>The store interface and the service\<close>

record ('f, 'st) tel_ops =
  toIngest :: "tel_event \<Rightarrow> 'st \<Rightarrow> tel_error option \<times> 'st"
  toQuery :: "string \<Rightarrow> event_type \<Rightarrow> time \<Rightarrow> int \<Rightarrow> 'st \<Rightarrow> tel_error + tel_event list"
  toSummarize :: "string \<Rightarrow> time \<Rightarrow> 'st \<Rightarrow> tel_error + 'f metrics_summary"
  toProviderHealth :: "'st \<Rightarrow> tel_error + 'f provider_health list"
  toRecordProviderHealth :: "'f provider_health \<Rightarrow> 'st \<Rightarrow> tel_error option \<times> 'st"

definition svcIngest :: "('f, 'st) tel_ops \<Rightarrow> time \<Rightarrow> tel_event \<Rightarrow> 'st \<Rightarrow> tel_error option \<times> 'st" where
  "svcIngest ops now e st =
     (case validateEvent e of
        Some err \<Rightarrow> (Some err, st)
      | None \<Rightarrow> toIngest ops (if teCreatedAt e = zero_time then e\<lparr>teCreatedAt := now\<rparr> else e) st)"

definition svcQuery ::
  "('f, 'st) tel_ops \<Rightarrow> string \<Rightarrow> event_type \<Rightarrow> time \<Rightarrow> int \<Rightarrow> 'st \<Rightarrow> tel_error + tel_event list" where
  "svcQuery ops userID eventType since limit st =
     toQuery ops userID eventType since (if limit \<le> 0 \<or> limit > 500 then 100 else limit) st"

definition svcSummary :: "('f, 'st) tel_ops \<Rightarrow> string \<Rightarrow> time \<Rightarrow> 'st \<Rightarrow> tel_error + 'f metrics_summary" where
  "svcSummary ops period since st = toSummarize ops period since st"

definition GetProviderHealth :: "('f, 'st) tel_ops \<Rightarrow> 'st \<Rightarrow> tel_error + 'f provider_health list" where
  "GetProviderHealth ops st = toProviderHealth ops st"

section \<open>The in-memory store\<close>

record 'f tel_mem =
  tmEvents :: "tel_event list"
  tmHealth :: "(string, 'f provider_health) gomap"

definition emptyTel :: "'f tel_mem" where
  "emptyTel = \<lparr>tmEvents = [], tmHealth = []\<rparr>"

definition memIngest :: "tel_event \<Rightarrow> 'f tel_mem \<Rightarrow> tel_error option \<times> 'f tel_mem" where
  "memIngest e st =
     (let events = tmEvents st @ [e]
      in (None, st\<lparr>tmEvents := (if length events > 10000 then drop (length events - 10000) events else events)\<rparr>))"

text \<open>The loop of \<open>Query\<close>: \<open>result\<close> is what it has collected.\<close>

fun queryLoop :: "string \<Rightarrow> event_type \<Rightarrow> time \<Rightarrow> int \<Rightarrow> tel_event list \<Rightarrow> tel_event list \<Rightarrow> tel_event list" where
  "queryLoop userID eventType since limit [] result = result"
| "queryLoop userID eventType since limit (e # es) result =
     (if teUserID e \<noteq> userID then queryLoop userID eventType since limit es result
      else if eventType \<noteq> '''' \<and> teType e \<noteq> eventType then queryLoop userID eventType since limit es result
      else if teCreatedAt e < since then queryLoop userID eventType since limit es result
      else
        let result' = result @ [e]
        in if int (length result') \<ge> limit then result'
           else queryLoop userID eventType since limit es result')"

definition memQuery ::
  "string \<Rightarrow> event_type \<Rightarrow> time \<Rightarrow> int \<Rightarrow> 'f tel_mem \<Rightarrow> tel_error + tel_event list" where
  "memQuery userID eventType since limit st = Inr (queryLoop userID eventType since limit (tmEvents st) [])"

record tel_tally =
  tyTotal :: int
  tySuccesses :: int
  tyStreamFails :: int
  tyDownloadFails :: int
  tyCrashes :: int

definition tallyEvent :: "time \<Rightarrow> tel_event \<Rightarrow> tel_tally \<Rightarrow> tel_tally" where
  "tallyEvent since e t =
     (if teCreatedAt e < since then t
      else if teType e = ''playback_result'' then
        (let t1 = t\<lparr>tyTotal := tyTotal t + 1\<rparr>
         in if teSuccess e = Some True then t1\<lparr>tySuccesses := tySuccesses t1 + 1\<rparr> else t1)
      else if teType e = ''stream_failure'' then t\<lparr>tyStreamFails := tyStreamFails t + 1\<rparr>
      else if teType e = ''download_failure'' then t\<lparr>tyDownloadFails := tyDownloadFails t + 1\<rparr>
      else if teType e = ''crash'' then t\<lparr>tyCrashes := tyCrashes t + 1\<rparr>
      else t)"

definition memSummarize ::
  "(int \<Rightarrow> int \<Rightarrow> 'f) \<Rightarrow> (int \<Rightarrow> 'f) \<Rightarrow> string \<Rightarrow> time \<Rightarrow> 'f tel_mem \<Rightarrow> tel_error + 'f metrics_summary" where
  "memSummarize percent num period since st =
     (let t = fold (tallyEvent since) (tmEvents st)
            \<lparr>tyTotal = 0, tySuccesses = 0, tyStreamFails = 0, tyDownloadFails = 0, tyCrashes = 0\<rparr>;
          rate = (if tyTotal t > 0 then percent (tySuccesses t) (tyTotal t) else num 0)
      in Inr \<lparr>msPeriod = period, msPlaybackSuccess = rate, msStreamFailures = tyStreamFails t,
              msDownloadFailures = tyDownloadFails t, msProviderAvailable = num 100, msSyncLatencyMs = 0,
              msCrashCount = tyCrashes t, msActiveUsers = 0\<rparr>)"

definition memProviderHealth ::
  "((string \<times> 'f provider_health) list \<Rightarrow> (string \<times> 'f provider_health) list) \<Rightarrow> 'f tel_mem \<Rightarrow>
   tel_error + 'f provider_health list" where
  "memProviderHealth shuffle st = Inr (map snd (shuffle (tmHealth st)))"

definition memRecordProviderHealth :: "'f provider_health \<Rightarrow> 'f tel_mem \<Rightarrow> tel_error option \<times> 'f tel_mem" where
  "memRecordProviderHealth h st = (None, st\<lparr>tmHealth := put (phProviderID h) h (tmHealth st)\<rparr>)"

definition inMemoryTelStore :: "(int \<Rightarrow> int \<Rightarrow> 'f) \<Rightarrow> (int \<Rightarrow> 'f) \<Rightarrow> ('f, 'f tel_mem) tel_ops" where
  "inMemoryTelStore percent num =
     \<lparr>toIngest = memIngest, toQuery = memQuery, toSummarize = memSummarize percent num,
      toProviderHealth = memProviderHealth id, toRecordProviderHealth = memRecordProviderHealth\<rparr>"

section \<open>Handlers\<close>

definition telUserID :: "req_context \<Rightarrow> string" where
  "telUserID ctx = ctxString TelemetryUserID ctx"

definition TelWithUserID :: "req_context \<Rightarrow> string \<Rightarrow> req_context" where
  "TelWithUserID ctx userID = (TelemetryUserID, userID) # ctx"

definition writeTelError :: "tel_error \<Rightarrow> 'b http_response" where
  "writeTelError e =
     (case e of
        TelInvalidInput \<Rightarrow> WriteError StatusBadRequest ''invalid input''
      | TelQuotaExceeded \<Rightarrow> WriteError StatusTooManyRequests ''telemetry quota exceeded''
      | TelFailure \<Rightarrow> WriteError StatusInternalServerError ''internal error'')"

text \<open>The loop of \<open>ingest\<close> over the events of the body, with the number accepted so far.\<close>

fun ingestLoop ::
  "('f, 'st) tel_ops \<Rightarrow> time \<Rightarrow> string \<Rightarrow> string \<Rightarrow> tel_event list \<Rightarrow> nat \<times> 'st \<Rightarrow> nat \<times> 'st" where
  "ingestLoop ops now userID deviceID [] acc = acc"
| "ingestLoop ops now userID deviceID (e # es) (accepted, st) =
     (let e1 = e\<lparr>teUserID := userID\<rparr>;
          e2 = (if deviceID \<noteq> '''' then e1\<lparr>teDeviceID := deviceID\<rparr> else e1)
      in case svcIngest ops now e2 st of
           (None, st') \<Rightarrow> ingestLoop ops now userID deviceID es (accepted + 1, st')
         | (Some _, st') \<Rightarrow> ingestLoop ops now userID deviceID es (accepted, st'))"

definition ingestHandler ::
  "('f, 'st) tel_ops \<Rightarrow> time \<Rightarrow> req_context \<Rightarrow> string \<Rightarrow> string + tel_event list \<Rightarrow> 'st \<Rightarrow>
   nat http_response \<times> 'st" where
  "ingestHandler ops now ctx deviceID body st =
     (let userID = telUserID ctx
      in if userID = '''' then (WriteError StatusUnauthorized ''unauthorized'', st)
         else case body of
                Inl _ \<Rightarrow> (WriteError StatusBadRequest ''invalid body'', st)
              | Inr es \<Rightarrow>
                  (let (accepted, st') = ingestLoop ops now userID deviceID es (0, st)
                   in (WriteJSON StatusAccepted accepted, st')))"

text \<open>\<open>parseTime\<close> is \<open>time.Parse(time.RFC3339, v)\<close>.\<close>

definition queryHandler ::
  "(string \<Rightarrow> time option) \<Rightarrow> ('f, 'st) tel_ops \<Rightarrow> time \<Rightarrow> req_context \<Rightarrow> string \<Rightarrow> string \<Rightarrow> 'st \<Rightarrow>
   tel_event list http_response" where
  "queryHandler parseTime ops now ctx typeText sinceText st =
     (let userID = telUserID ctx
      in if userID = '''' then WriteError StatusUnauthorized ''unauthorized''
         else
           let since0 = now - 24 * 3600 * nanos_per_second;
               since = (if sinceText \<noteq> '''' then (case parseTime sinceText of Some t \<Rightarrow> t | None \<Rightarrow> since0) else since0)
           in case svcQuery ops userID typeText since 100 st of
                Inr es \<Rightarrow> WriteJSON StatusOK es
              | Inl e \<Rightarrow> writeTelError e)"

definition summaryHandler ::
  "('f, 'st) tel_ops \<Rightarrow> time \<Rightarrow> string \<Rightarrow> 'st \<Rightarrow> 'f metrics_summary http_response" where
  "summaryHandler ops now periodText st =
     (let period = (if periodText = '''' then ''day'' else periodText);
          since = now - 24 * 3600 * nanos_per_second
      in case svcSummary ops period since st of
           Inl e \<Rightarrow> writeTelError e
         | Inr s \<Rightarrow> WriteJSON StatusOK s)"

definition providerHealthHandler :: "('f, 'st) tel_ops \<Rightarrow> 'st \<Rightarrow> 'f provider_health list http_response" where
  "providerHealthHandler ops st =
     (case GetProviderHealth ops st of
        Inl e \<Rightarrow> writeTelError e
      | Inr hs \<Rightarrow> WriteJSON StatusOK hs)"

section \<open>What a telemetry store promises\<close>

definition lastN :: "nat \<Rightarrow> 'a list \<Rightarrow> 'a list" where
  "lastN n xs = drop (length xs - n) xs"

lemma lastN_append_lastN: "lastN n (lastN n xs @ ys) = lastN n (xs @ ys)"
proof (cases "length xs \<le> n")
  case True
  then show ?thesis by (simp add: lastN_def)
next
  case False
  then show ?thesis by (cases "length ys \<le> n") (simp_all add: lastN_def add.commute)
qed

text \<open>The events of a batch as they are stored: stamped with the caller, valid, dated.\<close>

definition stampEvent :: "string \<Rightarrow> string \<Rightarrow> tel_event \<Rightarrow> tel_event" where
  "stampEvent userID deviceID e =
     e\<lparr>teUserID := userID, teDeviceID := (if deviceID \<noteq> '''' then deviceID else teDeviceID e)\<rparr>"

definition dateEvent :: "time \<Rightarrow> tel_event \<Rightarrow> tel_event" where
  "dateEvent now e = (if teCreatedAt e = zero_time then e\<lparr>teCreatedAt := now\<rparr> else e)"

definition acceptedEvents :: "time \<Rightarrow> string \<Rightarrow> string \<Rightarrow> tel_event list \<Rightarrow> tel_event list" where
  "acceptedEvents now userID deviceID es =
     map (dateEvent now) (filter (\<lambda>e. validateEvent e = None) (map (stampEvent userID deviceID) es))"

definition wantedEvent :: "string \<Rightarrow> event_type \<Rightarrow> time \<Rightarrow> tel_event \<Rightarrow> bool" where
  "wantedEvent userID eventType since e \<longleftrightarrow>
     teUserID e = userID \<and> (eventType = '''' \<or> teType e = eventType) \<and> since \<le> teCreatedAt e"

locale tel_store =
  fixes ops :: "('f, 'st) tel_ops"
    and events :: "'st \<Rightarrow> tel_event list"
    and cap :: nat
  assumes ingest: "\<exists>st'. toIngest ops e st = (None, st') \<and> events st' = lastN cap (events st @ [e])"
    and query: "0 < limit \<Longrightarrow> toQuery ops u t since limit st =
        Inr (take (nat limit) (filter (wantedEvent u t since) (events st)))"
begin

lemma ingest_loop:
  "\<exists>st'. ingestLoop ops now u d es (n, st) = (n + length (acceptedEvents now u d es), st') \<and>
     (events st = lastN cap (events st) \<longrightarrow> events st' = lastN cap (events st @ acceptedEvents now u d es))"
proof (induction es arbitrary: n st)
  case Nil
  then show ?case by (simp add: acceptedEvents_def)
next
  case (Cons e es)
  have s: "(let e1 = e\<lparr>teUserID := u\<rparr> in if d \<noteq> '''' then e1\<lparr>teDeviceID := d\<rparr> else e1) = stampEvent u d e"
    by (simp add: stampEvent_def Let_def)
  show ?case
  proof (cases "validateEvent (stampEvent u d e)")
    case None
    from ingest [of "dateEvent now (stampEvent u d e)" st] obtain s1 where
      s1: "toIngest ops (dateEvent now (stampEvent u d e)) st = (None, s1)"
        "events s1 = lastN cap (events st @ [dateEvent now (stampEvent u d e)])" by blast
    have i: "svcIngest ops now (stampEvent u d e) st = (None, s1)"
      using None s1(1) by (simp add: svcIngest_def dateEvent_def)
    from Cons.IH [of "n + 1" s1] obtain s2 where
      s2: "ingestLoop ops now u d es (n + 1, s1) = (n + 1 + length (acceptedEvents now u d es), s2)"
        "events s1 = lastN cap (events s1) \<longrightarrow> events s2 = lastN cap (events s1 @ acceptedEvents now u d es)" by blast
    have "events s1 = lastN cap (events s1)"
      using s1(2) lastN_append_lastN [of cap "events st @ [dateEvent now (stampEvent u d e)]" "[]"] by simp
    with s2(2) s1(2) have "events s2 = lastN cap (events st @ acceptedEvents now u d (e # es))"
      by (simp add: lastN_append_lastN acceptedEvents_def None)
    moreover have "ingestLoop ops now u d (e # es) (n, st) = ingestLoop ops now u d es (n + 1, s1)"
      using i s by (simp add: Let_def)
    ultimately show ?thesis using s2(1) by (simp add: acceptedEvents_def None)
  next
    case (Some err)
    then have "svcIngest ops now (stampEvent u d e) st = (Some err, st)" by (simp add: svcIngest_def)
    then have "ingestLoop ops now u d (e # es) (n, st) = ingestLoop ops now u d es (n, st)"
      using s by (simp add: Let_def)
    then show ?thesis using Cons.IH [of n st] Some by (simp add: acceptedEvents_def)
  qed
qed

end

lemma queryLoop_take:
  "int (length result) < limit \<Longrightarrow>
   queryLoop u t since limit es result = take (nat limit) (result @ filter (wantedEvent u t since) es)"
proof (induction es arbitrary: result)
  case Nil
  then show ?case by simp
next
  case (Cons e es)
  show ?case
  proof (cases "wantedEvent u t since e")
    case True
    then have step: "queryLoop u t since limit (e # es) result =
        (if int (length (result @ [e])) \<ge> limit then result @ [e] else queryLoop u t since limit es (result @ [e]))"
      by (auto simp: wantedEvent_def Let_def)
    show ?thesis
    proof (cases "int (length (result @ [e])) \<ge> limit")
      case full: True
      with Cons.prems have "nat limit = Suc (length result)" by simp
      with step full True show ?thesis by (simp del: queryLoop.simps)
    next
      case False
      with step True Cons.IH [of "result @ [e]"] show ?thesis by (simp del: queryLoop.simps)
    qed
  next
    case False
    then have "queryLoop u t since limit (e # es) result = queryLoop u t since limit es result"
      by (auto simp: wantedEvent_def)
    then show ?thesis using False Cons.prems Cons.IH [of result] by simp
  qed
qed

interpretation tel: tel_store "inMemoryTelStore percent num" tmEvents 10000
    for percent :: "int \<Rightarrow> int \<Rightarrow> 'f" and num
  by unfold_locales (auto simp: inMemoryTelStore_def memIngest_def memQuery_def queryLoop_take lastN_def Let_def)

text \<open>
  The summary counts the types \<open>playback_result\<close>, \<open>stream_failure\<close> and \<open>download_failure\<close>,
  none of which the package declares: over declared types it reports no playback, no stream
  failure and no download failure whatever happened.
\<close>

definition declaredTypes :: "event_type set" where
  "declaredTypes = {EventCrash, EventPerformance, EventSync, EventStreaming, EventPlayback, EventDownload}"

lemma tally_declared:
  assumes "\<forall>e \<in> set es. teType e \<in> declaredTypes"
  shows "tyTotal (fold (tallyEvent since) es t) = tyTotal t \<and>
    tyStreamFails (fold (tallyEvent since) es t) = tyStreamFails t \<and>
    tyDownloadFails (fold (tallyEvent since) es t) = tyDownloadFails t"
  using assms
proof (induction es arbitrary: t)
  case (Cons e es)
  from Cons.prems have "teType e \<in> declaredTypes" by simp
  then have "tyTotal (tallyEvent since e t) = tyTotal t \<and> tyStreamFails (tallyEvent since e t) = tyStreamFails t \<and>
      tyDownloadFails (tallyEvent since e t) = tyDownloadFails t"
    by (auto simp: tallyEvent_def declaredTypes_def EventCrash_def EventPerformance_def EventSync_def
        EventStreaming_def EventPlayback_def EventDownload_def)
  with Cons show ?case by simp
qed simp

lemma telemetry_summary_blind:
  assumes "\<forall>e \<in> set (tmEvents st). teType e \<in> declaredTypes"
  shows "\<exists>s. svcSummary (inMemoryTelStore percent num) period since st = Inr s \<and>
    msPlaybackSuccess s = num 0 \<and> msStreamFailures s = 0 \<and> msDownloadFailures s = 0"
  using tally_declared [OF assms] by (simp add: svcSummary_def inMemoryTelStore_def memSummarize_def Let_def)

section \<open>Properties\<close>

text \<open>The state after a sequence of ingest requests: the user of the context, the device header, the body.\<close>

definition ingestAll ::
  "('f, 'st) tel_ops \<Rightarrow> (time \<times> string \<times> string \<times> tel_event list) list \<Rightarrow> 'st \<Rightarrow> 'st" where
  "ingestAll ops reqs st =
     fold (\<lambda>(now, u, d, es) st. snd (ingestHandler ops now (TelWithUserID [] u) d (Inr es) st)) reqs st"

lemma ingestAll_events:
  assumes "lastN 10000 (tmEvents st) = tmEvents st" and "\<forall>(now, u, d, es) \<in> set reqs. u \<noteq> ''''"
  shows "tmEvents (ingestAll (inMemoryTelStore percent num) reqs st) =
    lastN 10000 (tmEvents st @ concat (map (\<lambda>(now, u, d, es). acceptedEvents now u d es) reqs))"
  using assms
proof (induction reqs arbitrary: st)
  case Nil
  then show ?case by (simp add: ingestAll_def)
next
  case (Cons q reqs)
  obtain now u d es where q: "q = (now, u, d, es)" by (cases q)
  with Cons.prems have u: "u \<noteq> ''''" by simp
  from tel.ingest_loop [of percent num now u d es 0 st] obtain st' where
    l: "ingestLoop (inMemoryTelStore percent num) now u d es (0, st) = (length (acceptedEvents now u d es), st')"
    and ev: "tmEvents st' = lastN 10000 (tmEvents st @ acceptedEvents now u d es)" using Cons.prems(1) by force
  have h: "snd (ingestHandler (inMemoryTelStore percent num) now (TelWithUserID [] u) d (Inr es) st) = st'"
    using u l by (simp add: ingestHandler_def telUserID_def TelWithUserID_def ctxString_def)
  have "lastN 10000 (tmEvents st') = tmEvents st'"
    using ev lastN_append_lastN [of 10000 "tmEvents st @ acceptedEvents now u d es" "[]"] by simp
  from Cons.IH [OF this] Cons.prems(2) show ?case
    by (simp add: ingestAll_def q h ev lastN_append_lastN)
qed

text \<open>
  What a user reads back: the first 100 of that user's events since the given instant
  among the latest 10,000 events accepted from anyone, each stamped with the user and device
  that sent it whatever the body claimed; invalid events are left out.
\<close>

theorem telemetry_query_exact:
  assumes "\<forall>(now, v, d, es) \<in> set reqs. v \<noteq> ''''" and "u \<noteq> ''''" and "parseTime sinceText = Some since" and "sinceText \<noteq> ''''"
  shows "queryHandler parseTime (inMemoryTelStore percent num) now (TelWithUserID [] u) typeText sinceText
      (ingestAll (inMemoryTelStore percent num) reqs emptyTel) =
    WriteJSON StatusOK (take 100 (filter (wantedEvent u typeText since)
      (lastN 10000 (concat (map (\<lambda>(now, v, d, es). acceptedEvents now v d es) reqs)))))"
proof -
  have e: "tmEvents (ingestAll (inMemoryTelStore percent num) reqs emptyTel) =
      lastN 10000 (concat (map (\<lambda>(now, v, d, es). acceptedEvents now v d es) reqs))"
    using ingestAll_events [OF _ assms(1), of emptyTel percent num] by (simp add: emptyTel_def lastN_def)
  show ?thesis using assms(2-) tel.query [of 100 percent num u typeText since]
    by (simp add: queryHandler_def telUserID_def TelWithUserID_def ctxString_def svcQuery_def e)
qed

definition exTelEvent :: "string \<Rightarrow> string \<Rightarrow> tel_event" where
  "exTelEvent u msg = \<lparr>teID = ''1'', teUserID = u, teDeviceID = ''d'', teType = ''crash'', teSeverity = ''fatal'',
     teCategory = '''', teMessage = msg, teStacktrace = '''', teMetadata = [], teDurationMs = 0, teSuccess = None,
     teProviderID = '''', teCreatedAt = 5\<rparr>"

theorem telemetry_query_exact_witness:
  "queryHandler (\<lambda>_. Some 3) (inMemoryTelStore (div) id) 9 (TelWithUserID [] ''ann'') '''' ''t''
     (ingestAll (inMemoryTelStore (div) id) [(1, ''ann'', ''d'', [exTelEvent ''bob'' ''x'']), (2, ''bob'', ''e'', [exTelEvent ''ann'' ''y''])] emptyTel) =
   WriteJSON StatusOK [exTelEvent ''ann'' ''x'']"
  using telemetry_query_exact [of "[(1, ''ann'', ''d'', [exTelEvent ''bob'' ''x'']), (2, ''bob'', ''e'', [exTelEvent ''ann'' ''y''])]"
      "''ann''" "\<lambda>_. Some 3" "''t''" 3 "(div)" id 9 "''''"]
  by (simp add: acceptedEvents_def stampEvent_def dateEvent_def validateEvent_def exTelEvent_def lastN_def
      wantedEvent_def zero_time_def)

end
