(* ===== verification/Json.thy ===== *)
theory Json
  imports Httpx
begin

text \<open>
  Decoded JSON as the code sees it: \<open>encoding/json\<close> decodes into \<open>any\<close>, an object into a
  \<open>map[string]any\<close>, which is nil for the text \<open>null\<close>. Numbers are \<open>float64\<close> values of the
  parameter type \<open>'f\<close>.
\<close>

datatype 'f json =
    JNull
  | JBool bool
  | JNum 'f
  | JStr string
  | JArr "'f json list"
  | JObj "(string \<times> 'f json) list"

type_synonym 'f payload = "(string, 'f json) gomap option"

definition field :: "'f payload \<Rightarrow> string \<Rightarrow> 'f json option" where
  "field p key = (case p of None \<Rightarrow> None | Some g \<Rightarrow> map_of g key)"

text \<open>A type assertion with the comma-ok form.\<close>

definition asString :: "'f json option \<Rightarrow> string option" where
  "asString v = (case v of Some (JStr s) \<Rightarrow> Some s | _ \<Rightarrow> None)"

definition asBool :: "'f json option \<Rightarrow> bool option" where
  "asBool v = (case v of Some (JBool b) \<Rightarrow> Some b | _ \<Rightarrow> None)"

definition asArray :: "'f json option \<Rightarrow> 'f json list option" where
  "asArray v = (case v of Some (JArr xs) \<Rightarrow> Some xs | _ \<Rightarrow> None)"

end
