(* ===== verification/Settings.thy ===== *)
theory Settings
  imports Json
begin

text \<open>
  The policy on synchronised settings (\<open>backend/settings/settings.go\<close>): the allowlist of
  keys, the size estimate and the validation of a record in its two forms, with the handlers
  of \<open>backend/settings/handler.go\<close>. \<open>quote\<close> stands for the verb \<open>%q\<close> of \<open>fmt\<close>.
\<close>

section \<open>Data\<close>

definition MaxPayloadBytes :: int where
  "MaxPayloadBytes = 16 * 1024"

definition AllowedKeys :: "string list" where
  "AllowedKeys =
     [''theme.mode'', ''theme.useDynamicColor'', ''playback.normalization'', ''playback.gapless'',
      ''playback.crossfadeSeconds'', ''playback.crossfadeSmart'', ''playback.replayGainMode'',
      ''playback.loudnessTargetLufs'', ''playback.preloadNextTrack'', ''playback.qualityProfile'',
      ''downloads.quality'', ''downloads.format'', ''downloads.networkPolicy'', ''library.autoScan'',
      ''lyrics.providerPriority'', ''metadata.providerPriority'', ''streaming.enabled'',
      ''streaming.cacheStreams'', ''engine.glassUi'', ''audio_engine.settings'']"

datatype settings_error = ErrKeyNotAllowed string | ErrPayloadTooLarge | ErrNotAnObject

record 'f setting =
  stKey :: string
  stValue :: "'f json"

section \<open>Validation\<close>

text \<open>The size of one value; \<open>estimateSize\<close> never fails.\<close>

fun estimateValue :: "'f json \<Rightarrow> int" and estimateFields :: "(string \<times> 'f json) list \<Rightarrow> int" where
  "estimateValue (JStr s) = int (length s)"
| "estimateValue (JObj g) = 2 + estimateFields g"
| "estimateValue JNull = 16"
| "estimateValue (JBool b) = 16"
| "estimateValue (JNum x) = 16"
| "estimateValue (JArr xs) = 16"
| "estimateFields [] = 0"
| "estimateFields ((k, v) # g) = int (length k) + 6 + estimateValue v + estimateFields g"

definition estimateSize :: "(string, 'f json) gomap \<Rightarrow> int" where
  "estimateSize g = 2 + estimateFields g"

definition sortedKeys :: "(string, 'f json) gomap \<Rightarrow> string list" where
  "sortedKeys g = sort (map fst g)"

text \<open>A key that is absent reads as nil.\<close>

definition valueOf :: "(string, 'f json) gomap \<Rightarrow> string \<Rightarrow> 'f json" where
  "valueOf g key = (case map_of g key of None \<Rightarrow> JNull | Some v \<Rightarrow> v)"

fun validateKeys :: "(string, 'f json) gomap \<Rightarrow> string list \<Rightarrow> 'f setting list \<Rightarrow> settings_error + 'f setting list" where
  "validateKeys g [] out = Inr out"
| "validateKeys g (key # keys) out =
     (if key \<notin> set AllowedKeys then Inl (ErrKeyNotAllowed key)
      else validateKeys g keys (out @ [\<lparr>stKey = key, stValue = valueOf g key\<rparr>]))"

definition validateSettings :: "'f payload \<Rightarrow> settings_error + 'f setting list" where
  "validateSettings p =
     (case p of
        None \<Rightarrow> Inl ErrNotAnObject
      | Some g \<Rightarrow>
          if estimateSize g > MaxPayloadBytes then Inl ErrPayloadTooLarge
          else case asString (map_of g ''key'') of
                 Some rawKey \<Rightarrow>
                   (let key = trim_space rawKey
                    in if key \<notin> set AllowedKeys then Inl (ErrKeyNotAllowed key)
                       else Inr [\<lparr>stKey = key, stValue = valueOf g ''value''\<rparr>])
               | None \<Rightarrow> validateKeys g (sortedKeys g) [])"

definition AllowedKeyList :: "string list" where
  "AllowedKeyList = sort AllowedKeys"

section \<open>Handlers\<close>

definition settingsErrorText :: "(string \<Rightarrow> string) \<Rightarrow> settings_error \<Rightarrow> string" where
  "settingsErrorText quote e =
     (case e of
        ErrKeyNotAllowed key \<Rightarrow> ''settings key is not synchronizable: '' @ quote key
      | ErrPayloadTooLarge \<Rightarrow> ''settings record too large''
      | ErrNotAnObject \<Rightarrow> ''settings payload must be an object'')"

definition settingsSchemaHandler :: "(string list \<times> int) http_response" where
  "settingsSchemaHandler = WriteJSON StatusOK (AllowedKeyList, MaxPayloadBytes)"

definition settingsValidateHandler ::
  "(string \<Rightarrow> string) \<Rightarrow> string + 'f payload \<Rightarrow> 'f setting list http_response" where
  "settingsValidateHandler quote body =
     (case body of
        Inl e \<Rightarrow> WriteError StatusBadRequest e
      | Inr p \<Rightarrow>
          (case validateSettings p of
             Inl e \<Rightarrow> WriteError StatusUnprocessableEntity (settingsErrorText quote e)
           | Inr records \<Rightarrow> WriteJSON StatusOK records))"

section \<open>Lemmas\<close>

lemma validateKeys_exact:
  "validateKeys g keys out =
     (case find (\<lambda>k. k \<notin> set AllowedKeys) keys of
        Some k \<Rightarrow> Inl (ErrKeyNotAllowed k)
      | None \<Rightarrow> Inr (out @ map (\<lambda>k. \<lparr>stKey = k, stValue = valueOf g k\<rparr>) keys))"
  by (induction keys arbitrary: out) (auto split: option.split)

lemma trim_allowed: "k \<in> set AllowedKeys \<Longrightarrow> k \<noteq> ''key''"
  by (auto simp: AllowedKeys_def)

text \<open>
  A list counts as sixteen bytes whatever it holds, and in the form with the fields \<open>key\<close>
  and \<open>value\<close> any further field is accepted and dropped.
\<close>

lemma settings_list_uncapped:
  "validateSettings (Some [(''key'', JStr ''lyrics.providerPriority''), (''value'', JArr xs)]) =
     Inr [\<lparr>stKey = ''lyrics.providerPriority'', stValue = JArr xs\<rparr>]"
proof -
  have "trim_space ''lyrics.providerPriority'' = ''lyrics.providerPriority''" by code_simp
  then show ?thesis
    by (simp add: validateSettings_def estimateSize_def MaxPayloadBytes_def asString_def valueOf_def AllowedKeys_def)
qed

lemma settings_extra_field_accepted:
  "validateSettings (Some [(''key'', JStr ''theme.mode''), (''value'', JStr ''dark''), (''secrets.token'', JStr ''x'')]) =
     (Inr [\<lparr>stKey = ''theme.mode'', stValue = JStr ''dark''\<rparr>] :: settings_error + nat setting list)"
  by code_simp

section \<open>Properties\<close>

text \<open>
  In the flat form a settings record is accepted exactly when it is small enough and
  every key is on the allowlist; what is accepted is the record itself, entry by entry in
  key order, and what is rejected names the smallest key that is not allowed.
\<close>

theorem settings_flat_exact:
  assumes "wf_map g" and "estimateSize g \<le> MaxPayloadBytes" and "asString (map_of g ''key'') = None"
  shows "validateSettings (Some g) =
      (case find (\<lambda>k. k \<notin> set AllowedKeys) (sortedKeys g) of
         Some k \<Rightarrow> Inl (ErrKeyNotAllowed k)
       | None \<Rightarrow> Inr (map (\<lambda>k. \<lparr>stKey = k, stValue = valueOf g k\<rparr>) (sortedKeys g))) \<and>
    sorted (sortedKeys g) \<and> distinct (sortedKeys g) \<and>
    (\<lambda>k. (k, valueOf g k)) ` set (sortedKeys g) = set g"
proof -
  have "(\<lambda>k. (k, valueOf g k)) ` set (sortedKeys g) = set g"
  proof -
    have "valueOf g k = v" if "(k, v) \<in> set g" for k v
      using that in_set_map_of [OF assms(1), of k v] by (simp add: valueOf_def)
    then show ?thesis by (force simp: sortedKeys_def)
  qed
  moreover have "distinct (sortedKeys g)" using assms(1) by (simp add: sortedKeys_def wf_map_def)
  ultimately show ?thesis using assms(2,3)
    by (simp add: validateSettings_def validateKeys_exact sortedKeys_def split: option.split)
qed

theorem settings_flat_exact_witness:
  "validateSettings (Some [(''theme.mode'', JStr ''dark''), (''engine.glassUi'', JBool True)]) =
     (Inr [\<lparr>stKey = ''engine.glassUi'', stValue = JBool True\<rparr>, \<lparr>stKey = ''theme.mode'', stValue = JStr ''dark''\<rparr>]
        :: settings_error + nat setting list)"
proof -
  let ?g = "[(''theme.mode'', JStr ''dark''), (''engine.glassUi'', JBool True)] :: (string \<times> nat json) list"
  have k: "sortedKeys ?g = [''engine.glassUi'', ''theme.mode'']" by code_simp
  have f: "find (\<lambda>k. k \<notin> set AllowedKeys) [''engine.glassUi'', ''theme.mode''] = None" by code_simp
  have "wf_map ?g" "estimateSize ?g \<le> MaxPayloadBytes" "asString (map_of ?g ''key'') = None"
    by (simp_all add: wf_map_def estimateSize_def MaxPayloadBytes_def asString_def)
  from settings_flat_exact [OF this] show ?thesis unfolding k f by (simp add: valueOf_def)
qed

end
