(* ===== verification/History.thy ===== *)
theory History
  imports Json SyncStore
begin

text \<open>
  Listening history: the aggregation of \<open>backend/history/history.go\<close> over the records that
  the sync store returns for the scope \<open>history\<close>, its cache per user, and the handlers of
  \<open>backend/history/handler.go\<close>. The operations on \<open>float64\<close> that the code uses are the
  record \<open>float_ops\<close>.
\<close>

section \<open>Data\<close>

record 'f float_ops =
  floatToInt :: "'f \<Rightarrow> int"
  floatParse :: "string \<Rightarrow> 'f option"
  floatGreater :: "'f \<Rightarrow> 'f \<Rightarrow> bool"
  floatZero :: 'f

record 'f entry =
  enTrackKey :: string
  enTitle :: string
  enArtist :: string
  enAlbum :: string
  enPlayCount :: int
  enSkipCount :: int
  enTotalPlayedMs :: int
  enAverageCompletion :: 'f

record 'f summary =
  smTotalPlays :: int
  smTracks :: "'f entry list"

datatype history_error = ErrNoHistory | PullFailed sync_error

section \<open>Reading a record\<close>

text \<open>The branch of \<open>case int\<close> is never taken: decoded JSON holds no \<open>int\<close>.\<close>

definition intField :: "'f float_ops \<Rightarrow> 'f payload \<Rightarrow> string \<Rightarrow> int" where
  "intField fl p key =
     (case field p key of
        Some (JNum x) \<Rightarrow> floatToInt fl x
      | Some (JStr s) \<Rightarrow> (case parseInt64 (trim_space s) of None \<Rightarrow> 0 | Some n \<Rightarrow> n)
      | _ \<Rightarrow> 0)"

definition floatField :: "'f float_ops \<Rightarrow> 'f payload \<Rightarrow> string \<Rightarrow> 'f" where
  "floatField fl p key =
     (case field p key of
        Some (JNum x) \<Rightarrow> x
      | Some (JStr s) \<Rightarrow> (case floatParse fl (trim_space s) of None \<Rightarrow> floatZero fl | Some x \<Rightarrow> x)
      | _ \<Rightarrow> floatZero fl)"

definition stringField :: "'f payload \<Rightarrow> string \<Rightarrow> string" where
  "stringField p key = (case asString (field p key) of None \<Rightarrow> '''' | Some s \<Rightarrow> s)"

definition EntryFromPayload :: "'f float_ops \<Rightarrow> 'f payload \<Rightarrow> 'f entry option" where
  "EntryFromPayload fl p =
     (let trackKey = trim_space (stringField p ''trackKey'')
      in if trackKey = '''' then None
         else Some \<lparr>enTrackKey = trackKey, enTitle = stringField p ''title'', enArtist = stringField p ''artist'',
                    enAlbum = stringField p ''album'', enPlayCount = intField fl p ''playCount'',
                    enSkipCount = intField fl p ''skipCount'', enTotalPlayedMs = intField fl p ''totalPlayedMs'',
                    enAverageCompletion = floatField fl p ''averageCompletion''\<rparr>)"

section \<open>Aggregation\<close>

definition mergeEntry :: "'f float_ops \<Rightarrow> 'f entry \<Rightarrow> (string, 'f entry) gomap \<Rightarrow> (string, 'f entry) gomap" where
  "mergeEntry fl e byKey =
     (case map_of byKey (enTrackKey e) of
        Some existing \<Rightarrow>
          put (enTrackKey e)
            (existing\<lparr>enPlayCount := wrap64 (enPlayCount existing + enPlayCount e),
                      enSkipCount := wrap64 (enSkipCount existing + enSkipCount e),
                      enTotalPlayedMs := wrap64 (enTotalPlayedMs existing + enTotalPlayedMs e),
                      enAverageCompletion :=
                        (if floatGreater fl (enAverageCompletion e) (enAverageCompletion existing)
                         then enAverageCompletion e else enAverageCompletion existing)\<rparr>) byKey
      | None \<Rightarrow> put (enTrackKey e) e byKey)"

fun aggregateLoop ::
  "'f float_ops \<Rightarrow> 'f payload list \<Rightarrow> (string, 'f entry) gomap \<times> int \<Rightarrow> (string, 'f entry) gomap \<times> int" where
  "aggregateLoop fl [] acc = acc"
| "aggregateLoop fl (p # ps) (byKey, plays) =
     (case EntryFromPayload fl p of
        None \<Rightarrow> aggregateLoop fl ps (byKey, plays)
      | Some e \<Rightarrow> aggregateLoop fl ps (mergeEntry fl e byKey, wrap64 (plays + enPlayCount e)))"

text \<open>The order of \<open>sort.Slice\<close>: more plays first, then the smaller key.\<close>

definition trackRank :: "'f entry \<Rightarrow> int \<times> string" where
  "trackRank e = (- enPlayCount e, enTrackKey e)"

definition aggregate :: "'f float_ops \<Rightarrow> 'f payload list \<Rightarrow> 'f summary" where
  "aggregate fl ps =
     (let (byKey, plays) = aggregateLoop fl ps ([], 0)
      in \<lparr>smTotalPlays = plays, smTracks = sort_key trackRank (map snd byKey)\<rparr>)"

definition truncateSummary :: "'f summary \<Rightarrow> int \<Rightarrow> 'f summary" where
  "truncateSummary s limit =
     (if limit \<le> 0 \<or> limit \<ge> int (length (smTracks s)) then s
      else \<lparr>smTotalPlays = smTotalPlays s, smTracks = take (nat limit) (smTracks s)\<rparr>)"

section \<open>The cache\<close>

type_synonym 'f aggregator = "(string, 'f summary) gomap"

definition Summarize ::
  "'f float_ops \<Rightarrow> string \<Rightarrow> (string \<Rightarrow> string \<Rightarrow> int \<Rightarrow> history_error + 'f payload list) \<Rightarrow> int \<Rightarrow> 'f aggregator \<Rightarrow>
   (history_error + 'f summary) \<times> 'f aggregator" where
  "Summarize fl userID pull limit cache =
     (case map_of cache userID of
        Some cached \<Rightarrow> (Inr (truncateSummary cached limit), cache)
      | None \<Rightarrow>
          (case pull userID ''history'' 0 of
             Inl e \<Rightarrow> (Inl e, cache)
           | Inr records \<Rightarrow>
               if records = [] then (Inl ErrNoHistory, cache)
               else
                 let s = aggregate fl records
                 in (Inr (truncateSummary s limit), put userID s cache)))"

definition InvalidateSummary :: "string \<Rightarrow> 'f aggregator \<Rightarrow> 'f aggregator" where
  "InvalidateSummary userID cache = del userID cache"

section \<open>Handlers\<close>

definition pullAdapter ::
  "'f payload sync_store \<Rightarrow> string \<Rightarrow> string \<Rightarrow> int \<Rightarrow> history_error + 'f payload list" where
  "pullAdapter s userID scope since =
     (case Pull userID scope since s of
        Inl e \<Rightarrow> Inl (PullFailed e)
      | Inr records \<Rightarrow> Inr (map recPayload (filter (\<lambda>r. \<not> recDeleted r) records)))"

definition historyErrorText :: "history_error \<Rightarrow> string" where
  "historyErrorText e = (case e of ErrNoHistory \<Rightarrow> ''no listening history'' | PullFailed s \<Rightarrow> syncErrorText s)"

definition summaryLimit :: "string \<Rightarrow> int" where
  "summaryLimit limitText =
     (if limitText \<noteq> '''' then
        (case parseInt64 limitText of
           Some n \<Rightarrow> if n > 0 \<and> n \<le> 500 then n else 50
         | None \<Rightarrow> 50)
      else 50)"

definition historySummaryHandler ::
  "'f float_ops \<Rightarrow> 'f payload sync_store \<Rightarrow> req_context \<Rightarrow> string \<Rightarrow> 'f aggregator \<Rightarrow>
   'f summary http_response \<times> 'f aggregator" where
  "historySummaryHandler fl s ctx limitText cache =
     (let userID = UserIDFrom ctx
      in if userID = '''' then (WriteError StatusUnauthorized ''unauthorized'', cache)
         else case Summarize fl userID (pullAdapter s) (summaryLimit limitText) cache of
                (Inl e, cache') \<Rightarrow> (WriteError StatusNotFound (historyErrorText e), cache')
              | (Inr sm, cache') \<Rightarrow> (WriteJSON StatusOK sm, cache'))"

definition historyInvalidateHandler :: "req_context \<Rightarrow> 'f aggregator \<Rightarrow> string http_response \<times> 'f aggregator" where
  "historyInvalidateHandler ctx cache =
     (let userID = UserIDFrom ctx
      in if userID = '''' then (WriteError StatusUnauthorized ''unauthorized'', cache)
         else (WriteJSON StatusOK ''ok'', InvalidateSummary userID cache))"

section \<open>Lemmas\<close>

definition entriesOf :: "'f float_ops \<Rightarrow> 'f payload list \<Rightarrow> 'f entry list" where
  "entriesOf fl ps = List.map_filter (EntryFromPayload fl) ps"

lemma entriesOf_Nil [simp]: "entriesOf fl [] = []"
  by (simp add: entriesOf_def List.map_filter_def)

lemma entriesOf_Cons: "entriesOf fl (p # ps) =
    (case EntryFromPayload fl p of None \<Rightarrow> entriesOf fl ps | Some e \<Rightarrow> e # entriesOf fl ps)"
  by (simp add: entriesOf_def List.map_filter_def split: option.split)

definition playsOf :: "string \<Rightarrow> 'f entry list \<Rightarrow> int" where
  "playsOf k es = sum_list (map enPlayCount (filter (\<lambda>e. enTrackKey e = k) es))"

lemma playsOf_simps [simp]:
  "playsOf k [] = 0"
  "playsOf k (e # es) = (if enTrackKey e = k then enPlayCount e else 0) + playsOf k es"
  by (simp_all add: playsOf_def)

lemma wrap64_add_left: "wrap64 (wrap64 a + b) = wrap64 (a + b)"
proof -
  have "(((a + 2 ^ 63) mod 2 ^ 64 - 2 ^ 63 + b) + 2 ^ 63) mod 2 ^ 64 = ((a + b) + 2 ^ 63) mod (2 ^ 64 :: int)"
    by (simp add: mod_simps algebra_simps)
  then show ?thesis by (simp add: wrap64_def)
qed

lemma wrap64_add_right: "wrap64 (a + wrap64 b) = wrap64 (a + b)"
  using wrap64_add_left [of b a] by (simp add: add.commute)

text \<open>What holds of the table of tracks while the loop runs, against the entries read so far.\<close>

definition tableOK :: "(string, 'f entry) gomap \<Rightarrow> bool" where
  "tableOK m \<longleftrightarrow> wf_map m \<and> (\<forall>k e. map_of m k = Some e \<longrightarrow> enTrackKey e = k)"

definition tablePlays :: "(string, 'f entry) gomap \<Rightarrow> string \<Rightarrow> int" where
  "tablePlays m k = (case map_of m k of None \<Rightarrow> 0 | Some e \<Rightarrow> enPlayCount e)"

lemma mergeEntry_OK: "tableOK m \<Longrightarrow> tableOK (mergeEntry fl e m)"
  by (auto simp: tableOK_def mergeEntry_def split: option.splits if_splits)

lemma mergeEntry_keys: "fst ` set (mergeEntry fl e m) = insert (enTrackKey e) (fst ` set m)"
  by (auto simp: mergeEntry_def keys_put split: option.split)

lemma mergeEntry_plays: "wrap64 (tablePlays (mergeEntry fl e m) k) =
    wrap64 (tablePlays m k + (if enTrackKey e = k then enPlayCount e else 0))"
  using wrap64_add_left [of "tablePlays m k + enPlayCount e" 0]
  by (auto simp: mergeEntry_def tablePlays_def split: option.splits)

lemma aggregateLoop_table:
  "tableOK m \<Longrightarrow> tableOK (fst (aggregateLoop fl ps (m, n))) \<and>
   fst ` set (fst (aggregateLoop fl ps (m, n))) = fst ` set m \<union> enTrackKey ` set (entriesOf fl ps) \<and>
   wrap64 (tablePlays (fst (aggregateLoop fl ps (m, n))) k) = wrap64 (tablePlays m k + playsOf k (entriesOf fl ps)) \<and>
   wrap64 (snd (aggregateLoop fl ps (m, n))) = wrap64 (n + sum_list (map enPlayCount (entriesOf fl ps)))"
proof (induction ps arbitrary: m n)
  case (Cons p ps)
  show ?case
  proof (cases "EntryFromPayload fl p")
    case None
    with Cons show ?thesis by (simp add: entriesOf_Cons)
  next
    case (Some e)
    note IH = Cons.IH [OF mergeEntry_OK [OF Cons.prems, of fl e], of "wrap64 (n + enPlayCount e)"]
    have "wrap64 (tablePlays (mergeEntry fl e m) k + playsOf k (entriesOf fl ps)) =
        wrap64 (tablePlays m k + playsOf k (entriesOf fl (p # ps)))"
      using wrap64_add_left [of "tablePlays (mergeEntry fl e m) k" "playsOf k (entriesOf fl ps)"]
        wrap64_add_left [of "tablePlays m k + (if enTrackKey e = k then enPlayCount e else 0)" "playsOf k (entriesOf fl ps)"]
      by (simp only: mergeEntry_plays) (simp add: entriesOf_Cons Some add.assoc)
    moreover have "wrap64 (wrap64 (n + enPlayCount e) + sum_list (map enPlayCount (entriesOf fl ps))) =
        wrap64 (n + sum_list (map enPlayCount (entriesOf fl (p # ps))))"
      by (simp add: wrap64_add_left entriesOf_Cons Some add.assoc)
    ultimately show ?thesis using IH by (simp add: Some mergeEntry_keys entriesOf_Cons)
  qed
qed simp

lemma plays_total:
  assumes "set ks = enTrackKey ` set es" and "distinct ks"
  shows "(\<Sum>k \<leftarrow> ks. playsOf k es) = sum_list (map enPlayCount es)"
proof -
  have "(\<Sum>k \<in> K. playsOf k es) = sum_list (map enPlayCount es)" if "enTrackKey ` set es \<subseteq> K" "finite K" for K
    using that
  proof (induction es)
    case (Cons e es)
    then have "(\<Sum>k \<in> K. (if enTrackKey e = k then enPlayCount e else 0)) = enPlayCount e" by simp
    with Cons show ?case by (simp add: sum.distrib)
  qed simp
  from this [of "set ks"] assms show ?thesis by (simp add: sum_list_distinct_conv_sum_set)
qed

lemma wrap64_sum_list:
  "(\<And>x. x \<in> set xs \<Longrightarrow> wrap64 (f x) = wrap64 (g x)) \<Longrightarrow> wrap64 (sum_list (map f xs)) = wrap64 (sum_list (map g xs))"
proof (induction xs)
  case (Cons x xs)
  then have "wrap64 (wrap64 (f x) + wrap64 (sum_list (map f xs))) = wrap64 (wrap64 (g x) + wrap64 (sum_list (map g xs)))"
    by simp
  then show ?case by (simp add: wrap64_add_left wrap64_add_right)
qed simp

lemma aggregateLoop_range: "- (2 ^ 63) \<le> n \<Longrightarrow> n < 2 ^ 63 \<Longrightarrow>
    wrap64 (snd (aggregateLoop fl ps (m, n))) = snd (aggregateLoop fl ps (m, n))"
proof (induction ps arbitrary: m n)
  case (Cons p ps)
  then show ?case using wrap64_range [of "n + enPlayCount (the (EntryFromPayload fl p))"]
    by (cases "EntryFromPayload fl p") simp_all
qed (simp add: wrap64_id)

lemma aggregate_sound:
  "sorted (map trackRank (smTracks (aggregate fl ps))) \<and> distinct (map enTrackKey (smTracks (aggregate fl ps))) \<and>
   enTrackKey ` set (smTracks (aggregate fl ps)) = enTrackKey ` set (entriesOf fl ps) \<and>
   (\<forall>e \<in> set (smTracks (aggregate fl ps)). wrap64 (enPlayCount e) = wrap64 (playsOf (enTrackKey e) (entriesOf fl ps))) \<and>
   smTotalPlays (aggregate fl ps) = wrap64 (sum_list (map enPlayCount (smTracks (aggregate fl ps))))"
proof -
  define m where "m = fst (aggregateLoop fl ps ([], 0))"
  have a: "aggregate fl ps = \<lparr>smTotalPlays = snd (aggregateLoop fl ps ([], 0)), smTracks = sort_key trackRank (map snd m)\<rparr>"
    by (simp add: aggregate_def m_def split: prod.split)
  have "tableOK ([] :: (string, 'a entry) gomap)" by (simp add: tableOK_def)
  note L = aggregateLoop_table [OF this, of fl ps 0, folded m_def]
  have ok: "tableOK m" and keys: "fst ` set m = enTrackKey ` set (entriesOf fl ps)"
    and plays: "wrap64 (tablePlays m k) = wrap64 (playsOf k (entriesOf fl ps))"
    and sum: "wrap64 (snd (aggregateLoop fl ps ([], 0))) = wrap64 (sum_list (map enPlayCount (entriesOf fl ps)))" for k
    using L [of k] by (simp_all add: tablePlays_def)
  have val: "map_of m k = Some e" "enTrackKey e = k" if "(k, e) \<in> set m" for k e
    using ok that by (auto simp: tableOK_def in_set_map_of)
  have ks: "map enTrackKey (map snd m) = map fst m" using val(2) by (auto simp: case_prod_beta)
  have d: "distinct (map fst m)" using ok by (simp add: tableOK_def wf_map_def)
  have "distinct (map enTrackKey (sort_key trackRank (map snd m)))"
    using d ks by (metis distinct_map distinct_sort set_sort list.set_map inj_on_cong)
  moreover have "enTrackKey ` set (map snd m) = enTrackKey ` set (entriesOf fl ps)"
    using keys ks by (metis list.set_map)
  moreover have cnt: "wrap64 (enPlayCount e) = wrap64 (playsOf (enTrackKey e) (entriesOf fl ps))" if "e \<in> set (map snd m)" for e
  proof -
    from that obtain k where k: "(k, e) \<in> set m" by auto
    with val [OF k] plays [of k] show ?thesis by (simp add: tablePlays_def)
  qed
  moreover have "wrap64 (sum_list (map enPlayCount (sort_key trackRank (map snd m)))) = snd (aggregateLoop fl ps ([], 0))"
  proof -
    have "sum_list (map enPlayCount (sort_key trackRank (map snd m))) = sum_list (map enPlayCount (map snd m))"
      by (metis mset_map mset_sort sum_mset_sum_list)
    moreover have "wrap64 (sum_list (map enPlayCount (map snd m))) =
        wrap64 (\<Sum>e \<leftarrow> map snd m. playsOf (enTrackKey e) (entriesOf fl ps))"
      by (rule wrap64_sum_list) (rule cnt)
    moreover have "(\<Sum>e \<leftarrow> map snd m. playsOf (enTrackKey e) (entriesOf fl ps)) = (\<Sum>k \<leftarrow> map fst m. playsOf k (entriesOf fl ps))"
      using ks by (metis (no_types, lifting) map_map comp_apply map_eq_conv)
    moreover have "(\<Sum>k \<leftarrow> map fst m. playsOf k (entriesOf fl ps)) = sum_list (map enPlayCount (entriesOf fl ps))"
      by (rule plays_total) (use keys d in simp_all)
    ultimately show ?thesis using sum aggregateLoop_range [of 0 fl ps "[]"] by simp
  qed
  ultimately show ?thesis by (simp add: a)
qed

lemma summaryLimit_bounds: "0 < summaryLimit t \<and> summaryLimit t \<le> 500"
  by (simp add: summaryLimit_def split: option.split)

text \<open>
  A push does not drop the cached summary: until the user asks for the invalidation, every
  later summary is cut from the first one, whatever the store holds by then.
\<close>

lemma history_cache_stale:
  assumes "historySummaryHandler fl s (WithUserID [] u) t cache = (WriteJSON StatusOK sm, cache')" and "u \<noteq> ''''"
  shows "\<exists>first. historySummaryHandler fl s' (WithUserID [] u) t' cache' =
    (WriteJSON StatusOK (truncateSummary first (summaryLimit t')), cache') \<and> sm = truncateSummary first (summaryLimit t)"
  using assms by (auto simp: historySummaryHandler_def Summarize_def Let_def split: option.splits sum.splits if_splits)

section \<open>Properties\<close>

text \<open>
  The first summary of a user's history: every track with a usable key exactly once,
  most played first and by key among equals, its plays the sum over the records of that
  track, and the total of plays the sum over the tracks (all in wrapping 64-bit
  arithmetic), cut to the limit, which is at most 500.
\<close>

theorem history_summary_conserves:
  assumes "u \<noteq> ''''" and "map_of cache u = None" and "pullAdapter s u ''history'' 0 = Inr ps" and "ps \<noteq> []"
  shows "\<exists>sm. fst (historySummaryHandler fl s (WithUserID [] u) t cache) =
      WriteJSON StatusOK (truncateSummary sm (summaryLimit t)) \<and>
    length (smTracks (truncateSummary sm (summaryLimit t))) \<le> 500 \<and>
    sorted (map trackRank (smTracks sm)) \<and> distinct (map enTrackKey (smTracks sm)) \<and>
    enTrackKey ` set (smTracks sm) = enTrackKey ` set (entriesOf fl ps) \<and>
    (\<forall>e \<in> set (smTracks sm). wrap64 (enPlayCount e) = wrap64 (playsOf (enTrackKey e) (entriesOf fl ps))) \<and>
    smTotalPlays sm = wrap64 (sum_list (map enPlayCount (smTracks sm)))"
proof -
  have "fst (historySummaryHandler fl s (WithUserID [] u) t cache) =
      WriteJSON StatusOK (truncateSummary (aggregate fl ps) (summaryLimit t))"
    using assms by (simp add: historySummaryHandler_def Summarize_def Let_def)
  moreover have "length (smTracks (truncateSummary (aggregate fl ps) (summaryLimit t))) \<le> 500"
    using summaryLimit_bounds [of t] by (auto simp: truncateSummary_def)
  ultimately show ?thesis using aggregate_sound [of fl ps] by blast
qed

definition exFloat :: "int float_ops" where
  "exFloat = \<lparr>floatToInt = id, floatParse = (\<lambda>_. None), floatGreater = (>), floatZero = 0\<rparr>"

definition exPlay :: "string \<Rightarrow> int \<Rightarrow> int payload" where
  "exPlay k n = Some [(''trackKey'', JStr k), (''playCount'', JNum n)]"

definition exHistory :: "int payload sync_store" where
  "exHistory = snd (Push (\<lambda>_. 1) ''u'' ''history''
     (map (\<lambda>(i, k, n, d). \<lparr>recScope = ''history'', recID = i, recRevision = 1, recUpdatedAt = 1, recDeleted = d,
        recPayload = exPlay k n\<rparr>)
       [(''1'', ''a'', 2, False), (''2'', ''b'', 4, False), (''3'', '' a '', 3, False), (''4'', ''c'', 9, True)]) [])"

theorem history_summary_conserves_witness:
  "\<exists>sm. fst (historySummaryHandler exFloat exHistory (WithUserID [] ''u'') '''' []) =
     WriteJSON StatusOK (truncateSummary sm 50) \<and> enTrackKey ` set (smTracks sm) = {''a'', ''b''}"
proof -
  have p: "pullAdapter exHistory ''u'' ''history'' 0 = Inr [exPlay ''a'' 2, exPlay ''b'' 4, exPlay '' a '' 3]"
    by code_simp
  have e: "enTrackKey ` set (entriesOf exFloat [exPlay ''a'' 2, exPlay ''b'' 4, exPlay '' a '' 3]) = {''a'', ''b''}"
    by code_simp
  have l: "summaryLimit '''' = 50" by (simp add: summaryLimit_def)
  have u: "''u'' \<noteq> ''''" and c: "map_of [] ''u'' = None" and n: "[exPlay ''a'' 2, exPlay ''b'' 4, exPlay '' a '' 3] \<noteq> []"
    by simp_all
  from history_summary_conserves [OF u c p n, of exFloat "''''"] obtain sm where
    "fst (historySummaryHandler exFloat exHistory (WithUserID [] ''u'') '''' []) =
       WriteJSON StatusOK (truncateSummary sm (summaryLimit ''''))"
    "enTrackKey ` set (smTracks sm) = enTrackKey ` set (entriesOf exFloat [exPlay ''a'' 2, exPlay ''b'' 4, exPlay '' a '' 3])"
    by blast
  then show ?thesis unfolding e l by blast
qed

end
