(* ===== verification/Playlists.thy ===== *)
theory Playlists
  imports Json SyncStore AuthToken Continuity
begin

text \<open>
  Playlist sharing: the validation of a playlist payload and the registry of share links of
  \<open>backend/playlists/playlists.go\<close>, which reads the playlist through the sync store, with
  the handlers of \<open>backend/playlists/handler.go\<close>. \<open>sprint\<close> stands for
  \<open>fmt.Sprintf("%v", value)\<close>, \<open>parseTime\<close> for \<open>time.Parse\<close> with \<open>RFC3339Nano\<close>, and the
  sixteen random bytes of a slug are an argument, \<open>Inl\<close> the error when the source fails.
\<close>

section \<open>Data\<close>

definition MaxTitleRunes :: nat where "MaxTitleRunes = 200"
definition MaxDescriptionRunes :: nat where "MaxDescriptionRunes = 2000"
definition MaxTrackKeys :: nat where "MaxTrackKeys = 10000"

datatype playlist_error = ErrPlaylistInvalid | ErrPlaylistTooBig | ErrShareText string | ErrPullFailed sync_error

record playlist =
  plPlaylistID :: string
  plTitle :: string
  plTrackKeys :: "string list"
  plDescription :: string
  plCoverURL :: string
  plIsPublic :: bool
  plPublishedAt :: time

record share =
  shSlug :: string
  shOwnerID :: string
  shRecordID :: string
  shCreatedAt :: time
  shViews :: int

type_synonym share_registry = "(string, share) gomap"

text \<open>\<open>len([]rune(s))\<close>: every byte that starts no rune counts as one rune.\<close>

function runeCount :: "string \<Rightarrow> nat" where
  "runeCount s =
     (if s = '''' then 0
      else Suc (runeCount (drop (case rune_size s of None \<Rightarrow> 1 | Some n \<Rightarrow> max 1 n) s)))"
  by pat_completeness auto
termination
  by (relation "measure length") (auto split: option.split)

declare runeCount.simps [simp del]

section \<open>Validation\<close>

definition sprintField :: "('f json \<Rightarrow> string) \<Rightarrow> 'f payload \<Rightarrow> string \<Rightarrow> string" where
  "sprintField sprint p key =
     (case field p key of Some v \<Rightarrow> trim_space (sprint v) | None \<Rightarrow> '''')"

definition boolField :: "'f payload \<Rightarrow> string \<Rightarrow> bool" where
  "boolField p key = (case asBool (field p key) of Some b \<Rightarrow> b | None \<Rightarrow> False)"

definition trackKeysOf :: "('f json \<Rightarrow> string) \<Rightarrow> 'f payload \<Rightarrow> string list" where
  "trackKeysOf sprint p =
     (case asArray (field p ''trackKeys'') of
        Some raw \<Rightarrow> filter (\<lambda>k. k \<noteq> '''') (map (\<lambda>v. trim_space (sprint v)) raw)
      | None \<Rightarrow> [])"

definition validatePlaylist ::
  "('f json \<Rightarrow> string) \<Rightarrow> (string \<Rightarrow> time option) \<Rightarrow> 'f payload \<Rightarrow> playlist_error + playlist" where
  "validatePlaylist sprint parseTime p =
     (let out = \<lparr>plPlaylistID = sprintField sprint p ''playlistId'',
                 plTitle = trim_space (sprintField sprint p ''title''),
                 plTrackKeys = trackKeysOf sprint p,
                 plDescription = trim_space (sprintField sprint p ''description''),
                 plCoverURL = trim_space (sprintField sprint p ''coverUrl''),
                 plIsPublic = boolField p ''isPublic'',
                 plPublishedAt = zero_time\<rparr>
      in if plPlaylistID out = '''' \<or> plTitle out = '''' then Inl ErrPlaylistInvalid
         else if runeCount (plTitle out) > MaxTitleRunes \<or>
                 runeCount (plDescription out) > MaxDescriptionRunes \<or>
                 length (plTrackKeys out) > MaxTrackKeys then Inl ErrPlaylistTooBig
         else case asString (field p ''publishedAt'') of
                Some raw \<Rightarrow>
                  (case parseTime raw of
                     Some t \<Rightarrow> Inr (out\<lparr>plPublishedAt := t\<rparr>)
                   | None \<Rightarrow> Inr out)
              | None \<Rightarrow> Inr out)"

section \<open>Slugs\<close>

definition slugChar :: "char \<Rightarrow> bool" where
  "slugChar c \<longleftrightarrow> CHR ''A'' \<le> c \<and> c \<le> CHR ''Z'' \<or> CHR ''a'' \<le> c \<and> c \<le> CHR ''z'' \<or>
     CHR ''0'' \<le> c \<and> c \<le> CHR ''9'' \<or> c = CHR ''_'' \<or> c = CHR ''-''"

definition ValidSlug :: "string \<Rightarrow> bool" where
  "ValidSlug slug \<longleftrightarrow> starts_with ''pl_'' slug \<and> list_all slugChar (drop 3 slug) \<and>
     20 \<le> length (drop 3 slug) \<and> length (drop 3 slug) \<le> 64"

definition NewSlug :: "string + string \<Rightarrow> playlist_error + string" where
  "NewSlug entropy =
     (case entropy of
        Inl e \<Rightarrow> Inl (ErrShareText (''share slug: '' @ e))
      | Inr raw \<Rightarrow> Inr (''pl_'' @ EncodeToString urlAlphabet raw))"

section \<open>The registry\<close>

definition payloadPublic :: "'f payload \<Rightarrow> bool" where
  "payloadPublic p = (case asBool (field p ''isPublic'') of Some b \<Rightarrow> b | None \<Rightarrow> False)"

definition Publish ::
  "('f json \<Rightarrow> string) \<Rightarrow> (string \<Rightarrow> time option) \<Rightarrow> string + string \<Rightarrow> time \<Rightarrow> string \<Rightarrow> string \<Rightarrow> 'f payload \<Rightarrow>
   share_registry \<Rightarrow> (playlist_error + share) \<times> share_registry" where
  "Publish sprint parseTime entropy now userID recordID p shares =
     (case validatePlaylist sprint parseTime p of
        Inl e \<Rightarrow> (Inl e, shares)
      | Inr _ \<Rightarrow>
          if \<not> payloadPublic p then (Inl ErrPlaylistInvalid, shares)
          else case find (\<lambda>sh. shOwnerID sh = userID \<and> shRecordID sh = recordID) (map snd shares) of
                 Some sh \<Rightarrow> (Inr sh, shares)
               | None \<Rightarrow>
                   (case NewSlug entropy of
                      Inl e \<Rightarrow> (Inl e, shares)
                    | Inr slug \<Rightarrow>
                        (let sh = \<lparr>shSlug = slug, shOwnerID = userID, shRecordID = recordID,
                                   shCreatedAt = now, shViews = 0\<rparr>
                         in (Inr sh, put slug sh shares))))"

definition Unpublish :: "string \<Rightarrow> string \<Rightarrow> share_registry \<Rightarrow> playlist_error option \<times> share_registry" where
  "Unpublish userID slug shares =
     (case map_of shares slug of
        None \<Rightarrow> (Some (ErrShareText ''share not found''), shares)
      | Some sh \<Rightarrow>
          if shOwnerID sh \<noteq> userID then (Some (ErrShareText ''share not found''), shares)
          else (None, del slug shares))"

fun resolveRecords ::
  "('f json \<Rightarrow> string) \<Rightarrow> (string \<Rightarrow> time option) \<Rightarrow> share \<Rightarrow> 'f payload sync_record list \<Rightarrow>
   playlist_error + share \<times> playlist" where
  "resolveRecords sprint parseTime sh [] = Inl (ErrShareText ''playlist no longer exists'')"
| "resolveRecords sprint parseTime sh (r # rs) =
     (if recID r \<noteq> shRecordID sh \<or> recDeleted r then resolveRecords sprint parseTime sh rs
      else case validatePlaylist sprint parseTime (recPayload r) of
             Inl e \<Rightarrow> Inl e
           | Inr pl \<Rightarrow>
               if \<not> plIsPublic pl then Inl (ErrShareText ''playlist is no longer public'')
               else Inr (sh, pl))"

definition Resolve ::
  "('f json \<Rightarrow> string) \<Rightarrow> (string \<Rightarrow> time option) \<Rightarrow> 'f payload sync_store \<Rightarrow> string \<Rightarrow> share_registry \<Rightarrow>
   (playlist_error + share \<times> playlist) \<times> share_registry" where
  "Resolve sprint parseTime s slug shares =
     (if \<not> ValidSlug slug then (Inl (ErrShareText ''invalid share slug''), shares)
      else case map_of shares slug of
             None \<Rightarrow> (Inl (ErrShareText ''share not found''), shares)
           | Some sh \<Rightarrow>
               (let sh' = sh\<lparr>shViews := shViews sh + 1\<rparr>;
                    shares' = put slug sh' shares
                in case Pull (shOwnerID sh') ''playlists'' 0 s of
                     Inl e \<Rightarrow> (Inl (ErrPullFailed e), shares')
                   | Inr records \<Rightarrow> (resolveRecords sprint parseTime sh' records, shares')))"

section \<open>Handlers\<close>

definition playlistErrorText :: "playlist_error \<Rightarrow> string" where
  "playlistErrorText e =
     (case e of
        ErrPlaylistInvalid \<Rightarrow> ''playlist payload is invalid''
      | ErrPlaylistTooBig \<Rightarrow> ''playlist exceeds the size limits''
      | ErrShareText t \<Rightarrow> t
      | ErrPullFailed s \<Rightarrow> syncErrorText s)"

definition publishHandler ::
  "('f json \<Rightarrow> string) \<Rightarrow> (string \<Rightarrow> time option) \<Rightarrow> string + string \<Rightarrow> time \<Rightarrow> req_context \<Rightarrow>
   string + (string \<times> 'f payload) \<Rightarrow> share_registry \<Rightarrow> (string \<times> string \<times> string) http_response \<times> share_registry" where
  "publishHandler sprint parseTime entropy now ctx body shares =
     (let userID = UserIDFrom ctx
      in if userID = '''' then (WriteError StatusUnauthorized ''unauthorized'', shares)
         else case body of
                Inl e \<Rightarrow> (WriteError StatusBadRequest e, shares)
              | Inr (recordID, p) \<Rightarrow>
                  (case Publish sprint parseTime entropy now userID recordID p shares of
                     (Inl e, shares') \<Rightarrow> (WriteError StatusBadRequest (playlistErrorText e), shares')
                   | (Inr sh, shares') \<Rightarrow>
                       (WriteJSON StatusOK (shSlug sh, ''/v1/playlists/shared/'' @ shSlug sh, shRecordID sh), shares')))"

definition unpublishHandler ::
  "req_context \<Rightarrow> string \<Rightarrow> share_registry \<Rightarrow> string http_response \<times> share_registry" where
  "unpublishHandler ctx slug shares =
     (let userID = UserIDFrom ctx
      in if userID = '''' then (WriteError StatusUnauthorized ''unauthorized'', shares)
         else case Unpublish userID slug shares of
                (Some e, shares') \<Rightarrow> (WriteError StatusNotFound (playlistErrorText e), shares')
              | (None, shares') \<Rightarrow> (WriteJSON StatusOK ''ok'', shares'))"

definition resolveHandler ::
  "('f json \<Rightarrow> string) \<Rightarrow> (string \<Rightarrow> time option) \<Rightarrow> 'f payload sync_store \<Rightarrow> string \<Rightarrow> share_registry \<Rightarrow>
   (string \<times> playlist) http_response \<times> share_registry" where
  "resolveHandler sprint parseTime s slug shares =
     (case Resolve sprint parseTime s slug shares of
        (Inl e, shares') \<Rightarrow> (WriteError StatusNotFound (playlistErrorText e), shares')
      | (Inr (sh, pl), shares') \<Rightarrow> (WriteJSON StatusOK (shSlug sh, pl), shares'))"

section \<open>Lemmas\<close>

lemma length_b64_digits: "length (b64_digits ns) = (4 * length ns + 2) div 3"
  by (induction ns rule: b64_digits.induct) (simp_all add: b64_groups3_def)

lemma url_slugChar: "c \<in> set urlAlphabet \<Longrightarrow> slugChar c"
proof -
  have "list_all slugChar urlAlphabet" unfolding urlAlphabet_def by code_simp
  then show "c \<in> set urlAlphabet \<Longrightarrow> slugChar c" by (simp add: list_all_iff)
qed

lemma NewSlug_valid: "length raw = 16 \<Longrightarrow> NewSlug (Inr raw) = Inr slug \<Longrightarrow> ValidSlug slug"
proof -
  assume raw: "length raw = 16" and slug: "NewSlug (Inr raw) = Inr slug"
  have "list_all slugChar (EncodeToString urlAlphabet raw)"
    using EncodeToString_chars [OF good_url, of raw] url_slugChar by (auto simp only: list_all_iff subset_iff)
  moreover have "length (EncodeToString urlAlphabet raw) = 22"
    by (simp add: EncodeToString_def length_b64_digits raw)
  moreover have "slug = ''pl_'' @ EncodeToString urlAlphabet raw" using slug by (simp add: NewSlug_def)
  ultimately show ?thesis by (simp add: ValidSlug_def starts_with_def)
qed

text \<open>A validated playlist keeps the limits.\<close>

lemma validatePlaylist_bounds:
  assumes "validatePlaylist sprint parseTime p = Inr pl"
  shows "plPlaylistID pl \<noteq> '''' \<and> plTitle pl \<noteq> '''' \<and> runeCount (plTitle pl) \<le> MaxTitleRunes \<and>
    runeCount (plDescription pl) \<le> MaxDescriptionRunes \<and> length (plTrackKeys pl) \<le> MaxTrackKeys \<and>
    '''' \<notin> set (plTrackKeys pl)"
  using assms
  by (auto simp: validatePlaylist_def Let_def trackKeysOf_def split: if_splits option.splits)

lemma resolveRecords_find:
  "resolveRecords sprint parseTime sh rs =
     (case find (\<lambda>r. recID r = shRecordID sh \<and> \<not> recDeleted r) rs of
        None \<Rightarrow> Inl (ErrShareText ''playlist no longer exists'')
      | Some r \<Rightarrow>
          (case validatePlaylist sprint parseTime (recPayload r) of
             Inl e \<Rightarrow> Inl e
           | Inr pl \<Rightarrow> if plIsPublic pl then Inr (sh, pl) else Inl (ErrShareText ''playlist is no longer public'')))"
  by (induction rs) (auto split: sum.split)

definition registryOK :: "share_registry \<Rightarrow> bool" where
  "registryOK shares \<longleftrightarrow> wf_map shares \<and>
     (\<forall>sl sh. map_of shares sl = Some sh \<longrightarrow> shSlug sh = sl \<and> ValidSlug sl) \<and>
     (\<forall>sl sh sl' sh'. map_of shares sl = Some sh \<and> map_of shares sl' = Some sh' \<and>
        shOwnerID sh = shOwnerID sh' \<and> shRecordID sh = shRecordID sh' \<longrightarrow> sl = sl')"

lemma registryOK_D:
  assumes "registryOK shares"
  shows "wf_map shares"
    and "map_of shares sl = Some sh \<Longrightarrow> shSlug sh = sl"
    and "map_of shares sl = Some sh \<Longrightarrow> ValidSlug sl"
    and "map_of shares sl = Some sh \<Longrightarrow> map_of shares sl' = Some sh' \<Longrightarrow> shOwnerID sh = shOwnerID sh' \<Longrightarrow>
      shRecordID sh = shRecordID sh' \<Longrightarrow> sl = sl'"
  using assms unfolding registryOK_def by blast+

lemma registryOK_I:
  assumes "wf_map shares"
    and "\<And>sl sh. map_of shares sl = Some sh \<Longrightarrow> shSlug sh = sl \<and> ValidSlug sl"
    and "\<And>sl sh sl' sh'. map_of shares sl = Some sh \<Longrightarrow> map_of shares sl' = Some sh' \<Longrightarrow>
      shOwnerID sh = shOwnerID sh' \<Longrightarrow> shRecordID sh = shRecordID sh' \<Longrightarrow> sl = sl'"
  shows "registryOK shares"
  using assms unfolding registryOK_def by blast

lemma registryOK_Nil: "registryOK []"
  by (rule registryOK_I) simp_all

lemma map_of_del_Some: "map_of (del k m) a = Some b \<longleftrightarrow> a \<noteq> k \<and> map_of m a = Some b"
  by simp

lemma map_of_put_Some: "map_of (put k v m) a = Some b \<longleftrightarrow> (if a = k then b = v else map_of m a = Some b)"
  by auto

lemma registryOK_del: "registryOK shares \<Longrightarrow> registryOK (del sl shares)"
proof (rule registryOK_I)
  assume ok: "registryOK shares"
  show "wf_map (del sl shares)" using registryOK_D(1) [OF ok] by (rule wf_map_del)
  show "shSlug sh = a \<and> ValidSlug a" if "map_of (del sl shares) a = Some sh" for a sh
    using that registryOK_D(2,3) [OF ok] unfolding map_of_del_Some by blast
  show "a = b" if "map_of (del sl shares) a = Some sh" "map_of (del sl shares) b = Some sh'"
    "shOwnerID sh = shOwnerID sh'" "shRecordID sh = shRecordID sh'" for a sh b sh'
    using that registryOK_D(4) [OF ok] unfolding map_of_del_Some by blast
qed

lemma registryOK_put:
  assumes ok: "registryOK shares" and sl: "shSlug sh = sl" "ValidSlug sl"
    and fresh: "\<And>a x. map_of shares a = Some x \<Longrightarrow> a \<noteq> sl \<Longrightarrow> shOwnerID x = shOwnerID sh \<Longrightarrow> shRecordID x \<noteq> shRecordID sh"
  shows "registryOK (put sl sh shares)"
proof (rule registryOK_I)
  show "wf_map (put sl sh shares)" using registryOK_D(1) [OF ok] by (rule wf_map_put)
  show "shSlug x = a \<and> ValidSlug a" if "map_of (put sl sh shares) a = Some x" for a x
    using that sl registryOK_D(2,3) [OF ok] unfolding map_of_put_Some by (cases "a = sl") simp_all
  show "a = b" if A: "map_of (put sl sh shares) a = Some x" "map_of (put sl sh shares) b = Some y"
    "shOwnerID x = shOwnerID y" "shRecordID x = shRecordID y" for a x b y
  proof (cases "a = sl"; cases "b = sl")
    assume "a = sl" "b \<noteq> sl"
    with A fresh [of b y] show ?thesis unfolding map_of_put_Some by simp
  next
    assume "a \<noteq> sl" "b = sl"
    with A fresh [of a x] show ?thesis unfolding map_of_put_Some by simp
  next
    assume "a \<noteq> sl" "b \<noteq> sl"
    with A registryOK_D(4) [OF ok, of a x b y] show ?thesis unfolding map_of_put_Some by simp
  qed simp
qed

lemma Resolve_keeps:
  assumes ok: "registryOK shares"
  shows "registryOK (snd (Resolve sprint parseTime s slug shares))"
proof (cases "ValidSlug slug \<and> map_of shares slug \<noteq> None")
  case True
  then obtain sh where sh: "map_of shares slug = Some sh" by blast
  let ?sh = "sh\<lparr>shViews := shViews sh + 1\<rparr>"
  have "registryOK (put slug ?sh shares)"
  proof (rule registryOK_put [OF ok])
    show "shSlug ?sh = slug" using registryOK_D(2) [OF ok sh] by simp
    show "ValidSlug slug" using True by simp
    show "shRecordID x \<noteq> shRecordID ?sh" if "map_of shares a = Some x" "a \<noteq> slug" "shOwnerID x = shOwnerID ?sh" for a x
      using registryOK_D(4) [OF ok that(1) sh] that(2,3) by auto
  qed
  then show ?thesis using True sh by (simp add: Resolve_def Let_def split: sum.split)
next
  case False
  then have "snd (Resolve sprint parseTime s slug shares) = shares"
    by (auto simp: Resolve_def)
  with ok show ?thesis by simp
qed

lemma Publish_new:
  "Publish sprint parseTime entropy now u rid p shares = (Inr sh, shares') \<Longrightarrow>
   find (\<lambda>sh. shOwnerID sh = u \<and> shRecordID sh = rid) (map snd shares) = None \<Longrightarrow>
   \<exists>slug. NewSlug entropy = Inr slug \<and> shares' = put slug sh shares \<and>
     sh = \<lparr>shSlug = slug, shOwnerID = u, shRecordID = rid, shCreatedAt = now, shViews = 0\<rparr>"
  by (cases "validatePlaylist sprint parseTime p"; cases "payloadPublic p"; cases "NewSlug entropy")
     (auto simp: Publish_def Let_def)

lemma Publish_old:
  "Publish sprint parseTime entropy now u rid p shares = (Inr sh, shares') \<Longrightarrow>
   find (\<lambda>sh. shOwnerID sh = u \<and> shRecordID sh = rid) (map snd shares) = Some old \<Longrightarrow> sh = old \<and> shares' = shares"
  by (cases "validatePlaylist sprint parseTime p"; cases "payloadPublic p") (auto simp: Publish_def)

lemma find_value: "find P (map snd m) = Some v \<Longrightarrow> P v \<and> (\<exists>k. (k, v) \<in> set m)"
  by (induction m) (auto split: if_splits)

lemma Publish_effect:
  assumes ok: "registryOK shares" and raw: "length raw = 16"
    and pub: "Publish sprint parseTime (Inr raw) now u rid p shares = (Inr sh, shares')"
  shows "registryOK shares' \<and> map_of shares' (shSlug sh) = Some sh \<and> shOwnerID sh = u \<and> shRecordID sh = rid"
proof (cases "find (\<lambda>sh. shOwnerID sh = u \<and> shRecordID sh = rid) (map snd shares)")
  case (Some old)
  from Publish_old [OF pub Some] have s: "sh = old" "shares' = shares" by simp_all
  from find_value [OF Some] obtain sl where o: "shOwnerID old = u" "shRecordID old = rid" "(sl, old) \<in> set shares" by blast
  from o(3) have m: "map_of shares sl = Some old" by (simp add: in_set_map_of [OF registryOK_D(1) [OF ok]])
  from registryOK_D(2) [OF ok m] m o ok s show ?thesis by simp
next
  case None
  from Publish_new [OF pub None] obtain slug where slug: "NewSlug (Inr raw) = Inr slug"
    and s': "shares' = put slug sh shares"
    and sh: "sh = \<lparr>shSlug = slug, shOwnerID = u, shRecordID = rid, shCreatedAt = now, shViews = 0\<rparr>" by blast
  have fresh: "shRecordID x \<noteq> rid" if "map_of shares a = Some x" "shOwnerID x = u" for a x
  proof -
    from that(1) have "x \<in> set (map snd shares)" by (metis map_of_SomeD image_eqI set_map snd_conv)
    with None that(2) show ?thesis by (auto simp: find_None_iff)
  qed
  have "registryOK (put slug sh shares)"
  proof (rule registryOK_put [OF ok])
    show "shSlug sh = slug" by (simp add: sh)
    show "ValidSlug slug" by (rule NewSlug_valid [OF raw slug])
    show "shRecordID x \<noteq> shRecordID sh" if "map_of shares a = Some x" "shOwnerID x = shOwnerID sh" for a x
      using fresh [OF that(1)] that(2) by (simp add: sh)
  qed
  then show ?thesis by (simp add: s' sh)
qed

lemma Publish_again:
  assumes ok: "registryOK shares" and sh: "map_of shares (shSlug sh) = Some sh" "shOwnerID sh = u" "shRecordID sh = rid"
    and v: "validatePlaylist sprint parseTime p = Inr pl" "payloadPublic p"
  shows "Publish sprint parseTime entropy now u rid p shares = (Inr sh, shares)"
proof -
  have "sh \<in> set (map snd shares)" using sh(1) by (metis map_of_SomeD image_eqI set_map snd_conv)
  with sh obtain old where f: "find (\<lambda>sh. shOwnerID sh = u \<and> shRecordID sh = rid) (map snd shares) = Some old"
    by (cases "find (\<lambda>sh. shOwnerID sh = u \<and> shRecordID sh = rid) (map snd shares)") (auto simp: find_None_iff)
  from find_value [OF f] obtain sl where o: "shOwnerID old = u" "shRecordID old = rid" "(sl, old) \<in> set shares" by blast
  from o(3) have m: "map_of shares sl = Some old" by (simp add: in_set_map_of [OF registryOK_D(1) [OF ok]])
  from registryOK_D(4) [OF ok m sh(1)] o sh have "sl = shSlug sh" by simp
  with m sh(1) have "old = sh" by simp
  then show ?thesis by (simp add: Publish_def v f)
qed

lemma Publish_ok:
  "Publish sprint parseTime entropy now u rid p shares = (Inr sh, shares') \<Longrightarrow>
   (\<exists>pl. validatePlaylist sprint parseTime p = Inr pl) \<and> payloadPublic p"
  by (cases "validatePlaylist sprint parseTime p"; cases "payloadPublic p") (auto simp: Publish_def)

text \<open>
  Publishing looks only at the payload in the request: a link to a record that was never
  pushed is minted, against the comment on the handler, and resolves to an error.
\<close>

lemma share_of_missing_record:
  "registryOK shares \<Longrightarrow> map_of shares slug = Some sh \<Longrightarrow>
   fst (Resolve sprint parseTime [] slug shares) = Inl (ErrShareText ''playlist no longer exists'')"
  using registryOK_D(3) [of shares slug sh] by (simp add: Resolve_def Pull_def ValidScopes_def Let_def)

section \<open>Properties\<close>

text \<open>
  C21: A published link: its slug has the documented shape, publishing the same record again
  returns the same link, the link resolves to the current payload of the owner's live record
  exactly when that payload is valid and public and to an error otherwise, and once the
  owner unpublishes it the slug resolves to nothing.
\<close>

theorem share_link_resolves:
  assumes "registryOK shares" and "length raw = 16"
    and "Publish sprint parseTime (Inr raw) now u rid p shares = (Inr sh, shares')"
  shows "ValidSlug (shSlug sh) \<and>
    Publish sprint parseTime entropy' now' u rid p shares' = (Inr sh, shares') \<and>
    fst (Resolve sprint parseTime s (shSlug sh) shares') =
      (case Pull u ''playlists'' 0 s of
         Inl e \<Rightarrow> Inl (ErrPullFailed e)
       | Inr records \<Rightarrow>
           (case find (\<lambda>r. recID r = rid \<and> \<not> recDeleted r) records of
              None \<Rightarrow> Inl (ErrShareText ''playlist no longer exists'')
            | Some r \<Rightarrow>
                (case validatePlaylist sprint parseTime (recPayload r) of
                   Inl e \<Rightarrow> Inl e
                 | Inr pl \<Rightarrow>
                     if plIsPublic pl then Inr (sh\<lparr>shViews := shViews sh + 1\<rparr>, pl)
                     else Inl (ErrShareText ''playlist is no longer public'')))) \<and>
    fst (Resolve sprint parseTime s (shSlug sh) (snd (Unpublish u (shSlug sh) shares'))) =
      Inl (ErrShareText ''share not found'')"
proof -
  from Publish_effect [OF assms] have ok: "registryOK shares'" and m: "map_of shares' (shSlug sh) = Some sh"
    and o: "shOwnerID sh = u" "shRecordID sh = rid" by simp_all
  from Publish_ok [OF assms(3)] obtain pl where v: "validatePlaylist sprint parseTime p = Inr pl" "payloadPublic p" by blast
  have slug: "ValidSlug (shSlug sh)" by (rule registryOK_D(3) [OF ok m])
  have "snd (Unpublish u (shSlug sh) shares') = del (shSlug sh) shares'" by (simp add: Unpublish_def m o)
  then show ?thesis
    using slug Publish_again [OF ok m o v, of entropy' now']
    by (simp add: Resolve_def m o Let_def resolveRecords_find split: sum.split option.split)
qed

text \<open>A payload whose values print as themselves, and the store that holds it under \<open>r1\<close>.\<close>

definition exSprint :: "nat json \<Rightarrow> string" where
  "exSprint v = (case v of JStr s \<Rightarrow> s | JBool b \<Rightarrow> (if b then ''true'' else ''false'') | _ \<Rightarrow> ''?'')"

definition exShared :: "nat payload" where
  "exShared = Some [(''playlistId'', JStr ''p1''), (''title'', JStr '' Mix ''), (''isPublic'', JBool True),
     (''trackKeys'', JArr [JStr ''t1'', JStr '' '', JStr ''t2''])]"

definition exSharedStore :: "nat payload sync_store" where
  "exSharedStore = snd (Push (\<lambda>_. 1) ''u'' ''playlists''
     [\<lparr>recScope = ''playlists'', recID = ''r1'', recRevision = 1, recUpdatedAt = 1, recDeleted = False,
       recPayload = exShared\<rparr>] [])"

theorem share_link_resolves_witness:
  "\<exists>sh shares' pl. Publish exSprint (\<lambda>_. None) (Inr ''0123456789abcdef'') 7 ''u'' ''r1'' exShared [] = (Inr sh, shares') \<and>
     fst (Resolve exSprint (\<lambda>_. None) exSharedStore (shSlug sh) shares') = Inr (sh\<lparr>shViews := shViews sh + 1\<rparr>, pl) \<and>
     plTitle pl = ''Mix'' \<and> plTrackKeys pl = [''t1'', ''t2'']"
proof -
  let ?pl = "\<lparr>plPlaylistID = ''p1'', plTitle = ''Mix'', plTrackKeys = [''t1'', ''t2''], plDescription = '''',
    plCoverURL = '''', plIsPublic = True, plPublishedAt = 0\<rparr>"
  have v: "validatePlaylist exSprint (\<lambda>_. None) exShared = Inr ?pl" by code_simp
  have pp: "payloadPublic exShared" by code_simp
  obtain sh shares' where pub: "Publish exSprint (\<lambda>_. None) (Inr ''0123456789abcdef'') 7 ''u'' ''r1'' exShared [] = (Inr sh, shares')"
    by (simp add: Publish_def v pp NewSlug_def Let_def)
  have pull: "Pull ''u'' ''playlists'' 0 exSharedStore = Inr [\<lparr>recScope = ''playlists'', recID = ''r1'', recRevision = 1,
      recUpdatedAt = 1, recDeleted = False, recPayload = exShared\<rparr>]"
    unfolding exSharedStore_def by code_simp
  have raw: "length ''0123456789abcdef'' = 16" by simp
  from share_link_resolves [OF registryOK_Nil raw pub, where s = exSharedStore] pull v
  have "fst (Resolve exSprint (\<lambda>_. None) exSharedStore (shSlug sh) shares') = Inr (sh\<lparr>shViews := shViews sh + 1\<rparr>, ?pl)"
    by simp
  with pub show ?thesis by auto
qed

end
