(* ===== verification/Server.thy ===== *)
theory Server
  imports AuthToken Users Devices Collab Market Telemetry
begin

text \<open>
  The wiring of \<open>backend/server.go\<close> as far as it decides what a request meets: the CORS
  wrapper around the routes, the settings read from the environment, and the context in which
  the handlers behind the bearer middleware run.
\<close>

section \<open>CORS\<close>

definition corsOrigin :: "string \<Rightarrow> string" where
  "corsOrigin allowOrigin =
     (case split_on (CHR '','') allowOrigin of
        first # _ \<Rightarrow> if first \<noteq> '''' then trim_space first else ''*''
      | [] \<Rightarrow> ''*'')"

definition corsMethods :: "string list" where
  "corsMethods = [''GET'', ''POST'', ''PUT'', ''DELETE'', ''OPTIONS'']"

definition corsHeaders :: "string list" where
  "corsHeaders = [''Authorization'', ''Content-Type'', ''X-Api-Key'']"

text \<open>The headers every response carries, and the response: a preflight never reaches the routes.\<close>

definition corsHandler ::
  "string \<Rightarrow> string \<Rightarrow> string http_response \<times> 'st \<Rightarrow> 'st \<Rightarrow>
   (string \<times> string list \<times> string list) \<times> string http_response \<times> 'st" where
  "corsHandler allowOrigin reqMethod served st =
     ((corsOrigin allowOrigin, corsMethods, corsHeaders),
      if reqMethod = ''OPTIONS'' then (WriteJSON StatusNoContent '''', st) else served)"

section \<open>The environment\<close>

definition envOr :: "(string \<Rightarrow> string) \<Rightarrow> string \<Rightarrow> string \<Rightarrow> string" where
  "envOr getenv key fallback =
     (let v = trim_space (getenv key) in if v \<noteq> '''' then v else fallback)"

text \<open>\<open>entropy\<close> is the 32 random bytes, \<open>None\<close> when their source fails, which ends the process.\<close>

definition jwtSecret :: "(string \<Rightarrow> string) \<Rightarrow> string option \<Rightarrow> string option" where
  "jwtSecret getenv entropy =
     (let secret = trim_space (getenv ''SPOTIFLAC_JWT_SECRET'')
      in if secret \<noteq> '''' then Some secret else entropy)"

text \<open>
  The warning of \<open>main\<close> about an ephemeral secret is logged for a secret shorter than 32
  bytes: a generated one never is, a short configured one is.
\<close>

definition warnsEphemeral :: "string \<Rightarrow> bool" where
  "warnsEphemeral secret \<longleftrightarrow> length secret < 32"

lemma generated_secret_not_warned:
  assumes "trim_space (getenv ''SPOTIFLAC_JWT_SECRET'') = ''''" and "length raw = 32"
  shows "jwtSecret getenv (Some raw) = Some raw \<and> \<not> warnsEphemeral raw"
  using assms by (simp add: jwtSecret_def warnsEphemeral_def Let_def)

section \<open>The modules behind the bearer middleware\<close>

lemma module_user_missing:
  "usersUserID (WithUserID [] u) = ''''" "devicesUserID (WithUserID [] u) = ''''"
  "collabUserID (WithUserID [] u) = ''''" "marketUserID (WithUserID [] u) = ''''"
  "telUserID (WithUserID [] u) = ''''"
  by (simp_all add: usersUserID_def devicesUserID_def collabUserID_def marketUserID_def telUserID_def
      ctxString_WithUserID) (simp_all add: ctxString_def)

text \<open>
  The endpoints of the five modules that ask for the user, as their \<open>Routes\<close> register them
  behind the bearer middleware. A body is \<open>Inl\<close> when it does not decode; the second clock
  reading of an accepted invite is its own argument.
\<close>

datatype module_call =
    GetMe | UpdateMe "string + update_request" | DeleteMe
  | RegisterDevice "string + register_request" | ListDevices | GetDevice string
  | RevokeDevice string | RevokeAllDevices string | SetTrust string "string + bool"
  | InviteMember string "string + string \<times> string" | AcceptMemberInvite time string
  | RemoveMember string string | ChangeMemberRole string string "string + string"
  | RecordTrack string "string + string \<times> string \<times> int"
  | IngestEvents string "string + tel_event list" | QueryEvents string string
  | InstallVersion string string | ReviewExtension time string "string + int \<times> string"

record ('u, 'd, 'c, 'f, 't, 'm) module_ops =
  usersOps :: "'u users_ops"
  devicesOps :: "'d device_ops"
  collabOps :: "'c collab_ops"
  telOps :: "('f, 't) tel_ops"
  marketOps :: "('f, 'm) market_ops"
  parseTimeOp :: "string \<Rightarrow> time option"

record ('u, 'd, 'c, 't, 'm) module_state =
  usersSt :: 'u
  devicesSt :: 'd
  collabSt :: 'c
  telSt :: 't
  marketSt :: 'm

text \<open>The status of the response, \<open>None\<close> for a handler that panics, and the stores afterwards.\<close>

fun serveModule ::
  "('u, 'd, 'c, 'f, 't, 'm) module_ops \<Rightarrow> time \<Rightarrow> req_context \<Rightarrow> module_call \<Rightarrow> ('u, 'd, 'c, 't, 'm) module_state \<Rightarrow>
   nat option \<times> ('u, 'd, 'c, 't, 'm) module_state" where
  "serveModule ops now ctx GetMe st = (Some (statusOf (getMeHandler (usersOps ops) ctx (usersSt st))), st)"
| "serveModule ops now ctx (UpdateMe body) st =
     (let (r, u) = updateMeHandler (usersOps ops) ctx body (usersSt st) in (Some (statusOf r), st\<lparr>usersSt := u\<rparr>))"
| "serveModule ops now ctx DeleteMe st =
     (let (r, u) = deleteMeHandler (usersOps ops) ctx (usersSt st) in (Some (statusOf r), st\<lparr>usersSt := u\<rparr>))"
| "serveModule ops now ctx (RegisterDevice body) st =
     (let (r, d) = registerDeviceHandler (devicesOps ops) ctx body (devicesSt st)
      in (Some (statusOf r), st\<lparr>devicesSt := d\<rparr>))"
| "serveModule ops now ctx ListDevices st =
     (Some (statusOf (listDevicesHandler (devicesOps ops) ctx (devicesSt st))), st)"
| "serveModule ops now ctx (GetDevice dev) st =
     (Some (statusOf (getDeviceHandler (devicesOps ops) ctx dev (devicesSt st))), st)"
| "serveModule ops now ctx (RevokeDevice dev) st =
     (let (r, d) = revokeDeviceHandler (devicesOps ops) ctx dev (devicesSt st)
      in (Some (statusOf r), st\<lparr>devicesSt := d\<rparr>))"
| "serveModule ops now ctx (RevokeAllDevices dev) st =
     (let (r, d) = revokeAllDevicesHandler (devicesOps ops) ctx dev (devicesSt st)
      in (Some (statusOf r), st\<lparr>devicesSt := d\<rparr>))"
| "serveModule ops now ctx (SetTrust dev body) st =
     (let (r, d) = setTrustHandler (devicesOps ops) ctx dev body (devicesSt st)
      in (Some (statusOf r), st\<lparr>devicesSt := d\<rparr>))"
| "serveModule ops now ctx (InviteMember pl body) st =
     (let (r, c) = inviteHandler (collabOps ops) now ctx pl body (collabSt st)
      in (map_option statusOf r, st\<lparr>collabSt := c\<rparr>))"
| "serveModule ops now ctx (AcceptMemberInvite later i) st =
     (let (r, c) = acceptInviteHandler (collabOps ops) now later ctx i (collabSt st)
      in (map_option statusOf r, st\<lparr>collabSt := c\<rparr>))"
| "serveModule ops now ctx (RemoveMember pl target) st =
     (let (r, c) = removeMemberHandler (collabOps ops) ctx pl target (collabSt st)
      in (map_option statusOf r, st\<lparr>collabSt := c\<rparr>))"
| "serveModule ops now ctx (ChangeMemberRole pl target body) st =
     (let (r, c) = changeRoleHandler (collabOps ops) ctx pl target body (collabSt st)
      in (map_option statusOf r, st\<lparr>collabSt := c\<rparr>))"
| "serveModule ops now ctx (RecordTrack pl body) st =
     (let (r, c) = recordChangeHandler (collabOps ops) now ctx pl body (collabSt st)
      in (map_option statusOf r, st\<lparr>collabSt := c\<rparr>))"
| "serveModule ops now ctx (IngestEvents dev body) st =
     (let (r, t) = ingestHandler (telOps ops) now ctx dev body (telSt st) in (Some (statusOf r), st\<lparr>telSt := t\<rparr>))"
| "serveModule ops now ctx (QueryEvents typeText sinceText) st =
     (Some (statusOf (queryHandler (parseTimeOp ops) (telOps ops) now ctx typeText sinceText (telSt st))), st)"
| "serveModule ops now ctx (InstallVersion e version) st =
     (let (r, m) = installHandler (marketOps ops) now ctx e version (marketSt st)
      in (Some (statusOf r), st\<lparr>marketSt := m\<rparr>))"
| "serveModule ops now ctx (ReviewExtension later e body) st =
     (let (r, m) = addReviewHandler (marketOps ops) now later ctx e body (marketSt st)
      in (Some (statusOf r), st\<lparr>marketSt := m\<rparr>))"

text \<open>
  \<open>NewServer\<close> puts the bearer middleware before each of them: a request has its clock reading,
  its \<open>Authorization\<close> header and the call it is routed to.
\<close>

definition serveGuarded ::
  "(string \<Rightarrow> string \<Rightarrow> string) \<Rightarrow> (string \<Rightarrow> claims option) \<Rightarrow> token_issuer \<Rightarrow>
   ('u, 'd, 'c, 'f, 't, 'm) module_ops \<Rightarrow> time \<times> string \<times> module_call \<Rightarrow> ('u, 'd, 'c, 't, 'm) module_state \<Rightarrow>
   nat option \<times> ('u, 'd, 'c, 't, 'm) module_state" where
  "serveGuarded mac unmarshal iss ops req st =
     (let (now, authorization, call) = req
      in case Middleware mac unmarshal iss now authorization [] of
           Inl refusal \<Rightarrow> (Some (statusOf refusal), st)
         | Inr ctx \<Rightarrow> serveModule ops now ctx call st)"

fun serveAll ::
  "(string \<Rightarrow> string \<Rightarrow> string) \<Rightarrow> (string \<Rightarrow> claims option) \<Rightarrow> token_issuer \<Rightarrow>
   ('u, 'd, 'c, 'f, 't, 'm) module_ops \<Rightarrow> (time \<times> string \<times> module_call) list \<Rightarrow>
   ('u, 'd, 'c, 't, 'm) module_state \<Rightarrow> nat option list \<times> ('u, 'd, 'c, 't, 'm) module_state" where
  "serveAll mac unmarshal iss ops [] st = ([], st)"
| "serveAll mac unmarshal iss ops (req # reqs) st =
     (let (status, st1) = serveGuarded mac unmarshal iss ops req st;
          (rest, st2) = serveAll mac unmarshal iss ops reqs st1
      in (status # rest, st2))"

text \<open>
  What a client meets: a token of the server's own or not, the users, devices, collaboration and
  telemetry endpoints refuse it as unauthorized; the marketplace refuses an authenticated user
  as invalid input.
\<close>

fun marketCall :: "module_call \<Rightarrow> bool" where
  "marketCall (InstallVersion _ _) = True"
| "marketCall (ReviewExtension _ _ _) = True"
| "marketCall _ = False"

definition refusalOf ::
  "(string \<Rightarrow> string \<Rightarrow> string) \<Rightarrow> (string \<Rightarrow> claims option) \<Rightarrow> token_issuer \<Rightarrow> time \<times> string \<times> module_call \<Rightarrow> nat" where
  "refusalOf mac unmarshal iss req =
     (let (now, authorization, call) = req
      in if marketCall call \<and> (\<exists>u. VerifyToken mac unmarshal iss now (BearerToken authorization) = Inr u) \<and>
            BearerToken authorization \<noteq> ''''
         then StatusBadRequest else StatusUnauthorized)"

lemma users_call_refused:
  assumes "call \<in> {GetMe, DeleteMe} \<union> range UpdateMe"
  shows "serveModule ops now (WithUserID [] u) call st = (Some StatusUnauthorized, st)"
  using assms by (auto simp: getMeHandler_def updateMeHandler_def deleteMeHandler_def module_user_missing)

lemma devices_call_refused:
  "serveModule ops now (WithUserID [] u) (RegisterDevice body) st = (Some StatusUnauthorized, st)"
  "serveModule ops now (WithUserID [] u) ListDevices st = (Some StatusUnauthorized, st)"
  "serveModule ops now (WithUserID [] u) (GetDevice dev) st = (Some StatusUnauthorized, st)"
  "serveModule ops now (WithUserID [] u) (RevokeDevice dev) st = (Some StatusUnauthorized, st)"
  "serveModule ops now (WithUserID [] u) (RevokeAllDevices dev) st = (Some StatusUnauthorized, st)"
  "serveModule ops now (WithUserID [] u) (SetTrust dev trust) st = (Some StatusUnauthorized, st)"
  by (simp_all add: registerDeviceHandler_def listDevicesHandler_def getDeviceHandler_def revokeDeviceHandler_def
      revokeAllDevicesHandler_def setTrustHandler_def module_user_missing)

lemma collab_call_refused:
  "serveModule ops now (WithUserID [] u) (InviteMember pl invitee) st = (Some StatusUnauthorized, st)"
  "serveModule ops now (WithUserID [] u) (AcceptMemberInvite later i) st = (Some StatusUnauthorized, st)"
  "serveModule ops now (WithUserID [] u) (RemoveMember pl target) st = (Some StatusUnauthorized, st)"
  "serveModule ops now (WithUserID [] u) (ChangeMemberRole pl target r) st = (Some StatusUnauthorized, st)"
  "serveModule ops now (WithUserID [] u) (RecordTrack pl track) st = (Some StatusUnauthorized, st)"
  by (simp_all add: inviteHandler_def acceptInviteHandler_def removeMemberHandler_def changeRoleHandler_def
      recordChangeHandler_def module_user_missing)

lemma telemetry_call_refused:
  "serveModule ops now (WithUserID [] u) (IngestEvents dev events) st = (Some StatusUnauthorized, st)"
  "serveModule ops now (WithUserID [] u) (QueryEvents ty since) st = (Some StatusUnauthorized, st)"
  by (simp_all add: ingestHandler_def queryHandler_def module_user_missing)

lemma market_call_refused:
  "marketCall call \<Longrightarrow> serveModule ops now (WithUserID [] u) call st = (Some StatusBadRequest, st)"
  by (cases call) (auto simp: installHandler_def InstallExtension_def addReviewHandler_def svcAddReview_def
      writeMarketError_def module_user_missing split: sum.splits)

lemma module_call_refused:
  "serveModule ops now (WithUserID [] u) call st =
     (Some (if marketCall call then StatusBadRequest else StatusUnauthorized), st)"
proof (cases call)
  case (UpdateMe body)
  then show ?thesis by (simp add: users_call_refused del: serveModule.simps)
qed (simp_all add: users_call_refused devices_call_refused collab_call_refused telemetry_call_refused
      market_call_refused del: serveModule.simps)

lemma serveGuarded_refused:
  "serveGuarded mac unmarshal iss ops req st = (Some (refusalOf mac unmarshal iss req), st)"
proof -
  obtain now authorization call where req: "req = (now, authorization, call)" by (cases req)
  show ?thesis
    by (cases "VerifyToken mac unmarshal iss now (BearerToken authorization)")
       (simp_all add: req serveGuarded_def refusalOf_def Middleware_def Let_def module_call_refused)
qed

section \<open>Properties\<close>

text \<open>
  C11: Whatever requests, with whatever tokens, reach the endpoints of the users, devices,
  collaboration and telemetry modules that ask for the user, and the install and review
  endpoints of the marketplace, and whatever their stores are: every one is refused, with 401,
  or with 400 by the marketplace for a valid token, none panics, and no store changes. The bearer
  middleware stores the user under one key of the request context, the modules read it under
  keys of their own, which nothing sets, so that a valid token does not help.
\<close>

theorem server_module_endpoints_unauthorized:
  "serveAll mac unmarshal iss ops reqs st = (map (Some \<circ> refusalOf mac unmarshal iss) reqs, st)"
  by (induction reqs) (simp_all add: serveGuarded_refused)

text \<open>A valid token does pass the middleware: the refusal above is the modules' own.\<close>

lemma valid_token_reaches_module:
  assumes "BearerToken authorization \<noteq> ''''"
    and "VerifyToken mac unmarshal iss now (BearerToken authorization) = Inr u"
  shows "serveGuarded mac unmarshal iss ops (now, authorization, call) st = serveModule ops now (WithUserID [] u) call st"
  using assms by (simp add: serveGuarded_def Middleware_def Let_def)

end
