(* ===== verification/Progress.thy ===== *)
theory Progress
  imports Prelude
begin

text \<open>
  Download progress of the mobile core (\<open>go_backend/progress.go\<close>): the table of items, the
  sequence numbers and removal tombstones behind the delta protocol that the Android and iOS
  bridges poll, and the writer that reports bytes. Numbers of type \<open>float64\<close> have the
  parameter type \<open>'f\<close>, with the tests and conversions that the code makes in \<open>prog_float\<close>.
  Every exported function takes the package's lock for its whole body, so each is one step
  on the state.
\<close>

section \<open>Data\<close>

record 'f prog_float =
  pfNonPositive :: "'f \<Rightarrow> bool"
  pfAtLeastOne :: "'f \<Rightarrow> bool"
  pfRound :: "'f \<Rightarrow> int \<Rightarrow> int"
  pfRatio :: "int \<Rightarrow> int \<Rightarrow> 'f"
  pfZero :: 'f
  pfOne :: 'f

record 'f item_progress =
  ipItemID :: string
  ipBytesTotal :: int
  ipBytesReceived :: int
  ipProgress :: 'f
  ipSpeedMBps :: 'f
  ipIsDownloading :: bool
  ipStatus :: string
  ipStage :: string
  ipRevision :: int

definition statusPreparing :: string where "statusPreparing = ''preparing''"
definition statusDownloading :: string where "statusDownloading = ''downloading''"
definition statusCompleted :: string where "statusCompleted = ''completed''"
definition statusFinalizing :: string where "statusFinalizing = ''finalizing''"

record 'f progress_delta =
  pdSeq :: int
  pdReset :: bool
  pdItems :: "(string, 'f item_progress) gomap"
  pdRemoved :: "string list"

record bridge_state =
  bsBytesBucket :: int
  bsBytesTotal :: int
  bsProgressPct :: int
  bsSpeedDeci :: int
  bsDownloading :: bool
  bsStatus :: string
  bsStage :: string

text \<open>
  The package variables. \<open>cachedMultiProgress\<close> holds JSON; here it is the table that was
  marshalled.
\<close>

record 'f progress_state =
  psItems :: "(string, 'f item_progress) gomap"
  psDirty :: bool
  psCached :: "(string, 'f item_progress) gomap"
  psSeq :: int
  psReset :: int
  psRemoved :: "(string, int) gomap"

definition initialProgress :: "'f progress_state" where
  "initialProgress = \<lparr>psItems = [], psDirty = True, psCached = [], psSeq = 0, psReset = 0, psRemoved = []\<rparr>"

definition progressUpdateThreshold :: int where
  "progressUpdateThreshold = 128 * 1024"

definition maxRemovedProgressEntries :: nat where
  "maxRemovedProgressEntries = 512"

text \<open>Integer division rounds towards zero.\<close>

definition go_div :: "int \<Rightarrow> int \<Rightarrow> int" where
  "go_div a b = (if 0 \<le> a then a div b else - ((- a) div b))"

definition itemBridgeState :: "'f prog_float \<Rightarrow> 'f item_progress \<Rightarrow> bridge_state" where
  "itemBridgeState fl item =
     (let progress = (if pfNonPositive fl (ipProgress item) then pfZero fl
                      else if pfAtLeastOne fl (ipProgress item) then pfOne fl else ipProgress item);
          speed = (if pfNonPositive fl (ipSpeedMBps item) then pfZero fl else ipSpeedMBps item)
      in \<lparr>bsBytesBucket = go_div (ipBytesReceived item) progressUpdateThreshold,
          bsBytesTotal = ipBytesTotal item, bsProgressPct = pfRound fl progress 100,
          bsSpeedDeci = pfRound fl speed 10, bsDownloading = ipIsDownloading item,
          bsStatus = ipStatus item, bsStage = ipStage item\<rparr>)"

section \<open>Updates\<close>

text \<open>
  The frame of every update of an item: nothing for an unknown item, else the fields are
  written and, when what the bridge shows has changed, the item gets the next revision.
\<close>

definition updateItem ::
  "'f prog_float \<Rightarrow> ('f item_progress \<Rightarrow> 'f item_progress) \<Rightarrow> string \<Rightarrow> 'f progress_state \<Rightarrow> 'f progress_state" where
  "updateItem fl f itemID st =
     (case map_of (psItems st) itemID of
        None \<Rightarrow> st
      | Some item \<Rightarrow>
          (let item' = f item
           in if itemBridgeState fl item' \<noteq> itemBridgeState fl item then
                st\<lparr>psItems := put itemID (item'\<lparr>ipRevision := psSeq st + 1\<rparr>) (psItems st),
                   psSeq := psSeq st + 1, psDirty := True\<rparr>
              else st\<lparr>psItems := put itemID item' (psItems st)\<rparr>))"

definition StartItemProgress :: "'f prog_float \<Rightarrow> string \<Rightarrow> 'f progress_state \<Rightarrow> 'f progress_state" where
  "StartItemProgress fl itemID st =
     st\<lparr>psItems := put itemID
          \<lparr>ipItemID = itemID, ipBytesTotal = 0, ipBytesReceived = 0, ipProgress = pfZero fl,
           ipSpeedMBps = pfZero fl, ipIsDownloading = False, ipStatus = statusPreparing, ipStage = '''',
           ipRevision = psSeq st + 1\<rparr> (psItems st),
        psSeq := psSeq st + 1, psRemoved := del itemID (psRemoved st), psDirty := True\<rparr>"

definition preparingFields :: "'f prog_float \<Rightarrow> string \<Rightarrow> 'f item_progress \<Rightarrow> 'f item_progress" where
  "preparingFields fl stage item =
     item\<lparr>ipProgress := pfZero fl, ipBytesReceived := 0, ipBytesTotal := 0, ipSpeedMBps := pfZero fl,
          ipIsDownloading := True, ipStatus := statusPreparing, ipStage := stage\<rparr>"

definition SetItemPreparingStage :: "'f prog_float \<Rightarrow> string \<Rightarrow> string \<Rightarrow> 'f progress_state \<Rightarrow> 'f progress_state" where
  "SetItemPreparingStage fl itemID stage st = updateItem fl (preparingFields fl stage) itemID st"

definition SetItemPreparing :: "'f prog_float \<Rightarrow> string \<Rightarrow> 'f progress_state \<Rightarrow> 'f progress_state" where
  "SetItemPreparing fl itemID st = SetItemPreparingStage fl itemID '''' st"

definition downloadingFields :: "'f item_progress \<Rightarrow> 'f item_progress" where
  "downloadingFields item = item\<lparr>ipIsDownloading := True, ipStatus := statusDownloading, ipStage := ''''\<rparr>"

definition SetItemDownloading :: "'f prog_float \<Rightarrow> string \<Rightarrow> 'f progress_state \<Rightarrow> 'f progress_state" where
  "SetItemDownloading fl itemID st = updateItem fl downloadingFields itemID st"

definition SetItemBytesTotal :: "'f prog_float \<Rightarrow> string \<Rightarrow> int \<Rightarrow> 'f progress_state \<Rightarrow> 'f progress_state" where
  "SetItemBytesTotal fl itemID bytesTotal st = updateItem fl (\<lambda>item. item\<lparr>ipBytesTotal := bytesTotal\<rparr>) itemID st"

definition receivedFields :: "'f prog_float \<Rightarrow> int \<Rightarrow> 'f item_progress \<Rightarrow> 'f item_progress" where
  "receivedFields fl received item =
     (let item1 = item\<lparr>ipBytesReceived := received\<rparr>;
          item2 = (if ipBytesTotal item1 > 0
                   then item1\<lparr>ipProgress := pfRatio fl received (ipBytesTotal item1)\<rparr> else item1)
      in if received > 0 then downloadingFields item2 else item2)"

definition SetItemBytesReceived :: "'f prog_float \<Rightarrow> string \<Rightarrow> int \<Rightarrow> 'f progress_state \<Rightarrow> 'f progress_state" where
  "SetItemBytesReceived fl itemID received st = updateItem fl (receivedFields fl received) itemID st"

definition SetItemBytesReceivedWithSpeed ::
  "'f prog_float \<Rightarrow> string \<Rightarrow> int \<Rightarrow> 'f \<Rightarrow> 'f progress_state \<Rightarrow> 'f progress_state" where
  "SetItemBytesReceivedWithSpeed fl itemID received speed st =
     updateItem fl (\<lambda>item. receivedFields fl received (item\<lparr>ipSpeedMBps := speed\<rparr>)) itemID st"

definition CompleteItemProgress :: "'f prog_float \<Rightarrow> string \<Rightarrow> 'f progress_state \<Rightarrow> 'f progress_state" where
  "CompleteItemProgress fl itemID st =
     updateItem fl (\<lambda>item. item\<lparr>ipProgress := pfOne fl, ipIsDownloading := False, ipStatus := statusCompleted,
       ipStage := ''''\<rparr>) itemID st"

definition progressFields :: "'f prog_float \<Rightarrow> 'f \<Rightarrow> int \<Rightarrow> int \<Rightarrow> 'f item_progress \<Rightarrow> 'f item_progress" where
  "progressFields fl progress bytesReceived bytesTotal item =
     (let hasByteProgress = (bytesReceived > 0 \<or> bytesTotal > 0);
          atEnd = pfAtLeastOne fl progress;
          item1 = (if ipStatus item \<noteq> statusPreparing \<or> hasByteProgress \<or> atEnd
                   then item\<lparr>ipProgress := progress\<rparr> else item\<lparr>ipProgress := pfZero fl\<rparr>);
          item2 = (if bytesReceived > 0 then item1\<lparr>ipBytesReceived := bytesReceived\<rparr> else item1);
          item3 = (if bytesTotal > 0 then item2\<lparr>ipBytesTotal := bytesTotal\<rparr> else item2)
      in if hasByteProgress \<or> atEnd \<or> ipStatus item3 = statusDownloading
         then downloadingFields item3 else item3)"

definition SetItemProgress ::
  "'f prog_float \<Rightarrow> string \<Rightarrow> 'f \<Rightarrow> int \<Rightarrow> int \<Rightarrow> 'f progress_state \<Rightarrow> 'f progress_state" where
  "SetItemProgress fl itemID progress bytesReceived bytesTotal st =
     updateItem fl (progressFields fl progress bytesReceived bytesTotal) itemID st"

definition SetItemFinalizing :: "'f prog_float \<Rightarrow> string \<Rightarrow> 'f progress_state \<Rightarrow> 'f progress_state" where
  "SetItemFinalizing fl itemID st =
     updateItem fl (\<lambda>item. item\<lparr>ipProgress := pfOne fl, ipStatus := statusFinalizing, ipStage := ''''\<rparr>) itemID st"

section \<open>Removal\<close>

text \<open>Called with more than \<open>maxRemovedProgressEntries\<close> tombstones, so the index is in range.\<close>

definition pruneRemoved :: "'f progress_state \<Rightarrow> 'f progress_state" where
  "pruneRemoved st =
     (let revisions = sort (map snd (psRemoved st));
          cutoff = revisions ! (length revisions div 2)
      in st\<lparr>psRemoved := filter (\<lambda>p. \<not> snd p \<le> cutoff) (psRemoved st),
            psReset := (if cutoff > psReset st then cutoff else psReset st)\<rparr>)"

definition RemoveItemProgress :: "string \<Rightarrow> 'f progress_state \<Rightarrow> 'f progress_state" where
  "RemoveItemProgress itemID st =
     (case map_of (psItems st) itemID of
        None \<Rightarrow> st\<lparr>psDirty := True\<rparr>
      | Some _ \<Rightarrow>
          (let st1 = st\<lparr>psItems := del itemID (psItems st),
                        psRemoved := put itemID (psSeq st + 1) (psRemoved st),
                        psSeq := psSeq st + 1\<rparr>;
               st2 = (if length (psRemoved st1) > maxRemovedProgressEntries then pruneRemoved st1 else st1)
           in st2\<lparr>psDirty := True\<rparr>))"

definition ClearAllItemProgress :: "'f progress_state \<Rightarrow> 'f progress_state" where
  "ClearAllItemProgress st =
     st\<lparr>psItems := [], psRemoved := [], psReset := psSeq st + 1, psSeq := psSeq st + 1, psDirty := True\<rparr>"

section \<open>Reading\<close>

definition GetMultiProgress :: "'f progress_state \<Rightarrow> (string, 'f item_progress) gomap \<times> 'f progress_state" where
  "GetMultiProgress st =
     (if \<not> psDirty st then (psCached st, st)
      else (psItems st, st\<lparr>psCached := psItems st, psDirty := False\<rparr>))"

definition GetItemProgress :: "string \<Rightarrow> 'f progress_state \<Rightarrow> 'f item_progress option" where
  "GetItemProgress itemID st = map_of (psItems st) itemID"

definition exportItem :: "'f item_progress \<Rightarrow> 'f item_progress" where
  "exportItem item = item\<lparr>ipRevision := 0\<rparr>"

text \<open>
  \<open>None\<close> is the empty string. The values read are the ones that are marshalled;
  \<open>json.Marshal\<close> fails on a number that is not finite, and both readers then return their
  empty result: that branch is not modelled, the floats being a parameter.
\<close>

definition GetMultiProgressDelta :: "int \<Rightarrow> 'f progress_state \<Rightarrow> 'f progress_delta option" where
  "GetMultiProgressDelta sinceSeq st =
     (if sinceSeq \<ge> psSeq st then None
      else
        let reset = (sinceSeq \<le> 0 \<or> sinceSeq < psReset st)
        in if reset then
             Some \<lparr>pdSeq = psSeq st, pdReset = True,
                   pdItems = map (\<lambda>(k, i). (k, exportItem i)) (psItems st), pdRemoved = []\<rparr>
           else
             Some \<lparr>pdSeq = psSeq st, pdReset = False,
                   pdItems = map (\<lambda>(k, i). (k, exportItem i)) (filter (\<lambda>(k, i). ipRevision i > sinceSeq) (psItems st)),
                   pdRemoved = map fst (filter (\<lambda>(k, n). n > sinceSeq) (psRemoved st))\<rparr>)"

section \<open>The writer\<close>

record 'f progress_writer =
  pwItemID :: string
  pwCurrent :: int
  pwLastReported :: int
  pwLastTime :: time
  pwLastBytes :: int

text \<open>
  \<open>cancelled\<close> is the answer of the cancel registry, \<open>written\<close> the outcome of the wrapped
  writer (the bytes it took and its error), \<open>speedOf bytes nanos\<close> the megabytes per second.
\<close>

datatype write_error = WriteCancelled | WriteFailed string

definition progressWrite ::
  "'f prog_float \<Rightarrow> (int \<Rightarrow> int \<Rightarrow> 'f) \<Rightarrow> bool \<Rightarrow> int \<times> string option \<Rightarrow> time \<Rightarrow> 'f progress_writer \<Rightarrow> 'f progress_state \<Rightarrow>
   (int \<times> write_error option) \<times> 'f progress_writer \<times> 'f progress_state" where
  "progressWrite fl speedOf cancelled written now pw st =
     (if pwItemID pw \<noteq> '''' \<and> cancelled then ((0, Some WriteCancelled), pw, st)
      else case written of
             (n, Some e) \<Rightarrow> ((n, Some (WriteFailed e)), pw, st)
           | (n, None) \<Rightarrow>
               (let pw1 = pw\<lparr>pwCurrent := pwCurrent pw + n\<rparr>
                in if pwLastReported pw1 = 0 \<or> pwCurrent pw1 - pwLastReported pw1 \<ge> progressUpdateThreshold then
                     (let elapsed = now - pwLastTime pw1;
                          speed = (if elapsed > 0 then speedOf (pwCurrent pw1 - pwLastBytes pw1) elapsed else pfZero fl)
                      in ((n, None),
                          pw1\<lparr>pwLastReported := pwCurrent pw1, pwLastTime := now, pwLastBytes := pwCurrent pw1\<rparr>,
                          SetItemBytesReceivedWithSpeed fl (pwItemID pw1) (pwCurrent pw1) speed st))
                   else ((n, None), pw1, st)))"

section \<open>Invariant of the tables\<close>

definition progressOK :: "'f progress_state \<Rightarrow> bool" where
  "progressOK st \<longleftrightarrow> wf_map (psItems st) \<and> wf_map (psRemoved st) \<and> psReset st \<le> psSeq st \<and> 0 \<le> psSeq st \<and>
     (\<forall>k i. map_of (psItems st) k = Some i \<longrightarrow> 0 < ipRevision i \<and> ipRevision i \<le> psSeq st) \<and>
     (\<forall>k n. map_of (psRemoved st) k = Some n \<longrightarrow> 0 < n \<and> n \<le> psSeq st) \<and>
     length (psRemoved st) \<le> maxRemovedProgressEntries \<and>
     (\<forall>k. map_of (psItems st) k \<noteq> None \<longrightarrow> map_of (psRemoved st) k = None)"

lemma progressOK_D:
  assumes "progressOK st"
  shows "wf_map (psItems st)" and "wf_map (psRemoved st)" and "psReset st \<le> psSeq st" and "0 \<le> psSeq st"
    and "map_of (psItems st) k = Some i \<Longrightarrow> 0 < ipRevision i \<and> ipRevision i \<le> psSeq st"
    and "map_of (psRemoved st) k = Some n \<Longrightarrow> 0 < n \<and> n \<le> psSeq st"
    and "length (psRemoved st) \<le> maxRemovedProgressEntries"
    and "map_of (psItems st) k \<noteq> None \<Longrightarrow> map_of (psRemoved st) k = None"
  using assms unfolding progressOK_def by blast+

lemma progressOK_I:
  assumes "wf_map (psItems st)" and "wf_map (psRemoved st)" and "psReset st \<le> psSeq st" and "0 \<le> psSeq st"
    and "\<And>k i. map_of (psItems st) k = Some i \<Longrightarrow> 0 < ipRevision i \<and> ipRevision i \<le> psSeq st"
    and "\<And>k n. map_of (psRemoved st) k = Some n \<Longrightarrow> 0 < n \<and> n \<le> psSeq st"
    and "length (psRemoved st) \<le> maxRemovedProgressEntries"
    and "\<And>k. map_of (psItems st) k \<noteq> None \<Longrightarrow> map_of (psRemoved st) k = None"
  shows "progressOK st"
  using assms unfolding progressOK_def by blast

lemma progressOK_initial: "progressOK initialProgress"
  by (rule progressOK_I) (simp_all add: initialProgress_def)

lemma map_of_put_cases: "map_of (put k v m) a = Some b \<longleftrightarrow> (if a = k then b = v else map_of m a = Some b)"
  by auto

lemma map_of_del_cases: "map_of (del k m) a = Some b \<longleftrightarrow> a \<noteq> k \<and> map_of m a = Some b"
  by simp

text \<open>Half of the tombstones at least are pruned.\<close>

lemma sorted_above_middle:
  assumes "sorted xs" and "k < length xs"
  shows "length (filter (\<lambda>x. \<not> x \<le> xs ! k) xs) \<le> length xs - Suc k"
proof -
  have split: "xs = take (Suc k) xs @ drop (Suc k) xs" by simp
  have "x \<le> xs ! k" if "x \<in> set (take (Suc k) xs)" for x
  proof -
    from that obtain i where "i \<le> k" "x = xs ! i" "i < length xs"
      by (auto simp: in_set_conv_nth less_Suc_eq_le)
    with assms show ?thesis by (simp add: sorted_nth_mono)
  qed
  then have "filter (\<lambda>x. \<not> x \<le> xs ! k) (take (Suc k) xs) = []" by (auto simp: filter_empty_conv)
  then have "filter (\<lambda>x. \<not> x \<le> xs ! k) xs = filter (\<lambda>x. \<not> x \<le> xs ! k) (drop (Suc k) xs)"
    using filter_append [of "\<lambda>x. \<not> x \<le> xs ! k" "take (Suc k) xs" "drop (Suc k) xs"] split by simp
  then show ?thesis using length_filter_le [of "\<lambda>x. \<not> x \<le> xs ! k" "drop (Suc k) xs"] by simp
qed

lemma length_filter_sort: "length (filter P (sort xs)) = length (filter P xs)" for xs :: "int list"
  by (metis mset_filter mset_sort size_mset)

lemma prune_length:
  assumes "psRemoved st \<noteq> []"
  shows "length (psRemoved (pruneRemoved st)) \<le> length (psRemoved st) - Suc (length (psRemoved st) div 2)"
proof -
  let ?r = "map snd (psRemoved st)"
  let ?c = "sort ?r ! (length ?r div 2)"
  have "length (psRemoved (pruneRemoved st)) = length (filter (\<lambda>p. \<not> snd p \<le> ?c) (psRemoved st))"
    by (simp add: pruneRemoved_def Let_def)
  also have "\<dots> = length (filter (\<lambda>n. \<not> n \<le> ?c) ?r)" by (simp add: filter_map comp_def)
  also have "\<dots> = length (filter (\<lambda>n. \<not> n \<le> ?c) (sort ?r))" by (simp add: length_filter_sort)
  also have "\<dots> \<le> length (sort ?r) - Suc (length ?r div 2)"
    by (rule sorted_above_middle) (use assms in simp_all)
  finally show ?thesis by simp
qed

section \<open>A client of the delta protocol\<close>

text \<open>
  What the bridges and the queue keep: the sequence number of the last answer and the table
  built from the answers: a reset replaces it, else items are overlaid and removals deleted.
\<close>

type_synonym 'f progress_view = "int \<times> (string \<Rightarrow> 'f item_progress option)"

definition applyDelta :: "'f progress_delta \<Rightarrow> (string \<Rightarrow> 'f item_progress option) \<Rightarrow> (string \<Rightarrow> 'f item_progress option)" where
  "applyDelta d view =
     (if pdReset d then map_of (pdItems d)
      else (\<lambda>k. case map_of (pdItems d) k of
                  Some i \<Rightarrow> Some i
                | None \<Rightarrow> if k \<in> set (pdRemoved d) then None else view k))"

definition pollDelta :: "'f progress_state \<Rightarrow> 'f progress_view \<Rightarrow> 'f progress_view" where
  "pollDelta st c =
     (case GetMultiProgressDelta (fst c) st of
        None \<Rightarrow> c
      | Some d \<Rightarrow> (pdSeq d, applyDelta d (snd c)))"

text \<open>The view shows an item when the bridge cannot tell the two apart.\<close>

definition sameBridge :: "'f prog_float \<Rightarrow> 'f item_progress option \<Rightarrow> 'f item_progress option \<Rightarrow> bool" where
  "sameBridge fl x y \<longleftrightarrow> map_option (itemBridgeState fl) x = map_option (itemBridgeState fl) y"

definition agrees :: "'f prog_float \<Rightarrow> (string \<Rightarrow> 'f item_progress option) \<Rightarrow> 'f progress_state \<Rightarrow> bool" where
  "agrees fl view st \<longleftrightarrow> (\<forall>k. sameBridge fl (view k) (map_of (psItems st) k))"

text \<open>
  The relation that every step keeps: a client that the next answer will not reset has, for
  every item it has not yet to be told about, the bridge state of that item, and a pending
  tombstone for every item it holds that is gone.
\<close>

definition synced :: "'f prog_float \<Rightarrow> 'f progress_view \<Rightarrow> 'f progress_state \<Rightarrow> bool" where
  "synced fl c st \<longleftrightarrow> 0 \<le> fst c \<and> fst c \<le> psSeq st \<and> (fst c = 0 \<longrightarrow> snd c = (\<lambda>_. None)) \<and>
     (0 < fst c \<and> psReset st \<le> fst c \<longrightarrow>
        (\<forall>k i. map_of (psItems st) k = Some i \<and> ipRevision i \<le> fst c \<longrightarrow> sameBridge fl (snd c k) (Some i)) \<and>
        (\<forall>k. snd c k \<noteq> None \<and> map_of (psItems st) k = None \<longrightarrow> (\<exists>n. map_of (psRemoved st) k = Some n \<and> fst c < n)))"

lemma syncedI:
  assumes "0 \<le> s" and "s \<le> psSeq st" and "s = 0 \<Longrightarrow> view = (\<lambda>_. None)"
    and "\<And>k i. 0 < s \<Longrightarrow> psReset st \<le> s \<Longrightarrow> map_of (psItems st) k = Some i \<Longrightarrow> ipRevision i \<le> s \<Longrightarrow>
      sameBridge fl (view k) (Some i)"
    and "\<And>k x. 0 < s \<Longrightarrow> psReset st \<le> s \<Longrightarrow> view k = Some x \<Longrightarrow> map_of (psItems st) k = None \<Longrightarrow>
      \<exists>n. map_of (psRemoved st) k = Some n \<and> s < n"
  shows "synced fl (s, view) st"
  unfolding synced_def using assms by auto

lemma synced_D:
  assumes "synced fl (s, view) st"
  shows "0 \<le> s" and "s \<le> psSeq st" and "s = 0 \<Longrightarrow> view = (\<lambda>_. None)"
    and "0 < s \<Longrightarrow> psReset st \<le> s \<Longrightarrow> map_of (psItems st) k = Some i \<Longrightarrow> ipRevision i \<le> s \<Longrightarrow>
      sameBridge fl (view k) (Some i)"
    and "0 < s \<Longrightarrow> psReset st \<le> s \<Longrightarrow> view k = Some x \<Longrightarrow> map_of (psItems st) k = None \<Longrightarrow>
      \<exists>n. map_of (psRemoved st) k = Some n \<and> s < n"
  using assms unfolding synced_def by auto

lemma synced_new: "synced fl (0, \<lambda>_. None) initialProgress"
  by (simp add: synced_def initialProgress_def)

section \<open>Every step keeps both\<close>

lemma updateItem_OK: "progressOK st \<Longrightarrow> (\<And>i. ipRevision (f i) = ipRevision i) \<Longrightarrow> progressOK (updateItem fl f k st)"
proof (cases "map_of (psItems st) k")
  case (Some item)
  assume ok: "progressOK st" and f: "\<And>i. ipRevision (f i) = ipRevision i"
  note D = progressOK_D [OF ok]
  show ?thesis
  proof (cases "itemBridgeState fl (f item) \<noteq> itemBridgeState fl item")
    case True
    then have u: "updateItem fl f k st =
        st\<lparr>psItems := put k ((f item)\<lparr>ipRevision := psSeq st + 1\<rparr>) (psItems st), psSeq := psSeq st + 1, psDirty := True\<rparr>"
      by (simp add: updateItem_def Some)
    show ?thesis unfolding u
    proof (rule progressOK_I)
      fix a i assume "map_of (psItems (st\<lparr>psItems := put k ((f item)\<lparr>ipRevision := psSeq st + 1\<rparr>) (psItems st),
        psSeq := psSeq st + 1, psDirty := True\<rparr>)) a = Some i"
      then show "0 < ipRevision i \<and> ipRevision i \<le> psSeq (st\<lparr>psItems := put k ((f item)\<lparr>ipRevision := psSeq st + 1\<rparr>)
        (psItems st), psSeq := psSeq st + 1, psDirty := True\<rparr>)"
        using D(5) [of a i] D(4) by (cases "a = k") auto
    next
      fix a assume "map_of (psItems (st\<lparr>psItems := put k ((f item)\<lparr>ipRevision := psSeq st + 1\<rparr>) (psItems st), psSeq := psSeq st + 1, psDirty := True\<rparr>)) a \<noteq> None"
      then show "map_of (psRemoved (st\<lparr>psItems := put k ((f item)\<lparr>ipRevision := psSeq st + 1\<rparr>) (psItems st), psSeq := psSeq st + 1, psDirty := True\<rparr>)) a = None"
        using D(8) [of a] D(8) [of k] Some by (auto split: if_splits)
    qed (use D(1-4,7) D(6) in \<open>force+\<close>)
  next
    case False
    then have u: "updateItem fl f k st = st\<lparr>psItems := put k (f item) (psItems st)\<rparr>"
      by (simp add: updateItem_def Some)
    show ?thesis unfolding u
    proof (rule progressOK_I)
      fix a i assume "map_of (psItems (st\<lparr>psItems := put k (f item) (psItems st)\<rparr>)) a = Some i"
      then show "0 < ipRevision i \<and> ipRevision i \<le> psSeq (st\<lparr>psItems := put k (f item) (psItems st)\<rparr>)"
        using D(5) [of a i] D(5) [OF Some] f by (cases "a = k") auto
    next
      fix a assume "map_of (psItems (st\<lparr>psItems := put k (f item) (psItems st)\<rparr>)) a \<noteq> None"
      then show "map_of (psRemoved (st\<lparr>psItems := put k (f item) (psItems st)\<rparr>)) a = None"
        using D(8) [of a] D(8) [of k] Some by (auto split: if_splits)
    qed (use D(1-4,7) D(6) in \<open>force+\<close>)
  qed
qed (simp add: updateItem_def)

lemma updateItem_synced:
  assumes ok: "progressOK st" and s: "synced fl (s, view) st" and f: "\<And>i. ipRevision (f i) = ipRevision i"
  shows "synced fl (s, view) (updateItem fl f k st)"
proof (cases "map_of (psItems st) k")
  case None
  with s show ?thesis by (simp add: updateItem_def)
next
  case (Some item)
  note D = synced_D [OF s]
  let ?st = "updateItem fl f k st"
  have frame: "psReset ?st = psReset st" "psRemoved ?st = psRemoved st" "psSeq st \<le> psSeq ?st"
    by (simp_all add: updateItem_def Some Let_def)
  have other: "a \<noteq> k \<Longrightarrow> map_of (psItems ?st) a = map_of (psItems st) a" for a
    by (simp add: updateItem_def Some Let_def)
  have upd: "\<exists>i'. map_of (psItems ?st) k = Some i' \<and> (ipRevision i' \<le> s \<longrightarrow>
      ipRevision item \<le> s \<and> itemBridgeState fl i' = itemBridgeState fl item)"
    using D(2) by (simp add: updateItem_def Some Let_def f)
  show ?thesis
  proof (rule syncedI)
    show "0 \<le> s" "s \<le> psSeq ?st" using D(1,2) frame(3) by simp_all
    show "view = (\<lambda>_. None)" if "s = 0" using D(3) that by simp
    show "sameBridge fl (view a) (Some i)"
      if "0 < s" "psReset ?st \<le> s" "map_of (psItems ?st) a = Some i" "ipRevision i \<le> s" for a i
    proof (cases "a = k")
      case True
      with upd that(3,4) have "ipRevision item \<le> s" "itemBridgeState fl i = itemBridgeState fl item" by auto
      with D(4) [OF that(1) _ Some] that(2) frame(1) True show ?thesis by (simp add: sameBridge_def)
    next
      case False
      with other that(3) D(4) [OF that(1) _ _ that(4)] that(2) frame(1) show ?thesis by simp
    qed
    show "\<exists>n. map_of (psRemoved ?st) a = Some n \<and> s < n"
      if "0 < s" "psReset ?st \<le> s" "view a = Some x" "map_of (psItems ?st) a = None" for a x
    proof -
      from upd that(4) have "a \<noteq> k" by auto
      with other that(4) D(5) [OF that(1) _ that(3)] that(2) frame(1,2) show ?thesis by simp
    qed
  qed
qed

lemma StartItemProgress_OK:
  assumes "progressOK st"
  shows "progressOK (StartItemProgress fl k st)"
proof (rule progressOK_I)
  note D = progressOK_D [OF assms]
  show "wf_map (psItems (StartItemProgress fl k st))" "wf_map (psRemoved (StartItemProgress fl k st))"
    "psReset (StartItemProgress fl k st) \<le> psSeq (StartItemProgress fl k st)" "0 \<le> psSeq (StartItemProgress fl k st)"
    using D(1-4) by (simp_all add: StartItemProgress_def)
  show "0 < ipRevision i \<and> ipRevision i \<le> psSeq (StartItemProgress fl k st)"
    if "map_of (psItems (StartItemProgress fl k st)) a = Some i" for a i
    using that D(4) D(5) [of a i] by (cases "a = k") (auto simp: StartItemProgress_def)
  show "0 < n \<and> n \<le> psSeq (StartItemProgress fl k st)"
    if "map_of (psRemoved (StartItemProgress fl k st)) a = Some n" for a n
    using that D(6) [of a n] by (auto simp: StartItemProgress_def split: if_splits)
  show "length (psRemoved (StartItemProgress fl k st)) \<le> maxRemovedProgressEntries"
    using D(7) length_del_le [of k "psRemoved st"] by (simp add: StartItemProgress_def)
  show "map_of (psRemoved (StartItemProgress fl k st)) a = None"
    if "map_of (psItems (StartItemProgress fl k st)) a \<noteq> None" for a
    using that D(8) [of a] by (auto simp: StartItemProgress_def split: if_splits)
qed

lemma StartItemProgress_synced:
  assumes "progressOK st" and s: "synced fl (s, view) st"
  shows "synced fl (s, view) (StartItemProgress fl k st)"
proof (rule syncedI)
  note D = synced_D [OF s]
  show "0 \<le> s" "s \<le> psSeq (StartItemProgress fl k st)" using D(1,2) by (simp_all add: StartItemProgress_def)
  show "view = (\<lambda>_. None)" if "s = 0" using D(3) that by simp
  show "sameBridge fl (view a) (Some i)"
    if "0 < s" "psReset (StartItemProgress fl k st) \<le> s" "map_of (psItems (StartItemProgress fl k st)) a = Some i"
      "ipRevision i \<le> s" for a i
  proof (cases "a = k")
    case True
    with that(3,4) D(2) show ?thesis by (auto simp: StartItemProgress_def)
  next
    case False
    with that D(4) [OF that(1)] show ?thesis by (simp add: StartItemProgress_def)
  qed
  show "\<exists>n. map_of (psRemoved (StartItemProgress fl k st)) a = Some n \<and> s < n"
    if "0 < s" "psReset (StartItemProgress fl k st) \<le> s" "view a = Some x"
      "map_of (psItems (StartItemProgress fl k st)) a = None" for a x
    using that D(5) [OF that(1) _ that(3)] by (auto simp: StartItemProgress_def split: if_splits)
qed

lemma ClearAllItemProgress_OK: "progressOK st \<Longrightarrow> progressOK (ClearAllItemProgress st)"
  using progressOK_D(3,4) [of st] by (intro progressOK_I) (simp_all add: ClearAllItemProgress_def)

lemma ClearAllItemProgress_synced: "synced fl (s, view) st \<Longrightarrow> synced fl (s, view) (ClearAllItemProgress st)"
  using synced_D(1-3) [of fl s view st] by (intro syncedI) (simp_all add: ClearAllItemProgress_def)

text \<open>A removal, before the tombstones are pruned.\<close>

definition removeEntry :: "string \<Rightarrow> 'f progress_state \<Rightarrow> 'f progress_state" where
  "removeEntry k st = st\<lparr>psItems := del k (psItems st), psRemoved := put k (psSeq st + 1) (psRemoved st),
     psSeq := psSeq st + 1\<rparr>"

definition pruned :: "'f progress_state \<Rightarrow> 'f progress_state" where
  "pruned st = (if length (psRemoved st) > maxRemovedProgressEntries then pruneRemoved st else st)"

lemma RemoveItemProgress_alt:
  "RemoveItemProgress k st = (if map_of (psItems st) k = None then st\<lparr>psDirty := True\<rparr>
     else (pruned (removeEntry k st))\<lparr>psDirty := True\<rparr>)"
  by (simp add: RemoveItemProgress_def removeEntry_def pruned_def Let_def split: option.split)

lemma dirty_OK [simp]: "progressOK (st\<lparr>psDirty := b\<rparr>) = progressOK st"
  by (simp add: progressOK_def)

lemma dirty_synced [simp]: "synced fl c (st\<lparr>psDirty := b\<rparr>) = synced fl c st"
  by (simp add: synced_def)

lemma RemoveItemProgress_OK:
  assumes "progressOK st"
  shows "progressOK (RemoveItemProgress k st)"
proof -
  note D = progressOK_D [OF assms]
  let ?st = "removeEntry k st"
  have seq: "psSeq (pruned ?st) = psSeq st + 1" by (simp add: pruned_def removeEntry_def pruneRemoved_def Let_def)
  have items: "psItems (pruned ?st) = del k (psItems st)" by (simp add: pruned_def removeEntry_def pruneRemoved_def Let_def)
  have wfr: "wf_map (put k (psSeq st + 1) (psRemoved st))" using D(2) by simp
  have removed: "map_of (psRemoved (pruned ?st)) a = Some n \<Longrightarrow> map_of (put k (psSeq st + 1) (psRemoved st)) a = Some n" for a n
    using map_of_filter [OF wfr] by (auto simp: pruned_def removeEntry_def pruneRemoved_def Let_def split: option.splits if_splits)
  have bound: "0 < n \<and> n \<le> psSeq st + 1" if "map_of (put k (psSeq st + 1) (psRemoved st)) a = Some n" for a n
    using that D(4) D(6) [of a n] by (cases "a = k") auto
  have "progressOK (pruned ?st)"
  proof (rule progressOK_I)
    show "wf_map (psItems (pruned ?st))" using D(1) items by simp
    show "wf_map (psRemoved (pruned ?st))"
      using wfr by (simp add: pruned_def removeEntry_def pruneRemoved_def Let_def)
    show "0 \<le> psSeq (pruned ?st)" using D(4) seq by simp
    show "psReset (pruned ?st) \<le> psSeq (pruned ?st)"
    proof (cases "length (psRemoved ?st) > maxRemovedProgressEntries")
      case True
      let ?r = "sort (map snd (psRemoved ?st))"
      have "length ?r div 2 < length ?r" using True by (cases "psRemoved ?st") simp_all
      then have "?r ! (length ?r div 2) \<in> set (map snd (psRemoved ?st))" by (metis nth_mem set_sort)
      then obtain a where "(a, ?r ! (length ?r div 2)) \<in> set (put k (psSeq st + 1) (psRemoved st))"
        by (auto simp: removeEntry_def)
      then have "?r ! (length ?r div 2) \<le> psSeq st + 1" using bound in_set_map_of [OF wfr] by blast
      then show ?thesis using True D(3) by (simp add: pruned_def pruneRemoved_def Let_def removeEntry_def)
    next
      case False
      then show ?thesis using D(3) by (simp add: pruned_def removeEntry_def)
    qed
    show "0 < ipRevision i \<and> ipRevision i \<le> psSeq (pruned ?st)" if "map_of (psItems (pruned ?st)) a = Some i" for a i
      using that D(5) [of a i] by (auto simp: items seq split: if_splits)
    show "0 < n \<and> n \<le> psSeq (pruned ?st)" if "map_of (psRemoved (pruned ?st)) a = Some n" for a n
      using bound [OF removed [OF that]] seq by simp
    show "map_of (psRemoved (pruned ?st)) a = None" if "map_of (psItems (pruned ?st)) a \<noteq> None" for a
    proof (cases "map_of (psRemoved (pruned ?st)) a")
      case (Some n)
      from that have "a \<noteq> k" "map_of (psItems st) a \<noteq> None" by (auto simp: items split: if_splits)
      with removed [OF Some] D(8) [of a] show ?thesis by simp
    qed
    show "length (psRemoved (pruned ?st)) \<le> maxRemovedProgressEntries"
    proof (cases "length (psRemoved ?st) > maxRemovedProgressEntries")
      case True
      then have "length (psRemoved (pruneRemoved ?st)) \<le> length (psRemoved ?st) - Suc (length (psRemoved ?st) div 2)"
        by (intro prune_length) auto
      moreover have "length (psRemoved ?st) \<le> Suc maxRemovedProgressEntries"
        using D(7) length_put_le [of k "psSeq st + 1" "psRemoved st"] by (simp add: removeEntry_def)
      ultimately show ?thesis using True by (simp add: pruned_def)
    next
      case False
      then show ?thesis by (simp add: pruned_def)
    qed
  qed
  then show ?thesis using assms by (simp add: RemoveItemProgress_alt)
qed

lemma RemoveItemProgress_synced:
  assumes ok: "progressOK st" and s: "synced fl (s, view) st"
  shows "synced fl (s, view) (RemoveItemProgress k st)"
proof -
  note D = synced_D [OF s]
  let ?st = "removeEntry k st"
  have items: "psItems (pruned ?st) = del k (psItems st)" and seq: "psSeq (pruned ?st) = psSeq st + 1"
    and mono: "psReset st \<le> psReset (pruned ?st)"
    by (simp_all add: pruned_def removeEntry_def pruneRemoved_def Let_def)
  have wfr: "wf_map (put k (psSeq st + 1) (psRemoved st))" using progressOK_D(2) [OF ok] by simp
  have kept: "map_of (psRemoved (pruned ?st)) a = Some n"
    if "map_of (put k (psSeq st + 1) (psRemoved st)) a = Some n" "psReset (pruned ?st) \<le> s" "s < n" for a n
  proof (cases "length (psRemoved ?st) > maxRemovedProgressEntries")
    case True
    let ?c = "sort (map snd (psRemoved ?st)) ! (length (sort (map snd (psRemoved ?st))) div 2)"
    have "?c \<le> psReset (pruned ?st)" using True by (simp add: pruned_def pruneRemoved_def Let_def)
    with that have "\<not> n \<le> ?c" by linarith
    then have "map_of (filter (\<lambda>p. \<not> snd p \<le> ?c) (put k (psSeq st + 1) (psRemoved st))) a = Some n"
      using map_of_filter [OF wfr, of "\<lambda>p. \<not> snd p \<le> ?c" a] that(1) by (simp only: option.case snd_conv not_False_eq_True if_True)
    then show ?thesis using True by (simp add: pruned_def pruneRemoved_def Let_def removeEntry_def)
  next
    case False
    then show ?thesis using that(1) by (simp add: pruned_def removeEntry_def)
  qed
  have "synced fl (s, view) (pruned ?st)"
  proof (rule syncedI)
    show "0 \<le> s" "s \<le> psSeq (pruned ?st)" using D(1,2) seq by simp_all
    show "view = (\<lambda>_. None)" if "s = 0" using D(3) that by simp
    show "sameBridge fl (view a) (Some i)"
      if "0 < s" "psReset (pruned ?st) \<le> s" "map_of (psItems (pruned ?st)) a = Some i" "ipRevision i \<le> s" for a i
      using that D(4) [OF that(1) _ _ that(4), of a] mono by (auto simp: items split: if_splits)
    show "\<exists>n. map_of (psRemoved (pruned ?st)) a = Some n \<and> s < n"
      if "0 < s" "psReset (pruned ?st) \<le> s" "view a = Some x" "map_of (psItems (pruned ?st)) a = None" for a x
    proof (cases "a = k")
      case True
      with kept [of a "psSeq st + 1"] that(2) D(2) show ?thesis by auto
    next
      case False
      with that D(5) [OF that(1) _ that(3)] mono obtain n where "map_of (psRemoved st) a = Some n" "s < n"
        by (auto simp: items)
      with False kept [of a n] that(2) show ?thesis by auto
    qed
  qed
  then show ?thesis using s by (simp add: RemoveItemProgress_alt)
qed

section \<open>The answer brings the client up to date\<close>

lemma map_of_export: "map_of (map (\<lambda>(k, i). (k, exportItem i)) m) k = map_option exportItem (map_of m k)"
  by (induction m) auto

lemma bridge_export [simp]: "itemBridgeState fl (exportItem i) = itemBridgeState fl i"
  by (simp add: itemBridgeState_def exportItem_def)

lemma sameBridge_export: "sameBridge fl (map_option exportItem x) x"
  by (cases x) (simp_all add: sameBridge_def)

lemma sameBridge_refl [simp]: "sameBridge fl x x"
  by (simp add: sameBridge_def)

lemma poll_agrees:
  assumes ok: "progressOK st" and s: "synced fl (s, view) st"
  shows "agrees fl (snd (pollDelta st (s, view))) st \<and> fst (pollDelta st (s, view)) = psSeq st"
proof (cases "s \<ge> psSeq st")
  case True
  note D = synced_D [OF s] and P = progressOK_D [OF ok]
  from True D(2) have eq: "s = psSeq st" by simp
  have p: "pollDelta st (s, view) = (s, view)" using True by (simp add: pollDelta_def GetMultiProgressDelta_def)
  have "sameBridge fl (view k) (map_of (psItems st) k)" for k
  proof (cases "map_of (psItems st) k")
    case None
    show ?thesis
    proof (cases "view k")
      case (Some x)
      then have "0 < s" using D(1,3) by (cases "s = 0") auto
      from D(5) [OF this _ Some None] P(3) eq obtain n where "map_of (psRemoved st) k = Some n" "s < n" by auto
      with P(6) [of k n] eq show ?thesis by simp
    qed (simp add: None)
  next
    case (Some i)
    from P(5) [OF Some] eq have i: "0 < s" "ipRevision i \<le> s" by auto
    from D(4) [OF i(1) _ Some i(2)] P(3) eq show ?thesis by (simp add: Some)
  qed
  with p eq show ?thesis by (simp add: agrees_def)
next
  case False
  note D = synced_D [OF s] and P = progressOK_D [OF ok]
  show ?thesis
  proof (cases "s \<le> 0 \<or> s < psReset st")
    case True
    then have "pollDelta st (s, view) = (psSeq st, map_of (map (\<lambda>(k, i). (k, exportItem i)) (psItems st)))"
      using False by (simp add: pollDelta_def GetMultiProgressDelta_def applyDelta_def Let_def)
    then show ?thesis by (simp add: agrees_def map_of_export sameBridge_export)
  next
    case keep: False
    let ?items = "map (\<lambda>(k, i). (k, exportItem i)) (filter (\<lambda>(k, i). ipRevision i > s) (psItems st))"
    let ?removed = "map fst (filter (\<lambda>(k, n). n > s) (psRemoved st))"
    have p: "pollDelta st (s, view) = (psSeq st, \<lambda>k. case map_of ?items k of Some i \<Rightarrow> Some i
        | None \<Rightarrow> if k \<in> set ?removed then None else view k)"
      using False keep by (simp add: pollDelta_def GetMultiProgressDelta_def applyDelta_def Let_def
          cong: if_cong option.case_cong)
    have it: "map_of ?items k = (case map_of (psItems st) k of None \<Rightarrow> None
        | Some i \<Rightarrow> if ipRevision i > s then Some (exportItem i) else None)" for k
      using map_of_filter [OF P(1), of "\<lambda>(k, i). ipRevision i > s" k] by (simp add: map_of_export split: option.split)
    have rm: "k \<in> set ?removed \<longleftrightarrow> (\<exists>n. map_of (psRemoved st) k = Some n \<and> s < n)" for k
      using in_set_map_of [OF P(2), of k] by force
    have "sameBridge fl (case map_of ?items k of Some i \<Rightarrow> Some i | None \<Rightarrow> if k \<in> set ?removed then None else view k)
        (map_of (psItems st) k)" for k
    proof (cases "map_of (psItems st) k")
      case None
      have "view k = None" if "k \<notin> set ?removed"
        using that D(5) [of k _, OF _ _ _ None] keep unfolding rm by (cases "view k") auto
      then show ?thesis by (simp add: it None)
    next
      case (Some i)
      show ?thesis
      proof (cases "ipRevision i > s")
        case True
        then show ?thesis by (simp add: it Some) (simp add: sameBridge_def)
      next
        case old: False
        have "map_of (psRemoved st) k = None" using P(8) [of k] Some by simp
        then have "k \<notin> set ?removed" unfolding rm by simp
        with old D(4) [OF _ _ Some] keep show ?thesis by (simp add: it Some)
      qed
    qed
    then show ?thesis by (simp add: p agrees_def)
  qed
qed

section \<open>Histories\<close>

datatype 'f progress_step =
    StepStart string
  | StepPreparing string string
  | StepDownloading string
  | StepBytesTotal string int
  | StepReceived string int
  | StepReceivedSpeed string int 'f
  | StepComplete string
  | StepProgress string 'f int int
  | StepFinalizing string
  | StepRemove string
  | StepClear
  | StepPoll

fun serverStep :: "'f prog_float \<Rightarrow> 'f progress_step \<Rightarrow> 'f progress_state \<Rightarrow> 'f progress_state" where
  "serverStep fl (StepStart k) st = StartItemProgress fl k st"
| "serverStep fl (StepPreparing k stage) st = SetItemPreparingStage fl k stage st"
| "serverStep fl (StepDownloading k) st = SetItemDownloading fl k st"
| "serverStep fl (StepBytesTotal k n) st = SetItemBytesTotal fl k n st"
| "serverStep fl (StepReceived k n) st = SetItemBytesReceived fl k n st"
| "serverStep fl (StepReceivedSpeed k n v) st = SetItemBytesReceivedWithSpeed fl k n v st"
| "serverStep fl (StepComplete k) st = CompleteItemProgress fl k st"
| "serverStep fl (StepProgress k p a b) st = SetItemProgress fl k p a b st"
| "serverStep fl (StepFinalizing k) st = SetItemFinalizing fl k st"
| "serverStep fl (StepRemove k) st = RemoveItemProgress k st"
| "serverStep fl StepClear st = ClearAllItemProgress st"
| "serverStep fl StepPoll st = st"

definition clientStep :: "'f progress_step \<Rightarrow> 'f progress_state \<Rightarrow> 'f progress_view \<Rightarrow> 'f progress_view" where
  "clientStep step st c = (case step of StepPoll \<Rightarrow> pollDelta st c | _ \<Rightarrow> c)"

fun runProgress ::
  "'f prog_float \<Rightarrow> 'f progress_step list \<Rightarrow> 'f progress_state \<times> 'f progress_view \<Rightarrow> 'f progress_state \<times> 'f progress_view" where
  "runProgress fl [] (st, c) = (st, c)"
| "runProgress fl (step # steps) (st, c) = runProgress fl steps (serverStep fl step st, clientStep step st c)"

lemma keepsRevision:
  "ipRevision (preparingFields fl stage i) = ipRevision i"
  "ipRevision (downloadingFields i) = ipRevision i"
  "ipRevision (receivedFields fl n i) = ipRevision i"
  "ipRevision (progressFields fl p a b i) = ipRevision i"
  by (simp_all add: preparingFields_def downloadingFields_def receivedFields_def progressFields_def Let_def)

lemmas progress_updates = SetItemPreparingStage_def SetItemDownloading_def SetItemBytesTotal_def
  SetItemBytesReceived_def SetItemBytesReceivedWithSpeed_def CompleteItemProgress_def SetItemProgress_def
  SetItemFinalizing_def

lemma serverStep_OK: "progressOK st \<Longrightarrow> progressOK (serverStep fl step st)"
  by (cases step) (simp_all add: progress_updates updateItem_OK keepsRevision StartItemProgress_OK
      RemoveItemProgress_OK ClearAllItemProgress_OK)

lemma serverStep_synced: "progressOK st \<Longrightarrow> synced fl (s, view) st \<Longrightarrow> synced fl (s, view) (serverStep fl step st)"
  by (cases step) (simp_all add: progress_updates updateItem_synced keepsRevision StartItemProgress_synced
      RemoveItemProgress_synced ClearAllItemProgress_synced)

lemma poll_synced:
  assumes ok: "progressOK st" and s: "synced fl (s, view) st"
  shows "synced fl (pollDelta st (s, view)) st"
proof -
  obtain n v where c: "pollDelta st (s, view) = (n, v)" by (cases "pollDelta st (s, view)")
  from poll_agrees [OF ok s] have n: "n = psSeq st" and v: "sameBridge fl (v k) (map_of (psItems st) k)" for k
    by (simp_all add: c agrees_def)
  note P = progressOK_D [OF ok]
  show ?thesis unfolding c
  proof (rule syncedI)
    show "0 \<le> n" "n \<le> psSeq st" using n P(4) by simp_all
    show "v = (\<lambda>_. None)" if "n = 0"
    proof
      fix k
      have "map_of (psItems st) k = None" using P(5) [of k] that n by (cases "map_of (psItems st) k") auto
      with v [of k] show "v k = None" by (simp add: sameBridge_def)
    qed
    show "sameBridge fl (v k) (Some i)" if "map_of (psItems st) k = Some i" for k i
      using v [of k] that by simp
    show "\<exists>m. map_of (psRemoved st) k = Some m \<and> n < m" if "v k = Some x" "map_of (psItems st) k = None" for k x
      using v [of k] that by (simp add: sameBridge_def)
  qed
qed

lemma runProgress_keeps:
  "progressOK st \<Longrightarrow> synced fl c st \<Longrightarrow>
   progressOK (fst (runProgress fl steps (st, c))) \<and>
   synced fl (snd (runProgress fl steps (st, c))) (fst (runProgress fl steps (st, c)))"
proof (induction steps arbitrary: st c)
  case (Cons step steps)
  obtain s view where c: "c = (s, view)" by (cases c)
  have "synced fl (clientStep step st c) (serverStep fl step st)"
  proof (cases "step = StepPoll")
    case True
    then show ?thesis using poll_synced [OF Cons.prems(1)] Cons.prems(2) by (simp add: clientStep_def c)
  next
    case False
    then have "clientStep step st c = c" by (cases step) (simp_all add: clientStep_def)
    then show ?thesis using serverStep_synced [OF Cons.prems(1)] Cons.prems(2) by (simp add: c)
  qed
  with Cons.IH [OF serverStep_OK [OF Cons.prems(1)]] show ?case by simp
qed simp

section \<open>Properties\<close>

text \<open>
  C8: The delta protocol loses nothing: a client that starts empty and polls now and then,
  through any history of starts, updates, removals and clears, and whatever tombstones are
  pruned meanwhile, holds after its next poll exactly the items of the core, each with the
  state that the bridge shows.
\<close>

theorem progress_delta_replicates:
  assumes "runProgress fl steps (initialProgress, (0, \<lambda>_. None)) = (st, c)"
  shows "agrees fl (snd (pollDelta st c)) st"
proof -
  from runProgress_keeps [OF progressOK_initial synced_new, of fl steps] assms
  have "progressOK st" "synced fl c st" by simp_all
  then show ?thesis using poll_agrees [of st fl "fst c" "snd c"] by simp
qed

definition exFloat :: "int prog_float" where
  "exFloat = \<lparr>pfNonPositive = (\<lambda>x. x \<le> 0), pfAtLeastOne = (\<lambda>x. x \<ge> 100), pfRound = (\<lambda>x k. x * k div 100),
     pfRatio = (\<lambda>a b. a * 100 div b), pfZero = 0, pfOne = 100\<rparr>"

definition exSteps :: "int progress_step list" where
  "exSteps = [StepStart ''a'', StepStart ''b'', StepPoll, StepBytesTotal ''a'' 1000000, StepReceived ''a'' 500000,
     StepPoll, StepRemove ''a'', StepStart ''c'', StepComplete ''b'', StepRemove ''c'', StepStart ''a'']"

theorem progress_delta_replicates_witness:
  "let (st, c) = runProgress exFloat exSteps (initialProgress, (0, \<lambda>_. None))
   in fst c = 4 \<and> snd (pollDelta st c) ''c'' = None \<and>
      map_option ipStatus (snd (pollDelta st c) ''b'') = Some ''completed'' \<and> agrees exFloat (snd (pollDelta st c)) st"
proof -
  obtain st c where r: "runProgress exFloat exSteps (initialProgress, (0, \<lambda>_. None)) = (st, c)"
    by (cases "runProgress exFloat exSteps (initialProgress, (0, \<lambda>_. None))")
  have "(case runProgress exFloat exSteps (initialProgress, (0, \<lambda>_. None)) of (st, c) \<Rightarrow>
      fst c = 4 \<and> snd (pollDelta st c) ''c'' = None \<and> map_option ipStatus (snd (pollDelta st c) ''b'') = Some ''completed'')"
    by code_simp
  with progress_delta_replicates [OF r] show ?thesis by (simp add: r)
qed

text \<open>
  However many downloads a session starts and removes, the tombstones stay within 512,
  no item has one while it is in the table, and sequence numbers never run behind a revision.
\<close>

theorem progress_tables_bounded:
  "let st = fst (runProgress fl steps (initialProgress, (0, \<lambda>_. None)))
   in length (psRemoved st) \<le> 512 \<and> psReset st \<le> psSeq st \<and>
      fst ` set (psItems st) \<inter> fst ` set (psRemoved st) = {} \<and>
      (\<forall>k. case map_of (psItems st) k of None \<Rightarrow> True | Some i \<Rightarrow> ipRevision i \<le> psSeq st)"
proof -
  define st where "st = fst (runProgress fl steps (initialProgress, (0, \<lambda>_. None)))"
  from runProgress_keeps [OF progressOK_initial synced_new, of fl steps] have ok: "progressOK st" by (simp add: st_def)
  note P = progressOK_D [OF ok]
  have "k \<notin> fst ` set (psRemoved st)" if "k \<in> fst ` set (psItems st)" for k
    using P(8) [of k] that by (simp only: map_of_eq_None_iff) blast
  then have "fst ` set (psItems st) \<inter> fst ` set (psRemoved st) = {}" by blast
  moreover have "case map_of (psItems st) k of None \<Rightarrow> True | Some i \<Rightarrow> ipRevision i \<le> psSeq st" for k
    using P(5) [of k] by (simp split: option.split)
  ultimately show ?thesis using P(3,7) unfolding st_def [symmetric] by (simp add: maxRemovedProgressEntries_def)
qed

end
