(* ===== verification/RateLimit.thy ===== *)
theory RateLimit
  imports Prelude
begin

text \<open>
  The sliding-window rate limiter of the mobile core (\<open>go_backend/ratelimit.go\<close>). The
  lock is released only while a waiter sleeps, so what runs under it is one step:
  \<open>TryAcquire\<close>, \<open>Available\<close>, and one turn of the loop of \<open>WaitForSlot\<close>, which either
  admits the caller, tells how long to sleep, or panics on the empty list (a limiter made
  for no request at all). Any number of waiters is any sequence of such steps.
\<close>

section \<open>Model\<close>

record rate_limiter =
  rlMaxRequests :: int
  rlWindow :: time
  rlTimestamps :: "time list"

definition NewRateLimiter :: "int \<Rightarrow> time \<Rightarrow> rate_limiter" where
  "NewRateLimiter maxRequests window = \<lparr>rlMaxRequests = maxRequests, rlWindow = window, rlTimestamps = []\<rparr>"

definition cleanOldTimestamps :: "time \<Rightarrow> rate_limiter \<Rightarrow> rate_limiter" where
  "cleanOldTimestamps now r =
     (let cutoff = now - rlWindow r
      in r\<lparr>rlTimestamps := dropWhile (\<lambda>ts. \<not> ts > cutoff) (rlTimestamps r)\<rparr>)"

datatype wait_result = Admitted | SleepUntil time | WaitPanic

definition WaitForSlot :: "time \<Rightarrow> rate_limiter \<Rightarrow> wait_result \<times> rate_limiter" where
  "WaitForSlot now r =
     (let r1 = cleanOldTimestamps now r
      in if int (length (rlTimestamps r1)) < rlMaxRequests r1
         then (Admitted, r1\<lparr>rlTimestamps := rlTimestamps r1 @ [now]\<rparr>)
         else case rlTimestamps r1 of
                [] \<Rightarrow> (WaitPanic, r1)
              | oldest # _ \<Rightarrow> (SleepUntil (oldest + rlWindow r1), r1))"

definition TryAcquire :: "time \<Rightarrow> rate_limiter \<Rightarrow> bool \<times> rate_limiter" where
  "TryAcquire now r =
     (let r1 = cleanOldTimestamps now r
      in if int (length (rlTimestamps r1)) < rlMaxRequests r1
         then (True, r1\<lparr>rlTimestamps := rlTimestamps r1 @ [now]\<rparr>)
         else (False, r1))"

definition Available :: "time \<Rightarrow> rate_limiter \<Rightarrow> int \<times> rate_limiter" where
  "Available now r =
     (let r1 = cleanOldTimestamps now r
      in (rlMaxRequests r1 - int (length (rlTimestamps r1)), r1))"

definition songLinkRateLimiter :: rate_limiter where
  "songLinkRateLimiter = NewRateLimiter 9 (60 * nanos_per_second)"

section \<open>Traces\<close>

datatype limiter_call = CallWait | CallTry | CallAvailable

text \<open>One call at an instant, with the admission it makes appended to the log.\<close>

definition callLimiter :: "limiter_call \<Rightarrow> time \<Rightarrow> rate_limiter \<times> time list \<Rightarrow> rate_limiter \<times> time list" where
  "callLimiter c now s =
     (case c of
        CallWait \<Rightarrow> (case WaitForSlot now (fst s) of
            (Admitted, r) \<Rightarrow> (r, snd s @ [now]) | (_, r) \<Rightarrow> (r, snd s))
      | CallTry \<Rightarrow> (case TryAcquire now (fst s) of (True, r) \<Rightarrow> (r, snd s @ [now]) | (False, r) \<Rightarrow> (r, snd s))
      | CallAvailable \<Rightarrow> (snd (Available now (fst s)), snd s))"

definition runLimiter :: "(limiter_call \<times> time) list \<Rightarrow> rate_limiter \<Rightarrow> rate_limiter \<times> time list" where
  "runLimiter calls r = fold (\<lambda>(c, now). callLimiter c now) calls (r, [])"

text \<open>The admissions in the window that ends at \<open>t\<close>.\<close>

definition inWindow :: "time \<Rightarrow> time \<Rightarrow> time list \<Rightarrow> time list" where
  "inWindow window t log = filter (\<lambda>a. t - window < a \<and> a \<le> t) log"

section \<open>The invariant\<close>

text \<open>
  After a call at \<open>now\<close>: the kept timestamps are the admissions newer than some instant no
  later than the start of the window.
\<close>

definition limiterInv :: "int \<Rightarrow> time \<Rightarrow> time \<Rightarrow> rate_limiter \<times> time list \<Rightarrow> bool" where
  "limiterInv m window now s \<longleftrightarrow>
     rlMaxRequests (fst s) = m \<and> rlWindow (fst s) = window \<and> sorted (snd s) \<and> (\<forall>a \<in> set (snd s). a \<le> now) \<and>
     (\<exists>c \<le> now - window. rlTimestamps (fst s) = filter (\<lambda>a. c < a) (snd s)) \<and>
     (\<forall>t. int (length (inWindow window t (snd s))) \<le> max 0 m)"

lemma limiterInv_intro:
  assumes "rlMaxRequests r = m" and "rlWindow r = window" and "sorted log" and "\<forall>a \<in> set log. a \<le> now"
    and "c \<le> now - window" and "rlTimestamps r = filter (\<lambda>a. c < a) log"
    and "\<And>t. int (length (inWindow window t log)) \<le> max 0 m"
  shows "limiterInv m window now (r, log)"
  unfolding limiterInv_def fst_conv snd_conv using assms by blast

lemma sorted_dropWhile_filter: "sorted xs \<Longrightarrow> dropWhile (\<lambda>a. \<not> c < a) xs = filter (\<lambda>a. c < a) xs" for xs :: "int list"
proof (induction xs)
  case (Cons x xs)
  show ?case
  proof (cases "c < x")
    case True
    with Cons.prems have "filter (\<lambda>a. c < a) xs = xs" by (intro filter_True) force
    with True show ?thesis by simp
  next
    case False
    with Cons show ?thesis by simp
  qed
qed simp

lemma clean_inv:
  assumes inv: "limiterInv m window prev (r, log)" and mono: "prev \<le> now"
  shows "rlTimestamps (cleanOldTimestamps now r) = filter (\<lambda>a. now - window < a) log"
    and "rlMaxRequests (cleanOldTimestamps now r) = m" and "rlWindow (cleanOldTimestamps now r) = window"
proof -
  from inv obtain c where c: "c \<le> prev - window" "rlTimestamps r = filter (\<lambda>a. c < a) log"
    and s: "sorted log" and w: "rlWindow r = window" and m: "rlMaxRequests r = m" by (auto simp: limiterInv_def)
  have "sorted (rlTimestamps r)" using s c(2) sorted_filter [of id log "\<lambda>a. c < a"] by simp
  then have "rlTimestamps (cleanOldTimestamps now r) = filter (\<lambda>a. now - window < a) (rlTimestamps r)"
    by (simp add: cleanOldTimestamps_def w sorted_dropWhile_filter del: not_less)
  also have "\<dots> = filter (\<lambda>a. now - window < a) log"
    unfolding c(2) filter_filter by (rule filter_cong) (use c(1) mono in auto)
  finally show "rlTimestamps (cleanOldTimestamps now r) = filter (\<lambda>a. now - window < a) log" .
  show "rlMaxRequests (cleanOldTimestamps now r) = m" "rlWindow (cleanOldTimestamps now r) = window"
    by (simp_all add: cleanOldTimestamps_def m w)
qed

lemma inv_clean:
  assumes "limiterInv m window prev (r, log)" and "prev \<le> now"
  shows "limiterInv m window now (cleanOldTimestamps now r, log)"
  using assms clean_inv [OF assms] by (fastforce simp: limiterInv_def)

lemma inv_admit:
  assumes inv: "limiterInv m window prev (r, log)" and mono: "prev \<le> now"
    and room: "int (length (rlTimestamps (cleanOldTimestamps now r))) < m" and w: "0 < window"
  shows "limiterInv m window now
    ((cleanOldTimestamps now r)\<lparr>rlTimestamps := rlTimestamps (cleanOldTimestamps now r) @ [now]\<rparr>, log @ [now])"
proof -
  note C = clean_inv [OF inv mono]
  have s: "sorted log" and le: "\<forall>a \<in> set log. a \<le> now"
    and old: "\<And>t. int (length (inWindow window t log)) \<le> max 0 m"
    using inv mono by (auto simp: limiterInv_def)
  have count: "int (length (inWindow window t (log @ [now]))) \<le> max 0 m" for t
  proof (cases "t < now")
    case True
    then show ?thesis using old [of t] by (simp add: inWindow_def)
  next
    case False
    have "inWindow window t (log @ [now]) = filter (\<lambda>a. t - window < a \<and> a \<le> t) (filter (\<lambda>a. now - window < a) (log @ [now]))"
      unfolding inWindow_def filter_filter by (rule filter_cong) (use False in auto)
    then have "length (inWindow window t (log @ [now])) \<le> length (filter (\<lambda>a. now - window < a) (log @ [now]))"
      by (metis length_filter_le)
    then have "length (inWindow window t (log @ [now])) \<le> Suc (length (filter (\<lambda>a. now - window < a) log))"
      using w by simp
    then show ?thesis using room C(1) by simp
  qed
  show ?thesis
  proof (rule limiterInv_intro)
    show "sorted (log @ [now])" using s le by (simp add: sorted_append)
    show "\<forall>a \<in> set (log @ [now]). a \<le> now" using le by simp
    show "now - window \<le> now - window" by simp
    show "rlTimestamps (cleanOldTimestamps now r\<lparr>rlTimestamps := rlTimestamps (cleanOldTimestamps now r) @ [now]\<rparr>) =
        filter (\<lambda>a. now - window < a) (log @ [now])"
      using w by (simp add: C(1))
  qed (use C count in simp_all)
qed

lemma inv_call:
  assumes inv: "limiterInv m window prev s" and mono: "prev \<le> now" and w: "0 < window"
  shows "limiterInv m window now (callLimiter c now s)"
proof -
  obtain r log where s: "s = (r, log)" by (cases s)
  note inv' = inv [unfolded s]
  let ?r = "cleanOldTimestamps now r"
  have m: "rlMaxRequests ?r = m" by (rule clean_inv(2) [OF inv' mono])
  have step: "callLimiter c now s = (?r, log) \<or>
      int (length (rlTimestamps ?r)) < m \<and> callLimiter c now s = (?r\<lparr>rlTimestamps := rlTimestamps ?r @ [now]\<rparr>, log @ [now])"
    by (cases c) (auto simp: callLimiter_def s WaitForSlot_def TryAcquire_def Available_def Let_def m split: list.split)
  then show ?thesis
  proof
    assume "callLimiter c now s = (?r, log)"
    then show ?thesis using inv_clean [OF inv' mono] by simp
  next
    assume "int (length (rlTimestamps ?r)) < m \<and>
      callLimiter c now s = (?r\<lparr>rlTimestamps := rlTimestamps ?r @ [now]\<rparr>, log @ [now])"
    then show ?thesis using inv_admit [OF inv' mono _ w] by simp
  qed
qed

lemma inv_run:
  assumes "limiterInv m window prev s" and "sorted (prev # map snd calls)" and "0 < window"
  shows "\<exists>now. limiterInv m window now (fold (\<lambda>(c, now). callLimiter c now) calls s)"
  using assms
proof (induction calls arbitrary: prev s)
  case (Cons q calls)
  obtain c now where q: "q = (c, now)" by (cases q)
  from Cons.prems have "prev \<le> now" "sorted (now # map snd calls)" by (auto simp: q)
  with Cons.IH [OF inv_call [OF Cons.prems(1)]] Cons.prems(3) show ?case by (simp add: q)
qed auto

section \<open>Properties\<close>

text \<open>
  C35: However many callers wait, try and ask in whatever order, no window of the limiter's
  length ever contains more admissions than it allows: waiters that wake together do not
  burst past the limit.
\<close>

theorem limiter_never_bursts:
  assumes "sorted (map snd calls)" and "0 < window" and "0 \<le> m"
  shows "int (length (inWindow window t (snd (runLimiter calls (NewRateLimiter m window))))) \<le> m"
proof (cases calls)
  case Nil
  then show ?thesis using assms(3) by (simp add: runLimiter_def inWindow_def)
next
  case (Cons q qs)
  have "\<forall>t. int (length (inWindow window t [])) \<le> max 0 m" by (simp add: inWindow_def)
  then have "limiterInv m window (snd q) (NewRateLimiter m window, [])"
    by (auto simp: limiterInv_def NewRateLimiter_def)
  from inv_run [OF this, of calls] assms Cons obtain now
    where "limiterInv m window now (runLimiter calls (NewRateLimiter m window))"
    by (auto simp: runLimiter_def)
  then have "int (length (inWindow window t (snd (runLimiter calls (NewRateLimiter m window))))) \<le> max 0 m"
    by (simp add: limiterInv_def)
  with assms(3) show ?thesis by simp
qed

theorem limiter_never_bursts_witness:
  "let log = snd (runLimiter [(CallWait, 1), (CallTry, 2), (CallWait, 3), (CallAvailable, 5), (CallWait, 11), (CallWait, 11)]
       (NewRateLimiter 2 10))
   in log = [1, 2, 11] \<and> int (length (inWindow 10 11 log)) \<le> 2"
proof -
  let ?calls = "[(CallWait, 1), (CallTry, 2), (CallWait, 3), (CallAvailable, 5), (CallWait, 11), (CallWait, 11)]"
  have "snd (runLimiter ?calls (NewRateLimiter 2 10)) = [1, 2, 11]" by code_simp
  with limiter_never_bursts [of ?calls 10 2 11] show ?thesis by simp
qed

text \<open>
  C40: A waiter is told a finite instant to sleep to, and if no one else has taken the slot
  it is admitted at its first attempt from that instant on; with a positive limit the wait
  never panics.
\<close>

theorem limiter_lone_waiter_admitted:
  assumes "0 < rlMaxRequests r" and "int (length (rlTimestamps r)) \<le> rlMaxRequests r"
  shows "(case WaitForSlot now r of
      (Admitted, _) \<Rightarrow> True
    | (SleepUntil u, r') \<Rightarrow> u > now \<and> (\<forall>later \<ge> u. fst (WaitForSlot later r') = Admitted)
    | (WaitPanic, _) \<Rightarrow> False)"
proof -
  let ?r = "cleanOldTimestamps now r"
  have frame: "rlMaxRequests ?r = rlMaxRequests r" "rlWindow ?r = rlWindow r" by (simp_all add: cleanOldTimestamps_def)
  have short: "length (rlTimestamps ?r) \<le> length (rlTimestamps r)"
    by (simp add: cleanOldTimestamps_def length_dropWhile_le)
  show ?thesis
  proof (cases "int (length (rlTimestamps ?r)) < rlMaxRequests r")
    case True
    then show ?thesis by (simp add: WaitForSlot_def Let_def frame)
  next
    case False
    with assms(1) obtain oldest rest where ts: "rlTimestamps ?r = oldest # rest" by (cases "rlTimestamps ?r") auto
    then have fresh: "now - rlWindow r < oldest"
      unfolding cleanOldTimestamps_def Let_def by (auto dest: dropWhile_eq_Cons_conv [THEN iffD1])
    have w: "WaitForSlot now r = (SleepUntil (oldest + rlWindow r), ?r)"
      using False by (simp add: WaitForSlot_def Let_def frame ts)
    have "fst (WaitForSlot later ?r) = Admitted" if "later \<ge> oldest + rlWindow r" for later
    proof -
      have "rlTimestamps (cleanOldTimestamps later ?r) = dropWhile (\<lambda>x. \<not> x > later - rlWindow r) rest"
        using that by (simp add: cleanOldTimestamps_def [of later] ts frame)
      then have "length (rlTimestamps (cleanOldTimestamps later ?r)) \<le> length rest" by (simp add: length_dropWhile_le)
      moreover have "int (length rest) < rlMaxRequests r" using ts short assms(2) by simp
      moreover have "rlMaxRequests (cleanOldTimestamps later ?r) = rlMaxRequests r"
        by (simp add: cleanOldTimestamps_def)
      ultimately show ?thesis by (simp add: WaitForSlot_def Let_def)
    qed
    with fresh show ?thesis by (simp add: w)
  qed
qed

theorem limiter_lone_waiter_admitted_witness:
  "fst (WaitForSlot 15 (snd (WaitForSlot 9 (NewRateLimiter 1 10\<lparr>rlTimestamps := [5]\<rparr>)))) = Admitted"
  using limiter_lone_waiter_admitted [of "NewRateLimiter 1 10\<lparr>rlTimestamps := [5]\<rparr>" 9]
  by (simp add: NewRateLimiter_def WaitForSlot_def cleanOldTimestamps_def)
end
