(* ===== verification/Cancel.thy ===== *)
theory Cancel
  imports Prelude
begin

text \<open>
  The cancel registries of the mobile core (\<open>go_backend/cancel.go\<close>): entries counted by the
  work attached to them, cancels that arrive before the work as tombstones, and the sweep
  that bounds these. Each method holds the registry's lock for its whole body. A context that
  \<open>context.WithCancel\<close> makes is a number, the contexts cancelled so far are a list of them;
  \<open>None\<close> is the background context. The entries list gives the order in which Go ranges
  over the map.
\<close>

section \<open>Model\<close>

record cancel_entry =
  ceCtx :: "nat option"
  ceCanceled :: bool
  ceRefs :: int
  ceTombstonedAt :: time

record cancel_registry =
  crEntries :: "(string, cancel_entry) gomap"
  crNext :: nat
  crCancelled :: "nat list"

definition emptyRegistry :: cancel_registry where
  "emptyRegistry = \<lparr>crEntries = [], crNext = 0, crCancelled = []\<rparr>"

definition cancelTombstoneTTL :: int where
  "cancelTombstoneTTL = 2 * 60 * nanos_per_second"

definition cancelRegistryMaxEntries :: nat where
  "cancelRegistryMaxEntries = 1024"

text \<open>Calling the cancel function of an entry, if it has one.\<close>

definition fireCancel :: "cancel_entry \<Rightarrow> nat list \<Rightarrow> nat list" where
  "fireCancel e fired = (case ceCtx e of None \<Rightarrow> fired | Some c \<Rightarrow> c # fired)"

definition claimed :: "cancel_entry \<Rightarrow> bool" where
  "claimed e \<longleftrightarrow> ceRefs e > 0 \<or> ceTombstonedAt e = zero_time"

definition expired :: "time \<Rightarrow> cancel_entry \<Rightarrow> bool" where
  "expired now e \<longleftrightarrow> \<not> claimed e \<and> now - ceTombstonedAt e \<ge> cancelTombstoneTTL"

text \<open>The oldest tombstone and its time, the first one seen among equals.\<close>

fun oldestTombstone :: "(string, cancel_entry) gomap \<Rightarrow> (string \<times> time) option \<Rightarrow> (string \<times> time) option" where
  "oldestTombstone [] best = best"
| "oldestTombstone ((k, e) # m) best =
     (if claimed e then oldestTombstone m best
      else case best of
             None \<Rightarrow> oldestTombstone m (Some (k, ceTombstonedAt e))
           | Some (_, t) \<Rightarrow>
               if ceTombstonedAt e < t then oldestTombstone m (Some (k, ceTombstonedAt e))
               else oldestTombstone m best)"

fun sweepExpired :: "time \<Rightarrow> (string, cancel_entry) gomap \<Rightarrow> nat list \<Rightarrow> (string, cancel_entry) gomap \<times> nat list" where
  "sweepExpired now [] fired = ([], fired)"
| "sweepExpired now ((k, e) # m) fired =
     (if expired now e then sweepExpired now m (fireCancel e fired)
      else case sweepExpired now m fired of (m', fired') \<Rightarrow> ((k, e) # m', fired'))"

lemma oldestTombstone_in:
  "oldestTombstone m best = Some (k, t) \<Longrightarrow> (best = Some (k, t)) \<or> (\<exists>e. (k, e) \<in> set m \<and> \<not> claimed e)"
proof (induction m arbitrary: best)
  case (Cons p m)
  obtain k' e' where p: "p = (k', e')" by (cases p)
  show ?case
  proof (cases "claimed e'")
    case True
    with Cons.prems have "oldestTombstone m best = Some (k, t)" by (simp add: p)
    with Cons.IH show ?thesis by auto
  next
    case False
    with Cons.prems have "oldestTombstone m (Some (k', ceTombstonedAt e')) = Some (k, t) \<or> oldestTombstone m best = Some (k, t)"
      by (auto simp: p split: option.splits if_splits)
    with Cons.IH False show ?thesis by (auto simp: p)
  qed
qed simp

function evictLoop :: "(string, cancel_entry) gomap \<Rightarrow> nat list \<Rightarrow> (string, cancel_entry) gomap \<times> nat list" where
  "evictLoop m fired =
     (if length m \<le> cancelRegistryMaxEntries then (m, fired)
      else case oldestTombstone m None of
             None \<Rightarrow> (m, fired)
           | Some (k, _) \<Rightarrow>
               evictLoop (del k m) (case map_of m k of None \<Rightarrow> fired | Some e \<Rightarrow> fireCancel e fired))"
  by pat_completeness auto
termination
proof (relation "measure (\<lambda>(m, _). length m)")
  fix m :: "(string, cancel_entry) gomap" and fired k t
  fix x2 :: "string \<times> time"
  assume "oldestTombstone m None = Some x2" and "(k, t) = x2"
  then obtain e where "(k, e) \<in> set m" using oldestTombstone_in [of m None k t] by auto
  then have "length (del k m) < length m" unfolding del_def by (intro length_filter_less) auto
  then show "((del k m, case map_of m k of None \<Rightarrow> fired | Some e \<Rightarrow> fireCancel e fired), (m, fired))
      \<in> measure (\<lambda>(m, _). length m)" by simp
qed simp

declare evictLoop.simps [simp del]

definition pruneLocked :: "time \<Rightarrow> cancel_registry \<Rightarrow> cancel_registry" where
  "pruneLocked now r =
     (let (m1, fired1) = sweepExpired now (crEntries r) (crCancelled r);
          (m2, fired2) = evictLoop m1 fired1
      in r\<lparr>crEntries := m2, crCancelled := fired2\<rparr>)"

text \<open>\<open>init\<close>, with the context it returns.\<close>

definition initCancel :: "time \<Rightarrow> string \<Rightarrow> cancel_registry \<Rightarrow> nat option \<times> cancel_registry" where
  "initCancel now key r0 =
     (if key = '''' then (None, r0)
      else
        let r = pruneLocked now r0
        in case map_of (crEntries r) key of
             Some e \<Rightarrow>
               (case ceCtx e of
                  None \<Rightarrow>
                    (let c = crNext r;
                         e' = e\<lparr>ceCtx := Some c, ceRefs := ceRefs e + 1, ceTombstonedAt := zero_time\<rparr>
                     in (Some c,
                         \<lparr>crEntries = put key e' (crEntries r), crNext = c + 1,
                          crCancelled = (if ceCanceled e then c # crCancelled r else crCancelled r)\<rparr>))
                | Some c \<Rightarrow>
                    (Some c, r\<lparr>crEntries := put key (e\<lparr>ceRefs := ceRefs e + 1, ceTombstonedAt := zero_time\<rparr>) (crEntries r)\<rparr>))
           | None \<Rightarrow>
               (let c = crNext r
                in (Some c,
                    r\<lparr>crEntries := put key \<lparr>ceCtx = Some c, ceCanceled = False, ceRefs = 1, ceTombstonedAt = zero_time\<rparr>
                        (crEntries r), crNext := c + 1\<rparr>)))"

definition cancelContext :: "string \<Rightarrow> cancel_registry \<Rightarrow> nat option" where
  "cancelContext key r =
     (if key = '''' then None
      else case map_of (crEntries r) key of None \<Rightarrow> None | Some e \<Rightarrow> ceCtx e)"

text \<open>\<open>requestCancel\<close>; \<open>pruned\<close> is the clock read for the sweep.\<close>

definition requestCancel :: "time \<Rightarrow> time \<Rightarrow> string \<Rightarrow> cancel_registry \<Rightarrow> cancel_registry" where
  "requestCancel now pruned key r =
     (if key = '''' then r
      else
        pruneLocked pruned
          (case map_of (crEntries r) key of
             Some e \<Rightarrow>
               (let e1 = e\<lparr>ceCanceled := True\<rparr>;
                    e2 = (if ceRefs e1 \<le> 0 \<and> ceTombstonedAt e1 = zero_time then e1\<lparr>ceTombstonedAt := now\<rparr> else e1)
                in r\<lparr>crEntries := put key e2 (crEntries r), crCancelled := fireCancel e1 (crCancelled r)\<rparr>)
           | None \<Rightarrow>
               r\<lparr>crEntries := put key \<lparr>ceCtx = None, ceCanceled = True, ceRefs = 0, ceTombstonedAt = now\<rparr> (crEntries r)\<rparr>))"

definition isCancelled :: "string \<Rightarrow> cancel_registry \<Rightarrow> bool" where
  "isCancelled key r =
     (key \<noteq> '''' \<and> (case map_of (crEntries r) key of None \<Rightarrow> False | Some e \<Rightarrow> ceCanceled e))"

definition resetIfIdle :: "string \<Rightarrow> cancel_registry \<Rightarrow> cancel_registry" where
  "resetIfIdle key r =
     (if key = '''' then r
      else case map_of (crEntries r) key of
             None \<Rightarrow> r
           | Some e \<Rightarrow> if ceRefs e \<le> 0 then r\<lparr>crEntries := del key (crEntries r)\<rparr> else r)"

definition releaseCancel :: "string \<Rightarrow> cancel_registry \<Rightarrow> cancel_registry" where
  "releaseCancel key r =
     (if key = '''' then r
      else case map_of (crEntries r) key of
             None \<Rightarrow> r
           | Some e \<Rightarrow>
               (let e' = e\<lparr>ceRefs := ceRefs e - 1\<rparr>
                in if ceRefs e' \<le> 0 then r\<lparr>crEntries := del key (crEntries r)\<rparr>
                   else r\<lparr>crEntries := put key e' (crEntries r)\<rparr>))"

text \<open>\<open>cancelDownload\<close> also drops the progress of the item, by the function given.\<close>

definition cancelDownload ::
  "(string \<Rightarrow> 'st \<Rightarrow> 'st) \<Rightarrow> time \<Rightarrow> time \<Rightarrow> string \<Rightarrow> cancel_registry \<times> 'st \<Rightarrow> cancel_registry \<times> 'st" where
  "cancelDownload removeProgress now pruned itemID s =
     (if itemID = '''' then s else (requestCancel now pruned itemID (fst s), removeProgress itemID (snd s)))"

section \<open>Invariant\<close>

definition liveEntry :: "cancel_registry \<Rightarrow> cancel_entry \<Rightarrow> bool" where
  "liveEntry r e \<longleftrightarrow> 0 < ceRefs e \<and> ceTombstonedAt e = zero_time \<and>
     (\<exists>c. ceCtx e = Some c \<and> c < crNext r \<and> (ceCanceled e \<longleftrightarrow> c \<in> set (crCancelled r)))"

definition idleEntry :: "cancel_entry \<Rightarrow> bool" where
  "idleEntry e \<longleftrightarrow> ceRefs e = 0 \<and> ceTombstonedAt e \<noteq> zero_time \<and> ceCanceled e \<and> ceCtx e = None"

definition idleCount :: "(string, cancel_entry) gomap \<Rightarrow> nat" where
  "idleCount m = length (filter (\<lambda>p. idleEntry (snd p)) m)"

definition registryCore :: "cancel_registry \<Rightarrow> bool" where
  "registryCore r \<longleftrightarrow> wf_map (crEntries r) \<and>
     (\<forall>k e. map_of (crEntries r) k = Some e \<longrightarrow> k \<noteq> '''' \<and> (liveEntry r e \<or> idleEntry e)) \<and>
     (\<forall>k e k' e'. map_of (crEntries r) k = Some e \<longrightarrow> map_of (crEntries r) k' = Some e' \<longrightarrow>
        ceCtx e = ceCtx e' \<longrightarrow> ceCtx e \<noteq> None \<longrightarrow> k = k') \<and>
     (\<forall>c \<in> set (crCancelled r). c < crNext r)"

definition registryInv :: "cancel_registry \<Rightarrow> bool" where
  "registryInv r \<longleftrightarrow> registryCore r \<and> idleCount (crEntries r) \<le> cancelRegistryMaxEntries"

lemma registryInv_core: "registryInv r \<Longrightarrow> registryCore r"
  by (simp add: registryInv_def)

lemma registryCore_D:
  assumes "registryCore r"
  shows "wf_map (crEntries r)"
    and "map_of (crEntries r) k = Some e \<Longrightarrow> k \<noteq> ''''"
    and "map_of (crEntries r) k = Some e \<Longrightarrow> liveEntry r e \<or> idleEntry e"
    and "map_of (crEntries r) k = Some e \<Longrightarrow> map_of (crEntries r) k' = Some e' \<Longrightarrow> ceCtx e = ceCtx e' \<Longrightarrow>
      ceCtx e \<noteq> None \<Longrightarrow> k = k'"
    and "c \<in> set (crCancelled r) \<Longrightarrow> c < crNext r"
  using assms unfolding registryCore_def by blast+

lemma registryCore_I:
  assumes "wf_map (crEntries r)"
    and "\<And>k e. map_of (crEntries r) k = Some e \<Longrightarrow> k \<noteq> '''' \<and> (liveEntry r e \<or> idleEntry e)"
    and "\<And>k e k' e'. map_of (crEntries r) k = Some e \<Longrightarrow> map_of (crEntries r) k' = Some e' \<Longrightarrow> ceCtx e = ceCtx e' \<Longrightarrow>
      ceCtx e \<noteq> None \<Longrightarrow> k = k'"
    and "\<And>c. c \<in> set (crCancelled r) \<Longrightarrow> c < crNext r"
  shows "registryCore r"
  using assms unfolding registryCore_def by blast

lemma registryInv_empty: "registryInv emptyRegistry"
  unfolding registryInv_def by (intro conjI registryCore_I) (simp_all add: emptyRegistry_def idleCount_def)

lemma live_claimed: "liveEntry r e \<Longrightarrow> claimed e" and idle_unclaimed: "idleEntry e \<Longrightarrow> \<not> claimed e"
  by (auto simp: liveEntry_def idleEntry_def claimed_def)

lemma idleCount_filter: "idleCount (filter P m) \<le> idleCount m"
proof -
  have "filter (\<lambda>p. idleEntry (snd p)) (filter P m) = filter P (filter (\<lambda>p. idleEntry (snd p)) m)"
    by (simp add: filter_filter conj_commute)
  then show ?thesis unfolding idleCount_def using length_filter_le [of P "filter (\<lambda>p. idleEntry (snd p)) m"] by (simp only:)
qed

lemma idleCount_del: "idleCount (del k m) \<le> idleCount m"
  unfolding del_def by (rule idleCount_filter)

lemma idleCount_put_live: "\<not> idleEntry e \<Longrightarrow> idleCount (put k e m) \<le> idleCount m"
  by (induction m) (auto simp: idleCount_def)

section \<open>The sweep\<close>

text \<open>What a sweep may do to a table: only entries that no work holds disappear.\<close>

definition sweptFrom :: "(string, cancel_entry) gomap \<Rightarrow> (string, cancel_entry) gomap \<Rightarrow> bool" where
  "sweptFrom m m' \<longleftrightarrow> (\<exists>P. m' = filter P m \<and> (\<forall>p \<in> set m. claimed (snd p) \<longrightarrow> P p))"

lemma sweptFrom_refl: "sweptFrom m m"
  unfolding sweptFrom_def by (intro exI [of _ "\<lambda>_. True"]) simp

lemma sweptFrom_trans: "sweptFrom a b \<Longrightarrow> sweptFrom b c \<Longrightarrow> sweptFrom a c"
proof -
  assume "sweptFrom a b" and "sweptFrom b c"
  then obtain P Q where "b = filter P a" "\<forall>p \<in> set a. claimed (snd p) \<longrightarrow> P p" "c = filter Q b"
    "\<forall>p \<in> set b. claimed (snd p) \<longrightarrow> Q p" by (auto simp: sweptFrom_def)
  then show ?thesis unfolding sweptFrom_def by (intro exI [of _ "\<lambda>p. P p \<and> Q p"]) (auto simp: filter_filter)
qed

lemma sweptFrom_map:
  assumes "sweptFrom m m'" and "wf_map m"
  shows "wf_map m'" and "map_of m' k = Some e \<Longrightarrow> map_of m k = Some e"
    and "map_of m k = Some e \<Longrightarrow> claimed e \<Longrightarrow> map_of m' k = Some e"
    and "idleCount m' \<le> idleCount m"
proof -
  from assms(1) obtain P where P: "m' = filter P m" "\<forall>p \<in> set m. claimed (snd p) \<longrightarrow> P p" by (auto simp: sweptFrom_def)
  show "wf_map m'" using assms(2) P(1) by simp
  show "map_of m' k = Some e \<Longrightarrow> map_of m k = Some e"
    using map_of_filter [OF assms(2), of P k] P(1) by (auto split: option.splits if_splits)
  show "map_of m' k = Some e" if "map_of m k = Some e" "claimed e"
    using map_of_filter [OF assms(2), of P k] P that in_set_map_of [OF assms(2), of k e] by auto
  show "idleCount m' \<le> idleCount m" using P(1) idleCount_filter by simp
qed

lemma sweepExpired_filter:
  "\<forall>p \<in> set m. claimed (snd p) \<or> ceCtx (snd p) = None \<Longrightarrow>
   sweepExpired now m fired = (filter (\<lambda>p. \<not> expired now (snd p)) m, fired)"
proof (induction m arbitrary: fired)
  case (Cons p m)
  obtain k e where p: "p = (k, e)" by (cases p)
  show ?case
  proof (cases "expired now e")
    case True
    then have "ceCtx e = None" using Cons.prems by (auto simp: p expired_def)
    with True Cons show ?thesis by (simp add: p fireCancel_def)
  next
    case False
    with Cons show ?thesis by (simp add: p)
  qed
qed simp

lemma evictLoop_sweep:
  "wf_map m \<Longrightarrow> \<forall>p \<in> set m. claimed (snd p) \<or> ceCtx (snd p) = None \<Longrightarrow>
   \<exists>m'. evictLoop m fired = (m', fired) \<and> sweptFrom m m' \<and>
     (length m' \<le> cancelRegistryMaxEntries \<or> oldestTombstone m' None = None)"
proof (induction m fired rule: evictLoop.induct)
  case (1 m fired)
  show ?case
  proof (cases "length m \<le> cancelRegistryMaxEntries")
    case True
    then show ?thesis by (simp add: evictLoop.simps [of m] sweptFrom_refl)
  next
    case full: False
    show ?thesis
    proof (cases "oldestTombstone m None")
      case None
      with full show ?thesis by (simp add: evictLoop.simps [of m] sweptFrom_refl)
    next
      case (Some kt)
      obtain k t where kt: "kt = (k, t)" by (cases kt)
      with Some obtain e where e: "(k, e) \<in> set m" "\<not> claimed e" using oldestTombstone_in [of m None k t] by auto
      then have mk: "map_of m k = Some e" using in_set_map_of [OF "1.prems"(1)] by simp
      from e "1.prems"(2) have ctx: "ceCtx e = None" by auto
      have sub: "\<forall>p \<in> set (del k m). claimed (snd p) \<or> ceCtx (snd p) = None"
        using "1.prems"(2) by (auto simp: set_del)
      have step: "evictLoop m fired = evictLoop (del k m) fired"
        using full Some mk ctx by (simp add: evictLoop.simps [of m] kt fireCancel_def)
      have swept: "sweptFrom m (del k m)"
        unfolding sweptFrom_def
      proof (intro exI [of _ "\<lambda>p. fst p \<noteq> k"] conjI ballI impI)
        show "del k m = filter (\<lambda>p. fst p \<noteq> k) m" by (simp add: del_def)
        fix p assume p: "p \<in> set m" "claimed (snd p)"
        show "fst p \<noteq> k"
        proof
          assume "fst p = k"
          with p(1) have "map_of m k = Some (snd p)" using in_set_map_of [OF "1.prems"(1), of k "snd p"] by auto
          with mk p(2) e(2) show False by simp
        qed
      qed
      from "1.IH" [OF full Some kt [symmetric] wf_map_del [OF "1.prems"(1)] sub] mk ctx
      obtain m' where "evictLoop (del k m) fired = (m', fired)" "sweptFrom (del k m) m'"
        "length m' \<le> cancelRegistryMaxEntries \<or> oldestTombstone m' None = None"
        by (auto simp: fireCancel_def)
      with step sweptFrom_trans [OF swept] show ?thesis by auto
    qed
  qed
qed

lemma oldestTombstone_Some: "oldestTombstone m (Some b) \<noteq> None"
proof (induction m arbitrary: b)
  case (Cons p m)
  obtain k e where p: "p = (k, e)" by (cases p)
  show ?case using Cons.IH by (cases b) (simp add: p)
qed simp

lemma oldestTombstone_None: "oldestTombstone m None = None \<Longrightarrow> \<forall>p \<in> set m. claimed (snd p)"
proof (induction m)
  case (Cons p m)
  obtain k e where p: "p = (k, e)" by (cases p)
  show ?case
  proof (cases "claimed e")
    case True
    with Cons show ?thesis by (simp add: p)
  next
    case False
    with Cons.prems oldestTombstone_Some [of m "(k, ceTombstonedAt e)"] show ?thesis by (simp add: p)
  qed
qed simp

lemma prune_spec:
  assumes wf: "wf_map (crEntries r)"
    and idle: "\<forall>k e. map_of (crEntries r) k = Some e \<longrightarrow> claimed e \<or> ceCtx e = None"
  shows "\<exists>m. pruneLocked now r = r\<lparr>crEntries := m\<rparr> \<and> sweptFrom (crEntries r) m \<and>
    (length m \<le> cancelRegistryMaxEntries \<or> (\<forall>p \<in> set m. claimed (snd p))) \<and>
    (length (crEntries r) \<le> cancelRegistryMaxEntries \<longrightarrow> m = filter (\<lambda>p. \<not> expired now (snd p)) (crEntries r))"
proof -
  have ctx: "\<forall>p \<in> set (crEntries r). claimed (snd p) \<or> ceCtx (snd p) = None"
    using idle in_set_map_of [OF wf] by fastforce
  let ?m1 = "filter (\<lambda>p. \<not> expired now (snd p)) (crEntries r)"
  have sw: "sweepExpired now (crEntries r) (crCancelled r) = (?m1, crCancelled r)"
    by (rule sweepExpired_filter [OF ctx])
  have s1: "sweptFrom (crEntries r) ?m1"
    unfolding sweptFrom_def by (intro exI [of _ "\<lambda>p. \<not> expired now (snd p)"]) (auto simp: expired_def)
  have ctx1: "\<forall>p \<in> set ?m1. claimed (snd p) \<or> ceCtx (snd p) = None" using ctx by auto
  from evictLoop_sweep [OF wf_map_filter [OF wf] ctx1] obtain m2 where
    m2: "evictLoop ?m1 (crCancelled r) = (m2, crCancelled r)" "sweptFrom ?m1 m2"
      "length m2 \<le> cancelRegistryMaxEntries \<or> oldestTombstone m2 None = None" by blast
  have same: "m2 = ?m1" if "length (crEntries r) \<le> cancelRegistryMaxEntries"
  proof -
    have "length ?m1 \<le> cancelRegistryMaxEntries" using that length_filter_le [of _ "crEntries r"] le_trans by blast
    then show ?thesis using m2(1) by (simp add: evictLoop.simps [of ?m1])
  qed
  have "pruneLocked now r = r\<lparr>crEntries := m2\<rparr>" by (simp add: pruneLocked_def sw m2(1))
  then show ?thesis using sweptFrom_trans [OF s1 m2(2)] m2(3) oldestTombstone_None same by blast
qed

section \<open>Preservation of the invariant\<close>

lemma core_unclaimed: "registryCore r \<Longrightarrow> map_of (crEntries r) k = Some e \<Longrightarrow> claimed e \<or> ceCtx e = None"
  using registryCore_D(3) [of r k e] live_claimed by (auto simp: idleEntry_def)

lemma core_swept:
  assumes core: "registryCore r" and swept: "sweptFrom (crEntries r) m"
  shows "registryCore (r\<lparr>crEntries := m\<rparr>)"
proof (rule registryCore_I)
  note wf = registryCore_D(1) [OF core]
  note old = sweptFrom_map(2) [OF swept wf]
  show "wf_map (crEntries (r\<lparr>crEntries := m\<rparr>))" using sweptFrom_map(1) [OF swept wf] by simp
  show "k \<noteq> '''' \<and> (liveEntry (r\<lparr>crEntries := m\<rparr>) e \<or> idleEntry e)"
    if "map_of (crEntries (r\<lparr>crEntries := m\<rparr>)) k = Some e" for k e
    using that old [of k e] registryCore_D(2,3) [OF core, of k e] by (simp add: liveEntry_def)
  show "k = k'" if "map_of (crEntries (r\<lparr>crEntries := m\<rparr>)) k = Some e"
    "map_of (crEntries (r\<lparr>crEntries := m\<rparr>)) k' = Some e'" "ceCtx e = ceCtx e'" "ceCtx e \<noteq> None" for k e k' e'
    using registryCore_D(4) [OF core old old] that by simp
  show "c < crNext (r\<lparr>crEntries := m\<rparr>)" if "c \<in> set (crCancelled (r\<lparr>crEntries := m\<rparr>))" for c
    using registryCore_D(5) [OF core] that by simp
qed

lemma prune_core:
  assumes core: "registryCore r"
  obtains m where "pruneLocked now r = r\<lparr>crEntries := m\<rparr>" and "sweptFrom (crEntries r) m"
    and "registryInv (r\<lparr>crEntries := m\<rparr>)"
    and "length (crEntries r) \<le> cancelRegistryMaxEntries \<Longrightarrow> m = filter (\<lambda>p. \<not> expired now (snd p)) (crEntries r)"
proof -
  have un: "\<forall>k e. map_of (crEntries r) k = Some e \<longrightarrow> claimed e \<or> ceCtx e = None"
    using core_unclaimed [OF core] by blast
  from prune_spec [OF registryCore_D(1) [OF core] un, where now = now]
  obtain m where m: "pruneLocked now r = r\<lparr>crEntries := m\<rparr>" "sweptFrom (crEntries r) m"
    "length m \<le> cancelRegistryMaxEntries \<or> (\<forall>p \<in> set m. claimed (snd p))"
    "length (crEntries r) \<le> cancelRegistryMaxEntries \<longrightarrow> m = filter (\<lambda>p. \<not> expired now (snd p)) (crEntries r)" by blast
  have "idleCount m \<le> cancelRegistryMaxEntries"
  proof (cases "length m \<le> cancelRegistryMaxEntries")
    case True
    then show ?thesis unfolding idleCount_def using length_filter_le le_trans by blast
  next
    case False
    with m(3) have "filter (\<lambda>p. idleEntry (snd p)) m = []" using idle_unclaimed by (auto simp: filter_empty_conv)
    then show ?thesis by (simp add: idleCount_def)
  qed
  with core_swept [OF core m(2)] have "registryInv (r\<lparr>crEntries := m\<rparr>)" by (simp add: registryInv_def)
  with m that show ?thesis by blast
qed

text \<open>Replacing one entry: the others keep their state when no context of theirs is cancelled.\<close>

lemma core_put:
  assumes core: "registryCore r" and key: "key \<noteq> ''''"
    and ent: "crEntries r' = put key e (crEntries r)"
    and new: "liveEntry r' e \<or> idleEntry e"
    and next_le: "crNext r \<le> crNext r'"
    and fired: "\<And>c. c \<in> set (crCancelled r') \<Longrightarrow> c \<in> set (crCancelled r) \<or> ceCtx e = Some c"
    and kept: "set (crCancelled r) \<subseteq> set (crCancelled r')"
    and own: "\<And>k e'. map_of (crEntries r) k = Some e' \<Longrightarrow> k \<noteq> key \<Longrightarrow> ceCtx e = ceCtx e' \<Longrightarrow> ceCtx e = None"
  shows "registryCore r'"
proof (rule registryCore_I)
  show "wf_map (crEntries r')" using registryCore_D(1) [OF core] by (simp add: ent)
  show "k \<noteq> '''' \<and> (liveEntry r' e' \<or> idleEntry e')" if "map_of (crEntries r') k = Some e'" for k e'
  proof (cases "k = key")
    case True
    with that new key show ?thesis by (simp add: ent)
  next
    case False
    with that have old: "map_of (crEntries r) k = Some e'" by (simp add: ent)
    have "liveEntry r' e'" if live: "liveEntry r e'"
    proof -
      from live obtain c where c: "ceCtx e' = Some c" "c < crNext r" "ceCanceled e' \<longleftrightarrow> c \<in> set (crCancelled r)"
        by (auto simp: liveEntry_def)
      with own [OF old False] fired [of c] kept have "ceCanceled e' \<longleftrightarrow> c \<in> set (crCancelled r')" by auto
      with live c next_le show ?thesis by (simp add: liveEntry_def)
    qed
    with registryCore_D(2,3) [OF core old] show ?thesis by blast
  qed
  show "k = k'" if "map_of (crEntries r') k = Some a" "map_of (crEntries r') k' = Some b" "ceCtx a = ceCtx b" "ceCtx a \<noteq> None"
    for k a k' b
  proof (rule ccontr)
    assume ne: "k \<noteq> k'"
    show False
    proof (cases "k = key")
      case True
      with that ne own [of k' b] show False by (auto simp: ent)
    next
      case False
      show False
      proof (cases "k' = key")
        case True
        with False that own [of k a] show False by (auto simp: ent)
      next
        case False
        with \<open>k \<noteq> key\<close> that ne registryCore_D(4) [OF core, of k a k' b] show False by (simp add: ent)
      qed
    qed
  qed
  show "c < crNext r'" if c: "c \<in> set (crCancelled r')" for c
    using fired [OF c]
  proof
    assume "c \<in> set (crCancelled r)"
    then show ?thesis using registryCore_D(5) [OF core] next_le by force
  next
    assume "ceCtx e = Some c"
    with new show ?thesis by (auto simp: liveEntry_def idleEntry_def)
  qed
qed

lemma core_del:
  assumes core: "registryCore r"
  shows "registryCore (r\<lparr>crEntries := del key (crEntries r)\<rparr>)"
proof (rule registryCore_I)
  let ?r = "r\<lparr>crEntries := del key (crEntries r)\<rparr>"
  have old: "map_of (crEntries ?r) k = Some e \<Longrightarrow> map_of (crEntries r) k = Some e" for k e
    by (simp split: if_splits)
  show "wf_map (crEntries ?r)" using registryCore_D(1) [OF core] by simp
  show "k \<noteq> '''' \<and> (liveEntry ?r e \<or> idleEntry e)" if "map_of (crEntries ?r) k = Some e" for k e
    using registryCore_D(2,3) [OF core old [OF that]] by (simp add: liveEntry_def)
  show "k = k'" if "map_of (crEntries ?r) k = Some e" "map_of (crEntries ?r) k' = Some e'"
    "ceCtx e = ceCtx e'" "ceCtx e \<noteq> None" for k e k' e'
    using registryCore_D(4) [OF core old [OF that(1)] old [OF that(2)]] that by simp
  show "c < crNext ?r" if "c \<in> set (crCancelled ?r)" for c
    using registryCore_D(5) [OF core] that by simp
qed

lemma releaseCancel_inv: "registryInv r \<Longrightarrow> registryInv (releaseCancel key r)"
proof -
  assume I: "registryInv r"
  note core = registryInv_core [OF I]
  have "registryInv (r\<lparr>crEntries := del key (crEntries r)\<rparr>)"
    using I core_del [OF core] idleCount_del [of key "crEntries r"] by (simp add: registryInv_def)
  moreover have "registryInv (r\<lparr>crEntries := put key (e\<lparr>ceRefs := ceRefs e - 1\<rparr>) (crEntries r)\<rparr>)"
    if "map_of (crEntries r) key = Some e" "\<not> ceRefs e - 1 \<le> 0" for e
  proof -
    let ?e = "e\<lparr>ceRefs := ceRefs e - 1\<rparr>"
    let ?r = "r\<lparr>crEntries := put key ?e (crEntries r)\<rparr>"
    have live: "liveEntry ?r ?e" using registryCore_D(3) [OF core that(1)] that(2) by (auto simp: liveEntry_def idleEntry_def)
    have "registryCore ?r"
    proof (rule core_put [OF core])
      show "key \<noteq> ''''" by (rule registryCore_D(2) [OF core that(1)])
      show "ceCtx ?e = None" if a: "map_of (crEntries r) k = Some e'" "k \<noteq> key" "ceCtx ?e = ceCtx e'" for k e'
        using registryCore_D(4) [OF core a(1) \<open>map_of (crEntries r) key = Some e\<close>] a(2,3) by (cases "ceCtx e") auto
    qed (use live in simp_all)
    moreover have "\<not> idleEntry ?e" using live by (simp add: liveEntry_def idleEntry_def)
    ultimately show ?thesis using I idleCount_put_live [of ?e key "crEntries r"] by (simp add: registryInv_def)
  qed
  ultimately show ?thesis using I by (auto simp: releaseCancel_def Let_def split: option.splits)
qed

lemma resetIfIdle_inv: "registryInv r \<Longrightarrow> registryInv (resetIfIdle key r)"
  using core_del [of r key] idleCount_del [of key "crEntries r"]
  by (auto simp: resetIfIdle_def registryInv_def split: option.splits)

lemma requestCancel_step_core:
  assumes core: "registryCore r" and now: "now \<noteq> zero_time" and key: "key \<noteq> ''''"
  obtains r1 e where "requestCancel now pruned key r = pruneLocked pruned r1" and "registryCore r1"
    and "crEntries r1 = put key e (crEntries r)" and "ceCanceled e" and "crNext r1 = crNext r"
    and "crCancelled r1 = fireCancel e (crCancelled r)"
    and "\<forall>a. map_of (crEntries r) key = Some a \<longrightarrow> e = a\<lparr>ceCanceled := True\<rparr>"
    and "map_of (crEntries r) key = None \<longrightarrow> idleEntry e \<and> ceTombstonedAt e = now"
proof (cases "map_of (crEntries r) key")
  case None
  let ?e = "\<lparr>ceCtx = None, ceCanceled = True, ceRefs = 0, ceTombstonedAt = now\<rparr>"
  let ?r = "r\<lparr>crEntries := put key ?e (crEntries r)\<rparr>"
  have idle: "idleEntry ?e" using now by (simp add: idleEntry_def)
  have "registryCore ?r"
    by (rule core_put [OF core key, where e = ?e]) (use idle in simp_all)
  moreover have "requestCancel now pruned key r = pruneLocked pruned ?r"
    using key None by (simp add: requestCancel_def)
  ultimately show ?thesis using that [of ?r ?e] None idle by (simp add: fireCancel_def)
next
  case (Some a)
  let ?e = "a\<lparr>ceCanceled := True\<rparr>"
  let ?r = "r\<lparr>crEntries := put key ?e (crEntries r), crCancelled := fireCancel ?e (crCancelled r)\<rparr>"
  from registryCore_D(3) [OF core Some] have la: "liveEntry r a \<or> idleEntry a" .
  then have same: "\<not> (ceRefs a \<le> 0 \<and> ceTombstonedAt a = zero_time)"
    by (auto simp: liveEntry_def idleEntry_def)
  have new: "liveEntry ?r ?e \<or> idleEntry ?e"
    using la by (auto simp: liveEntry_def idleEntry_def fireCancel_def)
  have core1: "registryCore ?r"
  proof (rule core_put [OF core key, where e = ?e])
    show "ceCtx ?e = None" if a: "map_of (crEntries r) k = Some e'" "k \<noteq> key" "ceCtx ?e = ceCtx e'" for k e'
      using registryCore_D(4) [OF core a(1) Some] a(2,3) by (cases "ceCtx a") auto
    show "c \<in> set (crCancelled r) \<or> ceCtx ?e = Some c" if "c \<in> set (crCancelled ?r)" for c
      using that by (auto simp: fireCancel_def split: option.splits)
    show "set (crCancelled r) \<subseteq> set (crCancelled ?r)"
      by (auto simp: fireCancel_def split: option.splits)
  qed (use new in simp_all)
  have req: "requestCancel now pruned key r = pruneLocked pruned ?r"
    using key Some same by (auto simp: requestCancel_def Let_def)
  show ?thesis by (rule that [OF req core1]) (use Some in simp_all)
qed

lemma requestCancel_inv:
  assumes I: "registryInv r" and now: "now \<noteq> zero_time"
  shows "registryInv (requestCancel now pruned key r)"
proof (cases "key = ''''")
  case True
  with I show ?thesis by (simp add: requestCancel_def)
next
  case False
  from requestCancel_step_core [OF registryInv_core [OF I] now False, where pruned = pruned]
  obtain r1 where r1: "requestCancel now pruned key r = pruneLocked pruned r1" "registryCore r1" by blast
  from prune_core [OF r1(2), of pruned] r1(1) show ?thesis by metis
qed

text \<open>\<open>init\<close> after its sweep.\<close>

definition attachEntry :: "string \<Rightarrow> cancel_registry \<Rightarrow> nat option \<times> cancel_registry" where
  "attachEntry key r =
     (case map_of (crEntries r) key of
        Some e \<Rightarrow>
          (case ceCtx e of
             None \<Rightarrow>
               (let c = crNext r;
                    e' = e\<lparr>ceCtx := Some c, ceRefs := ceRefs e + 1, ceTombstonedAt := zero_time\<rparr>
                in (Some c,
                    \<lparr>crEntries = put key e' (crEntries r), crNext = c + 1,
                     crCancelled = (if ceCanceled e then c # crCancelled r else crCancelled r)\<rparr>))
           | Some c \<Rightarrow>
               (Some c, r\<lparr>crEntries := put key (e\<lparr>ceRefs := ceRefs e + 1, ceTombstonedAt := zero_time\<rparr>) (crEntries r)\<rparr>))
      | None \<Rightarrow>
          (let c = crNext r
           in (Some c,
               r\<lparr>crEntries := put key \<lparr>ceCtx = Some c, ceCanceled = False, ceRefs = 1, ceTombstonedAt = zero_time\<rparr>
                   (crEntries r), crNext := c + 1\<rparr>)))"

lemma initCancel_attach: "key \<noteq> '''' \<Longrightarrow> initCancel now key r = attachEntry key (pruneLocked now r)"
  by (simp add: initCancel_def attachEntry_def Let_def)

lemma attachEntry_core:
  assumes core: "registryCore r" and key: "key \<noteq> ''''"
  obtains c e r' where "attachEntry key r = (Some c, r')" and "registryCore r'"
    and "crEntries r' = put key e (crEntries r)" and "liveEntry r' e" and "ceCtx e = Some c"
    and "ceCanceled e \<longleftrightarrow> (\<exists>a. map_of (crEntries r) key = Some a \<and> ceCanceled a)"
    and "ceRefs e = (case map_of (crEntries r) key of None \<Rightarrow> 1 | Some a \<Rightarrow> ceRefs a + 1)"
    and "set (crCancelled r) \<subseteq> set (crCancelled r')" and "crNext r \<le> crNext r'"
    and "\<forall>a c'. map_of (crEntries r) key = Some a \<longrightarrow> ceCtx a = Some c' \<longrightarrow> c = c'"
proof -
  have fresh: "crNext r \<notin> set (crCancelled r)" using registryCore_D(5) [OF core] by blast
  have own: "False" if "map_of (crEntries r) k = Some e'" "ceCtx e' = Some (crNext r)" for k e'
    using registryCore_D(3) [OF core that(1)] that(2) by (auto simp: liveEntry_def idleEntry_def)
  show ?thesis
  proof (cases "map_of (crEntries r) key")
    case None
    let ?e = "\<lparr>ceCtx = Some (crNext r), ceCanceled = False, ceRefs = 1, ceTombstonedAt = zero_time\<rparr>"
    let ?r = "r\<lparr>crEntries := put key ?e (crEntries r), crNext := crNext r + 1\<rparr>"
    have live: "liveEntry ?r ?e" using fresh by (simp add: liveEntry_def)
    have "registryCore ?r"
      by (rule core_put [OF core key, where e = ?e]) (use live own in auto)
    with that [of "crNext r" ?r ?e] live None show ?thesis by (simp add: attachEntry_def Let_def)
  next
    case (Some a)
    show ?thesis
    proof (cases "ceCtx a")
      case None
      with registryCore_D(3) [OF core Some] have idle: "idleEntry a" by (auto simp: liveEntry_def)
      let ?e = "a\<lparr>ceCtx := Some (crNext r), ceRefs := ceRefs a + 1, ceTombstonedAt := zero_time\<rparr>"
      let ?r = "\<lparr>crEntries = put key ?e (crEntries r), crNext = crNext r + 1, crCancelled = crNext r # crCancelled r\<rparr>"
      have live: "liveEntry ?r ?e" using idle by (simp add: liveEntry_def idleEntry_def)
      have "registryCore ?r"
        by (rule core_put [OF core key, where e = ?e]) (use live own in auto)
      with that [of "crNext r" ?r ?e] live None Some idle show ?thesis
        by (simp add: attachEntry_def Let_def idleEntry_def subset_insertI)
    next
      case ctx: (Some c)
      with registryCore_D(3) [OF core Some] have old: "liveEntry r a" by (auto simp: idleEntry_def)
      let ?e = "a\<lparr>ceRefs := ceRefs a + 1, ceTombstonedAt := zero_time\<rparr>"
      let ?r = "r\<lparr>crEntries := put key ?e (crEntries r)\<rparr>"
      have live: "liveEntry ?r ?e" using old by (simp add: liveEntry_def)
      have core1: "registryCore ?r"
      proof (rule core_put [OF core key, where e = ?e])
        show "ceCtx ?e = None" if "map_of (crEntries r) k = Some e'" "k \<noteq> key" "ceCtx ?e = ceCtx e'" for k e'
          using registryCore_D(4) [OF core that(1) Some] that(2,3) ctx by simp
      qed (use live in simp_all)
      have "attachEntry key r = (Some c, ?r)" by (simp add: attachEntry_def Let_def ctx Some)
      then show ?thesis by (rule that [of c ?r ?e, OF _ core1]) (use live ctx Some in simp_all)
    qed
  qed
qed

lemma initCancel_inv:
  assumes I: "registryInv r"
  shows "registryInv (snd (initCancel now key r))"
proof (cases "key = ''''")
  case True
  with I show ?thesis by (simp add: initCancel_def)
next
  case False
  from prune_core [OF registryInv_core [OF I], of now] obtain m where
    m: "pruneLocked now r = r\<lparr>crEntries := m\<rparr>" "registryInv (r\<lparr>crEntries := m\<rparr>)" by blast
  obtain c e r' where
    r': "attachEntry key (r\<lparr>crEntries := m\<rparr>) = (Some c, r')" "registryCore r'"
      "crEntries r' = put key e (crEntries (r\<lparr>crEntries := m\<rparr>))" "liveEntry r' e"
    by (rule attachEntry_core [OF registryInv_core [OF m(2)] False])
  have "\<not> idleEntry e" using r'(4) by (simp add: liveEntry_def idleEntry_def)
  with idleCount_put_live [of e key m] m(2) r' show ?thesis
    by (simp add: initCancel_attach [OF False] m(1) registryInv_def)
qed

section \<open>Sequences of calls\<close>

datatype cancel_call =
    CInit time string
  | CRequest time time string
  | CReset string
  | CRelease string

fun runCall :: "cancel_call \<Rightarrow> cancel_registry \<Rightarrow> cancel_registry" where
  "runCall (CInit now k) r = snd (initCancel now k r)"
| "runCall (CRequest now pruned k) r = requestCancel now pruned k r"
| "runCall (CReset k) r = resetIfIdle k r"
| "runCall (CRelease k) r = releaseCancel k r"

fun clockOK :: "cancel_call \<Rightarrow> bool" where
  "clockOK (CRequest now _ _) = (now \<noteq> zero_time)"
| "clockOK _ = True"

text \<open>What the calls promise: how much work is attached to a key.\<close>

fun workStep :: "cancel_call \<Rightarrow> (string \<Rightarrow> nat) \<Rightarrow> string \<Rightarrow> nat" where
  "workStep (CInit _ k) w = (if k = '''' then w else w(k := w k + 1))"
| "workStep (CRelease k) w = w(k := w k - 1)"
| "workStep _ w = w"

definition refsOf :: "cancel_registry \<Rightarrow> string \<Rightarrow> int" where
  "refsOf r k = (case map_of (crEntries r) k of None \<Rightarrow> 0 | Some e \<Rightarrow> ceRefs e)"

lemma runCall_inv: "registryInv r \<Longrightarrow> clockOK c \<Longrightarrow> registryInv (runCall c r)"
  by (cases c) (simp_all add: initCancel_inv requestCancel_inv resetIfIdle_inv releaseCancel_inv)

lemma runCalls_inv: "registryInv r \<Longrightarrow> list_all clockOK cs \<Longrightarrow> registryInv (fold runCall cs r)"
  by (induction cs arbitrary: r) (simp_all add: runCall_inv)

lemma refsOf_swept:
  assumes core: "registryCore r" and swept: "sweptFrom (crEntries r) m"
  shows "refsOf (r\<lparr>crEntries := m\<rparr>) k = refsOf r k"
proof (cases "map_of m k")
  case (Some e)
  with sweptFrom_map(2) [OF swept registryCore_D(1) [OF core] Some] show ?thesis by (simp add: refsOf_def)
next
  case None
  show ?thesis
  proof (cases "map_of (crEntries r) k")
    case (Some e)
    with None sweptFrom_map(3) [OF swept registryCore_D(1) [OF core] Some] have "\<not> claimed e" by auto
    with registryCore_D(3) [OF core Some] have "idleEntry e" using live_claimed by blast
    with Some None show ?thesis by (simp add: refsOf_def idleEntry_def)
  qed (simp add: refsOf_def None)
qed

lemma refsOf_prune: "registryCore r \<Longrightarrow> refsOf (pruneLocked now r) k = refsOf r k"
  by (rule prune_core [of r now]) (simp_all add: refsOf_swept)

lemma refsOf_init:
  assumes I: "registryInv r" and key: "key \<noteq> ''''"
  shows "refsOf (snd (initCancel now key r)) k = refsOf r k + (if k = key then 1 else 0)"
proof -
  obtain m where m: "pruneLocked now r = r\<lparr>crEntries := m\<rparr>" "sweptFrom (crEntries r) m" "registryInv (r\<lparr>crEntries := m\<rparr>)"
    by (rule prune_core [OF registryInv_core [OF I], of now])
  obtain c e r' where r': "attachEntry key (r\<lparr>crEntries := m\<rparr>) = (Some c, r')"
    "crEntries r' = put key e (crEntries (r\<lparr>crEntries := m\<rparr>))"
    "ceRefs e = (case map_of (crEntries (r\<lparr>crEntries := m\<rparr>)) key of None \<Rightarrow> 1 | Some a \<Rightarrow> ceRefs a + 1)"
    by (rule attachEntry_core [OF registryInv_core [OF m(3)] key])
  have "refsOf r' k = refsOf (r\<lparr>crEntries := m\<rparr>) k + (if k = key then 1 else 0)"
    using r'(2,3) by (simp add: refsOf_def split: option.splits)
  then show ?thesis using refsOf_swept [OF registryInv_core [OF I] m(2)] r'(1)
    by (simp add: initCancel_attach [OF key] m(1))
qed

lemma refsOf_request:
  assumes I: "registryInv r" and now: "now \<noteq> zero_time"
  shows "refsOf (requestCancel now pruned key r) k = refsOf r k"
proof (cases "key = ''''")
  case False
  obtain r1 e where r1: "requestCancel now pruned key r = pruneLocked pruned r1" "registryCore r1"
    "crEntries r1 = put key e (crEntries r)" "\<forall>a. map_of (crEntries r) key = Some a \<longrightarrow> e = a\<lparr>ceCanceled := True\<rparr>"
    "map_of (crEntries r) key = None \<longrightarrow> idleEntry e \<and> ceTombstonedAt e = now"
    by (rule requestCancel_step_core [OF registryInv_core [OF I] now False, where pruned = pruned])
  have "refsOf r1 k = refsOf r k"
    using r1(3-5) by (auto simp: refsOf_def idleEntry_def split: option.splits)
  with refsOf_prune [OF r1(2)] r1(1) show ?thesis by simp
qed (simp add: requestCancel_def)

lemma runCall_work:
  assumes I: "registryInv r" and clock: "clockOK c" and w: "\<And>k. refsOf r k = int (w k)"
  shows "refsOf (runCall c r) k = int (workStep c w k)"
proof (cases c)
  case (CInit now key)
  with refsOf_init [OF I, of key now k] w show ?thesis by (cases "key = ''''") (auto simp: initCancel_def)
next
  case (CRequest now pruned key)
  with clock refsOf_request [OF I] w show ?thesis by simp
next
  case (CReset key)
  show ?thesis
  proof (cases "k = key \<and> map_of (crEntries r) key \<noteq> None")
    case True
    then obtain e where e: "k = key" "map_of (crEntries r) key = Some e" by blast
    with w [of key] have "ceRefs e = int (w key)" by (simp add: refsOf_def)
    then show ?thesis using e registryCore_D(2) [OF registryInv_core [OF I] e(2)] by (auto simp: CReset resetIfIdle_def refsOf_def)
  next
    case False
    then show ?thesis using w [of k] by (auto simp: CReset resetIfIdle_def refsOf_def split: option.splits)
  qed
next
  case (CRelease key)
  show ?thesis
  proof (cases "map_of (crEntries r) key")
    case None
    with w [of key] w [of k] show ?thesis by (auto simp: CRelease releaseCancel_def refsOf_def)
  next
    case (Some e)
    with w [of key] have "ceRefs e = int (w key)" by (simp add: refsOf_def)
    then show ?thesis using Some w [of k] registryCore_D(2) [OF registryInv_core [OF I] Some]
      by (auto simp: CRelease releaseCancel_def refsOf_def Let_def)
  qed
qed

lemma runCalls_work:
  "registryInv r \<Longrightarrow> list_all clockOK cs \<Longrightarrow> (\<And>k. refsOf r k = int (w k)) \<Longrightarrow>
   refsOf (fold runCall cs r) k = int (fold workStep cs w k)"
proof (induction cs arbitrary: r w)
  case (Cons c cs)
  from Cons.prems(2) have c: "clockOK c" "list_all clockOK cs" by simp_all
  from Cons.IH [OF runCall_inv [OF Cons.prems(1) c(1)] c(2), of "workStep c w"]
    runCall_work [OF Cons.prems(1) c(1) Cons.prems(3)] show ?case by simp
qed simp

lemma registryInv_idle: "registryInv r \<Longrightarrow> length (filter (\<lambda>p. ceRefs (snd p) \<le> 0) (crEntries r)) \<le> cancelRegistryMaxEntries"
proof -
  assume I: "registryInv r"
  have "idleEntry e" if "(k, e) \<in> set (crEntries r)" "ceRefs e \<le> 0" for k e
    using that registryCore_D(3) [OF registryInv_core [OF I], of k e] in_set_map_of [OF registryCore_D(1) [OF registryInv_core [OF I]]]
    by (auto simp: liveEntry_def)
  then have "filter (\<lambda>p. ceRefs (snd p) \<le> 0) (crEntries r) = filter (\<lambda>p. idleEntry (snd p)) (crEntries r)"
    by (intro filter_cong) (auto simp: idleEntry_def)
  then show ?thesis using I by (simp add: registryInv_def idleCount_def)
qed

text \<open>
  The registry counts the attached work exactly and stays bounded. After any sequence of
  calls (init, cancel, reset, release) on a fresh registry, the reference count kept for a key
  is the number of inits not yet matched by a release, releases of idle keys counting for
  nothing and no sweep ever dropping an entry that work holds; and at most 1,024 entries exist
  only to remember a cancel.
\<close>
theorem cancel_work_counted:
  assumes "list_all clockOK cs"
  shows "refsOf (fold runCall cs emptyRegistry) k = int (fold workStep cs (\<lambda>_. 0) k) \<and>
    length (filter (\<lambda>p. ceRefs (snd p) \<le> 0) (crEntries (fold runCall cs emptyRegistry))) \<le> cancelRegistryMaxEntries"
  using runCalls_work [OF registryInv_empty assms, of "\<lambda>_. 0"] registryInv_idle [OF runCalls_inv [OF registryInv_empty assms]]
  by (simp add: refsOf_def emptyRegistry_def)

theorem cancel_work_counted_witness:
  "refsOf (fold runCall [CRequest 1 1 ''a'', CInit 2 ''a'', CInit 3 ''a'', CRelease ''a''] emptyRegistry) ''a'' = 1"
  using cancel_work_counted [of "[CRequest 1 1 ''a'', CInit 2 ''a'', CInit 3 ''a'', CRelease ''a'']" "''a''"] by (simp add: zero_time_def)

text \<open>Work that stays attached keeps its context, and a cancel of it stays known.\<close>

definition keepsWork :: "cancel_entry \<Rightarrow> cancel_entry option \<Rightarrow> bool" where
  "keepsWork e o' \<longleftrightarrow> (\<exists>e'. o' = Some e' \<and> ceCtx e' = ceCtx e \<and> (ceCanceled e \<longrightarrow> ceCanceled e'))"

lemma keepsWork_refl [simp]: "keepsWork e (Some e)"
  by (simp add: keepsWork_def)

lemma live_init:
  assumes I: "registryInv r" and e: "map_of (crEntries r) k = Some e" "0 < ceRefs e"
  shows "keepsWork e (map_of (crEntries (snd (initCancel now key r))) k)"
proof (cases "key = ''''")
  case True
  with e show ?thesis by (simp add: initCancel_def)
next
  case False
  obtain m where m: "pruneLocked now r = r\<lparr>crEntries := m\<rparr>" "sweptFrom (crEntries r) m" "registryInv (r\<lparr>crEntries := m\<rparr>)"
    by (rule prune_core [OF registryInv_core [OF I], of now])
  have live: "liveEntry r e" using registryCore_D(3) [OF registryInv_core [OF I] e(1)] e(2) by (auto simp: idleEntry_def)
  then obtain c0 where c0: "ceCtx e = Some c0" by (auto simp: liveEntry_def)
  have mk: "map_of m k = Some e"
    by (rule sweptFrom_map(3) [OF m(2) registryCore_D(1) [OF registryInv_core [OF I]] e(1) live_claimed [OF live]])
  obtain c e' r' where r': "attachEntry key (r\<lparr>crEntries := m\<rparr>) = (Some c, r')"
    "crEntries r' = put key e' (crEntries (r\<lparr>crEntries := m\<rparr>))" "ceCtx e' = Some c"
    "ceCanceled e' \<longleftrightarrow> (\<exists>a. map_of (crEntries (r\<lparr>crEntries := m\<rparr>)) key = Some a \<and> ceCanceled a)"
    "\<forall>a c'. map_of (crEntries (r\<lparr>crEntries := m\<rparr>)) key = Some a \<longrightarrow> ceCtx a = Some c' \<longrightarrow> c = c'"
    by (rule attachEntry_core [OF registryInv_core [OF m(3)] False])
  show ?thesis using r'(1-5) mk c0
    by (cases "k = key") (simp_all add: initCancel_attach [OF False] m(1) keepsWork_def)
qed

lemma live_request:
  assumes I: "registryInv r" and now: "now \<noteq> zero_time" and e: "map_of (crEntries r) k = Some e" "0 < ceRefs e"
  shows "keepsWork e (map_of (crEntries (requestCancel now pruned key r)) k) \<and>
    (key = k \<longrightarrow> isCancelled k (requestCancel now pruned key r))"
proof (cases "key = ''''")
  case True
  with e registryCore_D(2) [OF registryInv_core [OF I] e(1)] show ?thesis by (auto simp: requestCancel_def)
next
  case False
  obtain r1 e1 where r1: "requestCancel now pruned key r = pruneLocked pruned r1" "registryCore r1"
    "crEntries r1 = put key e1 (crEntries r)" "ceCanceled e1" "\<forall>a. map_of (crEntries r) key = Some a \<longrightarrow> e1 = a\<lparr>ceCanceled := True\<rparr>"
    by (rule requestCancel_step_core [OF registryInv_core [OF I] now False, where pruned = pruned])
  obtain m where m: "pruneLocked pruned r1 = r1\<lparr>crEntries := m\<rparr>" "sweptFrom (crEntries r1) m"
    by (rule prune_core [OF r1(2), of pruned])
  define e2 where "e2 = (if k = key then e1 else e)"
  have k2: "map_of (crEntries r1) k = Some e2" using e(1) by (simp add: e2_def r1(3))
  have e2: "0 < ceRefs e2" "ceCtx e2 = ceCtx e" "ceCanceled e \<longrightarrow> ceCanceled e2" "key = k \<longrightarrow> ceCanceled e2"
    using e r1(4,5) by (auto simp: e2_def)
  have "liveEntry r1 e2" using registryCore_D(3) [OF r1(2) k2] e2(1) by (auto simp: idleEntry_def)
  then have "map_of m k = Some e2"
    by (rule sweptFrom_map(3) [OF m(2) registryCore_D(1) [OF r1(2)] k2 live_claimed])
  then have "keepsWork e (map_of (crEntries (r1\<lparr>crEntries := m\<rparr>)) k)" "key = k \<longrightarrow> isCancelled k (r1\<lparr>crEntries := m\<rparr>)"
    using e2 False by (auto simp: keepsWork_def isCancelled_def)
  then show ?thesis unfolding r1(1) m(1) by simp
qed

lemma live_call:
  assumes I: "registryInv r" and clock: "clockOK c" and e: "map_of (crEntries r) k = Some e"
    and more: "(if c = CRelease k then 1 else 0) < ceRefs e"
  shows "keepsWork e (map_of (crEntries (runCall c r)) k)"
proof (cases c)
  case (CInit now key)
  with live_init [OF I e] more show ?thesis by simp
next
  case (CRequest now pruned key)
  with live_request [OF I _ e] more clock show ?thesis by simp
next
  case (CReset key)
  with e more show ?thesis by (auto simp: resetIfIdle_def keepsWork_def split: option.splits)
next
  case (CRelease key)
  with e more show ?thesis by (cases "key = k") (auto simp: releaseCancel_def keepsWork_def Let_def split: option.splits)
qed

definition releasesOf :: "string \<Rightarrow> cancel_call list \<Rightarrow> nat" where
  "releasesOf k cs = length (filter (\<lambda>c. c = CRelease k) cs)"

lemma refsOf_call_ge:
  assumes I: "registryInv r" and clock: "clockOK c"
  shows "refsOf r k - (if c = CRelease k then 1 else 0) \<le> refsOf (runCall c r) k"
proof -
  have "refsOf r k' = int (nat (refsOf r k'))" for k'
    using registryCore_D(3) [OF registryInv_core [OF I], of k'] by (auto simp: refsOf_def liveEntry_def idleEntry_def split: option.splits)
  from runCall_work [OF I clock this, of k] show ?thesis by (cases c) auto
qed

lemma live_calls:
  "registryInv r \<Longrightarrow> list_all clockOK cs \<Longrightarrow> map_of (crEntries r) k = Some e \<Longrightarrow> int (releasesOf k cs) < ceRefs e \<Longrightarrow>
   keepsWork e (map_of (crEntries (fold runCall cs r)) k) \<and> ceRefs e - int (releasesOf k cs) \<le> refsOf (fold runCall cs r) k"
proof (induction cs arbitrary: r e)
  case Nil
  then show ?case by (simp add: refsOf_def releasesOf_def)
next
  case (Cons c cs)
  let ?d = "if c = CRelease k then 1 else 0 :: int"
  have rel: "int (releasesOf k (c # cs)) = ?d + int (releasesOf k cs)" by (simp add: releasesOf_def)
  from Cons.prems(2) have c: "clockOK c" "list_all clockOK cs" by simp_all
  have "?d < ceRefs e" using Cons.prems(4) rel by simp
  from live_call [OF Cons.prems(1) c(1) Cons.prems(3) this] obtain e' where
    e': "map_of (crEntries (runCall c r)) k = Some e'" "ceCtx e' = ceCtx e" "ceCanceled e \<longrightarrow> ceCanceled e'"
    by (auto simp: keepsWork_def)
  have "ceRefs e - ?d \<le> ceRefs e'"
    using refsOf_call_ge [OF Cons.prems(1) c(1), of k] Cons.prems(3) e'(1) by (simp add: refsOf_def)
  with Cons.IH [OF runCall_inv [OF Cons.prems(1) c(1)] c(2) e'(1)] Cons.prems(4) rel e'(2,3)
  show ?case by (auto simp: keepsWork_def)
qed

lemma init_live:
  assumes I: "registryInv r" and key: "key \<noteq> ''''"
  obtains c e where "initCancel now key r = (Some c, snd (initCancel now key r))"
    and "map_of (crEntries (snd (initCancel now key r))) key = Some e" and "ceCtx e = Some c" and "0 < ceRefs e"
    and "liveEntry (snd (initCancel now key r)) e"
    and "ceCanceled e \<longleftrightarrow> (\<exists>a. map_of (crEntries (pruneLocked now r)) key = Some a \<and> ceCanceled a)"
proof -
  obtain m where m: "pruneLocked now r = r\<lparr>crEntries := m\<rparr>" "registryInv (r\<lparr>crEntries := m\<rparr>)"
    by (rule prune_core [OF registryInv_core [OF I], of now])
  obtain c e r' where r': "attachEntry key (r\<lparr>crEntries := m\<rparr>) = (Some c, r')"
    "crEntries r' = put key e (crEntries (r\<lparr>crEntries := m\<rparr>))" "liveEntry r' e" "ceCtx e = Some c"
    "ceCanceled e \<longleftrightarrow> (\<exists>a. map_of (crEntries (r\<lparr>crEntries := m\<rparr>)) key = Some a \<and> ceCanceled a)"
    by (rule attachEntry_core [OF registryInv_core [OF m(2)] key])
  have eq: "initCancel now key r = (Some c, r')" by (simp add: initCancel_attach [OF key] m(1) r'(1))
  have "0 < ceRefs e" using r'(3) by (simp add: liveEntry_def)
  then show ?thesis by (intro that [of c e]) (use eq r' m(1) in simp_all)
qed

lemma cancelled_context:
  assumes I: "registryInv r" and e: "map_of (crEntries r) k = Some e" "ceCanceled e" "ceCtx e = Some c"
  shows "isCancelled k r \<and> c \<in> set (crCancelled r) \<and> cancelContext k r = Some c"
  using registryCore_D(2,3) [OF registryInv_core [OF I] e(1)] e
  by (auto simp: isCancelled_def cancelContext_def liveEntry_def idleEntry_def)

text \<open>
  C26: A cancel reaches the work. Whatever was called before, when an init of a key returned
  the context c, then other calls follow, then a cancel of the key, and any calls after it,
  and the key is not released more often than it was attached before that init, then c is
  cancelled, the key reads as cancelled, and its context is still c.
\<close>
theorem cancel_reaches_work:
  assumes clocks: "list_all clockOK (before @ between @ CRequest now pruned k # after)" and key: "k \<noteq> ''''"
    and got: "initCancel t k (fold runCall before emptyRegistry) = (Some c, r1)"
    and rel: "releasesOf k (between @ after) \<le> fold workStep before (\<lambda>_. 0) k"
  shows "isCancelled k (fold runCall (between @ CRequest now pruned k # after) r1) \<and>
    c \<in> set (crCancelled (fold runCall (between @ CRequest now pruned k # after) r1)) \<and>
    cancelContext k (fold runCall (between @ CRequest now pruned k # after) r1) = Some c"
proof -
  let ?r0 = "fold runCall before emptyRegistry"
  let ?r2 = "fold runCall between r1"
  let ?r3 = "requestCancel now pruned k ?r2"
  have cl: "list_all clockOK before" "list_all clockOK between" "now \<noteq> zero_time" "list_all clockOK after" using clocks by simp_all
  have I0: "registryInv ?r0" by (rule runCalls_inv [OF registryInv_empty cl(1)])
  have w0: "refsOf ?r0 k = int (fold workStep before (\<lambda>_. 0) k)"
    by (rule runCalls_work [OF registryInv_empty cl(1)]) (simp add: refsOf_def emptyRegistry_def)
  have r1: "r1 = snd (initCancel t k ?r0)" using got by simp
  have I1: "registryInv r1" unfolding r1 by (rule initCancel_inv [OF I0])
  obtain c' e where e': "initCancel t k ?r0 = (Some c', snd (initCancel t k ?r0))"
    "map_of (crEntries (snd (initCancel t k ?r0))) k = Some e" "ceCtx e = Some c'"
    by (rule init_live [OF I0 key, of t])
  from e'(1) got have "c' = c" by simp
  with e' r1 have e: "map_of (crEntries r1) k = Some e" "ceCtx e = Some c" by simp_all
  have refs: "ceRefs e = refsOf ?r0 k + 1" using refsOf_init [OF I0 key, of t k] e(1) r1 by (simp add: refsOf_def)
  have split: "releasesOf k (between @ after) = releasesOf k between + releasesOf k after" by (simp add: releasesOf_def)
  from rel split w0 refs have "int (releasesOf k between) < ceRefs e" by simp
  from live_calls [OF I1 cl(2) e(1) this] obtain e2 where e2: "map_of (crEntries ?r2) k = Some e2" "ceCtx e2 = Some c"
    "ceRefs e - int (releasesOf k between) \<le> ceRefs e2"
    using e(2) by (auto simp: keepsWork_def refsOf_def)
  have I2: "registryInv ?r2" by (rule runCalls_inv [OF I1 cl(2)])
  have I3: "registryInv ?r3" by (rule requestCancel_inv [OF I2 cl(3)])
  have more: "int (releasesOf k after) < ceRefs e2" using rel split w0 refs e2(3) by simp
  then have "0 < ceRefs e2" by simp
  from live_request [OF I2 cl(3) e2(1) this, of pruned k] e2(2) key obtain e3 where
    e3: "map_of (crEntries ?r3) k = Some e3" "ceCtx e3 = Some c" "ceCanceled e3"
    by (auto simp: keepsWork_def isCancelled_def)
  have "ceRefs e3 = ceRefs e2"
    using refsOf_request [OF I2 cl(3), of pruned k k] e2(1) e3(1) by (simp add: refsOf_def)
  with more have "int (releasesOf k after) < ceRefs e3" by simp
  from live_calls [OF I3 cl(4) e3(1) this] obtain e4 where
    e4: "map_of (crEntries (fold runCall after ?r3)) k = Some e4" "ceCanceled e4" "ceCtx e4 = Some c"
    using e3 by (auto simp: keepsWork_def)
  from cancelled_context [OF runCalls_inv [OF I3 cl(4)] e4] show ?thesis by simp
qed

theorem cancel_reaches_work_witness:
  "isCancelled ''a'' (fold runCall ([CRelease ''a''] @ CRequest 4 4 ''a'' # [CInit 5 ''b'']) (snd (initCancel 3 ''a'' (fold runCall [CInit 2 ''a''] emptyRegistry))))"
  using cancel_reaches_work [of "[CInit 2 ''a'']" "[CRelease ''a'']" 4 4 "''a''" "[CInit 5 ''b'']" 3 0
      "snd (initCancel 3 ''a'' (fold runCall [CInit 2 ''a''] emptyRegistry))"]
  by (simp add: zero_time_def initCancel_def pruneLocked_def emptyRegistry_def evictLoop.simps cancelRegistryMaxEntries_def
      expired_def claimed_def releasesOf_def)

text \<open>
  A cancel that arrives before its work is honoured, and a reset withdraws it. In any
  reachable registry that has no entry for a key and fewer than 1,024 entries: after a
  cancel of the key, an init less than two minutes later returns a context that is already
  cancelled; when the key is reset in between, the init returns one that is not, and the key
  does not read as cancelled.
\<close>
theorem cancel_before_start:
  assumes clocks: "list_all clockOK (before @ [CRequest now now k])" and key: "k \<noteq> ''''"
    and room: "length (crEntries (fold runCall before emptyRegistry)) < cancelRegistryMaxEntries"
    and fresh: "map_of (crEntries (fold runCall before emptyRegistry)) k = None"
    and soon: "t - now < cancelTombstoneTTL"
  shows "(\<exists>c r. initCancel t k (fold runCall (before @ [CRequest now now k]) emptyRegistry) = (Some c, r) \<and>
       c \<in> set (crCancelled r) \<and> isCancelled k r) \<and>
    (\<exists>c r. initCancel t k (fold runCall (before @ [CRequest now now k, CReset k]) emptyRegistry) = (Some c, r) \<and>
       c \<notin> set (crCancelled r) \<and> \<not> isCancelled k r)"
proof -
  let ?r0 = "fold runCall before emptyRegistry"

  let ?r1 = "requestCancel now now k ?r0"
  have I0: "registryInv ?r0" and now: "now \<noteq> zero_time" using clocks by (auto intro: runCalls_inv registryInv_empty)
  have I1: "registryInv ?r1" by (rule requestCancel_inv [OF I0 now])
  note wf0 = registryCore_D(1) [OF registryInv_core [OF I0]]
  obtain r1 e where r1: "?r1 = pruneLocked now r1" "registryCore r1" "crEntries r1 = put k e (crEntries ?r0)"
    "ceCanceled e" "map_of (crEntries ?r0) k = None \<longrightarrow> idleEntry e \<and> ceTombstonedAt e = now"
    by (rule requestCancel_step_core [OF registryInv_core [OF I0] now key, where pruned = now])
  have len1: "length (crEntries r1) \<le> cancelRegistryMaxEntries" using room fresh r1(3) by (simp add: length_put_None)
  obtain m where m: "pruneLocked now r1 = r1\<lparr>crEntries := m\<rparr>"
    "length (crEntries r1) \<le> cancelRegistryMaxEntries \<longrightarrow> m = filter (\<lambda>p. \<not> expired now (snd p)) (crEntries r1)"
    by (rule prune_core [OF r1(2), of now]) blast
  have ents: "crEntries ?r1 = filter (\<lambda>p. \<not> expired now (snd p)) (put k e (crEntries ?r0))"
    using m len1 r1(1,3) by simp
  have alive: "\<not> expired t' e" if "t' - now < cancelTombstoneTTL" for t'
    using r1(5) fresh that by (simp add: expired_def)
  have "\<not> expired now e" by (rule alive) (simp add: cancelTombstoneTTL_def nanos_per_second_def)
  then have k1: "map_of (crEntries ?r1) k = Some e" by (simp add: ents map_of_filter wf0)
  have len: "length (crEntries ?r1) \<le> cancelRegistryMaxEntries"
    unfolding ents using len1 unfolding r1(3) by (rule le_trans [OF length_filter_le])
  obtain m' where m': "pruneLocked t ?r1 = ?r1\<lparr>crEntries := m'\<rparr>"
    "length (crEntries ?r1) \<le> cancelRegistryMaxEntries \<longrightarrow> m' = filter (\<lambda>p. \<not> expired t (snd p)) (crEntries ?r1)"
    by (rule prune_core [OF registryInv_core [OF I1], of t]) blast
  have "map_of (crEntries (pruneLocked t ?r1)) k = Some e"
    using m' len k1 alive [OF soon] registryCore_D(1) [OF registryInv_core [OF I1]] by (simp add: map_of_filter)
  moreover obtain c a where ca: "initCancel t k ?r1 = (Some c, snd (initCancel t k ?r1))"
    "map_of (crEntries (snd (initCancel t k ?r1))) k = Some a" "ceCtx a = Some c"
    "ceCanceled a \<longleftrightarrow> (\<exists>b. map_of (crEntries (pruneLocked t ?r1)) k = Some b \<and> ceCanceled b)"
    by (rule init_live [OF I1 key, of t])
  ultimately have first: "\<exists>c r. initCancel t k ?r1 = (Some c, r) \<and> c \<in> set (crCancelled r) \<and> isCancelled k r"
    using cancelled_context [OF initCancel_inv [OF I1, of t k] ca(2) _ ca(3)] r1(4) by auto
  let ?r2 = "resetIfIdle k ?r1"
  have I2: "registryInv ?r2" by (rule resetIfIdle_inv [OF I1])
  have "map_of (crEntries ?r2) k = None"
    using k1 r1(5) fresh key by (simp add: resetIfIdle_def idleEntry_def)
  moreover obtain m2 where m2: "pruneLocked t ?r2 = ?r2\<lparr>crEntries := m2\<rparr>" "sweptFrom (crEntries ?r2) m2"
    by (rule prune_core [OF registryInv_core [OF I2], of t])
  ultimately have none: "map_of (crEntries (pruneLocked t ?r2)) k = None"
    using sweptFrom_map(2) [OF m2(2) registryCore_D(1) [OF registryInv_core [OF I2]], of k] by (cases "map_of m2 k") auto
  obtain c2 a2 where c2: "initCancel t k ?r2 = (Some c2, snd (initCancel t k ?r2))"
    "map_of (crEntries (snd (initCancel t k ?r2))) k = Some a2" "ceCtx a2 = Some c2"
    "liveEntry (snd (initCancel t k ?r2)) a2"
    "ceCanceled a2 \<longleftrightarrow> (\<exists>b. map_of (crEntries (pruneLocked t ?r2)) k = Some b \<and> ceCanceled b)"
    by (rule init_live [OF I2 key, of t])
  from c2(3-5) none have "c2 \<notin> set (crCancelled (snd (initCancel t k ?r2)))" "\<not> ceCanceled a2"
    by (auto simp: liveEntry_def)
  moreover from this(2) c2(2) have "\<not> isCancelled k (snd (initCancel t k ?r2))"
    by (simp add: isCancelled_def)
  ultimately have "\<exists>c r. initCancel t k ?r2 = (Some c, r) \<and> c \<notin> set (crCancelled r) \<and> \<not> isCancelled k r"
    using c2(1) by blast
  with first show ?thesis by simp
qed

theorem cancel_before_start_witness:
  "\<exists>c r. initCancel 5 ''a'' (fold runCall ([] @ [CRequest 3 3 ''a'']) emptyRegistry) = (Some c, r) \<and> c \<in> set (crCancelled r) \<and> isCancelled ''a'' r"
  using cancel_before_start [of "[]" 3 "''a''" 5]
  by (simp add: zero_time_def emptyRegistry_def cancelRegistryMaxEntries_def cancelTombstoneTTL_def nanos_per_second_def)

end
