(* ===== verification/Bytes.thy ===== *)
theory Bytes
  imports Prelude
begin

text \<open>
  Unsigned integers in little-endian byte order (\<open>encoding/binary\<close>'s \<open>LittleEndian\<close>), the
  bits of a flag word, and the case conversions of the \<open>strings\<close> package: an ASCII string
  is converted byte by byte, any other through the Unicode tables, which are a parameter.
\<close>

section \<open>Little-endian integers\<close>

fun le_bytes :: "nat \<Rightarrow> nat \<Rightarrow> string" where
  "le_bytes 0 v = []"
| "le_bytes (Suc n) v = char_of (v mod 256) # le_bytes n (v div 256)"

fun le_value :: "string \<Rightarrow> nat" where
  "le_value [] = 0"
| "le_value (c # s) = of_char c + 256 * le_value s"

text \<open>\<open>PutUint32\<close> and \<open>Uint32\<close>, the latter at a position.\<close>

definition put_u32 :: "nat \<Rightarrow> string" where
  "put_u32 v = le_bytes 4 v"

definition u32_at :: "nat \<Rightarrow> string \<Rightarrow> nat" where
  "u32_at pos s = le_value (take 4 (drop pos s))"

definition flag_set :: "nat \<Rightarrow> nat \<Rightarrow> bool" where
  "flag_set b flags \<longleftrightarrow> odd (flags div 2 ^ b)"

lemma length_le_bytes [simp]: "length (le_bytes n v) = n"
  by (induction n arbitrary: v) simp_all

lemma length_put_u32 [simp]: "length (put_u32 v) = 4"
  by (simp add: put_u32_def)

lemma le_value_le_bytes: "v < 256 ^ n \<Longrightarrow> le_value (le_bytes n v) = v"
proof (induction n arbitrary: v)
  case (Suc n)
  have "v div 256 < 256 ^ n" using Suc.prems by (simp add: less_mult_imp_div_less mult.commute)
  with Suc.IH show ?case by simp
qed simp

lemma le_value_bound: "le_value s < 256 ^ length s"
proof (induction s)
  case (Cons c s)
  have "(of_char c :: nat) < 256" by simp
  moreover have "256 * le_value s + 256 \<le> 256 * 256 ^ length s" using Cons by simp
  ultimately have "of_char c + 256 * le_value s < 256 * 256 ^ length s" by linarith
  then show ?case by simp
qed simp

lemma u32_at_bound: "u32_at pos s < 2 ^ 32"
proof -
  have "le_value (take 4 (drop pos s)) < 256 ^ length (take 4 (drop pos s))" by (rule le_value_bound)
  also have "\<dots> \<le> 256 ^ 4" by (rule power_increasing) simp_all
  finally show ?thesis by (simp add: u32_at_def)
qed

lemma u32_at_append: "length a = pos \<Longrightarrow> v < 2 ^ 32 \<Longrightarrow> u32_at pos (a @ put_u32 v @ b) = v"
  by (simp add: u32_at_def put_u32_def le_value_le_bytes)

lemma u32_at_0: "v < 2 ^ 32 \<Longrightarrow> u32_at 0 (put_u32 v @ b) = v"
  using u32_at_append [of "[]" 0 v b] by simp

section \<open>Case of letters\<close>

definition is_ascii :: "string \<Rightarrow> bool" where
  "is_ascii s \<longleftrightarrow> list_all (\<lambda>c. (of_char c :: nat) < 128) s"

definition ascii_upper :: "char \<Rightarrow> char" where
  "ascii_upper c = (if 97 \<le> (of_char c :: nat) \<and> (of_char c :: nat) \<le> 122 then char_of (of_char c - (32 :: nat)) else c)"

definition to_upper :: "(string \<Rightarrow> string) \<Rightarrow> string \<Rightarrow> string" where
  "to_upper uni s = (if is_ascii s then map ascii_upper s else uni s)"

definition to_lower :: "(string \<Rightarrow> string) \<Rightarrow> string \<Rightarrow> string" where
  "to_lower uni s = (if is_ascii s then map ascii_lower s else uni s)"

text \<open>\<open>n, _ := strconv.Atoi(s)\<close>: 0 for what is not a number, the nearest \<open>int\<close> for one out of range.\<close>

definition atoi :: "string \<Rightarrow> int" where
  "atoi s =
     (let neg = starts_with ''-'' s;
          digits = (if neg \<or> starts_with ''+'' s then tl s else s);
          value = (if neg then - int (read_nat digits) else int (read_nat digits))
      in if digits = '''' \<or> \<not> list_all is_digit digits then 0
         else max (- (2 ^ 63)) (min (2 ^ 63 - 1) value))"

text \<open>\<open>strings.Contains\<close>.\<close>

definition contains :: "string \<Rightarrow> string \<Rightarrow> bool" where
  "contains sub s \<longleftrightarrow> list_ex (\<lambda>i. starts_with sub (drop i s)) [0..<Suc (length s)]"

end
