(* ===== verification/ApeTags.thy ===== *)
theory ApeTags
  imports Bytes
begin

text \<open>
  APEv2 tags (\<open>go_backend/ape_tags.go\<close>, the binary format): the footer at the end of a file,
  before an ID3v1 tag if there is one, the items, the reader, the writer that replaces an
  existing tag. A file is its content, a string of bytes; opening, reading and writing it do
  not fail. Slicing beyond the capacity of a slice panics in Go: a reader that panics has
  the value \<open>None\<close>. The sizes are read as \<open>int\<close>, which here holds every \<open>uint32\<close> (64 bits).
\<close>

section \<open>Data\<close>

definition apeTagPreamble :: string where "apeTagPreamble = ''APETAGEX''"
definition apeTagHeaderSize :: nat where "apeTagHeaderSize = 32"
definition apeTagVersion2 :: nat where "apeTagVersion2 = 2000"
definition apeItemFlagBinary :: nat where "apeItemFlagBinary = 2"

text \<open>Bits 29 and 0 of the flags.\<close>

definition apeTagFlagHeader :: nat where "apeTagFlagHeader = 29"
definition apeTagFlagReadOnly :: nat where "apeTagFlagReadOnly = 0"

record ape_item =
  aiKey :: string
  aiValue :: string
  aiFlags :: nat

record ape_tag =
  atVersion :: nat
  atItems :: "ape_item list"
  atReadOnly :: bool

datatype ape_error =
    ApeFileTooSmall | ApeNoTag | ApeBadOffset | ApeNoPreamble | ApeBadVersion nat | ApeSizeTooSmall nat
  | ApeTooManyItems nat | ApeIsHeader | ApeBeforeStart | ApeEmptyTag | ApeTruncateFailed

section \<open>Reading\<close>

text \<open>\<open>parseAPEItems\<close> on what is left of the data, for the number of items still to read.\<close>

fun parseAPEItems :: "nat \<Rightarrow> string \<Rightarrow> ape_item list option" where
  "parseAPEItems 0 data = Some []"
| "parseAPEItems (Suc n) data =
     (if length data < 8 then Some []
      else
        let valueSize = u32_at 0 data; itemFlags = u32_at 4 data; rest = drop 8 data
        in if valueSize > length rest then Some []
           else
             let key = takeWhile (\<lambda>c. c \<noteq> CHR 0x00) rest
             in if length key \<ge> length rest then Some []
                else
                  let body = drop (length key + 1) rest
                  in if valueSize > length body then None
                     else map_option (\<lambda>items. \<lparr>aiKey = key, aiValue = take valueSize body, aiFlags = itemFlags\<rparr> # items)
                            (parseAPEItems n (drop valueSize body)))"

definition readAPETagAtOffset :: "string \<Rightarrow> int \<Rightarrow> (ape_error + ape_tag) option" where
  "readAPETagAtOffset file footerOffset =
     (if footerOffset < 0 \<or> footerOffset + int apeTagHeaderSize > int (length file) then Some (Inl ApeBadOffset)
      else
        let footer = take apeTagHeaderSize (drop (nat footerOffset) file)
        in if take 8 footer \<noteq> apeTagPreamble then Some (Inl ApeNoPreamble)
           else
             let version = u32_at 8 footer; tagSize = u32_at 12 footer;
                 itemCount = u32_at 16 footer; flags = u32_at 20 footer
             in if version \<noteq> apeTagVersion2 \<and> version \<noteq> 1000 then Some (Inl (ApeBadVersion version))
                else if tagSize < apeTagHeaderSize then Some (Inl (ApeSizeTooSmall tagSize))
                else if itemCount > 1000 then Some (Inl (ApeTooManyItems itemCount))
                else if flag_set apeTagFlagHeader flags then Some (Inl ApeIsHeader)
                else
                  let itemsSize = tagSize - apeTagHeaderSize; itemsOffset = footerOffset - int itemsSize
                  in if itemsOffset < 0 then Some (Inl ApeBeforeStart)
                     else map_option (\<lambda>items. Inr \<lparr>atVersion = version, atItems = items, atReadOnly = flag_set apeTagFlagReadOnly flags\<rparr>)
                            (parseAPEItems itemCount (take itemsSize (drop (nat itemsOffset) file))))"

definition ReadAPETags :: "string \<Rightarrow> (ape_error + ape_tag) option" where
  "ReadAPETags file =
     (if length file < apeTagHeaderSize then Some (Inl ApeFileTooSmall)
      else case readAPETagAtOffset file (int (length file) - int apeTagHeaderSize) of
             None \<Rightarrow> None
           | Some (Inr tag) \<Rightarrow> Some (Inr tag)
           | Some (Inl _) \<Rightarrow>
               if length file > apeTagHeaderSize + 128
               then case readAPETagAtOffset file (int (length file) - int apeTagHeaderSize - 128) of
                      None \<Rightarrow> None
                    | Some (Inr tag) \<Rightarrow> Some (Inr tag)
                    | Some (Inl _) \<Rightarrow> Some (Inl ApeNoTag)
               else Some (Inl ApeNoTag))"

section \<open>Writing\<close>

text \<open>\<open>findExistingAPETagSize\<close>: the size of the tag with its header and what follows it, 0 for none.\<close>

fun findFooter :: "string \<Rightarrow> int list \<Rightarrow> int" where
  "findFooter file [] = 0"
| "findFooter file (offset # offsets) =
     (if offset < 0 \<or> offset + int apeTagHeaderSize > int (length file) then findFooter file offsets
      else
        let footer = take apeTagHeaderSize (drop (nat offset) file)
        in if take 8 footer \<noteq> apeTagPreamble then findFooter file offsets
           else
             let flags = u32_at 20 footer
             in if flag_set apeTagFlagHeader flags then findFooter file offsets
                else int (u32_at 12 footer) + (if flag_set 31 flags then int apeTagHeaderSize else 0)
                     + (int (length file) - (offset + int apeTagHeaderSize)))"

definition findExistingAPETagSize :: "string \<Rightarrow> int" where
  "findExistingAPETagSize file =
     (let fileSize = int (length file)
      in findFooter file
           ((fileSize - int apeTagHeaderSize) #
            (if fileSize > int apeTagHeaderSize + 128 then [fileSize - int apeTagHeaderSize - 128] else [])))"

definition buildAPEHeaderFooter :: "nat \<Rightarrow> nat \<Rightarrow> nat \<Rightarrow> nat \<Rightarrow> string" where
  "buildAPEHeaderFooter version tagSize itemCount flags =
     apeTagPreamble @ put_u32 version @ put_u32 tagSize @ put_u32 itemCount @ put_u32 flags @ replicate 8 (CHR 0x00)"

definition itemBytes :: "ape_item \<Rightarrow> string" where
  "itemBytes item =
     put_u32 (length (aiValue item) mod 2 ^ 32) @ put_u32 (aiFlags item) @ aiKey item @ [CHR 0x00] @ aiValue item"

definition marshalAPETag :: "ape_tag \<Rightarrow> ape_error + string" where
  "marshalAPETag tag =
     (if atItems tag = [] then Inl ApeEmptyTag
      else
        let itemsData = concat (map itemBytes (atItems tag));
            tagSize = (length itemsData + apeTagHeaderSize) mod 2 ^ 32;
            itemCount = length (atItems tag) mod 2 ^ 32;
            version = (if atVersion tag \<noteq> 0 then atVersion tag else apeTagVersion2)
        in Inr (buildAPEHeaderFooter version tagSize itemCount (2 ^ 29 + 2 ^ 31) @ itemsData @
                buildAPEHeaderFooter version tagSize itemCount (2 ^ 31)))"

definition WriteAPETags :: "string \<Rightarrow> ape_tag \<Rightarrow> ape_error + string" where
  "WriteAPETags file tag =
     (let existingSize = findExistingAPETagSize file
      in case marshalAPETag tag of
           Inl e \<Rightarrow> Inl e
         | Inr tagData \<Rightarrow>
             if existingSize > 0 then
               (let newSize = int (length file) - existingSize
                in if newSize < 0 then Inl ApeTruncateFailed
                   else Inr (take (nat newSize) file @ tagData))
             else Inr (file @ tagData))"

section \<open>A written tag is read back\<close>

definition itemOK :: "ape_item \<Rightarrow> bool" where
  "itemOK item \<longleftrightarrow> CHR 0x00 \<notin> set (aiKey item) \<and> length (aiValue item) < 2 ^ 32 \<and> aiFlags item < 2 ^ 32"

definition itemsData :: "ape_tag \<Rightarrow> string" where
  "itemsData tag = concat (map itemBytes (atItems tag))"

definition tagOK :: "ape_tag \<Rightarrow> bool" where
  "tagOK tag \<longleftrightarrow> atItems tag \<noteq> [] \<and> length (atItems tag) \<le> 1000 \<and> list_all itemOK (atItems tag) \<and>
     length (itemsData tag) + apeTagHeaderSize < 2 ^ 32 \<and> atVersion tag \<in> {0, 1000, 2000}"

definition tagVersion :: "ape_tag \<Rightarrow> nat" where
  "tagVersion tag = (if atVersion tag \<noteq> 0 then atVersion tag else apeTagVersion2)"

lemma parse_item:
  assumes "itemOK item"
  shows "parseAPEItems (Suc n) (itemBytes item @ post) = map_option ((#) item) (parseAPEItems n post)"
proof -
  from assms have ok: "\<forall>c \<in> set (aiKey item). c \<noteq> CHR 0x00" "length (aiValue item) < 2 ^ 32" "aiFlags item < 2 ^ 32"
    by (auto simp: itemOK_def)
  let ?rest = "aiKey item @ CHR 0x00 # aiValue item @ post"
  have bytes: "itemBytes item @ post = put_u32 (length (aiValue item)) @ put_u32 (aiFlags item) @ ?rest"
    using ok(2) by (simp add: itemBytes_def)
  have sizes: "u32_at 0 (itemBytes item @ post) = length (aiValue item)" "u32_at 4 (itemBytes item @ post) = aiFlags item"
    using ok(2,3) u32_at_append [of "put_u32 (length (aiValue item))" 4 "aiFlags item" ?rest]
    by (simp_all add: bytes u32_at_0)
  have rest: "drop 8 (itemBytes item @ post) = ?rest" by (simp add: bytes)
  have key: "takeWhile (\<lambda>c. c \<noteq> CHR 0x00) ?rest = aiKey item"
    using ok(1) by (simp add: takeWhile_append2)
  have item: "\<lparr>aiKey = aiKey item, aiValue = aiValue item, aiFlags = aiFlags item\<rparr> = item" by simp
  have long: "\<not> length (itemBytes item @ post) < 8" by (simp add: bytes)
  have data: "parseAPEItems (Suc n) d = map_option ((#) item) (parseAPEItems n post)" if "d = itemBytes item @ post" for d
    using long sizes rest unfolding that [symmetric] by (simp add: key Let_def item)
  show ?thesis by (rule data [OF refl])
qed

lemma parse_items:
  "list_all itemOK items \<Longrightarrow> parseAPEItems (length items) (concat (map itemBytes items)) = Some items"
proof (induction items)
  case (Cons item items)
  then show ?case using parse_item [of item "length items" "concat (map itemBytes items)"] by simp
qed simp

lemma length_header [simp]: "length (buildAPEHeaderFooter v s n f) = 32"
  by (simp add: buildAPEHeaderFooter_def apeTagPreamble_def)

lemma header_fields:
  assumes "v < 2 ^ 32" and "s < 2 ^ 32" and "n < 2 ^ 32" and "f < 2 ^ 32"
  shows "take 8 (buildAPEHeaderFooter v s n f) = apeTagPreamble"
    and "u32_at 8 (buildAPEHeaderFooter v s n f) = v" and "u32_at 12 (buildAPEHeaderFooter v s n f) = s"
    and "u32_at 16 (buildAPEHeaderFooter v s n f) = n" and "u32_at 20 (buildAPEHeaderFooter v s n f) = f"
proof -
  have pre: "length apeTagPreamble = 8" by (simp add: apeTagPreamble_def)
  show "take 8 (buildAPEHeaderFooter v s n f) = apeTagPreamble" by (simp add: buildAPEHeaderFooter_def pre)
  show "u32_at 8 (buildAPEHeaderFooter v s n f) = v"
    unfolding buildAPEHeaderFooter_def by (rule u32_at_append [OF pre assms(1)])
  show "u32_at 12 (buildAPEHeaderFooter v s n f) = s"
    using u32_at_append [of "apeTagPreamble @ put_u32 v" 12 s] assms(2) by (simp add: buildAPEHeaderFooter_def pre)
  show "u32_at 16 (buildAPEHeaderFooter v s n f) = n"
    using u32_at_append [of "apeTagPreamble @ put_u32 v @ put_u32 s" 16 n] assms(3) by (simp add: buildAPEHeaderFooter_def pre)
  show "u32_at 20 (buildAPEHeaderFooter v s n f) = f"
    using u32_at_append [of "apeTagPreamble @ put_u32 v @ put_u32 s @ put_u32 n" 20 f] assms(4)
    by (simp add: buildAPEHeaderFooter_def pre)
qed

definition tagBytes :: "ape_tag \<Rightarrow> string" where
  "tagBytes tag =
     buildAPEHeaderFooter (tagVersion tag) (length (itemsData tag) + 32) (length (atItems tag)) (2 ^ 29 + 2 ^ 31) @
     itemsData tag @
     buildAPEHeaderFooter (tagVersion tag) (length (itemsData tag) + 32) (length (atItems tag)) (2 ^ 31)"

lemma marshal_ok: "tagOK tag \<Longrightarrow> marshalAPETag tag = Inr (tagBytes tag)"
  by (simp add: tagOK_def marshalAPETag_def tagBytes_def tagVersion_def itemsData_def apeTagHeaderSize_def Let_def)

lemma length_tagBytes: "length (tagBytes tag) = length (itemsData tag) + 64"
  by (simp add: tagBytes_def)

text \<open>Where the last tag of a file is.\<close>

lemma footer_at_end:
  assumes "length f = 32"
  shows "take apeTagHeaderSize (drop (nat (int (length (a @ f)) - int apeTagHeaderSize)) (a @ f)) = f"
  using assms by (simp add: apeTagHeaderSize_def nat_diff_distrib')

lemma existing_tagBytes:
  assumes "tagOK tag"
  shows "findExistingAPETagSize (a @ tagBytes tag) = int (length (tagBytes tag))"
proof -
  let ?f = "buildAPEHeaderFooter (tagVersion tag) (length (itemsData tag) + 32) (length (atItems tag)) (2 ^ 31)"
  let ?a = "a @ buildAPEHeaderFooter (tagVersion tag) (length (itemsData tag) + 32) (length (atItems tag)) (2 ^ 29 + 2 ^ 31) @ itemsData tag"
  have content: "a @ tagBytes tag = ?a @ ?f" by (simp add: tagBytes_def)
  have v: "tagVersion tag < 2 ^ 32" "length (itemsData tag) + 32 < 2 ^ 32" "length (atItems tag) < 2 ^ 32"
    using assms by (auto simp: tagOK_def tagVersion_def apeTagVersion2_def apeTagHeaderSize_def)
  note fields = header_fields [OF v, where f = "2 ^ 31"]
  have flags: "\<not> flag_set apeTagFlagHeader (2 ^ 31)" "flag_set 31 (2 ^ 31)"
    by (simp_all add: flag_set_def apeTagFlagHeader_def)
  have len: "int (length (?a @ ?f)) - int apeTagHeaderSize + int apeTagHeaderSize = int (length (?a @ ?f))" by simp
  have pos: "0 \<le> int (length (?a @ ?f)) - int apeTagHeaderSize" by (simp add: apeTagHeaderSize_def)
  show ?thesis
    unfolding content findExistingAPETagSize_def Let_def
    using pos fields(1,3,5) flags
    by (simp only: findFooter.simps footer_at_end [OF length_header] Let_def) (simp add: tagBytes_def apeTagHeaderSize_def)
qed

lemma readAt:
  assumes "0 \<le> off" and "off + 32 \<le> int (length content)" and "take apeTagHeaderSize (drop (nat off) content) = f"
    and "take 8 f = apeTagPreamble" and "u32_at 8 f = v" and "v = apeTagVersion2 \<or> v = 1000"
    and "u32_at 12 f = s + 32" and "u32_at 16 f = n" and "n \<le> 1000" and "u32_at 20 f = fl"
    and "\<not> flag_set apeTagFlagHeader fl" and "int s \<le> off" and "take s (drop (nat (off - int s)) content) = d"
  shows "readAPETagAtOffset content off =
    map_option (\<lambda>items. Inr \<lparr>atVersion = v, atItems = items, atReadOnly = flag_set apeTagFlagReadOnly fl\<rparr>) (parseAPEItems n d)"
proof -
  have sz: "s + 32 - apeTagHeaderSize = s" "\<not> s + 32 < apeTagHeaderSize" by (simp_all add: apeTagHeaderSize_def)
  have range: "\<not> (off < 0 \<or> off + int apeTagHeaderSize > int (length content))" "\<not> off - int s < 0"
    using assms(1,2,12) by (simp_all add: apeTagHeaderSize_def)
  have v: "\<not> (v \<noteq> apeTagVersion2 \<and> v \<noteq> 1000)" and n: "\<not> n > 1000" using assms(6,9) by auto
  show ?thesis
    unfolding readAPETagAtOffset_def Let_def assms(3) assms(4) assms(5) assms(7) assms(8) assms(10) sz(1) assms(13)
    by (simp only: range v n sz(2) assms(11) if_False if_True simp_thms)
qed

lemma read_tagBytes:
  assumes ok: "tagOK tag"
  shows "ReadAPETags (a @ tagBytes tag) =
    Some (Inr \<lparr>atVersion = tagVersion tag, atItems = atItems tag, atReadOnly = False\<rparr>)"
proof -
  let ?f = "buildAPEHeaderFooter (tagVersion tag) (length (itemsData tag) + 32) (length (atItems tag)) (2 ^ 31)"
  let ?h = "a @ buildAPEHeaderFooter (tagVersion tag) (length (itemsData tag) + 32) (length (atItems tag)) (2 ^ 29 + 2 ^ 31)"
  let ?off = "int (length (a @ tagBytes tag)) - int apeTagHeaderSize"
  have content: "a @ tagBytes tag = (?h @ itemsData tag) @ ?f" by (simp add: tagBytes_def)
  have v: "tagVersion tag < 2 ^ 32" "length (itemsData tag) + 32 < 2 ^ 32" "length (atItems tag) < 2 ^ 32"
    using ok by (auto simp: tagOK_def tagVersion_def apeTagVersion2_def apeTagHeaderSize_def)
  have footer: "take apeTagHeaderSize (drop (nat ?off) (a @ tagBytes tag)) = ?f"
    unfolding content by (rule footer_at_end [OF length_header])
  have items: "take (length (itemsData tag)) (drop (nat (?off - int (length (itemsData tag)))) (a @ tagBytes tag)) = itemsData tag"
    by (simp add: tagBytes_def apeTagHeaderSize_def nat_diff_distrib')
  have parsed: "parseAPEItems (length (atItems tag)) (itemsData tag) = Some (atItems tag)"
    using ok parse_items [of "atItems tag"] by (simp add: tagOK_def itemsData_def)
  have checks: "tagVersion tag = apeTagVersion2 \<or> tagVersion tag = 1000" "\<not> length (atItems tag) > 1000"
    "\<not> flag_set apeTagFlagHeader (2 ^ 31)" "\<not> flag_set apeTagFlagReadOnly (2 ^ 31)"
    using ok by (auto simp: tagOK_def tagVersion_def apeTagVersion2_def flag_set_def apeTagFlagHeader_def apeTagFlagReadOnly_def)
  have "readAPETagAtOffset (a @ tagBytes tag) ?off =
    Some (Inr \<lparr>atVersion = tagVersion tag, atItems = atItems tag, atReadOnly = False\<rparr>)"
  proof -
    have f31: "(2::nat) ^ 31 < 2 ^ 32" by simp
    note fields = header_fields [OF v f31]
    have range: "0 \<le> ?off" "?off + 32 \<le> int (length (a @ tagBytes tag))" "int (length (itemsData tag)) \<le> ?off"
      by (simp_all add: length_tagBytes apeTagHeaderSize_def)
    have n: "length (atItems tag) \<le> 1000" using checks(2) by simp
    show ?thesis
      using readAt [OF range(1,2) footer fields(1,2) checks(1) fields(3,4) n fields(5) checks(3) range(3) items] parsed checks(4)
      by simp
  qed
  then show ?thesis by (simp add: ReadAPETags_def length_tagBytes apeTagHeaderSize_def)
qed

fun writeAll :: "string \<Rightarrow> ape_tag list \<Rightarrow> ape_error + string" where
  "writeAll content [] = Inr content"
| "writeAll content (tag # tags) = (case WriteAPETags content tag of Inl e \<Rightarrow> Inl e | Inr content' \<Rightarrow> writeAll content' tags)"

definition untagged :: "string \<Rightarrow> string" where
  "untagged content = take (nat (int (length content) - findExistingAPETagSize content)) content"

lemma findFooter_nonneg: "0 \<le> findFooter content offsets"
  by (induction offsets) (auto simp: Let_def)

lemma write_tagBytes:
  assumes "tagOK tag" and "findExistingAPETagSize content \<le> int (length content)"
  shows "WriteAPETags content tag = Inr (untagged content @ tagBytes tag)"
proof -
  have "0 \<le> findExistingAPETagSize content" unfolding findExistingAPETagSize_def Let_def by (rule findFooter_nonneg)
  then show ?thesis using assms by (auto simp: WriteAPETags_def marshal_ok untagged_def Let_def)
qed

lemma untagged_tagBytes:
  assumes "tagOK tag"
  shows "untagged (a @ tagBytes tag) = a" and "findExistingAPETagSize (a @ tagBytes tag) \<le> int (length (a @ tagBytes tag))"
  by (simp_all add: untagged_def existing_tagBytes [OF assms])

lemma writeAll_last:
  "tags \<noteq> [] \<Longrightarrow> list_all tagOK tags \<Longrightarrow> findExistingAPETagSize content \<le> int (length content) \<Longrightarrow>
   writeAll content tags = Inr (untagged content @ tagBytes (last tags))"
proof (induction tags arbitrary: content)
  case (Cons tag tags)
  then have ok: "tagOK tag" "list_all tagOK tags" by simp_all
  have step: "WriteAPETags content tag = Inr (untagged content @ tagBytes tag)"
    by (rule write_tagBytes [OF ok(1) Cons.prems(3)])
  show ?case
  proof (cases "tags = []")
    case False
    from Cons.IH [OF False ok(2) untagged_tagBytes(2) [OF ok(1)]] step False show ?thesis
      by (simp add: untagged_tagBytes(1) [OF ok(1)])
  qed (simp add: step)
qed simp

text \<open>
  What a file holds before its tag, in words of its own: nothing that opens like a footer stands
  32 bytes before the end, nor 32 bytes before a last block of 128 bytes.
\<close>

definition tagless :: "string \<Rightarrow> bool" where
  "tagless s \<longleftrightarrow> (32 \<le> length s \<longrightarrow> take 8 (drop (length s - 32) s) \<noteq> ''APETAGEX'')
     \<and> (160 < length s \<longrightarrow> take 8 (drop (length s - 160) s) \<noteq> ''APETAGEX'')"

lemma existing_tagless: "tagless s \<Longrightarrow> findExistingAPETagSize s = 0"
proof -
  assume t: "tagless s"
  have a: "\<not> (int (length s) - 32 < 0) \<Longrightarrow> take 8 (take 32 (drop (nat (int (length s) - 32)) s)) \<noteq> ''APETAGEX''"
    using t by (simp add: tagless_def nat_diff_distrib')
  have b: "160 < length s \<Longrightarrow> take 8 (take 32 (drop (nat (int (length s) - 160)) s)) \<noteq> ''APETAGEX''"
    using t by (simp add: tagless_def nat_diff_distrib')
  show ?thesis unfolding findExistingAPETagSize_def Let_def
    using a b by (simp add: apeTagHeaderSize_def apeTagPreamble_def Let_def)
qed

lemma existing_before_id3v1:
  assumes "tagOK tag" "length v1 = 128" "take 8 (drop 96 v1) \<noteq> ''APETAGEX''"
  shows "findExistingAPETagSize (a @ tagBytes tag @ v1) = int (length (tagBytes tag @ v1))"
proof -
  let ?f = "buildAPEHeaderFooter (tagVersion tag) (length (itemsData tag) + 32) (length (atItems tag)) (2 ^ 31)"
  let ?a = "a @ buildAPEHeaderFooter (tagVersion tag) (length (itemsData tag) + 32) (length (atItems tag)) (2 ^ 29 + 2 ^ 31) @ itemsData tag"
  let ?s = "?a @ ?f @ v1"
  have content: "a @ tagBytes tag @ v1 = ?s" by (simp add: tagBytes_def)
  have v: "tagVersion tag < 2 ^ 32" "length (itemsData tag) + 32 < 2 ^ 32" "length (atItems tag) < 2 ^ 32"
    using assms(1) by (auto simp: tagOK_def tagVersion_def apeTagVersion2_def apeTagHeaderSize_def)
  note hf = header_fields [OF v, where f = "2 ^ 31"]
  have flags: "\<not> flag_set apeTagFlagHeader (2 ^ 31)" "flag_set 31 (2 ^ 31)"
    by (simp_all add: flag_set_def apeTagFlagHeader_def)
  have len: "int (length ?s) = int (length ?a) + 160" using assms(2) by simp
  have last: "take 8 (take 32 (drop (nat (int (length ?s) - 32)) ?s)) \<noteq> ''APETAGEX''"
  proof -
    have "nat (int (length ?s) - 32) = length (?a @ ?f) + 96" using assms(2) by simp
    then have "drop (nat (int (length ?s) - 32)) ?s = drop 96 v1" by (simp add: drop_append)
    then show ?thesis using assms(3) by simp
  qed
  have before: "take 32 (drop (nat (int (length ?s) - 32 - 128)) ?s) = ?f"
  proof -
    have "nat (int (length ?s) - 32 - 128) = length ?a" using assms(2) by simp
    then show ?thesis by simp
  qed
  have long: "int (length ?s) > 32 + 128" by (simp add: assms(2))
  show ?thesis
    unfolding content findExistingAPETagSize_def Let_def apeTagHeaderSize_def
    using last before hf(1,3,5) flags long len assms(2)
    by (simp add: apeTagHeaderSize_def apeTagPreamble_def Let_def tagBytes_def)
qed

text \<open>
  C18: Writing replaces. For any audio bytes and any sequence of well-formed tags, the file ends up as
  the audio followed by the serialisation of the last tag alone: when the file had no tag, when it
  had one that this writer made, and when such a tag stood before an ID3v1 tag of 128 bytes, which goes with
  it. Reading the file gives the items and the flags of the items of that last tag, its version, 2000 for
  none given; the read-only flag of a tag is not written and reads as unset.
  Well-formed are 1 to 1,000 items with keys free of the zero byte, sizes that fit 32 bits and
  one of the versions the reader knows.
\<close>
theorem ape_write_read:
  assumes "tags \<noteq> []" and "list_all tagOK tags" and "tagOK old" and "marshalAPETag old = Inr oldData"
    and "length v1 = 128" and "take 8 (drop 96 v1) \<noteq> ''APETAGEX''"
  shows "\<exists>data. marshalAPETag (last tags) = Inr data
    \<and> (tagless audio \<longrightarrow> writeAll audio tags = Inr (audio @ data))
    \<and> writeAll (audio @ oldData) tags = Inr (audio @ data)
    \<and> writeAll (audio @ oldData @ v1) tags = Inr (audio @ data)
    \<and> ReadAPETags (audio @ data) =
      Some (Inr \<lparr>atVersion = (if atVersion (last tags) = 0 then 2000 else atVersion (last tags)),
                 atItems = atItems (last tags), atReadOnly = False\<rparr>)"
proof -
  have ok: "tagOK (last tags)" using assms(1,2) by (simp add: list_all_iff)
  have old: "oldData = tagBytes old" using marshal_ok [OF assms(3)] assms(4) by simp
  have run: "writeAll content tags = Inr (audio @ tagBytes (last tags))"
    if "untagged content = audio" "findExistingAPETagSize content \<le> int (length content)" for content
    using writeAll_last [OF assms(1,2) that(2)] that(1) by simp
  have none: "writeAll audio tags = Inr (audio @ tagBytes (last tags))" if "tagless audio"
    by (rule run) (simp_all add: untagged_def existing_tagless [OF that])
  have one: "writeAll (audio @ oldData) tags = Inr (audio @ tagBytes (last tags))"
    unfolding old by (rule run [OF untagged_tagBytes [OF assms(3)]])
  have two: "writeAll (audio @ oldData @ v1) tags = Inr (audio @ tagBytes (last tags))"
    unfolding old by (rule run) (simp_all add: untagged_def existing_before_id3v1 [OF assms(3,5,6)])
  show ?thesis
    using none one two marshal_ok [OF ok] read_tagBytes [OF ok, of audio]
    by (intro exI [of _ "tagBytes (last tags)"]) (simp add: tagVersion_def apeTagVersion2_def)
qed

definition exTag :: "string \<Rightarrow> ape_tag" where
  "exTag title = \<lparr>atVersion = 0, atItems = [\<lparr>aiKey = ''Title'', aiValue = title, aiFlags = 0\<rparr>], atReadOnly = False\<rparr>"

lemma exTag_ok: "length title < 1000 \<Longrightarrow> tagOK (exTag title)"
  by (simp add: tagOK_def exTag_def itemOK_def itemsData_def itemBytes_def apeTagHeaderSize_def)

theorem ape_write_read_witness:
  "\<exists>data oldData. marshalAPETag (exTag ''Two'') = Inr data \<and> marshalAPETag (exTag ''Old'') = Inr oldData
     \<and> writeAll ''music'' [exTag ''One'', exTag ''Two''] = Inr (''music'' @ data)
     \<and> writeAll (''music'' @ oldData @ ''TAG'' @ replicate 125 (CHR 0x00)) [exTag ''One'', exTag ''Two''] = Inr (''music'' @ data)"
proof -
  let ?v1 = "''TAG'' @ replicate 125 (CHR 0x00)"
  have ok: "tagOK (exTag ''One'')" "tagOK (exTag ''Two'')" "tagOK (exTag ''Old'')" by (rule exTag_ok, simp)+
  have v1: "length ?v1 = 128" "take 8 (drop 96 ?v1) \<noteq> ''APETAGEX''" by code_simp+
  have t: "tagless ''music''" by (simp add: tagless_def)
  show ?thesis
    using ape_write_read [of "[exTag ''One'', exTag ''Two'']" "exTag ''Old''", OF _ _ ok(3) marshal_ok [OF ok(3)] v1, of "''music''"] ok t
      marshal_ok [OF ok(3)]
    by auto
qed

text \<open>
  A corrupt item crashes the reader. In any file whose tag holds one item with a value cut
  short by no more than the length of its key (and the byte that ends it), the size passes the
  check that is made before the key is skipped, the slice of the value then ends beyond the
  data, and the reader panics instead of returning an error.
\<close>
theorem ape_reader_panics:
  assumes key: "CHR 0x00 \<notin> set key"
    and short: "length value < declared" "declared \<le> length key + 1 + length value"
    and small: "length key + length value + 41 < 2 ^ 32" "flags < 2 ^ 32"
  shows "ReadAPETags (audio @ put_u32 declared @ put_u32 flags @ key @ [CHR 0x00] @ value @
    buildAPEHeaderFooter 2000 (length key + length value + 9 + 32) 1 0) = None"
proof -
  let ?d = "put_u32 declared @ put_u32 flags @ key @ [CHR 0x00] @ value"
  let ?f = "buildAPEHeaderFooter 2000 (length key + length value + 9 + 32) 1 0"
  let ?c = "(audio @ ?d) @ ?f"
  let ?off = "int (length ?c) - int apeTagHeaderSize"
  have declared: "declared < 2 ^ 32" using short(2) small(1) by simp
  have size: "u32_at 0 ?d = declared" by (rule u32_at_0 [OF declared])
  have rest: "drop 8 ?d = key @ CHR 0x00 # value" by simp
  have "\<forall>c \<in> set key. c \<noteq> CHR 0x00" using key by auto
  then have takeKey: "takeWhile (\<lambda>c. c \<noteq> CHR 0x00) (key @ CHR 0x00 # value) = key"
    by (simp add: takeWhile_append2)
  have "parseAPEItems (Suc 0) d = None" if "d = ?d" for d
    using size rest short unfolding that [symmetric] by (simp add: takeKey Let_def) (simp add: that)
  then have panic: "parseAPEItems 1 ?d = None" by simp
  have len: "length ?d = length key + length value + 9" by simp
  have range: "0 \<le> ?off" "?off + 32 \<le> int (length ?c)" "int (length key + length value + 9) \<le> ?off"
    by (simp_all add: apeTagHeaderSize_def)
  have fit: "(2000::nat) < 2 ^ 32" "length key + length value + 9 + 32 < 2 ^ 32" "(1::nat) < 2 ^ 32" "(0::nat) < 2 ^ 32"
    using small(1) by simp_all
  note fields = header_fields [OF fit]
  have version: "(2000::nat) = apeTagVersion2 \<or> (2000::nat) = 1000" by (simp add: apeTagVersion2_def)
  have header: "\<not> flag_set apeTagFlagHeader 0" by (simp add: flag_set_def)
  have items: "take (length key + length value + 9) (drop (nat (?off - int (length key + length value + 9))) ?c) = ?d"
    by (simp add: apeTagHeaderSize_def nat_diff_distrib')
  have "readAPETagAtOffset ?c ?off = None"
    using readAt [OF range(1,2) footer_at_end [OF length_header] fields(1,2) version fields(3,4) _ fields(5) header range(3) items] panic
    by simp
  then have "ReadAPETags ?c = None" by (simp add: ReadAPETags_def apeTagHeaderSize_def)
  then show ?thesis by simp
qed

theorem ape_reader_panics_witness:
  "ReadAPETags (''audio'' @ put_u32 6 @ put_u32 0 @ ''Title'' @ [CHR 0x00] @ '''' @ buildAPEHeaderFooter 2000 (5 + 0 + 9 + 32) 1 0) = None"
  using ape_reader_panics [of "''Title''" "''''" 6 0 "''audio''"] by simp

end
