(* ===== verification/ApeMeta.thy ===== *)
theory ApeMeta
  imports ApeTags AuthToken
begin

text \<open>
  Track metadata in APEv2 tags (\<open>go_backend/ape_tags.go\<close>, with \<open>AudioMetadata\<close> and
  \<open>parseIndexPair\<close> of \<open>audio_metadata.go\<close>, \<open>formatIndexValue\<close> of \<open>metadata_m4a.go\<close>,
  \<open>isTruthyTagValue\<close> of \<open>m4a_edit.go\<close>, \<open>audioMetadataFromEditFields\<close> of \<open>wav_aiff.go\<close> and the
  APE branch of \<open>EditFileMetadata\<close> in \<open>exports_metadata.go\<close>). The Unicode case tables are the
  parameters \<open>uniU\<close> and \<open>uniL\<close>.
\<close>

section \<open>Data\<close>

record audio_metadata =
  amTitle :: string
  amArtist :: string
  amAlbum :: string
  amAlbumArtist :: string
  amGenre :: string
  amYear :: string
  amDate :: string
  amTrackNumber :: int
  amTotalTracks :: int
  amDiscNumber :: int
  amTotalDiscs :: int
  amISRC :: string
  amLyrics :: string
  amLabel :: string
  amCopyright :: string
  amComposer :: string
  amComment :: string
  amAlbumType :: string
  amExplicit :: bool
  amUPC :: string
  amTrackGain :: string
  amTrackPeak :: string
  amAlbumGain :: string
  amAlbumPeak :: string

definition emptyMetadata :: audio_metadata where
  "emptyMetadata = \<lparr>amTitle = '''', amArtist = '''', amAlbum = '''', amAlbumArtist = '''', amGenre = '''', amYear = '''',
     amDate = '''', amTrackNumber = 0, amTotalTracks = 0, amDiscNumber = 0, amTotalDiscs = 0, amISRC = '''', amLyrics = '''',
     amLabel = '''', amCopyright = '''', amComposer = '''', amComment = '''', amAlbumType = '''', amExplicit = False, amUPC = '''',
     amTrackGain = '''', amTrackPeak = '''', amAlbumGain = '''', amAlbumPeak = ''''\<rparr>"

definition parseIndexPair :: "string \<Rightarrow> int \<times> int" where
  "parseIndexPair s0 =
     (let s = trim_space s0
      in if s = '''' then (0, 0)
         else
           let pre = takeWhile (\<lambda>c. c \<noteq> CHR ''/'') s;
               split = (length pre < length s \<and> pre \<noteq> '''');
               first = (if split then pre else s);
               second = (if split then drop (length pre + 1) s else '''')
           in (atoi (trim_space first), atoi (trim_space second)))"

definition formatIndexValue :: "int \<Rightarrow> int \<Rightarrow> string" where
  "formatIndexValue number tot =
     (if number \<le> 0 then ''''
      else if tot > 0 then show_int number @ ''/'' @ show_int tot
      else show_int number)"

definition isTruthyTagValue :: "(string \<Rightarrow> string) \<Rightarrow> string \<Rightarrow> bool" where
  "isTruthyTagValue uniL v = (to_lower uniL (trim_space v) \<in> {''1'', ''true'', ''yes'', ''explicit''})"

section \<open>From items to metadata\<close>

text \<open>The switch over the key of an item, and one item of the loop of \<open>APETagToAudioMetadata\<close>.\<close>

definition applyKey :: "(string \<Rightarrow> string) \<Rightarrow> string \<Rightarrow> string \<Rightarrow> audio_metadata \<Rightarrow> audio_metadata" where
  "applyKey uniL key value md =
     (if key = ''TITLE'' then md\<lparr>amTitle := value\<rparr>
      else if key = ''ARTIST'' then md\<lparr>amArtist := value\<rparr>
      else if key = ''ALBUM'' then md\<lparr>amAlbum := value\<rparr>
      else if key = ''ALBUMARTIST'' \<or> key = ''ALBUM ARTIST'' then md\<lparr>amAlbumArtist := value\<rparr>
      else if key = ''GENRE'' then md\<lparr>amGenre := value\<rparr>
      else if key = ''YEAR'' then md\<lparr>amYear := value\<rparr>
      else if key = ''DATE'' then md\<lparr>amDate := value\<rparr>
      else if key = ''TRACK'' \<or> key = ''TRACKNUMBER'' then
        md\<lparr>amTrackNumber := fst (parseIndexPair value), amTotalTracks := snd (parseIndexPair value)\<rparr>
      else if key = ''DISC'' \<or> key = ''DISCNUMBER'' then
        md\<lparr>amDiscNumber := fst (parseIndexPair value), amTotalDiscs := snd (parseIndexPair value)\<rparr>
      else if key = ''ISRC'' then md\<lparr>amISRC := value\<rparr>
      else if key = ''LYRICS'' \<or> key = ''UNSYNCEDLYRICS'' then (if amLyrics md = '''' then md\<lparr>amLyrics := value\<rparr> else md)
      else if key = ''LABEL'' \<or> key = ''PUBLISHER'' then md\<lparr>amLabel := value\<rparr>
      else if key = ''COPYRIGHT'' then md\<lparr>amCopyright := value\<rparr>
      else if key = ''COMPOSER'' then md\<lparr>amComposer := value\<rparr>
      else if key = ''COMMENT'' then md\<lparr>amComment := value\<rparr>
      else if key = ''ITUNESADVISORY'' then md\<lparr>amExplicit := isTruthyTagValue uniL value\<rparr>
      else if key = ''RELEASETYPE'' then md\<lparr>amAlbumType := value\<rparr>
      else if key = ''BARCODE'' \<or> key = ''UPC'' then md\<lparr>amUPC := value\<rparr>
      else if key = ''COMPILATION'' then
        (if isTruthyTagValue uniL value \<and> amAlbumType md = '''' then md\<lparr>amAlbumType := ''compilation''\<rparr> else md)
      else if key = ''REPLAYGAIN_TRACK_GAIN'' then md\<lparr>amTrackGain := value\<rparr>
      else if key = ''REPLAYGAIN_TRACK_PEAK'' then md\<lparr>amTrackPeak := value\<rparr>
      else if key = ''REPLAYGAIN_ALBUM_GAIN'' then md\<lparr>amAlbumGain := value\<rparr>
      else if key = ''REPLAYGAIN_ALBUM_PEAK'' then md\<lparr>amAlbumPeak := value\<rparr>
         else md)"

definition applyItem :: "(string \<Rightarrow> string) \<Rightarrow> (string \<Rightarrow> string) \<Rightarrow> ape_item \<Rightarrow> audio_metadata \<Rightarrow> audio_metadata" where
  "applyItem uniU uniL item md =
     (let key = to_upper uniU (trim_space (aiKey item)); value = trim_space (aiValue item)
      in if value = '''' then md else applyKey uniL key value md)"

definition APETagToAudioMetadata :: "(string \<Rightarrow> string) \<Rightarrow> (string \<Rightarrow> string) \<Rightarrow> ape_item list \<Rightarrow> audio_metadata" where
  "APETagToAudioMetadata uniU uniL items = fold (applyItem uniU uniL) items emptyMetadata"

section \<open>From metadata to items\<close>

definition addItem :: "string \<Rightarrow> string \<Rightarrow> ape_item list" where
  "addItem key value = (if value \<noteq> '''' then [\<lparr>aiKey = key, aiValue = value, aiFlags = 0\<rparr>] else [])"

text \<open>\<open>strings.EqualFold\<close> with a word that has neither k nor s: only ASCII folds to ASCII there.\<close>

definition isCompilation :: "string \<Rightarrow> bool" where
  "isCompilation s \<longleftrightarrow> map ascii_lower (trim_space s) = ''compilation''"

definition AudioMetadataToAPEItems :: "audio_metadata \<Rightarrow> ape_item list" where
  "AudioMetadataToAPEItems md =
     addItem ''Title'' (amTitle md) @ addItem ''Artist'' (amArtist md) @ addItem ''Album'' (amAlbum md) @
     addItem ''Album Artist'' (amAlbumArtist md) @ addItem ''Genre'' (amGenre md) @
     addItem ''Year'' (if amDate md \<noteq> '''' then amDate md else amYear md) @
     (if amTrackNumber md > 0 then addItem ''Track'' (formatIndexValue (amTrackNumber md) (amTotalTracks md)) else []) @
     (if amDiscNumber md > 0 then addItem ''Disc'' (formatIndexValue (amDiscNumber md) (amTotalDiscs md)) else []) @
     addItem ''ISRC'' (amISRC md) @ addItem ''Lyrics'' (amLyrics md) @ addItem ''Label'' (amLabel md) @
     addItem ''Copyright'' (amCopyright md) @ addItem ''Composer'' (amComposer md) @ addItem ''Comment'' (amComment md) @
     (if amExplicit md then addItem ''ITUNESADVISORY'' ''1'' else []) @
     addItem ''RELEASETYPE'' (amAlbumType md) @ addItem ''BARCODE'' (amUPC md) @
     (if isCompilation (amAlbumType md) then addItem ''COMPILATION'' ''1'' else []) @
     addItem ''REPLAYGAIN_TRACK_GAIN'' (amTrackGain md) @ addItem ''REPLAYGAIN_TRACK_PEAK'' (amTrackPeak md) @
     addItem ''REPLAYGAIN_ALBUM_GAIN'' (amAlbumGain md) @ addItem ''REPLAYGAIN_ALBUM_PEAK'' (amAlbumPeak md)"

section \<open>Metadata survives the tag\<close>

lemma digit_plain: "is_digit c \<Longrightarrow> plain_char c"
  by (simp add: is_digit_def plain_char_def)

lemma show_nat_plain: "plain_char (hd (show_nat n))" "plain_char (last (show_nat n))"
  using show_nat_digits [of n] digit_plain by (simp_all)

lemma atoi_show_nat: "int n < 2 ^ 63 \<Longrightarrow> atoi (show_nat n) = int n"
proof -
  assume n: "int n < 2 ^ 63"
  have "list_all is_digit (show_nat n)" using show_nat_digits by (simp add: list_all_iff)
  with n show ?thesis by (simp add: atoi_def show_nat_hd Let_def)
qed

lemma atoi_Nil: "atoi '''' = 0"
  by (simp add: atoi_def starts_with_def)

lemma show_nat_no_slash: "CHR ''/'' \<notin> set (show_nat n)"
  using show_nat_digits [of n] by (auto simp: is_digit_def)

lemma parseIndexPair_format:
  assumes n: "0 < n" "n < 2 ^ 63" and t: "t < 2 ^ 63"
  shows "parseIndexPair (formatIndexValue n t) = (n, if 0 < t then t else 0)"
    and "formatIndexValue n t \<noteq> ''''" and "trim_space (formatIndexValue n t) = formatIndexValue n t"
proof -
  have sn: "show_int n = show_nat (nat n)" using n by (simp add: show_int_def)
  have an: "atoi (show_nat (nat n)) = n" using n by (simp add: atoi_show_nat)
  have tn: "trim_space (show_nat k) = show_nat k" for k by (rule trim_space_plain) (simp add: show_nat_plain)
  show "formatIndexValue n t \<noteq> ''''" using n by (simp add: formatIndexValue_def sn)
  show trimmed: "trim_space (formatIndexValue n t) = formatIndexValue n t"
    using n by (intro trim_space_plain) (simp add: formatIndexValue_def sn show_int_def show_nat_plain)
  show "parseIndexPair (formatIndexValue n t) = (n, if 0 < t then t else 0)"
  proof (cases "0 < t")
    case False
    have s: "formatIndexValue n t = show_nat (nat n)" using n False by (simp add: formatIndexValue_def sn)
    have "\<forall>c \<in> set (show_nat (nat n)). c \<noteq> CHR ''/''" using show_nat_no_slash [of "nat n"] by auto
    then have tw: "takeWhile (\<lambda>c. c \<noteq> CHR ''/'') (show_nat (nat n)) = show_nat (nat n)"
      by (simp only: takeWhile_eq_all_conv)
    have te: "trim_space '''' = ''''" by (rule trim_space_plain) simp
    show ?thesis using False trimmed unfolding s
      by (simp add: parseIndexPair_def Let_def tn an tw te atoi_Nil)
  next
    case True
    have st: "show_int t = show_nat (nat t)" using True by (simp add: show_int_def)
    have at: "atoi (show_nat (nat t)) = t" using True t by (simp add: atoi_show_nat)
    have s: "formatIndexValue n t = show_nat (nat n) @ CHR ''/'' # show_nat (nat t)"
      using n True by (simp add: formatIndexValue_def sn st)
    have "\<forall>c \<in> set (show_nat (nat n)). c \<noteq> CHR ''/''" using show_nat_no_slash [of "nat n"] by auto
    then have "takeWhile (\<lambda>c. c \<noteq> CHR ''/'') (show_nat (nat n) @ CHR ''/'' # show_nat (nat t)) = show_nat (nat n)"
      by (simp add: takeWhile_append2)
    then show ?thesis using True trimmed unfolding s
      by (simp add: parseIndexPair_def Let_def tn an at)
  qed
qed

text \<open>The metadata a reader gets back from the items of some metadata.\<close>

definition asRead :: "audio_metadata \<Rightarrow> audio_metadata" where
  "asRead md = md\<lparr>amYear := (if amDate md \<noteq> '''' then amDate md else amYear md), amDate := '''',
     amTrackNumber := max 0 (amTrackNumber md),
     amTotalTracks := (if amTrackNumber md > 0 then max 0 (amTotalTracks md) else 0),
     amDiscNumber := max 0 (amDiscNumber md),
     amTotalDiscs := (if amDiscNumber md > 0 then max 0 (amTotalDiscs md) else 0)\<rparr>"

definition trimmedMetadata :: "audio_metadata \<Rightarrow> bool" where
  "trimmedMetadata md \<longleftrightarrow> list_all (\<lambda>s. trim_space s = s)
     [amTitle md, amArtist md, amAlbum md, amAlbumArtist md, amGenre md, amYear md, amDate md, amISRC md, amLyrics md,
      amLabel md, amCopyright md, amComposer md, amComment md, amAlbumType md, amUPC md, amTrackGain md, amTrackPeak md,
      amAlbumGain md, amAlbumPeak md] \<and>
   list_all (\<lambda>n. n < 2 ^ 63) [amTrackNumber md, amTotalTracks md, amDiscNumber md, amTotalDiscs md]"

text \<open>A key of printable ASCII characters is upper-cased byte by byte.\<close>

lemma key_upper: "list_all plain_char k \<Longrightarrow> to_upper uniU (trim_space k) = map ascii_upper k"
proof -
  assume k: "list_all plain_char k"
  then have "trim_space k = k" by (intro trim_space_plain) (auto simp: list_all_iff)
  moreover have "is_ascii k" using k by (auto simp: is_ascii_def plain_char_def list_all_iff)
  ultimately show ?thesis by (simp add: to_upper_def)
qed

lemma applyKey_simps:
  "applyKey uniL ''TITLE'' v md = md\<lparr>amTitle := v\<rparr>" "applyKey uniL ''ARTIST'' v md = md\<lparr>amArtist := v\<rparr>"
  "applyKey uniL ''ALBUM'' v md = md\<lparr>amAlbum := v\<rparr>" "applyKey uniL ''ALBUM ARTIST'' v md = md\<lparr>amAlbumArtist := v\<rparr>"
  "applyKey uniL ''GENRE'' v md = md\<lparr>amGenre := v\<rparr>" "applyKey uniL ''YEAR'' v md = md\<lparr>amYear := v\<rparr>"
  "applyKey uniL ''TRACK'' v md = md\<lparr>amTrackNumber := fst (parseIndexPair v), amTotalTracks := snd (parseIndexPair v)\<rparr>"
  "applyKey uniL ''DISC'' v md = md\<lparr>amDiscNumber := fst (parseIndexPair v), amTotalDiscs := snd (parseIndexPair v)\<rparr>"
  "applyKey uniL ''ISRC'' v md = md\<lparr>amISRC := v\<rparr>"
  "applyKey uniL ''LYRICS'' v md = (if amLyrics md = '''' then md\<lparr>amLyrics := v\<rparr> else md)"
  "applyKey uniL ''LABEL'' v md = md\<lparr>amLabel := v\<rparr>" "applyKey uniL ''COPYRIGHT'' v md = md\<lparr>amCopyright := v\<rparr>"
  "applyKey uniL ''COMPOSER'' v md = md\<lparr>amComposer := v\<rparr>" "applyKey uniL ''COMMENT'' v md = md\<lparr>amComment := v\<rparr>"
  "applyKey uniL ''ITUNESADVISORY'' v md = md\<lparr>amExplicit := isTruthyTagValue uniL v\<rparr>"
  "applyKey uniL ''RELEASETYPE'' v md = md\<lparr>amAlbumType := v\<rparr>" "applyKey uniL ''BARCODE'' v md = md\<lparr>amUPC := v\<rparr>"
  "applyKey uniL ''COMPILATION'' v md =
     (if isTruthyTagValue uniL v \<and> amAlbumType md = '''' then md\<lparr>amAlbumType := ''compilation''\<rparr> else md)"
  "applyKey uniL ''REPLAYGAIN_TRACK_GAIN'' v md = md\<lparr>amTrackGain := v\<rparr>"
  "applyKey uniL ''REPLAYGAIN_TRACK_PEAK'' v md = md\<lparr>amTrackPeak := v\<rparr>"
  "applyKey uniL ''REPLAYGAIN_ALBUM_GAIN'' v md = md\<lparr>amAlbumGain := v\<rparr>"
  "applyKey uniL ''REPLAYGAIN_ALBUM_PEAK'' v md = md\<lparr>amAlbumPeak := v\<rparr>"
  by (simp_all add: applyKey_def)

text \<open>The upper-case form of the keys that are written.\<close>

definition upper_key :: "string \<Rightarrow> string" where
  "upper_key k = map ascii_upper k"

lemma upper_keys:
  "upper_key ''Title'' = ''TITLE''" "upper_key ''Artist'' = ''ARTIST''" "upper_key ''Album'' = ''ALBUM''"
  "upper_key ''Album Artist'' = ''ALBUM ARTIST''" "upper_key ''Genre'' = ''GENRE''" "upper_key ''Year'' = ''YEAR''"
  "upper_key ''Track'' = ''TRACK''" "upper_key ''Disc'' = ''DISC''" "upper_key ''ISRC'' = ''ISRC''"
  "upper_key ''Lyrics'' = ''LYRICS''" "upper_key ''Label'' = ''LABEL''" "upper_key ''Copyright'' = ''COPYRIGHT''"
  "upper_key ''Composer'' = ''COMPOSER''" "upper_key ''Comment'' = ''COMMENT''"
  "upper_key ''ITUNESADVISORY'' = ''ITUNESADVISORY''" "upper_key ''RELEASETYPE'' = ''RELEASETYPE''"
  "upper_key ''BARCODE'' = ''BARCODE''" "upper_key ''COMPILATION'' = ''COMPILATION''"
  "upper_key ''REPLAYGAIN_TRACK_GAIN'' = ''REPLAYGAIN_TRACK_GAIN''" "upper_key ''REPLAYGAIN_TRACK_PEAK'' = ''REPLAYGAIN_TRACK_PEAK''"
  "upper_key ''REPLAYGAIN_ALBUM_GAIN'' = ''REPLAYGAIN_ALBUM_GAIN''" "upper_key ''REPLAYGAIN_ALBUM_PEAK'' = ''REPLAYGAIN_ALBUM_PEAK''"
  by code_simp+

text \<open>What an optional item of a trimmed value does to the metadata.\<close>

definition written :: "string \<Rightarrow> bool" where
  "written k \<longleftrightarrow> plain_char (hd k) \<and> plain_char (last k) \<and> is_ascii k"

lemma fold_addItem:
  assumes "written k" and "trim_space v = v"
  shows "fold (applyItem uniU uniL) (addItem k v) md = (if v = '''' then md else applyKey uniL (upper_key k) v md)"
  using assms by (simp add: written_def upper_key_def addItem_def applyItem_def Let_def trim_space_plain to_upper_def)

lemma written_keys [simp]:
  "written ''Title''" "written ''Artist''" "written ''Album''" "written ''Album Artist''"
  "written ''Genre''" "written ''Year''" "written ''Track''" "written ''Disc''"
  "written ''ISRC''" "written ''Lyrics''" "written ''Label''" "written ''Copyright''"
  "written ''Composer''" "written ''Comment''" "written ''ITUNESADVISORY''" "written ''RELEASETYPE''"
  "written ''BARCODE''" "written ''COMPILATION''" "written ''REPLAYGAIN_TRACK_GAIN''" "written ''REPLAYGAIN_TRACK_PEAK''"
  "written ''REPLAYGAIN_ALBUM_GAIN''" "written ''REPLAYGAIN_ALBUM_PEAK''"
  by code_simp+

lemma trimmedD:
  assumes "trimmedMetadata md"
  shows "trim_space (amTitle md) = amTitle md" "trim_space (amArtist md) = amArtist md" "trim_space (amAlbum md) = amAlbum md"
    "trim_space (amAlbumArtist md) = amAlbumArtist md" "trim_space (amGenre md) = amGenre md"
    "trim_space (if amDate md \<noteq> '''' then amDate md else amYear md) = (if amDate md \<noteq> '''' then amDate md else amYear md)"
    "trim_space (amISRC md) = amISRC md" "trim_space (amLyrics md) = amLyrics md" "trim_space (amLabel md) = amLabel md"
    "trim_space (amCopyright md) = amCopyright md" "trim_space (amComposer md) = amComposer md"
    "trim_space (amComment md) = amComment md" "trim_space (amAlbumType md) = amAlbumType md" "trim_space (amUPC md) = amUPC md"
    "trim_space (amTrackGain md) = amTrackGain md" "trim_space (amTrackPeak md) = amTrackPeak md"
    "trim_space (amAlbumGain md) = amAlbumGain md" "trim_space (amAlbumPeak md) = amAlbumPeak md"
    "amTrackNumber md < 2 ^ 63" "amTotalTracks md < 2 ^ 63" "amDiscNumber md < 2 ^ 63" "amTotalDiscs md < 2 ^ 63"
  using assms by (simp_all add: trimmedMetadata_def)

lemma fold_track:
  assumes "n < 2 ^ 63" and "t < 2 ^ 63" and "amTrackNumber md = 0" and "amTotalTracks md = 0"
  shows "fold (applyItem uniU uniL) (if n > 0 then addItem ''Track'' (formatIndexValue n t) else []) md =
    md\<lparr>amTrackNumber := max 0 n, amTotalTracks := (if n > 0 then max 0 t else 0)\<rparr>"
proof (cases "0 < n")
  case True
  note parseIndexPair_format [OF True assms(1,2)]
  with True show ?thesis
    by (simp add: fold_addItem applyKey_simps upper_keys max_def)
next
  case False
  with assms(3,4) show ?thesis by (cases md) simp
qed

lemma fold_disc:
  assumes "n < 2 ^ 63" and "t < 2 ^ 63" and "amDiscNumber md = 0" and "amTotalDiscs md = 0"
  shows "fold (applyItem uniU uniL) (if n > 0 then addItem ''Disc'' (formatIndexValue n t) else []) md =
    md\<lparr>amDiscNumber := max 0 n, amTotalDiscs := (if n > 0 then max 0 t else 0)\<rparr>"
proof (cases "0 < n")
  case True
  note parseIndexPair_format [OF True assms(1,2)]
  with True show ?thesis
    by (simp add: fold_addItem applyKey_simps upper_keys max_def)
next
  case False
  with assms(3,4) show ?thesis by (cases md) simp
qed

lemma one_truthy: "isTruthyTagValue uniL ''1''" and one_trim: "trim_space ''1'' = ''1''"
proof -
  show t: "trim_space ''1'' = ''1''" by (rule trim_space_plain) (simp add: plain_char_def)
  show "isTruthyTagValue uniL ''1''" by (simp add: isTruthyTagValue_def t to_lower_def is_ascii_def ascii_lower_def)
qed

lemma fold_explicit:
  "amExplicit md = False \<Longrightarrow>
   fold (applyItem uniU uniL) (if b then addItem ''ITUNESADVISORY'' ''1'' else []) md = md\<lparr>amExplicit := b\<rparr>"
  by (cases md) (simp add: fold_addItem one_trim applyKey_simps upper_keys one_truthy)

lemma fold_compilation:
  "amAlbumType md \<noteq> '''' \<or> \<not> b \<Longrightarrow>
   fold (applyItem uniU uniL) (if b then addItem ''COMPILATION'' ''1'' else []) md = md"
  by (auto simp: fold_addItem one_trim applyKey_simps upper_keys one_truthy)

lemma compilation_nonempty: "isCompilation s \<Longrightarrow> s \<noteq> ''''"
  using trim_space_plain [of "''''"] by (auto simp: isCompilation_def)

text \<open>An optional item sets its field, to the empty string when it is left out.\<close>

lemma fold_text:
  assumes "trim_space v = v"
  shows "amTitle md = '''' \<Longrightarrow> fold (applyItem uniU uniL) (addItem ''Title'' v) md = md\<lparr>amTitle := v\<rparr>"
    and "amArtist md = '''' \<Longrightarrow> fold (applyItem uniU uniL) (addItem ''Artist'' v) md = md\<lparr>amArtist := v\<rparr>"
    and "amAlbum md = '''' \<Longrightarrow> fold (applyItem uniU uniL) (addItem ''Album'' v) md = md\<lparr>amAlbum := v\<rparr>"
    and "amAlbumArtist md = '''' \<Longrightarrow> fold (applyItem uniU uniL) (addItem ''Album Artist'' v) md = md\<lparr>amAlbumArtist := v\<rparr>"
    and "amGenre md = '''' \<Longrightarrow> fold (applyItem uniU uniL) (addItem ''Genre'' v) md = md\<lparr>amGenre := v\<rparr>"
    and "amYear md = '''' \<Longrightarrow> fold (applyItem uniU uniL) (addItem ''Year'' v) md = md\<lparr>amYear := v\<rparr>"
    and "amISRC md = '''' \<Longrightarrow> fold (applyItem uniU uniL) (addItem ''ISRC'' v) md = md\<lparr>amISRC := v\<rparr>"
    and "amLyrics md = '''' \<Longrightarrow> fold (applyItem uniU uniL) (addItem ''Lyrics'' v) md = md\<lparr>amLyrics := v\<rparr>"
    and "amLabel md = '''' \<Longrightarrow> fold (applyItem uniU uniL) (addItem ''Label'' v) md = md\<lparr>amLabel := v\<rparr>"
    and "amCopyright md = '''' \<Longrightarrow> fold (applyItem uniU uniL) (addItem ''Copyright'' v) md = md\<lparr>amCopyright := v\<rparr>"
    and "amComposer md = '''' \<Longrightarrow> fold (applyItem uniU uniL) (addItem ''Composer'' v) md = md\<lparr>amComposer := v\<rparr>"
    and "amComment md = '''' \<Longrightarrow> fold (applyItem uniU uniL) (addItem ''Comment'' v) md = md\<lparr>amComment := v\<rparr>"
    and "amAlbumType md = '''' \<Longrightarrow> fold (applyItem uniU uniL) (addItem ''RELEASETYPE'' v) md = md\<lparr>amAlbumType := v\<rparr>"
    and "amUPC md = '''' \<Longrightarrow> fold (applyItem uniU uniL) (addItem ''BARCODE'' v) md = md\<lparr>amUPC := v\<rparr>"
    and "amTrackGain md = '''' \<Longrightarrow> fold (applyItem uniU uniL) (addItem ''REPLAYGAIN_TRACK_GAIN'' v) md = md\<lparr>amTrackGain := v\<rparr>"
    and "amTrackPeak md = '''' \<Longrightarrow> fold (applyItem uniU uniL) (addItem ''REPLAYGAIN_TRACK_PEAK'' v) md = md\<lparr>amTrackPeak := v\<rparr>"
    and "amAlbumGain md = '''' \<Longrightarrow> fold (applyItem uniU uniL) (addItem ''REPLAYGAIN_ALBUM_GAIN'' v) md = md\<lparr>amAlbumGain := v\<rparr>"
    and "amAlbumPeak md = '''' \<Longrightarrow> fold (applyItem uniU uniL) (addItem ''REPLAYGAIN_ALBUM_PEAK'' v) md = md\<lparr>amAlbumPeak := v\<rparr>"
  using assms by (cases md; simp add: fold_addItem applyKey_simps upper_keys)+

text \<open>
  Track metadata survives an APE tag. For metadata whose strings are trimmed, reading the
  items that were written gives the same metadata back, except that a date comes back in the
  year field, numbers below one come back as zero, and a total without its number is lost.
\<close>
theorem ape_metadata_roundtrip:
  assumes "trimmedMetadata md"
  shows "APETagToAudioMetadata uniU uniL (AudioMetadataToAPEItems md) = asRead md"
proof -
  note T = trimmedD [OF assms]
  define y where "y = (if amDate md \<noteq> '''' then amDate md else amYear md)"
  note steps = fold_text(1) [OF T(1)]
    fold_text(2) [OF T(2)]
    fold_text(3) [OF T(3)]
    fold_text(4) [OF T(4)]
    fold_text(5) [OF T(5)] fold_text(6) [OF T(6), folded y_def]
    fold_text(7) [OF T(7)] fold_text(8) [OF T(8)] fold_text(9) [OF T(9)] fold_text(10) [OF T(10)] fold_text(11) [OF T(11)] fold_text(12) [OF T(12)] fold_text(13) [OF T(13)] fold_text(14) [OF T(14)] fold_text(15) [OF T(15)] fold_text(16) [OF T(16)] fold_text(17) [OF T(17)] fold_text(18) [OF T(18)]
    fold_track [OF T(19,20)] fold_disc [OF T(21,22)]
  have compilation: "fold (applyItem uniU uniL) (if isCompilation (amAlbumType md) then addItem ''COMPILATION'' ''1'' else []) acc = acc"
    if "amAlbumType acc = amAlbumType md" for acc
    by (rule fold_compilation) (use compilation_nonempty that in auto)
  show ?thesis
    unfolding APETagToAudioMetadata_def AudioMetadataToAPEItems_def fold_append comp_apply y_def [symmetric]
    by (simp add: emptyMetadata_def steps fold_explicit compilation asRead_def y_def [symmetric] split del: if_split)
qed

theorem ape_metadata_roundtrip_witness:
  "APETagToAudioMetadata (\<lambda>s. s) (\<lambda>s. s) (AudioMetadataToAPEItems (emptyMetadata\<lparr>amTitle := ''Song'', amDate := ''1999'', amTrackNumber := 3\<rparr>)) =
   asRead (emptyMetadata\<lparr>amTitle := ''Song'', amDate := ''1999'', amTrackNumber := 3\<rparr>)"
  by (rule ape_metadata_roundtrip) (simp add: trimmedMetadata_def emptyMetadata_def trim_space_plain plain_char_def)

section \<open>Editing\<close>

text \<open>\<open>fmt.Sscanf(s, "%d", &n)\<close> with \<open>n\<close> starting at 0; the edits are a Go map.\<close>

type_synonym edit_fields = "(string, string) gomap"

definition fieldText :: "edit_fields \<Rightarrow> string \<Rightarrow> string" where
  "fieldText edits k = get_or '''' edits k"

definition fieldInt :: "edit_fields \<Rightarrow> string \<Rightarrow> int" where
  "fieldInt edits k =
     (case map_of edits k of
        None \<Rightarrow> 0
      | Some v \<Rightarrow> if trim_space v = '''' then 0 else (case sscanInt (trim_space v) of None \<Rightarrow> 0 | Some n \<Rightarrow> n))"

definition audioMetadataFromEditFields :: "(string \<Rightarrow> string) \<Rightarrow> edit_fields \<Rightarrow> audio_metadata" where
  "audioMetadataFromEditFields uniL edits =
     \<lparr>amTitle = fieldText edits ''title'', amArtist = fieldText edits ''artist'', amAlbum = fieldText edits ''album'',
      amAlbumArtist = fieldText edits ''album_artist'', amGenre = fieldText edits ''genre'', amYear = '''',
      amDate = fieldText edits ''date'', amTrackNumber = fieldInt edits ''track_number'',
      amTotalTracks = fieldInt edits ''track_total'', amDiscNumber = fieldInt edits ''disc_number'',
      amTotalDiscs = fieldInt edits ''disc_total'', amISRC = fieldText edits ''isrc'', amLyrics = fieldText edits ''lyrics'',
      amLabel = fieldText edits ''label'', amCopyright = fieldText edits ''copyright'',
      amComposer = fieldText edits ''composer'', amComment = fieldText edits ''comment'',
      amAlbumType = fieldText edits ''album_type'', amExplicit = isTruthyTagValue uniL (fieldText edits ''explicit''),
      amUPC = fieldText edits ''upc'', amTrackGain = fieldText edits ''replaygain_track_gain'',
      amTrackPeak = fieldText edits ''replaygain_track_peak'', amAlbumGain = fieldText edits ''replaygain_album_gain'',
      amAlbumPeak = fieldText edits ''replaygain_album_peak''\<rparr>"

definition apeFieldKeys :: "(string \<times> string list) list" where
  "apeFieldKeys =
     [(''title'', [''TITLE'']), (''artist'', [''ARTIST'']), (''album'', [''ALBUM'']),
      (''album_artist'', [''ALBUM ARTIST'', ''ALBUMARTIST'']), (''date'', [''DATE'']), (''genre'', [''GENRE'']),
      (''track_number'', [''TRACK'', ''TRACKNUMBER'']), (''disc_number'', [''DISC'', ''DISCNUMBER'']), (''isrc'', [''ISRC'']),
      (''lyrics'', [''LYRICS'', ''UNSYNCEDLYRICS'']), (''label'', [''LABEL'', ''PUBLISHER'']), (''copyright'', [''COPYRIGHT'']),
      (''composer'', [''COMPOSER'']), (''comment'', [''COMMENT'']), (''explicit'', [''ITUNESADVISORY'']),
      (''album_type'', [''RELEASETYPE'']), (''upc'', [''BARCODE'']), (''compilation'', [''COMPILATION'']),
      (''replaygain_track_gain'', [''REPLAYGAIN_TRACK_GAIN'']), (''replaygain_track_peak'', [''REPLAYGAIN_TRACK_PEAK'']),
      (''replaygain_album_gain'', [''REPLAYGAIN_ALBUM_GAIN'']), (''replaygain_album_peak'', [''REPLAYGAIN_ALBUM_PEAK'']),
      (''disc_total'', [''DISCNUMBER'']), (''track_total'', [''TRACKNUMBER''])]"

definition apeKeysFromFields :: "edit_fields \<Rightarrow> string list" where
  "apeKeysFromFields edits = concat (map (\<lambda>(k, keys). if map_of edits k \<noteq> None then keys else []) apeFieldKeys)"

definition MergeAPEItems :: "(string \<Rightarrow> string) \<Rightarrow> ape_item list \<Rightarrow> ape_item list \<Rightarrow> string list \<Rightarrow> ape_item list" where
  "MergeAPEItems uniU existing newItems overrideKeys =
     (let combined = map (to_upper uniU) overrideKeys @ map (\<lambda>item. to_upper uniU (aiKey item)) newItems
      in filter (\<lambda>item. to_upper uniU (aiKey item) \<notin> set combined) existing @ newItems)"

text \<open>
  The APE branch of \<open>EditFileMetadata\<close>; \<open>cover\<close> is the content of the cover file when a path
  was given and it could be read, and \<open>coverGiven\<close> says that a path was given. \<open>None\<close> is the
  panic of the reader.
\<close>

definition editAPE ::
  "(string \<Rightarrow> string) \<Rightarrow> (string \<Rightarrow> string) \<Rightarrow> string \<Rightarrow> edit_fields \<Rightarrow> bool \<Rightarrow> string option \<Rightarrow> (ape_error + string) option" where
  "editAPE uniU uniL content edits coverGiven cover =
     (let newItems = AudioMetadataToAPEItems (audioMetadataFromEditFields uniL edits) @
            (case cover of
               Some picture \<Rightarrow>
                 if coverGiven \<and> picture \<noteq> '''' then
                   [\<lparr>aiKey = ''Cover Art (Front)'', aiValue = ''cover.jpg'' @ [CHR 0x00] @ picture, aiFlags = apeItemFlagBinary\<rparr>]
                 else []
             | None \<Rightarrow> []);
          overrideKeys = apeKeysFromFields edits @ (if coverGiven then [''COVER ART (FRONT)''] else [])
      in case ReadAPETags content of
           None \<Rightarrow> None
         | Some existing \<Rightarrow>
             let finalItems = (case existing of
                   Inr tag \<Rightarrow> if atItems tag \<noteq> [] then MergeAPEItems uniU (atItems tag) newItems overrideKeys else newItems
                 | Inl _ \<Rightarrow> newItems)
             in Some (WriteAPETags content \<lparr>atVersion = apeTagVersion2, atItems = finalItems, atReadOnly = False\<rparr>))"

text \<open>
  Clearing the date leaves it: the editor writes the date under the key Year but drops only the
  key DATE, so an edit that empties the date keeps the old Year item.
\<close>

lemma ape_date_not_cleared:
  assumes "length y < 1000" and "length title < 1000" and "title \<noteq> ''''"
  shows "\<exists>content. editAPE uniU uniL (audio @ tagBytes \<lparr>atVersion = 2000, atItems = [\<lparr>aiKey = ''Year'', aiValue = y, aiFlags = 0\<rparr>], atReadOnly = False\<rparr>)
      [(''date'', ''''), (''title'', title)] False None = Some (Inr content) \<and>
    ReadAPETags content = Some (Inr \<lparr>atVersion = 2000,
      atItems = [\<lparr>aiKey = ''Year'', aiValue = y, aiFlags = 0\<rparr>, \<lparr>aiKey = ''Title'', aiValue = title, aiFlags = 0\<rparr>], atReadOnly = False\<rparr>)"
proof -
  let ?old = "\<lparr>atVersion = 2000, atItems = [\<lparr>aiKey = ''Year'', aiValue = y, aiFlags = 0\<rparr>], atReadOnly = False\<rparr>"
  let ?items = "[\<lparr>aiKey = ''Year'', aiValue = y, aiFlags = 0\<rparr>, \<lparr>aiKey = ''Title'', aiValue = title, aiFlags = 0\<rparr>]"
  let ?new = "\<lparr>atVersion = 2000, atItems = ?items, atReadOnly = False\<rparr>"
  let ?edits = "[(''date'', ''''), (''title'', title)]"
  have ok: "tagOK ?old" "tagOK ?new"
    using assms(1,2) by (simp_all add: tagOK_def itemOK_def itemsData_def itemBytes_def apeTagHeaderSize_def)
  have no_trim: "trim_space '''' = ''''" by (rule trim_space_plain) simp
  have items: "AudioMetadataToAPEItems (audioMetadataFromEditFields uniL ?edits) = [\<lparr>aiKey = ''Title'', aiValue = title, aiFlags = 0\<rparr>]"
    using assms(3) by (simp add: AudioMetadataToAPEItems_def audioMetadataFromEditFields_def fieldText_def fieldInt_def get_or_def
        addItem_def isTruthyTagValue_def no_trim to_lower_def is_ascii_def isCompilation_def)
  have keys: "apeKeysFromFields ?edits = [''TITLE'', ''DATE'']"
    by (simp add: apeKeysFromFields_def apeFieldKeys_def)
  have "MergeAPEItems uniU (atItems ?old) [\<lparr>aiKey = ''Title'', aiValue = title, aiFlags = 0\<rparr>] [''TITLE'', ''DATE''] = ?items"
    by (simp add: MergeAPEItems_def to_upper_def is_ascii_def ascii_upper_def)
  then have "editAPE uniU uniL (audio @ tagBytes ?old) ?edits False None = Some (WriteAPETags (audio @ tagBytes ?old) ?new)"
    unfolding editAPE_def read_tagBytes [OF ok(1)] items keys by (simp add: tagVersion_def apeTagVersion2_def)
  moreover have "WriteAPETags (audio @ tagBytes ?old) ?new = Inr (audio @ tagBytes ?new)"
    using write_tagBytes [OF ok(2) untagged_tagBytes(2) [OF ok(1)], of audio] untagged_tagBytes(1) [OF ok(1), of audio] by simp
  ultimately show ?thesis using read_tagBytes [OF ok(2), of audio] by (simp add: tagVersion_def)
qed

end
