(* ===== verification/Paths.thy ===== *)
theory Paths
  imports Bytes "HOL-Library.Sublist"
begin

text \<open>
  Go's \<open>path\<close> and \<open>path/filepath\<close> on Unix, as far as the sandbox checks use them: \<open>Clean\<close>,
  \<open>IsAbs\<close>, \<open>Join\<close>, \<open>Abs\<close> with the working directory as a parameter, \<open>Rel\<close> and \<open>Dir\<close>. They are
  lexical: a path is cut at the slashes, and symbolic links are not followed.
\<close>

section \<open>Cleaning\<close>

definition slash :: char where
  "slash = CHR ''/''"

definition IsAbs :: "string \<Rightarrow> bool" where
  "IsAbs p \<longleftrightarrow> p \<noteq> [] \<and> hd p = slash"

text \<open>One element of a path on the stack of the elements kept, the last one first.\<close>

definition pushElem :: "bool \<Rightarrow> string \<Rightarrow> string list \<Rightarrow> string list" where
  "pushElem rooted c stack =
     (if c = '''' \<or> c = ''.'' then stack
      else if c = ''..'' then
        (case stack of
           [] \<Rightarrow> if rooted then [] else [''..'']
         | d # ds \<Rightarrow> if d = ''..'' then ''..'' # stack else ds)
      else c # stack)"

definition elems :: "string \<Rightarrow> string list" where
  "elems p = rev (fold (pushElem (IsAbs p)) (split_on slash p) [])"

definition render :: "bool \<Rightarrow> string list \<Rightarrow> string" where
  "render rooted cs = (if rooted then slash # join_on slash cs else if cs = [] then ''.'' else join_on slash cs)"

definition Clean :: "string \<Rightarrow> string" where
  "Clean p = render (IsAbs p) (elems p)"

definition Join :: "string list \<Rightarrow> string" where
  "Join ps = (let used = filter (\<lambda>p. p \<noteq> '''') ps in if used = [] then '''' else Clean (join_on slash used))"

definition Abs :: "string \<Rightarrow> string \<Rightarrow> string" where
  "Abs cwd p = (if IsAbs p then Clean p else Join [cwd, p])"

text \<open>
  \<open>Rel\<close>, \<open>None\<close> its error. The checks call it on absolute paths alone, whose cleaned elements
  hold no parent element, so the error that Go has for those in a relative base is left out.
\<close>

fun relElems :: "string list \<Rightarrow> string list \<Rightarrow> string list" where
  "relElems [] ts = ts"
| "relElems (b # bs) [] = replicate (length (b # bs)) ''..''"
| "relElems (b # bs) (t # ts) =
     (if b = t then relElems bs ts else replicate (length (b # bs)) ''..'' @ t # ts)"

definition Rel :: "string \<Rightarrow> string \<Rightarrow> string option" where
  "Rel base targ =
     (if Clean base = Clean targ then Some ''.''
      else if IsAbs base \<noteq> IsAbs targ then None
      else Some (join_on slash (relElems (elems base) (elems targ))))"

text \<open>\<open>filepath.Ext\<close>: the last element from its last dot on.\<close>

definition Ext :: "string \<Rightarrow> string" where
  "Ext path =
     (let base = rev (takeWhile (\<lambda>c. c \<noteq> CHR ''/'') (rev path)); suf = rev (takeWhile (\<lambda>c. c \<noteq> CHR ''.'') (rev base))
      in if length suf < length base then ''.'' @ suf else '''')"

definition Dir :: "string \<Rightarrow> string" where
  "Dir p = Clean (rev (dropWhile (\<lambda>c. c \<noteq> slash) (rev p)))"

section \<open>Facts\<close>

text \<open>The elements of a cleaned path: proper names, after a run of parent elements if relative.\<close>

definition proper :: "string \<Rightarrow> bool" where
  "proper c \<longleftrightarrow> c \<noteq> '''' \<and> c \<noteq> ''.'' \<and> c \<noteq> ''..'' \<and> slash \<notin> set c"

definition parents_first :: "string list \<Rightarrow> bool" where
  "parents_first cs \<longleftrightarrow> (\<exists>n ds. cs = replicate n ''..'' @ ds \<and> list_all proper ds)"

lemma split_no_sep: "p \<in> set (split_on c s) \<Longrightarrow> c \<notin> set p"
proof (induction s arbitrary: p)
  case (Cons x xs)
  obtain q qs where q: "split_on c xs = q # qs" by (cases "split_on c xs") simp_all
  show ?case
  proof (cases "x = c")
    case True
    with Cons show ?thesis by auto
  next
    case False
    with Cons q show ?thesis by auto
  qed
qed simp

lemma push_rooted:
  assumes "list_all proper stack" and "slash \<notin> set c"
  shows "list_all proper (pushElem True c stack)"
  using assms by (auto simp: pushElem_def proper_def split: list.splits)

lemma fold_rooted:
  "list_all proper stack \<Longrightarrow> \<forall>c \<in> set cs. slash \<notin> set c \<Longrightarrow> list_all proper (fold (pushElem True) cs stack)"
  by (induction cs arbitrary: stack) (simp_all add: push_rooted)

lemma elems_rooted: "IsAbs p \<Longrightarrow> list_all proper (elems p)"
  unfolding elems_def list_all_rev by (simp add: fold_rooted split_no_sep)

definition stack_ok :: "string list \<Rightarrow> bool" where
  "stack_ok stack \<longleftrightarrow> (\<exists>n ds. stack = ds @ replicate n ''..'' \<and> list_all proper ds)"

lemma push_relative:
  assumes "stack_ok stack" and "slash \<notin> set c"
  shows "stack_ok (pushElem False c stack)"
proof -
  from assms(1) obtain n ds where s: "stack = ds @ replicate n ''..''" "list_all proper ds" by (auto simp: stack_ok_def)
  consider "c = '''' \<or> c = ''.''" | "c = ''..''" | "proper c" using assms(2) by (auto simp: proper_def)
  then show ?thesis
  proof cases
    case 1
    with assms(1) show ?thesis by (auto simp: pushElem_def)
  next
    case 2
    show ?thesis
    proof (cases ds)
      case Nil
      have "pushElem False c stack = replicate (Suc n) ''..''" using 2 s(1) Nil by (cases n) (simp_all add: pushElem_def)
      then show ?thesis unfolding stack_ok_def by (intro exI [of _ "Suc n"] exI [of _ "[]"]) simp
    next
      case (Cons d ds')
      have "pushElem False c stack = ds' @ replicate n ''..''" using 2 s Cons by (simp add: pushElem_def proper_def)
      then show ?thesis unfolding stack_ok_def using s(2) Cons by (intro exI [of _ n] exI [of _ ds']) simp
    qed
  next
    case 3
    then have "pushElem False c stack = (c # ds) @ replicate n ''..''" using s(1) by (simp add: pushElem_def proper_def)
    then show ?thesis unfolding stack_ok_def using s(2) 3 by (intro exI [of _ n] exI [of _ "c # ds"]) simp
  qed
qed

lemma fold_relative: "stack_ok stack \<Longrightarrow> \<forall>c \<in> set cs. slash \<notin> set c \<Longrightarrow> stack_ok (fold (pushElem False) cs stack)"
  by (induction cs arbitrary: stack) (simp_all add: push_relative)

lemma elems_relative: "\<not> IsAbs p \<Longrightarrow> parents_first (elems p)"
proof -
  assume p: "\<not> IsAbs p"
  have "stack_ok []" unfolding stack_ok_def by (intro exI [of _ 0] exI [of _ "[]"]) simp
  then have "stack_ok (fold (pushElem False) (split_on slash p) [])" by (rule fold_relative) (simp add: split_no_sep)
  then obtain n ds where "fold (pushElem False) (split_on slash p) [] = ds @ replicate n ''..''" "list_all proper ds"
    by (auto simp: stack_ok_def)
  then show ?thesis unfolding parents_first_def elems_def
    using p by (intro exI [of _ n] exI [of _ "rev ds"]) simp
qed

lemma elems_parents_first: "parents_first (elems p)"
proof (cases "IsAbs p")
  case True
  then show ?thesis unfolding parents_first_def by (intro exI [of _ 0] exI [of _ "elems p"]) (simp add: elems_rooted)
qed (rule elems_relative)

lemma split_join:
  "cs \<noteq> [] \<Longrightarrow> list_all (\<lambda>c. sep \<notin> set c) cs \<Longrightarrow> split_on sep (join_on sep cs) = cs"
proof (induction cs)
  case (Cons c cs)
  then show ?case by (cases "cs = []") (simp_all add: split_on_none join_on_Cons split_on_append)
qed simp

lemma proper_no_slash: "list_all proper cs \<Longrightarrow> list_all (\<lambda>c. slash \<notin> set c) cs"
  by (simp add: list_all_iff proper_def)

lemma fold_proper: "list_all proper cs \<Longrightarrow> fold (pushElem r) cs stack = rev cs @ stack"
  by (induction cs arbitrary: stack) (simp_all add: pushElem_def proper_def)

lemma fold_parents:
  "stack = [] \<or> hd stack = ''..'' \<Longrightarrow> fold (pushElem False) (replicate n ''..'') stack = replicate n ''..'' @ stack"
proof (induction n arbitrary: stack)
  case (Suc n)
  have "pushElem False ''..'' stack = ''..'' # stack" using Suc.prems by (cases stack) (simp_all add: pushElem_def)
  with Suc.IH [of "''..'' # stack"] show ?case by (simp add: replicate_app_Cons_same)
qed simp

lemma parents_first_elem: "parents_first cs \<Longrightarrow> c \<in> set cs \<Longrightarrow> c = ''..'' \<or> proper c"
  by (auto simp: parents_first_def list_all_iff)

lemma no_slash_parents: "parents_first cs \<Longrightarrow> list_all (\<lambda>c. slash \<notin> set c) cs"
proof -
  assume cs: "parents_first cs"
  have "slash \<notin> set c" if "c \<in> set cs" for c
    using parents_first_elem [OF cs that] by (auto simp: proper_def slash_def)
  then show ?thesis by (simp add: list_all_iff)
qed

lemma parents_first_nonempty: "parents_first cs \<Longrightarrow> c \<in> set cs \<Longrightarrow> c \<noteq> ''''"
  using parents_first_elem [of cs c] by (auto simp: proper_def)

lemma IsAbs_render: "parents_first cs \<Longrightarrow> IsAbs (render r cs) = r"
proof -
  assume cs: "parents_first cs"
  show ?thesis
  proof (cases cs)
    case Nil
    then show ?thesis by (simp add: render_def IsAbs_def slash_def)
  next
    case (Cons c cs')
    with cs parents_first_nonempty [OF cs, of c] no_slash_parents [OF cs] obtain x xs where "c = x # xs" "x \<noteq> slash"
      by (cases c) auto
    then show ?thesis by (simp add: render_def IsAbs_def Cons join_on_Cons_head)
  qed
qed

lemma elems_render:
  assumes "parents_first cs" and "r \<Longrightarrow> list_all proper cs"
  shows "elems (render r cs) = cs"
proof (cases r)
  case True
  with assms(2) have cs: "list_all proper cs" by simp
  have "fold (pushElem True) (split_on slash (slash # join_on slash cs)) [] = rev cs"
    using split_join [OF _ proper_no_slash [OF cs]] fold_proper [OF cs, of True "[]"]
    by (cases "cs = []") (simp_all add: pushElem_def)
  with True show ?thesis using IsAbs_render [OF assms(1), of r] by (simp add: elems_def render_def)
next
  case False
  from assms(1) obtain n ds where cs: "cs = replicate n ''..'' @ ds" "list_all proper ds" by (auto simp: parents_first_def)
  have "fold (pushElem False) cs [] = rev cs"
    using fold_parents [of "[]" n] fold_proper [OF cs(2), of False] by (simp add: cs(1))
  moreover have "fold (pushElem False) (split_on slash (render False cs)) [] = fold (pushElem False) cs []"
    using split_join [OF _ no_slash_parents [OF assms(1)]] by (cases "cs = []") (simp_all add: render_def pushElem_def slash_def)
  ultimately show ?thesis using False IsAbs_render [OF assms(1), of r] by (simp add: elems_def)
qed

lemma IsAbs_Clean [simp]: "IsAbs (Clean p) = IsAbs p"
  by (simp add: Clean_def IsAbs_render elems_parents_first)

lemma elems_Clean [simp]: "elems (Clean p) = elems p"
  unfolding Clean_def by (rule elems_render [OF elems_parents_first elems_rooted])

lemma Clean_Clean [simp]: "Clean (Clean p) = Clean p"
  by (simp add: Clean_def [of "Clean p"]) (simp add: Clean_def)

lemma Clean_eq_iff: "Clean p = Clean q \<longleftrightarrow> IsAbs p = IsAbs q \<and> elems p = elems q"
proof
  assume "Clean p = Clean q"
  then have "IsAbs (Clean p) = IsAbs (Clean q)" "elems (Clean p) = elems (Clean q)" by simp_all
  then show "IsAbs p = IsAbs q \<and> elems p = elems q" by simp
qed (simp add: Clean_def)

lemma split_on_sep: "split_on c (a @ c # b) = split_on c a @ split_on c b"
proof (induction a)
  case (Cons x a)
  obtain q qs where "split_on c a = q # qs" by (cases "split_on c a") simp_all
  with Cons show ?case by simp
qed simp

text \<open>What joining a relative path to an absolute directory does.\<close>

lemma Join_two:
  assumes "IsAbs d" and "p \<noteq> ''''"
  shows "IsAbs (Join [d, p])" and "elems (Join [d, p]) = rev (fold (pushElem True) (split_on slash p) (rev (elems d)))"
    and "Clean (Join [d, p]) = Join [d, p]"
proof -
  have d: "d \<noteq> ''''" using assms(1) by (auto simp: IsAbs_def)
  have j: "Join [d, p] = Clean (d @ slash # p)" using d assms(2) by (simp add: Join_def)
  have a: "IsAbs (d @ slash # p)" using assms(1) d by (simp add: IsAbs_def)
  then show "IsAbs (Join [d, p])" by (simp add: j)
  show "Clean (Join [d, p]) = Join [d, p]" by (simp add: j)
  have "split_on slash (d @ slash # p) = split_on slash d @ split_on slash p"
    using split_on_sep [of slash d p] .
  then show "elems (Join [d, p]) = rev (fold (pushElem True) (split_on slash p) (rev (elems d)))"
    unfolding j elems_Clean using a assms(1) by (simp add: elems_def)
qed

end
