(* ===== verification/Sandbox.thy ===== *)
theory Sandbox
  imports Paths
begin

text \<open>
  What extensions may touch on disk (\<open>go_backend/extension_runtime_file.go\<close>): the list of
  allowed download directories, the containment test, \<open>validatePath\<close>, and the file
  functions of the extension API on top of it, over a model of the file system with regular
  files and directories, keyed by the elements of cleaned absolute paths. The working
  directory \<open>cwd\<close> is a parameter. Operations of the file system fail for the reasons the
  tree gives (a missing file, a directory in the place of a file, a file in the place of a
  directory); permissions, full disks and symbolic links are not modelled.
\<close>

section \<open>The sandbox\<close>

definition maxAllowedDownloadDirs :: nat where
  "maxAllowedDownloadDirs = 256"

definition AddAllowedDownloadDir :: "string \<Rightarrow> string \<Rightarrow> string list \<Rightarrow> string list" where
  "AddAllowedDownloadDir cwd dir dirs =
     (let absDir = Clean (Abs cwd dir)
      in if list_ex (\<lambda>existing. Clean existing = absDir) dirs then dirs
         else
           (if length dirs \<ge> maxAllowedDownloadDirs
            then take (maxAllowedDownloadDirs div 2) (drop (length dirs - maxAllowedDownloadDirs div 2) dirs)
            else dirs) @ [absDir])"

definition isPathWithinBase :: "string \<Rightarrow> string \<Rightarrow> string \<Rightarrow> bool" where
  "isPathWithinBase cwd baseDir targetPath =
     (case Rel (Abs cwd baseDir) (Abs cwd targetPath) of
        None \<Rightarrow> False
      | Some rel0 \<Rightarrow>
          (let rel = Clean rel0
           in if rel = ''.'' then True
              else \<not> (rel = ''..'' \<or> starts_with (''..'' @ [slash]) rel)))"

definition isPathInAllowedDirs :: "string \<Rightarrow> string list \<Rightarrow> string \<Rightarrow> bool" where
  "isPathInAllowedDirs cwd dirs absPath = list_ex (\<lambda>d. isPathWithinBase cwd d absPath) dirs"

record ext_runtime =
  erFilePermission :: bool
  erDataDir :: string
  erAllowedDirs :: "string list"

datatype sandbox_error = NoFilePermission | AbsoluteDenied | OutsideSandbox

definition validatePath :: "string \<Rightarrow> ext_runtime \<Rightarrow> string \<Rightarrow> sandbox_error + string" where
  "validatePath cwd r path =
     (if \<not> erFilePermission r then Inl NoFilePermission
      else
        let cleanPath = Clean path
        in if IsAbs cleanPath then
             (let absPath = Abs cwd cleanPath
              in if isPathInAllowedDirs cwd (erAllowedDirs r) absPath then Inr absPath else Inl AbsoluteDenied)
           else
             (let absPath = Abs cwd (Join [erDataDir r, cleanPath])
              in if isPathWithinBase cwd (Abs cwd (erDataDir r)) absPath then Inr absPath else Inl OutsideSandbox))"

section \<open>The file system\<close>

record fsys =
  fsFiles :: "(string list, string) gomap"
  fsDirs :: "string list list"

definition isDir :: "fsys \<Rightarrow> string list \<Rightarrow> bool" where
  "isDir fs d \<longleftrightarrow> d = [] \<or> d \<in> set (fsDirs fs)"

definition isFile :: "fsys \<Rightarrow> string list \<Rightarrow> bool" where
  "isFile fs p \<longleftrightarrow> map_of (fsFiles fs) p \<noteq> None"

definition osMkdirAll :: "string list \<Rightarrow> fsys \<Rightarrow> fsys option" where
  "osMkdirAll d fs =
     (if list_ex (isFile fs) (prefixes d) then None
      else Some (fs\<lparr>fsDirs := filter (\<lambda>p. p \<noteq> [] \<and> p \<notin> set (fsDirs fs)) (prefixes d) @ fsDirs fs\<rparr>))"

definition osWriteFile :: "string list \<Rightarrow> string \<Rightarrow> fsys \<Rightarrow> fsys option" where
  "osWriteFile p data fs =
     (if isDir fs p \<or> \<not> isDir fs (butlast p) then None else Some (fs\<lparr>fsFiles := put p data (fsFiles fs)\<rparr>))"

definition isEmptyDir :: "fsys \<Rightarrow> string list \<Rightarrow> bool" where
  "isEmptyDir fs d \<longleftrightarrow> \<not> list_ex (strict_prefix d) (map fst (fsFiles fs)) \<and> \<not> list_ex (strict_prefix d) (fsDirs fs)"

definition osRemove :: "string list \<Rightarrow> fsys \<Rightarrow> fsys option" where
  "osRemove p fs =
     (if isFile fs p then Some (fs\<lparr>fsFiles := del p (fsFiles fs)\<rparr>)
      else if p \<noteq> [] \<and> isDir fs p \<and> isEmptyDir fs p then Some (fs\<lparr>fsDirs := filter (\<lambda>d. d \<noteq> p) (fsDirs fs)\<rparr>)
      else None)"

definition rebase :: "string list \<Rightarrow> string list \<Rightarrow> string list \<Rightarrow> string list" where
  "rebase a b p = (if prefix a p then b @ drop (length a) p else p)"

text \<open>\<open>os.Rename\<close> refuses a directory as the new name, also an empty one.\<close>

definition osRename :: "string list \<Rightarrow> string list \<Rightarrow> fsys \<Rightarrow> fsys option" where
  "osRename a b fs =
     (case map_of (fsFiles fs) a of
        Some content \<Rightarrow>
          if isDir fs b \<or> \<not> isDir fs (butlast b) then None
          else Some (fs\<lparr>fsFiles := put b content (del a (fsFiles fs))\<rparr>)
      | None \<Rightarrow>
          if a = [] \<or> \<not> isDir fs a \<or> isFile fs b \<or> isDir fs b \<or> \<not> isDir fs (butlast b) \<or> prefix a b then None
          else Some (fs\<lparr>fsFiles := map (\<lambda>(p, c). (rebase a b p, c)) (fsFiles fs),
                        fsDirs := map (rebase a b) (fsDirs fs)\<rparr>))"

section \<open>The file functions\<close>

datatype file_result =
    FileError | FileBool bool | FileOK | FileData string | FilePath string | FileSize nat | FileWritten string nat nat

definition maxExtensionFileReadBytes :: int where
  "maxExtensionFileReadBytes = 16 * 2 ^ 20"

definition stagedDownloadPath :: "string \<Rightarrow> string" where
  "stagedDownloadPath finalPath = finalPath @ ''.partial''"

definition fileExists :: "string \<Rightarrow> ext_runtime \<Rightarrow> string list \<Rightarrow> fsys \<Rightarrow> file_result" where
  "fileExists cwd r args fs =
     (case args of
        [] \<Rightarrow> FileBool False
      | path # _ \<Rightarrow>
          case validatePath cwd r path of
            Inl _ \<Rightarrow> FileBool False
          | Inr full \<Rightarrow> FileBool (isFile fs (elems full) \<or> isDir fs (elems full)))"

definition fileDelete :: "string \<Rightarrow> ext_runtime \<Rightarrow> string list \<Rightarrow> fsys \<Rightarrow> file_result \<times> fsys" where
  "fileDelete cwd r args fs =
     (case args of
        [] \<Rightarrow> (FileError, fs)
      | path # _ \<Rightarrow>
          case validatePath cwd r path of
            Inl _ \<Rightarrow> (FileError, fs)
          | Inr full \<Rightarrow> (case osRemove (elems full) fs of None \<Rightarrow> (FileError, fs) | Some fs' \<Rightarrow> (FileOK, fs')))"

definition fileRead :: "string \<Rightarrow> ext_runtime \<Rightarrow> string list \<Rightarrow> fsys \<Rightarrow> file_result" where
  "fileRead cwd r args fs =
     (case args of
        [] \<Rightarrow> FileError
      | path # _ \<Rightarrow>
          case validatePath cwd r path of
            Inl _ \<Rightarrow> FileError
          | Inr full \<Rightarrow>
              case map_of (fsFiles fs) (elems full) of
                None \<Rightarrow> FileError
              | Some content \<Rightarrow>
                  if int (length content) > maxExtensionFileReadBytes then FileError else FileData content)"

definition extensionFileReadLength :: "int \<Rightarrow> int \<Rightarrow> int \<Rightarrow> int option" where
  "extensionFileReadLength sz offset requested =
     (let remaining = max 0 (sz - offset)
      in if requested < 0 then (if remaining > maxExtensionFileReadBytes then None else Some remaining)
         else if requested > maxExtensionFileReadBytes then None
         else Some (min requested remaining))"

text \<open>
  The bytes that \<open>readBytes\<close> encodes, for the offset and the length of its options. A directory
  can be opened and has a size (\<open>dirSize\<close>), but not read.
\<close>

definition fileReadBytes :: "nat \<Rightarrow> string \<Rightarrow> ext_runtime \<Rightarrow> string list \<Rightarrow> int \<Rightarrow> int \<Rightarrow> fsys \<Rightarrow> file_result" where
  "fileReadBytes dirSize cwd r args offset0 len fs =
     (case args of
        [] \<Rightarrow> FileError
      | path # _ \<Rightarrow>
          case validatePath cwd r path of
            Inl _ \<Rightarrow> FileError
          | Inr full \<Rightarrow>
              if offset0 < 0 then FileError
              else
                case map_of (fsFiles fs) (elems full) of
                  None \<Rightarrow>
                    if isDir fs (elems full)
                       \<and> extensionFileReadLength (int dirSize) (min offset0 (int dirSize)) len = Some 0 then FileData ''''
                    else FileError
                | Some content \<Rightarrow>
                    (let offset = min offset0 (int (length content))
                     in case extensionFileReadLength (int (length content)) offset len of
                          None \<Rightarrow> FileError
                        | Some n \<Rightarrow> FileData (take (nat n) (drop (nat offset) content))))"

definition fileWrite :: "string \<Rightarrow> ext_runtime \<Rightarrow> string list \<Rightarrow> fsys \<Rightarrow> file_result \<times> fsys" where
  "fileWrite cwd r args fs =
     (case args of
        path # data # _ \<Rightarrow>
          (case validatePath cwd r path of
             Inl _ \<Rightarrow> (FileError, fs)
           | Inr full \<Rightarrow>
               case osMkdirAll (elems (Dir full)) fs of
                 None \<Rightarrow> (FileError, fs)
               | Some fs1 \<Rightarrow>
                   let staged = elems (stagedDownloadPath full)
                   in case osWriteFile staged data fs1 of
                        None \<Rightarrow> (FileError, (case osRemove staged fs1 of None \<Rightarrow> fs1 | Some fs2 \<Rightarrow> fs2))
                      | Some fs2 \<Rightarrow>
                          case osRename staged (elems full) fs2 of
                            None \<Rightarrow> (FileError, (case osRemove staged fs2 of None \<Rightarrow> fs2 | Some fs3 \<Rightarrow> fs3))
                          | Some fs3 \<Rightarrow> (FilePath full, fs3))
      | _ \<Rightarrow> (FileError, fs))"

text \<open>
  \<open>writeBytes\<close> with its options decoded: the decoded data (\<open>None\<close> if that failed), append,
  truncate, and the offset if there is one. Writing beyond the end fills with zero bytes.
\<close>

definition fileWriteBytes ::
  "string \<Rightarrow> ext_runtime \<Rightarrow> string list \<Rightarrow> string option \<Rightarrow> bool \<Rightarrow> bool \<Rightarrow> int option \<Rightarrow> fsys \<Rightarrow> file_result \<times> fsys" where
  "fileWriteBytes cwd r args decoded appendMode truncated offset fs =
     (case args of
        path # _ # _ \<Rightarrow>
          (case validatePath cwd r path of
             Inl _ \<Rightarrow> (FileError, fs)
           | Inr full \<Rightarrow>
               if appendMode \<and> offset \<noteq> None then (FileError, fs)
               else if (case offset of None \<Rightarrow> False | Some n \<Rightarrow> n < 0) then (FileError, fs)
               else
                 case decoded of
                   None \<Rightarrow> (FileError, fs)
                 | Some data \<Rightarrow>
                     case osMkdirAll (elems (Dir full)) fs of
                       None \<Rightarrow> (FileError, fs)
                     | Some fs1 \<Rightarrow>
                         let old = (if truncated then '''' else get_or '''' (fsFiles fs1) (elems full));
                             pos = (if appendMode then length old else case offset of None \<Rightarrow> 0 | Some n \<Rightarrow> nat n);
                             new = (if data = '''' then old
                                    else take pos (old @ replicate (pos - length old) (CHR 0x00)) @ data @ drop (pos + length data) old)
                         in case osWriteFile (elems full) new fs1 of
                              None \<Rightarrow> (FileError, fs1)
                            | Some fs2 \<Rightarrow> (FileWritten full (length data) (length new), fs2))
      | _ \<Rightarrow> (FileError, fs))"

text \<open>\<open>copy\<close> opens the source, truncates the destination, then copies what the source holds.\<close>

definition fileCopy :: "string \<Rightarrow> ext_runtime \<Rightarrow> string list \<Rightarrow> fsys \<Rightarrow> file_result \<times> fsys" where
  "fileCopy cwd r args fs =
     (case args of
        src # dst # _ \<Rightarrow>
          (case validatePath cwd r src of
             Inl _ \<Rightarrow> (FileError, fs)
           | Inr fullSrc \<Rightarrow>
               case validatePath cwd r dst of
                 Inl _ \<Rightarrow> (FileError, fs)
               | Inr fullDst \<Rightarrow>
                   if \<not> isFile fs (elems fullSrc) \<and> \<not> isDir fs (elems fullSrc) then (FileError, fs)
                   else
                     case osMkdirAll (elems (Dir fullDst)) fs of
                       None \<Rightarrow> (FileError, fs)
                     | Some fs1 \<Rightarrow>
                         case osWriteFile (elems fullDst) '''' fs1 of
                           None \<Rightarrow> (FileError, fs1)
                         | Some fs2 \<Rightarrow>
                             if isDir fs2 (elems fullSrc) then (FileError, fs2)
                             else
                             (FilePath fullDst,
                              fs2\<lparr>fsFiles := put (elems fullDst) (get_or '''' (fsFiles fs2) (elems fullSrc)) (fsFiles fs2)\<rparr>))
      | _ \<Rightarrow> (FileError, fs))"

definition fileMove :: "string \<Rightarrow> ext_runtime \<Rightarrow> string list \<Rightarrow> fsys \<Rightarrow> file_result \<times> fsys" where
  "fileMove cwd r args fs =
     (case args of
        src # dst # _ \<Rightarrow>
          (case validatePath cwd r src of
             Inl _ \<Rightarrow> (FileError, fs)
           | Inr fullSrc \<Rightarrow>
               case validatePath cwd r dst of
                 Inl _ \<Rightarrow> (FileError, fs)
               | Inr fullDst \<Rightarrow>
                   case osMkdirAll (elems (Dir fullDst)) fs of
                     None \<Rightarrow> (FileError, fs)
                   | Some fs1 \<Rightarrow>
                       case osRename (elems fullSrc) (elems fullDst) fs1 of
                         None \<Rightarrow> (FileError, fs1)
                       | Some fs2 \<Rightarrow> (FilePath fullDst, fs2))
      | _ \<Rightarrow> (FileError, fs))"

definition fileGetSize :: "nat \<Rightarrow> string \<Rightarrow> ext_runtime \<Rightarrow> string list \<Rightarrow> fsys \<Rightarrow> file_result" where
  "fileGetSize dirSize cwd r args fs =
     (case args of
        [] \<Rightarrow> FileError
      | path # _ \<Rightarrow>
          case validatePath cwd r path of
            Inl _ \<Rightarrow> FileError
          | Inr full \<Rightarrow>
              case map_of (fsFiles fs) (elems full) of
                None \<Rightarrow> if isDir fs (elems full) then FileSize dirSize else FileError
              | Some content \<Rightarrow> FileSize (length content))"

section \<open>Containment is prefix of elements\<close>

lemma IsAbs_Abs: "IsAbs cwd \<Longrightarrow> IsAbs (Abs cwd p)"
  using Join_two(1) [of cwd p] by (cases "p = ''''") (auto simp: Abs_def Join_def)

lemma Clean_Abs: "IsAbs cwd \<Longrightarrow> Clean (Abs cwd p) = Abs cwd p"
proof (cases "p = ''''")
  case True
  assume "IsAbs cwd"
  then have "cwd \<noteq> ''''" by (auto simp: IsAbs_def)
  then show ?thesis by (simp add: Abs_def True Join_def IsAbs_def)
next
  case False
  assume "IsAbs cwd"
  then show ?thesis using Join_two(3) [of cwd p] False by (simp add: Abs_def)
qed

lemma Abs_abs: "IsAbs p \<Longrightarrow> Abs cwd p = Clean p"
  by (simp add: Abs_def)

lemma relElems_prefix: "relElems bs (bs @ ts) = ts"
  by (induction bs) simp_all

lemma relElems_leaves:
  "\<not> prefix bs ts \<Longrightarrow> \<exists>n us. relElems bs ts = replicate (Suc n) ''..'' @ us \<and> set us \<subseteq> set ts"
proof (induction bs ts rule: relElems.induct)
  case (2 b bs)
  show ?case by (rule exI [of _ "length bs"], rule exI [of _ "[]"]) simp
next
  case (3 b bs t ts)
  show ?case
  proof (cases "b = t")
    case True
    with 3 show ?thesis by auto
  next
    case False
    then show ?thesis by (intro exI [of _ "length bs"] exI [of _ "t # ts"]) simp
  qed
qed simp

lemma join_parent: "join_on slash (''..'' # us) = ''..'' \<or> starts_with (''..'' @ [slash]) (join_on slash (''..'' # us))"
  by (cases us) (simp_all add: starts_with_def)

lemma join_not_parent:
  assumes "proper c"
  shows "join_on slash (c # us) \<noteq> ''..''" and "\<not> starts_with (''..'' @ [slash]) (join_on slash (c # us))"
    and "join_on slash (c # us) \<noteq> ''.''"
proof -
  from assms have c: "c \<noteq> ''''" "c \<noteq> ''.''" "c \<noteq> ''..''" "slash \<notin> set c" by (auto simp: proper_def)
  obtain ws where j: "join_on slash (c # us) = c @ ws" "ws = [] \<or> hd ws = slash"
    by (cases us) auto
  show "\<not> starts_with (''..'' @ [slash]) (join_on slash (c # us))"
  proof
    assume s: "starts_with (''..'' @ [slash]) (join_on slash (c # us))"
    obtain a c1 where a: "c = a # c1" using c(1) by (cases c) auto
    show False using s c j a by (cases c1; cases "tl c1"; cases ws) (auto simp: starts_with_def slash_def)
  qed
  show "join_on slash (c # us) \<noteq> ''..''" using c j by (cases ws) (auto simp: append_eq_Cons_conv slash_def)
  show "join_on slash (c # us) \<noteq> ''.''" using c j by (cases ws) (auto simp: append_eq_Cons_conv slash_def)
qed

lemma within_iff:
  assumes cwd: "IsAbs cwd"
  shows "isPathWithinBase cwd b t \<longleftrightarrow> prefix (elems (Abs cwd b)) (elems (Abs cwd t))"
proof -
  let ?b = "Abs cwd b" and ?t = "Abs cwd t"
  have abs: "IsAbs ?b" "IsAbs ?t" using IsAbs_Abs [OF cwd] by simp_all
  have pr: "list_all proper (elems ?b)" "list_all proper (elems ?t)" using elems_rooted abs by simp_all
  show ?thesis
  proof (cases "elems ?b = elems ?t")
    case True
    then have "Rel ?b ?t = Some ''.''" using abs by (simp add: Rel_def Clean_eq_iff)
    moreover have "Clean ''.'' = ''.''" by (simp add: Clean_def elems_def IsAbs_def slash_def pushElem_def render_def)
    ultimately show ?thesis using True by (simp add: isPathWithinBase_def)
  next
    case differ: False
    then have rel: "Rel ?b ?t = Some (join_on slash (relElems (elems ?b) (elems ?t)))"
      using abs by (simp add: Rel_def Clean_eq_iff)
    show ?thesis
    proof (cases "prefix (elems ?b) (elems ?t)")
      case True
      with differ obtain c us where t: "elems ?t = elems ?b @ c # us" by (auto simp: prefix_def neq_Nil_conv)
      have cus: "list_all proper (c # us)" using pr(2) t by simp
      then have pf: "parents_first (c # us)" unfolding parents_first_def by (intro exI [of _ 0] exI [of _ "c # us"]) simp
      have "Clean (join_on slash (c # us)) = join_on slash (c # us)"
        using elems_render [OF pf, of False] IsAbs_render [OF pf, of False] by (simp add: Clean_def render_def)
      then show ?thesis using True cus join_not_parent [of c us] rel
        by (simp add: isPathWithinBase_def t relElems_prefix Let_def)
    next
      case False
      from relElems_leaves [OF this] obtain n us where
        us: "relElems (elems ?b) (elems ?t) = replicate (Suc n) ''..'' @ us" "set us \<subseteq> set (elems ?t)" by blast
      have pf: "parents_first (relElems (elems ?b) (elems ?t))"
        unfolding parents_first_def using us pr(2) by (intro exI [of _ "Suc n"] exI [of _ us]) (auto simp: list_all_iff)
      have "Clean (join_on slash (relElems (elems ?b) (elems ?t))) = join_on slash (relElems (elems ?b) (elems ?t))"
        using elems_render [OF pf, of False] IsAbs_render [OF pf, of False] us(1) by (simp add: Clean_def render_def)
      then show ?thesis using False rel us(1) join_parent [of "replicate n ''..'' @ us"]
        by (auto simp: isPathWithinBase_def Let_def starts_with_def)
    qed
  qed
qed

section \<open>What the functions may change\<close>

definition roots :: "string \<Rightarrow> ext_runtime \<Rightarrow> string list list" where
  "roots cwd r = map (\<lambda>d. elems (Abs cwd d)) (erDataDir r # erAllowedDirs r)"

text \<open>A path is beyond the sandbox when no root contains it; each root has a staged sibling there.\<close>

definition stagedOf :: "string list \<Rightarrow> string list" where
  "stagedOf p = (if p = [] then [''.partial''] else butlast p @ [last p @ ''.partial''])"

definition beyond :: "string \<Rightarrow> ext_runtime \<Rightarrow> string list \<Rightarrow> bool" where
  "beyond cwd r p \<longleftrightarrow> list_all (\<lambda>R. \<not> prefix R p) (roots cwd r)"

lemma validatePath_iff:
  assumes cwd: "IsAbs cwd"
  shows "validatePath cwd r path = Inr full \<longleftrightarrow> erFilePermission r \<and>
    (if IsAbs path then full = Clean path \<and> (\<exists>d \<in> set (erAllowedDirs r). prefix (elems (Abs cwd d)) (elems full))
     else full = Abs cwd (Join [erDataDir r, Clean path]) \<and> prefix (elems (Abs cwd (erDataDir r))) (elems full))"
proof -
  have "Abs cwd (Abs cwd p) = Abs cwd p" for p
    using IsAbs_Abs [OF cwd] Clean_Abs [OF cwd] by (simp add: Abs_abs)
  then show ?thesis
    by (auto simp: validatePath_def isPathInAllowedDirs_def list_ex_iff within_iff [OF cwd] Abs_abs Let_def)
qed

lemma validatePath_inside:
  assumes cwd: "IsAbs cwd" and ok: "validatePath cwd r path = Inr full"
  shows "IsAbs full" and "\<exists>R \<in> set (roots cwd r). prefix R (elems full)"
  using ok IsAbs_Abs [OF cwd]
  by (auto simp: validatePath_iff [OF cwd] roots_def split: if_splits)

lemma validatePath_clean:
  assumes cwd: "IsAbs cwd" and ok: "validatePath cwd r path = Inr full"
  shows "Clean full = full"
  using ok Clean_Abs [OF cwd] by (auto simp: validatePath_iff [OF cwd] split: if_splits)

lemma proper_partial: "proper c \<Longrightarrow> proper (c @ ''.partial'')"
  by (auto simp: proper_def slash_def append_eq_Cons_conv)

lemma full_render: "IsAbs full \<Longrightarrow> Clean full = full \<Longrightarrow> full = slash # join_on slash (elems full)"
  by (metis Clean_def render_def)

lemma join_on_snoc_append: "join_on c (xs @ [x @ y]) = join_on c (xs @ [x]) @ y"
  by (induction xs rule: induct_list012) simp_all

lemma elems_staged:
  assumes full: "IsAbs full" "Clean full = full"
  shows "elems (stagedDownloadPath full) = stagedOf (elems full)"
proof -
  have pr: "list_all proper (elems full)" by (rule elems_rooted [OF full(1)])
  have "stagedDownloadPath full = render True (stagedOf (elems full))"
  proof (cases "elems full = []")
    case True
    then show ?thesis using full_render [OF full] by (simp add: stagedDownloadPath_def stagedOf_def render_def)
  next
    case False
    then have "elems full = butlast (elems full) @ [last (elems full)]" by simp
    then have "full = slash # join_on slash (butlast (elems full) @ [last (elems full)])" using full_render [OF full] by metis
    then have "full @ ''.partial'' = slash # join_on slash (butlast (elems full) @ [last (elems full) @ ''.partial''])"
      by (simp add: join_on_snoc_append)
    then show ?thesis using False by (simp add: stagedDownloadPath_def stagedOf_def render_def)
  qed
  moreover have ps: "list_all proper (stagedOf (elems full))"
  proof (cases "elems full = []")
    case True
    then show ?thesis by (simp add: stagedOf_def proper_def slash_def)
  next
    case False
    have "\<forall>c \<in> set (butlast (elems full)). proper c" "proper (last (elems full))"
      using pr False by (auto simp: list_all_iff dest: in_set_butlastD)
    then show ?thesis using False proper_partial by (simp add: stagedOf_def list_all_iff)
  qed
  moreover have "parents_first (stagedOf (elems full))"
    unfolding parents_first_def using ps by (intro exI [of _ 0] exI [of _ "stagedOf (elems full)"]) simp
  ultimately show ?thesis by (simp add: elems_render)
qed

text \<open>A path beyond the sandbox is not one the functions work on, nor below one.\<close>

lemma beyond_full:
  assumes out: "beyond cwd r p" and R: "R \<in> set (roots cwd r)" "prefix R f"
  shows "\<not> prefix f p" and "p \<noteq> f"
proof -
  have no: "\<not> prefix R p" using out R(1) by (auto simp: beyond_def list_all_iff)
  show "\<not> prefix f p" using no R(2) prefix_order.order_trans by blast
  then show "p \<noteq> f" by auto
qed

lemma beyond_staged:
  assumes out: "beyond cwd r p" and R: "R \<in> set (roots cwd r)" "prefix R f" and "f \<notin> set (roots cwd r)"
  shows "p \<noteq> stagedOf f"
proof
  assume p: "p = stagedOf f"
  have no: "\<not> prefix R p" using out R(1) by (auto simp: beyond_def list_all_iff)
  from R(2) obtain zs where zs: "f = R @ zs" by (auto simp: prefix_def)
  with assms(4) R(1) obtain c cs where f: "f = R @ c # cs" by (cases zs) auto
  then have "prefix R (butlast f)" by (simp add: butlast_append)
  then have "prefix R (stagedOf f)" using f by (simp add: stagedOf_def)
  with p no show False by simp
qed

lemma mkdir_files: "osMkdirAll d fs = Some fs' \<Longrightarrow> fsFiles fs' = fsFiles fs"
  by (auto simp: osMkdirAll_def split: if_splits)

lemma write_files: "osWriteFile f data fs = Some fs' \<Longrightarrow> p \<noteq> f \<Longrightarrow> map_of (fsFiles fs') p = map_of (fsFiles fs) p"
  by (auto simp: osWriteFile_def split: if_splits)

lemma remove_files: "osRemove f fs = Some fs' \<Longrightarrow> p \<noteq> f \<Longrightarrow> map_of (fsFiles fs') p = map_of (fsFiles fs) p"
  by (auto simp: osRemove_def split: if_splits)

lemma rebase_eq_iff: "\<not> prefix a p \<Longrightarrow> \<not> prefix b p \<Longrightarrow> rebase a b q = p \<longleftrightarrow> q = p"
  by (auto simp: rebase_def)

lemma map_of_map_keys:
  assumes "\<And>q. f q = p \<longleftrightarrow> q = p"
  shows "map_of (map (\<lambda>(q, c). (f q, c)) m) p = map_of m p"
proof (induction m)
  case (Cons x m)
  obtain q c where x: "x = (q, c)" by (cases x)
  show ?case
  proof (cases "q = p")
    case True
    then have "f q = p" by (simp only: assms)
    with True show ?thesis by (simp add: x)
  next
    case False
    have "f q \<noteq> p" using assms [of q] False by blast
    then show ?thesis using False Cons by (simp add: x)
  qed
qed simp

lemma rename_files:
  assumes "osRename a b fs = Some fs'" and "\<not> prefix b p" and "\<not> prefix a p \<or> isFile fs a \<and> p \<noteq> a"
  shows "map_of (fsFiles fs') p = map_of (fsFiles fs) p"
proof (cases "map_of (fsFiles fs) a")
  case None
  with assms have "\<not> prefix a p" by (auto simp: isFile_def)
  then have "map_of (map (\<lambda>(q, c). (rebase a b q, c)) (fsFiles fs)) p = map_of (fsFiles fs) p"
    by (rule map_of_map_keys [OF rebase_eq_iff [OF _ assms(2)]])
  with None assms(1) show ?thesis by (auto simp: osRename_def split: if_splits)
next
  case (Some c)
  from assms(2,3) have "p \<noteq> a" "p \<noteq> b" by auto
  with Some assms(1) show ?thesis by (auto simp: osRename_def split: if_splits)
qed

lemma remove_or_same: "p \<noteq> f \<Longrightarrow> map_of (fsFiles (case osRemove f fs of None \<Rightarrow> fs | Some fs' \<Rightarrow> fs')) p = map_of (fsFiles fs) p"
  by (auto split: option.split dest: remove_files)

lemma write_isFile: "osWriteFile f data fs = Some fs' \<Longrightarrow> isFile fs' f"
  by (auto simp: osWriteFile_def isFile_def split: if_splits)

text \<open>Every function leaves the files beyond the sandbox as they are, except that \<open>write\<close> stages beside a root.\<close>

lemma delete_outside:
  assumes cwd: "IsAbs cwd" and out: "beyond cwd r p"
  shows "map_of (fsFiles (snd (fileDelete cwd r args fs))) p = map_of (fsFiles fs) p"
proof -
  have "p \<noteq> elems full" if "validatePath cwd r path = Inr full" for path full
    using validatePath_inside [OF cwd that] beyond_full [OF out] by blast
  then show ?thesis
    by (auto simp: fileDelete_def remove_files split: list.splits sum.splits option.splits)
qed

definition writesRoot :: "string \<Rightarrow> ext_runtime \<Rightarrow> string list \<Rightarrow> string list \<Rightarrow> bool" where
  "writesRoot cwd r R args \<longleftrightarrow>
     (case args of path # _ # _ \<Rightarrow> (case validatePath cwd r path of Inl _ \<Rightarrow> False | Inr full \<Rightarrow> elems full = R) | _ \<Rightarrow> False)"

lemma write_outside:
  assumes cwd: "IsAbs cwd" and out: "beyond cwd r p"
    and sibling: "list_all (\<lambda>R. p = stagedOf R \<longrightarrow> \<not> writesRoot cwd r R args) (roots cwd r)"
  shows "map_of (fsFiles (snd (fileWrite cwd r args fs))) p = map_of (fsFiles fs) p"
proof -
  have step: "map_of (fsFiles (snd (fileWrite cwd r (path # data # more) fs))) p = map_of (fsFiles fs) p"
    if ok: "validatePath cwd r path = Inr full" and args: "args = path # data # more" for path data more full
  proof -
    note abs = validatePath_inside [OF cwd ok]
    from abs(2) obtain R where R: "R \<in> set (roots cwd r)" "prefix R (elems full)" by blast
    have clean: "Clean full = full" by (rule validatePath_clean [OF cwd ok])
    have staged: "elems (stagedDownloadPath full) = stagedOf (elems full)" by (rule elems_staged [OF abs(1) clean])
    have far: "p \<noteq> stagedOf (elems full)"
    proof (cases "elems full \<in> set (roots cwd r)")
      case True
      have "writesRoot cwd r (elems full) args" by (simp add: writesRoot_def args ok)
      then show ?thesis using sibling True by (auto simp: list_all_iff)
    qed (rule beyond_staged [OF out R])
    note o = beyond_full [OF out R] far
    show ?thesis
    proof (cases "osMkdirAll (elems (Dir full)) fs")
      case None
      then show ?thesis by (simp add: fileWrite_def ok)
    next
      case (Some fs1)
      show ?thesis
      proof (cases "osWriteFile (stagedOf (elems full)) data fs1")
        case None
        with Some o(3) show ?thesis by (simp add: fileWrite_def ok staged remove_or_same mkdir_files [OF Some])
      next
        case w: (Some fs2)
        have fs2: "map_of (fsFiles fs2) p = map_of (fsFiles fs) p"
          using write_files [OF w o(3)] mkdir_files [OF Some] by simp
        show ?thesis
        proof (cases "osRename (stagedOf (elems full)) (elems full) fs2")
          case None
          with Some w o(3) fs2 show ?thesis by (simp add: fileWrite_def ok staged remove_or_same)
        next
          case rn: (Some fs3)
          have "map_of (fsFiles fs3) p = map_of (fsFiles fs2) p"
            by (rule rename_files [OF rn]) (use o write_isFile [OF w] in auto)
          with Some w rn fs2 show ?thesis by (simp add: fileWrite_def ok staged)
        qed
      qed
    qed
  qed
  show ?thesis
  proof (cases args)
    case (Cons path rest)
    then show ?thesis
    proof (cases rest)
      case (Cons data more)
      show ?thesis
      proof (cases "validatePath cwd r path")
        case (Inl e)
        then show ?thesis by (simp add: fileWrite_def \<open>args = path # rest\<close> Cons)
      next
        case (Inr full)
        from step [OF this, of data more] show ?thesis by (simp add: \<open>args = path # rest\<close> Cons)
      qed
    qed (simp add: fileWrite_def)
  qed (simp add: fileWrite_def)
qed

lemma writeBytes_outside:
  assumes cwd: "IsAbs cwd" and out: "beyond cwd r p"
  shows "map_of (fsFiles (snd (fileWriteBytes cwd r args decoded ap tr off fs))) p = map_of (fsFiles fs) p"
proof -
  have ne: "p \<noteq> elems full" if "validatePath cwd r path = Inr full" for path full
    using validatePath_inside [OF cwd that] beyond_full [OF out] by blast
  have step: "map_of (fsFiles (snd (fileWriteBytes cwd r (path # d # rest) decoded ap tr off fs))) p = map_of (fsFiles fs) p"
    if ok: "validatePath cwd r path = Inr full" for path d rest full
  proof (cases "(ap \<and> off \<noteq> None) \<or> (case off of None \<Rightarrow> False | Some n \<Rightarrow> n < 0)")
    case True
    then show ?thesis by (auto simp: fileWriteBytes_def ok)
  next
    case opts: False
    then have o1: "(ap \<and> off \<noteq> None) = False" and o2: "(case off of None \<Rightarrow> False | Some n \<Rightarrow> n < 0) = False" by blast+
    note head = fileWriteBytes_def list.case ok sum.case o1 o2 if_False
    show ?thesis
    proof (cases decoded)
      case None
      then show ?thesis by (simp only: head option.case snd_conv)
    next
      case dec: (Some data)
      show ?thesis
      proof (cases "osMkdirAll (elems (Dir full)) fs")
        case None
        then show ?thesis by (simp only: head dec option.case snd_conv)
      next
        case (Some fs1)
        define old where "old = (if tr then '''' else get_or '''' (fsFiles fs1) (elems full))"
        define pos where "pos = (if ap then length old else case off of None \<Rightarrow> 0 | Some n \<Rightarrow> nat n)"
        define new where "new = (if data = '''' then old
          else take pos (old @ replicate (pos - length old) (CHR 0x00)) @ data @ drop (pos + length data) old)"
        have "snd (fileWriteBytes cwd r (path # d # rest) decoded ap tr off fs)
            = snd (case osWriteFile (elems full) new fs1 of None \<Rightarrow> (FileError, fs1)
                   | Some fs2 \<Rightarrow> (FileWritten full (length data) (length new), fs2))"
          by (simp only: head dec Some option.case Let_def new_def pos_def old_def)
        then show ?thesis
          using mkdir_files [OF Some] write_files [OF _ ne [OF ok]] by (simp split: option.split)
      qed
    qed
  qed
  show ?thesis
  proof (cases args)
    case (Cons path rest0)
    note args = this
    then show ?thesis
    proof (cases rest0)
      case (Cons d rest)
      show ?thesis
      proof (cases "validatePath cwd r path")
        case (Inl e)
        then show ?thesis by (simp add: fileWriteBytes_def args Cons)
      next
        case (Inr full)
        from step [OF this, of d rest] show ?thesis by (simp add: args Cons)
      qed
    qed (simp add: fileWriteBytes_def)
  qed (simp add: fileWriteBytes_def)
qed

lemma copy_outside:
  assumes cwd: "IsAbs cwd" and out: "beyond cwd r p"
  shows "map_of (fsFiles (snd (fileCopy cwd r args fs))) p = map_of (fsFiles fs) p"
proof -
  have ne: "p \<noteq> elems full" if "validatePath cwd r path = Inr full" for path full
    using validatePath_inside [OF cwd that] beyond_full [OF out] by blast
  have step: "map_of (fsFiles (snd (fileCopy cwd r (src # dst # rest) fs))) p = map_of (fsFiles fs) p"
    if ok: "validatePath cwd r src = Inr a" "validatePath cwd r dst = Inr b" for src dst rest a b
  proof (cases "osMkdirAll (elems (Dir b)) fs")
    case None
    then show ?thesis by (simp add: fileCopy_def ok)
  next
    case (Some fs1)
    show ?thesis
    proof (cases "osWriteFile (elems b) '''' fs1")
      case None
      with Some show ?thesis by (simp add: fileCopy_def ok mkdir_files)
    next
      case w: (Some fs2)
      have "map_of (fsFiles fs2) p = map_of (fsFiles fs) p"
        using write_files [OF w ne [OF ok(2)]] mkdir_files [OF Some] by simp
      with Some w ne [OF ok(2)] show ?thesis by (simp add: fileCopy_def ok)
    qed
  qed
  show ?thesis
  proof (cases args)
    case (Cons src rest0)
    note args = this
    then show ?thesis
    proof (cases rest0)
      case (Cons dst rest)
      show ?thesis
      proof (cases "validatePath cwd r src")
        case (Inl e)
        then show ?thesis by (simp add: fileCopy_def args Cons)
      next
        case a: (Inr a)
        show ?thesis
        proof (cases "validatePath cwd r dst")
          case (Inl e)
          with a show ?thesis by (simp add: fileCopy_def args Cons)
        next
          case (Inr b)
          from step [OF a this, of rest] show ?thesis by (simp add: args Cons)
        qed
      qed
    qed (simp add: fileCopy_def)
  qed (simp add: fileCopy_def)
qed

lemma move_outside:
  assumes cwd: "IsAbs cwd" and out: "beyond cwd r p"
  shows "map_of (fsFiles (snd (fileMove cwd r args fs))) p = map_of (fsFiles fs) p"
proof -
  have no: "\<not> prefix (elems full) p" if "validatePath cwd r path = Inr full" for path full
    using validatePath_inside [OF cwd that] beyond_full [OF out] by blast
  have mv: "map_of (fsFiles fs2) p = map_of (fsFiles fs) p"
    if "validatePath cwd r src = Inr a" "validatePath cwd r dst = Inr b" "osMkdirAll d fs = Some fs1"
      "osRename (elems a) (elems b) fs1 = Some fs2" for src dst a b d fs1 fs2
    using rename_files [OF that(4) no [OF that(2)]] no [OF that(1)] mkdir_files [OF that(3)] by simp
  show ?thesis
    by (auto simp: fileMove_def mkdir_files mv split: list.splits sum.splits option.splits)
qed

section \<open>Sequences of calls\<close>

datatype file_call =
    CallExists "string list"
  | CallDelete "string list"
  | CallRead "string list"
  | CallReadBytes "string list" int int
  | CallWrite "string list"
  | CallWriteBytes "string list" "string option" bool bool "int option"
  | CallCopy "string list"
  | CallMove "string list"
  | CallGetSize "string list"

fun runCall :: "nat \<Rightarrow> string \<Rightarrow> ext_runtime \<Rightarrow> file_call \<Rightarrow> fsys \<Rightarrow> file_result \<times> fsys" where
  "runCall n cwd r (CallExists args) fs = (fileExists cwd r args fs, fs)"
| "runCall n cwd r (CallDelete args) fs = fileDelete cwd r args fs"
| "runCall n cwd r (CallRead args) fs = (fileRead cwd r args fs, fs)"
| "runCall n cwd r (CallReadBytes args off len) fs = (fileReadBytes n cwd r args off len fs, fs)"
| "runCall n cwd r (CallWrite args) fs = fileWrite cwd r args fs"
| "runCall n cwd r (CallWriteBytes args dec ap tr off) fs = fileWriteBytes cwd r args dec ap tr off fs"
| "runCall n cwd r (CallCopy args) fs = fileCopy cwd r args fs"
| "runCall n cwd r (CallMove args) fs = fileMove cwd r args fs"
| "runCall n cwd r (CallGetSize args) fs = (fileGetSize n cwd r args fs, fs)"

definition runCalls :: "nat \<Rightarrow> string \<Rightarrow> ext_runtime \<Rightarrow> file_call list \<Rightarrow> fsys \<Rightarrow> fsys" where
  "runCalls n cwd r cs fs = fold (\<lambda>c fs. snd (runCall n cwd r c fs)) cs fs"

text \<open>Only a \<open>write\<close> that names a root itself may touch the staged sibling of that root.\<close>

definition stagesBeside :: "string \<Rightarrow> ext_runtime \<Rightarrow> string list \<Rightarrow> file_call \<Rightarrow> bool" where
  "stagesBeside cwd r R c = (case c of CallWrite args \<Rightarrow> writesRoot cwd r R args | _ \<Rightarrow> False)"

lemma runCall_outside:
  assumes "IsAbs cwd" "beyond cwd r p" "list_all (\<lambda>R. p = stagedOf R \<longrightarrow> \<not> stagesBeside cwd r R c) (roots cwd r)"
  shows "map_of (fsFiles (snd (runCall n cwd r c fs))) p = map_of (fsFiles fs) p"
  using assms by (cases c) (simp_all add: delete_outside write_outside writeBytes_outside copy_outside move_outside stagesBeside_def)

lemma runCalls_outside:
  assumes "IsAbs cwd" "beyond cwd r p"
  shows "list_all (\<lambda>c. list_all (\<lambda>R. p = stagedOf R \<longrightarrow> \<not> stagesBeside cwd r R c) (roots cwd r)) cs \<Longrightarrow>
    map_of (fsFiles (runCalls n cwd r cs fs)) p = map_of (fsFiles fs) p"
  unfolding runCalls_def by (induction cs arbitrary: fs) (simp_all add: runCall_outside [OF assms])

lemma Inl_iff_not_Inr: "(\<exists>e. x = Inl e) \<longleftrightarrow> (\<forall>y. x \<noteq> Inr y)"
  by (cases x) auto

text \<open>What the functions that read return depends only on what lies below a root.\<close>

fun reads :: "file_call \<Rightarrow> bool" where
  "reads (CallExists _) = True"
| "reads (CallRead _) = True"
| "reads (CallReadBytes _ _ _) = True"
| "reads (CallGetSize _) = True"
| "reads _ = False"

definition sameInside :: "string \<Rightarrow> ext_runtime \<Rightarrow> fsys \<Rightarrow> fsys \<Rightarrow> bool" where
  "sameInside cwd r fs fs' \<longleftrightarrow>
     (\<forall>p. \<not> beyond cwd r p \<longrightarrow> map_of (fsFiles fs) p = map_of (fsFiles fs') p \<and> (p \<in> set (fsDirs fs) \<longleftrightarrow> p \<in> set (fsDirs fs')))"

lemma read_inside:
  assumes cwd: "IsAbs cwd" and eq: "sameInside cwd r fs fs'" and c: "reads c"
  shows "fst (runCall n cwd r c fs) = fst (runCall n cwd r c fs')"
proof -
  have same: "map_of (fsFiles fs) (elems full) = map_of (fsFiles fs') (elems full)" "isDir fs (elems full) = isDir fs' (elems full)"
    if ok: "validatePath cwd r path = Inr full" for path full
  proof -
    have "\<not> beyond cwd r (elems full)"
      using validatePath_inside [OF cwd ok] by (auto simp: beyond_def list_all_iff)
    then show "map_of (fsFiles fs) (elems full) = map_of (fsFiles fs') (elems full)" "isDir fs (elems full) = isDir fs' (elems full)"
      using eq by (auto simp: sameInside_def isDir_def)
  qed
  then have files: "isFile fs (elems full) = isFile fs' (elems full)" if "validatePath cwd r path = Inr full" for path full
    using that by (simp add: isFile_def)
  show ?thesis
    using c same files
    by (cases c) (auto simp: fileExists_def fileRead_def fileReadBytes_def fileGetSize_def Let_def split: list.split sum.split)
qed

text \<open> C14: whatever sequence of file functions an extension calls, with whatever arguments,
  every file that no root contains (the data directory of the extension and the download
  directories it was given) keeps its content, or keeps not existing. There is one exception: the
  staged sibling \<open><root>.partial\<close> of a root is touched by a \<open>write\<close> that names that root itself
  (see \<open>write_root_removes_sibling\<close>), and by nothing else. And what \<open>exists\<close>, \<open>read\<close>, \<open>readBytes\<close> and
  \<open>getSize\<close> return is the same in any two file systems that agree below the roots, so nothing is
  learnt of the rest. \<close>

theorem sandbox_confined:
  assumes "IsAbs cwd"
  shows "(list_all (\<lambda>R. \<not> prefix R p) (roots cwd r)
      \<and> list_all (\<lambda>c. list_all (\<lambda>R. p = stagedOf R \<longrightarrow> \<not> stagesBeside cwd r R c) (roots cwd r)) cs
      \<longrightarrow> map_of (fsFiles (runCalls n cwd r cs fs)) p = map_of (fsFiles fs) p)
    \<and> (sameInside cwd r fs fs' \<and> reads c \<longrightarrow> fst (runCall n cwd r c fs) = fst (runCall n cwd r c fs'))"
  using runCalls_outside [OF assms, of r p] read_inside [OF assms, of r fs fs' c n] by (auto simp: beyond_def)

definition exampleRuntime :: ext_runtime where
  "exampleRuntime = \<lparr>erFilePermission = True, erDataDir = ''/app/data/foo'', erAllowedDirs = [''/music'']\<rparr>"

definition exampleFiles :: fsys where
  "exampleFiles =
     \<lparr>fsFiles = [([''app'', ''data'', ''bar'', ''token''], ''secret''), ([''app'', ''data'', ''foo'', ''a''], ''x''),
                 ([''app'', ''data'', ''foo.partial''], ''other'')],
      fsDirs = [[''app''], [''app'', ''data''], [''app'', ''data'', ''bar''], [''app'', ''data'', ''foo''], [''music'']]\<rparr>"

lemma sandbox_confined_witness:
  "map_of (fsFiles (runCalls 0 ''/'' exampleRuntime
      [CallWrite [''../bar/token'', ''y''], CallDelete [''/app/data/bar/token''], CallMove [''a'', ''/music/b'']] exampleFiles))
    [''app'', ''data'', ''bar'', ''token''] = Some ''secret''
   \<and> fst (runCall 0 ''/'' exampleRuntime (CallRead [''a'']) (exampleFiles\<lparr>fsFiles := take 2 (fsFiles exampleFiles)\<rparr>)) = FileData ''x''"
proof -
  let ?cs = "[CallWrite [''../bar/token'', ''y''], CallDelete [''/app/data/bar/token''], CallMove [''a'', ''/music/b'']]"
  let ?p = "[''app'', ''data'', ''bar'', ''token'']" and ?fs' = "exampleFiles\<lparr>fsFiles := take 2 (fsFiles exampleFiles)\<rparr>"
  have cwd: "IsAbs ''/''" by code_simp
  have r: "roots ''/'' exampleRuntime = [[''app'', ''data'', ''foo''], [''music'']]" by code_simp
  have out: "list_all (\<lambda>R. \<not> prefix R ?p) (roots ''/'' exampleRuntime)" by code_simp
  have far: "list_all (\<lambda>c. list_all (\<lambda>R. ?p = stagedOf R \<longrightarrow> \<not> stagesBeside ''/'' exampleRuntime R c) (roots ''/'' exampleRuntime)) ?cs"
    by code_simp
  have "map_of (fsFiles exampleFiles) ?p = Some ''secret''" by code_simp
  then have kept: "map_of (fsFiles (runCalls 0 ''/'' exampleRuntime ?cs exampleFiles)) ?p = Some ''secret''"
    using sandbox_confined [OF cwd, THEN conjunct1, THEN mp, OF conjI [OF out far]] by simp
  have same: "sameInside ''/'' exampleRuntime exampleFiles ?fs'"
    by (auto simp: sameInside_def beyond_def r exampleFiles_def)
  have "fst (runCall 0 ''/'' exampleRuntime (CallRead [''a'']) exampleFiles) = FileData ''x''"
    by (simp add: fileRead_def) code_simp
  moreover have "reads (CallRead [''a''])" by simp
  ultimately have "fst (runCall 0 ''/'' exampleRuntime (CallRead [''a'']) ?fs') = FileData ''x''"
    using sandbox_confined [OF cwd, THEN conjunct2, THEN mp, OF conjI [OF same]] by metis
  with kept show ?thesis by simp
qed

text \<open>
  \<open>write\<close> stages beside the file it is given. Given a root itself, it stages beside the root:
  the write fails, since the root is a directory, and the staged file is removed, with
  whatever it replaced.
\<close>

lemma write_root_removes_sibling:
  "map_of (fsFiles exampleFiles) [''app'', ''data'', ''foo.partial''] = Some ''other''"
  "map_of (fsFiles (snd (fileWrite ''/'' exampleRuntime [''.'', ''y''] exampleFiles))) [''app'', ''data'', ''foo.partial''] = None"
  by code_simp+

text \<open>\<open>copy\<close> truncates the destination before it reads the source: a file copied onto itself is empty.\<close>

lemma copy_onto_itself:
  "map_of (fsFiles (snd (fileCopy ''/'' exampleRuntime [''a'', ''./a''] exampleFiles))) [''app'', ''data'', ''foo'', ''a''] = Some ''''"
  by code_simp

text \<open> \<open>validatePath\<close> accepts exactly the paths that lie in the sandbox: with the file
  permission, a relative path whose joined and cleaned form lies below the data directory,
  element by element (so \<open>../foobar\<close> is not below \<open>foo\<close>), and an absolute path below one of
  the allowed directories; and what it returns is absolute and clean, so that no later \<open>..\<close>
  can lead out of it. \<close>

theorem sandbox_paths_exact:
  assumes "IsAbs cwd"
  shows "(validatePath cwd r path = Inr full \<longleftrightarrow> erFilePermission r \<and>
      (if IsAbs path then full = Clean path \<and> (\<exists>d \<in> set (erAllowedDirs r). prefix (elems (Abs cwd d)) (elems full))
       else full = Abs cwd (Join [erDataDir r, Clean path]) \<and> prefix (elems (Abs cwd (erDataDir r))) (elems full)))
    \<and> (validatePath cwd r path = Inr full \<longrightarrow> IsAbs full \<and> Clean full = full)"
proof
  note iff = validatePath_iff [OF assms]
  show "validatePath cwd r path = Inr full \<longleftrightarrow> erFilePermission r \<and>
      (if IsAbs path then full = Clean path \<and> (\<exists>d \<in> set (erAllowedDirs r). prefix (elems (Abs cwd d)) (elems full))
       else full = Abs cwd (Join [erDataDir r, Clean path]) \<and> prefix (elems (Abs cwd (erDataDir r))) (elems full))"
    by (rule iff)
  show "validatePath cwd r path = Inr full \<longrightarrow> IsAbs full \<and> Clean full = full"
    using validatePath_inside(1) [OF assms] validatePath_clean [OF assms] by blast
qed

lemma sandbox_paths_exact_witness:
  "validatePath ''/'' exampleRuntime ''x/../y'' = Inr ''/app/data/foo/y''
   \<and> (\<forall>full. validatePath ''/'' exampleRuntime ''../foobar'' \<noteq> Inr full)"
proof -
  have cwd: "IsAbs ''/''" by code_simp
  have rel: "\<not> IsAbs ''x/../y''" "\<not> IsAbs ''../foobar''" by code_simp+
  have p: "erFilePermission exampleRuntime" "erDataDir exampleRuntime = ''/app/data/foo''" by (simp_all add: exampleRuntime_def)
  have y: "Abs ''/'' (Join [''/app/data/foo'', Clean ''x/../y'']) = ''/app/data/foo/y''" by code_simp
  have yp: "prefix (elems (Abs ''/'' ''/app/data/foo'')) (elems ''/app/data/foo/y'')" by code_simp
  have n: "\<not> prefix (elems (Abs ''/'' ''/app/data/foo'')) (elems (Abs ''/'' (Join [''/app/data/foo'', Clean ''../foobar''])))"
    by code_simp
  note exact = conjunct1 [OF sandbox_paths_exact [OF cwd]]
  have "validatePath ''/'' exampleRuntime ''x/../y'' = Inr ''/app/data/foo/y''"
    by (simp only: exact rel p y yp if_False simp_thms)
  moreover have "validatePath ''/'' exampleRuntime ''../foobar'' \<noteq> Inr full" for full
    using n by (simp only: exact rel p if_False) blast
  ultimately show ?thesis by blast
qed

text \<open>The list of allowed directories stays bounded, without duplicates, and holds what was last added.\<close>

lemma allowed_dirs_bounded:
  "length dirs \<le> maxAllowedDownloadDirs \<Longrightarrow> length (AddAllowedDownloadDir cwd dir dirs) \<le> maxAllowedDownloadDirs"
  by (auto simp: AddAllowedDownloadDir_def Let_def maxAllowedDownloadDirs_def)

lemma allowed_dir_added:
  assumes "IsAbs cwd" shows "\<exists>d \<in> set (AddAllowedDownloadDir cwd dir dirs). Clean d = Abs cwd dir"
  using Clean_Abs [OF assms] by (auto simp: AddAllowedDownloadDir_def Let_def list_ex_iff)

end
