(* ===== verification/LogBuffer.thy ===== *)
theory LogBuffer
  imports Bytes
begin

text \<open>
  The log of the mobile core (\<open>go_backend/logbuffer.go\<close>): a ring of 500 entries that the user
  interface reads in deltas. \<open>redact\<close> stands for the regular expressions that blank secrets
  in a message, \<open>lower\<close> for the Unicode part of \<open>strings.ToLower\<close>, and the text of the
  time of day is an argument. The specification is the list of all entries ever written:
  the ring shows a suffix of it.
\<close>

section \<open>The ring\<close>

record log_entry =
  leTimestamp :: string
  leLevel :: string
  leTag :: string
  leMessage :: string

definition noEntry :: log_entry where
  "noEntry = \<lparr>leTimestamp = '''', leLevel = '''', leTag = '''', leMessage = ''''\<rparr>"

record log_buffer =
  lbEntries :: "log_entry list"
  lbMaxSize :: int
  lbHead :: nat
  lbCount :: nat
  lbNextIndex :: int
  lbLoggingEnabled :: bool

definition defaultLogBufferSize :: nat where
  "defaultLogBufferSize = 500"

definition NewLogBuffer :: "log_buffer" where
  "NewLogBuffer = \<lparr>lbEntries = replicate defaultLogBufferSize noEntry, lbMaxSize = int defaultLogBufferSize,
     lbHead = 0, lbCount = 0, lbNextIndex = 0, lbLoggingEnabled = False\<rparr>"

definition SetLoggingEnabled :: "bool \<Rightarrow> log_buffer \<Rightarrow> log_buffer" where
  "SetLoggingEnabled e lb = lb\<lparr>lbLoggingEnabled := e\<rparr>"

definition logged :: "string \<Rightarrow> log_buffer \<Rightarrow> bool" where
  "logged level lb \<longleftrightarrow> lbLoggingEnabled lb \<or> level = ''ERROR'' \<or> level = ''FATAL''"

definition newEntry :: "(string \<Rightarrow> string) \<Rightarrow> string \<Rightarrow> string \<Rightarrow> string \<Rightarrow> string \<Rightarrow> log_entry" where
  "newEntry redact clock level tag message =
     \<lparr>leTimestamp = clock, leLevel = level, leTag = tag, leMessage = redact message\<rparr>"

definition storeEntry :: "log_entry \<Rightarrow> log_buffer \<Rightarrow> log_buffer" where
  "storeEntry entry lb =
     (if lbMaxSize lb \<le> 0 then lb
      else
        let size_ok = (length (lbEntries lb) = nat (lbMaxSize lb));
            lb1 = (if size_ok then lb
                   else lb\<lparr>lbEntries := replicate (nat (lbMaxSize lb)) noEntry, lbHead := 0, lbCount := 0\<rparr>);
            cap = nat (lbMaxSize lb);
            lb2 = (if lbCount lb1 < cap
                   then lb1\<lparr>lbEntries := (lbEntries lb1)[(lbHead lb1 + lbCount lb1) mod cap := entry],
                            lbCount := lbCount lb1 + 1\<rparr>
                   else lb1\<lparr>lbEntries := (lbEntries lb1)[lbHead lb1 := entry], lbHead := (lbHead lb1 + 1) mod cap\<rparr>)
        in lb2\<lparr>lbNextIndex := lbNextIndex lb2 + 1\<rparr>)"

definition Add :: "(string \<Rightarrow> string) \<Rightarrow> string \<Rightarrow> string \<Rightarrow> string \<Rightarrow> string \<Rightarrow> log_buffer \<Rightarrow> log_buffer" where
  "Add redact clock level tag message lb =
     (if \<not> logged level lb then lb else storeEntry (newEntry redact clock level tag message) lb)"

definition snapshotLocked :: "int \<Rightarrow> log_buffer \<Rightarrow> log_entry list" where
  "snapshotLocked offset0 lb =
     (let offset = nat (max 0 offset0)
      in if offset \<ge> lbCount lb then []
         else map (\<lambda>i. lbEntries lb ! ((lbHead lb + i) mod nat (lbMaxSize lb))) [offset..<lbCount lb])"

definition GetAll :: "log_buffer \<Rightarrow> log_entry list" where
  "GetAll lb = snapshotLocked 0 lb"

definition getSince :: "int \<Rightarrow> log_buffer \<Rightarrow> log_entry list \<times> int" where
  "getSince index0 lb =
     (let earliest = lbNextIndex lb - int (lbCount lb);
          index = max index0 earliest
      in if index \<ge> lbNextIndex lb then ([], lbNextIndex lb)
         else (snapshotLocked (index - earliest) lb, lbNextIndex lb))"

definition Clear :: "log_buffer \<Rightarrow> log_buffer" where
  "Clear lb = lb\<lparr>lbEntries := map (\<lambda>_. noEntry) (lbEntries lb), lbHead := 0, lbCount := 0\<rparr>"

section \<open>Lines of the core\<close>

definition trim_newline :: "string \<Rightarrow> string" where
  "trim_newline s = (if s \<noteq> [] \<and> last s = CHR 0x0A then butlast s else s)"

text \<open>A line starts with its tag in brackets, if that is not empty.\<close>

definition splitTag :: "string \<Rightarrow> string \<times> string" where
  "splitTag message =
     (if starts_with ''['' message then
        (case dropWhile (\<lambda>c. c \<noteq> CHR '']'') message of
           [] \<Rightarrow> (''Go'', message)
         | _ # rest \<Rightarrow>
             (let endBracket = length message - length rest - 1
              in if endBracket > 1 then (drop 1 (take endBracket message), trim_space rest) else (''Go'', message)))
      else (''Go'', message))"

definition levelOf :: "string \<Rightarrow> string" where
  "levelOf msgLower =
     (if contains ''error'' msgLower \<or> contains ''failed'' msgLower then ''ERROR''
      else if contains ''warning'' msgLower \<or> contains ''warn'' msgLower then ''WARN''
      else if contains ''success'' msgLower \<or> contains ''match found'' msgLower then ''INFO''
      else if contains ''searching'' msgLower \<or> contains ''trying'' msgLower \<or> contains ''found'' msgLower then ''DEBUG''
      else ''INFO'')"

definition GoLog :: "(string \<Rightarrow> string) \<Rightarrow> (string \<Rightarrow> string) \<Rightarrow> string \<Rightarrow> string \<Rightarrow> log_buffer \<Rightarrow> log_buffer" where
  "GoLog lower redact clock formatted lb =
     (let (tag, message) = splitTag (trim_newline formatted)
      in Add redact clock (levelOf (to_lower lower message)) tag message lb)"

section \<open>The entries ever written\<close>

datatype log_op =
    OpAdd string string string string
  | OpLine string string
  | OpEnable bool
  | OpClear

fun runLog :: "(string \<Rightarrow> string) \<Rightarrow> (string \<Rightarrow> string) \<Rightarrow> log_op \<Rightarrow> log_buffer \<Rightarrow> log_buffer" where
  "runLog lower redact (OpAdd clock level tag msg) lb = Add redact clock level tag msg lb"
| "runLog lower redact (OpLine clock line) lb = GoLog lower redact clock line lb"
| "runLog lower redact (OpEnable e) lb = SetLoggingEnabled e lb"
| "runLog lower redact OpClear lb = Clear lb"

definition runLogs :: "(string \<Rightarrow> string) \<Rightarrow> (string \<Rightarrow> string) \<Rightarrow> log_op list \<Rightarrow> log_buffer \<Rightarrow> log_buffer" where
  "runLogs lower redact os lb = fold (runLog lower redact) os lb"

text \<open>The specification: whether logging is on, all entries, and how many were there at the last clearing.\<close>

record log_spec =
  lsEnabled :: bool
  lsHistory :: "log_entry list"
  lsCleared :: nat

definition specAdd :: "string \<Rightarrow> log_entry \<Rightarrow> log_spec \<Rightarrow> log_spec" where
  "specAdd level e sp =
     (if lsEnabled sp \<or> level = ''ERROR'' \<or> level = ''FATAL'' then sp\<lparr>lsHistory := lsHistory sp @ [e]\<rparr> else sp)"

fun specLog :: "(string \<Rightarrow> string) \<Rightarrow> (string \<Rightarrow> string) \<Rightarrow> log_op \<Rightarrow> log_spec \<Rightarrow> log_spec" where
  "specLog lower redact (OpAdd clock level tag msg) sp = specAdd level (newEntry redact clock level tag msg) sp"
| "specLog lower redact (OpLine clock line) sp =
     (let (tag, msg) = splitTag (trim_newline line); level = levelOf (to_lower lower msg)
      in specAdd level (newEntry redact clock level tag msg) sp)"
| "specLog lower redact (OpEnable e) sp = sp\<lparr>lsEnabled := e\<rparr>"
| "specLog lower redact OpClear sp = sp\<lparr>lsCleared := length (lsHistory sp)\<rparr>"

definition specStart :: log_spec where
  "specStart = \<lparr>lsEnabled = False, lsHistory = [], lsCleared = 0\<rparr>"

definition specLogs :: "(string \<Rightarrow> string) \<Rightarrow> (string \<Rightarrow> string) \<Rightarrow> log_op list \<Rightarrow> log_spec" where
  "specLogs lower redact os = fold (specLog lower redact) os specStart"

definition firstShown :: "log_spec \<Rightarrow> nat" where
  "firstShown sp = max (lsCleared sp) (length (lsHistory sp) - defaultLogBufferSize)"

definition logRel :: "log_buffer \<Rightarrow> log_spec \<Rightarrow> bool" where
  "logRel lb sp \<longleftrightarrow>
     lbLoggingEnabled lb = lsEnabled sp \<and> lbMaxSize lb = int defaultLogBufferSize
     \<and> length (lbEntries lb) = defaultLogBufferSize \<and> lbHead lb < defaultLogBufferSize
     \<and> lsCleared sp \<le> length (lsHistory sp)
     \<and> lbNextIndex lb = int (length (lsHistory sp))
     \<and> snapshotLocked 0 lb = drop (firstShown sp) (lsHistory sp)
     \<and> lbCount lb = length (lsHistory sp) - firstShown sp"

lemma snapshot_0: "snapshotLocked 0 lb = map (\<lambda>i. lbEntries lb ! ((lbHead lb + i) mod nat (lbMaxSize lb))) [0..<lbCount lb]"
  by (simp add: snapshotLocked_def)

lemma snapshot_drop: "0 \<le> n \<Longrightarrow> snapshotLocked n lb = drop (nat n) (snapshotLocked 0 lb)"
  by (simp add: snapshotLocked_def Let_def drop_map)

lemma cap_pos: "0 < defaultLogBufferSize"
  by (simp add: defaultLogBufferSize_def)

lemma mod_cap_inj:
  assumes "i < n" "j < n" "(h + i) mod n = (h + j) mod (n::nat)" shows "i = j"
proof -
  have le: "a = b" if "a \<le> b" "b < n" "(h + a) mod n = (h + b) mod n" for a b
  proof -
    have "n dvd (h + b) - (h + a)" using that mod_eq_dvd_iff_nat [of "h + a" "h + b" n] by (metis add_le_cancel_left)
    then have "n dvd b - a" by simp
    with that show ?thesis by (auto dest: dvd_imp_le)
  qed
  from le [of i j] le [of j i] assms show ?thesis by (cases "i \<le> j") auto
qed

lemma storeEntry_snapshot:
  assumes cap: "lbMaxSize lb = int cap" "0 < cap" and len: "length (lbEntries lb) = cap"
    and hd: "lbHead lb < cap" and cnt: "lbCount lb \<le> cap"
  shows "snapshotLocked 0 (storeEntry e lb) =
    (if lbCount lb < cap then snapshotLocked 0 lb @ [e] else tl (snapshotLocked 0 lb) @ [e])"
proof (cases "lbCount lb < cap")
  case True
  have "(lbEntries lb)[(lbHead lb + lbCount lb) mod cap := e] ! ((lbHead lb + i) mod cap)
      = lbEntries lb ! ((lbHead lb + i) mod cap)" if "i < lbCount lb" for i
    by (rule nth_list_update_neq) (use mod_cap_inj [of "lbCount lb" cap i "lbHead lb"] that True in auto)
  moreover have "(lbHead lb + lbCount lb) mod cap < length (lbEntries lb)" using cap len by simp
  ultimately show ?thesis
    using True cap len by (simp add: snapshot_0 storeEntry_def Let_def)
next
  case False
  with cnt have c: "lbCount lb = cap" by simp
  have "(lbEntries lb)[lbHead lb := e] ! (((lbHead lb + 1) mod cap + i) mod cap)
      = (map (\<lambda>i. lbEntries lb ! ((lbHead lb + i) mod cap)) [1..<cap] @ [e]) ! i" if i: "i < cap" for i
  proof (cases "i = cap - 1")
    case True
    then have "(lbHead lb + 1) mod cap + i \<equiv> (lbHead lb + 1) mod cap + (cap - 1)" by simp
    then have "((lbHead lb + 1) mod cap + i) mod cap = (lbHead lb + 1 + (cap - 1)) mod cap"
      by (simp only: mod_add_left_eq)
    also have "\<dots> = lbHead lb" using cap hd by simp
    finally show ?thesis using True len hd by (simp add: nth_append)
  next
    case False
    have "((lbHead lb + 1) mod cap + i) mod cap = (lbHead lb + Suc i) mod cap" by (simp add: mod_simps)
    moreover have "(lbHead lb + Suc i) mod cap \<noteq> lbHead lb"
    proof -
      have "Suc i < cap" using False i by linarith
      with mod_cap_inj [of "Suc i" cap 0 "lbHead lb"] hd show ?thesis by auto
    qed
    ultimately show ?thesis using False i by (simp add: nth_append)
  qed
  then have "map (\<lambda>i. (lbEntries lb)[lbHead lb := e] ! (((lbHead lb + 1) mod cap + i) mod cap)) [0..<cap]
      = map (\<lambda>i. lbEntries lb ! ((lbHead lb + i) mod cap)) [1..<cap] @ [e]"
    using cap by (intro nth_equalityI) auto
  moreover have "tl [0..<cap] = [1..<cap]" using cap by (simp add: upt_conv_Cons)
  ultimately show ?thesis
    using c cap len by (simp add: snapshot_0 storeEntry_def Let_def map_tl [symmetric])
qed

lemma storeEntry_rest:
  assumes cap: "lbMaxSize lb = int cap" "0 < cap" and len: "length (lbEntries lb) = cap"
    and hd: "lbHead lb < cap" and cnt: "lbCount lb \<le> cap"
  shows "lbMaxSize (storeEntry e lb) = int cap" "length (lbEntries (storeEntry e lb)) = cap"
    "lbHead (storeEntry e lb) < cap" "lbCount (storeEntry e lb) = min cap (Suc (lbCount lb))"
    "lbNextIndex (storeEntry e lb) = lbNextIndex lb + 1"
    "lbLoggingEnabled (storeEntry e lb) = lbLoggingEnabled lb"
  using assms by (auto simp: storeEntry_def Let_def)

lemma logRel_store:
  assumes rel: "logRel lb sp"
  shows "logRel (storeEntry e lb) (sp\<lparr>lsHistory := lsHistory sp @ [e]\<rparr>)"
proof -
  let ?cap = defaultLogBufferSize
  have c: "lbCount lb \<le> ?cap" using rel by (auto simp: logRel_def firstShown_def)
  note a = rel [unfolded logRel_def]
  have ax: "lbMaxSize lb = int ?cap" "0 < ?cap" "length (lbEntries lb) = ?cap" "lbHead lb < ?cap" "lbCount lb \<le> ?cap"
    using a c cap_pos by auto
  note st = storeEntry_rest [OF ax, of e] storeEntry_snapshot [OF ax, of e]
  let ?h = "lsHistory sp" and ?f = "firstShown sp" and ?sp = "sp\<lparr>lsHistory := lsHistory sp @ [e]\<rparr>"
  have f: "firstShown ?sp = (if lbCount lb < ?cap then ?f else Suc ?f)"
    using a cap_pos by (auto simp: firstShown_def)
  have snap: "snapshotLocked 0 (storeEntry e lb) = drop (firstShown ?sp) (?h @ [e])"
  proof (cases "lbCount lb < ?cap")
    case True
    have "?f \<le> length ?h" using a by (auto simp: firstShown_def)
    then show ?thesis using True a f st by simp
  next
    case False
    then have "Suc ?f \<le> length ?h" using a cap_pos by auto
    then show ?thesis using False a f st by (simp add: drop_Suc tl_drop)
  qed
  have "min ?cap (Suc (lbCount lb)) = Suc (length ?h) - firstShown ?sp"
    using a c f by (auto simp: firstShown_def)
  then show ?thesis using st a snap by (simp add: logRel_def)
qed

lemma logRel_Add: "logRel lb sp \<Longrightarrow> logRel (Add redact clock level tag msg lb) (specAdd level (newEntry redact clock level tag msg) sp)"
  by (auto simp: Add_def specAdd_def logged_def logRel_store) (simp_all add: logRel_def)

lemma logRel_step: "logRel lb sp \<Longrightarrow> logRel (runLog lower redact x lb) (specLog lower redact x sp)"
proof (cases x)
  case (OpEnable e)
  moreover assume "logRel lb sp"
  moreover have "snapshotLocked 0 (SetLoggingEnabled e lb) = snapshotLocked 0 lb"
    by (simp add: snapshot_0 SetLoggingEnabled_def)
  moreover have "firstShown (sp\<lparr>lsEnabled := e\<rparr>) = firstShown sp" by (simp add: firstShown_def)
  ultimately show ?thesis by (simp add: logRel_def SetLoggingEnabled_def)
next
  case OpClear
  moreover assume "logRel lb sp"
  ultimately show ?thesis
    by (simp add: logRel_def Clear_def snapshotLocked_def firstShown_def cap_pos)
qed (simp_all add: GoLog_def Let_def logRel_Add split: prod.split)

lemma logRel_run: "logRel lb sp \<Longrightarrow> logRel (runLogs lower redact xs lb) (fold (specLog lower redact) xs sp)"
  unfolding runLogs_def by (induction xs arbitrary: lb sp) (simp_all add: logRel_step)

lemma logRel_start: "logRel NewLogBuffer specStart"
  by (simp add: logRel_def NewLogBuffer_def specStart_def snapshotLocked_def firstShown_def cap_pos)

lemma getSince_rel:
  assumes "logRel lb sp"
  shows "getSince n lb = (drop (max (nat n) (firstShown sp)) (lsHistory sp), int (length (lsHistory sp)))"
proof -
  note r = assms [unfolded logRel_def]
  have f: "firstShown sp \<le> length (lsHistory sp)" using r by (auto simp: firstShown_def)
  then have e: "lbNextIndex lb - int (lbCount lb) = int (firstShown sp)" using r by simp
  show ?thesis
  proof (cases "max n (int (firstShown sp)) \<ge> int (length (lsHistory sp))")
    case True
    then have "length (lsHistory sp) \<le> max (nat n) (firstShown sp)" by linarith
    then show ?thesis using True r e by (simp add: getSince_def Let_def)
  next
    case False
    have "snapshotLocked (max n (int (firstShown sp)) - int (firstShown sp)) lb
        = drop (nat (max n (int (firstShown sp)) - int (firstShown sp))) (drop (firstShown sp) (lsHistory sp))"
      using r by (subst snapshot_drop) auto
    also have "\<dots> = drop (max (nat n) (firstShown sp)) (lsHistory sp)"
    proof -
      have "nat (max n (int (firstShown sp)) - int (firstShown sp)) + firstShown sp = max (nat n) (firstShown sp)" by linarith
      then show ?thesis by (simp add: drop_drop add.commute)
    qed
    finally show ?thesis using False r e by (simp add: getSince_def Let_def)
  qed
qed

text \<open> C33: the log ring shows exactly the entries ever written: after any sequence of writes,
  lines of the core, switches of logging and clearings, reading from index \<open>n\<close> returns the
  entries number \<open>n\<close> and above, except those from before the last clearing and all but the
  last 500, oldest first, and the number of entries so far as the next index, so that a reader
  that continues from there misses nothing it could still be shown and sees nothing twice. \<close>

theorem log_since_exact:
  "getSince n (runLogs lower redact xs NewLogBuffer)
     = (drop (max (nat n) (firstShown (specLogs lower redact xs))) (lsHistory (specLogs lower redact xs)),
        int (length (lsHistory (specLogs lower redact xs))))"
  unfolding specLogs_def by (rule getSince_rel [OF logRel_run [OF logRel_start]])

lemma log_all_exact:
  "GetAll (runLogs lower redact xs NewLogBuffer) = drop (firstShown (specLogs lower redact xs)) (lsHistory (specLogs lower redact xs))"
  using logRel_run [OF logRel_start] by (simp add: GetAll_def specLogs_def logRel_def)

text \<open>A line that reports a success of \<open>no errors\<close> is an error, logged although logging is off.\<close>

lemma log_level_by_substring:
  "levelOf ''done, no errors'' = ''ERROR''" "levelOf ''found it'' = ''DEBUG''" "levelOf ''not found'' = ''DEBUG''"
  by code_simp+

end
