(* ===== verification/Caches.thy ===== *)
theory Caches
  imports Bytes
begin

text \<open>
  Two caches of the mobile core that share a policy, sweep what has expired, then evict the
  entry with the earliest time while there are too many: the prepared download requests
  (\<open>go_backend/download_preparation_cache.go\<close>) and the caches of the Deezer client
  (\<open>go_backend/deezer_cache.go\<close>). The locale holds what the two loops have in common. \<open>lower\<close>
  is the Unicode part of \<open>strings.ToLower\<close>. The order of a map is one Go may range over it in,
  so what is said of the victim among equals says nothing of which one it is.
\<close>

section \<open>Eviction\<close>

text \<open>The key of an entry with the earliest time, from a candidate on.\<close>

fun earliest :: "('v \<Rightarrow> time) \<Rightarrow> (string, 'v) gomap \<Rightarrow> string \<Rightarrow> time \<Rightarrow> string" where
  "earliest rank [] k t = k"
| "earliest rank ((i, v) # m) k t = (if rank v < t then earliest rank m i (rank v) else earliest rank m k t)"

lemma earliest_law:
  "(earliest rank m k t = k \<and> (\<forall>p \<in> set m. t \<le> rank (snd p)))
      \<or> (\<exists>v. (earliest rank m k t, v) \<in> set m \<and> rank v \<le> t \<and> (\<forall>p \<in> set m. rank v \<le> rank (snd p)))"
proof (induction m arbitrary: k t)
  case (Cons q m)
  obtain i e where q: "q = (i, e)" by (cases q)
  show ?case
  proof (cases "rank e < t")
    case True
    then have s: "earliest rank (q # m) k t = earliest rank m i (rank e)" by (simp add: q)
    from Cons.IH [of i "rank e"] show ?thesis
    proof (elim disjE conjE exE)
      assume "earliest rank m i (rank e) = i" "\<forall>p \<in> set m. rank e \<le> rank (snd p)"
      then show ?thesis unfolding s using True by (intro disjI2 exI [of _ e]) (simp add: q)
    next
      fix v assume "(earliest rank m i (rank e), v) \<in> set m" "rank v \<le> rank e"
        "\<forall>p \<in> set m. rank v \<le> rank (snd p)"
      then show ?thesis unfolding s using True by (intro disjI2 exI [of _ v]) (simp add: q)
    qed
  next
    case False
    then have s: "earliest rank (q # m) k t = earliest rank m k t" by (simp add: q)
    from Cons.IH [of k t] show ?thesis
    proof (elim disjE conjE exE)
      assume "earliest rank m k t = k" "\<forall>p \<in> set m. t \<le> rank (snd p)"
      then show ?thesis unfolding s using False by (simp add: q)
    next
      fix v assume "(earliest rank m k t, v) \<in> set m" "rank v \<le> t"
        "\<forall>p \<in> set m. rank v \<le> rank (snd p)"
      then show ?thesis unfolding s using False by (intro disjI2 exI [of _ v]) (simp add: q)
    qed
  qed
qed simp

lemma earliest_first:
  "\<exists>w. (earliest rank m k (rank v), w) \<in> set ((k, v) # m) \<and> (\<forall>p \<in> set ((k, v) # m). rank w \<le> rank (snd p))"
  using earliest_law [of rank m k "rank v"] by force



lemma length_del_present: "(k, v) \<in> set m \<Longrightarrow> wf_map m \<Longrightarrow> Suc (length (del k m)) = length m"
proof (induction m)
  case (Cons p m)
  obtain i w where p: "p = (i, w)" by (cases p)
  show ?case
  proof (cases "i = k")
    case True
    then have "del k m = m" using Cons.prems(2) by (force simp: p wf_map_def del_def filter_id_conv)
    then show ?thesis using True by (simp add: p)
  next
    case False
    then show ?thesis using Cons by (simp add: p wf_map_def)
  qed
qed simp

locale eviction =
  fixes victim :: "(string, 'v) gomap \<Rightarrow> string option"
    and evict :: "nat \<Rightarrow> (string, 'v) gomap \<Rightarrow> (string, 'v) gomap"
    and rank :: "'v \<Rightarrow> time"
  assumes loop: "evict n m = (if length m \<le> n then m else case victim m of None \<Rightarrow> m | Some k \<Rightarrow> evict n (del k m))"
    and least: "'''' \<notin> fst ` set m \<Longrightarrow> m \<noteq> [] \<Longrightarrow>
      \<exists>k v. victim m = Some k \<and> (k, v) \<in> set m \<and> (\<forall>p \<in> set m. rank v \<le> rank (snd p))"
begin

lemma evict_spec:
  assumes "'''' \<notin> fst ` set m" and "wf_map m"
  shows "length (evict n m) = min n (length m) \<and> wf_map (evict n m) \<and> set (evict n m) \<subseteq> set m
    \<and> (\<forall>p \<in> set m. \<forall>q \<in> set (evict n m). p \<in> set (evict n m) \<or> rank (snd p) \<le> rank (snd q))"
  using assms
proof (induction "length m" arbitrary: m rule: less_induct)
  case less
  show ?case
  proof (cases "length m \<le> n")
    case True
    then show ?thesis using less.prems by (simp add: loop [of n m])
  next
    case False
    then have "m \<noteq> []" by auto
    from least [OF less.prems(1) this] obtain k v
      where k: "victim m = Some k" "(k, v) \<in> set m" "\<forall>p \<in> set m. rank v \<le> rank (snd p)" by blast
    have sub: "set (del k m) \<subseteq> set m" by (auto simp: set_del)
    have len: "Suc (length (del k m)) = length m" using k(2) less.prems(2) by (rule length_del_present)
    then have short: "length (del k m) < length m" by simp
    have e: "evict n m = evict n (del k m)" using False k(1) by (subst loop) simp
    have ne: "'''' \<notin> fst ` set (del k m)" using sub less.prems(1) by blast
    note IH = less.hyps [OF short ne wf_map_del [OF less.prems(2)]]
    have "p \<in> set (evict n m) \<or> rank (snd p) \<le> rank (snd q)" if "p \<in> set m" "q \<in> set (evict n m)" for p q
    proof (cases "fst p = k")
      case True
      have "snd p = v"
        using True that(1) k(2) less.prems(2) by (cases p) (auto simp: wf_map_def dest: eq_key_imp_eq_value)
      moreover have "q \<in> set m" using that(2) IH sub e by auto
      ultimately show ?thesis using k(3) by blast
    next
      case False
      then have "p \<in> set (del k m)" using that(1) by (auto simp: set_del)
      then show ?thesis using IH that(2) e by auto
    qed
    moreover have "min n (length (del k m)) = min n (length m)" using len False by simp
    ultimately show ?thesis using IH sub e by auto
  qed
qed

end

section \<open>Prepared download requests\<close>

record download_request =
  drContractVersion :: int
  drISRC :: string
  drService :: string
  drDownloadProvider :: string
  drProviderTrackID :: string
  drSpotifyID :: string
  drTrackName :: string
  drArtistName :: string
  drAlbumName :: string
  drAlbumArtist :: string
  drCoverURL :: string
  drOutputDir :: string
  drOutputPath :: string
  drOutputFD :: int
  drOutputExt :: string
  drFilenameFormat :: string
  drQuality :: string
  drEmbedMetadata :: bool
  drArtistTagMode :: string
  drEmbedLyrics :: bool
  drEmbedReplayGain :: bool
  drPostProcessingEnabled :: bool
  drTidalHighFormat :: string
  drTrackNumber :: int
  drPlaylistPosition :: int
  drDiscNumber :: int
  drTotalTracks :: int
  drTotalDiscs :: int
  drReleaseDate :: string
  drItemID :: string
  drDurationMS :: int
  drSource :: string
  drGenre :: string
  drLabel :: string
  drCopyright :: string
  drComposer :: string
  drComment :: string
  drExplicit :: bool
  drAlbumType :: string
  drUPC :: string
  drTidalID :: string
  drQobuzID :: string
  drDeezerID :: string
  drLyricsMode :: string
  drUseExtensions :: bool
  drUseFallback :: bool
  drRequiresContainerConversion :: bool
  drAllowQualityVariant :: bool
  drQualityVariant :: string
  drSongLinkRegion :: string

definition downloadPreparationCacheTTL :: int where
  "downloadPreparationCacheTTL = 5 * 60 * nanos_per_second"

definition downloadPreparationCacheMax :: nat where
  "downloadPreparationCacheMax = 128"

record prepared_entry =
  peKey :: string
  peRequest :: download_request
  peMetadataPrepared :: bool
  peCreatedAt :: time

definition downloadPreparationKey :: "(string \<Rightarrow> string) \<Rightarrow> download_request \<Rightarrow> string" where
  "downloadPreparationKey lower req =
     join_on (CHR 0x0A)
       [trim_space (drItemID req), to_lower lower (trim_space (drService req)), to_lower lower (trim_space (drSource req)),
        trim_space (drSpotifyID req), trim_space (drTidalID req), trim_space (drQobuzID req), trim_space (drDeezerID req),
        to_lower lower (trim_space (drTrackName req)), to_lower lower (trim_space (drArtistName req))]"

fun oldestPrepared :: "(string, prepared_entry) gomap \<Rightarrow> string \<Rightarrow> time \<Rightarrow> string" where
  "oldestPrepared [] oldestID oldestAt = oldestID"
| "oldestPrepared ((itemID, entry) # m) oldestID oldestAt =
     (if oldestID = '''' \<or> peCreatedAt entry < oldestAt then oldestPrepared m itemID (peCreatedAt entry)
      else oldestPrepared m oldestID oldestAt)"

lemma oldestPrepared_in: "oldestPrepared m k t = k \<or> oldestPrepared m k t \<in> fst ` set m"
  by (induction m k t rule: oldestPrepared.induct) auto

function evictPrepared :: "nat \<Rightarrow> (string, prepared_entry) gomap \<Rightarrow> (string, prepared_entry) gomap" where
  "evictPrepared n m =
     (if length m \<le> n then m
      else let oldestID = oldestPrepared m '''' zero_time
           in if oldestID = '''' then m else evictPrepared n (del oldestID m))"
  by pat_completeness auto
termination
proof (relation "measure (\<lambda>(n, m). length m)")
  fix n :: nat and m :: "(string, prepared_entry) gomap" and x
  assume "x = oldestPrepared m '''' zero_time" "x \<noteq> ''''"
  then have "x \<in> fst ` set m" using oldestPrepared_in [of m "''''" zero_time] by auto
  then have "length (del x m) < length m" unfolding del_def by (auto intro!: length_filter_less)
  then show "((n, del x m), (n, m)) \<in> measure (\<lambda>(n, m). length m)" by simp
qed simp

declare evictPrepared.simps [simp del]

definition prunePrepared :: "time \<Rightarrow> (string, prepared_entry) gomap \<Rightarrow> (string, prepared_entry) gomap" where
  "prunePrepared now m =
     evictPrepared (downloadPreparationCacheMax - 1)
       (filter (\<lambda>(_, entry). \<not> now - peCreatedAt entry \<ge> downloadPreparationCacheTTL) m)"

definition cacheDownloadRequest ::
  "time \<Rightarrow> string \<Rightarrow> download_request \<Rightarrow> bool \<Rightarrow> (string, prepared_entry) gomap \<Rightarrow> (string, prepared_entry) gomap" where
  "cacheDownloadRequest now key req metadataPrepared m =
     (let itemID = trim_space (drItemID req)
      in if itemID = '''' \<or> trim_space key = '''' then m
         else put itemID \<lparr>peKey = key, peRequest = req, peMetadataPrepared = metadataPrepared, peCreatedAt = now\<rparr> (prunePrepared now m))"

definition mergePrepared :: "download_request \<Rightarrow> download_request \<Rightarrow> download_request" where
  "mergePrepared prepared fresh =
        fresh\<lparr>drISRC := drISRC prepared, drSpotifyID := drSpotifyID prepared,
          drTrackName := drTrackName prepared, drArtistName := drArtistName prepared,
          drAlbumName := drAlbumName prepared, drAlbumArtist := drAlbumArtist prepared,
          drCoverURL := drCoverURL prepared, drTrackNumber := drTrackNumber prepared,
          drDiscNumber := drDiscNumber prepared, drTotalTracks := drTotalTracks prepared,
          drTotalDiscs := drTotalDiscs prepared, drReleaseDate := drReleaseDate prepared,
          drDurationMS := drDurationMS prepared, drGenre := drGenre prepared,
          drLabel := drLabel prepared, drCopyright := drCopyright prepared,
          drComposer := drComposer prepared, drTidalID := drTidalID prepared,
          drQobuzID := drQobuzID prepared, drDeezerID := drDeezerID prepared\<rparr>"

definition takePreparedDownloadRequest ::
  "time \<Rightarrow> string \<Rightarrow> download_request \<Rightarrow> (string, prepared_entry) gomap \<Rightarrow>
     (download_request \<times> bool \<times> bool) \<times> (string, prepared_entry) gomap" where
  "takePreparedDownloadRequest now key fresh m0 =
     (let itemID = trim_space (drItemID fresh)
      in if itemID = '''' \<or> trim_space key = '''' then ((fresh, False, False), m0)
         else
           let m = prunePrepared now m0
           in case map_of m itemID of
                None \<Rightarrow> ((fresh, False, False), m)
              | Some entry \<Rightarrow>
                  if peKey entry \<noteq> key then ((fresh, False, False), del itemID m)
                  else ((mergePrepared (peRequest entry) fresh, peMetadataPrepared entry, True), del itemID m))"

definition preparedVictim :: "(string, prepared_entry) gomap \<Rightarrow> string option" where
  "preparedVictim m = (let k = oldestPrepared m '''' zero_time in if k = '''' then None else Some k)"

lemma oldestPrepared_earliest:
  "'''' \<notin> fst ` set m \<Longrightarrow> k \<noteq> '''' \<Longrightarrow> oldestPrepared m k t = earliest peCreatedAt m k t"
  by (induction m arbitrary: k t) auto

lemma preparedVictim_law:
  assumes "'''' \<notin> fst ` set m" "m \<noteq> []"
  shows "\<exists>k v. preparedVictim m = Some k \<and> (k, v) \<in> set m \<and> (\<forall>p \<in> set m. peCreatedAt v \<le> peCreatedAt (snd p))"
proof -
  from assms obtain i e m' where m: "m = (i, e) # m'" by (cases m) auto
  then have o: "oldestPrepared m '''' zero_time = earliest peCreatedAt m' i (peCreatedAt e)"
    using assms(1) oldestPrepared_earliest [of m' i "peCreatedAt e"] by auto
  from earliest_first [of peCreatedAt m' i e] obtain w where
    w: "(earliest peCreatedAt m' i (peCreatedAt e), w) \<in> set m" "\<forall>p \<in> set m. peCreatedAt w \<le> peCreatedAt (snd p)"
    unfolding m by blast
  then have "earliest peCreatedAt m' i (peCreatedAt e) \<noteq> ''''" using assms(1) by force
  with w o show ?thesis by (auto simp: preparedVictim_def)
qed

interpretation prep: eviction preparedVictim evictPrepared peCreatedAt
proof unfold_locales
  show "evictPrepared n m = (if length m \<le> n then m else case preparedVictim m of None \<Rightarrow> m | Some k \<Rightarrow> evictPrepared n (del k m))"
    for n m by (subst evictPrepared.simps) (simp add: preparedVictim_def Let_def)
qed (rule preparedVictim_law)

definition unexpired :: "time \<Rightarrow> (string, prepared_entry) gomap \<Rightarrow> (string, prepared_entry) gomap" where
  "unexpired now m = filter (\<lambda>(_, entry). \<not> now - peCreatedAt entry \<ge> downloadPreparationCacheTTL) m"

lemma cache_prune_spec:
  assumes ne: "'''' \<notin> fst ` set m" and wf: "wf_map m"
  shows "length (prunePrepared now m) = min 127 (length (unexpired now m))" and "wf_map (prunePrepared now m)"
    and "set (prunePrepared now m) \<subseteq> set (unexpired now m)"
    and "p \<in> set (unexpired now m) \<Longrightarrow> q \<in> set (prunePrepared now m) \<Longrightarrow>
      p \<in> set (prunePrepared now m) \<or> peCreatedAt (snd p) \<le> peCreatedAt (snd q)"
proof -
  have sub: "set (unexpired now m) \<subseteq> set m" by (auto simp: unexpired_def)
  then have f: "'''' \<notin> fst ` set (unexpired now m)" "wf_map (unexpired now m)" using ne wf by (blast, simp add: unexpired_def)
  have p: "prunePrepared now m = evictPrepared 127 (unexpired now m)"
    by (simp add: prunePrepared_def unexpired_def downloadPreparationCacheMax_def)
  note ev = prep.evict_spec [OF f, of 127]
  show "length (prunePrepared now m) = min 127 (length (unexpired now m))" "wf_map (prunePrepared now m)"
    "set (prunePrepared now m) \<subseteq> set (unexpired now m)" unfolding p using ev by blast+
  show "p \<in> set (prunePrepared now m) \<or> peCreatedAt (snd p) \<le> peCreatedAt (snd q)"
    if "p \<in> set (unexpired now m)" "q \<in> set (prunePrepared now m)" using ev that unfolding p by blast
qed

lemma set_unexpired: "(k, e) \<in> set (unexpired now m) \<longleftrightarrow> (k, e) \<in> set m \<and> now - peCreatedAt e < downloadPreparationCacheTTL"
  by (auto simp: unexpired_def)

section \<open>The caches of the Deezer client\<close>

record 'a cache_entry =
  ceData :: 'a
  ceExpiresAt :: time

definition isExpired :: "time \<Rightarrow> 'a cache_entry \<Rightarrow> bool" where
  "isExpired now e \<longleftrightarrow> now > ceExpiresAt e"

type_synonym 'a entry_cache = "(string, 'a cache_entry option) gomap"

record 'a deezer_client =
  dcSearchCache :: "'a entry_cache"
  dcAlbumCache :: "'a entry_cache"
  dcArtistCache :: "'a entry_cache"
  dcIsrcCache :: "(string, string) gomap"
  dcLastCacheCleanup :: time
  dcCacheCleanupInterval :: int

definition deezerCacheTTL :: int where "deezerCacheTTL = 10 * 60 * nanos_per_second"
definition deezerMaxSearchCacheEntries :: nat where "deezerMaxSearchCacheEntries = 300"
definition deezerMaxAlbumCacheEntries :: nat where "deezerMaxAlbumCacheEntries = 200"
definition deezerMaxArtistCacheEntries :: nat where "deezerMaxArtistCacheEntries = 200"
definition deezerMaxISRCCacheEntries :: nat where "deezerMaxISRCCacheEntries = 4000"
definition deezerCacheCleanupInterval :: int where "deezerCacheCleanupInterval = 5 * 60 * nanos_per_second"

definition NewDeezerClient :: "'a deezer_client" where
  "NewDeezerClient = \<lparr>dcSearchCache = [], dcAlbumCache = [], dcArtistCache = [], dcIsrcCache = [],
     dcLastCacheCleanup = zero_time, dcCacheCleanupInterval = deezerCacheCleanupInterval\<rparr>"

definition pruneExpiredCacheEntries :: "time \<Rightarrow> 'a entry_cache \<Rightarrow> 'a entry_cache" where
  "pruneExpiredCacheEntries now cache =
     filter (\<lambda>(_, entry). \<not> (case entry of None \<Rightarrow> True | Some e \<Rightarrow> now > ceExpiresAt e)) cache"

definition expiryOf :: "'a cache_entry option \<Rightarrow> time" where
  "expiryOf entry = (case entry of None \<Rightarrow> zero_time | Some e \<Rightarrow> ceExpiresAt e)"

fun oldestExpiring :: "'a entry_cache \<Rightarrow> bool \<Rightarrow> string \<Rightarrow> time \<Rightarrow> string" where
  "oldestExpiring [] isFirst oldestKey oldestExpiry = oldestKey"
| "oldestExpiring ((key, entry) # m) isFirst oldestKey oldestExpiry =
     (if isFirst \<or> expiryOf entry < oldestExpiry then oldestExpiring m False key (expiryOf entry)
      else oldestExpiring m isFirst oldestKey oldestExpiry)"

lemma oldestExpiring_in: "oldestExpiring m f k t = k \<or> oldestExpiring m f k t \<in> fst ` set m"
  by (induction m f k t rule: oldestExpiring.induct) auto

function trimLoop :: "nat \<Rightarrow> 'a entry_cache \<Rightarrow> 'a entry_cache" where
  "trimLoop maxEntries cache =
     (if length cache \<le> maxEntries then cache
      else let oldestKey = oldestExpiring cache True '''' zero_time
           in if oldestKey = '''' then cache else trimLoop maxEntries (del oldestKey cache))"
  by pat_completeness auto
termination
proof (relation "measure (\<lambda>(n, m). length m)")
  fix n :: nat and m :: "'a entry_cache" and x
  assume "x = oldestExpiring m True '''' zero_time" "x \<noteq> ''''"
  then have "x \<in> fst ` set m" using oldestExpiring_in [of m True "''''" zero_time] by auto
  then have "length (del x m) < length m" unfolding del_def by (auto intro!: length_filter_less)
  then show "((n, del x m), (n, m)) \<in> measure (\<lambda>(n, m). length m)" by simp
qed simp

declare trimLoop.simps [simp del]

definition trimCacheEntries :: "nat \<Rightarrow> 'a entry_cache \<Rightarrow> 'a entry_cache" where
  "trimCacheEntries maxEntries cache =
     (if maxEntries = 0 \<or> length cache \<le> maxEntries then cache else trimLoop maxEntries cache)"

text \<open>Which strings go is up to the order Go ranges over the map in: here the first ones.\<close>

definition trimStringCacheEntries :: "nat \<Rightarrow> (string, string) gomap \<Rightarrow> (string, string) gomap" where
  "trimStringCacheEntries maxEntries cache =
     (if maxEntries = 0 \<or> length cache \<le> maxEntries then cache else drop (length cache - maxEntries) cache)"

definition trimDue :: "bool \<Rightarrow> time \<Rightarrow> nat \<Rightarrow> 'a entry_cache \<Rightarrow> 'a entry_cache" where
  "trimDue periodic now n cache =
     (if length cache > n
      then trimCacheEntries n (if periodic then cache else pruneExpiredCacheEntries now cache)
      else cache)"

definition cleanupDue :: "time \<Rightarrow> 'a deezer_client \<Rightarrow> bool" where
  "cleanupDue now c \<longleftrightarrow> dcCacheCleanupInterval c > 0
     \<and> (dcLastCacheCleanup c = zero_time \<or> now - dcLastCacheCleanup c \<ge> dcCacheCleanupInterval c)"

definition maybeCleanupCaches :: "time \<Rightarrow> 'a deezer_client \<Rightarrow> 'a deezer_client" where
  "maybeCleanupCaches now c =
     (let periodic = cleanupDue now c;
          c1 = (if periodic
                then c\<lparr>dcSearchCache := pruneExpiredCacheEntries now (dcSearchCache c),
                       dcAlbumCache := pruneExpiredCacheEntries now (dcAlbumCache c),
                       dcArtistCache := pruneExpiredCacheEntries now (dcArtistCache c),
                       dcLastCacheCleanup := now\<rparr>
                else c)
      in c1\<lparr>dcSearchCache := trimDue periodic now deezerMaxSearchCacheEntries (dcSearchCache c1),
            dcAlbumCache := trimDue periodic now deezerMaxAlbumCacheEntries (dcAlbumCache c1),
            dcArtistCache := trimDue periodic now deezerMaxArtistCacheEntries (dcArtistCache c1),
            dcIsrcCache := (if length (dcIsrcCache c1) > deezerMaxISRCCacheEntries
                            then trimStringCacheEntries deezerMaxISRCCacheEntries (dcIsrcCache c1)
                            else dcIsrcCache c1)\<rparr>)"

definition expiringVictim :: "'a entry_cache \<Rightarrow> string option" where
  "expiringVictim m = (let k = oldestExpiring m True '''' zero_time in if k = '''' then None else Some k)"

lemma oldestExpiring_earliest: "oldestExpiring m False k t = earliest expiryOf m k t"
  by (induction m arbitrary: k t) auto

interpretation deezer: eviction expiringVictim trimLoop expiryOf
proof unfold_locales
  show "trimLoop n m = (if length m \<le> n then m else case expiringVictim m of None \<Rightarrow> m | Some k \<Rightarrow> trimLoop n (del k m))"
    for n and m :: "'a entry_cache" by (subst trimLoop.simps) (simp add: expiringVictim_def Let_def)
  show "\<exists>k v. expiringVictim m = Some k \<and> (k, v) \<in> set m \<and> (\<forall>p \<in> set m. expiryOf v \<le> expiryOf (snd p))"
    if "'''' \<notin> fst ` set m" "m \<noteq> []" for m :: "'a entry_cache"
  proof -
    from that obtain i e m' where m: "m = (i, e) # m'" by (cases m) auto
    then have o: "oldestExpiring m True '''' zero_time = earliest expiryOf m' i (expiryOf e)"
      by (simp add: oldestExpiring_earliest)
    from earliest_first [of expiryOf m' i e] obtain w where
      w: "(earliest expiryOf m' i (expiryOf e), w) \<in> set m" "\<forall>p \<in> set m. expiryOf w \<le> expiryOf (snd p)"
      unfolding m by blast
    then have "earliest expiryOf m' i (expiryOf e) \<noteq> ''''" using that(1) by force
    with w o show ?thesis by (auto simp: expiringVictim_def)
  qed
qed

lemma prune_expired: "set (pruneExpiredCacheEntries now m) = {p \<in> set m. \<exists>e. snd p = Some e \<and> \<not> isExpired now e}"
  by (auto simp: pruneExpiredCacheEntries_def isExpired_def split: option.splits)

lemma trimDue_spec:
  assumes "'''' \<notin> fst ` set m" and "wf_map m" and "0 < n"
  shows "length (trimDue periodic now n m) \<le> n \<and> wf_map (trimDue periodic now n m) \<and> set (trimDue periodic now n m) \<subseteq> set m
    \<and> (\<forall>k e q. (k, Some e) \<in> set m \<longrightarrow> \<not> isExpired now e \<longrightarrow> (k, Some e) \<notin> set (trimDue periodic now n m) \<longrightarrow>
        q \<in> set (trimDue periodic now n m) \<longrightarrow> ceExpiresAt e \<le> expiryOf (snd q))"
proof (cases "length m > n")
  case False
  then show ?thesis using assms by (simp add: trimDue_def)
next
  case True
  define m1 where "m1 = (if periodic then m else pruneExpiredCacheEntries now m)"
  have sub: "set m1 \<subseteq> set m" "wf_map m1" "'''' \<notin> fst ` set m1"
    using assms by (auto simp: m1_def prune_expired) (auto simp: pruneExpiredCacheEntries_def)
  have keep: "(k, Some e) \<in> set m1" if "(k, Some e) \<in> set m" "\<not> isExpired now e" for k e
    using that by (auto simp: m1_def prune_expired)
  have t: "trimDue periodic now n m = (if length m1 \<le> n then m1 else trimLoop n m1)"
    using True assms(3) by (simp add: trimDue_def m1_def trimCacheEntries_def)
  note ev = deezer.evict_spec [OF sub(3,2), of n]
  show ?thesis
  proof (cases "length m1 \<le> n")
    case True
    then show ?thesis using t sub keep by auto
  next
    case False
    have "ceExpiresAt e \<le> expiryOf (snd q)"
      if "(k, Some e) \<in> set m" "\<not> isExpired now e" "(k, Some e) \<notin> set (trimLoop n m1)" "q \<in> set (trimLoop n m1)" for k e q
    proof -
      have "expiryOf (snd (k, Some e)) \<le> expiryOf (snd q)" using ev keep [OF that(1,2)] that(3,4) by blast
      then show ?thesis by (simp add: expiryOf_def)
    qed
    then show ?thesis using False t sub ev by auto
  qed
qed

section \<open>What the caches promise\<close>

definition deezerOK :: "'a deezer_client \<Rightarrow> bool" where
  "deezerOK c \<longleftrightarrow> list_all (\<lambda>m. wf_map m \<and> '''' \<notin> fst ` set m) [dcSearchCache c, dcAlbumCache c, dcArtistCache c]
     \<and> wf_map (dcIsrcCache c)"

text \<open>The entries a cleanup lets go although they have not expired go no later than those it keeps.\<close>

definition keepsLongest :: "time \<Rightarrow> 'a entry_cache \<Rightarrow> 'a entry_cache \<Rightarrow> bool" where
  "keepsLongest now m m' \<longleftrightarrow> set m' \<subseteq> set m \<and>
     (\<forall>k e q. (k, Some e) \<in> set m \<longrightarrow> \<not> isExpired now e \<longrightarrow> (k, Some e) \<notin> set m' \<longrightarrow> q \<in> set m' \<longrightarrow> ceExpiresAt e \<le> expiryOf (snd q))"

lemma trimDue_keeps:
  assumes "'''' \<notin> fst ` set m" "wf_map m" "0 < n"
  shows "keepsLongest now m (trimDue periodic now n (if periodic then pruneExpiredCacheEntries now m else m))"
    "length (trimDue periodic now n (if periodic then pruneExpiredCacheEntries now m else m)) \<le> n"
    "wf_map (trimDue periodic now n (if periodic then pruneExpiredCacheEntries now m else m))"
proof -
  let ?m = "if periodic then pruneExpiredCacheEntries now m else m"
  have sub: "set ?m \<subseteq> set m" and wf: "wf_map ?m"
    using assms(2) by (auto simp: prune_expired) (auto simp: pruneExpiredCacheEntries_def)
  then have ne: "'''' \<notin> fst ` set ?m" using assms(1) by blast
  have keep: "(k, Some e) \<in> set ?m" if "(k, Some e) \<in> set m" "\<not> isExpired now e" for k e
    using that by (simp add: prune_expired)
  note t = trimDue_spec [OF ne wf assms(3), of periodic now]
  show "keepsLongest now m (trimDue periodic now n ?m)"
    unfolding keepsLongest_def using t keep sub by blast
  show "length (trimDue periodic now n ?m) \<le> n" "wf_map (trimDue periodic now n ?m)" using t by blast+
qed

lemma cleanup_fields:
  "dcSearchCache (maybeCleanupCaches now c) = trimDue (cleanupDue now c) now deezerMaxSearchCacheEntries
      (if cleanupDue now c then pruneExpiredCacheEntries now (dcSearchCache c) else dcSearchCache c)"
  "dcAlbumCache (maybeCleanupCaches now c) = trimDue (cleanupDue now c) now deezerMaxAlbumCacheEntries
      (if cleanupDue now c then pruneExpiredCacheEntries now (dcAlbumCache c) else dcAlbumCache c)"
  "dcArtistCache (maybeCleanupCaches now c) = trimDue (cleanupDue now c) now deezerMaxArtistCacheEntries
      (if cleanupDue now c then pruneExpiredCacheEntries now (dcArtistCache c) else dcArtistCache c)"
  "dcIsrcCache (maybeCleanupCaches now c) = (if length (dcIsrcCache c) > deezerMaxISRCCacheEntries
      then trimStringCacheEntries deezerMaxISRCCacheEntries (dcIsrcCache c) else dcIsrcCache c)"
  by (simp_all add: maybeCleanupCaches_def Let_def)

text \<open> after a cleanup, which follows every insertion, the search, album and artist caches
  hold at most 300, 200 and 200 entries and the ISRC cache at most 4000; every entry left was
  there before, and of the entries that had not expired those that went expire no later than
  any that stayed. \<close>

theorem deezer_caches_bounded:
  assumes "deezerOK c" and "c' = maybeCleanupCaches now c"
  shows "length (dcSearchCache c') \<le> 300 \<and> length (dcAlbumCache c') \<le> 200 \<and> length (dcArtistCache c') \<le> 200
      \<and> length (dcIsrcCache c') \<le> 4000 \<and> set (dcIsrcCache c') \<subseteq> set (dcIsrcCache c)
    \<and> keepsLongest now (dcSearchCache c) (dcSearchCache c') \<and> keepsLongest now (dcAlbumCache c) (dcAlbumCache c')
    \<and> keepsLongest now (dcArtistCache c) (dcArtistCache c')"
proof -
  have ok: "wf_map m \<and> '''' \<notin> fst ` set m" if "m \<in> {dcSearchCache c, dcAlbumCache c, dcArtistCache c}" for m
    using assms(1) that by (auto simp: deezerOK_def)
  have n: "0 < deezerMaxSearchCacheEntries" "0 < deezerMaxAlbumCacheEntries" "0 < deezerMaxArtistCacheEntries"
    by (simp_all add: deezerMaxSearchCacheEntries_def deezerMaxAlbumCacheEntries_def deezerMaxArtistCacheEntries_def)
  note s = trimDue_keeps [OF _ _ n(1), of "dcSearchCache c"] and a = trimDue_keeps [OF _ _ n(2), of "dcAlbumCache c"]
    and r = trimDue_keeps [OF _ _ n(3), of "dcArtistCache c"]
  have lens: "length (dcSearchCache c') \<le> 300" "length (dcAlbumCache c') \<le> 200" "length (dcArtistCache c') \<le> 200"
    unfolding assms(2) cleanup_fields
    using s(2) a(2) r(2) ok
    by (simp_all add: deezerMaxSearchCacheEntries_def deezerMaxAlbumCacheEntries_def deezerMaxArtistCacheEntries_def)
  moreover have "keepsLongest now (dcSearchCache c) (dcSearchCache c')" "keepsLongest now (dcAlbumCache c) (dcAlbumCache c')"
    "keepsLongest now (dcArtistCache c) (dcArtistCache c')"
    unfolding assms(2) cleanup_fields using s(1) a(1) r(1) ok by blast+
  moreover have "length (dcIsrcCache c') \<le> 4000" "set (dcIsrcCache c') \<subseteq> set (dcIsrcCache c)"
    unfolding assms(2) cleanup_fields
    by (auto simp: trimStringCacheEntries_def deezerMaxISRCCacheEntries_def dest: in_set_dropD)
  ultimately show ?thesis by blast
qed

section \<open>Sequences of downloads\<close>

datatype prep_op =
    PrepCache time string download_request bool
  | PrepTake time string download_request

fun runPrep :: "prep_op \<Rightarrow> (string, prepared_entry) gomap \<Rightarrow> (string, prepared_entry) gomap" where
  "runPrep (PrepCache now key req b) m = cacheDownloadRequest now key req b m"
| "runPrep (PrepTake now key req) m = snd (takePreparedDownloadRequest now key req m)"

definition runPreps :: "prep_op list \<Rightarrow> (string, prepared_entry) gomap" where
  "runPreps os = fold runPrep os []"

text \<open>The last request cached for an item, if nothing has been taken for the item since.\<close>

fun lastPrep :: "string \<Rightarrow> prep_op \<Rightarrow> prepared_entry option \<Rightarrow> prepared_entry option" where
  "lastPrep i (PrepCache now key req b) e =
     (if trim_space (drItemID req) = i \<and> trim_space key \<noteq> ''''
      then Some \<lparr>peKey = key, peRequest = req, peMetadataPrepared = b, peCreatedAt = now\<rparr> else e)"
| "lastPrep i (PrepTake now key req) e = (if trim_space (drItemID req) = i \<and> trim_space key \<noteq> '''' then None else e)"

definition lastCached :: "string \<Rightarrow> prep_op list \<Rightarrow> prepared_entry option" where
  "lastCached i os = fold (lastPrep i) os None"

definition prepOK :: "(string \<Rightarrow> prepared_entry option) \<Rightarrow> (string, prepared_entry) gomap \<Rightarrow> bool" where
  "prepOK spec m \<longleftrightarrow> wf_map m \<and> '''' \<notin> fst ` set m \<and> length m \<le> downloadPreparationCacheMax
     \<and> (\<forall>i e. map_of m i = Some e \<longrightarrow> spec i = Some e)"

lemma prepOK_prune:
  assumes "prepOK spec m" shows "prepOK spec (prunePrepared now m) \<and> length (prunePrepared now m) < downloadPreparationCacheMax"
proof -
  have a: "'''' \<notin> fst ` set m" "wf_map m" and sp: "\<And>i e. map_of m i = Some e \<Longrightarrow> spec i = Some e"
    using assms by (auto simp: prepOK_def)
  note pr = cache_prune_spec [OF a, where now = now]
  have sub: "set (prunePrepared now m) \<subseteq> set m" using pr(3) by (auto simp: unexpired_def)
  have "spec i = Some e" if "map_of (prunePrepared now m) i = Some e" for i e
    using that sub a(2) by (intro sp) (auto simp: in_set_map_of [symmetric] dest: map_of_SomeD)
  then show ?thesis using pr(1,2) sub a(1) by (auto simp: prepOK_def downloadPreparationCacheMax_def)
qed

lemma prepOK_put: "prepOK spec m \<Longrightarrow> length m < downloadPreparationCacheMax \<Longrightarrow> i \<noteq> '''' \<Longrightarrow> prepOK (spec(i \<mapsto> e)) (put i e m)"
  using length_put_le [of i e m] by (auto simp: prepOK_def keys_put)

lemma prepOK_del: "prepOK spec m \<Longrightarrow> prepOK (spec(i := None)) (del i m)"
  using length_del_le [of i m] by (auto simp: prepOK_def keys_del)

lemma prepOK_none: "prepOK spec m \<Longrightarrow> map_of m i = None \<Longrightarrow> prepOK (spec(i := None)) m"
  by (auto simp: prepOK_def)

lemma prepOK_step:
  assumes ok: "prepOK spec m" shows "prepOK (\<lambda>i. lastPrep i x (spec i)) (runPrep x m)"
proof (cases x)
  case (PrepCache now key req b)
  let ?i = "trim_space (drItemID req)" and ?e = "\<lparr>peKey = key, peRequest = req, peMetadataPrepared = b, peCreatedAt = now\<rparr>"
  have spec: "(\<lambda>i. lastPrep i x (spec i)) = (if trim_space key = '''' then spec else spec(?i \<mapsto> ?e))"
    by (auto simp: PrepCache fun_eq_iff)
  note pr = prepOK_prune [OF ok, of now]
  show ?thesis
  proof (cases "?i = '''' \<or> trim_space key = ''''")
    case True
    have "prepOK (spec(''''  \<mapsto> ?e)) m" using ok by (auto simp: prepOK_def dest: map_of_SomeD) (force dest: map_of_SomeD)
    then show ?thesis using True ok by (auto simp: spec) (simp_all add: PrepCache cacheDownloadRequest_def)
  next
    case False
    then show ?thesis using prepOK_put [of spec "prunePrepared now m" ?i ?e] pr
      by (simp add: spec) (simp add: PrepCache cacheDownloadRequest_def Let_def)
  qed
next
  case (PrepTake now key req)
  let ?i = "trim_space (drItemID req)"
  have spec: "(\<lambda>i. lastPrep i x (spec i)) = (if trim_space key = '''' then spec else spec(?i := None))"
    by (auto simp: PrepTake fun_eq_iff)
  have pr: "prepOK spec (prunePrepared now m)" using prepOK_prune [OF ok, of now] by blast
  show ?thesis
  proof (cases "?i = '''' \<or> trim_space key = ''''")
    case True
    have "map_of m '''' = None" using ok by (auto simp: prepOK_def map_of_None_iff)
    with ok have "prepOK (spec('''' := None)) m" by (rule prepOK_none)
    then show ?thesis using True ok by (auto simp: spec) (simp_all add: PrepTake takePreparedDownloadRequest_def)
  next
    case False
    show ?thesis
    proof (cases "map_of (prunePrepared now m) ?i")
      case None
      then show ?thesis using prepOK_none [OF pr None] False
        by (simp add: spec) (simp add: PrepTake takePreparedDownloadRequest_def Let_def)
    next
      case (Some e)
      then show ?thesis using prepOK_del [OF pr, of ?i] False
        by (simp add: spec) (simp add: PrepTake takePreparedDownloadRequest_def Let_def)
    qed
  qed
qed

lemma prepOK_run: "prepOK (\<lambda>i. lastCached i os) (runPreps os)"
proof -
  have "prepOK (\<lambda>i. fold (lastPrep i) os (spec i)) (fold runPrep os m)" if "prepOK spec m" for spec m
    using that
  proof (induction os arbitrary: spec m)
    case (Cons x os)
    from Cons.IH [OF prepOK_step [OF Cons.prems], of x] show ?case by simp
  qed simp
  from this [of "\<lambda>_. None" "[]"] show ?thesis by (simp add: lastCached_def runPreps_def prepOK_def)
qed

lemma wf_map_unique: "wf_map m \<Longrightarrow> (k, v) \<in> set m \<Longrightarrow> (k, w) \<in> set m \<Longrightarrow> v = w"
  by (simp add: in_set_map_of)

lemma just_cached:
  assumes ok: "prepOK spec m" and i: "i = trim_space (drItemID req)" "i = trim_space (drItemID req0)"
    and s: "i \<noteq> []" "trim_space key \<noteq> []" "now - now0 < downloadPreparationCacheTTL"
    and older: "\<And>p. p \<in> set m \<Longrightarrow> peCreatedAt (snd p) < now0"
  shows "fst (takePreparedDownloadRequest now key req (cacheDownloadRequest now0 key req0 b m)) = (mergePrepared req0 req, b, True)"
proof -
  have a: "[] \<notin> fst ` set m" "wf_map m" using ok by (auto simp: prepOK_def)
  define e where "e = \<lparr>peKey = key, peRequest = req0, peMetadataPrepared = b, peCreatedAt = now0\<rparr>"
  define m1 where "m1 = put (i) e (prunePrepared now0 m)"
  have m1: "cacheDownloadRequest now0 key req0 b m = m1"
    using s i(2) by (simp add: cacheDownloadRequest_def m1_def e_def)
  have wf1: "wf_map m1" "[] \<notin> fst ` set m1" and in1: "(i, e) \<in> set m1"
    using prepOK_prune [OF ok, of now0] s(1) by (auto simp: m1_def prepOK_def keys_put set_put)
  have old1: "peCreatedAt (snd p) < now0" if "p \<in> set m1" "fst p \<noteq> i" for p
  proof -
    have "p \<in> set (prunePrepared now0 m)" using that by (auto simp: m1_def dest: set_put_subset [THEN subsetD])
    then show ?thesis using older cache_prune_spec(3) [OF a, of now0] by (auto simp: unexpired_def)
  qed
  have un: "(i, e) \<in> set (unexpired now m1)" using in1 s(3) by (simp add: set_unexpired e_def)
  have "(i, e) \<in> set (prunePrepared now m1)"
  proof (rule ccontr)
    assume no: "(i, e) \<notin> set (prunePrepared now m1)"
    have "0 < length (prunePrepared now m1)" using cache_prune_spec(1) [OF wf1(2,1), of now] un by (cases "unexpired now m1") auto
    then obtain q where q: "q \<in> set (prunePrepared now m1)" by (cases "prunePrepared now m1") auto
    with cache_prune_spec(4) [OF wf1(2,1) un q] no have late: "\<not> peCreatedAt (snd q) < now0" by (simp add: e_def)
    have "q \<in> set m1" using q cache_prune_spec(3) [OF wf1(2,1), of now] by (auto simp: unexpired_def)
    with old1 late have "fst q = i" by blast
    then have "q = (i, e)" using wf_map_unique [OF wf1(1) in1, of "snd q"] \<open>q \<in> set m1\<close> by (cases q) simp
    with q no show False by simp
  qed
  then have "map_of (prunePrepared now m1) (i) = Some e"
    using cache_prune_spec(2) [OF wf1(2,1), of now] by (simp add: in_set_map_of)
  then show "fst (takePreparedDownloadRequest now key req (cacheDownloadRequest now0 key req0 b m)) = (mergePrepared req0 req, b, True)"
    unfolding m1 using s i(1) by (simp add: takePreparedDownloadRequest_def e_def)
qed

lemma prepOK_live:
  assumes ok: "prepOK spec m" and "map_of (prunePrepared now m) j = Some e"
  shows "spec j = Some e \<and> now - peCreatedAt e < downloadPreparationCacheTTL"
proof -
  have a: "[] \<notin> fst ` set m" "wf_map m" using ok by (auto simp: prepOK_def)
  from assms(2) have "(j, e) \<in> set (unexpired now m)" using cache_prune_spec(3) [OF a, of now] by (auto dest: map_of_SomeD)
  then show ?thesis using ok a(2) by (auto simp: set_unexpired prepOK_def in_set_map_of)
qed

text \<open> a download that was put off, to be verified, picks up what was prepared for it, and
  nothing else: after any sequence of cachings and takings, a taking succeeds only with the
  request that was last cached for the item, not taken since, under the same key and less than
  five minutes ago, and then returns the new request with the 20 prepared fields of the cached
  one; otherwise it returns the new request as it is. The cache holds at most 128 requests,
  and a request just cached is there for the next taking. \<close>

theorem prepared_download_exact:
  "length (runPreps os) \<le> 128
   \<and> (fst (takePreparedDownloadRequest now key req (runPreps os)) = (r, b, ok) \<longrightarrow>
      (if ok then \<exists>e. lastCached (trim_space (drItemID req)) os = Some e \<and> peKey e = key
           \<and> now - peCreatedAt e < downloadPreparationCacheTTL
           \<and> r = mergePrepared (peRequest e) req \<and> b = peMetadataPrepared e
       else r = req \<and> \<not> b))
   \<and> (trim_space (drItemID req) = trim_space (drItemID req0) \<longrightarrow> trim_space (drItemID req) \<noteq> [] \<longrightarrow> trim_space key \<noteq> []
      \<longrightarrow> now - now0 < downloadPreparationCacheTTL \<longrightarrow> (\<forall>p \<in> set (runPreps os). peCreatedAt (snd p) < now0) \<longrightarrow>
      fst (takePreparedDownloadRequest now key req (cacheDownloadRequest now0 key req0 b0 (runPreps os)))
        = (mergePrepared req0 req, b0, True))"
proof (intro conjI impI)
  let ?m = "runPreps os" and ?i = "trim_space (drItemID req)"
  have rel: "prepOK (\<lambda>i. lastCached i os) ?m" by (rule prepOK_run)
  show "length ?m \<le> 128" using rel by (simp add: prepOK_def downloadPreparationCacheMax_def)
  show "if ok then \<exists>e. lastCached ?i os = Some e \<and> peKey e = key \<and> now - peCreatedAt e < downloadPreparationCacheTTL
           \<and> r = mergePrepared (peRequest e) req \<and> b = peMetadataPrepared e else r = req \<and> \<not> b"
    if "fst (takePreparedDownloadRequest now key req ?m) = (r, b, ok)"
  proof (cases "map_of (prunePrepared now ?m) ?i")
    case None
    with that show ?thesis by (auto simp: takePreparedDownloadRequest_def Let_def split: if_splits)
  next
    case (Some e)
    from that prepOK_live [OF rel Some] Some show ?thesis
      by (auto simp: takePreparedDownloadRequest_def Let_def split: if_splits)
  qed
  assume "?i = trim_space (drItemID req0)" "?i \<noteq> []" "trim_space key \<noteq> []" "now - now0 < downloadPreparationCacheTTL"
    "\<forall>p \<in> set ?m. peCreatedAt (snd p) < now0"
  then show "fst (takePreparedDownloadRequest now key req (cacheDownloadRequest now0 key req0 b0 ?m)) = (mergePrepared req0 req, b0, True)"
    by (intro just_cached [OF rel, of ?i]) simp_all
qed

definition exampleRequest :: download_request where
  "exampleRequest = \<lparr>drContractVersion = 0, drISRC = [], drService = [], drDownloadProvider = [], drProviderTrackID = [],
     drSpotifyID = [], drTrackName = [], drArtistName = [], drAlbumName = [], drAlbumArtist = [], drCoverURL = [],
     drOutputDir = [], drOutputPath = [], drOutputFD = 0, drOutputExt = [], drFilenameFormat = [], drQuality = [],
     drEmbedMetadata = False, drArtistTagMode = [], drEmbedLyrics = False, drEmbedReplayGain = False,
     drPostProcessingEnabled = False, drTidalHighFormat = [], drTrackNumber = 0, drPlaylistPosition = 0,
     drDiscNumber = 0, drTotalTracks = 0, drTotalDiscs = 0, drReleaseDate = [], drItemID = ''item'', drDurationMS =
     0, drSource = [], drGenre = [], drLabel = [], drCopyright = [], drComposer = [], drComment = [], drExplicit =
     False, drAlbumType = [], drUPC = [], drTidalID = [], drQobuzID = [], drDeezerID = [], drLyricsMode = [],
     drUseExtensions = False, drUseFallback = False, drRequiresContainerConversion = False, drAllowQualityVariant =
     False, drQualityVariant = [], drSongLinkRegion = []\<rparr>"

lemma prepared_download_exact_witness:
  "fst (takePreparedDownloadRequest 2 ''k'' exampleRequest (runPreps [PrepCache 1 ''k'' exampleRequest True]))
      = (mergePrepared exampleRequest exampleRequest, True, True)
   \<and> lastCached ''item'' [PrepCache 1 ''k'' exampleRequest True] \<noteq> None"
proof -
  have i: "trim_space (drItemID exampleRequest) = ''item''" "trim_space ''k'' = ''k''"
    by (simp add: exampleRequest_def) code_simp+
  have m: "runPreps [PrepCache 1 ''k'' exampleRequest True] = cacheDownloadRequest 1 ''k'' exampleRequest True (runPreps [])"
    by (simp add: runPreps_def)
  have take: "fst (takePreparedDownloadRequest 2 ''k'' exampleRequest (runPreps [PrepCache 1 ''k'' exampleRequest True]))
      = (mergePrepared exampleRequest exampleRequest, True, True)"
    unfolding m using prepared_download_exact [of "[]" 2 "''k''" exampleRequest _ _ _ exampleRequest 1 True] i
    by (simp add: runPreps_def downloadPreparationCacheTTL_def nanos_per_second_def)
  note live = prepared_download_exact [THEN conjunct2, THEN conjunct1, rule_format, OF take]
  from live i(1) have "\<exists>e. lastCached ''item'' [PrepCache 1 ''k'' exampleRequest True] = Some e" by auto
  with take show ?thesis by auto
qed

definition exampleDeezer :: "nat deezer_client" where
  "exampleDeezer = NewDeezerClient
     \<lparr>dcSearchCache := [(''q'', Some \<lparr>ceData = 1, ceExpiresAt = 9\<rparr>), (''p'', Some \<lparr>ceData = 2, ceExpiresAt = 3\<rparr>), (''o'', None)]\<rparr>"

lemma deezer_caches_bounded_witness:
  "length (dcSearchCache (maybeCleanupCaches 7 exampleDeezer)) \<le> 300
   \<and> map fst (dcSearchCache (maybeCleanupCaches 7 exampleDeezer)) = [''q'']"
proof -
  have "deezerOK exampleDeezer"
    by (simp add: deezerOK_def exampleDeezer_def NewDeezerClient_def wf_map_def)
  from deezer_caches_bounded [OF this refl, of 7] show ?thesis
    by (simp add: maybeCleanupCaches_def cleanupDue_def exampleDeezer_def NewDeezerClient_def
        deezerCacheCleanupInterval_def nanos_per_second_def trimDue_def pruneExpiredCacheEntries_def
        deezerMaxSearchCacheEntries_def)
qed

end
