(* ===== verification/Manifest.thy ===== *)
theory Manifest
  imports Json Bytes "HOL-Library.Sublist"
begin

text \<open>
  Extension manifests (\<open>go_backend/extension_manifest.go\<close>): the data of a manifest, its
  validation with the error of each check, the capabilities, the network domains it may reach
  and the URLs it handles. \<open>parse\<close> stands for \<open>net/url\<close>'s \<open>Parse\<close>, \<open>None\<close> its error;
  \<open>upper\<close> and \<open>lower\<close> for the Unicode case tables.
\<close>

section \<open>Data\<close>

text \<open>\<open>^[a-z0-9][a-z0-9._-]{0,127}$\<close>\<close>

definition idStart :: "char \<Rightarrow> bool" where
  "idStart c \<longleftrightarrow> is_digit c \<or> 97 \<le> (of_char c :: nat) \<and> (of_char c :: nat) \<le> 122"

definition extensionIDPattern :: "string \<Rightarrow> bool" where
  "extensionIDPattern s \<longleftrightarrow>
     (case s of [] \<Rightarrow> False
      | c # cs \<Rightarrow> idStart c \<and> length cs \<le> 127 \<and> list_all (\<lambda>c. idStart c \<or> c \<in> {CHR ''.'', CHR ''_'', CHR ''-''}) cs)"

definition ExtensionTypeMetadataProvider :: string where "ExtensionTypeMetadataProvider = ''metadata_provider''"
definition ExtensionTypeDownloadProvider :: string where "ExtensionTypeDownloadProvider = ''download_provider''"
definition ExtensionTypeLyricsProvider :: string where "ExtensionTypeLyricsProvider = ''lyrics_provider''"
definition SettingTypeSelect :: string where "SettingTypeSelect = ''select''"
definition SettingTypeButton :: string where "SettingTypeButton = ''button''"

record extension_permissions =
  pmNetwork :: "string list"
  pmStorage :: bool
  pmFile :: bool
  pmAllowHTTP :: bool

record 'f extension_setting =
  stKey :: string
  stType :: string
  stLabel :: string
  stDescription :: string
  stRequired :: bool
  stSecret :: bool
  stDefault :: "'f json"
  stOptions :: "string list"
  stAction :: string

record 'f quality_setting =
  qsKey :: string
  qsType :: string
  qsLabel :: string
  qsDescription :: string
  qsRequired :: bool
  qsSecret :: bool
  qsDefault :: "'f json"
  qsOptions :: "string list"

record 'f quality_option =
  qoID :: string
  qoLabel :: string
  qoDescription :: string
  qoSettings :: "'f quality_setting list"

record search_filter =
  sfID :: string
  sfLabel :: string
  sfIcon :: string

record search_behavior =
  sbEnabled :: bool
  sbPlaceholder :: string
  sbPrimary :: bool
  sbIcon :: string
  sbThumbnailRatio :: string
  sbThumbnailWidth :: int
  sbThumbnailHeight :: int
  sbFilters :: "search_filter list"

record url_handler =
  uhEnabled :: bool
  uhPatterns :: "string list"

record track_matching =
  tmCustomMatching :: bool
  tmStrategy :: string
  tmDurationTolerance :: int

record post_processing_hook =
  phID :: string
  phName :: string
  phDescription :: string
  phDefaultEnabled :: bool
  phSupportedFormats :: "string list"

record post_processing =
  ppEnabled :: bool
  ppHooks :: "post_processing_hook list"

record health_check =
  hcID :: string
  hcLabel :: string
  hcURL :: string
  hcMethod :: string
  hcServiceKey :: string
  hcTimeoutMs :: int
  hcCacheTTLSeconds :: int
  hcRequired :: bool

record session_endpoints =
  seBootstrap :: string
  seChallenge :: string
  seExchange :: string
  seRefresh :: string

record session_config =
  scNamespace :: string
  scBaseURL :: string
  scAppVersion :: string
  scPlatform :: string
  scCallbackURL :: string
  scSchemeLabel :: string
  scHeaderPrefix :: string
  scTimeWindowSeconds :: int
  scEndpoints :: session_endpoints

record 'f extension_manifest =
  emName :: string
  emDisplayName :: string
  emVersion :: string
  emDescription :: string
  emHomepage :: string
  emIcon :: string
  emTypes :: "string list"
  emPermissions :: extension_permissions
  emSettings :: "'f extension_setting list"
  emQualityOptions :: "'f quality_option list"
  emMinAppVersion :: string
  emSkipMetadataEnrichment :: bool
  emSkipLyrics :: bool
  emStopProviderFallback :: bool
  emSkipBuiltInFallback :: bool
  emSearchBehavior :: "search_behavior option"
  emURLHandler :: "url_handler option"
  emTrackMatching :: "track_matching option"
  emPostProcessing :: "post_processing option"
  emServiceHealth :: "health_check list"
  emSignedSession :: "session_config option"
  emRequiredRuntimeFeatures :: "string list"
  emCapabilities :: "(string, 'f json) gomap"

section \<open>Questions to a manifest\<close>

definition HasCapability :: "string \<Rightarrow> 'f extension_manifest \<Rightarrow> bool" where
  "HasCapability name m = (case map_of (emCapabilities m) name of Some (JBool b) \<Rightarrow> b | _ \<Rightarrow> False)"

definition HasType :: "string \<Rightarrow> 'f extension_manifest \<Rightarrow> bool" where
  "HasType t m = list_ex (\<lambda>et. et = t) (emTypes m)"

definition IsMetadataProvider :: "'f extension_manifest \<Rightarrow> bool" where
  "IsMetadataProvider m = HasType ExtensionTypeMetadataProvider m"

definition IsDownloadProvider :: "'f extension_manifest \<Rightarrow> bool" where
  "IsDownloadProvider m = HasType ExtensionTypeDownloadProvider m"

definition IsLyricsProvider :: "'f extension_manifest \<Rightarrow> bool" where
  "IsLyricsProvider m = HasType ExtensionTypeLyricsProvider m"

definition StopsProviderFallback :: "'f extension_manifest \<Rightarrow> bool" where
  "StopsProviderFallback m \<longleftrightarrow> emStopProviderFallback m \<or> emSkipBuiltInFallback m"

definition domainMatches :: "string \<Rightarrow> string \<Rightarrow> bool" where
  "domainMatches domain allowed \<longleftrightarrow> allowed = domain \<or> starts_with ''*.'' allowed \<and> suffix (drop 1 allowed) domain"

definition IsDomainAllowed :: "(string \<Rightarrow> string) \<Rightarrow> string \<Rightarrow> 'f extension_manifest \<Rightarrow> bool" where
  "IsDomainAllowed lower domain m =
     list_ex (\<lambda>allowed. domainMatches (to_lower lower (trim_space domain)) (to_lower lower (trim_space allowed)))
       (pmNetwork (emPermissions m))"

definition HasCustomSearch :: "'f extension_manifest \<Rightarrow> bool" where
  "HasCustomSearch m = (case emSearchBehavior m of None \<Rightarrow> False | Some b \<Rightarrow> sbEnabled b)"

definition HasCustomMatching :: "'f extension_manifest \<Rightarrow> bool" where
  "HasCustomMatching m = (case emTrackMatching m of None \<Rightarrow> False | Some t \<Rightarrow> tmCustomMatching t)"

definition HasPostProcessing :: "'f extension_manifest \<Rightarrow> bool" where
  "HasPostProcessing m = (case emPostProcessing m of None \<Rightarrow> False | Some p \<Rightarrow> ppEnabled p)"

definition HasURLHandler :: "'f extension_manifest \<Rightarrow> bool" where
  "HasURLHandler m = (case emURLHandler m of None \<Rightarrow> False | Some h \<Rightarrow> uhEnabled h \<and> uhPatterns h \<noteq> [])"

definition GetPostProcessingHooks :: "'f extension_manifest \<Rightarrow> post_processing_hook list" where
  "GetPostProcessingHooks m = (case emPostProcessing m of None \<Rightarrow> [] | Some p \<Rightarrow> ppHooks p)"

text \<open>The host of a URL, with its port, the host name without, and the path.\<close>

record parsed_url =
  puHost :: string
  puHostname :: string
  puPath :: string

text \<open>\<open>strings.Cut\<close> at a slash, and what follows \<open>://\<close> if there is one.\<close>

definition cutSlash :: "string \<Rightarrow> string \<times> string \<times> bool" where
  "cutSlash s = (let a = takeWhile (\<lambda>c. c \<noteq> CHR ''/'') s
                 in if length a = length s then (s, '''', False) else (a, drop (length a + 1) s, True))"

fun afterScheme :: "string \<Rightarrow> string option" where
  "afterScheme [] = None"
| "afterScheme (c # s) = (if starts_with ''://'' (c # s) then Some (drop 3 (c # s)) else afterScheme s)"

definition urlMatches :: "string \<Rightarrow> parsed_url option \<Rightarrow> string \<Rightarrow> bool" where
  "urlMatches urlStr parsed pattern =
     (if pattern = '''' then False
      else if CHR ''/'' \<notin> set pattern \<and> suffix '':'' pattern then starts_with pattern urlStr
      else
        case parsed of
          None \<Rightarrow> False
        | Some u \<Rightarrow>
            if puHost u = '''' then False
            else
              let urlPath = (if puPath u = '''' then ''/'' else puPath u);
                  p = (case afterScheme pattern of None \<Rightarrow> pattern | Some r \<Rightarrow> r);
                  (patternHost, patternPath, hasPath) = cutSlash p
              in if patternHost = '''' then False
                 else if puHostname u \<noteq> patternHost \<and> \<not> suffix (''.'' @ patternHost) (puHostname u) then False
                 else if hasPath \<and> patternPath \<noteq> '''' \<and> \<not> starts_with (''/'' @ patternPath) urlPath then False
                 else True)"

definition MatchesURL ::
  "(string \<Rightarrow> string) \<Rightarrow> (string \<Rightarrow> parsed_url option) \<Rightarrow> string \<Rightarrow> 'f extension_manifest \<Rightarrow> bool" where
  "MatchesURL lower parse urlStr0 m =
     (if \<not> HasURLHandler m then False
      else
        case emURLHandler m of
          None \<Rightarrow> False
        | Some h \<Rightarrow>
            (let urlStr = to_lower lower (trim_space urlStr0)
             in list_ex (\<lambda>pattern. urlMatches urlStr (parse urlStr) (to_lower lower (trim_space pattern))) (uhPatterns h)))"

section \<open>Validation\<close>

record validation_error =
  veField :: string
  veMessage :: string

definition verr :: "string \<Rightarrow> string \<Rightarrow> validation_error option" where
  "verr f msg = Some \<lparr>veField = f, veMessage = msg\<rparr>"

definition at :: "string \<Rightarrow> nat \<Rightarrow> string \<Rightarrow> string" where
  "at name i f = name @ ''['' @ show_nat i @ ''].'' @ f"

fun validateTypes :: "string list \<Rightarrow> validation_error option" where
  "validateTypes [] = None"
| "validateTypes (t # ts) =
     (if t \<noteq> ExtensionTypeMetadataProvider \<and> t \<noteq> ExtensionTypeDownloadProvider \<and> t \<noteq> ExtensionTypeLyricsProvider
      then verr ''type'' (''invalid extension type: '' @ t
        @ '' (must be 'metadata_provider', 'download_provider', or 'lyrics_provider')'')
      else validateTypes ts)"

fun validateSettingList :: "nat \<Rightarrow> 'f extension_setting list \<Rightarrow> validation_error option" where
  "validateSettingList i [] = None"
| "validateSettingList i (s # ss) =
     (if trim_space (stKey s) = '''' then verr (at ''settings'' i ''key'') ''setting key is required''
      else if stType s = '''' then verr (at ''settings'' i ''type'') ''setting type is required''
      else if stType s = SettingTypeSelect \<and> stOptions s = []
      then verr (at ''settings'' i ''options'') ''select type requires options''
      else if stType s = SettingTypeButton \<and> stAction s = ''''
      then verr (at ''settings'' i ''action'') ''button type requires action (JS function name)''
      else validateSettingList (Suc i) ss)"

fun validateHealth :: "(string \<Rightarrow> string) \<Rightarrow> nat \<Rightarrow> health_check list \<Rightarrow> validation_error option" where
  "validateHealth upper i [] = None"
| "validateHealth upper i (c # cs) =
     (if trim_space (hcID c) = '''' then verr (at ''serviceHealth'' i ''id'') ''health check id is required''
      else if trim_space (hcURL c) = '''' then verr (at ''serviceHealth'' i ''url'') ''health check url is required''
      else if to_upper upper (trim_space (hcMethod c)) \<notin> {'''', ''GET'', ''HEAD''}
      then verr (at ''serviceHealth'' i ''method'') ''health check method must be GET or HEAD''
      else validateHealth upper (Suc i) cs)"

definition validateSession ::
  "(string \<Rightarrow> string) \<Rightarrow> (string \<Rightarrow> parsed_url option) \<Rightarrow> 'f extension_manifest \<Rightarrow> session_config \<Rightarrow> validation_error option" where
  "validateSession lower parse m s =
     (if \<not> pmStorage (emPermissions m) then verr ''permissions.storage'' ''signedSession requires storage permission''
      else if trim_space (scNamespace s) = '''' then verr ''signedSession.namespace'' ''namespace is required''
      else
        let baseURL = trim_space (scBaseURL s)
        in if baseURL = '''' then verr ''signedSession.baseUrl'' ''baseUrl is required''
           else if \<not> starts_with ''https://'' (to_lower lower baseURL)
           then verr ''signedSession.baseUrl'' ''baseUrl must use https''
           else
             case parse baseURL of
               None \<Rightarrow> verr ''signedSession.baseUrl'' ''baseUrl is invalid''
             | Some u \<Rightarrow>
                 if puHostname u = '''' then verr ''signedSession.baseUrl'' ''baseUrl is invalid''
                 else if \<not> IsDomainAllowed lower (puHostname u) m
                 then verr ''signedSession.baseUrl'' ''baseUrl host must be listed in permissions.network''
                 else None)"

fun orElse :: "validation_error option \<Rightarrow> validation_error option \<Rightarrow> validation_error option" where
  "orElse (Some e) _ = Some e"
| "orElse None r = r"

definition Validate ::
  "(string \<Rightarrow> string) \<Rightarrow> (string \<Rightarrow> string) \<Rightarrow> (string \<Rightarrow> parsed_url option) \<Rightarrow> 'f extension_manifest \<Rightarrow> validation_error option" where
  "Validate upper lower parse m =
     (if trim_space (emName m) = '''' then verr ''name'' ''name is required''
      else if \<not> extensionIDPattern (emName m)
      then verr ''name'' (''name must be a lowercase extension ID containing only letters, numbers, '.', '_' or '-'' @ [CHR 0x27])
      else if trim_space (emVersion m) = '''' then verr ''version'' ''version is required''
      else if trim_space (emDescription m) = '''' then verr ''description'' ''description is required''
      else if emTypes m = [] then verr ''type'' ''at least one type is required''
      else
        orElse (validateTypes (emTypes m))
          (orElse (validateSettingList 0 (emSettings m))
            (orElse (validateHealth upper 0 (emServiceHealth m))
              (orElse (case emSignedSession m of None \<Rightarrow> None | Some s \<Rightarrow> validateSession lower parse m s)
                (if HasCapability ''rawFfmpeg'' m \<and> \<not> pmFile (emPermissions m)
                 then verr ''permissions.file'' ''rawFfmpeg capability requires file permission''
                 else None)))))"

text \<open>\<open>ParseManifest\<close>: \<open>decode\<close> stands for \<open>json.Unmarshal\<close> into a manifest.\<close>

datatype manifest_error = BadManifestJSON | BadManifest validation_error

definition ParseManifest ::
  "(string \<Rightarrow> string) \<Rightarrow> (string \<Rightarrow> string) \<Rightarrow> (string \<Rightarrow> parsed_url option) \<Rightarrow> (string \<Rightarrow> 'f extension_manifest option) \<Rightarrow>
     string \<Rightarrow> manifest_error + 'f extension_manifest" where
  "ParseManifest upper lower parse decode data =
     (case decode data of
        None \<Rightarrow> Inl BadManifestJSON
      | Some m \<Rightarrow> (case Validate upper lower parse m of Some e \<Rightarrow> Inl (BadManifest e) | None \<Rightarrow> Inr m))"

section \<open>What a valid manifest is\<close>

definition settingOK :: "'f extension_setting \<Rightarrow> bool" where
  "settingOK s \<longleftrightarrow> trim_space (stKey s) \<noteq> [] \<and> stType s \<noteq> []
     \<and> (stType s = ''select'' \<longrightarrow> stOptions s \<noteq> []) \<and> (stType s = ''button'' \<longrightarrow> stAction s \<noteq> [])"

definition healthOK :: "(string \<Rightarrow> string) \<Rightarrow> health_check \<Rightarrow> bool" where
  "healthOK upper c \<longleftrightarrow> trim_space (hcID c) \<noteq> [] \<and> trim_space (hcURL c) \<noteq> []
     \<and> to_upper upper (trim_space (hcMethod c)) \<in> {[], ''GET'', ''HEAD''}"

text \<open>
  An extension id, a listed domain and a capability, in words of their own: the characters are
  listed, a wildcard stands for one label or more before the domain.
\<close>

definition idChars :: string where
  "idChars = ''abcdefghijklmnopqrstuvwxyz0123456789''"

definition extensionIDOK :: "string \<Rightarrow> bool" where
  "extensionIDOK s \<longleftrightarrow> s \<noteq> '''' \<and> length s \<le> 128 \<and> hd s \<in> set idChars \<and> set s \<subseteq> set (idChars @ ''._-'')"

definition domainListed :: "(string \<Rightarrow> string) \<Rightarrow> string \<Rightarrow> string list \<Rightarrow> bool" where
  "domainListed lower host network \<longleftrightarrow>
     (\<exists>a \<in> set network. let allowed = to_lower lower (trim_space a); domain = to_lower lower (trim_space host)
        in domain = allowed \<or> (\<exists>label base. allowed = ''*.'' @ base \<and> domain = label @ ''.'' @ base))"

definition sessionOK :: "(string \<Rightarrow> string) \<Rightarrow> (string \<Rightarrow> parsed_url option) \<Rightarrow> 'f extension_manifest \<Rightarrow> session_config \<Rightarrow> bool" where
  "sessionOK lower parse m s \<longleftrightarrow> pmStorage (emPermissions m) \<and> trim_space (scNamespace s) \<noteq> []
     \<and> (\<exists>rest. to_lower lower (trim_space (scBaseURL s)) = ''https://'' @ rest)
     \<and> (\<exists>u. parse (trim_space (scBaseURL s)) = Some u \<and> puHostname u \<noteq> []
          \<and> domainListed lower (puHostname u) (pmNetwork (emPermissions m)))"

definition manifestOK :: "(string \<Rightarrow> string) \<Rightarrow> (string \<Rightarrow> string) \<Rightarrow> (string \<Rightarrow> parsed_url option) \<Rightarrow> 'f extension_manifest \<Rightarrow> bool" where
  "manifestOK upper lower parse m \<longleftrightarrow>
     extensionIDOK (emName m) \<and> trim_space (emVersion m) \<noteq> [] \<and> trim_space (emDescription m) \<noteq> []
     \<and> emTypes m \<noteq> [] \<and> set (emTypes m) \<subseteq> {''metadata_provider'', ''download_provider'', ''lyrics_provider''}
     \<and> (\<forall>s \<in> set (emSettings m). settingOK s) \<and> (\<forall>c \<in> set (emServiceHealth m). healthOK upper c)
     \<and> (\<forall>s. emSignedSession m = Some s \<longrightarrow> sessionOK lower parse m s)
     \<and> (map_of (emCapabilities m) ''rawFfmpeg'' = Some (JBool True) \<longrightarrow> pmFile (emPermissions m))"

lemma lower_or_digit: "idStart c \<longleftrightarrow> c \<in> set idChars"
proof
  assume "idStart c"
  then have "(of_char c :: nat) \<in> {48..57} \<union> {97..122}" by (auto simp: idStart_def is_digit_def)
  then have "(of_char c :: nat) \<in> set ([48..<58] @ [97..<123])"
    unfolding set_append set_upt Un_iff atLeastLessThan_iff atLeastAtMost_iff by linarith
  then have "(char_of (of_char c :: nat) :: char) \<in> set (map char_of ([48..<58] @ [97..<123]))"
    by (metis (no_types, lifting) image_eqI image_set)
  moreover have "map char_of ([48..<58] @ [97..<123::nat]) = ''0123456789abcdefghijklmnopqrstuvwxyz''" by code_simp
  ultimately show "c \<in> set idChars" by (auto simp: idChars_def)
next
  assume "c \<in> set idChars"
  moreover have "list_all idStart idChars" by code_simp
  ultimately show "idStart c" by (simp add: list_all_iff)
qed

lemma extensionIDPattern_iff: "extensionIDPattern s \<longleftrightarrow> extensionIDOK s"
proof (cases s)
  case (Cons c cs)
  have "list_all (\<lambda>c. idStart c \<or> c \<in> {CHR ''.'', CHR ''_'', CHR ''-''}) cs \<longleftrightarrow> set cs \<subseteq> set (idChars @ ''._-'')"
    by (auto simp: list_all_iff lower_or_digit)
  then show ?thesis by (auto simp: Cons extensionIDPattern_def extensionIDOK_def lower_or_digit)
qed (simp add: extensionIDPattern_def extensionIDOK_def)

lemma domainMatches_iff:
  "domainMatches domain allowed \<longleftrightarrow> domain = allowed \<or> (\<exists>label base. allowed = ''*.'' @ base \<and> domain = label @ ''.'' @ base)"
proof -
  have "starts_with ''*.'' allowed \<and> suffix (drop 1 allowed) domain
      \<longleftrightarrow> (\<exists>label base. allowed = ''*.'' @ base \<and> domain = label @ ''.'' @ base)"
  proof
    assume l: "starts_with ''*.'' allowed \<and> suffix (drop 1 allowed) domain"
    then have "allowed = ''*.'' @ drop 2 allowed"
      by (metis append_take_drop_id length_Cons list.size(3) numeral_2_eq_2 starts_with_def)
    then obtain base where b: "allowed = ''*.'' @ base" by blast
    then show "\<exists>label base. allowed = ''*.'' @ base \<and> domain = label @ ''.'' @ base" using l by (auto simp: suffix_def)
  qed (auto simp: starts_with_def suffix_def)
  then show ?thesis by (auto simp: domainMatches_def)
qed

lemma IsDomainAllowed_iff: "IsDomainAllowed lower host m \<longleftrightarrow> domainListed lower host (pmNetwork (emPermissions m))"
  by (simp add: IsDomainAllowed_def domainListed_def list_ex_iff domainMatches_iff Let_def)

lemma HasCapability_iff: "HasCapability name m \<longleftrightarrow> map_of (emCapabilities m) name = Some (JBool True)"
  by (auto simp: HasCapability_def split: option.splits json.splits)

lemma orElse_None [simp]: "orElse a b = None \<longleftrightarrow> a = None \<and> b = None"
  by (cases a) simp_all

lemma verr_not_None [simp]: "verr f s \<noteq> None" "\<exists>e. verr f s = Some e"
  by (simp_all add: verr_def)

lemma validateTypes_None: "validateTypes ts = None \<longleftrightarrow> set ts \<subseteq> {''metadata_provider'', ''download_provider'', ''lyrics_provider''}"
  by (induction ts) (simp_all add: ExtensionTypeMetadataProvider_def ExtensionTypeDownloadProvider_def
      ExtensionTypeLyricsProvider_def)

lemma validateSettingList_None: "validateSettingList i ss = None \<longleftrightarrow> (\<forall>s \<in> set ss. settingOK s)"
  by (induction ss arbitrary: i) (auto simp: settingOK_def SettingTypeSelect_def SettingTypeButton_def)

lemma validateHealth_None: "validateHealth upper i cs = None \<longleftrightarrow> (\<forall>c \<in> set cs. healthOK upper c)"
  by (induction cs arbitrary: i) (auto simp: healthOK_def)

lemma starts_with_iff: "starts_with p s \<longleftrightarrow> (\<exists>r. s = p @ r)"
  by (metis append_eq_conv_conj append_take_drop_id starts_with_def)

lemma to_lower_Nil [simp]: "to_lower lower [] = []"
  by (simp add: to_lower_def is_ascii_def)

lemma validateSession_None: "validateSession lower parse m s = None \<longleftrightarrow> sessionOK lower parse m s"
proof (cases "trim_space (scBaseURL s) = []")
  case True
  then show ?thesis by (simp add: validateSession_def sessionOK_def verr_def)
next
  case False
  then show ?thesis
    by (cases "parse (trim_space (scBaseURL s))")
      (simp_all add: validateSession_def sessionOK_def starts_with_iff IsDomainAllowed_iff Let_def)
qed

lemma id_trim: "extensionIDPattern s \<Longrightarrow> trim_space s = s \<and> s \<noteq> []"
proof -
  assume p: "extensionIDPattern s"
  then obtain c cs where s: "s = c # cs" by (cases s) (simp_all add: extensionIDPattern_def)
  have ok: "plain_char d" if "d \<in> set s" for d
    using p that by (auto simp: s extensionIDPattern_def idStart_def is_digit_def plain_char_def list_all_iff)
  have "trim_space s = s" by (rule trim_space_plain) (use ok [of "hd s"] ok [of "last s"] s in auto)
  with s show ?thesis by simp
qed

text \<open> C36: validation accepts exactly the well-formed manifests: a name of one to 128 lower-case letters,
  digits, dots, dashes and underscores that opens with a letter or digit, a version and a description, at least one type and no unknown one, settings with a key and a
  type, options for a selection and an action for a button, health checks with an id, a URL
  and the method GET or HEAD, a signed session only with the storage permission, a namespace
  and an https URL whose host is a listed domain or below one listed with a wildcard, and the
  capability for raw FFmpeg only with the file permission. \<close>

theorem manifest_validated_exactly:
  "Validate upper lower parse m = None \<longleftrightarrow> manifestOK upper lower parse m"
proof -
  have s: "(case emSignedSession m of None \<Rightarrow> None | Some s \<Rightarrow> validateSession lower parse m s) = None
      \<longleftrightarrow> (\<forall>s. emSignedSession m = Some s \<longrightarrow> sessionOK lower parse m s)"
    by (cases "emSignedSession m") (simp_all add: validateSession_None)
  have n: "trim_space (emName m) \<noteq> []" if "extensionIDOK (emName m)" using id_trim that by (simp add: extensionIDPattern_iff)
  show ?thesis
    using n by (simp add: Validate_def manifestOK_def validateTypes_None validateSettingList_None validateHealth_None s
        extensionIDPattern_iff HasCapability_iff)
qed

text \<open>What is below a domain counts only with the wildcard, at a dot, and then not the domain itself.\<close>

lemma wildcard_domains:
  "domainMatches ''a.example.com'' ''*.example.com''" "\<not> domainMatches ''example.com'' ''*.example.com''"
  "\<not> domainMatches ''evilexample.com'' ''*.example.com''" "\<not> domainMatches ''a.example.com'' ''example.com''"
  by code_simp+

text \<open>A web pattern matches the host of its domain and below, not a URL that mentions it.\<close>

lemma url_anchored:
  assumes "urlMatches url (Some u) pattern" and "CHR ''/'' \<in> set pattern \<or> \<not> suffix '':'' pattern"
  shows "\<exists>host. host \<noteq> [] \<and> (puHostname u = host \<or> suffix (''.'' @ host) (puHostname u))
    \<and> (\<exists>path has. cutSlash (case afterScheme pattern of None \<Rightarrow> pattern | Some r \<Rightarrow> r) = (host, path, has))"
  using assms by (auto simp: urlMatches_def Let_def split: prod.splits if_splits option.splits)

end
