(* ===== verification/Package.thy ===== *)
theory Package
  imports Sandbox Manifest
begin

text \<open>
  Extension packages (\<open>go_backend/extension_manager_package.go\<close>): the order of versions, the
  paths below the managed directories, and the validation, inspection and extraction of an
  archive over the file system of \<open>Sandbox\<close>. An entry of the archive is what \<open>archive/zip\<close>
  gives for it: its name, its kind, the size it declares, and the bytes it yields until the end
  or an error. \<open>lower\<close> is the Unicode part of \<open>strings.ToLower\<close>, \<open>parseManifest\<close> stands for
  \<open>ParseManifest\<close>.
\<close>

section \<open>Versions\<close>

definition versionNumbers :: "string \<Rightarrow> int list" where
  "versionNumbers v = map atoi (split_on (CHR ''.'') (if starts_with ''v'' v then drop 1 v else v))"

definition part :: "int list \<Rightarrow> nat \<Rightarrow> int" where
  "part xs i = (if i < length xs then xs ! i else 0)"

fun compareParts :: "int list \<Rightarrow> int list \<Rightarrow> nat list \<Rightarrow> int" where
  "compareParts xs ys [] = 0"
| "compareParts xs ys (i # ns) =
     (if part xs i < part ys i then -1 else if part xs i > part ys i then 1 else compareParts xs ys ns)"

definition compareVersions :: "string \<Rightarrow> string \<Rightarrow> int" where
  "compareVersions v1 v2 =
     (let parts1 = versionNumbers v1; parts2 = versionNumbers v2
      in compareParts parts1 parts2 [0..<max (length parts1) (length parts2)])"

section \<open>Paths\<close>

definition isExtensionPackagePath :: "(string \<Rightarrow> string) \<Rightarrow> string \<Rightarrow> bool" where
  "isExtensionPackagePath lower filePath \<longleftrightarrow>
     suffix ''.spotiflac-ext'' (to_lower lower filePath) \<or> suffix ''.sflx'' (to_lower lower filePath)"

definition managedExtensionPath :: "string \<Rightarrow> string \<Rightarrow> string \<Rightarrow> string option" where
  "managedExtensionPath cwd root extensionID =
     (if root = '''' then None
      else if \<not> extensionIDPattern extensionID then None
      else let fullPath = Join [root, extensionID]
           in if \<not> isPathWithinBase cwd root fullPath then None else Some fullPath)"

definition backslash :: char where "backslash = CHR 0x5C"

definition safeExtensionAssetPath :: "string \<Rightarrow> string \<Rightarrow> string \<Rightarrow> string \<times> bool" where
  "safeExtensionAssetPath cwd root assetPath =
     (if root = '''' \<or> assetPath = '''' \<or> IsAbs assetPath \<or> backslash \<in> set assetPath then ('''', False)
      else
        let cleaned = Clean assetPath
        in if cleaned = ''.'' \<or> cleaned = ''..'' \<or> starts_with ''../'' cleaned then ('''', False)
           else let fullPath = Join [root, cleaned] in (fullPath, isPathWithinBase cwd root fullPath))"

section \<open>Archives\<close>

record zip_file =
  zfName :: string
  zfSymlink :: bool
  zfDir :: bool
  zfSize :: nat
  zfOpens :: bool
  zfData :: string
  zfFails :: bool

definition maxExtensionArchiveEntries :: nat where "maxExtensionArchiveEntries = 2048"
definition maxExtensionArchiveUncompressedBytes :: nat where "maxExtensionArchiveUncompressedBytes = 256 * 1024 * 1024"
definition maxExtensionManifestBytes :: nat where "maxExtensionManifestBytes = 1024 * 1024"

datatype archive_error = TooManyEntries | UnsafePath string | DuplicatePath string | ArchiveTooLarge

definition unsafeRel :: "string \<Rightarrow> bool" where
  "unsafeRel relPath \<longleftrightarrow> relPath = ''.'' \<or> relPath = ''..'' \<or> starts_with ''../'' relPath \<or> IsAbs relPath"

fun validateEntries :: "(string \<Rightarrow> string) \<Rightarrow> zip_file list \<Rightarrow> string list \<Rightarrow> nat \<Rightarrow> archive_error option" where
  "validateEntries lower [] seen tot = None"
| "validateEntries lower (f # fs) seen tot =
     (if zfSymlink f \<or> backslash \<in> set (zfName f) then Some (UnsafePath (zfName f))
      else
        let relPath = Clean (zfName f)
        in if unsafeRel relPath then Some (UnsafePath (zfName f))
           else
             let pathKey = to_lower lower relPath
             in if pathKey \<in> set seen then Some (DuplicatePath (zfName f))
                else if zfDir f then validateEntries lower fs (pathKey # seen) tot
                else if zfSize f > maxExtensionArchiveUncompressedBytes - tot then Some ArchiveTooLarge
                else validateEntries lower fs (pathKey # seen) (tot + zfSize f))"

definition validateExtensionArchive :: "(string \<Rightarrow> string) \<Rightarrow> zip_file list \<Rightarrow> archive_error option" where
  "validateExtensionArchive lower files =
     (if length files > maxExtensionArchiveEntries then Some TooManyEntries else validateEntries lower files [] 0)"

datatype inspect_error =
    InvalidArchive archive_error | NoManifest | NoIndexJS | ManifestTooLarge | ManifestUnreadable | ManifestInvalid manifest_error

definition inspectExtensionPackage ::
  "(string \<Rightarrow> string) \<Rightarrow> (string \<Rightarrow> manifest_error + 'm) \<Rightarrow> zip_file list \<Rightarrow> inspect_error + 'm" where
  "inspectExtensionPackage lower parseManifest files =
     (case validateExtensionArchive lower files of
        Some e \<Rightarrow> Inl (InvalidArchive e)
      | None \<Rightarrow>
          let manifestFile = fold (\<lambda>f best. if Clean (zfName f) = ''manifest.json'' then Some f else best) files None;
              hasIndexJS = fold (\<lambda>f has. if Clean (zfName f) = ''index.js'' then \<not> zfDir f else has) files False
          in case manifestFile of
               None \<Rightarrow> Inl NoManifest
             | Some f \<Rightarrow>
                 if zfDir f then Inl NoManifest
                 else if \<not> hasIndexJS then Inl NoIndexJS
                 else if zfSize f > maxExtensionManifestBytes then Inl ManifestTooLarge
                 else if \<not> zfOpens f then Inl ManifestUnreadable
                 else if length (zfData f) \<le> maxExtensionManifestBytes \<and> zfFails f then Inl ManifestUnreadable
                 else if length (zfData f) > maxExtensionManifestBytes then Inl ManifestTooLarge
                 else (case parseManifest (zfData f) of Inl e \<Rightarrow> Inl (ManifestInvalid e) | Inr m \<Rightarrow> Inr m))"

text \<open>One file: made, filled, and removed again if filling it fails.\<close>

definition extractFile :: "string list \<Rightarrow> zip_file \<Rightarrow> fsys \<Rightarrow> bool \<times> fsys" where
  "extractFile path f fs =
     (case osWriteFile path '''' fs of
        None \<Rightarrow> (False, fs)
      | Some fs1 \<Rightarrow>
          if \<not> zfOpens f then (False, fs1)
          else
            let written = take (maxExtensionArchiveUncompressedBytes + 1) (zfData f);
                fs2 = fs1\<lparr>fsFiles := put path written (fsFiles fs1)\<rparr>;
                copyErr = (length written > maxExtensionArchiveUncompressedBytes
                           \<or> length (zfData f) \<le> maxExtensionArchiveUncompressedBytes \<and> zfFails f)
            in if copyErr then (False, (case osRemove path fs2 of None \<Rightarrow> fs2 | Some fs3 \<Rightarrow> fs3)) else (True, fs2))"

fun extractLoop :: "string \<Rightarrow> string \<Rightarrow> zip_file list \<Rightarrow> fsys \<Rightarrow> bool \<times> fsys" where
  "extractLoop cwd destination [] fs = (True, fs)"
| "extractLoop cwd destination (f # files) fs =
     (if zfDir f then extractLoop cwd destination files fs
      else if zfSymlink f \<or> backslash \<in> set (zfName f) then (False, fs)
      else
        let relPath = Clean (zfName f)
        in if unsafeRel relPath then (False, fs)
           else
             let destPath = Join [destination, relPath]
             in if \<not> isPathWithinBase cwd destination destPath then (False, fs)
                else
                  case osMkdirAll (elems (Dir (Abs cwd destPath))) fs of
                    None \<Rightarrow> (False, fs)
                  | Some fs1 \<Rightarrow>
                      case extractFile (elems (Abs cwd destPath)) f fs1 of
                        (False, fs2) \<Rightarrow> (False, fs2)
                      | (True, fs2) \<Rightarrow> extractLoop cwd destination files fs2)"

definition extractExtensionArchive :: "(string \<Rightarrow> string) \<Rightarrow> string \<Rightarrow> string \<Rightarrow> zip_file list \<Rightarrow> fsys \<Rightarrow> bool \<times> fsys" where
  "extractExtensionArchive lower cwd destination files fs =
     (case validateExtensionArchive lower files of
        Some _ \<Rightarrow> (False, fs)
      | None \<Rightarrow> extractLoop cwd destination files fs)"

section \<open>The order of versions\<close>

lemma part_eq_beyond: "length xs \<le> i \<Longrightarrow> length ys \<le> i \<Longrightarrow> part xs i = part ys i"
  by (simp add: part_def)

lemma compareParts_cases:
  "sorted ns \<Longrightarrow> distinct ns \<Longrightarrow>
   (compareParts xs ys ns = -1 \<and> (\<exists>i \<in> set ns. (\<forall>j \<in> set ns. j < i \<longrightarrow> part xs j = part ys j) \<and> part xs i < part ys i))
   \<or> (compareParts xs ys ns = 0 \<and> (\<forall>j \<in> set ns. part xs j = part ys j))
   \<or> (compareParts xs ys ns = 1 \<and> (\<exists>i \<in> set ns. (\<forall>j \<in> set ns. j < i \<longrightarrow> part xs j = part ys j) \<and> part ys i < part xs i))"
proof (induction "ns")
  case (Cons i "ns")
  show ?case
  proof (cases "part xs i = part ys i")
    case True
    then have c: "compareParts xs ys (i # ns) = compareParts xs ys ns" by simp
    have "sorted ns" "distinct ns" using Cons.prems by simp_all
    from Cons.IH [OF this] show ?thesis
      by (elim disjE conjE bexE) (auto simp: c True)
  next
    case False
    have less: "\<forall>j \<in> set ns. \<not> j < i" using Cons.prems(1) by auto
    then show ?thesis using False by (cases "part xs i < part ys i") auto
  qed
qed simp

definition firstDiff :: "int list \<Rightarrow> int list \<Rightarrow> bool" where
  "firstDiff xs ys \<longleftrightarrow> (\<exists>i. (\<forall>j < i. part xs j = part ys j) \<and> part xs i < part ys i)"

lemma compareVersions_cases:
  "(compareVersions v w = -1 \<and> firstDiff (versionNumbers v) (versionNumbers w))
   \<or> (compareVersions v w = 0 \<and> part (versionNumbers v) = part (versionNumbers w))
   \<or> (compareVersions v w = 1 \<and> firstDiff (versionNumbers w) (versionNumbers v))"
proof -
  define xs ys where "xs = versionNumbers v" and "ys = versionNumbers w"
  define ns where "ns = [0..<max (length xs) (length ys)]"
  have c: "compareVersions v w = compareParts xs ys ns" by (simp add: compareVersions_def Let_def xs_def ys_def ns_def)
  have all: "part xs = part ys" if "\<forall>j \<in> set ns. part xs j = part ys j"
  proof
    show "part xs i = part ys i" for i
      using that part_eq_beyond [of xs i ys] by (cases "i < max (length xs) (length ys)") (auto simp: ns_def)
  qed
  have fst: "firstDiff a b" if "\<exists>i \<in> set ns. (\<forall>j \<in> set ns. j < i \<longrightarrow> part a j = part b j) \<and> part a i < part b i" for a b
  proof -
    from that obtain i where i: "i < max (length xs) (length ys)" "\<forall>j \<in> set ns. j < i \<longrightarrow> part a j = part b j" "part a i < part b i"
      by (auto simp: ns_def)
    then have "\<forall>j < i. part a j = part b j" by (simp add: ns_def)
    with i(3) show ?thesis by (auto simp: firstDiff_def)
  qed
  have "sorted ns" "distinct ns" by (simp_all add: ns_def)
  from compareParts_cases [OF this, of xs ys]
  have "(compareParts xs ys ns = -1 \<and> firstDiff xs ys) \<or> (compareParts xs ys ns = 0 \<and> part xs = part ys)
    \<or> (compareParts xs ys ns = 1 \<and> firstDiff ys xs)"
  proof (elim disjE conjE)
    assume "compareParts xs ys ns = -1" "\<exists>i \<in> set ns. (\<forall>j \<in> set ns. j < i \<longrightarrow> part xs j = part ys j) \<and> part xs i < part ys i"
    with fst show ?thesis by blast
  next
    assume "compareParts xs ys ns = 1" "\<exists>i \<in> set ns. (\<forall>j \<in> set ns. j < i \<longrightarrow> part xs j = part ys j) \<and> part ys i < part xs i"
    then have "\<exists>i \<in> set ns. (\<forall>j \<in> set ns. j < i \<longrightarrow> part ys j = part xs j) \<and> part ys i < part xs i" by metis
    with fst \<open>compareParts xs ys ns = 1\<close> show ?thesis by blast
  next
    assume "compareParts xs ys ns = 0" "\<forall>j \<in> set ns. part xs j = part ys j"
    with all show ?thesis by blast
  qed
  then show ?thesis by (simp only: c xs_def ys_def)
qed

lemma firstDiff_asym: "firstDiff xs ys \<Longrightarrow> \<not> firstDiff ys xs \<and> part xs \<noteq> part ys"
proof -
  assume "firstDiff xs ys"
  then obtain i where i: "\<forall>j < i. part xs j = part ys j" "part xs i < part ys i" by (auto simp: firstDiff_def)
  have "\<not> firstDiff ys xs"
  proof
    assume "firstDiff ys xs"
    then obtain k where k: "\<forall>j < k. part ys j = part xs j" "part ys k < part xs k" by (auto simp: firstDiff_def)
    show False using i k by (cases i k rule: linorder_cases) auto
  qed
  with i(2) show ?thesis by auto
qed

lemma firstDiff_trans: "firstDiff xs ys \<Longrightarrow> firstDiff ys zs \<Longrightarrow> firstDiff xs zs"
proof -
  assume "firstDiff xs ys" "firstDiff ys zs"
  then obtain i k where i: "\<forall>j < i. part xs j = part ys j" "part xs i < part ys i"
    and k: "\<forall>j < k. part ys j = part zs j" "part ys k < part zs k" by (auto simp: firstDiff_def)
  show ?thesis unfolding firstDiff_def
  proof (intro exI [of _ "min i k"] conjI allI impI)
    show "part xs j = part zs j" if "j < min i k" for j using that i(1) k(1) by simp
    show "part xs (min i k) < part zs (min i k)"
      using i k by (cases i k rule: linorder_cases) (auto simp: min_def)
  qed
qed

lemma firstDiff_cong: "part xs = part ys \<Longrightarrow> firstDiff xs zs = firstDiff ys zs" "part xs = part ys \<Longrightarrow> firstDiff zs xs = firstDiff zs ys"
  by (simp_all add: firstDiff_def)

text \<open> comparing versions is comparing the numbers between their dots, the first that differ
  deciding and missing ones counting as 0: the comparison is a total preorder, in which exactly
  the versions with the same numbers are equal, so that no chain of upgrades, each to a greater
  version, comes back to a version it had. \<close>

theorem version_order:
  "compareVersions v w = - compareVersions w v"
  "compareVersions v w = 0 \<longleftrightarrow> part (versionNumbers v) = part (versionNumbers w)"
  "compareVersions v w > 0 \<longleftrightarrow>
     (\<exists>i. (\<forall>j < i. part (versionNumbers v) j = part (versionNumbers w) j) \<and> part (versionNumbers v) i > part (versionNumbers w) i)"
  "compareVersions u v > 0 \<Longrightarrow> compareVersions v w > 0 \<Longrightarrow> compareVersions u w > 0"
proof -
  note vw = compareVersions_cases [of v w] and wv = compareVersions_cases [of w v]
  show neg: "compareVersions v w = - compareVersions w v"
    using vw wv firstDiff_asym by (elim disjE conjE) (auto dest: firstDiff_asym)
  show "compareVersions v w = 0 \<longleftrightarrow> part (versionNumbers v) = part (versionNumbers w)"
    using vw by (elim disjE conjE) (auto dest: firstDiff_asym)
  have pos: "compareVersions a b > 0 \<longleftrightarrow> firstDiff (versionNumbers b) (versionNumbers a)" for a b
    using compareVersions_cases [of a b] by (elim disjE conjE) (auto dest: firstDiff_asym)
  show "compareVersions v w > 0 \<longleftrightarrow>
     (\<exists>i. (\<forall>j < i. part (versionNumbers v) j = part (versionNumbers w) j) \<and> part (versionNumbers v) i > part (versionNumbers w) i)"
    unfolding pos firstDiff_def by metis
  show "compareVersions u w > 0" if "compareVersions u v > 0" "compareVersions v w > 0"
    using that unfolding pos by (blast intro: firstDiff_trans)
qed

section \<open>Paths stay below\<close>

lemma inside_relative:
  assumes "\<not> unsafeRel (Clean p)"
  shows "list_all proper (elems p)" "elems p \<noteq> []" "\<not> IsAbs p"
proof -
  show rel: "\<not> IsAbs p" using assms by (auto simp: unsafeRel_def)
  then have cl: "Clean p = render False (elems p)" by (simp add: Clean_def)
  then show ne: "elems p \<noteq> []" using assms by (auto simp: unsafeRel_def render_def)
  obtain n ds where e: "elems p = replicate n ''..'' @ ds" "list_all proper ds"
    using elems_parents_first [of p] by (auto simp: parents_first_def)
  have "n = 0"
  proof (rule ccontr)
    assume "n \<noteq> 0"
    then obtain us where us: "elems p = ''..'' # us" using e by (cases n) auto
    then have "Clean p = join_on slash (''..'' # us)" using cl by (simp add: render_def)
    with join_parent [of us] have "Clean p = ''..'' \<or> starts_with ''../'' (Clean p)" by (simp add: slash_def)
    with assms show False by (simp add: unsafeRel_def)
  qed
  with e show "list_all proper (elems p)" by simp
qed

lemma Join_below:
  assumes d: "IsAbs d" and p: "list_all proper (elems p)" "elems p \<noteq> []" "\<not> IsAbs p"
  shows "IsAbs (Join [d, Clean p])" "elems (Join [d, Clean p]) = elems d @ elems p" "Clean (Join [d, Clean p]) = Join [d, Clean p]"
proof -
  have cl: "Clean p = join_on slash (elems p)" using p by (simp add: Clean_def render_def)
  have ne: "Clean p \<noteq> []"
  proof -
    obtain c cs where "elems p = c # cs" using p(2) by (cases "elems p") auto
    then show ?thesis using p(1) cl by (cases cs) (auto simp: proper_def)
  qed
  have "split_on slash (Clean p) = elems p" unfolding cl by (rule split_join [OF p(2) proper_no_slash [OF p(1)]])
  then show "elems (Join [d, Clean p]) = elems d @ elems p"
    using Join_two(2) [OF d ne] by (simp add: fold_proper [OF p(1)])
  show "IsAbs (Join [d, Clean p])" "Clean (Join [d, Clean p]) = Join [d, Clean p]" using Join_two [OF d ne] by simp_all
qed

lemma id_proper: "extensionIDPattern s \<Longrightarrow> proper s \<and> elems s = [s] \<and> Clean s = s \<and> \<not> IsAbs s"
proof -
  assume p: "extensionIDPattern s"
  then obtain c cs where s: "s = c # cs" and c: "idStart c" and cs: "\<forall>d \<in> set cs. idStart d \<or> d \<in> {CHR ''.'', CHR ''_'', CHR ''-''}"
    by (cases s) (auto simp: extensionIDPattern_def list_all_iff)
  have no: "\<not> idStart slash" "\<not> idStart (CHR ''.'')" by (simp_all add: idStart_def is_digit_def slash_def)
  have sl: "slash \<notin> set s" using c cs no s by (auto simp: slash_def)
  have pr: "proper s" using c no sl by (auto simp: s proper_def)
  have rel: "\<not> IsAbs s" using sl s by (auto simp: IsAbs_def)
  have e: "elems s = [s]" using pr by (simp add: elems_def split_on_none [OF sl] pushElem_def proper_def)
  moreover have "Clean s = s" using e rel by (simp add: Clean_def render_def)
  ultimately show ?thesis using pr rel by blast
qed

lemma managed_below:
  assumes "IsAbs root" and "managedExtensionPath cwd root i = Some full"
  shows "extensionIDPattern i \<and> IsAbs full \<and> Clean full = full \<and> elems full = elems root @ [i]"
proof -
  have i: "extensionIDPattern i" and full: "full = Join [root, i]"
    using assms(2) by (auto simp: managedExtensionPath_def Let_def split: if_splits)
  note ip = id_proper [OF i]
  have "list_all proper (elems i)" "elems i \<noteq> []" "\<not> IsAbs i" using ip by simp_all
  from Join_below [OF assms(1) this] ip i full show ?thesis by simp
qed

lemma managed_total:
  assumes "IsAbs cwd" "IsAbs root" "extensionIDPattern i"
  shows "managedExtensionPath cwd root i = Some (Join [root, i])"
proof -
  note ip = id_proper [OF assms(3)]
  have j: "IsAbs (Join [root, i])" "elems (Join [root, i]) = elems root @ [i]"
    using Join_below [of root i] assms(2) ip by simp_all
  have "isPathWithinBase cwd root (Join [root, i])"
    by (simp add: within_iff [OF assms(1)] Abs_abs j assms(2))
  moreover have "root \<noteq> []" using assms(2) by (auto simp: IsAbs_def)
  ultimately show ?thesis using assms(3) by (simp add: managedExtensionPath_def Let_def)
qed

text \<open>An asset is below the directory of its extension.\<close>

lemma asset_below:
  assumes "IsAbs cwd" "safeExtensionAssetPath cwd root p = (full, True)"
  shows "prefix (elems (Abs cwd root)) (elems (Abs cwd full))"
proof -
  have "isPathWithinBase cwd root full" using assms(2) by (auto simp: safeExtensionAssetPath_def Let_def split: if_splits)
  then show ?thesis by (simp add: within_iff [OF assms(1)])
qed

section \<open>Extraction\<close>

definition pathKey :: "(string \<Rightarrow> string) \<Rightarrow> zip_file \<Rightarrow> string" where
  "pathKey lower f = to_lower lower (Clean (zfName f))"

definition entryOK :: "zip_file \<Rightarrow> bool" where
  "entryOK f \<longleftrightarrow> \<not> zfSymlink f \<and> backslash \<notin> set (zfName f) \<and> \<not> unsafeRel (Clean (zfName f))"

definition declared :: "zip_file \<Rightarrow> nat" where
  "declared f = (if zfDir f then 0 else zfSize f)"

lemma validateEntries_None:
  "validateEntries lower files seen tot = None \<Longrightarrow> tot \<le> maxExtensionArchiveUncompressedBytes \<Longrightarrow>
   list_all entryOK files \<and> distinct (map (pathKey lower) files) \<and> set (map (pathKey lower) files) \<inter> set seen = {}
   \<and> tot + sum_list (map declared files) \<le> maxExtensionArchiveUncompressedBytes"
proof (induction files arbitrary: seen tot)
  case (Cons f fs)
  have ok: "entryOK f" "pathKey lower f \<notin> set seen"
    using Cons.prems(1) by (auto simp: entryOK_def pathKey_def Let_def split: if_splits)
  have rest: "validateEntries lower fs (pathKey lower f # seen) (tot + declared f) = None"
    and fits: "tot + declared f \<le> maxExtensionArchiveUncompressedBytes"
    using Cons.prems by (auto simp: pathKey_def declared_def Let_def split: if_splits)
  from Cons.IH [OF rest fits] ok show ?case by auto
qed simp

definition destOf :: "string \<Rightarrow> zip_file \<Rightarrow> string list" where
  "destOf destination f = elems destination @ elems (zfName f)"

lemma extractFile_other: "p \<noteq> path \<Longrightarrow> map_of (fsFiles (snd (extractFile path f fs))) p = map_of (fsFiles fs) p"
proof (cases "osWriteFile path '''' fs")
  case (Some fs1)
  moreover assume p: "p \<noteq> path"
  ultimately show ?thesis
    using write_files [OF Some p] p by (simp add: extractFile_def Let_def remove_or_same)
qed (simp add: extractFile_def)

lemma extractFile_ok:
  assumes "extractFile path f fs = (True, fs')"
  shows "map_of (fsFiles fs') = (map_of (fsFiles fs))(path \<mapsto> zfData f)"
proof -
  from assms obtain fs1 where w: "osWriteFile path '''' fs = Some fs1"
    by (auto simp: extractFile_def split: option.splits)
  have "fsFiles fs1 = put path '''' (fsFiles fs)" using w by (auto simp: osWriteFile_def split: if_splits)
  moreover have "length (zfData f) \<le> maxExtensionArchiveUncompressedBytes"
    "fs' = fs1\<lparr>fsFiles := put path (take (maxExtensionArchiveUncompressedBytes + 1) (zfData f)) (fsFiles fs1)\<rparr>"
    using assms w by (auto simp: extractFile_def Let_def split: if_splits)
  ultimately show ?thesis by (simp add: fun_eq_iff)
qed

lemma destOf_path:
  assumes "IsAbs destination" and "\<not> unsafeRel (Clean (zfName f))"
  shows "elems (Abs cwd (Join [destination, Clean (zfName f)])) = destOf destination f"
proof -
  note r = inside_relative [OF assms(2)]
  show ?thesis using Join_below [OF assms(1) r] by (simp add: Abs_abs destOf_def)
qed

text \<open>One step of the loop: the directories, then the file, at the place of the entry.\<close>

lemma extractLoop_Cons:
  assumes d: "IsAbs destination" and dir: "\<not> zfDir f"
  obtains "extractLoop cwd destination (f # files) fs = (False, fs)"
  | fs1 where "osMkdirAll (elems (Dir (Abs cwd (Join [destination, Clean (zfName f)])))) fs = Some fs1"
      "extractLoop cwd destination (f # files) fs =
        (case extractFile (destOf destination f) f fs1 of (False, fs2) \<Rightarrow> (False, fs2)
         | (True, fs2) \<Rightarrow> extractLoop cwd destination files fs2)"
proof (cases "zfSymlink f \<or> backslash \<in> set (zfName f) \<or> unsafeRel (Clean (zfName f))
    \<or> \<not> isPathWithinBase cwd destination (Join [destination, Clean (zfName f)])")
  case True
  then show ?thesis using dir that(1) by (auto simp: Let_def)
next
  case False
  then have ok: "\<not> unsafeRel (Clean (zfName f))" by blast
  show ?thesis
  proof (cases "osMkdirAll (elems (Dir (Abs cwd (Join [destination, Clean (zfName f)])))) fs")
    case None
    then show ?thesis using dir that(1) False by (auto simp: Let_def)
  next
    case (Some fs1)
    then show ?thesis using dir False by (intro that(2) [OF Some]) (simp add: destOf_path [OF d ok] Let_def)
  qed
qed

lemma extractLoop_other:
  assumes d: "IsAbs destination" and p: "\<not> prefix (elems destination) p"
  shows "map_of (fsFiles (snd (extractLoop cwd destination files fs))) p = map_of (fsFiles fs) p"
proof (induction files arbitrary: fs)
  case (Cons f files)
  have ne: "p \<noteq> destOf destination f" using p by (auto simp: destOf_def)
  show ?case
  proof (cases "zfDir f")
    case True
    then show ?thesis using Cons by simp
  next
    case False
    show ?thesis
    proof (rule extractLoop_Cons [OF d False, of cwd files fs])
      fix fs1 assume mk: "osMkdirAll (elems (Dir (Abs cwd (Join [destination, Clean (zfName f)])))) fs = Some fs1"
        and l: "extractLoop cwd destination (f # files) fs =
          (case extractFile (destOf destination f) f fs1 of (False, fs2) \<Rightarrow> (False, fs2)
           | (True, fs2) \<Rightarrow> extractLoop cwd destination files fs2)"
      obtain b fs2 where x: "extractFile (destOf destination f) f fs1 = (b, fs2)" by fastforce
      have "map_of (fsFiles fs2) p = map_of (fsFiles fs) p"
        using extractFile_other [OF ne, of f fs1] mkdir_files [OF mk] by (simp add: x)
      then show ?thesis unfolding l x using Cons by (cases b) simp_all
    qed simp
  qed
qed simp

lemma extractLoop_ok:
  assumes d: "IsAbs destination"
  shows "extractLoop cwd destination files fs = (True, fs') \<Longrightarrow>
    map_of (fsFiles fs') = fold (\<lambda>f m. if zfDir f then m else m(destOf destination f \<mapsto> zfData f)) files (map_of (fsFiles fs))"
proof (induction files arbitrary: fs)
  case (Cons f files)
  show ?case
  proof (cases "zfDir f")
    case True
    then show ?thesis using Cons by simp
  next
    case False
    show ?thesis
    proof (rule extractLoop_Cons [OF d False, of cwd files fs])
      fix fs1 assume mk: "osMkdirAll (elems (Dir (Abs cwd (Join [destination, Clean (zfName f)])))) fs = Some fs1"
        and l: "extractLoop cwd destination (f # files) fs =
          (case extractFile (destOf destination f) f fs1 of (False, fs2) \<Rightarrow> (False, fs2)
           | (True, fs2) \<Rightarrow> extractLoop cwd destination files fs2)"
      obtain b fs2 where x: "extractFile (destOf destination f) f fs1 = (b, fs2)" by fastforce
      have b: "b" and rest: "extractLoop cwd destination files fs2 = (True, fs')"
        using Cons.prems l by (cases b; simp add: x)+
      have "map_of (fsFiles fs2) = (map_of (fsFiles fs))(destOf destination f \<mapsto> zfData f)"
        using extractFile_ok [of _ f fs1 fs2] x b mkdir_files [OF mk] by simp
      with Cons.IH [OF rest] False show ?thesis by (simp add: fun_upd_def)
    qed (use Cons.prems in simp)
  qed
qed simp

lemma fold_upd_distinct:
  assumes "distinct (map g files)"
  shows "fold (\<lambda>f m. if D f then m else m(g f \<mapsto> v f)) files m p =
    (case find (\<lambda>f. \<not> D f \<and> g f = p) files of None \<Rightarrow> m p | Some f \<Rightarrow> Some (v f))"
  using assms
proof (induction files arbitrary: m)
  case (Cons f files)
  have none: "find (\<lambda>f'. \<not> D f' \<and> g f' = p) files = None" if "g f = p"
  proof -
    have "\<forall>x \<in> set files. g x \<noteq> g f" using Cons.prems by simp (metis image_eqI)
    then show ?thesis by (auto simp: find_None_iff that [symmetric])
  qed
  show ?case using Cons none by (cases "D f"; cases "g f = p") (auto split: option.split)
qed simp

lemma destOf_distinct:
  assumes "distinct (map (pathKey lower) files)" "list_all entryOK files"
  shows "distinct (map (destOf destination) files)"
proof -
  have "pathKey lower f = pathKey lower g"
    if "f \<in> set files" "g \<in> set files" "destOf destination f = destOf destination g" for f g
  proof -
    have rel: "\<not> IsAbs (zfName h)" if "h \<in> set files" for h
      using inside_relative(3) [of "zfName h"] assms(2) that by (auto simp: entryOK_def list_all_iff)
    have "elems (zfName f) = elems (zfName g)" using that(3) by (simp add: destOf_def)
    then have "Clean (zfName f) = Clean (zfName g)" using rel that(1,2) by (simp add: Clean_eq_iff)
    then show ?thesis by (simp add: pathKey_def)
  qed
  moreover have "inj_on (pathKey lower) (set files)" using assms(1) by (simp add: distinct_map)
  ultimately have "inj_on (destOf destination) (set files)" by (intro inj_onI) (blast dest: inj_onD)
  then show ?thesis using assms(1) by (simp add: distinct_map)
qed

text \<open> C15: extracting a package is confined and complete: whatever the archive holds, names with
  parent elements, absolute names, symbolic links, duplicates, entries that fail, no file
  outside the destination is changed; and when extraction succeeds, the destination holds the
  bytes of every entry at its cleaned name and every other file of the file system is as it
  was, and the sizes the entries declare come to at most 256 MiB. \<close>

theorem archive_extraction_confined:
  assumes "IsAbs destination"
  shows "(\<not> prefix (elems destination) p \<longrightarrow>
      map_of (fsFiles (snd (extractExtensionArchive lower cwd destination files fs))) p = map_of (fsFiles fs) p)
    \<and> (extractExtensionArchive lower cwd destination files fs = (True, fs') \<longrightarrow>
      map_of (fsFiles fs') p =
        (case find (\<lambda>f. \<not> zfDir f \<and> elems destination @ elems (zfName f) = p) files of
           None \<Rightarrow> map_of (fsFiles fs) p | Some f \<Rightarrow> Some (zfData f))
      \<and> sum_list (map zfSize (filter (\<lambda>f. \<not> zfDir f) files)) \<le> 256 * 1024 * 1024)"
proof (intro conjI impI)
  show "map_of (fsFiles (snd (extractExtensionArchive lower cwd destination files fs))) p = map_of (fsFiles fs) p"
    if "\<not> prefix (elems destination) p"
    using extractLoop_other [OF assms that] by (simp add: extractExtensionArchive_def split: option.split)
next
  assume x: "extractExtensionArchive lower cwd destination files fs = (True, fs')"
  then have v: "validateEntries lower files [] 0 = None" and l: "extractLoop cwd destination files fs = (True, fs')"
    by (auto simp: extractExtensionArchive_def validateExtensionArchive_def split: option.splits if_splits)
  note ok = validateEntries_None [OF v]
  have "distinct (map (destOf destination) files)" using ok by (intro destOf_distinct [of lower]) auto
  from fold_upd_distinct [OF this]
  show "map_of (fsFiles fs') p = (case find (\<lambda>f. \<not> zfDir f \<and> elems destination @ elems (zfName f) = p) files of
      None \<Rightarrow> map_of (fsFiles fs) p | Some f \<Rightarrow> Some (zfData f))"
    by (simp add: extractLoop_ok [OF assms l] destOf_def)
  have "sum_list (map zfSize (filter (\<lambda>f. \<not> zfDir f) files)) = sum_list (map declared files)"
    by (induction files) (auto simp: declared_def)
  then show "sum_list (map zfSize (filter (\<lambda>f. \<not> zfDir f) files)) \<le> 256 * 1024 * 1024"
    using ok by (simp add: maxExtensionArchiveUncompressedBytes_def)
qed

definition exampleEntry :: "string \<Rightarrow> string \<Rightarrow> zip_file" where
  "exampleEntry name data = \<lparr>zfName = name, zfSymlink = False, zfDir = False, zfSize = length data, zfOpens = True,
     zfData = data, zfFails = False\<rparr>"

lemma archive_extraction_confined_witness:
  "map_of (fsFiles (snd (extractExtensionArchive id ''/'' ''/app/data/foo'' [exampleEntry ''x/../b'' ''y''] exampleFiles)))
      [''app'', ''data'', ''foo'', ''b''] = Some ''y''
   \<and> map_of (fsFiles (snd (extractExtensionArchive id ''/'' ''/app/data/foo'' [exampleEntry ''../bar/token'' ''y''] exampleFiles)))
      [''app'', ''data'', ''bar'', ''token''] = Some ''secret''"
proof -
  let ?d = "''/app/data/foo''" and ?f = "exampleEntry ''x/../b'' ''y''"
  have d: "IsAbs ?d" by code_simp
  have p: "Clean ''x/../b'' = ''b''" "\<not> unsafeRel ''b''" "backslash \<notin> set ''x/../b''" "Join [?d, ''b''] = ''/app/data/foo/b''"
    "isPathWithinBase ''/'' ?d ''/app/data/foo/b''" "Abs ''/'' ''/app/data/foo/b'' = ''/app/data/foo/b''"
    "elems ''/app/data/foo/b'' = [''app'', ''data'', ''foo'', ''b'']"
    by code_simp+
  have mk: "osMkdirAll (elems (Dir ''/app/data/foo/b'')) exampleFiles = Some exampleFiles"
    by (simp add: osMkdirAll_def) code_simp
  have free: "\<not> isDir exampleFiles [''app'', ''data'', ''foo'', ''b'']" "isDir exampleFiles [''app'', ''data'', ''foo'']"
    by code_simp+
  have v: "validateExtensionArchive id [?f] = None"
    by (simp add: validateExtensionArchive_def maxExtensionArchiveEntries_def exampleEntry_def p Let_def backslash_def
        maxExtensionArchiveUncompressedBytes_def)
  have "\<exists>fs'. extractExtensionArchive id ''/'' ?d [?f] exampleFiles = (True, fs')"
    using free by (simp add: extractExtensionArchive_def v) (simp add: exampleEntry_def p mk Let_def backslash_def extractFile_def osWriteFile_def
        maxExtensionArchiveUncompressedBytes_def)
  then obtain fs' where x: "extractExtensionArchive id ''/'' ?d [?f] exampleFiles = (True, fs')" by blast
  have e: "elems ?d @ elems ''x/../b'' = [''app'', ''data'', ''foo'', ''b'']" by code_simp
  have out: "\<not> prefix (elems ?d) [''app'', ''data'', ''bar'', ''token'']" by code_simp
  have secret: "map_of (fsFiles exampleFiles) [''app'', ''data'', ''bar'', ''token''] = Some ''secret''" by code_simp
  note ok = archive_extraction_confined [OF d, THEN conjunct2, THEN mp, OF x, of "[''app'', ''data'', ''foo'', ''b'']"]
  show ?thesis
    using ok e x secret archive_extraction_confined [OF d, THEN conjunct1, THEN mp, OF out, of id "''/''" "[exampleEntry ''../bar/token'' ''y'']" exampleFiles]
    by (simp add: exampleEntry_def)
qed

lemma version_order_witness:
  "compareVersions ''v2.0'' ''1.4'' > 0 \<and> compareVersions ''2'' ''v2.0.0'' = 0"
proof -
  have "compareVersions ''v2.0'' ''1.10'' > 0" "compareVersions ''1.10'' ''1.4'' > 0" by code_simp+
  from version_order(4) [OF this] have "compareVersions ''v2.0'' ''1.4'' > 0" .
  moreover have "compareVersions ''2'' ''v2.0.0'' = 0" by code_simp
  ultimately show ?thesis by blast
qed

text \<open>A part that is not a number counts as 0: the pre-release of a version is less than the one before.\<close>

lemma prerelease_is_zero: "compareVersions ''1.9b'' ''1.8'' < 0" "compareVersions ''1.9b'' ''1.0'' = 0"
  by code_simp+

end
