(* ===== verification/ExtSettings.thy ===== *)
theory ExtSettings
  imports Package
begin

text \<open>
  The settings of extensions (\<open>go_backend/extension_settings.go\<close>): a table in memory and one
  JSON file per extension, written through a temporary file that is renamed into place, over
  the file system of \<open>Sandbox\<close>. \<open>encode\<close> and \<open>decode\<close> stand for \<open>json.MarshalIndent\<close> and
  \<open>json.Unmarshal\<close>; what the store relies on is that decoding gives back what was encoded.
  \<open>tmp\<close> is the random part of the name of the temporary file. The data directory is absolute.
\<close>

type_synonym 'v ext_settings = "(string, 'v) gomap"

record 'v settings_store =
  esDataDir :: string
  esSettings :: "(string, 'v ext_settings) gomap"

definition NewSettingsStore :: "'v settings_store" where
  "NewSettingsStore = \<lparr>esDataDir = '''', esSettings = []\<rparr>"

definition getSettingsPath :: "'v settings_store \<Rightarrow> string \<Rightarrow> string option" where
  "getSettingsPath s extensionID =
     (if \<not> extensionIDPattern extensionID then None
      else if esDataDir s = '''' then None
      else Some (Join [esDataDir s, extensionID, ''settings.json'']))"

definition loadSettings ::
  "(string \<Rightarrow> 'v ext_settings option) \<Rightarrow> 'v settings_store \<Rightarrow> fsys \<Rightarrow> string \<Rightarrow> 'v ext_settings option" where
  "loadSettings decode s fs extensionID =
     (case getSettingsPath s extensionID of
        None \<Rightarrow> None
      | Some settingsPath \<Rightarrow>
          case map_of (fsFiles fs) (elems settingsPath) of
            None \<Rightarrow> if isDir fs (elems settingsPath) then None else Some []
          | Some data \<Rightarrow> decode data)"

text \<open>The names of the directories in a directory.\<close>

definition subdirs :: "fsys \<Rightarrow> string list \<Rightarrow> string list" where
  "subdirs fs d = map last (filter (\<lambda>p. p \<noteq> [] \<and> butlast p = d) (fsDirs fs))"

definition loadAllSettings :: "(string \<Rightarrow> 'v ext_settings option) \<Rightarrow> fsys \<Rightarrow> 'v settings_store \<Rightarrow> 'v settings_store" where
  "loadAllSettings decode fs s =
     (if \<not> isDir fs (elems (esDataDir s)) then s
      else fold (\<lambda>i st. case loadSettings decode st fs i of None \<Rightarrow> st | Some m \<Rightarrow> st\<lparr>esSettings := put i m (esSettings st)\<rparr>)
             (subdirs fs (elems (esDataDir s))) s)"

definition SetDataDir ::
  "(string \<Rightarrow> 'v ext_settings option) \<Rightarrow> string \<Rightarrow> 'v settings_store \<times> fsys \<Rightarrow> bool \<times> 'v settings_store \<times> fsys" where
  "SetDataDir decode dataDir = (\<lambda>(s, fs).
     case osMkdirAll (elems dataDir) fs of
       None \<Rightarrow> (False, s, fs)
     | Some fs1 \<Rightarrow> (True, loadAllSettings decode fs1 (s\<lparr>esDataDir := dataDir\<rparr>), fs1))"

definition dropTemp :: "string list \<Rightarrow> fsys \<Rightarrow> fsys" where
  "dropTemp t fs = (case osRemove t fs of None \<Rightarrow> fs | Some fs' \<Rightarrow> fs')"

definition writeFileAtomic :: "nat \<Rightarrow> string \<Rightarrow> string \<Rightarrow> fsys \<Rightarrow> bool \<times> fsys" where
  "writeFileAtomic tmp path data fs =
     (case osMkdirAll (elems (Dir path)) fs of
        None \<Rightarrow> (False, fs)
      | Some fs1 \<Rightarrow>
          let tmpName = elems (Join [Dir path, ''.settings-'' @ show_nat tmp @ ''.tmp''])
          in case osWriteFile tmpName data fs1 of
               None \<Rightarrow> (False, fs1)
             | Some fs2 \<Rightarrow>
                 case osRename tmpName (elems path) fs2 of
                   None \<Rightarrow> (False, dropTemp tmpName fs2)
                 | Some fs3 \<Rightarrow> (True, dropTemp tmpName fs3))"

definition saveSettings ::
  "('v ext_settings \<Rightarrow> string option) \<Rightarrow> nat \<Rightarrow> 'v settings_store \<Rightarrow> string \<Rightarrow> 'v ext_settings \<Rightarrow> fsys \<Rightarrow> bool \<times> fsys" where
  "saveSettings encode tmp s extensionID settings fs =
     (case getSettingsPath s extensionID of
        None \<Rightarrow> (False, fs)
      | Some settingsPath \<Rightarrow>
          case osMkdirAll (elems (Dir settingsPath)) fs of
            None \<Rightarrow> (False, fs)
          | Some fs1 \<Rightarrow>
              case encode settings of
                None \<Rightarrow> (False, fs1)
              | Some data \<Rightarrow> writeFileAtomic tmp settingsPath data fs1)"

definition GetSetting :: "'v settings_store \<Rightarrow> string \<Rightarrow> string \<Rightarrow> 'v option" where
  "GetSetting s extensionID key =
     (if \<not> extensionIDPattern extensionID then None
      else case map_of (esSettings s) extensionID of None \<Rightarrow> None | Some m \<Rightarrow> map_of m key)"

definition GetAllSettings :: "'v settings_store \<Rightarrow> string \<Rightarrow> 'v ext_settings" where
  "GetAllSettings s extensionID =
     (if \<not> extensionIDPattern extensionID then [] else get_or [] (esSettings s) extensionID)"

definition saveAndKeep ::
  "('v ext_settings \<Rightarrow> string option) \<Rightarrow> nat \<Rightarrow> string \<Rightarrow> 'v ext_settings \<Rightarrow> 'v settings_store \<times> fsys \<Rightarrow> bool \<times> 'v settings_store \<times> fsys" where
  "saveAndKeep encode tmp extensionID candidate = (\<lambda>(s, fs).
     case saveSettings encode tmp s extensionID candidate fs of
       (False, fs1) \<Rightarrow> (False, s, fs1)
     | (True, fs1) \<Rightarrow> (True, s\<lparr>esSettings := put extensionID candidate (esSettings s)\<rparr>, fs1))"

definition SetSetting ::
  "('v ext_settings \<Rightarrow> string option) \<Rightarrow> nat \<Rightarrow> string \<Rightarrow> string \<Rightarrow> 'v \<Rightarrow> 'v settings_store \<times> fsys \<Rightarrow> bool \<times> 'v settings_store \<times> fsys" where
  "SetSetting encode tmp extensionID key value = (\<lambda>(s, fs).
     if \<not> extensionIDPattern extensionID then (False, s, fs)
     else saveAndKeep encode tmp extensionID (put key value (get_or [] (esSettings s) extensionID)) (s, fs))"

definition SetAllSettings ::
  "('v ext_settings \<Rightarrow> string option) \<Rightarrow> nat \<Rightarrow> string \<Rightarrow> 'v ext_settings \<Rightarrow> 'v settings_store \<times> fsys \<Rightarrow> bool \<times> 'v settings_store \<times> fsys" where
  "SetAllSettings encode tmp extensionID settings = (\<lambda>(s, fs).
     if \<not> extensionIDPattern extensionID then (False, s, fs)
     else saveAndKeep encode tmp extensionID settings (s, fs))"

definition RemoveSetting ::
  "('v ext_settings \<Rightarrow> string option) \<Rightarrow> nat \<Rightarrow> string \<Rightarrow> string \<Rightarrow> 'v settings_store \<times> fsys \<Rightarrow> bool \<times> 'v settings_store \<times> fsys" where
  "RemoveSetting encode tmp extensionID key = (\<lambda>(s, fs).
     if \<not> extensionIDPattern extensionID then (False, s, fs)
     else case map_of (esSettings s) extensionID of
            None \<Rightarrow> (True, s, fs)
          | Some m \<Rightarrow> saveAndKeep encode tmp extensionID (del key m) (s, fs))"

definition RemoveAllSettings :: "string \<Rightarrow> 'v settings_store \<times> fsys \<Rightarrow> bool \<times> 'v settings_store \<times> fsys" where
  "RemoveAllSettings extensionID = (\<lambda>(s, fs).
     case getSettingsPath s extensionID of
       None \<Rightarrow> (False, s, fs)
     | Some settingsPath \<Rightarrow>
         let p = elems settingsPath
         in case osRemove p fs of
              Some fs1 \<Rightarrow> (True, s\<lparr>esSettings := del extensionID (esSettings s)\<rparr>, fs1)
            | None \<Rightarrow>
                if isFile fs p \<or> isDir fs p then (False, s, fs)
                else (True, s\<lparr>esSettings := del extensionID (esSettings s)\<rparr>, fs))"

section \<open>Memory and disk\<close>

datatype 'v settings_op =
    OpSet nat string string 'v
  | OpSetAll nat string "'v ext_settings"
  | OpRemove nat string string
  | OpRemoveAll string

fun runSettingsOp :: "('v ext_settings \<Rightarrow> string option) \<Rightarrow> 'v settings_op \<Rightarrow> 'v settings_store \<times> fsys \<Rightarrow> 'v settings_store \<times> fsys" where
  "runSettingsOp encode (OpSet tmp i k v) st = snd (SetSetting encode tmp i k v st)"
| "runSettingsOp encode (OpSetAll tmp i m) st = snd (SetAllSettings encode tmp i m st)"
| "runSettingsOp encode (OpRemove tmp i k) st = snd (RemoveSetting encode tmp i k st)"
| "runSettingsOp encode (OpRemoveAll i) st = snd (RemoveAllSettings i st)"

definition runSettings :: "('v ext_settings \<Rightarrow> string option) \<Rightarrow> 'v settings_op list \<Rightarrow> 'v settings_store \<times> fsys \<Rightarrow> 'v settings_store \<times> fsys" where
  "runSettings encode os st = fold (runSettingsOp encode) os st"

text \<open>What a setting is on disk: what a new process would load.\<close>

definition diskSetting :: "(string \<Rightarrow> 'v ext_settings option) \<Rightarrow> 'v settings_store \<Rightarrow> fsys \<Rightarrow> string \<Rightarrow> string \<Rightarrow> 'v option" where
  "diskSetting decode s fs i key = (case loadSettings decode s fs i of None \<Rightarrow> None | Some m \<Rightarrow> map_of m key)"

definition settingsOK :: "(string \<Rightarrow> 'v ext_settings option) \<Rightarrow> 'v settings_store \<times> fsys \<Rightarrow> bool" where
  "settingsOK decode = (\<lambda>(s, fs). IsAbs (esDataDir s) \<and> (\<forall>i key. diskSetting decode s fs i key = GetSetting s i key))"

lemma elems_trailing:
  assumes "list_all proper xs"
  shows "elems (slash # join_on slash xs @ [slash]) = xs"
proof -
  have "split_on slash (slash # join_on slash xs @ slash # []) = [] # split_on slash (join_on slash xs) @ [[]]"
    using split_on_sep [of slash "slash # join_on slash xs" "[]"] by simp
  moreover have "fold (pushElem True) (split_on slash (join_on slash xs)) [] = rev xs"
  proof (cases "xs = []")
    case True
    then show ?thesis by (simp add: pushElem_def)
  next
    case False
    then show ?thesis using split_join [OF False proper_no_slash [OF assms]] fold_proper [OF assms, of True "[]"] by simp
  qed
  ultimately show ?thesis by (simp add: elems_def IsAbs_def pushElem_def)
qed

lemma Dir_last:
  assumes p: "IsAbs p" "Clean p = p" and e: "elems p = xs @ [x]"
  shows "IsAbs (Dir p)" "elems (Dir p) = xs"
proof -
  have pr: "list_all proper (xs @ [x])" using elems_rooted [OF p(1)] e by simp
  then have x: "slash \<notin> set x" "x \<noteq> ''''" and xs: "list_all proper xs" by (auto simp: proper_def)
  have r: "p = slash # join_on slash (xs @ [x])" using full_render [OF p] e by simp
  have dw: "dropWhile (\<lambda>c. c \<noteq> slash) (rev x @ slash # ys) = slash # ys" for ys
    using x(1) by (subst dropWhile_append2) auto
  have "rev (dropWhile (\<lambda>c. c \<noteq> slash) (rev p)) = (if xs = [] then [slash] else slash # join_on slash xs @ [slash])"
  proof (cases "xs = []")
    case True
    then show ?thesis using dw [of "[]"] by (simp add: r)
  next
    case False
    then have "join_on slash (xs @ [x]) = join_on slash xs @ slash # x"
      by (induction xs rule: induct_list012) simp_all
    then show ?thesis using False dw [of "rev (join_on slash xs) @ [slash]"] by (simp add: r)
  qed
  then have d: "Dir p = Clean (if xs = [] then [slash] else slash # join_on slash xs @ [slash])" by (simp add: Dir_def)
  show "IsAbs (Dir p)" unfolding d IsAbs_Clean by (simp add: IsAbs_def)
  show "elems (Dir p) = xs"
    using elems_trailing [OF xs] by (simp add: d) (simp add: elems_def IsAbs_def pushElem_def)
qed

lemma Join_many:
  assumes d: "IsAbs d" and ps: "list_all proper ps" "ps \<noteq> []"
  shows "IsAbs (Join (d # ps))" "elems (Join (d # ps)) = elems d @ ps" "Clean (Join (d # ps)) = Join (d # ps)"
proof -
  have ne: "d \<noteq> ''''" "filter (\<lambda>p. p \<noteq> '''') ps = ps"
    using d ps(1) by (auto simp: IsAbs_def filter_id_conv list_all_iff proper_def)
  then have j: "Join (d # ps) = Clean (d @ slash # join_on slash ps)" using ps(2) by (simp add: Join_def join_on_Cons)
  have a: "IsAbs (d @ slash # join_on slash ps)" using d by (auto simp: IsAbs_def)
  then show "IsAbs (Join (d # ps))" by (simp add: j)
  show "Clean (Join (d # ps)) = Join (d # ps)" by (simp add: j)
  have "split_on slash (d @ slash # join_on slash ps) = split_on slash d @ ps"
    using split_on_sep [of slash d] split_join [OF ps(2) proper_no_slash [OF ps(1)]] by simp
  then show "elems (Join (d # ps)) = elems d @ ps"
    unfolding j elems_Clean using a d fold_proper [OF ps(1)] by (simp add: elems_def)
qed

lemma settings_path:
  assumes "IsAbs (esDataDir s)" "extensionIDPattern i"
  shows "\<exists>p. getSettingsPath s i = Some p \<and> IsAbs p \<and> elems p = elems (esDataDir s) @ [i, ''settings.json'']
    \<and> elems (Dir p) = elems (esDataDir s) @ [i]
    \<and> elems (Join [Dir p, ''.settings-'' @ show_nat t @ ''.tmp'']) = elems (esDataDir s) @ [i, ''.settings-'' @ show_nat t @ ''.tmp'']"
proof -
  let ?p = "Join [esDataDir s, i, ''settings.json'']" and ?t = "''.settings-'' @ show_nat t @ ''.tmp''"
  have pr: "list_all proper [i, ''settings.json'']" using id_proper [OF assms(2)] by (simp add: proper_def slash_def)
  note j = Join_many [OF assms(1) pr]
  have e: "elems ?p = (elems (esDataDir s) @ [i]) @ [''settings.json'']" using j(2) by simp
  have "IsAbs ?p" "Clean ?p = ?p" using j by simp_all
  note dir = Dir_last [OF this e]
  have "proper ?t" using show_nat_digits [of t] by (auto simp: proper_def slash_def is_digit_def)
  then have "elems (Join [Dir ?p, ?t]) = elems (esDataDir s) @ [i, ?t]"
    using Join_many(2) [OF dir(1), of "[?t]"] dir(2) by simp
  moreover have "esDataDir s \<noteq> ''''" using assms(1) by (auto simp: IsAbs_def)
  ultimately show ?thesis using assms(2) j dir(2) by (intro exI [of _ ?p]) (simp add: getSettingsPath_def)
qed

lemma disk_lookup:
  assumes "IsAbs (esDataDir s)" "extensionIDPattern i"
  shows "diskSetting decode s fs i key = (case map_of (fsFiles fs) (elems (esDataDir s) @ [i, ''settings.json'']) of
    None \<Rightarrow> None | Some d \<Rightarrow> (case decode d of None \<Rightarrow> None | Some m \<Rightarrow> map_of m key))"
  using settings_path [OF assms] by (auto simp: diskSetting_def loadSettings_def split: option.split)

lemma disk_invalid: "\<not> extensionIDPattern i \<Longrightarrow> diskSetting decode s fs i key = None"
  by (simp add: diskSetting_def loadSettings_def getSettingsPath_def)

lemma rename_file:
  assumes "osRename a b fs = Some fs'" "map_of (fsFiles fs) a = Some c"
  shows "map_of (fsFiles fs') q = (if q = b then Some c else if q = a then None else map_of (fsFiles fs) q)"
  using assms by (auto simp: osRename_def split: if_splits)

lemma dropTemp_files: "q \<noteq> t \<Longrightarrow> map_of (fsFiles (dropTemp t fs)) q = map_of (fsFiles fs) q"
  unfolding dropTemp_def by (rule remove_or_same)

lemma write_content: "osWriteFile p data fs = Some fs' \<Longrightarrow> map_of (fsFiles fs') p = Some data"
  by (auto simp: osWriteFile_def split: if_splits)

lemma writeFileAtomic_files:
  assumes w: "writeFileAtomic tmp path data fs = (ok, fs')"
    and q: "q \<noteq> elems (Join [Dir path, ''.settings-'' @ show_nat tmp @ ''.tmp''])"
  shows "map_of (fsFiles fs') q = (if ok \<and> q = elems path then Some data else map_of (fsFiles fs) q)"
proof (cases "osMkdirAll (elems (Dir path)) fs")
  case None
  with w show ?thesis by (auto simp: writeFileAtomic_def)
next
  case mk: (Some fs1)
  let ?t = "elems (Join [Dir path, ''.settings-'' @ show_nat tmp @ ''.tmp''])"
  note m = mkdir_files [OF mk]
  show ?thesis
  proof (cases "osWriteFile ?t data fs1")
    case None
    with w mk m show ?thesis by (auto simp: writeFileAtomic_def Let_def)
  next
    case wr: (Some fs2)
    note c = write_content [OF wr] and o = write_files [OF wr q]
    show ?thesis
    proof (cases "osRename ?t (elems path) fs2")
      case None
      with w mk wr have "ok = False" "fs' = dropTemp ?t fs2" by (simp_all add: writeFileAtomic_def Let_def)
      then show ?thesis using o m q by (simp add: dropTemp_files)
    next
      case rn: (Some fs3)
      with w mk wr have "ok = True" "fs' = dropTemp ?t fs3" by (simp_all add: writeFileAtomic_def Let_def)
      then show ?thesis using rename_file [OF rn c] o m q by (simp add: dropTemp_files)
    qed
  qed
qed

text \<open>Saving the settings of an extension writes its file, or leaves it and all others.\<close>

lemma saveSettings_files:
  assumes d: "IsAbs (esDataDir s)" "extensionIDPattern i"
    and sv: "saveSettings encode tmp s i m fs = (ok, fs')"
  shows "ok \<Longrightarrow> \<exists>data. encode m = Some data \<and> map_of (fsFiles fs') (elems (esDataDir s) @ [i, ''settings.json'']) = Some data"
    and "\<not> ok \<or> j \<noteq> i \<Longrightarrow> map_of (fsFiles fs') (elems (esDataDir s) @ [j, ''settings.json''])
      = map_of (fsFiles fs) (elems (esDataDir s) @ [j, ''settings.json''])"
proof -
  from settings_path [OF d, of tmp] obtain p where p: "getSettingsPath s i = Some p"
    and ep: "elems p = elems (esDataDir s) @ [i, ''settings.json'']"
    and et: "elems (Join [Dir p, ''.settings-'' @ show_nat tmp @ ''.tmp'']) = elems (esDataDir s) @ [i, ''.settings-'' @ show_nat tmp @ ''.tmp'']"
    by blast
  have nt: "elems (esDataDir s) @ [j, ''settings.json''] \<noteq> elems (Join [Dir p, ''.settings-'' @ show_nat tmp @ ''.tmp''])" for j
    unfolding et by simp
  have c: "(\<not> ok \<and> fsFiles fs' = fsFiles fs)
    \<or> (\<exists>fs1 data. fsFiles fs1 = fsFiles fs \<and> encode m = Some data \<and> writeFileAtomic tmp p data fs1 = (ok, fs'))"
  proof (cases "osMkdirAll (elems (Dir p)) fs")
    case None
    with sv show ?thesis by (simp add: saveSettings_def p)
  next
    case (Some fs1)
    note mkdir_files [OF Some]
    with sv Some show ?thesis by (cases "encode m") (auto simp: saveSettings_def p)
  qed
  show "\<exists>data. encode m = Some data \<and> map_of (fsFiles fs') (elems (esDataDir s) @ [i, ''settings.json'']) = Some data" if ok
    using c
  proof (elim disjE conjE exE)
    fix fs1 data assume e: "encode m = Some data" and w: "writeFileAtomic tmp p data fs1 = (ok, fs')"
    then show ?thesis using writeFileAtomic_files [OF w nt, of i] that ep by simp
  qed (use that in simp)
  show "map_of (fsFiles fs') (elems (esDataDir s) @ [j, ''settings.json'']) = map_of (fsFiles fs) (elems (esDataDir s) @ [j, ''settings.json''])"
    if "\<not> ok \<or> j \<noteq> i"
    using c
  proof (elim disjE conjE exE)
    fix fs1 data assume f: "fsFiles fs1 = fsFiles fs" and w: "writeFileAtomic tmp p data fs1 = (ok, fs')"
    then show ?thesis using writeFileAtomic_files [OF w nt, of j] that ep by auto
  qed simp
qed

definition codec :: "('v ext_settings \<Rightarrow> string option) \<Rightarrow> (string \<Rightarrow> 'v ext_settings option) \<Rightarrow> bool" where
  "codec encode decode \<longleftrightarrow> (\<forall>m data. encode m = Some data \<longrightarrow> (\<exists>m'. decode data = Some m' \<and> map_of m' = map_of m))"

lemma settingsOK_D: "settingsOK decode (s, fs) \<Longrightarrow> diskSetting decode s fs i key = GetSetting s i key"
  by (simp add: settingsOK_def)

lemma settingsOK_I:
  assumes "IsAbs (esDataDir s)" "\<And>i key. extensionIDPattern i \<Longrightarrow> diskSetting decode s fs i key = GetSetting s i key"
  shows "settingsOK decode (s, fs)"
proof -
  have "diskSetting decode s fs i key = GetSetting s i key" for i key
    using assms(2) by (cases "extensionIDPattern i") (simp_all add: disk_invalid GetSetting_def)
  with assms(1) show ?thesis by (simp add: settingsOK_def)
qed

lemma settingsOK_save:
  assumes ok: "settingsOK decode (s, fs)" and c: "codec encode decode" and i: "extensionIDPattern i"
  shows "settingsOK decode (snd (saveAndKeep encode tmp i m (s, fs)))"
proof -
  have d: "IsAbs (esDataDir s)" using ok by (simp add: settingsOK_def)
  obtain b fs' where sv: "saveSettings encode tmp s i m fs = (b, fs')" by fastforce
  note f = saveSettings_files [OF d i sv]
  note look = disk_lookup [OF d]
  show ?thesis
  proof (cases b)
    case False
    have "settingsOK decode (s, fs')"
    proof (rule settingsOK_I [OF d])
      show "diskSetting decode s fs' j key = GetSetting s j key" if "extensionIDPattern j" for j key
        using settingsOK_D [OF ok, of j key] f(2) [of j] False that by (simp add: look)
    qed
    with False show ?thesis by (simp add: saveAndKeep_def sv)
  next
    case True
    with f(1) c obtain data m' where data: "map_of (fsFiles fs') (elems (esDataDir s) @ [i, ''settings.json'']) = Some data"
      "decode data = Some m'" "map_of m' = map_of m" by (fastforce simp: codec_def)
    let ?s = "s\<lparr>esSettings := put i m (esSettings s)\<rparr>"
    have "settingsOK decode (?s, fs')"
    proof (rule settingsOK_I)
      show "IsAbs (esDataDir ?s)" using d by simp
      have eq: "diskSetting decode ?s fs' j key = diskSetting decode s fs' j key" for j key
        by (simp add: diskSetting_def loadSettings_def getSettingsPath_def)
      show "diskSetting decode ?s fs' j key = GetSetting ?s j key" if j: "extensionIDPattern j" for j key
      proof (cases "j = i")
        case True
        then show ?thesis unfolding eq using data i by (simp add: look GetSetting_def)
      next
        case False
        then show ?thesis unfolding eq
          using settingsOK_D [OF ok, of j key] f(2) [of j] j by (simp add: look GetSetting_def)
      qed
    qed
    with True show ?thesis by (simp add: saveAndKeep_def sv)
  qed
qed

lemma settingsOK_removeAll:
  assumes ok: "settingsOK decode (s, fs)"
  shows "settingsOK decode (snd (RemoveAllSettings i (s, fs)))"
proof (cases "getSettingsPath s i")
  case None
  with ok show ?thesis by (simp add: RemoveAllSettings_def)
next
  case (Some p)
  have d: "IsAbs (esDataDir s)" using ok by (simp add: settingsOK_def)
  from Some have i: "extensionIDPattern i" by (auto simp: getSettingsPath_def split: if_splits)
  have ep: "elems p = elems (esDataDir s) @ [i, ''settings.json'']" using settings_path [OF d i] Some by auto
  let ?s = "s\<lparr>esSettings := del i (esSettings s)\<rparr>"
  have gone: "settingsOK decode (?s, fs')"
    if n: "map_of (fsFiles fs') (elems p) = None" and o: "\<And>q. q \<noteq> elems p \<Longrightarrow> map_of (fsFiles fs') q = map_of (fsFiles fs) q" for fs'
  proof (rule settingsOK_I)
    show "IsAbs (esDataDir ?s)" using d by simp
    have eq: "diskSetting decode ?s fs' j key = diskSetting decode s fs' j key" for j key
      by (simp add: diskSetting_def loadSettings_def getSettingsPath_def)
    show "diskSetting decode ?s fs' j key = GetSetting ?s j key" if j: "extensionIDPattern j" for j key
    proof (cases "j = i")
      case True
      then show ?thesis unfolding eq using n i by (simp add: disk_lookup [OF d] GetSetting_def ep)
    next
      case False
      then have "elems (esDataDir s) @ [j, ''settings.json''] \<noteq> elems p" by (simp add: ep)
      from o [OF this] False show ?thesis unfolding eq
        using settingsOK_D [OF ok, of j key] j by (simp add: disk_lookup [OF d] GetSetting_def)
    qed
  qed
  show ?thesis
  proof (cases "osRemove (elems p) fs")
    case None
    show ?thesis
    proof (cases "isFile fs (elems p) \<or> isDir fs (elems p)")
      case True
      then show ?thesis using ok Some None by (simp add: RemoveAllSettings_def Let_def)
    next
      case False
      then have "map_of (fsFiles fs) (elems p) = None" by (simp add: isFile_def)
      from gone [OF this] False Some None show ?thesis by (simp add: RemoveAllSettings_def Let_def)
    qed
  next
    case r: (Some fs1)
    have "map_of (fsFiles fs1) (elems p) = None" using r by (auto simp: osRemove_def isFile_def split: if_splits)
    from gone [OF this remove_files [OF r]] show ?thesis by (simp add: RemoveAllSettings_def Some r Let_def)
  qed
qed

lemma settingsOK_step:
  assumes ok: "settingsOK decode st" and c: "codec encode decode"
  shows "settingsOK decode (runSettingsOp encode x st)"
proof -
  obtain s fs where st: "st = (s, fs)" by (cases st)
  note ok' = ok [unfolded st]
  show ?thesis
    using ok' settingsOK_save [OF ok' c] settingsOK_removeAll [OF ok']
    by (cases x) (auto simp: st SetSetting_def SetAllSettings_def RemoveSetting_def split: option.split)
qed

lemma settingsOK_run: "settingsOK decode st \<Longrightarrow> codec encode decode \<Longrightarrow> settingsOK decode (runSettings encode xs st)"
  unfolding runSettings_def by (induction xs arbitrary: st) (simp_all add: settingsOK_step)

section \<open>Loading\<close>

text \<open>Every file lies in a directory.\<close>

definition fsOK :: "fsys \<Rightarrow> bool" where
  "fsOK fs \<longleftrightarrow> list_all (\<lambda>(p, _). p \<noteq> [] \<and> isDir fs (butlast p)) (fsFiles fs)"

lemma fsOK_file: "fsOK fs \<Longrightarrow> map_of (fsFiles fs) p = Some c \<Longrightarrow> p \<noteq> [] \<and> isDir fs (butlast p)"
  by (auto simp: fsOK_def list_all_iff dest!: map_of_SomeD)

lemma fsOK_mkdir: "osMkdirAll d fs = Some fs' \<Longrightarrow> fsOK fs \<Longrightarrow> fsOK fs'"
  by (auto simp: osMkdirAll_def fsOK_def isDir_def list_all_iff split: if_splits)

lemma load_same_dir: "esDataDir s = esDataDir t \<Longrightarrow> loadSettings decode s fs i = loadSettings decode t fs i"
  by (simp add: loadSettings_def getSettingsPath_def)

definition loadOne :: "(string \<Rightarrow> 'v ext_settings option) \<Rightarrow> fsys \<Rightarrow> string \<Rightarrow> 'v settings_store \<Rightarrow> 'v settings_store" where
  "loadOne decode fs i st = (case loadSettings decode st fs i of None \<Rightarrow> st | Some m \<Rightarrow> st\<lparr>esSettings := put i m (esSettings st)\<rparr>)"

lemma loadOne_fold:
  "esDataDir (fold (loadOne decode fs) ns s) = esDataDir s \<and>
   map_of (esSettings (fold (loadOne decode fs) ns s)) j
     = (if j \<in> set ns then (case loadSettings decode s fs j of None \<Rightarrow> map_of (esSettings s) j | Some m \<Rightarrow> Some m)
        else map_of (esSettings s) j)"
proof (induction ns arbitrary: s)
  case (Cons i ns)
  have dir: "esDataDir (loadOne decode fs i s) = esDataDir s" by (simp add: loadOne_def split: option.split)
  have l: "loadSettings decode (loadOne decode fs i s) fs j = loadSettings decode s fs j" for j by (rule load_same_dir [OF dir])
  have m: "map_of (esSettings (loadOne decode fs i s)) j =
      (if j = i then (case loadSettings decode s fs i of None \<Rightarrow> map_of (esSettings s) j | Some m \<Rightarrow> Some m) else map_of (esSettings s) j)" for j
    by (simp add: loadOne_def split: option.split)
  show ?case using Cons [of "loadOne decode fs i s"] by (auto simp: dir l m split: option.split)
qed simp

lemma subdirs_iff: "i \<in> set (subdirs fs d) \<longleftrightarrow> d @ [i] \<in> set (fsDirs fs)"
  by (auto simp: subdirs_def image_iff)

lemma loaded_OK:
  assumes d: "IsAbs dataDir" and fs: "fsOK fs" and sd: "SetDataDir decode dataDir (NewSettingsStore, fs) = (True, st)"
  shows "settingsOK decode st"
proof -
  from sd obtain fs1 where mk: "osMkdirAll (elems dataDir) fs = Some fs1"
    by (auto simp: SetDataDir_def split: option.splits)
  let ?s0 = "\<lparr>esDataDir = dataDir, esSettings = []\<rparr> :: 'a settings_store"
  have st: "st = (loadAllSettings decode fs1 ?s0, fs1)" using sd mk by (simp add: SetDataDir_def NewSettingsStore_def)
  have ok: "fsOK fs1" by (rule fsOK_mkdir [OF mk fs])
  have root: "isDir fs1 (elems dataDir)" using mk by (auto simp: osMkdirAll_def isDir_def prefixes_snoc split: if_splits)
  have all: "loadAllSettings decode fs1 ?s0 = fold (loadOne decode fs1) (subdirs fs1 (elems dataDir)) ?s0"
    using root by (simp add: loadAllSettings_def loadOne_def [abs_def])
  note f = loadOne_fold [of decode fs1 "subdirs fs1 (elems dataDir)" ?s0]
  show ?thesis unfolding st
  proof (rule settingsOK_I)
    show "IsAbs (esDataDir (loadAllSettings decode fs1 ?s0))" using f d by (simp add: all)
    show "diskSetting decode (loadAllSettings decode fs1 ?s0) fs1 i key = GetSetting (loadAllSettings decode fs1 ?s0) i key"
      if i: "extensionIDPattern i" for i key
    proof -
      have disk: "diskSetting decode (loadAllSettings decode fs1 ?s0) fs1 i key = diskSetting decode ?s0 fs1 i key"
      proof -
        have "esDataDir (loadAllSettings decode fs1 ?s0) = esDataDir ?s0" using f by (simp add: all)
        from load_same_dir [OF this] show ?thesis by (simp only: diskSetting_def)
      qed
      show ?thesis
      proof (cases "i \<in> set (subdirs fs1 (elems dataDir))")
        case True
        then show ?thesis unfolding disk using f i by (simp add: all GetSetting_def diskSetting_def split: option.split)
      next
        case False
        have "map_of (fsFiles fs1) (elems dataDir @ [i, ''settings.json'']) = None"
        proof (rule ccontr)
          assume "map_of (fsFiles fs1) (elems dataDir @ [i, ''settings.json'']) \<noteq> None"
          then obtain c where "map_of (fsFiles fs1) (elems dataDir @ [i, ''settings.json'']) = Some c" by auto
          from fsOK_file [OF ok this] have "isDir fs1 (elems dataDir @ [i])" by (simp add: butlast_append)
          with False show False by (simp add: subdirs_iff isDir_def)
        qed
        then show ?thesis unfolding disk using False f d i by (simp add: all GetSetting_def disk_lookup)
      qed
    qed
  qed
qed

text \<open> the settings of an extension are durable: after a start from any file system and any
  sequence of settings written, replaced and removed, failed ones included, a setting read
  from memory is the one that the file of its extension holds, so that a restart of the app
  loads the same value for every extension and key, or none where there was none. \<close>

theorem ext_settings_durable:
  assumes "IsAbs dataDir" and "fsOK fs" and "codec encode decode"
    and "SetDataDir decode dataDir (NewSettingsStore, fs) = (True, st)"
    and "runSettings encode ops st = (s, fs')"
  shows "(case loadSettings decode s fs' i of None \<Rightarrow> None | Some m \<Rightarrow> map_of m key) = GetSetting s i key"
  using settingsOK_D [of decode s fs' i key] settingsOK_run [OF loaded_OK [OF assms(1,2,4)] assms(3), of ops] assms(5)
  by (simp add: diskSetting_def)

text \<open>A codec for settings whose values are strings without the separators.\<close>

fun exampleEncode :: "string ext_settings \<Rightarrow> string option" where
  "exampleEncode [] = Some ''''"
| "exampleEncode ((k, v) # m) =
     (if CHR ''='' \<in> set k \<or> CHR '';'' \<in> set v then None
      else case exampleEncode m of None \<Rightarrow> None | Some r \<Rightarrow> Some (k @ ''='' @ v @ '';'' @ r))"

function exampleDecode :: "string \<Rightarrow> string ext_settings option" where
  "exampleDecode s =
     (if s = [] then Some []
      else
        let k = takeWhile (\<lambda>c. c \<noteq> CHR ''='') s;
            r = drop (length k + 1) s;
            v = takeWhile (\<lambda>c. c \<noteq> CHR '';'') r
        in case exampleDecode (drop (length v + 1) r) of None \<Rightarrow> None | Some m \<Rightarrow> Some ((k, v) # m))"
  by pat_completeness auto
termination by (relation "measure length") auto

declare exampleDecode.simps [simp del]

lemma takeWhile_sep: "c \<notin> set k \<Longrightarrow> takeWhile (\<lambda>d. d \<noteq> c) (k @ c # r) = k"
  by (induction k) auto

lemma example_codec: "codec exampleEncode exampleDecode"
proof -
  have "exampleDecode d = Some m" if "exampleEncode m = Some d" for m d
    using that
  proof (induction m arbitrary: d)
    case Nil
    then show ?case by (simp add: exampleDecode.simps)
  next
    case (Cons p m)
    obtain k v where p: "p = (k, v)" by (cases p)
    from Cons.prems obtain r where r: "exampleEncode m = Some r" and d: "d = k @ CHR ''='' # v @ CHR '';'' # r"
      and s: "CHR ''='' \<notin> set k" "CHR '';'' \<notin> set v"
      by (auto simp: p split: if_splits option.splits)
    show ?case
      using Cons.IH [OF r] s by (subst exampleDecode.simps) (simp add: d p takeWhile_sep Let_def)
  qed
  then show ?thesis by (auto simp: codec_def)
qed

lemma ext_settings_durable_witness:
  "\<exists>s fs'. runSettings exampleEncode [OpSet 1 ''foo'' ''k'' ''v''] (snd (SetDataDir exampleDecode ''/app/data'' (NewSettingsStore, exampleFiles)))
       = (s, fs') \<and> GetSetting s ''foo'' ''k'' = Some ''v''
     \<and> (case loadSettings exampleDecode s fs' ''foo'' of None \<Rightarrow> None | Some m \<Rightarrow> map_of m ''k'') = Some ''v''"
proof -
  have a: "IsAbs ''/app/data''" "fsOK exampleFiles" by code_simp+
  have v: "case SetDataDir exampleDecode ''/app/data'' (NewSettingsStore, exampleFiles) of (ok, st) \<Rightarrow>
      ok \<and> GetSetting (fst (runSettings exampleEncode [OpSet 1 ''foo'' ''k'' ''v''] st)) ''foo'' ''k'' = Some ''v''"
    by code_simp
  then obtain st where st: "SetDataDir exampleDecode ''/app/data'' (NewSettingsStore, exampleFiles) = (True, st)" by auto
  obtain s fs' where r: "runSettings exampleEncode [OpSet 1 ''foo'' ''k'' ''v''] st = (s, fs')" by fastforce
  have "GetSetting s ''foo'' ''k'' = Some ''v''" using v by (simp only: st r prod.case fst_conv simp_thms)
  with ext_settings_durable [OF a example_codec st r, where i = "''foo''" and key = "''k''"] r st show ?thesis by auto
qed

end
