(* ===== verification/ExtManager.thy ===== *)
theory ExtManager
  imports ExtSettings
begin

text \<open>
  The extension manager (\<open>go_backend/extension_manager.go\<close>, and the parts of
  \<open>extension_manager_runtime.go\<close> that its states rest on): installing, upgrading, loading,
  enabling and removing extensions, over the packages, the settings store and the file system.
  The JavaScript engine is a parameter: running the script of an extension, handing it its
  settings and cleaning up may fail and may change files. An archive is what opening it gives.
\<close>

section \<open>Loaded extensions\<close>

record 'f loaded_extension =
  lxID :: string
  lxManifest :: "'f extension_manifest"
  lxVM :: bool
  lxRuntime :: bool
  lxInitialized :: bool
  lxEnabled :: bool
  lxError :: string
  lxDataDir :: string
  lxSourceDir :: string

record 'f ext_manager =
  mgExtensions :: "(string, 'f loaded_extension) gomap"
  mgExtensionsDir :: string
  mgDataDir :: string

record 'f world =
  wManager :: "'f ext_manager"
  wStore :: "'f json settings_store"
  wFiles :: fsys

text \<open>
  What running a script does: it is ready, or there is no runtime for it since it cannot be
  read or compiled, or the script itself failed after its runtime was made.
\<close>

datatype script_result = ScriptReady | ScriptUnreadable string | ScriptFailed string

record 'f env =
  envCwd :: string
  envLower :: "string \<Rightarrow> string"
  envAppVersion :: string
  envParse :: "string \<Rightarrow> manifest_error + 'f extension_manifest"
  envRun :: "'f loaded_extension \<Rightarrow> fsys \<Rightarrow> script_result \<times> fsys"
  envConfigure :: "'f loaded_extension \<Rightarrow> 'f json ext_settings \<Rightarrow> fsys \<Rightarrow> string option \<times> fsys"
  envCleanup :: "'f loaded_extension \<Rightarrow> fsys \<Rightarrow> fsys"
  envEncode :: "'f json ext_settings \<Rightarrow> string option"

definition getExtensionInitSettings :: "'f json settings_store \<Rightarrow> string \<Rightarrow> 'f json ext_settings" where
  "getExtensionInitSettings s extensionID = filter (\<lambda>(key, _). \<not> starts_with ''_'' key) (GetAllSettings s extensionID)"

section \<open>Gates\<close>

definition supportedRuntimeFeatures :: "(string, int) gomap" where
  "supportedRuntimeFeatures =
     [(''signedSession'', 3), (''sessionRefresh'', 1), (''sessionGrant'', 1), (''globalAction'', 1), (''webviewAuth'', 1)]"

text \<open>The name and the version of a feature, cut at the last \<open>@\<close> that is not its first byte.\<close>

definition featureOf :: "string \<Rightarrow> string \<times> int" where
  "featureOf name =
     (let suf = rev (takeWhile (\<lambda>c. c \<noteq> CHR ''@'') (rev name));
          pos = length name - length suf
      in if length suf < length name \<and> pos > 1
         then (take (pos - 1) name, (case parseInt64 suf of Some v \<Rightarrow> if v > 0 then v else 1 | None \<Rightarrow> 1))
         else (name, 1))"

datatype gate_error = NeedsApp string | UnknownFeature string | OldFeature string int

fun checkFeatures :: "string list \<Rightarrow> gate_error option" where
  "checkFeatures [] = None"
| "checkFeatures (raw # fs) =
     (let name0 = trim_space raw
      in if name0 = '''' then checkFeatures fs
         else
           case featureOf name0 of (name, wantVersion) \<Rightarrow>
             case map_of supportedRuntimeFeatures name of
               None \<Rightarrow> Some (UnknownFeature name)
             | Some have \<Rightarrow> if have < wantVersion then Some (OldFeature name wantVersion) else checkFeatures fs)"

definition validateManifestGates :: "'f env \<Rightarrow> 'f extension_manifest \<Rightarrow> gate_error option" where
  "validateManifestGates env manifest =
     (let minVersion = trim_space (emMinAppVersion manifest); appVersion = trim_space (envAppVersion env)
      in if minVersion \<noteq> '''' \<and> appVersion \<noteq> '''' \<and> compareVersions appVersion minVersion < 0
         then Some (NeedsApp minVersion)
         else checkFeatures (emRequiredRuntimeFeatures manifest))"

datatype runtime_error = GateError gate_error | ScriptError string | ConfigureError string

fun runtimeErrorText :: "runtime_error \<Rightarrow> string" where
  "runtimeErrorText (GateError _) = ''gate''"
| "runtimeErrorText (ScriptError e) = ''script: '' @ e"
| "runtimeErrorText (ConfigureError e) = ''configure: '' @ e"

section \<open>The runtime of an extension\<close>

definition initializeVM :: "'f env \<Rightarrow> 'f loaded_extension \<Rightarrow> fsys \<Rightarrow> string option \<times> 'f loaded_extension \<times> fsys" where
  "initializeVM env ext fs =
     (case envRun env ext fs of
        (ScriptReady, fs1) \<Rightarrow> (None, ext\<lparr>lxVM := True, lxRuntime := True, lxInitialized := False\<rparr>, fs1)
      | (ScriptUnreadable e, fs1) \<Rightarrow> (Some e, ext\<lparr>lxVM := True, lxRuntime := False, lxInitialized := False\<rparr>, fs1)
      | (ScriptFailed e, fs1) \<Rightarrow> (Some e, ext\<lparr>lxVM := True, lxRuntime := True, lxInitialized := False\<rparr>, fs1))"

definition teardownVM :: "'f env \<Rightarrow> 'f loaded_extension \<Rightarrow> fsys \<Rightarrow> 'f loaded_extension \<times> fsys" where
  "teardownVM env ext fs = (ext\<lparr>lxVM := False, lxRuntime := False, lxInitialized := False\<rparr>, envCleanup env ext fs)"

definition failed :: "runtime_error \<Rightarrow> 'f loaded_extension \<Rightarrow> 'f loaded_extension" where
  "failed e ext = ext\<lparr>lxError := runtimeErrorText e, lxEnabled := False\<rparr>"

definition readyVM :: "'f env \<Rightarrow> 'f loaded_extension \<Rightarrow> fsys \<Rightarrow> string option \<times> 'f loaded_extension \<times> fsys" where
  "readyVM env ext fs = (if \<not> lxVM ext \<or> \<not> lxRuntime ext then initializeVM env ext fs else (None, ext, fs))"

definition ensureRuntimeReady ::
  "'f env \<Rightarrow> 'f json settings_store \<Rightarrow> bool \<Rightarrow> 'f loaded_extension \<Rightarrow> fsys \<Rightarrow> runtime_error option \<times> 'f loaded_extension \<times> fsys" where
  "ensureRuntimeReady env store applyStored ext fs =
     (case validateManifestGates env (lxManifest ext) of
        Some g \<Rightarrow> (Some (GateError g), failed (GateError g) ext, fs)
      | None \<Rightarrow>
          case readyVM env ext fs of
            (Some e, ext1, fs1) \<Rightarrow> (Some (ScriptError e), failed (ScriptError e) ext1, fs1)
          | (None, ext1, fs1) \<Rightarrow>
              if applyStored \<and> \<not> lxInitialized ext1 then
                (let settings = getExtensionInitSettings store (lxID ext1)
                 in if settings \<noteq> [] then
                      (case envConfigure env ext1 settings fs1 of
                         (Some e, fs2) \<Rightarrow>
                           (case teardownVM env ext1 fs2 of
                              (ext2, fs3) \<Rightarrow> (Some (ConfigureError e), failed (ConfigureError e) ext2, fs3))
                       | (None, fs2) \<Rightarrow> (None, ext1\<lparr>lxInitialized := True, lxError := ''''\<rparr>, fs2))
                    else (None, ext1\<lparr>lxInitialized := True, lxError := ''''\<rparr>, fs1))
              else (None, ext1\<lparr>lxError := ''''\<rparr>, fs1))"

definition validateExtensionLoad ::
  "'f env \<Rightarrow> 'f loaded_extension \<Rightarrow> fsys \<Rightarrow> runtime_error option \<times> 'f loaded_extension \<times> fsys" where
  "validateExtensionLoad env ext fs =
     (case validateManifestGates env (lxManifest ext) of
        Some g \<Rightarrow> (Some (GateError g), ext, fs)
      | None \<Rightarrow>
          case initializeVM env ext fs of
            (Some e, ext1, fs1) \<Rightarrow> (Some (ScriptError e), ext1, fs1)
          | (None, ext1, fs1) \<Rightarrow> (case teardownVM env ext1 fs1 of (ext2, fs2) \<Rightarrow> (None, ext2, fs2)))"

text \<open>What loading keeps of a failed validation: the extension, disabled, with the error.\<close>

definition loadChecked :: "'f env \<Rightarrow> 'f loaded_extension \<Rightarrow> fsys \<Rightarrow> 'f loaded_extension \<times> fsys" where
  "loadChecked env ext fs =
     (case validateExtensionLoad env ext fs of
        (Some e, ext1, fs1) \<Rightarrow> (failed e ext1, fs1)
      | (None, ext1, fs1) \<Rightarrow> (ext1, fs1))"

section \<open>Directories\<close>

definition osMkdir :: "string list \<Rightarrow> fsys \<Rightarrow> fsys option" where
  "osMkdir d fs =
     (if isDir fs d \<or> isFile fs d \<or> \<not> isDir fs (butlast d) then None else Some (fs\<lparr>fsDirs := d # fsDirs fs\<rparr>))"

definition osRemoveAll :: "string list \<Rightarrow> fsys \<Rightarrow> fsys" where
  "osRemoveAll d fs =
     fs\<lparr>fsFiles := filter (\<lambda>(p, _). \<not> prefix d p) (fsFiles fs), fsDirs := filter (\<lambda>p. \<not> prefix d p) (fsDirs fs)\<rparr>"

definition present :: "fsys \<Rightarrow> string list \<Rightarrow> bool" where
  "present fs p \<longleftrightarrow> isFile fs p \<or> isDir fs p"

text \<open>\<open>os.MkdirTemp\<close>: its random part is an argument; the name is tried once.\<close>

definition tempDir :: "string \<Rightarrow> string \<Rightarrow> string \<Rightarrow> nat \<Rightarrow> string" where
  "tempDir dir name purpose rnd = Join [dir, ''.'' @ name @ purpose @ show_nat rnd]"

section \<open>Operations\<close>

datatype manager_error =
    BadFormat | CannotOpen | BadPackage inspect_error | AlreadyInstalled | Downgrade | RefusedPath | DirectoryExists
  | StagingFailed | ExtractFailed | DataDirFailed | ActivateFailed | NotInstalled | Rejected runtime_error | BackupFailed
  | UnloadFailed | NotFound | BadManifestFile manifest_error | NoManifestFile | NoIndexFile

definition SetDirectories :: "string \<Rightarrow> string \<Rightarrow> 'f world \<Rightarrow> bool \<times> 'f world" where
  "SetDirectories extensionsDir dataDir w =
     (let w1 = w\<lparr>wManager := (wManager w)\<lparr>mgExtensionsDir := extensionsDir, mgDataDir := dataDir\<rparr>\<rparr>
      in case osMkdirAll (elems extensionsDir) (wFiles w) of
           None \<Rightarrow> (False, w1)
         | Some fs1 \<Rightarrow>
             case osMkdirAll (elems dataDir) fs1 of
               None \<Rightarrow> (False, w1\<lparr>wFiles := fs1\<rparr>)
             | Some fs2 \<Rightarrow> (True, w1\<lparr>wFiles := fs2\<rparr>))"

definition newExtension :: "'f extension_manifest \<Rightarrow> bool \<Rightarrow> string \<Rightarrow> string \<Rightarrow> 'f loaded_extension" where
  "newExtension manifest enabled dataDir sourceDir =
     \<lparr>lxID = emName manifest, lxManifest = manifest, lxVM = False, lxRuntime = False, lxInitialized = False,
      lxEnabled = enabled, lxError = '''', lxDataDir = dataDir, lxSourceDir = sourceDir\<rparr>"

definition register :: "'f loaded_extension \<Rightarrow> 'f ext_manager \<Rightarrow> 'f ext_manager" where
  "register ext m = m\<lparr>mgExtensions := put (lxID ext) ext (mgExtensions m)\<rparr>"

text \<open>Failing after the staging directory was made removes it.\<close>

definition unstage :: "string \<Rightarrow> 'e \<Rightarrow> 'f world \<Rightarrow> ('e + 'a) \<times> 'f world" where
  "unstage staging e w = (Inl e, w\<lparr>wFiles := osRemoveAll (elems staging) (wFiles w)\<rparr>)"

definition installNew ::
  "'f env \<Rightarrow> nat \<Rightarrow> zip_file list \<Rightarrow> 'f extension_manifest \<Rightarrow> 'f world \<Rightarrow> (manager_error + 'f loaded_extension) \<times> 'f world" where
  "installNew env rnd files manifest w =
     (let m = wManager w; name = emName manifest
      in case managedExtensionPath (envCwd env) (mgExtensionsDir m) name of
           None \<Rightarrow> (Inl RefusedPath, w)
         | Some extDir \<Rightarrow>
             if present (wFiles w) (elems extDir) then (Inl DirectoryExists, w)
             else
               let staging = tempDir (mgExtensionsDir m) name ''-install-'' rnd
               in case osMkdir (elems staging) (wFiles w) of
                    None \<Rightarrow> (Inl StagingFailed, w)
                  | Some fs1 \<Rightarrow>
                      case extractExtensionArchive (envLower env) (envCwd env) staging files fs1 of
                        (False, fs2) \<Rightarrow> unstage staging ExtractFailed (w\<lparr>wFiles := fs2\<rparr>)
                      | (True, fs2) \<Rightarrow>
                          case managedExtensionPath (envCwd env) (mgDataDir m) name of
                            None \<Rightarrow> unstage staging RefusedPath (w\<lparr>wFiles := fs2\<rparr>)
                          | Some extDataDir \<Rightarrow>
                              case osMkdirAll (elems extDataDir) fs2 of
                                None \<Rightarrow> unstage staging DataDirFailed (w\<lparr>wFiles := fs2\<rparr>)
                              | Some fs3 \<Rightarrow>
                                  case loadChecked env (newExtension manifest False extDataDir staging) fs3 of
                                    (ext, fs4) \<Rightarrow>
                                      case osRename (elems staging) (elems extDir) fs4 of
                                        None \<Rightarrow> unstage staging ActivateFailed (w\<lparr>wFiles := fs4\<rparr>)
                                      | Some fs5 \<Rightarrow>
                                          (Inr (ext\<lparr>lxSourceDir := extDir\<rparr>),
                                           w\<lparr>wManager := register (ext\<lparr>lxSourceDir := extDir\<rparr>) m, wFiles := fs5\<rparr>))"

definition UnloadExtension :: "'f env \<Rightarrow> string \<Rightarrow> 'f world \<Rightarrow> bool \<times> 'f world" where
  "UnloadExtension env extensionID w =
     (case map_of (mgExtensions (wManager w)) extensionID of
        None \<Rightarrow> (False, w)
      | Some ext \<Rightarrow>
          (True, w\<lparr>wManager := (wManager w)\<lparr>mgExtensions := del extensionID (mgExtensions (wManager w))\<rparr>,
                   wFiles := envCleanup env ext (wFiles w)\<rparr>))"

text \<open>What an upgrade checks of the new extension: it must run, with its settings if it was enabled.\<close>

definition checkUpgraded ::
  "'f env \<Rightarrow> 'f json settings_store \<Rightarrow> 'f loaded_extension \<Rightarrow> fsys \<Rightarrow> runtime_error option \<times> 'f loaded_extension \<times> fsys" where
  "checkUpgraded env store ext fs =
     (if lxEnabled ext then ensureRuntimeReady env store True ext fs else validateExtensionLoad env ext fs)"

definition upgradeTo ::
  "'f env \<Rightarrow> nat \<Rightarrow> nat \<Rightarrow> zip_file list \<Rightarrow> 'f extension_manifest \<Rightarrow> 'f loaded_extension \<Rightarrow> 'f world \<Rightarrow>
     (manager_error + 'f loaded_extension) \<times> 'f world" where
  "upgradeTo env rnd rnd' files manifest existing w =
     (let m = wManager w; name = emName manifest
      in case managedExtensionPath (envCwd env) (mgDataDir m) name of
           None \<Rightarrow> (Inl RefusedPath, w)
         | Some extDataDir \<Rightarrow>
             if Clean (lxDataDir existing) \<noteq> Clean extDataDir then (Inl RefusedPath, w)
             else
               case managedExtensionPath (envCwd env) (mgExtensionsDir m) name of
                 None \<Rightarrow> (Inl RefusedPath, w)
               | Some extDir \<Rightarrow>
                   if Clean (lxSourceDir existing) \<noteq> Clean extDir then (Inl RefusedPath, w)
                   else
                     let staging = tempDir (mgExtensionsDir m) name ''-upgrade-'' rnd
                     in case osMkdir (elems staging) (wFiles w) of
                          None \<Rightarrow> (Inl StagingFailed, w)
                        | Some fs1 \<Rightarrow>
                            case extractExtensionArchive (envLower env) (envCwd env) staging files fs1 of
                              (False, fs2) \<Rightarrow> unstage staging ExtractFailed (w\<lparr>wFiles := fs2\<rparr>)
                            | (True, fs2) \<Rightarrow>
                                case checkUpgraded env (wStore w) (newExtension manifest (lxEnabled existing) extDataDir staging) fs2 of
                                  (Some e, _, fs3) \<Rightarrow> unstage staging (Rejected e) (w\<lparr>wFiles := fs3\<rparr>)
                                | (None, ext, fs3) \<Rightarrow>
                                    let backup = tempDir (mgExtensionsDir m) name ''-backup-'' rnd'
                                    in if present fs3 (elems backup) \<or> \<not> isDir fs3 (butlast (elems backup))
                                       then unstage staging BackupFailed (w\<lparr>wFiles := envCleanup env ext fs3\<rparr>)
                                       else
                                         case osRename (elems extDir) (elems backup) fs3 of
                                           None \<Rightarrow> unstage staging BackupFailed (w\<lparr>wFiles := envCleanup env ext fs3\<rparr>)
                                         | Some fs4 \<Rightarrow>
                                             case osRename (elems staging) (elems extDir) fs4 of
                                               None \<Rightarrow>
                                                 (let fs5 = (case osRename (elems backup) (elems extDir) fs4 of None \<Rightarrow> fs4 | Some fs \<Rightarrow> fs)
                                                  in unstage staging ActivateFailed (w\<lparr>wFiles := envCleanup env ext fs5\<rparr>))
                                             | Some fs5 \<Rightarrow>
                                                 (let new = ext\<lparr>lxSourceDir := extDir\<rparr>
                                                  in case UnloadExtension env (lxID existing) (w\<lparr>wFiles := fs5\<rparr>) of
                                                       (False, w1) \<Rightarrow>
                                                         (let fs6 = osRemoveAll (elems extDir) (wFiles w1);
                                                              fs7 = (case osRename (elems backup) (elems extDir) fs6 of None \<Rightarrow> fs6 | Some fs \<Rightarrow> fs)
                                                          in (Inl UnloadFailed, w1\<lparr>wFiles := envCleanup env new fs7\<rparr>))
                                                     | (True, w1) \<Rightarrow>
                                                         (Inr new,
                                                          w1\<lparr>wManager := register new (wManager w1),
                                                             wFiles := osRemoveAll (elems backup) (wFiles w1)\<rparr>)))"

text \<open>
  An upgrade of an installed extension, and the installation of a file: an upgrade if it is
  installed with a lower version. The lookup and the upgrade are one step here; in the code
  \<open>UnloadExtension\<close> may run between them, and then the old version is put back.
\<close>

definition UpgradeExtension ::
  "'f env \<Rightarrow> nat \<Rightarrow> nat \<Rightarrow> string \<Rightarrow> zip_file list option \<Rightarrow> 'f world \<Rightarrow> (manager_error + 'f loaded_extension) \<times> 'f world" where
  "UpgradeExtension env rnd rnd' filePath archive w =
     (if \<not> isExtensionPackagePath (envLower env) filePath then (Inl BadFormat, w)
      else
        case archive of
          None \<Rightarrow> (Inl CannotOpen, w)
        | Some files \<Rightarrow>
            case inspectExtensionPackage (envLower env) (envParse env) files of
              Inl e \<Rightarrow> (Inl (BadPackage e), w)
            | Inr manifest \<Rightarrow>
                case map_of (mgExtensions (wManager w)) (emName manifest) of
                  None \<Rightarrow> (Inl NotInstalled, w)
                | Some existing \<Rightarrow>
                    (let c = compareVersions (emVersion manifest) (emVersion (lxManifest existing))
                     in if c < 0 then (Inl Downgrade, w)
                        else if c = 0 then (Inl AlreadyInstalled, w)
                        else upgradeTo env rnd rnd' files manifest existing w))"

definition LoadExtensionFromFile ::
  "'f env \<Rightarrow> nat \<Rightarrow> nat \<Rightarrow> string \<Rightarrow> zip_file list option \<Rightarrow> 'f world \<Rightarrow> (manager_error + 'f loaded_extension) \<times> 'f world" where
  "LoadExtensionFromFile env rnd rnd' filePath archive w =
     (if \<not> isExtensionPackagePath (envLower env) filePath then (Inl BadFormat, w)
      else
        case archive of
          None \<Rightarrow> (Inl CannotOpen, w)
        | Some files \<Rightarrow>
            case inspectExtensionPackage (envLower env) (envParse env) files of
              Inl e \<Rightarrow> (Inl (BadPackage e), w)
            | Inr manifest \<Rightarrow>
                case map_of (mgExtensions (wManager w)) (emName manifest) of
                  Some existing \<Rightarrow>
                    (let c = compareVersions (emVersion manifest) (emVersion (lxManifest existing))
                     in if c > 0 then UpgradeExtension env rnd rnd' filePath archive w
                        else if c = 0 then (Inl AlreadyInstalled, w)
                        else (Inl Downgrade, w))
                | None \<Rightarrow> installNew env rnd files manifest w)"

text \<open>
  Deleting a directory does not fail here. In the code it may, halfway: the failure is only
  logged, the extension is unregistered and the rest of the directory stays.
\<close>

definition RemoveExtension :: "'f env \<Rightarrow> string \<Rightarrow> 'f world \<Rightarrow> manager_error option \<times> 'f world" where
  "RemoveExtension env extensionID w =
     (let m = wManager w in
      case map_of (mgExtensions m) extensionID of
        None \<Rightarrow> (Some NotFound, w)
      | Some ext \<Rightarrow>
          case managedExtensionPath (envCwd env) (mgExtensionsDir m) (lxID ext) of
            None \<Rightarrow> (Some RefusedPath, w)
          | Some sourceDir \<Rightarrow>
              if \<not> isPathWithinBase (envCwd env) (mgExtensionsDir m) (lxSourceDir ext) \<or> Clean (lxSourceDir ext) \<noteq> Clean sourceDir
              then (Some RefusedPath, w)
              else
                case managedExtensionPath (envCwd env) (mgDataDir m) (lxID ext) of
                  None \<Rightarrow> (Some RefusedPath, w)
                | Some dataDir \<Rightarrow>
                    if \<not> isPathWithinBase (envCwd env) (mgDataDir m) (lxDataDir ext) \<or> Clean (lxDataDir ext) \<noteq> Clean dataDir
                    then (Some RefusedPath, w)
                    else
                      case UnloadExtension env extensionID w of
                        (False, w1) \<Rightarrow> (Some NotFound, w1)
                      | (True, w1) \<Rightarrow>
                          (None, w1\<lparr>wFiles := osRemoveAll (elems dataDir) (osRemoveAll (elems sourceDir) (wFiles w1))\<rparr>))"

definition storeEnabled :: "'f env \<Rightarrow> nat \<Rightarrow> string \<Rightarrow> bool \<Rightarrow> 'f world \<Rightarrow> 'f world" where
  "storeEnabled env rnd extensionID b w =
     (case SetSetting (envEncode env) rnd extensionID ''_enabled'' (JBool b) (wStore w, wFiles w) of
        (_, s, fs) \<Rightarrow> w\<lparr>wStore := s, wFiles := fs\<rparr>)"

definition SetExtensionEnabled :: "'f env \<Rightarrow> nat \<Rightarrow> string \<Rightarrow> bool \<Rightarrow> 'f world \<Rightarrow> manager_error option \<times> 'f world" where
  "SetExtensionEnabled env rnd extensionID b w =
     (case map_of (mgExtensions (wManager w)) extensionID of
        None \<Rightarrow> (Some NotFound, w)
      | Some ext \<Rightarrow>
          if b then
            (case ensureRuntimeReady env (wStore w) True (ext\<lparr>lxEnabled := True\<rparr>) (wFiles w) of
               (Some e, ext1, fs1) \<Rightarrow>
                 (Some (Rejected e),
                  storeEnabled env rnd extensionID False
                    (w\<lparr>wManager := (wManager w)\<lparr>mgExtensions := put extensionID (ext1\<lparr>lxEnabled := False\<rparr>) (mgExtensions (wManager w))\<rparr>,
                       wFiles := fs1\<rparr>))
             | (None, ext1, fs1) \<Rightarrow>
                 (None,
                  storeEnabled env rnd extensionID True
                    (w\<lparr>wManager := (wManager w)\<lparr>mgExtensions := put extensionID ext1 (mgExtensions (wManager w))\<rparr>, wFiles := fs1\<rparr>)))
          else
            (case teardownVM env (ext\<lparr>lxEnabled := False, lxError := ''''\<rparr>) (wFiles w) of
               (ext1, fs1) \<Rightarrow>
                 (None,
                  storeEnabled env rnd extensionID False
                    (w\<lparr>wManager := (wManager w)\<lparr>mgExtensions := put extensionID ext1 (mgExtensions (wManager w))\<rparr>, wFiles := fs1\<rparr>))))"

definition loadExtensionFromDirectory ::
  "'f env \<Rightarrow> string \<Rightarrow> 'f world \<Rightarrow> (manager_error + 'f loaded_extension) \<times> 'f world" where
  "loadExtensionFromDirectory env dirPath w =
     (let m = wManager w in
      case map_of (fsFiles (wFiles w)) (elems (Abs (envCwd env) (Join [dirPath, ''manifest.json'']))) of
        None \<Rightarrow> (Inl NoManifestFile, w)
      | Some manifestData \<Rightarrow>
          case envParse env manifestData of
            Inl e \<Rightarrow> (Inl (BadManifestFile e), w)
          | Inr manifest \<Rightarrow>
              if \<not> present (wFiles w) (elems (Abs (envCwd env) (Join [dirPath, ''index.js'']))) then (Inl NoIndexFile, w)
              else
                case map_of (mgExtensions m) (emName manifest) of
                  Some existing \<Rightarrow> (Inr existing, w)
                | None \<Rightarrow>
                    case managedExtensionPath (envCwd env) (mgExtensionsDir m) (emName manifest) of
                      None \<Rightarrow> (Inl RefusedPath, w)
                    | Some expected \<Rightarrow>
                        if Clean dirPath \<noteq> Clean expected then (Inl RefusedPath, w)
                        else
                          case managedExtensionPath (envCwd env) (mgDataDir m) (emName manifest) of
                            None \<Rightarrow> (Inl RefusedPath, w)
                          | Some extDataDir \<Rightarrow>
                              case osMkdirAll (elems extDataDir) (wFiles w) of
                                None \<Rightarrow> (Inl DataDirFailed, w)
                              | Some fs1 \<Rightarrow>
                                  let stored = (case GetSetting (wStore w) (emName manifest) ''_enabled'' of
                                                  Some (JBool b) \<Rightarrow> b | _ \<Rightarrow> False)
                                  in case loadChecked env (newExtension manifest stored extDataDir dirPath) fs1 of
                                       (ext, fs2) \<Rightarrow> (Inr ext, w\<lparr>wManager := register ext m, wFiles := fs2\<rparr>))"

text \<open>
  The entries of the directory as \<open>os.ReadDir\<close> sorts them: a directory, or a file with what
  opening it as an archive gives.
\<close>

datatype dir_entry = DirEntry string | FileEntry string "zip_file list option" nat nat

fun loadEntries :: "'f env \<Rightarrow> string \<Rightarrow> dir_entry list \<Rightarrow> string list \<times> manager_error list \<times> 'f world \<Rightarrow>
    string list \<times> manager_error list \<times> 'f world" where
  "loadEntries env dirPath [] acc = acc"
| "loadEntries env dirPath (DirEntry name # es) (loaded, errors, w) =
     (if present (wFiles w) (elems (Abs (envCwd env) (Join [dirPath, name, ''manifest.json'']))) then
        (case loadExtensionFromDirectory env (Join [dirPath, name]) w of
           (Inl e, w1) \<Rightarrow> loadEntries env dirPath es (loaded, errors @ [e], w1)
         | (Inr ext, w1) \<Rightarrow> loadEntries env dirPath es (loaded @ [lxID ext], errors, w1))
      else loadEntries env dirPath es (loaded, errors, w))"
| "loadEntries env dirPath (FileEntry name archive rnd rnd' # es) (loaded, errors, w) =
     (if isExtensionPackagePath (envLower env) name then
        (case LoadExtensionFromFile env rnd rnd' (Join [dirPath, name]) archive w of
           (Inl e, w1) \<Rightarrow> loadEntries env dirPath es (loaded, errors @ [e], w1)
         | (Inr ext, w1) \<Rightarrow> loadEntries env dirPath es (loaded @ [lxID ext], errors, w1))
      else loadEntries env dirPath es (loaded, errors, w))"

definition LoadExtensionsFromDirectory ::
  "'f env \<Rightarrow> string \<Rightarrow> dir_entry list \<Rightarrow> 'f world \<Rightarrow> string list \<times> manager_error list \<times> 'f world" where
  "LoadExtensionsFromDirectory env dirPath entries w = loadEntries env dirPath entries ([], [], w)"

definition initializeExtensionWithSettings ::
  "'f env \<Rightarrow> 'f loaded_extension \<Rightarrow> 'f json ext_settings \<Rightarrow> fsys \<Rightarrow> runtime_error option \<times> 'f loaded_extension \<times> fsys" where
  "initializeExtensionWithSettings env ext settings fs =
     (if \<not> lxVM ext then (Some (ConfigureError ''no vm''), ext, fs)
      else case envConfigure env ext settings fs of
             (Some e, fs1) \<Rightarrow> (Some (ConfigureError e), failed (ConfigureError e) ext, fs1)
           | (None, fs1) \<Rightarrow> (None, ext\<lparr>lxInitialized := True\<rparr>, fs1))"

definition InitializeExtension :: "'f env \<Rightarrow> string \<Rightarrow> 'f json ext_settings \<Rightarrow> 'f world \<Rightarrow> manager_error option \<times> 'f world" where
  "InitializeExtension env extensionID settings w =
     (let keep = (\<lambda>ext fs. w\<lparr>wManager := (wManager w)\<lparr>mgExtensions := put extensionID ext (mgExtensions (wManager w))\<rparr>, wFiles := fs\<rparr>)
      in case map_of (mgExtensions (wManager w)) extensionID of
           None \<Rightarrow> (Some NotFound, w)
         | Some ext \<Rightarrow>
             case ensureRuntimeReady env (wStore w) False ext (wFiles w) of
               (Some e, ext1, fs1) \<Rightarrow> (Some (Rejected e), keep ext1 fs1)
             | (None, ext1, fs1) \<Rightarrow>
                 case initializeExtensionWithSettings env ext1 settings fs1 of
                   (Some e, ext2, fs2) \<Rightarrow> (Some (Rejected e), keep ext2 fs2)
                 | (None, ext2, fs2) \<Rightarrow> (None, keep ext2 fs2))"

fun UnloadAllExtensions :: "'f env \<Rightarrow> string list \<Rightarrow> 'f world \<Rightarrow> 'f world" where
  "UnloadAllExtensions env [] w = w"
| "UnloadAllExtensions env (i # ns) w = UnloadAllExtensions env ns (snd (UnloadExtension env i w))"

text \<open>The permissions of a manifest as the user is shown them before an upgrade.\<close>

definition manifestPermissionList :: "'f extension_manifest \<Rightarrow> string list" where
  "manifestPermissionList m =
     map (\<lambda>host. ''network:'' @ host) (sort (pmNetwork (emPermissions m)))
     @ (if pmStorage (emPermissions m) then [''storage''] else [])
     @ (if pmFile (emPermissions m) then [''file''] else [])
     @ (if pmAllowHTTP (emPermissions m) then [''allowHttp''] else [])"

record upgrade_info =
  uiExtensionID :: string
  uiCurrentVersion :: string
  uiNewVersion :: string
  uiCanUpgrade :: bool
  uiIsInstalled :: bool
  uiCurrentPermissions :: "string list"
  uiNewPermissions :: "string list"

definition checkExtensionUpgrade :: "'f env \<Rightarrow> string \<Rightarrow> zip_file list option \<Rightarrow> 'f world \<Rightarrow> manager_error + upgrade_info" where
  "checkExtensionUpgrade env filePath archive w =
     (if \<not> isExtensionPackagePath (envLower env) filePath then Inl BadFormat
      else
        case archive of
          None \<Rightarrow> Inl CannotOpen
        | Some files \<Rightarrow>
            case inspectExtensionPackage (envLower env) (envParse env) files of
              Inl e \<Rightarrow> Inl (BadPackage e)
            | Inr manifest \<Rightarrow>
                Inr (case map_of (mgExtensions (wManager w)) (emName manifest) of
                       None \<Rightarrow>
                         \<lparr>uiExtensionID = emName manifest, uiCurrentVersion = '''', uiNewVersion = emVersion manifest, uiCanUpgrade = False,
                          uiIsInstalled = False, uiCurrentPermissions = [], uiNewPermissions = manifestPermissionList manifest\<rparr>
                     | Some existing \<Rightarrow>
                         \<lparr>uiExtensionID = emName manifest, uiCurrentVersion = emVersion (lxManifest existing),
                          uiNewVersion = emVersion manifest,
                          uiCanUpgrade = (compareVersions (emVersion manifest) (emVersion (lxManifest existing)) > 0),
                          uiIsInstalled = True, uiCurrentPermissions = manifestPermissionList (lxManifest existing),
                          uiNewPermissions = manifestPermissionList manifest\<rparr>))"

section \<open>What an operation leaves of an extension\<close>

definition same :: "'f loaded_extension \<Rightarrow> 'f loaded_extension \<Rightarrow> bool" where
  "same a b \<longleftrightarrow> lxID a = lxID b \<and> lxManifest a = lxManifest b \<and> lxDataDir a = lxDataDir b \<and> lxSourceDir a = lxSourceDir b"

lemma same_failed: "same (failed e a) b = same a b"
  by (simp add: same_def failed_def)

lemma initializeVM_same: "initializeVM env ext fs = (r, ext', fs') \<Longrightarrow> same ext' ext"
  by (auto simp: initializeVM_def same_def split: prod.splits script_result.splits)

lemma validate_same: "validateExtensionLoad env ext fs = (r, ext', fs') \<Longrightarrow> same ext' ext"
  by (auto simp: validateExtensionLoad_def teardownVM_def same_def dest!: initializeVM_same split: option.splits prod.splits)

lemma loadChecked_same: "loadChecked env ext fs = (ext', fs') \<Longrightarrow> same ext' ext"
  by (auto simp: loadChecked_def same_failed dest!: validate_same split: option.splits prod.splits)

lemma readyVM_same: "readyVM env ext fs = (r, ext', fs') \<Longrightarrow> same ext' ext"
  using initializeVM_same [of env ext fs r ext' fs'] by (auto simp: readyVM_def same_def split: if_splits)

lemma ensure_same:
  assumes "ensureRuntimeReady env store b ext fs = (r, ext', fs')"
  shows "same ext' ext"
proof (cases "validateManifestGates env (lxManifest ext)")
  case (Some g)
  with assms show ?thesis by (auto simp: ensureRuntimeReady_def same_def failed_def)
next
  case None
  obtain r1 ext1 fs1 where i: "readyVM env ext fs = (r1, ext1, fs1)" by (metis prod_cases3)
  have s: "same ext1 ext" by (rule readyVM_same [OF i])
  have keep: "same (ext1\<lparr>lxInitialized := True, lxError := ''''\<rparr>) ext" "same (ext1\<lparr>lxError := ''''\<rparr>) ext"
    "same (ext1\<lparr>lxVM := False, lxRuntime := False, lxInitialized := False\<rparr>) ext"
    using s by (simp_all add: same_def)
  show ?thesis
    using assms s keep
    by (cases r1) (auto simp: ensureRuntimeReady_def None i Let_def same_failed teardownVM_def split: if_splits prod.splits option.splits)
qed

lemma checkUpgraded_same: "checkUpgraded env store ext fs = (r, ext', fs') \<Longrightarrow> same ext' ext"
  by (auto simp: checkUpgraded_def dest: ensure_same validate_same split: if_splits)

text \<open>The extension is where its manager keeps it, under the name of its manifest.\<close>

definition placed :: "'f ext_manager \<Rightarrow> 'f loaded_extension \<Rightarrow> bool" where
  "placed m x \<longleftrightarrow> lxID x = emName (lxManifest x) \<and> extensionIDPattern (lxID x)
     \<and> Clean (lxSourceDir x) = Join [mgExtensionsDir m, lxID x] \<and> Clean (lxDataDir x) = Join [mgDataDir m, lxID x]"

definition managerOK :: "'f ext_manager \<Rightarrow> bool" where
  "managerOK m \<longleftrightarrow> IsAbs (mgExtensionsDir m) \<and> IsAbs (mgDataDir m) \<and> wf_map (mgExtensions m)
     \<and> list_all (\<lambda>(k, x). lxID x = k \<and> placed m x) (mgExtensions m)"

lemma placed_registry: "placed (m\<lparr>mgExtensions := xs\<rparr>) x = placed m x"
  by (simp add: placed_def)

lemma managerOK_D: "managerOK m \<Longrightarrow> map_of (mgExtensions m) k = Some x \<Longrightarrow> lxID x = k \<and> placed m x"
  by (auto simp: managerOK_def list_all_iff dest!: map_of_SomeD)

lemma managerOK_dirs: "managerOK m \<Longrightarrow> IsAbs (mgExtensionsDir m)" "managerOK m \<Longrightarrow> IsAbs (mgDataDir m)"
  by (simp_all add: managerOK_def)

lemma managerOK_put:
  assumes m: "managerOK m" and p: "placed m x" "lxID x = k"
  shows "managerOK (m\<lparr>mgExtensions := put k x (mgExtensions m)\<rparr>)"
proof -
  have p': "placed (m\<lparr>mgExtensions := put k x (mgExtensions m)\<rparr>) y = placed m y" for y by (simp add: placed_def)
  show ?thesis
    using m p set_put_subset [of k x "mgExtensions m"]
    by (simp add: managerOK_def p' list_all_iff) blast
qed

lemma managerOK_del: "managerOK m \<Longrightarrow> managerOK (m\<lparr>mgExtensions := del k (mgExtensions m)\<rparr>)"
  by (auto simp: managerOK_def list_all_iff set_del placed_def)

lemma placed_same: "same a b \<Longrightarrow> placed m a = placed m b"
  by (simp add: same_def placed_def)

lemma managed_placed:
  assumes "managedExtensionPath cwd root i = Some p"
  shows "extensionIDPattern i \<and> p = Join [root, i]"
  using assms by (auto simp: managedExtensionPath_def Let_def split: if_splits)

lemma Clean_Join: "Clean (Join [d, p]) = Join [d, p] \<or> d = '''' \<and> p = ''''"
  by (cases "d = ''''"; cases "p = ''''") (simp_all add: Join_def)

lemma placed_new:
  assumes "managerOK m" "managedExtensionPath cwd (mgExtensionsDir m) (emName man) = Some src"
    "managedExtensionPath cwd (mgDataDir m) (emName man) = Some dat"
    "lxID x = emName man" "lxManifest x = man" "lxDataDir x = dat" "lxSourceDir x = src \<or> Clean (lxSourceDir x) = Clean src"
  shows "placed m x"
proof -
  note e = managed_placed [OF assms(2)] and d = managed_placed [OF assms(3)]
  have "emName man \<noteq> ''''" using e by (auto simp: extensionIDPattern_def)
  then have "Clean src = src" "Clean dat = dat"
    using Clean_Join [of "mgExtensionsDir m" "emName man"] Clean_Join [of "mgDataDir m" "emName man"] e d by auto
  then show ?thesis using assms(4-) e d by (auto simp: placed_def)
qed

text \<open>An installation registers a placed extension with the manifest, or changes no registration.\<close>

definition installed ::
  "'f world \<Rightarrow> 'f extension_manifest \<Rightarrow> 'f ext_manager \<Rightarrow> (manager_error + 'f loaded_extension) \<times> 'f world \<Rightarrow> bool" where
  "installed w manifest m0 res \<longleftrightarrow>
     (case res of
        (Inl e, w') \<Rightarrow> wManager w' = wManager w
      | (Inr x, w') \<Rightarrow> wManager w' = register x m0 \<and> placed (wManager w) x \<and> lxManifest x = manifest \<and> lxID x = emName manifest)"

lemma installed_Inl: "installed w man m0 (Inl e, w') \<longleftrightarrow> wManager w' = wManager w"
  by (simp add: installed_def)

lemma installed_unstage: "installed w man m0 (unstage st e w') \<longleftrightarrow> wManager w' = wManager w"
  by (simp add: unstage_def installed_def)

lemma installed_Inr:
  assumes "managerOK (wManager w)" "managedExtensionPath cwd (mgExtensionsDir (wManager w)) (emName man) = Some src"
    "managedExtensionPath cwd (mgDataDir (wManager w)) (emName man) = Some dat"
    "same ext (newExtension man b dat st)" "wManager w' = register (ext\<lparr>lxSourceDir := src\<rparr>) m0"
  shows "installed w man m0 (Inr (ext\<lparr>lxSourceDir := src\<rparr>), w')"
proof -
  have "placed (wManager w) (ext\<lparr>lxSourceDir := src\<rparr>)"
    using assms(4) by (intro placed_new [OF assms(1,2,3)]) (simp_all add: same_def newExtension_def)
  then show ?thesis using assms(4,5) by (simp add: installed_def same_def newExtension_def)
qed

lemma installNew_effect:
  assumes ok: "managerOK (wManager w)"
  shows "installed w manifest (wManager w) (installNew env rnd files manifest w)"
proof (cases "managedExtensionPath (envCwd env) (mgExtensionsDir (wManager w)) (emName manifest)")
  case None
  then show ?thesis by (simp add: installNew_def Let_def installed_Inl)
next
  case src: (Some src)
  define st where "st = tempDir (mgExtensionsDir (wManager w)) (emName manifest) ''-install-'' rnd"
  show ?thesis
  proof (cases "present (wFiles w) (elems src) \<or> osMkdir (elems st) (wFiles w) = None")
    case True
    then show ?thesis using src by (auto simp: installNew_def Let_def installed_Inl st_def)
  next
    case False
    then obtain fs1 where p: "\<not> present (wFiles w) (elems src)" and mk: "osMkdir (elems st) (wFiles w) = Some fs1" by auto
    obtain b fs2 where x: "extractExtensionArchive (envLower env) (envCwd env) st files fs1 = (b, fs2)" by fastforce
    note known = installNew_def Let_def src p st_def [symmetric] mk x
    show ?thesis
    proof (cases "b \<and> managedExtensionPath (envCwd env) (mgDataDir (wManager w)) (emName manifest) \<noteq> None")
      case False
      then show ?thesis by (cases b) (auto simp: known installed_unstage)
    next
      case True
      then obtain dat where b: "b" and dat: "managedExtensionPath (envCwd env) (mgDataDir (wManager w)) (emName manifest) = Some dat" by auto
      show ?thesis
      proof (cases "osMkdirAll (elems dat) fs2")
        case None
        then show ?thesis by (simp add: known b dat installed_unstage)
      next
        case (Some fs3)
        obtain ext fs4 where l: "loadChecked env (newExtension manifest False dat st) fs3 = (ext, fs4)" by fastforce
        show ?thesis
          by (cases "osRename (elems st) (elems src) fs4")
            (simp_all add: known b dat Some l installed_unstage installed_Inr [OF ok src dat loadChecked_same [OF l]])
      qed
    qed
  qed
qed

lemma upgradeTo_effect:
  assumes ok: "managerOK (wManager w)" and e: "map_of (mgExtensions (wManager w)) (emName manifest) = Some existing"
  shows "installed w manifest ((wManager w)\<lparr>mgExtensions := del (emName manifest) (mgExtensions (wManager w))\<rparr>)
    (upgradeTo env rnd rnd' files manifest existing w)"
proof (cases "managedExtensionPath (envCwd env) (mgExtensionsDir (wManager w)) (emName manifest) = None
    \<or> managedExtensionPath (envCwd env) (mgDataDir (wManager w)) (emName manifest) = None")
  case True
  then show ?thesis
    by (cases "managedExtensionPath (envCwd env) (mgDataDir (wManager w)) (emName manifest)")
      (auto simp: upgradeTo_def Let_def installed_Inl)
next
  case False
  then obtain src dat where src: "managedExtensionPath (envCwd env) (mgExtensionsDir (wManager w)) (emName manifest) = Some src"
    and dat: "managedExtensionPath (envCwd env) (mgDataDir (wManager w)) (emName manifest) = Some dat" by auto
  have ex: "lxID existing = emName manifest" using managerOK_D [OF ok e] by simp
  define st bk where "st = tempDir (mgExtensionsDir (wManager w)) (emName manifest) ''-upgrade-'' rnd"
    and "bk = tempDir (mgExtensionsDir (wManager w)) (emName manifest) ''-backup-'' rnd'"
  show ?thesis
  proof (cases "Clean (lxDataDir existing) \<noteq> Clean dat \<or> Clean (lxSourceDir existing) \<noteq> Clean src \<or> osMkdir (elems st) (wFiles w) = None")
    case True
    then show ?thesis using src dat by (auto simp: upgradeTo_def Let_def installed_Inl st_def)
  next
    case False
    then obtain fs1 where c: "Clean (lxDataDir existing) = Clean dat" "Clean (lxSourceDir existing) = Clean src"
      and mk: "osMkdir (elems st) (wFiles w) = Some fs1" by auto
    obtain b fs2 where x: "extractExtensionArchive (envLower env) (envCwd env) st files fs1 = (b, fs2)" by fastforce
    obtain r ext fs3 where u: "checkUpgraded env (wStore w) (newExtension manifest (lxEnabled existing) dat st) fs2 = (r, ext, fs3)"
      by (metis prod_cases3)
    note known = upgradeTo_def Let_def src dat c st_def [symmetric] bk_def [symmetric] mk x u
    show ?thesis
    proof (cases "b \<and> r = None")
      case False
      then show ?thesis by (cases b; cases r) (auto simp: known installed_unstage)
    next
      case True
      then have b: b and r: "r = None" by simp_all
      show ?thesis
      proof (cases "(present fs3 (elems bk) \<or> \<not> isDir fs3 (butlast (elems bk))) \<or> osRename (elems src) (elems bk) fs3 = None")
        case True
        then show ?thesis by (auto simp: known b r installed_unstage)
      next
        case False
        then obtain fs4 where n: "(present fs3 (elems bk) \<or> \<not> isDir fs3 (butlast (elems bk))) = False"
          and rn: "osRename (elems src) (elems bk) fs3 = Some fs4" by blast
        show ?thesis
          by (cases "osRename (elems st) (elems src) fs4")
            (simp_all add: known b r n rn ex e UnloadExtension_def installed_unstage
              installed_Inr [OF ok src dat checkUpgraded_same [OF u]])
      qed
    qed
  qed
qed

section \<open>Sequences of operations\<close>

datatype 'f manager_op =
    MInstall nat nat string "zip_file list option"
  | MUpgrade nat nat string "zip_file list option"
  | MLoadDir string
  | MRemove string
  | MUnload string
  | MEnable nat string bool
  | MInitialize string "'f json ext_settings"

fun runManager :: "'f env \<Rightarrow> 'f manager_op \<Rightarrow> 'f world \<Rightarrow> 'f world" where
  "runManager env (MInstall r r' p a) w = snd (LoadExtensionFromFile env r r' p a w)"
| "runManager env (MUpgrade r r' p a) w = snd (UpgradeExtension env r r' p a w)"
| "runManager env (MLoadDir d) w = snd (loadExtensionFromDirectory env d w)"
| "runManager env (MRemove i) w = snd (RemoveExtension env i w)"
| "runManager env (MUnload i) w = snd (UnloadExtension env i w)"
| "runManager env (MEnable r i b) w = snd (SetExtensionEnabled env r i b w)"
| "runManager env (MInitialize i st) w = snd (InitializeExtension env i st w)"

definition runManagers :: "'f env \<Rightarrow> 'f manager_op list \<Rightarrow> 'f world \<Rightarrow> 'f world" where
  "runManagers env xs w = fold (runManager env) xs w"

definition versionOf :: "string \<Rightarrow> 'f ext_manager \<Rightarrow> string option" where
  "versionOf i m = map_option (\<lambda>x. emVersion (lxManifest x)) (map_of (mgExtensions m) i)"

text \<open>A step: the invariant is kept, and no extension that stays goes to a lower version.\<close>

definition keepsUp :: "'f ext_manager \<Rightarrow> 'f ext_manager \<Rightarrow> bool" where
  "keepsUp m m' \<longleftrightarrow> managerOK m' \<and> mgExtensionsDir m' = mgExtensionsDir m \<and> mgDataDir m' = mgDataDir m
     \<and> (\<forall>i v v'. versionOf i m = Some v \<longrightarrow> versionOf i m' = Some v' \<longrightarrow> compareVersions v' v \<ge> 0)"

lemma compareVersions_refl [simp]: "compareVersions v v = 0"
  using compareVersions_cases [of v v] by (auto dest: firstDiff_asym)

lemma keepsUp_refl: "managerOK m \<Longrightarrow> keepsUp m m"
  by (auto simp: keepsUp_def)

lemma keepsUp_put:
  assumes m: "managerOK m" and p: "placed m x" "lxID x = k"
    and v: "\<And>v. versionOf k m = Some v \<Longrightarrow> compareVersions (emVersion (lxManifest x)) v \<ge> 0"
  shows "keepsUp m (m\<lparr>mgExtensions := put k x (mgExtensions m)\<rparr>)"
  using managerOK_put [OF m p] v by (auto simp: keepsUp_def versionOf_def)

lemma keepsUp_del: "managerOK m \<Longrightarrow> keepsUp m (m\<lparr>mgExtensions := del k (mgExtensions m)\<rparr>)"
  using managerOK_del [of m k] by (auto simp: keepsUp_def versionOf_def split: if_splits)

lemma keepsUp_same:
  assumes m: "managerOK m" and x: "map_of (mgExtensions m) k = Some x" and s: "same x' x"
  shows "keepsUp m (m\<lparr>mgExtensions := put k x' (mgExtensions m)\<rparr>)"
proof -
  have "lxID x = k" "placed m x" using managerOK_D [OF m x] by simp_all
  then show ?thesis
    using s x placed_same [OF s] by (intro keepsUp_put [OF m]) (auto simp: same_def versionOf_def)
qed

lemma keepsUp_installed:
  assumes m: "managerOK (wManager w)" and i: "installed w man m0 res"
    and m0: "m0 = wManager w \<or> m0 = (wManager w)\<lparr>mgExtensions := del (emName man) (mgExtensions (wManager w))\<rparr>"
    and v: "\<And>v. versionOf (emName man) (wManager w) = Some v \<Longrightarrow> compareVersions (emVersion man) v \<ge> 0"
  shows "keepsUp (wManager w) (wManager (snd res))"
proof -
  obtain r w' where res: "res = (r, w')" by fastforce
  show ?thesis
  proof (cases r)
    case (Inl e)
    with i show ?thesis by (simp add: res installed_Inl keepsUp_refl [OF m])
  next
    case (Inr x)
    with i have w': "wManager w' = register x m0" and p: "placed (wManager w) x" "lxManifest x = man" "lxID x = emName man"
      by (simp_all add: res installed_def)
    from m0 show ?thesis
    proof
      assume "m0 = wManager w"
      then show ?thesis using keepsUp_put [OF m p(1,3)] v p(2,3) by (simp add: res w' register_def)
    next
      assume d: "m0 = (wManager w)\<lparr>mgExtensions := del (emName man) (mgExtensions (wManager w))\<rparr>"
      have "placed m0 x" using p(1) by (simp only: d placed_registry)
      from managerOK_put [OF managerOK_del [OF m, of "emName man"] this [unfolded d] p(3)]
      show ?thesis using v p(2,3) by (auto simp: res w' register_def d keepsUp_def versionOf_def split: if_splits)
    qed
  qed
qed

lemma keepsUp_upgrade:
  assumes m: "managerOK (wManager w)"
  shows "keepsUp (wManager w) (wManager (snd (UpgradeExtension env r r' p a w)))"
proof (cases "isExtensionPackagePath (envLower env) p \<and> a \<noteq> None")
  case False
  then show ?thesis by (auto simp: UpgradeExtension_def keepsUp_refl [OF m])
next
  case True
  then obtain files where p: "isExtensionPackagePath (envLower env) p" and a: "a = Some files" by auto
  show ?thesis
  proof (cases "inspectExtensionPackage (envLower env) (envParse env) files")
    case (Inl e)
    then show ?thesis by (simp add: UpgradeExtension_def p a keepsUp_refl [OF m])
  next
    case i: (Inr man)
    show ?thesis
    proof (cases "map_of (mgExtensions (wManager w)) (emName man)")
      case None
      then show ?thesis by (simp add: UpgradeExtension_def p a i keepsUp_refl [OF m])
    next
      case (Some ex)
      show ?thesis
      proof (cases "compareVersions (emVersion man) (emVersion (lxManifest ex)) > 0")
        case True
        have "keepsUp (wManager w) (wManager (snd (upgradeTo env r r' files man ex w)))"
          by (rule keepsUp_installed [OF m upgradeTo_effect [OF m Some]]) (use Some True in \<open>auto simp: versionOf_def\<close>)
        then show ?thesis using True by (simp add: UpgradeExtension_def p a i Some Let_def)
      next
        case False
        then show ?thesis by (auto simp: UpgradeExtension_def p a i Some Let_def keepsUp_refl [OF m])
      qed
    qed
  qed
qed

lemma keepsUp_install:
  assumes m: "managerOK (wManager w)"
  shows "keepsUp (wManager w) (wManager (snd (LoadExtensionFromFile env r r' p a w)))"
proof (cases "isExtensionPackagePath (envLower env) p \<and> a \<noteq> None")
  case False
  then show ?thesis by (auto simp: LoadExtensionFromFile_def keepsUp_refl [OF m])
next
  case True
  then obtain files where p: "isExtensionPackagePath (envLower env) p" and a: "a = Some files" by auto
  show ?thesis
  proof (cases "inspectExtensionPackage (envLower env) (envParse env) files")
    case (Inl e)
    then show ?thesis by (simp add: LoadExtensionFromFile_def p a keepsUp_refl [OF m])
  next
    case i: (Inr man)
    show ?thesis
    proof (cases "map_of (mgExtensions (wManager w)) (emName man)")
      case None
      have "keepsUp (wManager w) (wManager (snd (installNew env r files man w)))"
        by (rule keepsUp_installed [OF m installNew_effect [OF m]]) (use None in \<open>auto simp: versionOf_def\<close>)
      then show ?thesis by (simp add: LoadExtensionFromFile_def p a i None)
    next
      case (Some ex)
      then show ?thesis
        using keepsUp_upgrade [OF m, of env r r' p a] keepsUp_refl [OF m]
        by (simp add: LoadExtensionFromFile_def p a i Let_def)
    qed
  qed
qed

lemma placed_dir:
  assumes "managerOK m" "managedExtensionPath cwd (mgExtensionsDir m) (emName man) = Some src" "Clean d = Clean src"
    "managedExtensionPath cwd (mgDataDir m) (emName man) = Some dat" "same ext (newExtension man b dat d)"
  shows "placed m ext \<and> lxManifest ext = man \<and> lxID ext = emName man"
proof -
  have e: "lxManifest ext = man" "lxID ext = emName man" "lxDataDir ext = dat" "lxSourceDir ext = d"
    using assms(5) by (simp_all add: same_def newExtension_def)
  have "placed m ext" by (rule placed_new [OF assms(1,2,4) e(2,1,3)]) (simp add: e(4) assms(3))
  then show ?thesis using e by simp
qed

text \<open>Loading a directory fails, finds the extension loaded, or registers what its validation left.\<close>

lemma loadDir_cases:
  "(\<exists>e. loadExtensionFromDirectory env d w = (Inl e, w))
   \<or> (\<exists>k x. map_of (mgExtensions (wManager w)) k = Some x \<and> loadExtensionFromDirectory env d w = (Inr x, w))
   \<or> (\<exists>man src dat b ext fs1 fs2. map_of (mgExtensions (wManager w)) (emName man) = None
        \<and> managedExtensionPath (envCwd env) (mgExtensionsDir (wManager w)) (emName man) = Some src \<and> Clean d = Clean src
        \<and> managedExtensionPath (envCwd env) (mgDataDir (wManager w)) (emName man) = Some dat
        \<and> loadChecked env (newExtension man b dat d) fs1 = (ext, fs2)
        \<and> loadExtensionFromDirectory env d w = (Inr ext, w\<lparr>wManager := register ext (wManager w), wFiles := fs2\<rparr>))"
  (is "?fails \<or> ?finds \<or> ?loads")
proof (cases "map_of (fsFiles (wFiles w)) (elems (Abs (envCwd env) (Join [d, ''manifest.json''])))")
  case None
  then have ?fails by (simp add: loadExtensionFromDirectory_def Let_def)
  then show ?thesis ..
next
  case data: (Some data)
  show ?thesis
  proof (cases "envParse env data")
    case (Inl e)
    then have ?fails by (simp add: loadExtensionFromDirectory_def Let_def data)
    then show ?thesis ..
  next
    case man: (Inr man)
    note known = loadExtensionFromDirectory_def Let_def data man
    show ?thesis
    proof (cases "present (wFiles w) (elems (Abs (envCwd env) (Join [d, ''index.js'']))) \<and> map_of (mgExtensions (wManager w)) (emName man) = None")
      case False
      show ?thesis
      proof (cases "map_of (mgExtensions (wManager w)) (emName man)")
        case None
        with False have ?fails by (simp add: known)
        then show ?thesis ..
      next
        case (Some x)
        then have "?fails \<or> loadExtensionFromDirectory env d w = (Inr x, w)" by (simp add: known)
        with Some show ?thesis by blast
      qed
    next
      case True
      then have p: "present (wFiles w) (elems (Abs (envCwd env) (Join [d, ''index.js''])))"
        and n: "map_of (mgExtensions (wManager w)) (emName man) = None" by simp_all
      let ?src = "managedExtensionPath (envCwd env) (mgExtensionsDir (wManager w)) (emName man)"
      let ?dat = "managedExtensionPath (envCwd env) (mgDataDir (wManager w)) (emName man)"
      show ?thesis
      proof (cases "(case ?src of None \<Rightarrow> False | Some src \<Rightarrow> Clean d = Clean src)
          \<and> (case ?dat of None \<Rightarrow> False | Some dat \<Rightarrow> osMkdirAll (elems dat) (wFiles w) \<noteq> None)")
        case False
        then have ?fails by (cases ?src; cases ?dat) (auto simp: known p n)
        then show ?thesis ..
      next
        case True
        then obtain src dat fs1 where src: "?src = Some src" and c: "Clean d = Clean src" and dat: "?dat = Some dat"
          and mk: "osMkdirAll (elems dat) (wFiles w) = Some fs1" by (auto split: option.splits)
        define b where "b = (case GetSetting (wStore w) (emName man) ''_enabled'' of Some (JBool b) \<Rightarrow> b | _ \<Rightarrow> False)"
        obtain ext fs2 where l: "loadChecked env (newExtension man b dat d) fs1 = (ext, fs2)" by fastforce
        have "loadExtensionFromDirectory env d w = (Inr ext, w\<lparr>wManager := register ext (wManager w), wFiles := fs2\<rparr>)"
          by (simp add: known p n src c dat mk b_def [symmetric] l)
        with n src c dat l have ?loads by blast
        then show ?thesis by blast
      qed
    qed
  qed
qed

lemma keepsUp_loadDir:
  assumes m: "managerOK (wManager w)"
  shows "keepsUp (wManager w) (wManager (snd (loadExtensionFromDirectory env d w)))"
  using loadDir_cases [of env d w]
proof (elim disjE exE conjE)
  fix man src dat b ext fs1 fs2
  assume n: "map_of (mgExtensions (wManager w)) (emName man) = None"
    and src: "managedExtensionPath (envCwd env) (mgExtensionsDir (wManager w)) (emName man) = Some src" "Clean d = Clean src"
    and dat: "managedExtensionPath (envCwd env) (mgDataDir (wManager w)) (emName man) = Some dat"
    and l: "loadChecked env (newExtension man b dat d) fs1 = (ext, fs2)"
    and r: "loadExtensionFromDirectory env d w = (Inr ext, w\<lparr>wManager := register ext (wManager w), wFiles := fs2\<rparr>)"
  have p: "placed (wManager w) ext" "lxID ext = emName man" using placed_dir [OF m src dat loadChecked_same [OF l]] by simp_all
  show ?thesis using keepsUp_put [OF m p] n by (simp add: r register_def versionOf_def p(2))
qed (simp_all add: keepsUp_refl [OF m])

lemma unload_manager:
  "wManager (snd (UnloadExtension env i w)) = (wManager w)\<lparr>mgExtensions := del i (mgExtensions (wManager w))\<rparr>
   \<or> wManager (snd (UnloadExtension env i w)) = wManager w"
  by (cases "map_of (mgExtensions (wManager w)) i") (simp_all add: UnloadExtension_def)

lemma keepsUp_unload: "managerOK (wManager w) \<Longrightarrow> keepsUp (wManager w) (wManager (snd (UnloadExtension env i w)))"
  using unload_manager [of env i w] keepsUp_del keepsUp_refl by metis

lemma remove_manager:
  "wManager (snd (RemoveExtension env i w)) = wManager w
   \<or> wManager (snd (RemoveExtension env i w)) = wManager (snd (UnloadExtension env i w))"
  by (auto simp: RemoveExtension_def Let_def split: bool.splits option.splits prod.splits)

lemma keepsUp_remove: "managerOK (wManager w) \<Longrightarrow> keepsUp (wManager w) (wManager (snd (RemoveExtension env i w)))"
  using remove_manager [of env i w] keepsUp_unload keepsUp_refl by metis

lemma storeEnabled_manager [simp]: "wManager (storeEnabled env rnd i b w) = wManager w"
  by (simp add: storeEnabled_def split: prod.splits)

lemma enable_manager:
  "wManager (snd (SetExtensionEnabled env r i b w)) = wManager w
   \<or> (\<exists>x x'. map_of (mgExtensions (wManager w)) i = Some x \<and> same x' x
        \<and> wManager (snd (SetExtensionEnabled env r i b w)) = (wManager w)\<lparr>mgExtensions := put i x' (mgExtensions (wManager w))\<rparr>)"
proof (cases "map_of (mgExtensions (wManager w)) i")
  case None
  then show ?thesis by (simp add: SetExtensionEnabled_def)
next
  case (Some x)
  show ?thesis
  proof (cases b)
    case False
    let ?y = "x\<lparr>lxEnabled := False, lxError := '''', lxVM := False, lxRuntime := False, lxInitialized := False\<rparr>"
    have "same ?y x" by (simp add: same_def)
    moreover have "wManager (snd (SetExtensionEnabled env r i b w)) = (wManager w)\<lparr>mgExtensions := put i ?y (mgExtensions (wManager w))\<rparr>"
      using False Some by (simp add: SetExtensionEnabled_def teardownVM_def)
    ultimately show ?thesis using Some by blast
  next
    case True
    obtain e x1 fs1 where r: "ensureRuntimeReady env (wStore w) True (x\<lparr>lxEnabled := True\<rparr>) (wFiles w) = (e, x1, fs1)"
      by (metis prod_cases3)
    have s: "same x1 x" "same (x1\<lparr>lxEnabled := False\<rparr>) x" using ensure_same [OF r] by (simp_all add: same_def)
    show ?thesis using True Some s by (cases e) (auto simp: SetExtensionEnabled_def r)
  qed
qed

lemma initializeWith_same: "initializeExtensionWithSettings env ext st fs = (r, ext', fs') \<Longrightarrow> same ext' ext"
  by (auto simp: initializeExtensionWithSettings_def same_def failed_def split: if_splits prod.splits option.splits)

lemma same_trans: "same a b \<Longrightarrow> same b c \<Longrightarrow> same a c"
  by (simp add: same_def)

lemma initialize_manager:
  "wManager (snd (InitializeExtension env i st w)) = wManager w
   \<or> (\<exists>x x'. map_of (mgExtensions (wManager w)) i = Some x \<and> same x' x
        \<and> wManager (snd (InitializeExtension env i st w)) = (wManager w)\<lparr>mgExtensions := put i x' (mgExtensions (wManager w))\<rparr>)"
proof (cases "map_of (mgExtensions (wManager w)) i")
  case None
  then show ?thesis by (simp add: InitializeExtension_def)
next
  case (Some x)
  obtain e x1 fs1 where r: "ensureRuntimeReady env (wStore w) False x (wFiles w) = (e, x1, fs1)"
    by (metis prod_cases3)
  obtain e2 x2 fs2 where r2: "initializeExtensionWithSettings env x1 st fs1 = (e2, x2, fs2)" by (metis prod_cases3)
  have s: "same x1 x" "same x2 x" using ensure_same [OF r] same_trans [OF initializeWith_same [OF r2]] by blast+
  show ?thesis using Some s by (cases e; cases e2) (auto simp: InitializeExtension_def Let_def r r2)
qed

lemma keepsUp_step:
  assumes m: "managerOK (wManager w)"
  shows "keepsUp (wManager w) (wManager (runManager env op w))"
proof -
  have k: "keepsUp (wManager w) m'" if "m' = wManager w \<or> (\<exists>x x'. map_of (mgExtensions (wManager w)) i = Some x \<and> same x' x
        \<and> m' = (wManager w)\<lparr>mgExtensions := put i x' (mgExtensions (wManager w))\<rparr>)" for m' i
    using that keepsUp_refl [OF m] keepsUp_same [OF m] by blast
  show ?thesis
    using m keepsUp_install keepsUp_upgrade keepsUp_loadDir keepsUp_remove keepsUp_unload k [OF enable_manager] k [OF initialize_manager]
    by (cases op) (simp_all only: runManager.simps)
qed

lemma compareVersions_trans:
  assumes "compareVersions u v \<ge> 0" "compareVersions v w \<ge> 0"
  shows "compareVersions u w \<ge> 0"
proof -
  have ge: "compareVersions a b \<ge> 0 \<longleftrightarrow> firstDiff (versionNumbers b) (versionNumbers a) \<or> part (versionNumbers a) = part (versionNumbers b)" for a b
    using compareVersions_cases [of a b] by (elim disjE conjE) (auto dest: firstDiff_asym)
  from assms show ?thesis unfolding ge by (metis firstDiff_trans firstDiff_cong)
qed

lemma runManagers_Cons: "runManagers env (op # ops) w = runManagers env ops (runManager env op w)"
  by (simp add: runManagers_def)

lemma runManagers_ok: "managerOK (wManager w) \<Longrightarrow> managerOK (wManager (runManagers env ops w))"
proof (induction ops arbitrary: w)
  case (Cons op ops)
  then show ?case using keepsUp_step [of w env op] by (simp add: runManagers_Cons keepsUp_def)
qed (simp add: runManagers_def)

lemma runManagers_version:
  assumes "managerOK (wManager w)" "\<forall>k \<le> length ops. versionOf i (wManager (runManagers env (take k ops) w)) \<noteq> None"
    "versionOf i (wManager w) = Some v" "versionOf i (wManager (runManagers env ops w)) = Some v'"
  shows "compareVersions v' v \<ge> 0"
  using assms
proof (induction ops arbitrary: w v)
  case Nil
  then show ?case by (simp add: runManagers_def)
next
  case (Cons op ops)
  have k: "keepsUp (wManager w) (wManager (runManager env op w))" by (rule keepsUp_step [OF Cons.prems(1)])
  have all: "versionOf i (wManager (runManagers env (take k ops) (runManager env op w))) \<noteq> None" if "k \<le> length ops" for k
    using Cons.prems(2) [rule_format, of "Suc k"] that by (simp add: runManagers_Cons)
  from all [of 0] obtain u where u: "versionOf i (wManager (runManager env op w)) = Some u" by (auto simp: runManagers_def)
  have "compareVersions v' u \<ge> 0"
    using k all u Cons.prems(4) by (intro Cons.IH [of "runManager env op w"]) (auto simp: keepsUp_def runManagers_Cons)
  moreover have "compareVersions u v \<ge> 0" using k Cons.prems(3) u by (auto simp: keepsUp_def)
  ultimately show ?case by (rule compareVersions_trans)
qed

section \<open>Properties\<close>

text \<open> C12: whatever is installed, upgraded, loaded, enabled, initialized, unloaded and removed, in
  whatever order and however any of it fails, every registered extension carries the name of its
  manifest, a name that is one path element, and lives in the two directories of that name below
  the manager's; and an extension that stays installed never goes to a lower version. \<close>

theorem manager_upgrades_only:
  assumes "managerOK (wManager w)"
  shows "managerOK (wManager (runManagers env ops w))
    \<and> (\<forall>i v v'. (\<forall>k \<le> length ops. versionOf i (wManager (runManagers env (take k ops) w)) \<noteq> None)
         \<longrightarrow> versionOf i (wManager w) = Some v \<longrightarrow> versionOf i (wManager (runManagers env ops w)) = Some v'
         \<longrightarrow> compareVersions v' v \<ge> 0)"
  using runManagers_ok [OF assms] runManagers_version [OF assms] by blast

definition exampleExtManifest :: "string \<Rightarrow> unit extension_manifest" where
  "exampleExtManifest v = \<lparr>emName = ''foo'', emDisplayName = ''Foo'', emVersion = v, emDescription = ''d'', emHomepage = '''',
     emIcon = '''', emTypes = [''lyrics_provider''],
     emPermissions = \<lparr>pmNetwork = [], pmStorage = False, pmFile = False, pmAllowHTTP = False\<rparr>, emSettings = [],
     emQualityOptions = [], emMinAppVersion = '''', emSkipMetadataEnrichment = False, emSkipLyrics = False,
     emStopProviderFallback = False, emSkipBuiltInFallback = False, emSearchBehavior = None, emURLHandler = None,
     emTrackMatching = None, emPostProcessing = None, emServiceHealth = [], emSignedSession = None,
     emRequiredRuntimeFeatures = [], emCapabilities = []\<rparr>"

definition exampleEnv :: "script_result \<Rightarrow> unit env" where
  "exampleEnv r = \<lparr>envCwd = ''/'', envLower = id, envAppVersion = ''1.0'', envParse = (\<lambda>s. Inr (exampleExtManifest s)),
     envRun = (\<lambda>_ fs. (r, fs)), envConfigure = (\<lambda>_ _ fs. (None, fs)), envCleanup = (\<lambda>_ fs. fs), envEncode = (\<lambda>_. None)\<rparr>"

text \<open>A directory of extensions that holds one, whose manifest is just its version.\<close>

definition exampleWorld :: "unit world" where
  "exampleWorld =
     \<lparr>wManager = \<lparr>mgExtensions = [], mgExtensionsDir = ''/app/ext'', mgDataDir = ''/app/data''\<rparr>,
      wStore = NewSettingsStore,
      wFiles = \<lparr>fsFiles = [([''app'', ''ext'', ''foo'', ''manifest.json''], ''1.10''), ([''app'', ''ext'', ''foo'', ''index.js''], '''')],
                fsDirs = [[''app'', ''ext'', ''foo''], [''app'', ''ext''], [''app''], []]\<rparr>\<rparr>"

lemma manager_upgrades_only_witness:
  "versionOf ''foo'' (wManager (runManagers (exampleEnv ScriptReady)
       [MLoadDir ''/app/ext/foo'', MEnable 1 ''foo'' True, MUpgrade 2 3 ''/dl/foo.sflx'' None] exampleWorld)) = Some ''1.10''
   \<and> managerOK (wManager (runManagers (exampleEnv ScriptReady) [MLoadDir ''/app/ext/foo'', MRemove ''foo''] exampleWorld))
   \<and> compareVersions ''1.10'' ''1.10'' \<ge> 0"
proof -
  let ?e = "exampleEnv ScriptReady"
  have v: "versionOf ''foo'' (wManager (runManagers ?e [MLoadDir ''/app/ext/foo'', MEnable 1 ''foo'' True, MUpgrade 2 3 ''/dl/foo.sflx'' None] exampleWorld))
      = Some ''1.10''" by code_simp
  have ok: "managerOK (wManager exampleWorld)" by code_simp
  let ?w = "runManagers ?e [MLoadDir ''/app/ext/foo''] exampleWorld"
  have ok1: "managerOK (wManager ?w)" using manager_upgrades_only [OF ok] by blast
  have a: "versionOf ''foo'' (wManager ?w) = Some ''1.10''" "versionOf ''foo'' (wManager (runManagers ?e [MEnable 1 ''foo'' True] ?w)) = Some ''1.10''"
    by code_simp+
  have "\<forall>k \<le> length [MEnable 1 ''foo'' True]. versionOf ''foo'' (wManager (runManagers ?e (take k [MEnable 1 ''foo'' True]) ?w)) \<noteq> None"
    using a by (simp add: le_Suc_eq runManagers_def)
  with manager_upgrades_only [OF ok1, of ?e "[MEnable 1 ''foo'' True]"] a have "compareVersions ''1.10'' ''1.10'' \<ge> 0" by blast
  with v manager_upgrades_only [OF ok] show ?thesis by blast
qed

text \<open> a script that fails every time it is run is reported when its extension is loaded, and
  the extension is not enabled; but the runtime it failed in stays, so that enabling the extension
  afterwards does not run the script, succeeds and clears the error, whenever the application meets
  its manifest's requirements and it has no settings to be handed. \<close>

theorem failed_script_enables:
  assumes "managerOK (wManager w)" "\<And>x fs. fst (envRun env x fs) = ScriptFailed e"
    "map_of (mgExtensions (wManager w)) i = None" "loadExtensionFromDirectory env d w = (Inr ext, w')" "lxID ext = i"
    "validateManifestGates env (lxManifest ext) = None" "getExtensionInitSettings (wStore w) i = []"
  shows "lxError ext = ''script: '' @ e \<and> \<not> lxEnabled ext
    \<and> SetExtensionEnabled env rnd i True w' =
        (None, storeEnabled env rnd i True
           (w'\<lparr>wManager := register (ext\<lparr>lxEnabled := True, lxError := '''', lxInitialized := True\<rparr>) (wManager w')\<rparr>))"
proof -
  obtain man b dat fs1 fs2 where l: "loadChecked env (newExtension man b dat d) fs1 = (ext, fs2)"
    and w': "w' = w\<lparr>wManager := register ext (wManager w), wFiles := fs2\<rparr>"
    using loadDir_cases [of env d w]
  proof (elim disjE exE conjE)
    fix k x assume "map_of (mgExtensions (wManager w)) k = Some x" "loadExtensionFromDirectory env d w = (Inr x, w)"
    then show ?thesis using managerOK_D [OF assms(1)] assms(3,4,5) by force
  qed (use assms(4) in auto)
  have man: "lxManifest ext = man" using loadChecked_same [OF l] by (simp add: same_def newExtension_def)
  obtain fs3 where r: "envRun env (newExtension man b dat d) fs1 = (ScriptFailed e, fs3)"
    using assms(2) [of "newExtension man b dat d" fs1] by (cases "envRun env (newExtension man b dat d) fs1") auto
  have g: "validateManifestGates env man = None" using assms(6) man by simp
  have ext: "ext = (newExtension man b dat d)\<lparr>lxVM := True, lxRuntime := True, lxInitialized := False,
      lxError := ''script: '' @ e, lxEnabled := False\<rparr>"
    using l by (simp add: loadChecked_def validateExtensionLoad_def newExtension_def g initializeVM_def r [unfolded newExtension_def] failed_def)
  have m: "map_of (mgExtensions (wManager w')) i = Some ext" using assms(5) by (simp add: w' register_def)
  have s: "getExtensionInitSettings (wStore w') (emName man) = []" using assms(5,7) by (simp add: w' ext newExtension_def)
  show ?thesis
    using m assms(5) g s
    by (simp add: SetExtensionEnabled_def ensureRuntimeReady_def readyVM_def ext newExtension_def register_def)
qed

lemma failed_script_enables_witness:
  "\<exists>ext w' w''. loadExtensionFromDirectory (exampleEnv (ScriptFailed ''throw'')) ''/app/ext/foo'' exampleWorld = (Inr ext, w')
     \<and> lxError ext = ''script: throw'' \<and> SetExtensionEnabled (exampleEnv (ScriptFailed ''throw'')) 1 ''foo'' True w' = (None, w'')"
proof -
  let ?e = "exampleEnv (ScriptFailed ''throw'')"
  have v: "case loadExtensionFromDirectory ?e ''/app/ext/foo'' exampleWorld of
      (Inr ext, w') \<Rightarrow> lxID ext = ''foo'' \<and> validateManifestGates ?e (lxManifest ext) = None | _ \<Rightarrow> False"
    by code_simp
  then obtain ext w' where l: "loadExtensionFromDirectory ?e ''/app/ext/foo'' exampleWorld = (Inr ext, w')"
    and x: "lxID ext = ''foo''" "validateManifestGates ?e (lxManifest ext) = None"
    by (auto split: prod.splits sum.splits)
  have a: "fst (envRun ?e x fs) = ScriptFailed ''throw''" for x fs by (simp add: exampleEnv_def)
  have n: "map_of (mgExtensions (wManager exampleWorld)) ''foo'' = None" "getExtensionInitSettings (wStore exampleWorld) ''foo'' = []"
    by code_simp+
  have ok: "managerOK (wManager exampleWorld)" by code_simp
  show ?thesis using failed_script_enables [OF ok a n(1) l x n(2)] l by auto
qed

lemma map_of_osRemoveAll:
  "map_of (fsFiles (osRemoveAll d fs)) p = (if prefix d p then None else map_of (fsFiles fs) p)"
proof -
  have "map_of (filter (\<lambda>(q, _). \<not> prefix d q) xs) p = (if prefix d p then None else map_of xs p)" for xs :: "(string list, string) gomap"
    by (induction xs) auto
  then show ?thesis by (simp add: osRemoveAll_def)
qed

lemma removed_world:
  assumes "RemoveExtension env i w = (None, w')" "map_of (mgExtensions (wManager w)) i = Some ext" "lxID ext = i"
  shows "w' = w\<lparr>wManager := (wManager w)\<lparr>mgExtensions := del i (mgExtensions (wManager w))\<rparr>,
      wFiles := osRemoveAll (elems (Join [mgDataDir (wManager w), i])) (osRemoveAll (elems (Join [mgExtensionsDir (wManager w), i]))
        (envCleanup env ext (wFiles w)))\<rparr>"
  using assms
  by (auto simp: RemoveExtension_def UnloadExtension_def Let_def dest!: managed_placed split: option.splits if_splits)

text \<open> removing an extension forgets it and deletes the two directories of its name, with
  everything below them, and no other file beyond what the cleanup of its script did; but what the
  settings store holds of it in memory stays, so that the first setting that is stored after the
  extension is installed again brings all the old ones back, to memory and to the file. \<close>

theorem removal_exact:
  assumes "managerOK (wManager w)" "map_of (mgExtensions (wManager w)) i = Some ext" "RemoveExtension env i w = (None, w')"
  shows "map_of (mgExtensions (wManager w')) = (map_of (mgExtensions (wManager w)))(i := None)
    \<and> map_of (fsFiles (wFiles w')) p =
       (if prefix (elems (Join [mgExtensionsDir (wManager w), i])) p \<or> prefix (elems (Join [mgDataDir (wManager w), i])) p then None
        else map_of (fsFiles (envCleanup env ext (wFiles w))) p)
    \<and> GetAllSettings (wStore w') i = GetAllSettings (wStore w) i
    \<and> (SetSetting encode rnd i key value (wStore w', fs) = (True, s'', fs'') \<longrightarrow> key' \<noteq> key \<longrightarrow>
         GetSetting s'' i key' = GetSetting (wStore w) i key')"
proof (intro conjI impI)
  have ext: "lxID ext = i" using managerOK_D [OF assms(1,2)] by simp
  note w' = removed_world [OF assms(3,2) ext]
  show "map_of (mgExtensions (wManager w')) = (map_of (mgExtensions (wManager w)))(i := None)" by (simp add: w')
  show "map_of (fsFiles (wFiles w')) p =
       (if prefix (elems (Join [mgExtensionsDir (wManager w), i])) p \<or> prefix (elems (Join [mgDataDir (wManager w), i])) p then None
        else map_of (fsFiles (envCleanup env ext (wFiles w))) p)"
    by (simp add: w' map_of_osRemoveAll)
  show "GetAllSettings (wStore w') i = GetAllSettings (wStore w) i" by (simp add: w')
  show "GetSetting s'' i key' = GetSetting (wStore w) i key'"
    if "SetSetting encode rnd i key value (wStore w', fs) = (True, s'', fs'')" "key' \<noteq> key"
    using that by (auto simp: w' SetSetting_def saveAndKeep_def GetSetting_def get_or_def split: if_splits prod.splits bool.splits option.splits)
qed

definition exampleSignedIn :: "unit world" where
  "exampleSignedIn = snd (loadExtensionFromDirectory (exampleEnv ScriptReady) ''/app/ext/foo''
     (exampleWorld\<lparr>wStore := \<lparr>esDataDir = ''/app/data'', esSettings = [(''foo'', [(''token'', JStr ''s'')])]\<rparr>\<rparr>))"

lemma removal_exact_witness:
  "\<exists>w' s'' fs''. RemoveExtension (exampleEnv ScriptReady) ''foo'' exampleSignedIn = (None, w')
     \<and> map_of (mgExtensions (wManager w')) ''foo'' = None
     \<and> map_of (fsFiles (wFiles w')) [''app'', ''ext'', ''foo'', ''index.js''] = None
     \<and> SetSetting (\<lambda>_. Some ''new'') 1 ''foo'' ''k'' JNull (wStore w', wFiles w') = (True, s'', fs'')
     \<and> GetSetting s'' ''foo'' ''token'' = Some (JStr ''s'')"
proof -
  let ?e = "exampleEnv ScriptReady"
  have ok: "managerOK (wManager exampleSignedIn)" by code_simp
  have "map_of (mgExtensions (wManager exampleSignedIn)) ''foo'' \<noteq> None" by code_simp
  then obtain ext where x: "map_of (mgExtensions (wManager exampleSignedIn)) ''foo'' = Some ext" by auto
  have v: "case RemoveExtension ?e ''foo'' exampleSignedIn of
      (None, w') \<Rightarrow> fst (SetSetting (\<lambda>_. Some ''new'') 1 ''foo'' ''k'' JNull (wStore w', wFiles w')) | _ \<Rightarrow> False"
    by code_simp
  then obtain w' where r: "RemoveExtension ?e ''foo'' exampleSignedIn = (None, w')"
    and st: "fst (SetSetting (\<lambda>_. Some ''new'') 1 ''foo'' ''k'' JNull (wStore w', wFiles w'))"
    by (auto split: prod.splits option.splits)
  then obtain s'' fs'' where st: "SetSetting (\<lambda>_. Some ''new'') 1 ''foo'' ''k'' JNull (wStore w', wFiles w') = (True, s'', fs'')"
    by (metis fst_conv prod_cases3)
  have old: "GetSetting (wStore exampleSignedIn) ''foo'' ''token'' = Some (JStr ''s'')" by code_simp
  have e: "prefix (elems (Join [mgExtensionsDir (wManager exampleSignedIn), ''foo''])) [''app'', ''ext'', ''foo'', ''index.js'']"
    by code_simp
  have k: "''token'' \<noteq> ''k''" by simp
  note rem = removal_exact [OF ok x r]
  show ?thesis using r st k old e rem [of "[''app'', ''ext'', ''foo'', ''index.js'']" "\<lambda>_. Some ''new''" 1 "''k''" JNull _ s'' fs'' "''token''"] by auto
qed

end
