(* ===== verification/Id3.thy ===== *)
theory Id3
  imports ApeMeta
begin

unbundle bit_operations_syntax

text \<open>
  ID3 tags (\<open>go_backend/audio_metadata.go\<close>, and the frame reader and tag writer of
  \<open>wav_aiff.go\<close>): synchsafe sizes, the text encodings, the frames of versions 2.2 to 2.4, the
  version 1 tag at the end of a file, and the tag that is written. A file is its bytes; the
  Unicode case tables are the parameters \<open>uniU\<close> and \<open>uniL\<close>. A reader gives \<open>None\<close> where the
  code panics.
\<close>

section \<open>Sizes\<close>

definition byte_at :: "string \<Rightarrow> nat \<Rightarrow> nat" where
  "byte_at s i = of_char (s ! i)"

definition be_number :: "string \<Rightarrow> nat" where
  "be_number s = foldl (\<lambda>v c. v * 256 + of_char c) 0 s"

definition synchsafeEncode :: "nat \<Rightarrow> string" where
  "synchsafeEncode n =
     [char_of (n div 2 ^ 21 mod 128), char_of (n div 2 ^ 14 mod 128), char_of (n div 2 ^ 7 mod 128), char_of (n mod 128)]"

definition synchsafeDecode :: "string \<Rightarrow> nat" where
  "synchsafeDecode b =
     (if length b < 4 then 0
      else push_bit 21 (byte_at b 0) OR push_bit 14 (byte_at b 1) OR push_bit 7 (byte_at b 2) OR byte_at b 3)"

section \<open>Text\<close>

definition NUL :: char where "NUL = CHR 0x00"

definition trimNuls :: "string \<Rightarrow> string" where
  "trimNuls s = rev (dropWhile (\<lambda>c. c = NUL) (rev s))"

text \<open>The UTF-8 bytes of a rune below 65536: a surrogate is not a rune and becomes U+FFFD.\<close>

definition runeBytes :: "nat \<Rightarrow> string" where
  "runeBytes r =
     (if r < 128 then [char_of r]
      else if r < 2048 then [char_of (192 + r div 64), char_of (128 + r mod 64)]
      else if 55296 \<le> r \<and> r < 57344 then [CHR 0xEF, CHR 0xBF, CHR 0xBD]
      else [char_of (224 + r div 4096), char_of (128 + r div 64 mod 64), char_of (128 + r mod 64)])"

fun decodeUTF16Data :: "string \<Rightarrow> bool \<Rightarrow> string" where
  "decodeUTF16Data (a # b # s) littleEndian =
     (let r = (if littleEndian then of_char a + 256 * of_char b else 256 * of_char a + of_char b)
      in if r = 0 then '''' else runeBytes r @ decodeUTF16Data s littleEndian)"
| "decodeUTF16Data s littleEndian = ''''"

definition decodeUTF16 :: "string \<Rightarrow> string" where
  "decodeUTF16 s =
     (if length s < 2 then ''''
      else if byte_at s 0 = 255 \<and> byte_at s 1 = 254 then decodeUTF16Data (drop 2 s) True
      else if byte_at s 0 = 254 \<and> byte_at s 1 = 255 then decodeUTF16Data (drop 2 s) False
      else decodeUTF16Data s False)"

definition decodeUTF16BE :: "string \<Rightarrow> string" where
  "decodeUTF16BE s = decodeUTF16Data s False"

fun extractTextFrame :: "string \<Rightarrow> string" where
  "extractTextFrame [] = ''''"
| "extractTextFrame (encoding # txt) =
     (if of_char encoding = (1 :: nat) then decodeUTF16 txt
      else if of_char encoding = (2 :: nat) then decodeUTF16BE txt
      else trimNuls txt)"

definition wide :: "char \<Rightarrow> bool" where
  "wide encoding \<longleftrightarrow> of_char encoding = (1 :: nat) \<or> of_char encoding = (2 :: nat)"

text \<open>What stands before the first aligned pair of NULs, and what follows it.\<close>

fun cutWide :: "string \<Rightarrow> (string \<times> string) option" where
  "cutWide (a # b # s) =
     (if a = NUL \<and> b = NUL then Some ('''', s)
      else case cutWide s of None \<Rightarrow> None | Some (pre, post) \<Rightarrow> Some (a # b # pre, post))"
| "cutWide s = None"

definition cutNul :: "string \<Rightarrow> (string \<times> string) option" where
  "cutNul s = (if NUL \<in> set s then Some (takeWhile (\<lambda>c. c \<noteq> NUL) s, tl (dropWhile (\<lambda>c. c \<noteq> NUL) s)) else None)"

definition extractLangTextFrame :: "string \<Rightarrow> string" where
  "extractLangTextFrame s =
     (if length s < 5 then ''''
      else
        let encoding = hd s; rest = drop 4 s;
            txt = (if wide encoding then (case cutWide rest of None \<Rightarrow> '''' | Some (_, post) \<Rightarrow> post)
                   else (case cutNul rest of None \<Rightarrow> rest | Some (_, post) \<Rightarrow> if post \<noteq> '''' then post else rest))
        in if txt = '''' then '''' else extractTextFrame (encoding # txt))"

definition extractUserTextFrame :: "string \<Rightarrow> string \<times> string" where
  "extractUserTextFrame s =
     (if length s < 2 then ('''', '''')
      else
        let encoding = hd s; payload = tl s;
            parts = (if wide encoding then cutWide payload else cutNul payload)
        in case parts of
             None \<Rightarrow> ('''', '''')
           | Some (descRaw, valueRaw) \<Rightarrow>
               if valueRaw = '''' then ('''', '''')
               else (trim_space (extractTextFrame (encoding # descRaw)), trim_space (extractTextFrame (encoding # valueRaw))))"

definition isLyricsDescription :: "(string \<Rightarrow> string) \<Rightarrow> string \<Rightarrow> bool" where
  "isLyricsDescription uniL description \<longleftrightarrow>
     to_lower uniL (trim_space description) \<in> {''lyrics'', ''lyric'', ''unsyncedlyrics'', ''unsynced lyrics'', ''uslt'', ''lrc''}"

definition firstTextValue :: "string \<Rightarrow> string" where
  "firstTextValue s = takeWhile (\<lambda>c. c \<noteq> NUL) s"

fun removeUnsync :: "string \<Rightarrow> string" where
  "removeUnsync (a # b # s) = (if of_char a = (255 :: nat) \<and> b = NUL then a # removeUnsync s else a # removeUnsync (b # s))"
| "removeUnsync s = s"

section \<open>Genres\<close>

definition id3v1Genres :: "string list" where
  "id3v1Genres = [
    ''Blues'', ''Classic Rock'', ''Country'', ''Dance'', ''Disco'', ''Funk'', ''Grunge'', ''Hip-Hop'', ''Jazz'',
    ''Metal'', ''New Age'', ''Oldies'', ''Other'', ''Pop'', ''R&B'', ''Rap'', ''Reggae'', ''Rock'', ''Techno'',
    ''Industrial'', ''Alternative'', ''Ska'', ''Death Metal'', ''Pranks'', ''Soundtrack'', ''Euro-Techno'',
    ''Ambient'', ''Trip-Hop'', ''Vocal'', ''Jazz+Funk'', ''Fusion'', ''Trance'', ''Classical'', ''Instrumental'',
    ''Acid'', ''House'', ''Game'', ''Sound Clip'', ''Gospel'', ''Noise'', ''AlternRock'', ''Bass'', ''Soul'',
    ''Punk'', ''Space'', ''Meditative'', ''Instrumental Pop'', ''Instrumental Rock'', ''Ethnic'', ''Gothic'',
    ''Darkwave'', ''Techno-Industrial'', ''Electronic'', ''Pop-Folk'', ''Eurodance'', ''Dream'', ''Southern Rock'',
    ''Comedy'', ''Cult'', ''Gangsta'', ''Top 40'', ''Christian Rap'', ''Pop/Funk'', ''Jungle'', ''Native American'',
    ''Cabaret'', ''New Wave'', ''Psychedelic'', ''Rave'', ''Showtunes'', ''Trailer'', ''Lo-Fi'', ''Tribal'',
    ''Acid Punk'', ''Acid Jazz'', ''Polka'', ''Retro'', ''Musical'', ''Rock & Roll'', ''Hard Rock'', ''Folk'',
    ''Folk-Rock'', ''National Folk'', ''Swing'', ''Fast Fusion'', ''Bebop'', ''Latin'', ''Revival'', ''Celtic'',
    ''Bluegrass'', ''Avantgarde'', ''Gothic Rock'', ''Progressive Rock'', ''Psychedelic Rock'', ''Symphonic Rock'',
    ''Slow Rock'', ''Big Band'', ''Chorus'', ''Easy Listening'', ''Acoustic'', ''Humour'', ''Speech'', ''Chanson'',
    ''Opera'', ''Chamber Music'', ''Sonata'', ''Symphony'', ''Booty Bass'', ''Primus'', ''Porn Groove'', ''Satire'',
    ''Slow Jam'', ''Club'', ''Tango'', ''Samba'', ''Folklore'', ''Ballad'', ''Power Ballad'', ''Rhythmic Soul'',
    ''Freestyle'', ''Duet'', ''Punk Rock'', ''Drum Solo'', ''A capella'', ''Euro-House'', ''Dance Hall'', ''Goa'',
    ''Drum & Bass'', ''Club-House'', ''Hardcore'', ''Terror'', ''Indie'', ''BritPop'', ''Negerpunk'', ''Polsk Punk'',
    ''Beat'', ''Christian Gangsta Rap'', ''Heavy Metal'', ''Black Metal'', ''Crossover'', ''Contemporary Christian'',
    ''Christian Rock'', ''Merengue'', ''Salsa'', ''Thrash Metal'', ''Anime'', ''J-Pop'', ''Synthpop'']"

text \<open>
  A genre given as a number in parentheses: the index is only compared with the end of the
  table, so that a negative one is a panic.
\<close>

definition cleanGenre :: "string \<Rightarrow> string option" where
  "cleanGenre genre =
     (let numStr = tl (takeWhile (\<lambda>c. c \<noteq> CHR '')'') genre); tail = dropWhile (\<lambda>c. c \<noteq> CHR '')'') genre
      in if starts_with ''('' genre \<and> tail \<noteq> '''' then
           (case parseInt64 numStr of
              None \<Rightarrow> Some genre
            | Some num \<Rightarrow>
                if num < int (length id3v1Genres) then
                  (if tl tail \<noteq> '''' then Some (tl tail)
                   else if num < 0 then None else Some (id3v1Genres ! nat num))
                else Some genre)
         else Some genre)"

section \<open>Frames\<close>

definition u24 :: "string \<Rightarrow> nat" where
  "u24 b = push_bit 16 (byte_at b 0) OR push_bit 8 (byte_at b 1) OR byte_at b 2"

definition u32 :: "string \<Rightarrow> nat" where
  "u32 b = push_bit 24 (byte_at b 0) OR push_bit 16 (byte_at b 1) OR push_bit 8 (byte_at b 2) OR byte_at b 3"

definition frameSize :: "nat \<Rightarrow> string \<Rightarrow> nat" where
  "frameSize version s = (if version = 4 then synchsafeDecode (take 4 (drop 4 s)) else u32 (drop 4 s))"

text \<open>
  The frames that the loops of the readers visit: the id, the format flags and the data of each,
  from the start to the first that is empty, reaches beyond the tag or has a NUL for an id.
\<close>

function rawFrames22 :: "string \<Rightarrow> (string \<times> string) list" where
  "rawFrames22 s =
     (if length s \<le> 6 \<or> byte_at s 0 = 0 then []
      else
        let n = u24 (drop 3 s)
        in if n = 0 \<or> 6 + n > length s then []
           else (take 3 s, take n (drop 6 s)) # rawFrames22 (drop (6 + n) s))"
  by pat_completeness auto
termination by (relation "measure length") auto

function rawFrames23 :: "nat \<Rightarrow> string \<Rightarrow> (string \<times> nat \<times> string) list" where
  "rawFrames23 version s =
     (if length s \<le> 10 \<or> byte_at s 0 = 0 then []
      else
        let n = frameSize version s
        in if n = 0 \<or> 10 + n > length s then []
           else (take 4 s, byte_at s 9, take n (drop 10 s)) # rawFrames23 version (drop (10 + n) s))"
  by pat_completeness auto
termination by (relation "measure (\<lambda>(_, s). length s)") auto

declare rawFrames22.simps [simp del] rawFrames23.simps [simp del]

text \<open>The data of a frame without its grouping byte, its length and its unsynchronisation; \<open>None\<close> skips it.\<close>

definition frameData :: "nat \<Rightarrow> bool \<Rightarrow> nat \<Rightarrow> string \<Rightarrow> string option" where
  "frameData version tagUnsync flags s =
     (if version = 3 then
        (if flag_set 7 flags \<or> flag_set 6 flags then None
         else if flag_set 5 flags \<and> s = '''' then None
         else
           let s1 = (if flag_set 5 flags then tl s else s)
           in Some (if tagUnsync then removeUnsync s1 else s1))
      else if version = 4 then
        (if flag_set 6 flags \<and> s = '''' then None
         else
           let s1 = (if flag_set 6 flags then tl s else s)
           in if flag_set 0 flags \<and> length s1 < 4 then None
              else
                let s2 = (if flag_set 0 flags then drop 4 s1 else s1);
                    s3 = (if flag_set 1 flags \<or> tagUnsync then removeUnsync s2 else s2)
                in if flag_set 3 flags \<or> flag_set 2 flags then None else Some s3)
      else Some s)"

definition userText23 ::
  "(string \<Rightarrow> string) \<Rightarrow> (string \<Rightarrow> string) \<Rightarrow> string \<Rightarrow> string \<Rightarrow> audio_metadata \<Rightarrow> audio_metadata" where
  "userText23 uniU uniL desc v md0 =
     (let md = (if isLyricsDescription uniL desc \<and> v \<noteq> '''' \<and> amLyrics md0 = '''' then md0\<lparr>amLyrics := v\<rparr> else md0);
          upperDesc = to_upper uniU desc
      in if upperDesc = ''REPLAYGAIN_TRACK_GAIN'' then md\<lparr>amTrackGain := v\<rparr>
         else if upperDesc = ''REPLAYGAIN_TRACK_PEAK'' then md\<lparr>amTrackPeak := v\<rparr>
         else if upperDesc = ''REPLAYGAIN_ALBUM_GAIN'' then md\<lparr>amAlbumGain := v\<rparr>
         else if upperDesc = ''REPLAYGAIN_ALBUM_PEAK'' then md\<lparr>amAlbumPeak := v\<rparr>
         else if upperDesc = ''ITUNESADVISORY'' then md\<lparr>amExplicit := isTruthyTagValue uniL v\<rparr>
         else if upperDesc = ''RELEASETYPE'' then md\<lparr>amAlbumType := v\<rparr>
         else if upperDesc = ''BARCODE'' \<or> upperDesc = ''UPC'' then md\<lparr>amUPC := v\<rparr>
         else md)"

definition userText22 ::
  "(string \<Rightarrow> string) \<Rightarrow> (string \<Rightarrow> string) \<Rightarrow> string \<Rightarrow> string \<Rightarrow> audio_metadata \<Rightarrow> audio_metadata" where
  "userText22 uniU uniL desc v md0 =
     (let md = (if isLyricsDescription uniL desc \<and> v \<noteq> '''' \<and> amLyrics md0 = '''' then md0\<lparr>amLyrics := v\<rparr> else md0);
          upperDesc = to_upper uniU (trim_space desc)
      in if upperDesc = ''ITUNESADVISORY'' then md\<lparr>amExplicit := isTruthyTagValue uniL v\<rparr>
         else if upperDesc = ''RELEASETYPE'' then md\<lparr>amAlbumType := v\<rparr>
         else if upperDesc = ''BARCODE'' \<or> upperDesc = ''UPC'' then md\<lparr>amUPC := v\<rparr>
         else md)"

definition setLyrics :: "string \<Rightarrow> audio_metadata \<Rightarrow> audio_metadata" where
  "setLyrics v md = (if v \<noteq> '''' \<and> amLyrics md = '''' then md\<lparr>amLyrics := v\<rparr> else md)"

definition applyFrame23 ::
  "(string \<Rightarrow> string) \<Rightarrow> (string \<Rightarrow> string) \<Rightarrow> string \<Rightarrow> string \<Rightarrow> audio_metadata \<Rightarrow> audio_metadata option" where
  "applyFrame23 uniU uniL frameID s md =
     (let value = firstTextValue (extractTextFrame s)
      in if frameID = ''TIT2'' then Some (md\<lparr>amTitle := value\<rparr>)
         else if frameID = ''TPE1'' then Some (md\<lparr>amArtist := value\<rparr>)
         else if frameID = ''TPE2'' then Some (md\<lparr>amAlbumArtist := value\<rparr>)
         else if frameID = ''TALB'' then Some (md\<lparr>amAlbum := value\<rparr>)
         else if frameID = ''TYER'' \<or> frameID = ''TDRC'' then
           Some (if length value \<ge> 4 then md\<lparr>amYear := value, amDate := value\<rparr> else md\<lparr>amYear := value\<rparr>)
         else if frameID = ''TCON'' then map_option (\<lambda>g. md\<lparr>amGenre := g\<rparr>) (cleanGenre value)
         else if frameID = ''TRCK'' then
           Some (md\<lparr>amTrackNumber := fst (parseIndexPair value), amTotalTracks := snd (parseIndexPair value)\<rparr>)
         else if frameID = ''TPOS'' then
           Some (md\<lparr>amDiscNumber := fst (parseIndexPair value), amTotalDiscs := snd (parseIndexPair value)\<rparr>)
         else if frameID = ''TSRC'' then Some (md\<lparr>amISRC := value\<rparr>)
         else if frameID = ''TCOM'' then Some (md\<lparr>amComposer := value\<rparr>)
         else if frameID = ''TPUB'' then Some (md\<lparr>amLabel := value\<rparr>)
         else if frameID = ''TCOP'' then Some (md\<lparr>amCopyright := value\<rparr>)
         else if frameID = ''TCMP'' then
           Some (if isTruthyTagValue uniL value \<and> amAlbumType md = '''' then md\<lparr>amAlbumType := ''compilation''\<rparr> else md)
         else if frameID = ''COMM'' then
           Some (if extractLangTextFrame s \<noteq> '''' then md\<lparr>amComment := extractLangTextFrame s\<rparr> else md)
         else if frameID = ''USLT'' then Some (setLyrics (extractLangTextFrame s) md)
         else if frameID = ''TXXX'' then
           Some (case extractUserTextFrame s of (desc, v) \<Rightarrow> userText23 uniU uniL desc v md)
         else Some md)"

definition applyFrame22 ::
  "(string \<Rightarrow> string) \<Rightarrow> (string \<Rightarrow> string) \<Rightarrow> string \<Rightarrow> string \<Rightarrow> audio_metadata \<Rightarrow> audio_metadata option" where
  "applyFrame22 uniU uniL frameID s md =
     (let value = firstTextValue (extractTextFrame s)
      in if frameID = ''TT2'' then Some (md\<lparr>amTitle := value\<rparr>)
         else if frameID = ''TP1'' then Some (md\<lparr>amArtist := value\<rparr>)
         else if frameID = ''TP2'' then Some (md\<lparr>amAlbumArtist := value\<rparr>)
         else if frameID = ''TAL'' then Some (md\<lparr>amAlbum := value\<rparr>)
         else if frameID = ''TYE'' then Some (md\<lparr>amYear := value\<rparr>)
         else if frameID = ''TCO'' then map_option (\<lambda>g. md\<lparr>amGenre := g\<rparr>) (cleanGenre value)
         else if frameID = ''TRK'' then
           Some (md\<lparr>amTrackNumber := fst (parseIndexPair value), amTotalTracks := snd (parseIndexPair value)\<rparr>)
         else if frameID = ''TPA'' then
           Some (md\<lparr>amDiscNumber := fst (parseIndexPair value), amTotalDiscs := snd (parseIndexPair value)\<rparr>)
         else if frameID = ''TCM'' then Some (md\<lparr>amComposer := value\<rparr>)
         else if frameID = ''TPB'' then Some (md\<lparr>amLabel := value\<rparr>)
         else if frameID = ''TCR'' then Some (md\<lparr>amCopyright := value\<rparr>)
         else if frameID = ''ULT'' then Some (setLyrics (extractLangTextFrame s) md)
         else if frameID = ''TXX'' then
           Some (case extractUserTextFrame s of (desc, v) \<Rightarrow> userText22 uniU uniL desc v md)
         else Some md)"

fun applyFrames :: "('a \<Rightarrow> 'm \<Rightarrow> 'm option) \<Rightarrow> 'a list \<Rightarrow> 'm \<Rightarrow> 'm option" where
  "applyFrames f [] md = Some md"
| "applyFrames f (x # xs) md = (case f x md of None \<Rightarrow> None | Some md' \<Rightarrow> applyFrames f xs md')"

definition parseID3v22Frames ::
  "(string \<Rightarrow> string) \<Rightarrow> (string \<Rightarrow> string) \<Rightarrow> string \<Rightarrow> bool \<Rightarrow> audio_metadata \<Rightarrow> audio_metadata option" where
  "parseID3v22Frames uniU uniL s tagUnsync md =
     applyFrames (\<lambda>(frameID, s). applyFrame22 uniU uniL frameID (if tagUnsync then removeUnsync s else s)) (rawFrames22 s) md"

definition parseID3v23Frames ::
  "(string \<Rightarrow> string) \<Rightarrow> (string \<Rightarrow> string) \<Rightarrow> string \<Rightarrow> nat \<Rightarrow> bool \<Rightarrow> audio_metadata \<Rightarrow> audio_metadata option" where
  "parseID3v23Frames uniU uniL s version tagUnsync md =
     applyFrames (\<lambda>(frameID, flags, s) md.
         case frameData version tagUnsync flags s of None \<Rightarrow> Some md | Some d \<Rightarrow> applyFrame23 uniU uniL frameID d md)
       (rawFrames23 version s) md"

section \<open>Tags\<close>

definition extendedHeaderSize :: "string \<Rightarrow> nat \<Rightarrow> nat" where
  "extendedHeaderSize s version =
     (if length s < 4 then 0
      else
        let n = (if version = 3 then be_number (take 4 s) else if version = 4 then synchsafeDecode (take 4 s) else 0)
        in if n = 0 then 0
           else if n + 4 \<le> length s then n + 4
           else if n \<le> length s then n
           else 0)"

text \<open>The frames of a tag: without its footer and its extended header.\<close>

definition tagBody :: "nat \<Rightarrow> nat \<Rightarrow> string \<Rightarrow> string" where
  "tagBody version flags s =
     (let s1 = (if flag_set 4 flags \<and> length s \<ge> 10 \<and> take 3 (drop (length s - 10) s) = ''3DI''
                then take (length s - 10) s else s);
          skip = extendedHeaderSize s1 version
      in if flag_set 6 flags \<and> skip > 0 \<and> skip < length s1 then drop skip s1 else s1)"

definition parseFrames ::
  "(string \<Rightarrow> string) \<Rightarrow> (string \<Rightarrow> string) \<Rightarrow> nat \<Rightarrow> nat \<Rightarrow> string \<Rightarrow> audio_metadata option" where
  "parseFrames uniU uniL version flags tagData =
     (if version = 2 then parseID3v22Frames uniU uniL (tagBody version flags tagData) (flag_set 7 flags) emptyMetadata
      else parseID3v23Frames uniU uniL (tagBody version flags tagData) version (flag_set 7 flags) emptyMetadata)"

text \<open>The tag of a chunk, and the one at the start of a file: an error is the inner \<open>None\<close>.\<close>

definition readID3v2FromBytes ::
  "(string \<Rightarrow> string) \<Rightarrow> (string \<Rightarrow> string) \<Rightarrow> string \<Rightarrow> audio_metadata option option" where
  "readID3v2FromBytes uniU uniL s =
     (if length s < 10 \<or> take 3 s \<noteq> ''ID3'' then Some None
      else
        let n0 = synchsafeDecode (take 4 (drop 6 s));
            n = (if n0 = 0 \<or> 10 + n0 > length s then length s - 10 else n0)
        in map_option Some (parseFrames uniU uniL (byte_at s 3) (byte_at s 5) (take n (drop 10 s))))"

definition readID3v2 ::
  "(string \<Rightarrow> string) \<Rightarrow> (string \<Rightarrow> string) \<Rightarrow> string \<Rightarrow> audio_metadata option option" where
  "readID3v2 uniU uniL content =
     (if length content < 10 \<or> take 3 content \<noteq> ''ID3'' then Some None
      else
        let n = synchsafeDecode (take 4 (drop 6 content))
        in if length content < 10 + n then Some None
           else map_option Some (parseFrames uniU uniL (byte_at content 3) (byte_at content 5) (take n (drop 10 content))))"

text \<open>\<open>strings.TrimRight(s, " \x00")\<close>, and the tag of version 1 at the end of a file.\<close>

definition trimPad :: "string \<Rightarrow> string" where
  "trimPad s = rev (dropWhile (\<lambda>c. c = CHR '' '' \<or> c = NUL) (rev s))"

definition readID3v1 :: "string \<Rightarrow> audio_metadata option" where
  "readID3v1 content =
     (let tag = drop (length content - 128) content
      in if length content < 128 \<or> take 3 tag \<noteq> ''TAG'' then None
         else Some (emptyMetadata\<lparr>
           amTitle := trimPad (take 30 (drop 3 tag)), amArtist := trimPad (take 30 (drop 33 tag)),
           amAlbum := trimPad (take 30 (drop 63 tag)), amYear := trimPad (take 4 (drop 93 tag)),
           amTrackNumber := (if byte_at tag 125 = 0 \<and> byte_at tag 126 \<noteq> 0 then int (byte_at tag 126) else 0),
           amGenre := (if byte_at tag 127 < length id3v1Genres then id3v1Genres ! byte_at tag 127 else '''')\<rparr>))"

definition orOld :: "string \<Rightarrow> string \<Rightarrow> string" where
  "orOld a b = (if a = '''' then b else a)"

definition ReadID3Tags ::
  "(string \<Rightarrow> string) \<Rightarrow> (string \<Rightarrow> string) \<Rightarrow> string \<Rightarrow> audio_metadata option option" where
  "ReadID3Tags uniU uniL content =
     (case readID3v2 uniU uniL content of
        None \<Rightarrow> None
      | Some id3v2 \<Rightarrow>
          let md0 = (case id3v2 of None \<Rightarrow> emptyMetadata | Some md \<Rightarrow> md);
              md = (if amTitle md0 = '''' \<or> amArtist md0 = '''' then
                      (case readID3v1 content of
                         None \<Rightarrow> md0
                       | Some v1 \<Rightarrow>
                           md0\<lparr>amTitle := orOld (amTitle md0) (amTitle v1), amArtist := orOld (amArtist md0) (amArtist v1),
                               amAlbum := orOld (amAlbum md0) (amAlbum v1), amYear := orOld (amYear md0) (amYear v1),
                               amGenre := orOld (amGenre md0) (amGenre v1)\<rparr>)
                    else md0)
          in Some (if amTitle md = '''' \<and> amArtist md = '''' then None else Some md))"

section \<open>Pictures\<close>

text \<open>
  The loop over a two-byte description stops at any two adjacent NULs, or at the last byte.
\<close>

fun skipWide :: "string \<Rightarrow> string" where
  "skipWide (a # b # s) = (if a = NUL \<and> b = NUL then s else skipWide (b # s))"
| "skipWide s = s"

definition parseAPICFrame :: "string \<Rightarrow> nat \<Rightarrow> string \<times> string" where
  "parseAPICFrame s version =
     (if length s < 4 then ('''', '''')
      else
        let encoding = byte_at s 0;
            mimeRest = (if version = 2 then
                (if take 3 (drop 1 s) = ''PNG'' then ''image/png'' else ''image/jpeg'', drop 4 s)
              else (takeWhile (\<lambda>c. c \<noteq> NUL) (tl s), tl (dropWhile (\<lambda>c. c \<noteq> NUL) (tl s))))
        in if snd mimeRest = '''' then ('''', '''')
           else
             let afterType = tl (snd mimeRest);
                 picture = (if encoding = 0 \<or> encoding = 3 then tl (dropWhile (\<lambda>c. c \<noteq> NUL) afterType) else skipWide afterType)
             in if picture = '''' then ('''', '''') else (picture, fst mimeRest))"

section \<open>Reading sizes back\<close>

lemma or_push: "x < 2 ^ k \<Longrightarrow> push_bit k a OR x = a * 2 ^ k + (x :: nat)"
proof -
  assume x: "x < 2 ^ k"
  have "\<not> (bit (push_bit k a) n \<and> bit x n)" for n
  proof (cases "n < k")
    case False
    then have "x < 2 ^ n" using x by (meson less_le_trans linorder_not_less one_le_numeral power_increasing)
    then show ?thesis by (simp add: bit_iff_odd)
  qed (simp add: bit_push_bit_iff)
  then have "push_bit k a AND x = 0" by (intro bit_eqI) (simp add: bit_and_iff)
  then show ?thesis by (simp add: disjunctive_add_eq_or [symmetric] push_bit_eq_mult)
qed

lemma length_synchsafe [simp]: "length (synchsafeEncode n) = 4"
  by (simp add: synchsafeEncode_def)

lemma synchsafe_digits:
  assumes "b < 128" "c < 128" "d < (128 :: nat)"
  shows "push_bit 21 a OR push_bit 14 b OR push_bit 7 c OR d = a * 2 ^ 21 + (b * 2 ^ 14 + (c * 2 ^ 7 + d))"
proof -
  have c: "push_bit 7 c OR d = c * 2 ^ 7 + d" by (rule or_push) (use assms(3) in simp)
  have b: "push_bit 14 b OR (c * 2 ^ 7 + d) = b * 2 ^ 14 + (c * 2 ^ 7 + d)" by (rule or_push) (use assms(2,3) in simp)
  have "push_bit 21 a OR (b * 2 ^ 14 + (c * 2 ^ 7 + d)) = a * 2 ^ 21 + (b * 2 ^ 14 + (c * 2 ^ 7 + d))"
    by (rule or_push) (use assms in simp)
  then show ?thesis by (simp only: b c)
qed

lemma base128:
  assumes "n < 268435456"
  shows "n div 2097152 mod 128 * 2097152 + (n div 16384 mod 128 * 16384 + (n div 128 mod 128 * 128 + n mod 128)) = (n :: nat)"
proof -
  define a b c where "a = n div 128" and "b = a div 128" and "c = b div 128"
  have "n div 16384 = b" "n div 2097152 = c" by (simp_all add: a_def b_def c_def div_mult2_eq [symmetric])
  moreover have "n = a * 128 + n mod 128" "a = b * 128 + a mod 128" "b = c * 128 + b mod 128"
    by (simp_all add: a_def b_def c_def)
  moreover have "c < 128" using assms by (simp add: a_def b_def c_def div_mult2_eq [symmetric])
  ultimately show ?thesis by (simp only: a_def [symmetric] mod_less)
qed

lemma synchsafeDecode_Cons:
  "synchsafeDecode [a, b, c, d] = push_bit 21 (of_char a) OR push_bit 14 (of_char b) OR push_bit 7 (of_char c) OR of_char d"
  by (simp add: synchsafeDecode_def byte_at_def)

lemma of_char_digit: "of_char (char_of (x mod 128) :: char) = (x mod 128 :: nat)"
  by simp

lemma synchsafeDecode_Encode: "n < 2 ^ 28 \<Longrightarrow> synchsafeDecode (synchsafeEncode n) = n"
proof -
  assume n: "n < 2 ^ 28"
  have lt: "x mod 128 < (128 :: nat)" for x by simp
  have "synchsafeDecode (synchsafeEncode n)
      = push_bit 21 (n div 2 ^ 21 mod 128) OR push_bit 14 (n div 2 ^ 14 mod 128) OR push_bit 7 (n div 2 ^ 7 mod 128) OR n mod 128"
    by (simp only: synchsafeEncode_def synchsafeDecode_Cons of_char_digit)
  also have "\<dots> = n div 2 ^ 21 mod 128 * 2 ^ 21 + (n div 2 ^ 14 mod 128 * 2 ^ 14 + (n div 2 ^ 7 mod 128 * 2 ^ 7 + n mod 128))"
    by (rule synchsafe_digits) (rule lt)+
  also have "\<dots> = n"
  proof -
    have "(2 :: nat) ^ 28 = 268435456" "(2 :: nat) ^ 21 = 2097152" "(2 :: nat) ^ 14 = 16384" "(2 :: nat) ^ 7 = 128" by simp_all
    with base128 [of n] n show ?thesis by (simp only:)
  qed
  finally show ?thesis .
qed

end
