(* ===== verification/Id3Tag.thy ===== *)
theory Id3Tag
  imports Id3
begin

text \<open>
  Writing ID3v2.4 tags (\<open>go_backend/wav_aiff.go\<close>), the picture in a tag
  (\<open>wav_aiff.go\<close>, \<open>audio_metadata_cover.go\<close>), and the round trip: what is written is what
  the reader reads. The last section shows where the reader fails.
\<close>

section \<open>The tag that is written\<close>

definition writeFrame :: "string \<Rightarrow> string \<Rightarrow> string" where
  "writeFrame frameID payload = frameID @ synchsafeEncode (length payload) @ [NUL, NUL] @ payload"

definition UTF8 :: char where "UTF8 = CHR 0x03"

definition blank :: "string \<Rightarrow> bool" where
  "blank s \<longleftrightarrow> trim_space s = ''''"

definition id3TextPayload :: "string \<Rightarrow> string" where
  "id3TextPayload value = UTF8 # value"

definition id3LangTextPayload :: "string \<Rightarrow> string" where
  "id3LangTextPayload txt = UTF8 # ''eng'' @ [NUL] @ txt"

definition id3TXXXPayload :: "string \<Rightarrow> string \<Rightarrow> string" where
  "id3TXXXPayload desc value = UTF8 # desc @ [NUL] @ value"

text \<open>The frames of metadata, each with its payload: none for blank text.\<close>

definition textFrame :: "string \<Rightarrow> string \<Rightarrow> (string \<times> string) list" where
  "textFrame frameID val = (if blank val then [] else [(frameID, id3TextPayload val)])"

definition langFrame :: "string \<Rightarrow> string \<Rightarrow> (string \<times> string) list" where
  "langFrame frameID val = (if blank val then [] else [(frameID, id3LangTextPayload val)])"

definition userFrame :: "string \<Rightarrow> string \<Rightarrow> (string \<times> string) list" where
  "userFrame desc val = (if blank val then [] else [(''TXXX'', id3TXXXPayload desc val)])"

definition picturePayload :: "string \<Rightarrow> string \<Rightarrow> string" where
  "picturePayload mime coverData = UTF8 # mime @ [NUL, CHR 0x03, NUL] @ coverData"

definition pictureFrame :: "string \<Rightarrow> string \<Rightarrow> (string \<times> string) list" where
  "pictureFrame coverData coverMIME =
     (if coverData = '''' then []
      else [(''APIC'', picturePayload (if blank coverMIME then ''image/jpeg'' else coverMIME) coverData)])"

definition metadataFrames :: "audio_metadata \<Rightarrow> (string \<times> string) list" where
  "metadataFrames md =
     textFrame ''TIT2'' (amTitle md) @ textFrame ''TPE1'' (amArtist md) @ textFrame ''TALB'' (amAlbum md) @
     textFrame ''TPE2'' (amAlbumArtist md) @ textFrame ''TCON'' (amGenre md) @ textFrame ''TCOM'' (amComposer md) @
     textFrame ''TPUB'' (amLabel md) @ textFrame ''TCOP'' (amCopyright md) @ textFrame ''TSRC'' (amISRC md) @
     textFrame ''TDRC'' (if amDate md = '''' then amYear md else amDate md) @
     (if amTrackNumber md > 0 then textFrame ''TRCK'' (formatIndexValue (amTrackNumber md) (amTotalTracks md)) else []) @
     (if amDiscNumber md > 0 then textFrame ''TPOS'' (formatIndexValue (amDiscNumber md) (amTotalDiscs md)) else []) @
     langFrame ''COMM'' (amComment md) @ langFrame ''USLT'' (amLyrics md) @
     userFrame ''REPLAYGAIN_TRACK_GAIN'' (amTrackGain md) @ userFrame ''REPLAYGAIN_TRACK_PEAK'' (amTrackPeak md) @
     userFrame ''REPLAYGAIN_ALBUM_GAIN'' (amAlbumGain md) @ userFrame ''REPLAYGAIN_ALBUM_PEAK'' (amAlbumPeak md) @
     (if amExplicit md then userFrame ''ITUNESADVISORY'' ''1'' else []) @
     userFrame ''RELEASETYPE'' (amAlbumType md) @ userFrame ''BARCODE'' (amUPC md) @
     (if isCompilation (amAlbumType md) then textFrame ''TCMP'' ''1'' else [])"

definition frameBytes :: "(string \<times> string) list \<Rightarrow> string" where
  "frameBytes frames = concat (map (\<lambda>(frameID, payload). writeFrame frameID payload) frames)"

definition buildID3v24Tag :: "audio_metadata \<Rightarrow> string \<Rightarrow> string \<Rightarrow> string" where
  "buildID3v24Tag md coverData coverMIME =
     (let body = frameBytes (metadataFrames md @ pictureFrame coverData coverMIME)
      in ''ID3'' @ [CHR 0x04, NUL, NUL] @ synchsafeEncode (length body) @ body)"

section \<open>The picture in a tag\<close>

function findPicture22 :: "string \<Rightarrow> string \<times> string" where
  "findPicture22 s =
     (if 6 > length s \<or> byte_at s 0 = 0 then ('''', '''')
      else
        let n = u24 (drop 3 s)
        in if n = 0 \<or> 6 + n > length s then ('''', '''')
           else if take 3 s = ''PIC'' then parseAPICFrame (take n (drop 6 s)) 2
           else findPicture22 (drop (6 + n) s))"
  by pat_completeness auto
termination by (relation "measure length") auto

function findPicture23 :: "nat \<Rightarrow> string \<Rightarrow> string \<times> string" where
  "findPicture23 version s =
     (if 10 > length s \<or> byte_at s 0 = 0 then ('''', '''')
      else
        let n = (if version = 4 then synchsafeDecode (take 4 (drop 4 s)) else be_number (take 4 (drop 4 s)))
        in if n = 0 \<or> 10 + n > length s then ('''', '''')
           else if take 4 s = ''APIC'' then parseAPICFrame (take n (drop 10 s)) version
           else findPicture23 version (drop (10 + n) s))"
  by pat_completeness auto
termination by (relation "measure (\<lambda>(_, s). length s)") auto

declare findPicture22.simps [simp del] findPicture23.simps [simp del]

definition extractAPICFromID3 :: "string \<Rightarrow> string \<times> string" where
  "extractAPICFromID3 tag =
     (if length tag < 10 \<or> take 3 tag \<noteq> ''ID3'' then ('''', '''')
      else
        let ver = byte_at tag 3;
            n0 = synchsafeDecode (take 4 (drop 6 tag));
            n = (if n0 = 0 \<or> 10 + n0 > length tag then length tag - 10 else n0);
            s = take n (drop 10 tag)
        in if ver = 2 then findPicture22 s else findPicture23 ver s)"

text \<open>The cover of an MP3 file: the first picture that is not empty, of the frames as they stand.\<close>

definition extractMP3CoverArt :: "string \<Rightarrow> (string \<times> string) option" where
  "extractMP3CoverArt content =
     (if length content < 10 \<or> take 3 content \<noteq> ''ID3'' then None
      else
        let majorVersion = byte_at content 3; n = synchsafeDecode (take 4 (drop 6 content)); tagData = take n (drop 10 content)
        in if length content < 10 + n then None
           else if majorVersion = 2 then
             find (\<lambda>(picture, _). picture \<noteq> '''')
               (map (\<lambda>(_, s). parseAPICFrame s 2) (filter (\<lambda>(frameID, _). frameID = ''PIC'') (rawFrames22 tagData)))
           else
             find (\<lambda>(picture, _). picture \<noteq> '''')
               (map (\<lambda>(_, _, s). parseAPICFrame s majorVersion)
                  (filter (\<lambda>(frameID, _, _). frameID = ''APIC'') (rawFrames23 majorVersion tagData))))"

section \<open>What is written is read\<close>

definition okFrame :: "string \<times> string \<Rightarrow> bool" where
  "okFrame = (\<lambda>(frameID, payload). length frameID = 4 \<and> hd frameID \<noteq> NUL \<and> payload \<noteq> '''' \<and> length payload < 2 ^ 28)"

lemma of_char_NUL [simp]: "of_char NUL = (0 :: nat)" "(of_char c = (0 :: nat)) = (c = NUL)"
proof -
  show z: "of_char NUL = (0 :: nat)" by (simp add: NUL_def)
  show "(of_char c = (0 :: nat)) = (c = NUL)" using z of_char_eq_iff [of c NUL, where 'a = nat] by simp
qed

lemma synchsafe_4 [simp]: "take 4 (synchsafeEncode n @ r) = synchsafeEncode n"
  by simp

lemma rawFrames_written:
  assumes "list_all okFrame frames" "rawFrames23 4 rest = []"
  shows "rawFrames23 4 (frameBytes frames @ rest) = map (\<lambda>(frameID, payload). (frameID, 0, payload)) frames"
  using assms(1)
proof (induction frames)
  case Nil
  then show ?case by (simp add: frameBytes_def assms(2))
next
  case (Cons f frames)
  obtain i p where f: "f = (i, p)" by (cases f)
  from Cons.prems have i: "length i = 4" "hd i \<noteq> NUL" and p: "p \<noteq> ''''" "length p < 2 ^ 28" by (simp_all add: f okFrame_def)
  let ?s = "i @ synchsafeEncode (length p) @ [NUL, NUL] @ p @ frameBytes frames @ rest"
  have s: "frameBytes (f # frames) @ rest = ?s" by (simp add: frameBytes_def f writeFrame_def)
  have b0: "byte_at ?s 0 \<noteq> 0" using i by (cases i) (auto simp: byte_at_def)
  have b9: "byte_at ?s 9 = 0" using i by (simp add: byte_at_def nth_append)
  have n: "frameSize 4 ?s = length p" using i p by (simp add: frameSize_def synchsafeDecode_Encode)
  have d: "drop 10 ?s = p @ frameBytes frames @ rest" "drop (10 + length p) ?s = frameBytes frames @ rest" "take 4 ?s = i"
    using i by simp_all
  have len: "\<not> length ?s \<le> 10" "\<not> (length p = 0 \<or> 10 + length p > length ?s)" using i p by (auto simp: not_le)
  have "rawFrames23 4 ?s = (i, 0, p) # rawFrames23 4 (frameBytes frames @ rest)"
    by (subst rawFrames23.simps) (use len b0 b9 n d in \<open>simp add: Let_def\<close>)
  moreover have "list_all okFrame frames" using Cons.prems by simp
  ultimately show ?case by (simp only: s Cons.IH) (simp add: f)
qed

definition readFrames ::
  "(string \<Rightarrow> string) \<Rightarrow> (string \<Rightarrow> string) \<Rightarrow> (string \<times> string) list \<Rightarrow> audio_metadata \<Rightarrow> audio_metadata option" where
  "readFrames uniU uniL frames md = applyFrames (\<lambda>(frameID, s). applyFrame23 uniU uniL frameID s) frames md"

lemma applyFrames_append:
  "applyFrames f (xs @ ys) md = (case applyFrames f xs md of None \<Rightarrow> None | Some md' \<Rightarrow> applyFrames f ys md')"
  by (induction xs arbitrary: md) (auto split: option.splits)

lemma applyFrames_map: "applyFrames f (map g xs) md = applyFrames (\<lambda>x. f (g x)) xs md"
  by (induction xs arbitrary: md) (auto split: option.splits)

lemma frameData_plain: "frameData 4 False 0 s = Some s"
  by (simp add: frameData_def flag_set_def)

lemma parse_written:
  assumes "list_all okFrame frames" "rawFrames23 4 rest = []"
  shows "parseID3v23Frames uniU uniL (frameBytes frames @ rest) 4 False md = readFrames uniU uniL frames md"
  by (simp add: parseID3v23Frames_def rawFrames_written [OF assms] applyFrames_map readFrames_def case_prod_unfold frameData_plain)

lemma rawFrames_Nil [simp]: "rawFrames23 v '''' = []"
  by (subst rawFrames23.simps) simp

text \<open>Payloads are decoded to the text they were made of.\<close>

definition plainText :: "string \<Rightarrow> bool" where
  "plainText s \<longleftrightarrow> NUL \<notin> set s"

lemma trimNuls_plain: "plainText s \<Longrightarrow> trimNuls s = s"
  by (simp add: trimNuls_def plainText_def) (metis dropWhile_eq_self_iff hd_in_set rev_is_Nil_conv rev_rev_ident set_rev)

lemma firstTextValue_plain: "plainText s \<Longrightarrow> firstTextValue s = s"
  by (auto simp: firstTextValue_def plainText_def takeWhile_eq_all_conv)

lemma extractTextFrame_UTF8 [simp]: "extractTextFrame (UTF8 # s) = trimNuls s"
  by (simp add: UTF8_def)

declare extractTextFrame.simps(2) [simp del]

lemma text_payload: "plainText s \<Longrightarrow> firstTextValue (extractTextFrame (id3TextPayload s)) = s"
  by (simp add: id3TextPayload_def extractTextFrame_UTF8 trimNuls_plain firstTextValue_plain)

lemma not_wide: "\<not> wide UTF8"
  by (simp add: wide_def UTF8_def)

lemma lang_payload: "plainText s \<Longrightarrow> s \<noteq> '''' \<Longrightarrow> extractLangTextFrame (id3LangTextPayload s) = s"
  by (simp add: extractLangTextFrame_def id3LangTextPayload_def Let_def not_wide cutNul_def extractTextFrame_UTF8 trimNuls_plain)

lemma user_payload:
  assumes "plainText d" "plainText s" "s \<noteq> ''''"
  shows "extractUserTextFrame (id3TXXXPayload d s) = (trim_space d, trim_space s)"
proof -
  have "cutNul (d @ NUL # s) = Some (d, s)"
    using assms(1) by (induction d) (auto simp: cutNul_def plainText_def)
  then show ?thesis using assms
    by (simp add: extractUserTextFrame_def id3TXXXPayload_def Let_def not_wide extractTextFrame_UTF8 trimNuls_plain)
qed

definition kept :: "string \<Rightarrow> string" where
  "kept v = (if blank v then '''' else v)"

text \<open>The metadata a reader gets back.\<close>

definition asReadID3 :: "audio_metadata \<Rightarrow> audio_metadata" where
  "asReadID3 md =
     (let date = kept (if amDate md = '''' then amYear md else amDate md)
      in md\<lparr>amTitle := kept (amTitle md), amArtist := kept (amArtist md), amAlbum := kept (amAlbum md),
          amAlbumArtist := kept (amAlbumArtist md), amGenre := kept (amGenre md), amYear := date,
          amDate := (if length date \<ge> 4 then date else ''''),
          amTrackNumber := max 0 (amTrackNumber md), amTotalTracks := (if amTrackNumber md > 0 then max 0 (amTotalTracks md) else 0),
          amDiscNumber := max 0 (amDiscNumber md), amTotalDiscs := (if amDiscNumber md > 0 then max 0 (amTotalDiscs md) else 0),
          amISRC := kept (amISRC md), amLyrics := kept (amLyrics md), amLabel := kept (amLabel md),
          amCopyright := kept (amCopyright md), amComposer := kept (amComposer md), amComment := kept (amComment md),
          amAlbumType := trim_space (amAlbumType md), amUPC := trim_space (amUPC md),
          amTrackGain := trim_space (amTrackGain md), amTrackPeak := trim_space (amTrackPeak md),
          amAlbumGain := trim_space (amAlbumGain md), amAlbumPeak := trim_space (amAlbumPeak md)\<rparr>)"

definition metadataTexts :: "audio_metadata \<Rightarrow> string list" where
  "metadataTexts md =
     [amTitle md, amArtist md, amAlbum md, amAlbumArtist md, amGenre md, amYear md, amDate md, amISRC md, amLyrics md, amLabel md,
      amCopyright md, amComposer md, amComment md, amAlbumType md, amUPC md, amTrackGain md, amTrackPeak md, amAlbumGain md,
      amAlbumPeak md]"

definition writableMetadata :: "audio_metadata \<Rightarrow> bool" where
  "writableMetadata md \<longleftrightarrow> list_all plainText (metadataTexts md) \<and> \<not> starts_with ''('' (amGenre md)
     \<and> amTrackNumber md < 2 ^ 63 \<and> amTotalTracks md < 2 ^ 63 \<and> amDiscNumber md < 2 ^ 63 \<and> amTotalDiscs md < 2 ^ 63"

lemma readFrames_append:
  "readFrames uniU uniL (xs @ ys) md = (case readFrames uniU uniL xs md of None \<Rightarrow> None | Some md' \<Rightarrow> readFrames uniU uniL ys md')"
  unfolding readFrames_def applyFrames_append by (rule refl)

lemma readFrames_Nil: "readFrames uniU uniL [] md = Some md"
  by (simp add: readFrames_def)

lemma readFrames_one: "readFrames uniU uniL [(i, p)] md = applyFrame23 uniU uniL i p md"
  by (simp add: readFrames_def split: option.splits)

lemma cleanGenre_plain: "\<not> starts_with ''('' g \<Longrightarrow> cleanGenre g = Some g"
  by (simp add: cleanGenre_def)

lemma text_steps:
  assumes "plainText v"
  shows "amTitle md = '''' \<Longrightarrow> readFrames uniU uniL (textFrame ''TIT2'' v) md = Some (md\<lparr>amTitle := kept v\<rparr>)"
    and "amArtist md = '''' \<Longrightarrow> readFrames uniU uniL (textFrame ''TPE1'' v) md = Some (md\<lparr>amArtist := kept v\<rparr>)"
    and "amAlbum md = '''' \<Longrightarrow> readFrames uniU uniL (textFrame ''TALB'' v) md = Some (md\<lparr>amAlbum := kept v\<rparr>)"
    and "amAlbumArtist md = '''' \<Longrightarrow> readFrames uniU uniL (textFrame ''TPE2'' v) md = Some (md\<lparr>amAlbumArtist := kept v\<rparr>)"
    and "amGenre md = '''' \<Longrightarrow> \<not> starts_with ''('' v \<Longrightarrow> readFrames uniU uniL (textFrame ''TCON'' v) md = Some (md\<lparr>amGenre := kept v\<rparr>)"
    and "amComposer md = '''' \<Longrightarrow> readFrames uniU uniL (textFrame ''TCOM'' v) md = Some (md\<lparr>amComposer := kept v\<rparr>)"
    and "amLabel md = '''' \<Longrightarrow> readFrames uniU uniL (textFrame ''TPUB'' v) md = Some (md\<lparr>amLabel := kept v\<rparr>)"
    and "amCopyright md = '''' \<Longrightarrow> readFrames uniU uniL (textFrame ''TCOP'' v) md = Some (md\<lparr>amCopyright := kept v\<rparr>)"
    and "amISRC md = '''' \<Longrightarrow> readFrames uniU uniL (textFrame ''TSRC'' v) md = Some (md\<lparr>amISRC := kept v\<rparr>)"
    and "amYear md = '''' \<Longrightarrow> amDate md = '''' \<Longrightarrow> readFrames uniU uniL (textFrame ''TDRC'' v) md =
        Some (md\<lparr>amYear := kept v, amDate := (if length (kept v) \<ge> 4 then kept v else '''')\<rparr>)"
  using assms by (cases md; simp add: textFrame_def kept_def readFrames_Nil readFrames_one applyFrame23_def text_payload cleanGenre_plain)+

lemma lang_steps:
  assumes "plainText v"
  shows "amComment md = '''' \<Longrightarrow> readFrames uniU uniL (langFrame ''COMM'' v) md = Some (md\<lparr>amComment := kept v\<rparr>)"
    and "amLyrics md = '''' \<Longrightarrow> readFrames uniU uniL (langFrame ''USLT'' v) md = Some (md\<lparr>amLyrics := kept v\<rparr>)"
proof -
  have ne: "\<not> blank v \<Longrightarrow> v \<noteq> ''''" using trim_space_plain [of "''''"] by (auto simp: blank_def)
  show "amComment md = '''' \<Longrightarrow> readFrames uniU uniL (langFrame ''COMM'' v) md = Some (md\<lparr>amComment := kept v\<rparr>)"
    using assms ne by (cases md) (simp add: langFrame_def kept_def readFrames_Nil readFrames_one applyFrame23_def lang_payload)
  show "amLyrics md = '''' \<Longrightarrow> readFrames uniU uniL (langFrame ''USLT'' v) md = Some (md\<lparr>amLyrics := kept v\<rparr>)"
    using assms ne by (cases md) (simp add: langFrame_def kept_def readFrames_Nil readFrames_one applyFrame23_def lang_payload setLyrics_def)
qed

definition userDesc :: "string \<Rightarrow> bool" where
  "userDesc d \<longleftrightarrow> is_ascii d \<and> plainText d \<and> trim_space d = d \<and> map ascii_upper d = d
     \<and> map ascii_lower d \<notin> {''lyrics'', ''lyric'', ''unsyncedlyrics'', ''unsynced lyrics'', ''uslt'', ''lrc''}"

lemma user_desc: "userDesc d \<Longrightarrow> \<not> isLyricsDescription uniL d \<and> to_upper uniU d = d"
  by (simp add: userDesc_def isLyricsDescription_def to_lower_def to_upper_def)

lemma userDescs:
  "userDesc ''REPLAYGAIN_TRACK_GAIN''" "userDesc ''REPLAYGAIN_TRACK_PEAK''" "userDesc ''REPLAYGAIN_ALBUM_GAIN''"
  "userDesc ''REPLAYGAIN_ALBUM_PEAK''" "userDesc ''ITUNESADVISORY''" "userDesc ''RELEASETYPE''" "userDesc ''BARCODE''"
  by code_simp+



lemma user_frame:
  assumes "userDesc d" "plainText v"
  shows "readFrames uniU uniL (userFrame d v) md = Some (if blank v then md else userText23 uniU uniL d (trim_space v) md)"
proof (cases "blank v")
  case True
  then show ?thesis by (simp add: userFrame_def readFrames_Nil)
next
  case False
  then have "v \<noteq> ''''" using trim_space_plain [of "''''"] by (auto simp: blank_def)
  moreover have "plainText d" "trim_space d = d" using assms(1) by (simp_all add: userDesc_def)
  ultimately show ?thesis using False assms(2) by (simp add: userFrame_def readFrames_one applyFrame23_def user_payload)
qed

lemma user_steps:
  assumes "plainText v"
  shows "amTrackGain md = '''' \<Longrightarrow> readFrames uniU uniL (userFrame ''REPLAYGAIN_TRACK_GAIN'' v) md = Some (md\<lparr>amTrackGain := trim_space v\<rparr>)"
    and "amTrackPeak md = '''' \<Longrightarrow> readFrames uniU uniL (userFrame ''REPLAYGAIN_TRACK_PEAK'' v) md = Some (md\<lparr>amTrackPeak := trim_space v\<rparr>)"
    and "amAlbumGain md = '''' \<Longrightarrow> readFrames uniU uniL (userFrame ''REPLAYGAIN_ALBUM_GAIN'' v) md = Some (md\<lparr>amAlbumGain := trim_space v\<rparr>)"
    and "amAlbumPeak md = '''' \<Longrightarrow> readFrames uniU uniL (userFrame ''REPLAYGAIN_ALBUM_PEAK'' v) md = Some (md\<lparr>amAlbumPeak := trim_space v\<rparr>)"
    and "amAlbumType md = '''' \<Longrightarrow> readFrames uniU uniL (userFrame ''RELEASETYPE'' v) md = Some (md\<lparr>amAlbumType := trim_space v\<rparr>)"
    and "amUPC md = '''' \<Longrightarrow> readFrames uniU uniL (userFrame ''BARCODE'' v) md = Some (md\<lparr>amUPC := trim_space v\<rparr>)"
  using user_desc [OF userDescs(1), where uniL = uniL and uniU = uniU] user_desc [OF userDescs(2), where uniL = uniL and uniU = uniU]
    user_desc [OF userDescs(3), where uniL = uniL and uniU = uniU] user_desc [OF userDescs(4), where uniL = uniL and uniU = uniU]
    user_desc [OF userDescs(6), where uniL = uniL and uniU = uniU] user_desc [OF userDescs(7), where uniL = uniL and uniU = uniU]
  by (cases md; simp add: user_frame [OF _ assms] userDescs userText23_def blank_def)+

lemma explicit_step:
  assumes "\<not> amExplicit md"
  shows "readFrames uniU uniL (if b then userFrame ''ITUNESADVISORY'' ''1'' else []) md = Some (md\<lparr>amExplicit := b\<rparr>)"
proof (cases b)
  case True
  have "plainText ''1''" "\<not> blank ''1''" by (simp_all add: plainText_def NUL_def blank_def one_trim)
  then show ?thesis
    using True user_desc [OF userDescs(5), where uniL = uniL and uniU = uniU]
    by (simp add: user_frame [OF userDescs(5)] userText23_def one_trim one_truthy)
next
  case False
  with assms show ?thesis by (cases md) (simp add: readFrames_Nil)
qed

lemma show_nat_plainText: "plainText (show_nat n)"
  using show_nat_digits [of n] by (auto simp: plainText_def NUL_def is_digit_def)

lemma index_plain: "plainText (formatIndexValue n t)"
  using show_nat_plainText by (auto simp: formatIndexValue_def show_int_def plainText_def NUL_def)

lemma index_steps:
  assumes "n < 2 ^ 63" "t < 2 ^ 63"
  shows "amTrackNumber md = 0 \<Longrightarrow> amTotalTracks md = 0 \<Longrightarrow>
      readFrames uniU uniL (if n > 0 then textFrame ''TRCK'' (formatIndexValue n t) else []) md
        = Some (md\<lparr>amTrackNumber := max 0 n, amTotalTracks := (if n > 0 then max 0 t else 0)\<rparr>)"
    and "amDiscNumber md = 0 \<Longrightarrow> amTotalDiscs md = 0 \<Longrightarrow>
      readFrames uniU uniL (if n > 0 then textFrame ''TPOS'' (formatIndexValue n t) else []) md
        = Some (md\<lparr>amDiscNumber := max 0 n, amTotalDiscs := (if n > 0 then max 0 t else 0)\<rparr>)"
proof -
  have b: "\<not> blank (formatIndexValue n t)" if "0 < n" using parseIndexPair_format [OF that assms] by (simp add: blank_def)
  have pos: "readFrames uniU uniL (textFrame i (formatIndexValue n t)) acc = applyFrame23 uniU uniL i (id3TextPayload (formatIndexValue n t)) acc"
    if "0 < n" for i acc using b [OF that] by (simp add: textFrame_def readFrames_one)
  have m: "(if 0 < t then t else 0) = max 0 t" by (simp add: max_def)
  note p = text_payload [OF index_plain, of n t] parseIndexPair_format(1) [OF _ assms] m
  show "amTrackNumber md = 0 \<Longrightarrow> amTotalTracks md = 0 \<Longrightarrow>
      readFrames uniU uniL (if n > 0 then textFrame ''TRCK'' (formatIndexValue n t) else []) md
        = Some (md\<lparr>amTrackNumber := max 0 n, amTotalTracks := (if n > 0 then max 0 t else 0)\<rparr>)"
    by (cases "0 < n"; cases md) (simp_all add: readFrames_Nil pos applyFrame23_def p)
  show "amDiscNumber md = 0 \<Longrightarrow> amTotalDiscs md = 0 \<Longrightarrow>
      readFrames uniU uniL (if n > 0 then textFrame ''TPOS'' (formatIndexValue n t) else []) md
        = Some (md\<lparr>amDiscNumber := max 0 n, amTotalDiscs := (if n > 0 then max 0 t else 0)\<rparr>)"
    by (cases "0 < n"; cases md) (simp_all add: readFrames_Nil pos applyFrame23_def p)
qed

lemma picture_step: "readFrames uniU uniL (pictureFrame c mime) md = Some md"
  by (simp add: pictureFrame_def readFrames_Nil readFrames_one applyFrame23_def Let_def)

lemma compilation_step:
  assumes "b \<longrightarrow> amAlbumType md \<noteq> ''''"
  shows "readFrames uniU uniL (if b then textFrame ''TCMP'' ''1'' else []) md = Some md"
  using assms by (simp add: textFrame_def blank_def one_trim readFrames_Nil readFrames_one applyFrame23_def Let_def)

lemma plainText_Nil [simp]: "plainText ''''"
  by (simp add: plainText_def)

lemma compilation_trim: "isCompilation s \<longrightarrow> trim_space s \<noteq> ''''"
  by (auto simp: isCompilation_def)

lemma read_metadata:
  assumes "writableMetadata md"
  shows "readFrames uniU uniL (metadataFrames md @ pictureFrame c mime) emptyMetadata = Some (asReadID3 md)"
proof -
  have T: "plainText (amTitle md)" "plainText (amArtist md)" "plainText (amAlbum md)" "plainText (amAlbumArtist md)"
    "plainText (amGenre md)" "plainText (amComposer md)" "plainText (amLabel md)" "plainText (amCopyright md)" "plainText (amISRC md)"
    "plainText (if amDate md = '''' then amYear md else amDate md)" "plainText (amComment md)" "plainText (amLyrics md)"
    "plainText (amTrackGain md)" "plainText (amTrackPeak md)" "plainText (amAlbumGain md)" "plainText (amAlbumPeak md)"
    "plainText (amAlbumType md)" "plainText (amUPC md)"
    and g: "\<not> starts_with ''('' (amGenre md)"
    and n: "amTrackNumber md < 2 ^ 63" "amTotalTracks md < 2 ^ 63" "amDiscNumber md < 2 ^ 63" "amTotalDiscs md < 2 ^ 63"
    using assms by (simp_all add: writableMetadata_def metadataTexts_def)
  define y where "y = (if amDate md = '''' then amYear md else amDate md)"
  note steps = text_steps(1) [OF T(1)] text_steps(2) [OF T(2)] text_steps(3) [OF T(3)] text_steps(4) [OF T(4)]
    text_steps(5) [OF T(5) _ g] text_steps(6) [OF T(6)] text_steps(7) [OF T(7)] text_steps(8) [OF T(8)] text_steps(9) [OF T(9)]
    text_steps(10) [OF T(10), folded y_def] lang_steps(1) [OF T(11)] lang_steps(2) [OF T(12)]
    user_steps(1) [OF T(13)] user_steps(2) [OF T(14)] user_steps(3) [OF T(15)] user_steps(4) [OF T(16)]
    user_steps(5) [OF T(17)] user_steps(6) [OF T(18)] index_steps(1) [OF n(1,2)] index_steps(2) [OF n(3,4)]
  show ?thesis
    unfolding metadataFrames_def readFrames_append y_def [symmetric]
    by (simp add: emptyMetadata_def steps explicit_step compilation_step compilation_trim picture_step
        asReadID3_def Let_def y_def [symmetric] split del: if_split)
qed

lemma okFrame_frames:
  assumes "length (frameBytes frames) < 2 ^ 28" "list_all (\<lambda>(i, p). length i = 4 \<and> hd i \<noteq> NUL \<and> p \<noteq> '''') frames"
  shows "list_all okFrame frames"
proof -
  have "length p < 2 ^ 28" if "(i, p) \<in> set frames" for i p
  proof -
    from that have "length p \<le> length (frameBytes frames)"
      by (induction frames) (auto simp: frameBytes_def writeFrame_def)
    with assms(1) show ?thesis by simp
  qed
  with assms(2) show ?thesis by (auto simp: list_all_iff okFrame_def)
qed

lemma metadata_frames_shape:
  "list_all (\<lambda>(i, p). length i = 4 \<and> hd i \<noteq> NUL \<and> p \<noteq> '''') (metadataFrames md @ pictureFrame c mime)"
  by (simp add: metadataFrames_def textFrame_def langFrame_def userFrame_def pictureFrame_def id3TextPayload_def
      id3LangTextPayload_def id3TXXXPayload_def picturePayload_def NUL_def)

lemma tag_parsed:
  assumes "length (frameBytes (metadataFrames md @ pictureFrame c mime)) < 2 ^ 28"
  shows "readID3v2FromBytes uniU uniL (buildID3v24Tag md c mime)
    = map_option Some (readFrames uniU uniL (metadataFrames md @ pictureFrame c mime) emptyMetadata)"
proof -
  define body where "body = frameBytes (metadataFrames md @ pictureFrame c mime)"
  let ?tag = "buildID3v24Tag md c mime"
  have tag: "?tag = ''ID3'' @ [CHR 0x04, NUL, NUL] @ synchsafeEncode (length body) @ body"
    by (simp add: buildID3v24Tag_def body_def Let_def)
  have parts: "take 3 ?tag = ''ID3''" "byte_at ?tag 3 = 4" "byte_at ?tag 5 = 0" "length ?tag = 10 + length body"
    "take 4 (drop 6 ?tag) = synchsafeEncode (length body)" "drop 10 ?tag = body"
    by (simp_all add: tag byte_at_def)
  have n: "synchsafeDecode (synchsafeEncode (length body)) = length body"
    by (rule synchsafeDecode_Encode) (use assms in \<open>simp only: body_def\<close>)
  have b: "tagBody 4 0 s = s" for s by (simp add: tagBody_def flag_set_def)
  have "parseFrames uniU uniL 4 0 body = readFrames uniU uniL (metadataFrames md @ pictureFrame c mime) emptyMetadata"
    using parse_written [OF okFrame_frames [OF assms metadata_frames_shape], of "''''"]
    by (simp add: parseFrames_def b body_def flag_set_def)
  then show ?thesis by (simp add: readID3v2FromBytes_def parts n)
qed

text \<open>The picture is found behind the text frames.\<close>

lemma picture_written:
  assumes "list_all okFrame frames" "list_all (\<lambda>(i, _). i \<noteq> ''APIC'') frames"
  shows "findPicture23 4 (frameBytes frames @ rest) = findPicture23 4 rest"
  using assms
proof (induction frames)
  case (Cons f frames)
  obtain i p where f: "f = (i, p)" by (cases f)
  from Cons.prems have i: "length i = 4" "hd i \<noteq> NUL" "i \<noteq> ''APIC''" and p: "p \<noteq> ''''" "length p < 2 ^ 28"
    by (simp_all add: f okFrame_def)
  let ?s = "i @ synchsafeEncode (length p) @ [NUL, NUL] @ p @ frameBytes frames @ rest"
  have s: "frameBytes (f # frames) @ rest = ?s" by (simp add: frameBytes_def f writeFrame_def)
  have b0: "byte_at ?s 0 \<noteq> 0" using i by (cases i) (auto simp: byte_at_def)
  have n: "synchsafeDecode (take 4 (drop 4 ?s)) = length p" using i p by (simp add: synchsafeDecode_Encode)
  have d: "drop (10 + length p) ?s = frameBytes frames @ rest" "take 4 ?s = i" using i by simp_all
  have len: "\<not> 10 > length ?s" "\<not> (length p = 0 \<or> 10 + length p > length ?s)" using i p by (auto simp: not_le)
  have "findPicture23 4 ?s = findPicture23 4 (frameBytes frames @ rest)"
    by (subst findPicture23.simps) (use len b0 n d i in \<open>simp add: Let_def\<close>)
  then show ?case using Cons by (simp only: s) simp
qed (simp add: frameBytes_def)

lemma parse_picture:
  assumes "plainText mime" "c \<noteq> ''''"
  shows "parseAPICFrame (picturePayload mime c) 4 = (c, mime)"
proof -
  have m: "\<forall>x \<in> set mime. x \<noteq> NUL" using assms(1) by (auto simp: plainText_def)
  then have "takeWhile (\<lambda>x. x \<noteq> NUL) (mime @ NUL # CHR 0x03 # NUL # c) = mime"
    "dropWhile (\<lambda>x. x \<noteq> NUL) (mime @ NUL # CHR 0x03 # NUL # c) = NUL # CHR 0x03 # NUL # c"
    by (simp_all add: takeWhile_append2 dropWhile_append2)
  moreover have "byte_at (picturePayload mime c) 0 = 3" by (simp add: byte_at_def picturePayload_def UTF8_def)
  ultimately show ?thesis using assms(2) by (simp add: parseAPICFrame_def picturePayload_def Let_def)
qed

lemma picture_read:
  assumes "length (frameBytes (metadataFrames md @ pictureFrame c mime)) < 2 ^ 28" "plainText mime"
  shows "extractAPICFromID3 (buildID3v24Tag md c mime)
    = (if c = '''' then ('''', '''') else (c, if blank mime then ''image/jpeg'' else mime))"
proof -
  define body where "body = frameBytes (metadataFrames md @ pictureFrame c mime)"
  let ?tag = "buildID3v24Tag md c mime"
  have tag: "?tag = ''ID3'' @ [CHR 0x04, NUL, NUL] @ synchsafeEncode (length body) @ body"
    by (simp add: buildID3v24Tag_def body_def Let_def)
  have n: "synchsafeDecode (synchsafeEncode (length body)) = length body"
    by (rule synchsafeDecode_Encode) (use assms(1) in \<open>simp only: body_def\<close>)
  have parts: "take 3 ?tag = ''ID3''" "byte_at ?tag 3 = 4" "length ?tag = 10 + length body"
    "synchsafeDecode (take 4 (drop 6 ?tag)) = length body" "drop 10 ?tag = body"
    by (simp_all add: tag byte_at_def n)
  have ok: "list_all okFrame (metadataFrames md @ pictureFrame c mime)" by (rule okFrame_frames [OF assms(1) metadata_frames_shape])
  have texts: "list_all (\<lambda>(i, _). i \<noteq> ''APIC'') (metadataFrames md)"
    by (simp add: metadataFrames_def textFrame_def langFrame_def userFrame_def)
  have Nil: "findPicture23 4 '''' = ('''', '''')" by (subst findPicture23.simps) simp
  have found: "findPicture23 4 body = (if c = '''' then ('''', '''') else (c, if blank mime then ''image/jpeg'' else mime))"
  proof (cases "c = ''''")
    case True
    then show ?thesis using picture_written [of "metadataFrames md" "''''"] ok texts Nil by (simp add: body_def pictureFrame_def)
  next
    case False
    define mt where "mt = (if blank mime then ''image/jpeg'' else mime)"
    have plain: "plainText mt" using assms(2) by (simp add: mt_def plainText_def NUL_def)
    have frames: "pictureFrame c mime = [(''APIC'', picturePayload mt c)]" using False by (simp add: pictureFrame_def mt_def)
    let ?p = "picturePayload mt c"
    let ?s = "''APIC'' @ synchsafeEncode (length ?p) @ [NUL, NUL] @ ?p"
    have p: "?p \<noteq> ''''" "length ?p < 2 ^ 28" using ok by (simp_all add: frames okFrame_def)
    have s: "frameBytes (pictureFrame c mime) = ?s" by (simp add: frameBytes_def frames writeFrame_def)
    have sz: "synchsafeDecode (take 4 (drop 4 ?s)) = length ?p" using p by (simp add: synchsafeDecode_Encode)
    have b0: "byte_at ?s 0 \<noteq> 0" by (simp add: byte_at_def)
    have d: "take 4 ?s = ''APIC''" "take (length ?p) (drop 10 ?s) = ?p" "\<not> 10 > length ?s" "\<not> (length ?p = 0 \<or> 10 + length ?p > length ?s)"
      using p by simp_all
    have "findPicture23 4 ?s = parseAPICFrame ?p 4"
      by (subst findPicture23.simps) (simp only: sz d b0 Let_def if_False if_True simp_thms)
    moreover have "findPicture23 4 body = findPicture23 4 ?s"
    proof -
      have "body = frameBytes (metadataFrames md) @ frameBytes (pictureFrame c mime)" by (simp add: body_def frameBytes_def)
      moreover have "list_all okFrame (metadataFrames md)" using ok by simp
      ultimately show ?thesis using picture_written [OF _ texts, of "frameBytes (pictureFrame c mime)"] by (simp only: s)
    qed
    ultimately show ?thesis using parse_picture [OF plain False] False by (simp add: mt_def)
  qed
  show ?thesis unfolding extractAPICFromID3_def Let_def parts using found by (simp split: if_splits)
qed

text \<open> C16: the metadata written into an ID3v2.4 tag is what the reader reads
  from it, as long as no text has a NUL, the genre does not open with a parenthesis and the tag
  is below its limit of \<open>2 ^ 28\<close> bytes: text comes back as it was, blank text as empty, what is in
  user frames trimmed, the date also as the year, the full date only from four characters
  on, and numbers below one and totals without a number as zero. The picture is found again too,
  byte for byte, with its type, or JPEG for a blank one; with no picture none is found. \<close>

theorem id3_tag_roundtrip:
  assumes "writableMetadata md" "NUL \<notin> set mime" "length (frameBytes (metadataFrames md @ pictureFrame c mime)) < 2 ^ 28"
  shows "readID3v2FromBytes uniU uniL (buildID3v24Tag md c mime) = Some (Some (asReadID3 md))
    \<and> extractAPICFromID3 (buildID3v24Tag md c mime)
        = (if c = '''' then ('''', '''') else (c, if trim_space mime = '''' then ''image/jpeg'' else mime))"
  using picture_read [OF assms(3)] assms(2)
  by (simp add: tag_parsed [OF assms(3)] read_metadata [OF assms(1)] plainText_def blank_def)

lemma id3_tag_roundtrip_witness:
  "readID3v2FromBytes id id (buildID3v24Tag (emptyMetadata\<lparr>amTitle := ''Song'', amDate := ''1999'', amTrackNumber := 3, amAlbumType := '' Compilation''\<rparr>) ''pic'' ''image/png'')
     = Some (Some (asReadID3 (emptyMetadata\<lparr>amTitle := ''Song'', amDate := ''1999'', amTrackNumber := 3, amAlbumType := '' Compilation''\<rparr>)))
   \<and> extractAPICFromID3 (buildID3v24Tag (emptyMetadata\<lparr>amTitle := ''Song'', amDate := ''1999'', amTrackNumber := 3, amAlbumType := '' Compilation''\<rparr>) ''pic'' ''image/png'')
     = (''pic'', ''image/png'')"
proof -
  let ?md = "emptyMetadata\<lparr>amTitle := ''Song'', amDate := ''1999'', amTrackNumber := 3, amAlbumType := '' Compilation''\<rparr>"
  have w: "writableMetadata ?md"
    by (simp add: writableMetadata_def metadataTexts_def emptyMetadata_def plainText_def NUL_def starts_with_def)
  have m: "NUL \<notin> set ''image/png''" "trim_space ''image/png'' \<noteq> ''''" by code_simp+
  have f: "metadataFrames ?md @ pictureFrame ''pic'' ''image/png'' =
      [(''TIT2'', id3TextPayload ''Song''), (''TDRC'', id3TextPayload ''1999''), (''TRCK'', id3TextPayload ''3''),
       (''TXXX'', id3TXXXPayload ''RELEASETYPE'' '' Compilation''), (''TCMP'', id3TextPayload ''1''),
       (''APIC'', picturePayload ''image/png'' ''pic'')]"
    by code_simp
  have "length (frameBytes (metadataFrames ?md @ pictureFrame ''pic'' ''image/png'')) < 200"
    unfolding f by (simp add: frameBytes_def writeFrame_def id3TextPayload_def id3TXXXPayload_def picturePayload_def)
  then have "length (frameBytes (metadataFrames ?md @ pictureFrame ''pic'' ''image/png'')) < 2 ^ 28" by (rule less_trans) simp
  from id3_tag_roundtrip [OF w m(1) this, of id id] m(2) show ?thesis by simp
qed

section \<open>A genre that stops the reader\<close>

lemma cleanGenre_None:
  "cleanGenre g = None \<longleftrightarrow> (\<exists>num n. g = ''('' @ num @ '')'' \<and> CHR '')'' \<notin> set num \<and> parseInt64 num = Some n \<and> n < 0)"
proof -
  define pre post where "pre = takeWhile (\<lambda>c. c \<noteq> CHR '')'') g" and "post = dropWhile (\<lambda>c. c \<noteq> CHR '')'') g"
  have g: "g = pre @ post" by (simp add: pre_def post_def)
  have pre: "CHR '')'' \<notin> set pre" by (auto simp: pre_def dest: set_takeWhileD)
  have post: "post = [] \<or> hd post = CHR '')''" using hd_dropWhile [of "\<lambda>c. c \<noteq> CHR '')''" g] by (auto simp: post_def)
  have len: "0 < length id3v1Genres" by (simp add: id3v1Genres_def)
  have "cleanGenre g = None \<longleftrightarrow> starts_with ''('' g \<and> post \<noteq> [] \<and> tl post = [] \<and> (\<exists>n. parseInt64 (tl pre) = Some n \<and> n < 0)"
    using len by (auto simp: cleanGenre_def Let_def pre_def [symmetric] post_def [symmetric] split: option.splits if_splits)
  also have "\<dots> \<longleftrightarrow> (\<exists>num n. g = ''('' @ num @ '')'' \<and> CHR '')'' \<notin> set num \<and> parseInt64 num = Some n \<and> n < 0)"
  proof
    assume l: "starts_with ''('' g \<and> post \<noteq> [] \<and> tl post = [] \<and> (\<exists>n. parseInt64 (tl pre) = Some n \<and> n < 0)"
    then have p: "post = '')''" using post by (cases post) auto
    have "pre \<noteq> []" using l g p by (auto simp: starts_with_def)
    then obtain num where n: "pre = CHR ''('' # num" using l g by (cases pre) (auto simp: starts_with_def)
    then show "\<exists>num n. g = ''('' @ num @ '')'' \<and> CHR '')'' \<notin> set num \<and> parseInt64 num = Some n \<and> n < 0"
      using l g p pre by (intro exI [of _ num]) auto
  next
    assume "\<exists>num n. g = ''('' @ num @ '')'' \<and> CHR '')'' \<notin> set num \<and> parseInt64 num = Some n \<and> n < 0"
    then obtain num n where r: "g = ''('' @ num @ '')''" "CHR '')'' \<notin> set num" "parseInt64 num = Some n" "n < 0" by blast
    have "takeWhile (\<lambda>c. c \<noteq> CHR '')'') (num @ '')'') = num" "dropWhile (\<lambda>c. c \<noteq> CHR '')'') (num @ '')'') = '')''"
      using r(2) by (induction num) auto
    then have "pre = CHR ''('' # num" "post = '')''" by (simp_all add: pre_def post_def r(1))
    then show "starts_with ''('' g \<and> post \<noteq> [] \<and> tl post = [] \<and> (\<exists>n. parseInt64 (tl pre) = Some n \<and> n < 0)"
      using r by (simp add: starts_with_def)
  qed
  finally show ?thesis .
qed

text \<open> C38: a genre that is a negative number in parentheses is written into the tag like any other,
  and from then on every reading of the tag panics: the number is used as an index into the table
  of genres without a test that it is not negative. No other genre makes the reader of the
  genre panic. \<close>

theorem id3_genre_panics:
  assumes "list_all plainText (metadataTexts md)" "length (frameBytes (metadataFrames md @ pictureFrame c mime)) < 2 ^ 28"
    "amGenre md = ''('' @ num @ '')''" "CHR '')'' \<notin> set num" "parseInt64 num = Some n" "n < 0"
  shows "readID3v2FromBytes uniU uniL (buildID3v24Tag md c mime) = None
    \<and> (cleanGenre g = None \<longleftrightarrow> (\<exists>num n. g = ''('' @ num @ '')'' \<and> CHR '')'' \<notin> set num \<and> parseInt64 num = Some n \<and> n < 0))"
proof
  let ?tag = "buildID3v24Tag md c mime"
  have T: "plainText (amTitle md)" "plainText (amArtist md)" "plainText (amAlbum md)" "plainText (amAlbumArtist md)" "plainText (amGenre md)"
    using assms(1) by (simp_all add: metadataTexts_def)
  have bad: "cleanGenre (amGenre md) = None" unfolding cleanGenre_None using assms(3-6) by blast
  have "plain_char (CHR ''('')" "plain_char (CHR '')'')" by (simp_all add: plain_char_def)
  then have nb: "\<not> blank (amGenre md)" using trim_space_plain [of "amGenre md"] by (simp add: blank_def assms(3))
  have genre: "readFrames uniU uniL (textFrame ''TCON'' (amGenre md)) acc = None" for acc
    using nb by (simp add: textFrame_def readFrames_one applyFrame23_def text_payload [OF T(5)] bad)
  have r: "readFrames uniU uniL (metadataFrames md @ pictureFrame c mime) emptyMetadata = None"
    unfolding metadataFrames_def readFrames_append
    by (simp add: emptyMetadata_def text_steps(1) [OF T(1)] text_steps(2) [OF T(2)] text_steps(3) [OF T(3)] text_steps(4) [OF T(4)] genre)
  show "readID3v2FromBytes uniU uniL ?tag = None"
    using r tag_parsed [OF assms(2), of uniU uniL] by simp
  show "cleanGenre g = None \<longleftrightarrow> (\<exists>num n. g = ''('' @ num @ '')'' \<and> CHR '')'' \<notin> set num \<and> parseInt64 num = Some n \<and> n < 0)"
    by (rule cleanGenre_None)
qed

lemma id3_genre_panics_witness:
  "readID3v2FromBytes id id (buildID3v24Tag (emptyMetadata\<lparr>amGenre := ''(-1)''\<rparr>) '''' '''') = None"
proof -
  let ?md = "emptyMetadata\<lparr>amGenre := ''(-1)''\<rparr>"
  have t: "list_all plainText (metadataTexts ?md)"
    by (simp add: metadataTexts_def emptyMetadata_def plainText_def NUL_def)
  have f: "metadataFrames ?md @ pictureFrame '''' '''' = [(''TCON'', id3TextPayload ''(-1)'')]" by code_simp
  have "length (frameBytes (metadataFrames ?md @ pictureFrame '''' '''')) < 100"
    unfolding f by (simp add: frameBytes_def writeFrame_def id3TextPayload_def)
  then have l: "length (frameBytes (metadataFrames ?md @ pictureFrame '''' '''')) < 2 ^ 28" by (rule less_trans) simp
  have n: "parseInt64 ''-1'' = Some (-1)" by code_simp
  show ?thesis using id3_genre_panics [OF t l _ _ n] by simp
qed

end
