(* ===== verification/Mp3Edit.thy ===== *)
theory Mp3Edit
  imports Id3Tag
begin

text \<open>
  The native editor of ID3 tags in MP3 files (\<open>go_backend/mp3_id3_write.go\<close>): the frames of the
  tag as they are, the edits as frames that go and frames that come, and the file with the new
  tag before the audio. The cover is the content of the file at the given path, if it could be
  read; the MIME type that \<open>net/http\<close> detects for it is a parameter, and so is the order in
  which Go walks the map of user texts. Writing the file replaces it as a whole.
\<close>

section \<open>Frames as they are\<close>

definition id3v22FrameIDs :: "(string, string) gomap" where
  "id3v22FrameIDs =
     [(''TT2'', ''TIT2''), (''TP1'', ''TPE1''), (''TP2'', ''TPE2''), (''TAL'', ''TALB''), (''TYE'', ''TDRC''), (''TCO'', ''TCON''),
      (''TRK'', ''TRCK''), (''TPA'', ''TPOS''), (''TCM'', ''TCOM''), (''TPB'', ''TPUB''), (''TCR'', ''TCOP''), (''TXX'', ''TXXX''),
      (''ULT'', ''USLT''), (''COM'', ''COMM'')]"

definition convertPICToAPIC :: "string \<Rightarrow> string option" where
  "convertPICToAPIC payload =
     (if length payload < 5 then None
      else Some (take 1 payload @
             (if map ascii_lower (take 3 (drop 1 payload)) = ''png'' then ''image/png'' else ''image/jpeg'') @ [NUL] @ drop 4 payload))"

definition rawFrame22 :: "bool \<Rightarrow> string \<times> string \<Rightarrow> (string \<times> string) option" where
  "rawFrame22 tagUnsync = (\<lambda>(frameID, s).
     let payload = (if tagUnsync then removeUnsync s else s)
     in if frameID = ''PIC'' then map_option (\<lambda>p. (''APIC'', p)) (convertPICToAPIC payload)
        else map_option (\<lambda>mapped. (mapped, payload)) (map_of id3v22FrameIDs frameID))"

definition parseID3v22RawFrames :: "string \<Rightarrow> bool \<Rightarrow> (string \<times> string) list" where
  "parseID3v22RawFrames s tagUnsync = List.map_filter (rawFrame22 tagUnsync) (rawFrames22 s)"

definition rawPayload :: "nat \<Rightarrow> bool \<Rightarrow> nat \<Rightarrow> string \<Rightarrow> string option" where
  "rawPayload version tagUnsync flags s =
     (if version = 3 then
        (if flag_set 7 flags \<or> flag_set 6 flags then None
         else if flag_set 5 flags \<and> s = '''' then None
         else
           let s1 = (if flag_set 5 flags then tl s else s)
           in Some (if tagUnsync then removeUnsync s1 else s1))
      else if flag_set 3 flags \<or> flag_set 2 flags then None
      else if flag_set 6 flags \<and> s = '''' then None
      else
        let s1 = (if flag_set 6 flags then tl s else s)
        in if flag_set 0 flags \<and> length s1 < 4 then None
           else
             let s2 = (if flag_set 0 flags then drop 4 s1 else s1)
             in Some (if flag_set 1 flags \<or> tagUnsync then removeUnsync s2 else s2))"

definition parseID3v2xRawFrames :: "string \<Rightarrow> nat \<Rightarrow> bool \<Rightarrow> (string \<times> string) list" where
  "parseID3v2xRawFrames s version tagUnsync =
     List.map_filter (\<lambda>(frameID, flags, s). map_option (\<lambda>p. (frameID, p)) (rawPayload version tagUnsync flags s)) (rawFrames23 version s)"

datatype mp3_error = InvalidTagSize | TruncatedTag

text \<open>The frames of a file and where its audio starts.\<close>

definition readMP3ID3v2Frames :: "string \<Rightarrow> mp3_error + (string \<times> string) list \<times> nat" where
  "readMP3ID3v2Frames content =
     (if length content < 10 \<or> take 3 content \<noteq> ''ID3'' then Inr ([], 0)
      else
        let version = byte_at content 3; flags = byte_at content 5; n = synchsafeDecode (take 4 (drop 6 content))
        in if n = 0 then Inl InvalidTagSize
           else if length content < 10 + n then Inl TruncatedTag
           else
             let s = tagBody version flags (take n (drop 10 content));
                 frames = (if version = 2 then parseID3v22RawFrames s (flag_set 7 flags)
                           else parseID3v2xRawFrames s version (flag_set 7 flags))
             in Inr (frames, 10 + n + (if flag_set 4 flags then 10 else 0)))"

section \<open>The edits\<close>

definition firstFrameText :: "(string \<times> string) list \<Rightarrow> string \<Rightarrow> string" where
  "firstFrameText frames frameID =
     (case find (\<lambda>(i, _). i = frameID) frames of None \<Rightarrow> '''' | Some (_, p) \<Rightarrow> firstTextValue (extractTextFrame p))"

definition parsePositiveInt :: "string \<Rightarrow> int" where
  "parsePositiveInt value = (if trim_space value = '''' then 0 else atoi (trim_space value))"

text \<open>What the edits drop, by id and by description of a user text, and what they add.\<close>

record edit_plan =
  epDrop :: "string list"
  epDescs :: "string list"
  epAdded :: "(string \<times> string) list"

definition noEdit :: edit_plan where
  "noEdit = \<lparr>epDrop = [], epDescs = [], epAdded = []\<rparr>"

definition joinEdits :: "edit_plan list \<Rightarrow> edit_plan" where
  "joinEdits ps = \<lparr>epDrop = concat (map epDrop ps), epDescs = concat (map epDescs ps), epAdded = concat (map epAdded ps)\<rparr>"

definition setOrClear :: "string \<Rightarrow> string \<Rightarrow> string list \<Rightarrow> edit_plan" where
  "setOrClear frameID value aliases =
     \<lparr>epDrop = frameID # aliases, epDescs = [], epAdded = (if blank value then [] else [(frameID, id3TextPayload value)])\<rparr>"

definition simpleKeys :: "(string \<times> string \<times> string list) list" where
  "simpleKeys =
     [(''title'', ''TIT2'', []), (''artist'', ''TPE1'', []), (''album'', ''TALB'', []), (''album_artist'', ''TPE2'', []),
      (''date'', ''TDRC'', [''TYER'', ''TDAT'', ''TIME'']), (''genre'', ''TCON'', []), (''label'', ''TPUB'', []),
      (''copyright'', ''TCOP'', []), (''composer'', ''TCOM'', []), (''isrc'', ''TSRC'', [])]"

definition editSimple :: "edit_fields \<Rightarrow> string \<times> string \<times> string list \<Rightarrow> edit_plan" where
  "editSimple edits = (\<lambda>(fieldKey, frameID, aliases).
     case map_of edits fieldKey of None \<Rightarrow> noEdit | Some v \<Rightarrow> setOrClear frameID v aliases)"

definition editLang :: "edit_fields \<Rightarrow> string \<Rightarrow> string \<Rightarrow> edit_plan" where
  "editLang edits fieldKey frameID =
     (case map_of edits fieldKey of
        None \<Rightarrow> noEdit
      | Some v \<Rightarrow> \<lparr>epDrop = [frameID], epDescs = [], epAdded = (if blank v then [] else [(frameID, id3LangTextPayload v)])\<rparr>)"

definition editIndex :: "edit_fields \<Rightarrow> (string \<times> string) list \<Rightarrow> string \<Rightarrow> string \<Rightarrow> string \<Rightarrow> edit_plan" where
  "editIndex edits frames numberKey totalKey frameID =
     (if map_of edits numberKey = None \<and> map_of edits totalKey = None then noEdit
      else
        case parseIndexPair (firstFrameText frames frameID) of
          (num0, total0) \<Rightarrow>
            let num = (case map_of edits numberKey of None \<Rightarrow> num0 | Some v \<Rightarrow> parsePositiveInt v);
                tot = (case map_of edits totalKey of None \<Rightarrow> total0 | Some v \<Rightarrow> parsePositiveInt v)
            in setOrClear frameID (formatIndexValue num tot) [])"

definition editUser :: "edit_fields \<Rightarrow> string \<times> string \<Rightarrow> edit_plan" where
  "editUser edits = (\<lambda>(fieldKey, desc).
     case map_of edits fieldKey of
       None \<Rightarrow> noEdit
     | Some v \<Rightarrow> \<lparr>epDrop = [], epDescs = [desc], epAdded = (if blank v then [] else [(''TXXX'', id3TXXXPayload desc v)])\<rparr>)"

definition replayGainKeys :: "(string \<times> string) list" where
  "replayGainKeys =
     [(''replaygain_track_gain'', ''REPLAYGAIN_TRACK_GAIN''), (''replaygain_track_peak'', ''REPLAYGAIN_TRACK_PEAK''),
      (''replaygain_album_gain'', ''REPLAYGAIN_ALBUM_GAIN''), (''replaygain_album_peak'', ''REPLAYGAIN_ALBUM_PEAK'')]"

definition txxxDescriptions :: "(string \<times> string) list" where
  "txxxDescriptions = [(''explicit'', ''ITUNESADVISORY''), (''album_type'', ''RELEASETYPE''), (''upc'', ''BARCODE'')]"

definition editCover :: "(string \<Rightarrow> string) \<Rightarrow> edit_fields \<Rightarrow> string option \<Rightarrow> edit_plan" where
  "editCover detect edits cover =
     (if blank (fieldText edits ''cover_path'') then noEdit
      else
        case cover of
          None \<Rightarrow> noEdit
        | Some coverData \<Rightarrow>
            if coverData = '''' then noEdit
            else \<lparr>epDrop = [''APIC''], epDescs = [], epAdded = [(''APIC'', picturePayload (detect coverData) coverData)]\<rparr>)"

definition planEdits ::
  "(string \<Rightarrow> string) \<Rightarrow> (string \<times> string) list \<Rightarrow> edit_fields \<Rightarrow> string option \<Rightarrow> (string \<times> string) list \<Rightarrow> edit_plan" where
  "planEdits detect order edits cover frames =
     joinEdits (map (editSimple edits) simpleKeys @
       [editLang edits ''comment'' ''COMM'', editLang edits ''lyrics'' ''USLT'',
        editIndex edits frames ''track_number'' ''track_total'' ''TRCK'', editIndex edits frames ''disc_number'' ''disc_total'' ''TPOS''] @
       map (editUser edits) replayGainKeys @ map (editUser edits) order @
       [(case map_of edits ''compilation'' of None \<Rightarrow> noEdit | Some v \<Rightarrow> setOrClear ''TCMP'' v []), editCover detect edits cover])"

definition survives :: "(string \<Rightarrow> string) \<Rightarrow> edit_plan \<Rightarrow> string \<times> string \<Rightarrow> bool" where
  "survives uniU plan = (\<lambda>(frameID, payload).
     frameID \<notin> set (epDrop plan)
     \<and> \<not> (frameID = ''TXXX'' \<and> epDescs plan \<noteq> []
          \<and> to_upper uniU (trim_space (fst (extractUserTextFrame payload))) \<in> set (epDescs plan)))"

section \<open>The new file\<close>

definition padding :: nat where "padding = 512"

definition serializeID3v24Tag :: "(string \<times> string) list \<Rightarrow> string" where
  "serializeID3v24Tag frames =
     ''ID3'' @ [CHR 0x04, NUL, NUL] @ synchsafeEncode (length (frameBytes frames) + padding) @ frameBytes frames @ replicate padding NUL"

definition editedFrames ::
  "(string \<Rightarrow> string) \<Rightarrow> (string \<Rightarrow> string) \<Rightarrow> (string \<times> string) list \<Rightarrow> edit_fields \<Rightarrow> string option \<Rightarrow> (string \<times> string) list \<Rightarrow>
     (string \<times> string) list" where
  "editedFrames uniU detect order edits cover frames =
     (let plan = planEdits detect order edits cover frames in filter (survives uniU plan) frames @ epAdded plan)"

definition EditMP3Fields ::
  "(string \<Rightarrow> string) \<Rightarrow> (string \<Rightarrow> string) \<Rightarrow> (string \<times> string) list \<Rightarrow> edit_fields \<Rightarrow> string option \<Rightarrow> string \<Rightarrow> mp3_error + string" where
  "EditMP3Fields uniU detect order edits cover content =
     (case readMP3ID3v2Frames content of
        Inl e \<Rightarrow> Inl e
      | Inr (frames, audioStart) \<Rightarrow>
          Inr (serializeID3v24Tag (editedFrames uniU detect order edits cover frames) @ drop audioStart content))"

section \<open>What the new file holds\<close>

definition goodID :: "string \<times> string \<Rightarrow> bool" where
  "goodID = (\<lambda>(frameID, _). length frameID = 4 \<and> hd frameID \<noteq> NUL)"

lemma padding_stops: "rawFrames23 v (replicate k NUL) = []"
  by (subst rawFrames23.simps) (cases k; simp add: byte_at_def)

lemma empty_stops: "rawFrames23 4 (writeFrame i '''' @ rest) = []" if "length i = 4"
proof -
  have "frameSize 4 (writeFrame i '''' @ rest) = 0"
    using that synchsafeDecode_Encode [of 0] by (simp add: frameSize_def writeFrame_def)
  then show ?thesis by (subst rawFrames23.simps) simp
qed

lemma length_payload: "(i, p) \<in> set frames \<Longrightarrow> length p \<le> length (frameBytes frames)"
  by (induction frames) (auto simp: frameBytes_def writeFrame_def)

lemma frameBytes_append: "frameBytes (xs @ ys) = frameBytes xs @ frameBytes ys"
  by (simp add: frameBytes_def)

lemma rawFrames_serialized:
  assumes "list_all goodID frames" "length (frameBytes frames) < 2 ^ 28"
  shows "rawFrames23 4 (frameBytes frames @ replicate k NUL)
    = map (\<lambda>(frameID, payload). (frameID, 0, payload)) (takeWhile (\<lambda>(_, p). p \<noteq> '''') frames)"
proof -
  define xs where "xs = takeWhile (\<lambda>(_, p). p \<noteq> '''') frames"
  define ys where "ys = dropWhile (\<lambda>(_, p). p \<noteq> '''') frames"
  have f: "frames = xs @ ys" by (simp add: xs_def ys_def)
  have "\<forall>(i, p) \<in> set xs. p \<noteq> ''''" by (auto simp: xs_def dest: set_takeWhileD)
  moreover have "list_all goodID xs" using assms(1) by (simp add: f)
  moreover have "length p < 2 ^ 28" if "(i, p) \<in> set xs" for i p
    using length_payload [of i p frames] that assms(2) by (simp add: f)
  ultimately have ok: "list_all okFrame xs" by (auto simp: list_all_iff okFrame_def goodID_def)
  have "rawFrames23 4 (frameBytes ys @ replicate k NUL) = []"
  proof (cases ys)
    case Nil
    then show ?thesis by (simp add: frameBytes_def padding_stops)
  next
    case (Cons y zs)
    obtain i p where y: "y = (i, p)" by (cases y)
    have "\<not> (\<lambda>(_, p). p \<noteq> '''') (hd ys)" using hd_dropWhile [of "\<lambda>(_, p). p \<noteq> ''''" frames] Cons by (metis list.discI ys_def)
    then have "p = ''''" by (simp add: Cons y)
    moreover have "length i = 4" using assms(1) by (simp add: f Cons y goodID_def)
    ultimately show ?thesis by (simp add: Cons y frameBytes_def empty_stops)
  qed
  from rawFrames_written [OF ok this]
  have "rawFrames23 4 (frameBytes (xs @ ys) @ replicate k NUL) = map (\<lambda>(frameID, payload). (frameID, 0, payload)) xs"
    by (simp only: frameBytes_append append.assoc)
  then show ?thesis by (simp only: f [symmetric] xs_def [symmetric])
qed

lemma rawFrames23_ids: "(i, fl, p) \<in> set (rawFrames23 v s) \<Longrightarrow> length i = 4 \<and> hd i \<noteq> NUL"
proof (induction v s rule: rawFrames23.induct)
  case (1 v s)
  show ?case
  proof (cases "length s \<le> 10 \<or> byte_at s 0 = 0 \<or> frameSize v s = 0 \<or> 10 + frameSize v s > length s")
    case True
    then have "rawFrames23 v s = []" by (subst rawFrames23.simps) (auto simp: Let_def)
    then show ?thesis using 1(2) by simp
  next
    case False
    then have r: "rawFrames23 v s = (take 4 s, byte_at s 9, take (frameSize v s) (drop 10 s)) # rawFrames23 v (drop (10 + frameSize v s) s)"
      by (subst rawFrames23.simps) (simp add: Let_def)
    from 1(2) consider "i = take 4 s" | "(i, fl, p) \<in> set (rawFrames23 v (drop (10 + frameSize v s) s))" by (auto simp: r)
    then show ?thesis
    proof cases
      case a: 1
      have "s \<noteq> []" using False by auto
      then have "hd s \<noteq> NUL" using False by (simp add: byte_at_def hd_conv_nth)
      then show ?thesis using False by (cases s) (auto simp: a)
    next
      case 2
      then show ?thesis using 1(1) False by simp
    qed
  qed
qed

lemma parse22_ids: "f \<in> set (parseID3v22RawFrames s u) \<Longrightarrow> goodID f"
proof -
  have ids: "list_all (\<lambda>(_, i). length i = 4 \<and> hd i \<noteq> NUL) id3v22FrameIDs" by code_simp
  assume "f \<in> set (parseID3v22RawFrames s u)"
  then obtain x where "rawFrame22 u x = Some f" by (auto simp: parseID3v22RawFrames_def List.map_filter_def)
  moreover have "goodID (''APIC'', p)" for p by (simp add: goodID_def NUL_def)
  moreover have "goodID (i, p)" if "map_of id3v22FrameIDs k = Some i" for k i p
    using map_of_SomeD [OF that] ids by (auto simp: goodID_def list_all_iff)
  ultimately show ?thesis by (auto simp: rawFrame22_def Let_def split: prod.splits if_splits)
qed

lemma parse23_ids: "f \<in> set (parseID3v2xRawFrames s v u) \<Longrightarrow> goodID f"
proof -
  assume "f \<in> set (parseID3v2xRawFrames s v u)"
  then obtain i fl p q where "(i, fl, p) \<in> set (rawFrames23 v s)" "f = (i, q)"
    by (auto simp: parseID3v2xRawFrames_def List.map_filter_def)
  then show ?thesis using rawFrames23_ids by (auto simp: goodID_def)
qed

lemma read_ids: "readMP3ID3v2Frames content = Inr (frames, a) \<Longrightarrow> list_all goodID frames"
  by (auto simp: readMP3ID3v2Frames_def Let_def list_all_iff simp del: split_paired_All
      dest: parse22_ids parse23_ids split: if_splits)

definition goodAdded :: "edit_plan \<Rightarrow> bool" where
  "goodAdded plan \<longleftrightarrow> list_all (\<lambda>(i, p). length i = 4 \<and> hd i \<noteq> NUL \<and> p \<noteq> '''') (epAdded plan)"

lemma goodAdded_parts:
  "goodAdded noEdit" "goodAdded (joinEdits ps) = list_all goodAdded ps"
  "length i = 4 \<Longrightarrow> hd i \<noteq> NUL \<Longrightarrow> goodAdded (setOrClear i v as)"
  "length i = 4 \<Longrightarrow> hd i \<noteq> NUL \<Longrightarrow> goodAdded (editLang edits k i)"
  "length i = 4 \<Longrightarrow> hd i \<noteq> NUL \<Longrightarrow> goodAdded (editIndex edits frames a b i)"
  "goodAdded (editUser edits u)" "goodAdded (editCover detect edits c)"
  by (auto simp: goodAdded_def noEdit_def joinEdits_def setOrClear_def editLang_def editIndex_def editUser_def editCover_def
      id3TextPayload_def id3LangTextPayload_def id3TXXXPayload_def picturePayload_def Let_def list_all_iff NUL_def
      split: option.splits prod.splits)

lemma planEdits_added: "goodAdded (planEdits detect order edits cover frames)"
proof -
  have "goodAdded (editSimple edits k)" if "k \<in> set simpleKeys" for k
    using that by (auto simp: simpleKeys_def editSimple_def goodAdded_parts NUL_def split: option.splits)
  then show ?thesis
    by (auto simp: planEdits_def goodAdded_parts list_all_iff NUL_def split: option.splits)
qed

definition shown :: "(string \<times> string) list \<Rightarrow> (string \<times> string) list" where
  "shown frames = takeWhile (\<lambda>(_, p). p \<noteq> '''') frames"

lemma length_serialized: "length (serializeID3v24Tag frames) = 10 + (length (frameBytes frames) + padding)"
  by (simp add: serializeID3v24Tag_def)

lemma rawPayload_plain: "rawPayload 4 False 0 s = Some s"
  by (simp add: rawPayload_def flag_set_def)

lemma serialized_parts:
  fixes frames audio
  defines "tag \<equiv> serializeID3v24Tag frames @ audio"
  assumes "length (frameBytes frames) + padding < 2 ^ 28"
  shows "take 3 tag = ''ID3''" "byte_at tag 3 = 4" "byte_at tag 5 = 0" "\<not> length tag < 10 + (length (frameBytes frames) + padding)"
    "synchsafeDecode (take 4 (drop 6 tag)) = length (frameBytes frames) + padding"
    "take (length (frameBytes frames) + padding) (drop 10 tag) = frameBytes frames @ replicate padding NUL"
  using synchsafeDecode_Encode [OF assms(2)] by (simp_all add: tag_def serializeID3v24Tag_def byte_at_def)

lemma tagBody_plain: "tagBody 4 0 s = s"
  by (simp add: tagBody_def flag_set_def)

lemma read_serialized:
  assumes "list_all goodID frames" "length (frameBytes frames) + padding < 2 ^ 28"
  shows "readMP3ID3v2Frames (serializeID3v24Tag frames @ audio) = Inr (shown frames, length (serializeID3v24Tag frames))"
    and "readID3v2 uniU uniL (serializeID3v24Tag frames @ audio) = map_option Some (readFrames uniU uniL (shown frames) emptyMetadata)"
proof -
  note p = serialized_parts [OF assms(2), of audio]
  have len: "\<not> length (serializeID3v24Tag frames @ audio) < 10" using p(4) by simp
  have size: "length (frameBytes frames) < 2 ^ 28" using assms(2) by simp
  note raw = rawFrames_serialized [OF assms(1) size, where k = padding, folded shown_def]
  have map: "List.map_filter (\<lambda>(frameID, flags, s). map_option (\<lambda>p. (frameID, p)) (rawPayload 4 False flags s))
      (map (\<lambda>(frameID, payload). (frameID, 0, payload)) xs) = xs" for xs
    by (induction xs) (auto simp: List.map_filter_simps rawPayload_plain)
  have app: "applyFrames (\<lambda>(frameID, flags, s) md. case frameData 4 False flags s of None \<Rightarrow> Some md | Some d \<Rightarrow> applyFrame23 uniU uniL frameID d md)
      (map (\<lambda>(frameID, payload). (frameID, 0, payload)) xs) md = readFrames uniU uniL xs md" for xs md
    by (simp add: applyFrames_map readFrames_def case_prod_unfold frameData_plain)
  show "readMP3ID3v2Frames (serializeID3v24Tag frames @ audio) = Inr (shown frames, length (serializeID3v24Tag frames))"
    unfolding readMP3ID3v2Frames_def Let_def p tagBody_plain parseID3v2xRawFrames_def raw
    using len p(4) map by (simp add: length_serialized flag_set_def p(1) padding_def)
  show "readID3v2 uniU uniL (serializeID3v24Tag frames @ audio) = map_option Some (readFrames uniU uniL (shown frames) emptyMetadata)"
    unfolding readID3v2_def Let_def p parseFrames_def tagBody_plain parseID3v23Frames_def raw
    using len p(4) by (simp add: app flag_set_def p(1))
qed

lemma edited_ids:
  assumes "readMP3ID3v2Frames content = Inr (frames, a)"
  shows "list_all goodID (editedFrames uniU detect order edits cover frames)"
proof -
  have "list_all goodID (epAdded (planEdits detect order edits cover frames))"
    using planEdits_added [of detect order edits cover frames] by (auto simp: goodAdded_def list_all_iff goodID_def)
  then show ?thesis using read_ids [OF assms] by (auto simp: editedFrames_def Let_def list_all_iff)
qed

text \<open>Which frames the edited fields name: the frames of each field, and the description of each user text.\<close>

definition fieldFrames :: "(string \<times> string list) list" where
  "fieldFrames =
     [(''title'', [''TIT2'']), (''artist'', [''TPE1'']), (''album'', [''TALB'']), (''album_artist'', [''TPE2'']),
      (''date'', [''TDRC'', ''TYER'', ''TDAT'', ''TIME'']), (''genre'', [''TCON'']), (''label'', [''TPUB'']), (''copyright'', [''TCOP'']),
      (''composer'', [''TCOM'']), (''isrc'', [''TSRC'']), (''comment'', [''COMM'']), (''lyrics'', [''USLT'']),
      (''track_number'', [''TRCK'']), (''track_total'', [''TRCK'']), (''disc_number'', [''TPOS'']), (''disc_total'', [''TPOS'']),
      (''compilation'', [''TCMP''])]"

definition fieldDescriptions :: "(string \<times> string) list" where
  "fieldDescriptions =
     [(''replaygain_track_gain'', ''REPLAYGAIN_TRACK_GAIN''), (''replaygain_track_peak'', ''REPLAYGAIN_TRACK_PEAK''),
      (''replaygain_album_gain'', ''REPLAYGAIN_ALBUM_GAIN''), (''replaygain_album_peak'', ''REPLAYGAIN_ALBUM_PEAK''),
      (''explicit'', ''ITUNESADVISORY''), (''album_type'', ''RELEASETYPE''), (''upc'', ''BARCODE'')]"

definition newCover :: "edit_fields \<Rightarrow> string option \<Rightarrow> bool" where
  "newCover edits cover \<longleftrightarrow> trim_space (fieldText edits ''cover_path'') \<noteq> '''' \<and> (\<exists>c. cover = Some c \<and> c \<noteq> '''')"

definition editNames :: "(string \<Rightarrow> string) \<Rightarrow> edit_fields \<Rightarrow> string option \<Rightarrow> string \<times> string \<Rightarrow> bool" where
  "editNames uniU edits cover = (\<lambda>(frameID, payload).
     (\<exists>(k, ids) \<in> set fieldFrames. map_of edits k \<noteq> None \<and> frameID \<in> set ids)
     \<or> frameID = ''TXXX'' \<and> (\<exists>(k, desc) \<in> set fieldDescriptions. map_of edits k \<noteq> None
          \<and> to_upper uniU (trim_space (fst (extractUserTextFrame payload))) = desc)
     \<or> frameID = ''APIC'' \<and> newCover edits cover)"

lemma dropped_parts:
  "epDrop noEdit = []" "epDrop (joinEdits ps) = concat (map epDrop ps)" "epDrop (setOrClear i v as) = i # as"
  "epDrop (editLang edits k i) = (if map_of edits k = None then [] else [i])"
  "epDrop (editIndex edits frames a b i) = (if map_of edits a = None \<and> map_of edits b = None then [] else [i])"
  "epDrop (editUser edits u) = []"
  "epDrop (editSimple edits (k, i, as)) = (if map_of edits k = None then [] else i # as)"
  "epDrop (case map_of edits k of None \<Rightarrow> noEdit | Some v \<Rightarrow> setOrClear i v as) = (if map_of edits k = None then [] else i # as)"
  "epDrop (editCover detect edits cover) =
     (if newCover edits cover then [''APIC''] else [])"
  by (auto simp: noEdit_def joinEdits_def setOrClear_def editLang_def editIndex_def editUser_def editSimple_def editCover_def
      newCover_def blank_def Let_def split: option.splits prod.splits)

lemma descs_parts:
  "epDescs noEdit = []" "epDescs (joinEdits ps) = concat (map epDescs ps)" "epDescs (setOrClear i v as) = []"
  "epDescs (editLang edits k i) = []" "epDescs (editIndex edits frames a b i) = []"
  "epDescs (editUser edits (k, d)) = (if map_of edits k = None then [] else [d])"
  "epDescs (editSimple edits (k, i, as)) = []"
  "epDescs (case map_of edits k of None \<Rightarrow> noEdit | Some v \<Rightarrow> setOrClear i v as) = []"
  "epDescs (editCover detect edits cover) = []"
  by (auto simp: noEdit_def joinEdits_def setOrClear_def editLang_def editIndex_def editUser_def editSimple_def editCover_def
      Let_def split: option.splits prod.splits)

lemma plan_drops:
  "set (epDrop (planEdits detect order edits cover frames)) =
     (\<Union>(k, ids) \<in> set fieldFrames. if map_of edits k = None then {} else set ids)
     \<union> (if newCover edits cover then {''APIC''} else {})"
proof -
  define D where "D = (\<lambda>k ids. if map_of edits k = None then {} else set (ids :: string list))"
  have D: "D k ids = (if map_of edits k = None then {} else set ids)" for k ids by (simp add: D_def)
  have drops: "set (epDrop (editSimple edits (k, i, as))) = D k (i # as)" "set (epDrop (editLang edits k i)) = D k [i]"
    "set (epDrop (editIndex edits frames a b i)) = D a [i] \<union> D b [i]"
    "set (epDrop (case map_of edits k of None \<Rightarrow> noEdit | Some v \<Rightarrow> setOrClear i v as)) = D k (i # as)" for k i as a b
    by (simp_all add: dropped_parts D)
  have users: "concat (map epDrop (map (editUser edits) us)) = []" for us by (simp add: dropped_parts)
  have "set (epDrop (planEdits detect order edits cover frames)) =
      set (concat (map (epDrop \<circ> editSimple edits) simpleKeys))
      \<union> set (epDrop (editLang edits ''comment'' ''COMM'')) \<union> set (epDrop (editLang edits ''lyrics'' ''USLT''))
      \<union> set (epDrop (editIndex edits frames ''track_number'' ''track_total'' ''TRCK''))
      \<union> set (epDrop (editIndex edits frames ''disc_number'' ''disc_total'' ''TPOS''))
      \<union> set (epDrop (case map_of edits ''compilation'' of None \<Rightarrow> noEdit | Some v \<Rightarrow> setOrClear ''TCMP'' v []))
      \<union> set (epDrop (editCover detect edits cover))"
    using users [of replayGainKeys] users [of order] by (simp add: planEdits_def dropped_parts(2) Un_assoc)
  also have "\<dots> = (\<Union>(k, ids) \<in> set fieldFrames. D k ids) \<union> set (epDrop (editCover detect edits cover))"
    unfolding drops simpleKeys_def fieldFrames_def by (simp add: drops Un_ac)
  finally show ?thesis unfolding D [symmetric] by (simp add: dropped_parts)
qed

lemma plan_descs:
  assumes "set order = set txxxDescriptions"
  shows "set (epDescs (planEdits detect order edits cover frames)) =
    (\<Union>(k, desc) \<in> set fieldDescriptions. if map_of edits k = None then {} else {desc})"
proof -
  have simple: "concat (map (epDescs \<circ> editSimple edits) ks) = []" for ks by (auto simp: descs_parts)
  have users: "set (concat (map (epDescs \<circ> editUser edits) us)) = (\<Union>(k, desc) \<in> set us. if map_of edits k = None then {} else {desc})" for us
  proof (induction us)
    case (Cons u us)
    then show ?case by (cases u) (simp add: descs_parts)
  qed simp
  have "set (epDescs (planEdits detect order edits cover frames)) =
      set (concat (map (epDescs \<circ> editUser edits) replayGainKeys)) \<union> set (concat (map (epDescs \<circ> editUser edits) order))"
    using simple [of simpleKeys] by (simp add: planEdits_def descs_parts)
  also have "\<dots> = (\<Union>(k, desc) \<in> set (replayGainKeys @ txxxDescriptions). if map_of edits k = None then {} else {desc})"
    unfolding users assms set_append by blast
  also have "replayGainKeys @ txxxDescriptions = fieldDescriptions"
    by (simp add: replayGainKeys_def txxxDescriptions_def fieldDescriptions_def)
  finally show ?thesis .
qed

lemma survives_iff:
  assumes "set order = set txxxDescriptions"
  shows "survives uniU (planEdits detect order edits cover frames) f \<longleftrightarrow> \<not> editNames uniU edits cover f"
proof -
  obtain i p where f: "f = (i, p)" by (cases f)
  have some_frames: "i \<in> (\<Union>(k, ids) \<in> A. if map_of edits k = None then {} else set ids) \<longleftrightarrow>
      (\<exists>(k, ids) \<in> A. map_of edits k \<noteq> None \<and> i \<in> set ids)" for A :: "(string \<times> string list) set"
    unfolding UN_iff by (rule bex_cong [OF refl]) (auto split: prod.splits)
  have some_descs: "d \<in> (\<Union>(k, desc) \<in> A. if map_of edits k = None then {} else {desc}) \<longleftrightarrow>
      (\<exists>(k, desc) \<in> A. map_of edits k \<noteq> None \<and> d = desc)" for d and A :: "(string \<times> string) set"
    unfolding UN_iff by (rule bex_cong [OF refl]) (auto split: prod.splits)
  have drops: "i \<in> set (epDrop (planEdits detect order edits cover frames)) \<longleftrightarrow>
      (\<exists>(k, ids) \<in> set fieldFrames. map_of edits k \<noteq> None \<and> i \<in> set ids)
      \<or> i = ''APIC'' \<and> newCover edits cover"
    unfolding plan_drops Un_iff some_frames
    by (cases "newCover edits cover") simp_all
  have descs: "d \<in> set (epDescs (planEdits detect order edits cover frames)) \<longleftrightarrow>
      (\<exists>(k, desc) \<in> set fieldDescriptions. map_of edits k \<noteq> None \<and> d = desc)" for d
    unfolding plan_descs [OF assms] some_descs ..
  have ne: "epDescs (planEdits detect order edits cover frames) \<noteq> []"
    if "d \<in> set (epDescs (planEdits detect order edits cover frames))" for d using that by auto
  show ?thesis unfolding survives_def editNames_def f prod.case
    using drops descs [of "to_upper uniU (trim_space (fst (extractUserTextFrame p)))"] ne by blast
qed

lemma survives_eq:
  "set order = set txxxDescriptions \<Longrightarrow>
    survives uniU (planEdits detect order edits cover frames) = (\<lambda>f. \<not> editNames uniU edits cover f)"
  by (rule ext) (rule survives_iff)

text \<open>What the edits add for the fields that are one text each.\<close>

definition fieldTexts :: "(string \<times> string) list" where
  "fieldTexts =
     [(''title'', ''TIT2''), (''artist'', ''TPE1''), (''album'', ''TALB''), (''album_artist'', ''TPE2''), (''date'', ''TDRC''),
      (''genre'', ''TCON''), (''label'', ''TPUB''), (''copyright'', ''TCOP''), (''composer'', ''TCOM''), (''isrc'', ''TSRC'')]"

lemma fieldTexts_keys: "fieldTexts = map (\<lambda>(k, i, _). (k, i)) simpleKeys"
  by (simp add: fieldTexts_def simpleKeys_def)

lemma plan_adds:
  assumes "(k, i, as) \<in> set simpleKeys" "map_of edits k = Some v" "trim_space v \<noteq> ''''"
  shows "(i, id3TextPayload v) \<in> set (epAdded (planEdits detect order edits cover frames))"
proof -
  have "(i, id3TextPayload v) \<in> set (epAdded (editSimple edits (k, i, as)))"
    using assms(2,3) by (simp add: editSimple_def setOrClear_def blank_def)
  then have "(i, id3TextPayload v) \<in> set (concat (map epAdded (map (editSimple edits) simpleKeys)))" using assms(1) by fastforce
  then show ?thesis by (simp add: planEdits_def joinEdits_def)
qed

text \<open> C19: editing an MP3 file keeps its audio byte for byte, and exactly the frames stay, in their
  order, that the edits do not name: a frame goes when an edited field is kept in frames of its
  kind, a user text when its description is that of an edited field, the picture when there is a new
  cover. What the edits add comes after them, with a text frame for each field set to
  a text that is not blank. The next reading finds these frames, up to the first
  with no content: such a frame, which a reader of other tags leaves when it strips a grouping byte
  or a length from a frame that has nothing else, hides all that follow, the edited ones included. \<close>

theorem mp3_edit_exact:
  assumes "readMP3ID3v2Frames content = Inr (frames, audioStart)" "set order = set txxxDescriptions"
    "length (frameBytes (editedFrames uniU detect order edits cover frames)) + 512 < 2 ^ 28"
  shows "\<exists>content' added. EditMP3Fields uniU detect order edits cover content = Inr content'
    \<and> added = epAdded (planEdits detect order edits cover frames)
    \<and> readMP3ID3v2Frames content' = Inr (takeWhile (\<lambda>(_, p). p \<noteq> '''') (filter (\<lambda>f. \<not> editNames uniU edits cover f) frames @ added),
          length content' - length (drop audioStart content))
    \<and> drop (length content' - length (drop audioStart content)) content' = drop audioStart content
    \<and> (\<forall>(k, i) \<in> set fieldTexts.
        \<forall>v. map_of edits k = Some v \<and> trim_space v \<noteq> '''' \<longrightarrow> (i, id3TextPayload v) \<in> set added)"
proof -
  let ?plan = "planEdits detect order edits cover frames" and ?new = "editedFrames uniU detect order edits cover frames"
  have size: "length (frameBytes ?new) + padding < 2 ^ 28" using assms(3) by (simp only: padding_def)
  have e: "EditMP3Fields uniU detect order edits cover content = Inr (serializeID3v24Tag ?new @ drop audioStart content)"
    by (simp add: EditMP3Fields_def assms(1))
  have len: "length (serializeID3v24Tag ?new @ tail) - length tail = length (serializeID3v24Tag ?new)" for tail by simp
  note r = read_serialized(1) [OF edited_ids [OF assms(1)] size, of "drop audioStart content"]
  have new: "?new = filter (\<lambda>f. \<not> editNames uniU edits cover f) frames @ epAdded ?plan"
    by (simp only: editedFrames_def Let_def survives_eq [OF assms(2)])
  have added: "(i, id3TextPayload v) \<in> set (epAdded ?plan)"
    if "(k, i, as) \<in> set simpleKeys" "map_of edits k = Some v" "trim_space v \<noteq> ''''" for k i as v by (rule plan_adds [OF that])
  show ?thesis
  proof (rule exI [of _ "serializeID3v24Tag ?new @ drop audioStart content"], rule exI [of _ "epAdded ?plan"], intro conjI)
    show "EditMP3Fields uniU detect order edits cover content = Inr (serializeID3v24Tag ?new @ drop audioStart content)" by (rule e)
    show "readMP3ID3v2Frames (serializeID3v24Tag ?new @ drop audioStart content)
      = Inr (takeWhile (\<lambda>(_, p). p \<noteq> '''') (filter (\<lambda>f. \<not> editNames uniU edits cover f) frames @ epAdded ?plan),
          length (serializeID3v24Tag ?new @ drop audioStart content) - length (drop audioStart content))"
      unfolding len r shown_def by (simp only: new)
    show "drop (length (serializeID3v24Tag ?new @ drop audioStart content) - length (drop audioStart content))
        (serializeID3v24Tag ?new @ drop audioStart content) = drop audioStart content"
      unfolding len by (simp only: drop_append diff_self_eq_0 drop_0 drop_all order_refl append_Nil)
    show "\<forall>(k, i) \<in> set fieldTexts.
        \<forall>v. map_of edits k = Some v \<and> trim_space v \<noteq> '''' \<longrightarrow> (i, id3TextPayload v) \<in> set (epAdded ?plan)"
      using added by (auto simp: fieldTexts_keys)
  qed (rule refl)
qed

lemma userText_keeps:
  "amLyrics md \<noteq> '''' \<Longrightarrow> amLyrics (userText23 uniU uniL d v md) = amLyrics md" "amTitle (userText23 uniU uniL d v md) = amTitle md"
  by (simp_all add: userText23_def Let_def)

lemma setLyrics_keeps: "amLyrics md \<noteq> '''' \<Longrightarrow> setLyrics v md = md" "amTitle (setLyrics v md) = amTitle md"
  by (simp_all add: setLyrics_def)

text \<open>What holds of whatever a frame leaves, branch by branch.\<close>

definition whenSome :: "('a \<Rightarrow> bool) \<Rightarrow> 'a option \<Rightarrow> bool" where
  "whenSome P x \<longleftrightarrow> (case x of None \<Rightarrow> True | Some y \<Rightarrow> P y)"

lemma whenSome_simps:
  "whenSome P None" "whenSome P (Some y) = P y" "whenSome P (if b then x else x') = (if b then whenSome P x else whenSome P x')"
  "whenSome P (map_option f z) = whenSome (\<lambda>y. P (f y)) z" "whenSome (\<lambda>y. True) z"
  by (simp_all add: whenSome_def split: option.splits)

lemma applyFrame_keeps:
  assumes "applyFrame23 uniU uniL i p md = Some md'"
  shows "amLyrics md \<noteq> '''' \<Longrightarrow> amLyrics md' = amLyrics md" "i \<noteq> ''TIT2'' \<Longrightarrow> amTitle md' = amTitle md"
proof -
  show "amLyrics md' = amLyrics md" if "amLyrics md \<noteq> ''''"
  proof -
    have "whenSome (\<lambda>m. amLyrics m = amLyrics md) (applyFrame23 uniU uniL i p md)"
      unfolding applyFrame23_def Let_def using that by (simp add: whenSome_simps userText_keeps setLyrics_keeps case_prod_unfold)
    then show ?thesis by (simp add: assms whenSome_def)
  qed
  show "amTitle md' = amTitle md" if "i \<noteq> ''TIT2''"
  proof -
    have "whenSome (\<lambda>m. amTitle m = amTitle md) (applyFrame23 uniU uniL i p md)"
      unfolding applyFrame23_def Let_def using that by (simp add: whenSome_simps userText_keeps setLyrics_keeps case_prod_unfold)
    then show ?thesis by (simp add: assms whenSome_def)
  qed
qed

lemma readFrames_keeps:
  assumes "readFrames uniU uniL xs md = Some md'"
  shows "amLyrics md \<noteq> '''' \<longrightarrow> amLyrics md' = amLyrics md" "(\<forall>(i, p) \<in> set xs. i \<noteq> ''TIT2'') \<longrightarrow> amTitle md' = amTitle md"
  using assms
proof (induction xs arbitrary: md)
  case (Cons x xs)
  obtain i p where x: "x = (i, p)" by (cases x)
  have c: "readFrames uniU uniL (x # xs) md = (case applyFrame23 uniU uniL i p md of None \<Rightarrow> None | Some m \<Rightarrow> readFrames uniU uniL xs m)" for md
    by (simp add: readFrames_def x split: option.splits)
  {
    case 1
    then obtain m where m: "applyFrame23 uniU uniL i p md = Some m" "readFrames uniU uniL xs m = Some md'" by (auto simp: c split: option.splits)
    show ?case using applyFrame_keeps(1) [OF m(1)] Cons.IH(1) [OF m(2)] by (cases "amLyrics md = ''''") auto
  next
    case 2
    then obtain m where m: "applyFrame23 uniU uniL i p md = Some m" "readFrames uniU uniL xs m = Some md'" by (auto simp: c split: option.splits)
    show ?case using applyFrame_keeps(2) [OF m(1)] Cons.IH(2) [OF m(2)] by (auto simp: x)
  }
qed (simp_all add: readFrames_def)

definition untitled :: "edit_plan \<Rightarrow> bool" where
  "untitled plan \<longleftrightarrow> ''TIT2'' \<notin> set (map fst (epAdded plan))"

lemma untitled_parts:
  "untitled noEdit" "untitled (joinEdits ps) = list_all untitled ps" "blank v \<or> i \<noteq> ''TIT2'' \<Longrightarrow> untitled (setOrClear i v as)"
  "i \<noteq> ''TIT2'' \<Longrightarrow> untitled (editLang edits k i)" "i \<noteq> ''TIT2'' \<Longrightarrow> untitled (editIndex edits frames a b i)"
  "untitled (editUser edits u)" "untitled (editCover detect edits c)"
  by (auto simp: untitled_def noEdit_def joinEdits_def setOrClear_def editLang_def editIndex_def editUser_def editCover_def
      Let_def list_all_iff split: option.splits prod.splits)

lemma added_titles:
  assumes "map_of edits ''title'' = Some v" "blank v"
  shows "''TIT2'' \<in> set (epDrop (planEdits detect order edits cover frames))" "untitled (planEdits detect order edits cover frames)"
proof -
  show "''TIT2'' \<in> set (epDrop (planEdits detect order edits cover frames))"
    using assms(1) by (simp add: planEdits_def joinEdits_def simpleKeys_def editSimple_def setOrClear_def)
  have "untitled (editSimple edits k)" if "k \<in> set simpleKeys" for k
    using that assms by (auto simp: simpleKeys_def editSimple_def untitled_parts split: option.splits)
  then show "untitled (planEdits detect order edits cover frames)"
    by (auto simp: planEdits_def untitled_parts list_all_iff split: option.splits)
qed

lemma same_tail: "drop a xs = drop b ys \<Longrightarrow> n \<le> length (drop a xs) \<Longrightarrow> drop (length xs - n) xs = drop (length ys - n) ys"
proof -
  assume d: "drop a xs = drop b ys" and n: "n \<le> length (drop a xs)"
  have last_part: "drop (length zs - n) zs = drop (length (drop k zs) - n) (drop k zs)" if "n \<le> length (drop k zs)" for zs :: "'a list" and k
    using that by (cases "k \<le> length zs") simp_all
  have "drop (length xs - n) xs = drop (length (drop a xs) - n) (drop a xs)" by (rule last_part [OF n])
  moreover have "drop (length ys - n) ys = drop (length (drop b ys) - n) (drop b ys)" by (rule last_part) (use n d in simp)
  ultimately show ?thesis by (simp only: d)
qed

lemma readID3v1_tail:
  assumes "drop a xs = drop b ys" "128 \<le> length (drop a xs)"
  shows "readID3v1 xs = readID3v1 ys"
proof -
  have "length xs - a = length ys - b" using arg_cong [OF assms(1), of length] by simp
  then have l: "128 \<le> length xs" "128 \<le> length ys" using assms(2) by simp_all
  show ?thesis unfolding readID3v1_def using l by (simp add: same_tail [OF assms])
qed

text \<open> C39: a text is read back as it was edited only if the rest of the file agrees. When the
  frames that stay give lyrics, from a user text of another tagger say, the edited lyrics come
  after them and are not read; and when the title is cleared, a file with a tag of version 1 at
  its end shows the title of that tag instead of none. \<close>

theorem mp3_edit_shadowed:
  assumes "readMP3ID3v2Frames content = Inr (frames, audioStart)" "\<forall>f \<in> set frames. snd f \<noteq> ''''"
    "length (frameBytes (editedFrames uniU detect order edits cover frames)) + 512 < 2 ^ 28"
    "EditMP3Fields uniU detect order edits cover content = Inr content'"
    "readFrames uniU uniL (filter (survives uniU (planEdits detect order edits cover frames)) frames) emptyMetadata = Some old"
    "readID3v2 uniU uniL content' = Some (Some md)"
  shows "(amLyrics old \<noteq> '''' \<longrightarrow> amLyrics md = amLyrics old)
    \<and> (map_of edits ''title'' = Some v \<longrightarrow> blank v \<longrightarrow> 128 \<le> length (drop audioStart content) \<longrightarrow> readID3v1 content = Some v1 \<longrightarrow>
        amTitle v1 \<noteq> '''' \<longrightarrow> (\<exists>md'. ReadID3Tags uniU uniL content' = Some (Some md') \<and> amTitle md' = amTitle v1))"
proof -
  let ?plan = "planEdits detect order edits cover frames" and ?new = "editedFrames uniU detect order edits cover frames"
  let ?tail = "drop audioStart content"
  have size: "length (frameBytes ?new) + padding < 2 ^ 28" using assms(3) by (simp only: padding_def)
  have c: "content' = serializeID3v24Tag ?new @ ?tail" using assms(1,4) by (simp add: EditMP3Fields_def)
  have new: "?new = filter (survives uniU ?plan) frames @ epAdded ?plan" by (simp add: editedFrames_def Let_def)
  have "\<forall>f \<in> set ?new. snd f \<noteq> ''''"
    using assms(2) planEdits_added [of detect order edits cover frames] by (auto simp: new goodAdded_def list_all_iff)
  then have all: "shown ?new = ?new" by (auto simp: shown_def takeWhile_eq_all_conv)
  have rd: "readFrames uniU uniL ?new emptyMetadata = Some md"
    using read_serialized(2) [OF edited_ids [OF assms(1)] size, of uniU uniL ?tail] assms(6) by (simp add: c all)
  then have added: "readFrames uniU uniL (epAdded ?plan) old = Some md" using assms(5) by (simp add: new readFrames_append)
  have v1: "readID3v1 content' = readID3v1 content" if "128 \<le> length ?tail"
    by (rule readID3v1_tail [of "length (serializeID3v24Tag ?new)" _ audioStart]) (use that in \<open>simp_all add: c\<close>)
  have title: "amTitle md = ''''" if "map_of edits ''title'' = Some v" "blank v"
  proof -
    have "untitled ?plan" "''TIT2'' \<in> set (epDrop ?plan)" by (rule added_titles [OF that])+
    then have "i \<noteq> ''TIT2''" if "(i, p) \<in> set ?new" for i p
      using that unfolding new by (force simp: survives_def untitled_def)
    then have "\<forall>(i, p) \<in> set ?new. i \<noteq> ''TIT2''" by blast
    then show ?thesis using readFrames_keeps(2) [OF rd] by (simp add: emptyMetadata_def)
  qed
  show ?thesis
    using readFrames_keeps(1) [OF added] title v1 assms(6)
    by (auto simp: ReadID3Tags_def Let_def orOld_def)
qed

definition exampleFrames :: "(string \<times> string) list" where
  "exampleFrames = [(''PRIV'', ''x''), (''TXXX'', id3TXXXPayload ''lyrics'' ''la'')]"

definition exampleMP3 :: string where
  "exampleMP3 = serializeID3v24Tag exampleFrames @ ''TAGOld'' @ replicate 122 NUL"

definition exampleEdits :: edit_fields where
  "exampleEdits = [(''title'', ''''), (''lyrics'', ''new'')]"

lemma example_edited:
  "editedFrames id id txxxDescriptions exampleEdits None exampleFrames = exampleFrames @ [(''USLT'', id3LangTextPayload ''new'')]"
  by code_simp

lemma example_sizes:
  "length (frameBytes exampleFrames) + padding < 2 ^ 28"
  "length (frameBytes (editedFrames id id txxxDescriptions exampleEdits None exampleFrames)) + 512 < 2 ^ 28"
proof -
  have "length (frameBytes exampleFrames) + padding < 1000"
    by (simp add: exampleFrames_def frameBytes_def writeFrame_def id3TXXXPayload_def padding_def)
  then show "length (frameBytes exampleFrames) + padding < 2 ^ 28" by (rule less_trans) simp
  have "length (frameBytes (exampleFrames @ [(''USLT'', id3LangTextPayload ''new'')])) + 512 < 1000"
    by (simp add: exampleFrames_def frameBytes_def writeFrame_def id3TXXXPayload_def id3LangTextPayload_def)
  then show "length (frameBytes (editedFrames id id txxxDescriptions exampleEdits None exampleFrames)) + 512 < 2 ^ 28"
    unfolding example_edited by (rule less_trans) simp
qed

lemma example_read:
  "readMP3ID3v2Frames exampleMP3 = Inr (exampleFrames, length (serializeID3v24Tag exampleFrames))"
proof -
  have "list_all goodID exampleFrames" "shown exampleFrames = exampleFrames" by code_simp+
  with read_serialized(1) [OF this(1) example_sizes(1)] show ?thesis by (simp add: exampleMP3_def)
qed

lemma mp3_edit_exact_witness:
  "\<exists>content' a. EditMP3Fields id id txxxDescriptions exampleEdits None exampleMP3 = Inr content'
     \<and> readMP3ID3v2Frames content' = Inr (exampleFrames @ [(''USLT'', id3LangTextPayload ''new'')], a)
     \<and> drop a content' = ''TAGOld'' @ replicate 122 NUL"
proof -
  let ?plan = "planEdits id txxxDescriptions exampleEdits None exampleFrames"
  have d: "drop (length (serializeID3v24Tag exampleFrames)) exampleMP3 = ''TAGOld'' @ replicate 122 NUL" by (simp add: exampleMP3_def)
  have e: "filter (\<lambda>f. \<not> editNames id exampleEdits None f) exampleFrames @ epAdded ?plan = exampleFrames @ [(''USLT'', id3LangTextPayload ''new'')]"
    using example_edited by (simp only: editedFrames_def Let_def survives_eq [OF refl])
  have t: "takeWhile (\<lambda>(_, p). p \<noteq> '''') (exampleFrames @ [(''USLT'', id3LangTextPayload ''new'')])
      = exampleFrames @ [(''USLT'', id3LangTextPayload ''new'')]" by code_simp
  from mp3_edit_exact [OF example_read refl example_sizes(2)]
  obtain content' where "EditMP3Fields id id txxxDescriptions exampleEdits None exampleMP3 = Inr content'"
    "readMP3ID3v2Frames content' = Inr (exampleFrames @ [(''USLT'', id3LangTextPayload ''new'')],
       length content' - length (''TAGOld'' @ replicate 122 NUL))"
    "drop (length content' - length (''TAGOld'' @ replicate 122 NUL)) content' = ''TAGOld'' @ replicate 122 NUL"
    unfolding d by (auto simp only: e t)
  then show ?thesis by blast
qed

lemma mp3_edit_shadowed_witness:
  "\<exists>content' md. EditMP3Fields id id txxxDescriptions exampleEdits None exampleMP3 = Inr content'
     \<and> ReadID3Tags id id content' = Some (Some md) \<and> amTitle md = ''Old'' \<and> amLyrics md = ''la''"
proof -
  let ?new = "editedFrames id id txxxDescriptions exampleEdits None exampleFrames"
  let ?plan = "planEdits id txxxDescriptions exampleEdits None exampleFrames"
  let ?audio = "''TAGOld'' @ replicate 122 NUL"
  let ?content' = "serializeID3v24Tag ?new @ ?audio"
  have d: "drop (length (serializeID3v24Tag exampleFrames)) exampleMP3 = ?audio" by (simp add: exampleMP3_def)
  have e: "EditMP3Fields id id txxxDescriptions exampleEdits None exampleMP3 = Inr ?content'"
    by (simp add: EditMP3Fields_def example_read d)
  have ne: "\<forall>f \<in> set exampleFrames. snd f \<noteq> ''''" by code_simp
  obtain old where o: "readFrames id id (filter (survives id ?plan) exampleFrames) emptyMetadata = Some old" "amLyrics old = ''la''"
  proof -
    have "(case readFrames id id (filter (survives id ?plan) exampleFrames) emptyMetadata of None \<Rightarrow> False | Some m \<Rightarrow> amLyrics m = ''la'')"
      by code_simp
    then show ?thesis using that by (auto split: option.splits)
  qed
  obtain md where md: "readFrames id id (shown ?new) emptyMetadata = Some md" "amArtist md = ''''"
  proof -
    have "(case readFrames id id (shown ?new) emptyMetadata of None \<Rightarrow> False | Some m \<Rightarrow> amArtist m = '''')" by code_simp
    then show ?thesis using that by (auto split: option.splits)
  qed
  have good: "list_all goodID ?new" by (rule edited_ids [OF example_read])
  have r: "readID3v2 id id ?content' = Some (Some md)"
    using read_serialized(2) [OF good example_sizes(2) [folded padding_def], of id id ?audio] md(1) by simp
  have v1: "readID3v1 ?audio = Some (emptyMetadata\<lparr>amTitle := ''Old'', amGenre := ''Blues''\<rparr>)" by code_simp
  have "readID3v1 exampleMP3 = readID3v1 ?audio"
    by (rule readID3v1_tail [of "length (serializeID3v24Tag exampleFrames)" _ 0]) (simp_all add: exampleMP3_def)
  with v1 have v1: "readID3v1 exampleMP3 = Some (emptyMetadata\<lparr>amTitle := ''Old'', amGenre := ''Blues''\<rparr>)" by simp
  have b: "blank ''''" "map_of exampleEdits ''title'' = Some ''''" by code_simp+
  have l: "128 \<le> length (drop (length (serializeID3v24Tag exampleFrames)) exampleMP3)" by (simp add: d)
  note sh = mp3_edit_shadowed [OF example_read ne example_sizes(2) e o(1) r]
  have ly: "amLyrics md = ''la''" using sh o(2) by simp
  from sh b l v1 obtain md' where m': "ReadID3Tags id id ?content' = Some (Some md')" "amTitle md' = ''Old''" by fastforce
  have "amLyrics md' = amLyrics md" using m'(1) r by (auto simp: ReadID3Tags_def Let_def split: option.splits if_splits)
  with e m' ly show ?thesis by auto
qed

end
