(* ===== verification/Riff.thy ===== *)
theory Riff
  imports Mp3Edit Paths
begin

text \<open>
  WAV and AIFF files (\<open>go_backend/wav_aiff.go\<close>): the walk over the chunks of a file for its
  properties and tags, the rewriting of its tag chunk, and the editing of its tags. A file is
  its bytes; the sample rate that an AIFF file holds as an 80-bit float is read by the parameter
  \<open>rate\<close>. \<open>None\<close> is a panic of the tag reader.
\<close>

section \<open>Chunks\<close>

definition wavMaxMetaChunk :: nat where "wavMaxMetaChunk = 16 * 1024 * 1024"

definition putUint32 :: "bool \<Rightarrow> nat \<Rightarrow> string" where
  "putUint32 le v = (if le then put_u32 (v mod 2 ^ 32) else rev (put_u32 (v mod 2 ^ 32)))"

definition readUint32 :: "string \<Rightarrow> bool \<Rightarrow> nat" where
  "readUint32 b le = (if le then le_value (take 4 b) else le_value (rev (take 4 b)))"

definition chunkSize :: "bool \<Rightarrow> string \<Rightarrow> nat" where
  "chunkSize le s = readUint32 (drop 4 s) le"

definition padded :: "nat \<Rightarrow> nat" where
  "padded n = n + n mod 2"

record wav_probe =
  wpSampleRate :: nat
  wpBitDepth :: nat
  wpChannels :: nat
  wpByteRate :: nat
  wpDataSize :: nat
  wpID3 :: string
  wpInfo :: "(string, string) gomap"

definition noWav :: wav_probe where
  "noWav = \<lparr>wpSampleRate = 0, wpBitDepth = 0, wpChannels = 0, wpByteRate = 0, wpDataSize = 0, wpID3 = '''', wpInfo = []\<rparr>"

definition u16_at :: "nat \<Rightarrow> string \<Rightarrow> nat" where
  "u16_at pos s = le_value (take 2 (drop pos s))"

definition probeFmt :: "string \<Rightarrow> wav_probe \<Rightarrow> wav_probe" where
  "probeFmt buf p =
     (if length buf < 16 then p
      else
        let valid = u16_at 18 buf
        in p\<lparr>wpChannels := u16_at 2 buf, wpSampleRate := u32_at 4 buf, wpByteRate := u32_at 8 buf,
             wpBitDepth := (if u16_at 0 buf = 65534 \<and> length buf \<ge> 26 \<and> valid > 0 then valid else u16_at 14 buf)\<rparr>)"

text \<open>\<open>strings.TrimRight\<close> with a NUL is \<open>trimNuls\<close>.\<close>

function riffInfoItems :: "string \<Rightarrow> (string \<times> string) list" where
  "riffInfoItems s =
     (if length s < 8 then []
      else
        let n = le_value (take 4 (drop 4 s))
        in if n = 0 \<or> 8 + n > length s then []
           else (take 4 s, trim_space (trimNuls (take n (drop 8 s)))) # riffInfoItems (drop (8 + padded n) s))"
  by pat_completeness auto
termination by (relation "measure length") (auto simp: padded_def)

declare riffInfoItems.simps [simp del]

definition parseRIFFInfo :: "string \<Rightarrow> (string, string) gomap \<Rightarrow> (string, string) gomap" where
  "parseRIFFInfo buf info =
     (if length buf < 4 \<or> take 4 buf \<noteq> ''INFO'' then info
      else fold (\<lambda>(k, v) m. put k v m) (riffInfoItems (drop 4 buf)) info)"

text \<open>One chunk: its identifier, its size, and as much of its content as the file has.\<close>

definition probeWAVChunk :: "string \<Rightarrow> nat \<Rightarrow> string \<Rightarrow> wav_probe \<Rightarrow> wav_probe" where
  "probeWAVChunk chunk n buf p =
     (let whole = (length buf = n)
      in if chunk = ''fmt '' then (if whole then probeFmt buf p else p)
         else if chunk = ''data'' then p\<lparr>wpDataSize := n\<rparr>
         else if chunk = ''id3 '' \<or> chunk = ''ID3 '' then
           (if 0 < n \<and> n \<le> wavMaxMetaChunk \<and> whole then p\<lparr>wpID3 := buf\<rparr> else p)
         else if chunk = ''LIST'' then
           (if 0 < n \<and> n \<le> wavMaxMetaChunk \<and> whole then p\<lparr>wpInfo := parseRIFFInfo buf (wpInfo p)\<rparr> else p)
         else p)"

function probeChunks :: "bool \<Rightarrow> (string \<Rightarrow> nat \<Rightarrow> string \<Rightarrow> 'p \<Rightarrow> 'p) \<Rightarrow> string \<Rightarrow> 'p \<Rightarrow> 'p" where
  "probeChunks le f s p =
     (if length s < 8 then p
      else
        let n = chunkSize le s
        in probeChunks le f (drop (8 + padded n) s) (f (take 4 s) n (take n (drop 8 s)) p))"
  by pat_completeness auto
termination by (relation "measure (\<lambda>(_, _, s, _). length s)") auto

declare probeChunks.simps [simp del]

definition streamProbeWAV :: "string \<Rightarrow> wav_probe option" where
  "streamProbeWAV content =
     (if length content < 12 \<or> take 4 content \<noteq> ''RIFF'' \<or> take 4 (drop 8 content) \<noteq> ''WAVE'' then None
      else Some (probeChunks True probeWAVChunk (drop 12 content) noWav))"

record aiff_probe =
  apSampleRate :: int
  apBitDepth :: nat
  apChannels :: nat
  apNumFrames :: nat
  apID3 :: string
  apName :: string
  apAuth :: string
  apAnno :: string
  apCopyright :: string

definition noAiff :: aiff_probe where
  "noAiff = \<lparr>apSampleRate = 0, apBitDepth = 0, apChannels = 0, apNumFrames = 0, apID3 = '''', apName = '''', apAuth = '''',
     apAnno = '''', apCopyright = ''''\<rparr>"

definition probeAIFFChunk :: "(string \<Rightarrow> int) \<Rightarrow> string \<Rightarrow> nat \<Rightarrow> string \<Rightarrow> aiff_probe \<Rightarrow> aiff_probe" where
  "probeAIFFChunk rate chunk n buf p =
     (let whole = (length buf = n); small = (0 < n \<and> n \<le> wavMaxMetaChunk); val = trimNuls (trim_space buf)
      in if chunk = ''COMM'' then
           (if whole \<and> length buf \<ge> 18 then
              p\<lparr>apChannels := be_number (take 2 buf), apNumFrames := be_number (take 4 (drop 2 buf)),
                apBitDepth := be_number (take 2 (drop 6 buf)), apSampleRate := rate (take 10 (drop 8 buf))\<rparr>
            else p)
         else if chunk = ''ID3 '' \<or> chunk = ''id3 '' then (if small \<and> whole then p\<lparr>apID3 := buf\<rparr> else p)
         else if \<not> (small \<and> whole) then p
         else if chunk = ''NAME'' then p\<lparr>apName := val\<rparr>
         else if chunk = ''AUTH'' then p\<lparr>apAuth := val\<rparr>
         else if chunk = ''ANNO'' then p\<lparr>apAnno := val\<rparr>
         else if chunk = ''(c) '' then p\<lparr>apCopyright := val\<rparr>
         else p)"

definition streamProbeAIFF :: "(string \<Rightarrow> int) \<Rightarrow> string \<Rightarrow> aiff_probe option" where
  "streamProbeAIFF rate content =
     (if length content < 12 \<or> take 4 content \<noteq> ''FORM'' \<or> take 4 (drop 8 content) \<notin> {''AIFF'', ''AIFC''} then None
      else Some (probeChunks False (probeAIFFChunk rate) (drop 12 content) noAiff))"

section \<open>Tags and quality\<close>

definition named :: "audio_metadata \<Rightarrow> bool" where
  "named md \<longleftrightarrow> amTitle md \<noteq> '''' \<or> amArtist md \<noteq> '''' \<or> amAlbum md \<noteq> ''''"

text \<open>The metadata of an ID3 chunk, if it names the track.\<close>

definition chunkMetadata ::
  "(string \<Rightarrow> string) \<Rightarrow> (string \<Rightarrow> string) \<Rightarrow> string \<Rightarrow> audio_metadata option option" where
  "chunkMetadata uniU uniL id3 =
     (if id3 = '''' then Some None
      else
        case readID3v2FromBytes uniU uniL id3 of
          None \<Rightarrow> None
        | Some None \<Rightarrow> Some None
        | Some (Some md) \<Rightarrow> Some (if named md then Some md else None))"

definition infoMetadata :: "(string, string) gomap \<Rightarrow> audio_metadata option option" where
  "infoMetadata info =
     (if info = [] then Some None
      else
        case cleanGenre (get_or '''' info ''IGNR'') of
          None \<Rightarrow> None
        | Some genre \<Rightarrow>
            let date = get_or '''' info ''ICRD'';
                md = emptyMetadata\<lparr>amTitle := get_or '''' info ''INAM'', amArtist := get_or '''' info ''IART'',
                       amAlbum := get_or '''' info ''IPRD'', amGenre := genre, amDate := date, amComment := get_or '''' info ''ICMT'',
                       amCopyright := get_or '''' info ''ICOP'', amComposer := get_or '''' info ''IMUS'',
                       amTrackNumber := (case parseInt64 (trim_space (get_or '''' info ''ITRK'')) of None \<Rightarrow> 0 | Some n \<Rightarrow> n),
                       amYear := (if length date \<ge> 4 then take 4 date else '''')\<rparr>
            in Some (if named md then Some md else None))"

definition wavMetadataFromProbe ::
  "(string \<Rightarrow> string) \<Rightarrow> (string \<Rightarrow> string) \<Rightarrow> wav_probe \<Rightarrow> audio_metadata option option" where
  "wavMetadataFromProbe uniU uniL p =
     (case chunkMetadata uniU uniL (wpID3 p) of
        None \<Rightarrow> None
      | Some (Some md) \<Rightarrow> Some (Some md)
      | Some None \<Rightarrow> infoMetadata (wpInfo p))"

definition aiffMetadataFromProbe ::
  "(string \<Rightarrow> string) \<Rightarrow> (string \<Rightarrow> string) \<Rightarrow> aiff_probe \<Rightarrow> audio_metadata option option" where
  "aiffMetadataFromProbe uniU uniL p =
     (case chunkMetadata uniU uniL (apID3 p) of
        None \<Rightarrow> None
      | Some (Some md) \<Rightarrow> Some (Some md)
      | Some None \<Rightarrow>
          Some (if apName p \<noteq> '''' \<or> apAuth p \<noteq> ''''
                then Some (emptyMetadata\<lparr>amTitle := apName p, amArtist := apAuth p, amComment := apAnno p, amCopyright := apCopyright p\<rparr>)
                else None))"

text \<open>Reading the tags of a file: the inner \<open>None\<close> is the error that there are none.\<close>

definition ReadWAVTags :: "(string \<Rightarrow> string) \<Rightarrow> (string \<Rightarrow> string) \<Rightarrow> string \<Rightarrow> audio_metadata option option" where
  "ReadWAVTags uniU uniL content = (case streamProbeWAV content of None \<Rightarrow> Some None | Some p \<Rightarrow> wavMetadataFromProbe uniU uniL p)"

definition ReadAIFFTags ::
  "(string \<Rightarrow> string) \<Rightarrow> (string \<Rightarrow> string) \<Rightarrow> (string \<Rightarrow> int) \<Rightarrow> string \<Rightarrow> audio_metadata option option" where
  "ReadAIFFTags uniU uniL rate content =
     (case streamProbeAIFF rate content of None \<Rightarrow> Some None | Some p \<Rightarrow> aiffMetadataFromProbe uniU uniL p)"

record wav_quality =
  wqSampleRate :: int
  wqBitDepth :: int
  wqChannels :: int
  wqDuration :: int

definition GetWAVQuality :: "string \<Rightarrow> wav_quality option" where
  "GetWAVQuality content =
     (case streamProbeWAV content of
        None \<Rightarrow> None
      | Some p \<Rightarrow>
          let size = int (wpDataSize p);
              x = wrap64 (wrap64 (int (wpSampleRate p) * int (wpChannels p)) * int (wpBitDepth p));
              bytesPerSec = (if x < 0 then 0 else x div 8);
              duration = (if wpByteRate p > 0 \<and> wpDataSize p > 0 then size div int (wpByteRate p)
                          else if wpSampleRate p > 0 \<and> wpChannels p > 0 \<and> wpBitDepth p > 0 \<and> wpDataSize p > 0 \<and> bytesPerSec > 0
                          then size div bytesPerSec else 0)
          in Some \<lparr>wqSampleRate = int (wpSampleRate p), wqBitDepth = int (wpBitDepth p), wqChannels = int (wpChannels p),
                   wqDuration = duration\<rparr>)"

definition GetAIFFQuality :: "(string \<Rightarrow> int) \<Rightarrow> string \<Rightarrow> wav_quality option" where
  "GetAIFFQuality rate content =
     (case streamProbeAIFF rate content of
        None \<Rightarrow> None
      | Some p \<Rightarrow>
          Some \<lparr>wqSampleRate = apSampleRate p, wqBitDepth = int (apBitDepth p), wqChannels = int (apChannels p),
                wqDuration = (if apSampleRate p > 0 \<and> apNumFrames p > 0 then int (apNumFrames p) div apSampleRate p else 0)\<rparr>)"

section \<open>Writing the tag chunk\<close>

text \<open>\<open>strings.EqualFold\<close> with a chunk identifier of the letters i and d: only ASCII folds to ASCII there.\<close>

definition sameChunk :: "string \<Rightarrow> string \<Rightarrow> bool" where
  "sameChunk a b \<longleftrightarrow> map ascii_lower a = map ascii_lower b"

text \<open>The chunks that stay, as they are; \<open>None\<close> when the file ends before a chunk does.\<close>

function copyChunks :: "bool \<Rightarrow> string \<Rightarrow> string \<Rightarrow> string option" where
  "copyChunks le chunkID s =
     (if length s < 8 then Some ''''
      else
        let n = 8 + padded (chunkSize le s)
        in if sameChunk (take 4 s) chunkID then copyChunks le chunkID (drop n s)
           else if length s < n then None
           else map_option (\<lambda>rest. take n s @ rest) (copyChunks le chunkID (drop n s)))"
  by pat_completeness auto
termination by (relation "measure (\<lambda>(_, _, s). length s)") auto

declare copyChunks.simps [simp del]

datatype riff_error = RiffTooShort | WrongMagic | ChunkCutOff | NoCoverFile | EmptyCover

definition newChunk :: "bool \<Rightarrow> string \<Rightarrow> string \<Rightarrow> string" where
  "newChunk le chunkID id3 = chunkID @ putUint32 le (length id3) @ id3 @ (if odd (length id3) then [NUL] else [])"

definition writeID3Chunk :: "string \<Rightarrow> string \<Rightarrow> bool \<Rightarrow> string \<Rightarrow> string \<Rightarrow> riff_error + string" where
  "writeID3Chunk expectMagic chunkID le id3 content =
     (if length content < 12 then Inl RiffTooShort
      else if take 4 content \<noteq> expectMagic then Inl WrongMagic
      else
        case copyChunks le chunkID (drop 12 content) of
          None \<Rightarrow> Inl ChunkCutOff
        | Some copied \<Rightarrow>
            let body = take 4 (drop 8 content) @ copied @ newChunk le chunkID id3
            in Inr (take 4 content @ putUint32 le (length body) @ body))"

section \<open>Editing\<close>

definition coverMime :: "(string \<Rightarrow> string) \<Rightarrow> string \<Rightarrow> string \<Rightarrow> string" where
  "coverMime uniL coverPath s =
     (let ext = to_lower uniL (Ext coverPath)
      in if length s \<ge> 8 \<and> take 4 s = [CHR 0x89, CHR 0x50, CHR 0x4E, CHR 0x47] then ''image/png''
         else if length s \<ge> 12 \<and> take 4 s = ''RIFF'' \<and> take 4 (drop 8 s) = ''WEBP'' then ''image/webp''
         else if length s \<ge> 6 \<and> take 6 s \<in> {''GIF87a'', ''GIF89a''} then ''image/gif''
         else if ext = ''.png'' then ''image/png'' else if ext = ''.webp'' then ''image/webp''
         else if ext = ''.gif'' then ''image/gif'' else ''image/jpeg'')"

text \<open>The new cover; \<open>cover\<close> is the content of the file at the path, if it can be read.\<close>

definition loadCoverForTag :: "(string \<Rightarrow> string) \<Rightarrow> edit_fields \<Rightarrow> string option \<Rightarrow> riff_error + string \<times> string" where
  "loadCoverForTag uniL edits cover =
     (let coverPath = trim_space (fieldText edits ''cover_path'')
      in if coverPath = '''' then Inr ('''', '''')
         else
           case cover of
             None \<Rightarrow> Inl NoCoverFile
           | Some s \<Rightarrow> if s = '''' then Inl EmptyCover else Inr (s, coverMime uniL coverPath s))"

definition mergeEditFieldsOntoExisting ::
  "(string \<Rightarrow> string) \<Rightarrow> audio_metadata option \<Rightarrow> edit_fields \<Rightarrow> audio_metadata" where
  "mergeEditFieldsOntoExisting uniL existing edits =
     (let md = audioMetadataFromEditFields uniL edits; given = (\<lambda>k. map_of edits k \<noteq> None)
      in case existing of
           None \<Rightarrow> md
         | Some old \<Rightarrow>
             md\<lparr>amTitle := (if given ''title'' then amTitle md else amTitle old),
               amArtist := (if given ''artist'' then amArtist md else amArtist old),
               amAlbum := (if given ''album'' then amAlbum md else amAlbum old),
               amAlbumArtist := (if given ''album_artist'' then amAlbumArtist md else amAlbumArtist old),
               amGenre := (if given ''genre'' then amGenre md else amGenre old),
               amComposer := (if given ''composer'' then amComposer md else amComposer old),
               amLabel := (if given ''label'' then amLabel md else amLabel old),
               amCopyright := (if given ''copyright'' then amCopyright md else amCopyright old),
               amISRC := (if given ''isrc'' then amISRC md else amISRC old),
               amLyrics := (if given ''lyrics'' then amLyrics md else amLyrics old),
               amComment := (if given ''comment'' then amComment md else amComment old),
               amAlbumType := (if given ''album_type'' then amAlbumType md else amAlbumType old),
               amUPC := (if given ''upc'' then amUPC md else amUPC old),
               amExplicit := (if given ''explicit'' then amExplicit md else amExplicit old),
               amDate := (if given ''date'' then amDate md else amDate old),
               amTrackNumber := (if given ''track_number'' then amTrackNumber md else amTrackNumber old),
               amTotalTracks := (if given ''track_total'' then amTotalTracks md else amTotalTracks old),
               amDiscNumber := (if given ''disc_number'' then amDiscNumber md else amDiscNumber old),
               amTotalDiscs := (if given ''disc_total'' then amTotalDiscs md else amTotalDiscs old),
               amTrackGain := (if given ''replaygain_track_gain'' then amTrackGain md else amTrackGain old),
               amTrackPeak := (if given ''replaygain_track_peak'' then amTrackPeak md else amTrackPeak old),
               amAlbumGain := (if given ''replaygain_album_gain'' then amAlbumGain md else amAlbumGain old),
               amAlbumPeak := (if given ''replaygain_album_peak'' then amAlbumPeak md else amAlbumPeak old)\<rparr>)"

text \<open>The picture of the new tag: the new cover, or else the one of the tag that is replaced.\<close>

definition tagPicture :: "string \<Rightarrow> string \<times> string \<Rightarrow> string \<times> string" where
  "tagPicture id3 cover =
     (if fst cover \<noteq> '''' then cover else if id3 \<noteq> '''' then extractAPICFromID3 id3 else ('''', ''''))"

definition WriteWAVTags ::
  "(string \<Rightarrow> string) \<Rightarrow> (string \<Rightarrow> string) \<Rightarrow> edit_fields \<Rightarrow> string option \<Rightarrow> string \<Rightarrow> (riff_error + string) option" where
  "WriteWAVTags uniU uniL edits cover content =
     (case ReadWAVTags uniU uniL content of
        None \<Rightarrow> None
      | Some existing \<Rightarrow>
          let md = mergeEditFieldsOntoExisting uniL existing edits
          in case loadCoverForTag uniL edits cover of
               Inl e \<Rightarrow> Some (Inl e)
             | Inr new \<Rightarrow>
                 let picture = tagPicture (case streamProbeWAV content of None \<Rightarrow> '''' | Some p \<Rightarrow> wpID3 p) new
                 in Some (writeID3Chunk ''RIFF'' ''id3 '' True (buildID3v24Tag md (fst picture) (snd picture)) content))"

definition WriteAIFFTags ::
  "(string \<Rightarrow> string) \<Rightarrow> (string \<Rightarrow> string) \<Rightarrow> (string \<Rightarrow> int) \<Rightarrow> edit_fields \<Rightarrow> string option \<Rightarrow> string \<Rightarrow>
     (riff_error + string) option" where
  "WriteAIFFTags uniU uniL rate edits cover content =
     (case ReadAIFFTags uniU uniL rate content of
        None \<Rightarrow> None
      | Some existing \<Rightarrow>
          let md = mergeEditFieldsOntoExisting uniL existing edits
          in case loadCoverForTag uniL edits cover of
               Inl e \<Rightarrow> Some (Inl e)
             | Inr new \<Rightarrow>
                 let picture = tagPicture (case streamProbeAIFF rate content of None \<Rightarrow> '''' | Some p \<Rightarrow> apID3 p) new
                 in Some (writeID3Chunk ''FORM'' ''ID3 '' False (buildID3v24Tag md (fst picture) (snd picture)) content))"

text \<open>The cover in a file, by its extension.\<close>

definition extractWAVAIFFCover :: "(string \<Rightarrow> string) \<Rightarrow> (string \<Rightarrow> int) \<Rightarrow> string \<Rightarrow> string \<Rightarrow> (string \<times> string) option" where
  "extractWAVAIFFCover uniL rate filePath content =
     (let id3 = (if to_lower uniL (Ext filePath) \<in> {''.aiff'', ''.aif'', ''.aifc''}
                 then (case streamProbeAIFF rate content of None \<Rightarrow> '''' | Some p \<Rightarrow> apID3 p)
                 else (case streamProbeWAV content of None \<Rightarrow> '''' | Some p \<Rightarrow> wpID3 p));
          picture = extractAPICFromID3 id3
      in if id3 = '''' \<or> fst picture = '''' then None else Some picture)"

section \<open>Chunks of the new file\<close>

text \<open>A file as a list of chunks, each with its content as far as the file goes.\<close>

function chunksOf :: "bool \<Rightarrow> string \<Rightarrow> (string \<times> nat \<times> string) list" where
  "chunksOf le s =
     (if length s < 8 then []
      else
        let n = chunkSize le s
        in (take 4 s, n, take n (drop 8 s)) # chunksOf le (drop (8 + padded n) s))"
  by pat_completeness auto
termination by (relation "measure (\<lambda>(_, s). length s)") auto

declare chunksOf.simps [simp del]

lemma probe_chunks: "probeChunks le f s p = fold (\<lambda>(chunk, n, buf). f chunk n buf) (chunksOf le s) p"
proof (induction le f s p rule: probeChunks.induct)
  case (1 le f s p)
  then show ?case by (subst probeChunks.simps, subst chunksOf.simps) (simp add: Let_def)
qed

lemma readUint32_append: "length h = 4 \<Longrightarrow> v < 2 ^ 32 \<Longrightarrow> chunkSize le (h @ putUint32 le v @ r) = v"
  by (simp add: chunkSize_def readUint32_def putUint32_def put_u32_def le_value_le_bytes)

lemma chunkSize_prefix: "8 \<le> length s \<Longrightarrow> chunkSize le (s @ r) = chunkSize le s"
  by (simp add: chunkSize_def readUint32_def)

lemma chunksOf_append:
  assumes "length s = 8 + padded n" "chunkSize le s = n"
  shows "chunksOf le (s @ r) = (take 4 s, n, take n (drop 8 s)) # chunksOf le r"
proof -
  have c: "chunkSize le (s @ r) = n" using chunkSize_prefix [of s le r] assms by simp
  have d: "drop (8 + padded n) (s @ r) = r" "take n (drop 8 (s @ r)) = take n (drop 8 s)" "take 4 (s @ r) = take 4 s"
    using assms(1) by (simp_all add: padded_def)
  have "\<not> length (s @ r) < 8" using assms(1) by simp
  then show ?thesis unfolding chunksOf.simps [of le "s @ r"] Let_def c d by (simp only: if_False)
qed

lemma chunkSize_take: "8 \<le> n \<Longrightarrow> chunkSize le (take n s) = chunkSize le s"
  by (simp add: chunkSize_def readUint32_def drop_take min_def)

lemma chunks_copied:
  "copyChunks le c s = Some copied \<Longrightarrow>
   chunksOf le (copied @ r) = filter (\<lambda>(i, _). \<not> sameChunk i c) (chunksOf le s) @ chunksOf le r"
proof (induction le c s arbitrary: copied rule: copyChunks.induct)
  case (1 le c s)
  define n where "n = 8 + padded (chunkSize le s)"
  show ?case
  proof (cases "length s < 8")
    case True
    then show ?thesis using 1(3) by (simp add: copyChunks.simps [of le c s] chunksOf.simps [of le s])
  next
    case False
    have u: "chunksOf le s = (take 4 s, chunkSize le s, take (chunkSize le s) (drop 8 s)) # chunksOf le (drop n s)"
      using False by (subst chunksOf.simps) (simp add: Let_def n_def)
    show ?thesis
    proof (cases "sameChunk (take 4 s) c")
      case True
      then have "copyChunks le c (drop n s) = Some copied" using 1(3) False by (simp add: copyChunks.simps [of le c s] Let_def n_def)
      then show ?thesis using 1(1) [OF False _ True] True by (simp add: u n_def)
    next
      case other: False
      then obtain rest where len: "n \<le> length s" and c: "copyChunks le c (drop n s) = Some rest" "copied = take n s @ rest"
        using 1(3) False by (auto simp: copyChunks.simps [of le c s] Let_def n_def not_less split: if_splits)
      have n8: "8 \<le> n" by (simp add: n_def)
      have sz: "chunkSize le (take n s) = chunkSize le s" by (rule chunkSize_take [OF n8])
      have "chunksOf le (take n s @ rest @ r)
          = (take 4 (take n s), chunkSize le s, take (chunkSize le s) (drop 8 (take n s))) # chunksOf le (rest @ r)"
        by (rule chunksOf_append [of "take n s", simplified append.assoc]) (use len n8 sz in \<open>simp_all add: n_def\<close>)
      moreover have "take 4 (take n s) = take 4 s" "take (chunkSize le s) (drop 8 (take n s)) = take (chunkSize le s) (drop 8 s)"
        using n8 by (simp_all add: min_def n_def drop_take padded_def)
      moreover have "chunksOf le (rest @ r) = filter (\<lambda>(i, _). \<not> sameChunk i c) (chunksOf le (drop n s)) @ chunksOf le r"
        by (rule 1(2) [OF False _ other _ c(1) [unfolded n_def], folded n_def]) (use len in \<open>simp_all add: n_def\<close>)
      ultimately show ?thesis using other by (simp add: u c(2))
    qed
  qed
qed

lemma chunksOf_Nil: "chunksOf le '''' = []"
  by (subst chunksOf.simps) simp

lemma chunks_new: "length c = 4 \<Longrightarrow> length id3 < 2 ^ 32 \<Longrightarrow> chunksOf le (newChunk le c id3) = [(c, length id3, id3)]"
proof -
  assume c: "length c = 4" and n: "length id3 < 2 ^ 32"
  let ?pad = "if odd (length id3) then [NUL] else []"
  have pad: "length ?pad = length id3 mod 2" by (cases "odd (length id3)") (simp_all add: odd_iff_mod_2_eq_one)
  have u: "length (putUint32 le v) = 4" for v by (simp add: putUint32_def)
  have l: "length (newChunk le c id3) = 8 + padded (length id3)" using c pad by (simp add: newChunk_def u padded_def del: length_append_singleton)
  have s: "chunkSize le (newChunk le c id3) = length id3"
    unfolding newChunk_def by (rule readUint32_append [OF c n])
  have p: "take 4 (newChunk le c id3) = c" "take (length id3) (drop 8 (newChunk le c id3)) = id3"
    using c by (simp_all add: newChunk_def u)
  show ?thesis using chunksOf_append [OF l s, of "''''"] by (simp add: p chunksOf_Nil)
qed

lemma written_chunk:
  assumes "writeID3Chunk magic c le id3 content = Inr content'" "length c = 4" "length id3 < 2 ^ 32"
  shows "take 4 content' = magic" "take 4 (drop 8 content') = take 4 (drop 8 content)" "length magic = 4" "12 \<le> length content'"
    "take 4 content = magic" "12 \<le> length content"
    "drop 4 content' = putUint32 le (length content' - 8) @ drop 8 content'"
    "chunksOf le (drop 12 content') = filter (\<lambda>(i, _). \<not> sameChunk i c) (chunksOf le (drop 12 content)) @ [(c, length id3, id3)]"
proof -
  from assms(1) obtain copied where len: "12 \<le> length content" and m: "take 4 content = magic"
    and k: "copyChunks le c (drop 12 content) = Some copied"
    and c': "content' = take 4 content @ putUint32 le (length (take 4 (drop 8 content) @ copied @ newChunk le c id3))
        @ take 4 (drop 8 content) @ copied @ newChunk le c id3"
    by (auto simp: writeID3Chunk_def Let_def split: if_splits option.splits)
  have u: "length (putUint32 le v) = 4" for v by (simp add: putUint32_def)
  show "take 4 content = magic" "12 \<le> length content" by (rule m, rule len)
  show "take 4 content' = magic" "length magic = 4" using len m by (auto simp: c' min_def)
  show "take 4 (drop 8 content') = take 4 (drop 8 content)" using len by (simp add: c' u)
  show "12 \<le> length content'" using len by (simp add: c' u)
  show "drop 4 content' = putUint32 le (length content' - 8) @ drop 8 content'" using len by (simp add: c' u)
  have "drop 12 content' = copied @ newChunk le c id3" using len by (simp add: c' u)
  then show "chunksOf le (drop 12 content') = filter (\<lambda>(i, _). \<not> sameChunk i c) (chunksOf le (drop 12 content)) @ [(c, length id3, id3)]"
    using chunks_copied [OF k, of "newChunk le c id3"] chunks_new [OF assms(2,3)] by simp
qed

text \<open> C22: rewriting the tag of a WAV or AIFF file keeps its magic number, its form and every other
  chunk, the audio among them, with their order, sizes and bytes; it drops every earlier tag chunk, in
  whatever case its identifier is, appends the new tag as the last chunk, and patches the size of
  the container to what follows it. \<close>

theorem riff_tag_rewritten:
  assumes "writeID3Chunk magic chunkID le id3 content = Inr content'" "length chunkID = 4" "length id3 < 2 ^ 32"
  shows "take 4 content' = magic \<and> take 4 (drop 8 content') = take 4 (drop 8 content)
    \<and> chunksOf le (drop 12 content')
        = filter (\<lambda>(i, _). \<not> sameChunk i chunkID) (chunksOf le (drop 12 content)) @ [(chunkID, length id3, id3)]
    \<and> (length content' < 2 ^ 32 \<longrightarrow> readUint32 (drop 4 content') le = length content' - 8)"
proof -
  note w = written_chunk [OF assms]
  have "readUint32 (drop 4 content') le = length content' - 8" if "length content' < 2 ^ 32"
  proof -
    have "chunkSize le (take 4 content' @ putUint32 le (length content' - 8) @ drop 8 content') = length content' - 8"
      by (rule readUint32_append) (use w(1,3) that in simp_all)
    then show ?thesis by (simp add: chunkSize_def w(7) w(1,3))
  qed
  with w show ?thesis by blast
qed

lemma tag_length: "length (buildID3v24Tag md c mime) = 10 + length (frameBytes (metadataFrames md @ pictureFrame c mime))"
  by (simp add: buildID3v24Tag_def Let_def)

text \<open>What reading gives once a tag of metadata that names the track is the last tag chunk of a file.\<close>

lemma read_written_wav:
  assumes "writeID3Chunk ''RIFF'' ''id3 '' True (buildID3v24Tag md c mime) content = Inr content'" "streamProbeWAV content \<noteq> None"
    "writableMetadata md" "named (asReadID3 md)" "length (buildID3v24Tag md c mime) \<le> 16 * 1024 * 1024"
  shows "ReadWAVTags uniU uniL content' = Some (Some (asReadID3 md))"
    and "\<exists>q. streamProbeWAV content' = Some q \<and> wpID3 q = buildID3v24Tag md c mime"
proof -
  let ?tag = "buildID3v24Tag md c mime"
  have small: "length ?tag < 2 ^ 32" "length (frameBytes (metadataFrames md @ pictureFrame c mime)) < 2 ^ 28"
    using assms(5) by (simp_all add: tag_length)
  have pos: "0 < length ?tag" "?tag \<noteq> ''''" by (auto simp: tag_length simp flip: length_greater_0_conv)
  have id4: "length ''id3 '' = 4" by simp
  note w = written_chunk [OF assms(1) id4 small(1)]
  have form: "take 4 (drop 8 content) = ''WAVE''" using assms(2) by (auto simp: streamProbeWAV_def split: if_splits)
  obtain p where p: "streamProbeWAV content' = Some (probeWAVChunk ''id3 '' (length ?tag) ?tag p)"
    using w(1,2,4,8) form by (simp add: streamProbeWAV_def probe_chunks)
  have id3: "wpID3 (probeWAVChunk ''id3 '' (length ?tag) ?tag p) = ?tag"
    using pos(1) assms(5) by (simp add: probeWAVChunk_def wavMaxMetaChunk_def)
  then show "\<exists>q. streamProbeWAV content' = Some q \<and> wpID3 q = ?tag" using p by blast
  show "ReadWAVTags uniU uniL content' = Some (Some (asReadID3 md))"
    using id3 p pos(2) assms(4)
    by (simp add: ReadWAVTags_def wavMetadataFromProbe_def chunkMetadata_def tag_parsed [OF small(2)] read_metadata [OF assms(3)])
qed

text \<open>The type of a picture never has a NUL: one that is read ends before it, one that is loaded is a constant.\<close>

lemma parsed_mime: "NUL \<notin> set (snd (parseAPICFrame s v))"
  by (auto simp: parseAPICFrame_def Let_def NUL_def dest: set_takeWhileD)

lemma found_mime: "NUL \<notin> set (snd (findPicture22 s))" "NUL \<notin> set (snd (findPicture23 v s))"
proof -
  show "NUL \<notin> set (snd (findPicture22 s))"
    by (induction s rule: findPicture22.induct) (subst findPicture22.simps, simp add: parsed_mime Let_def)
  show "NUL \<notin> set (snd (findPicture23 v s))"
  proof (induction v s rule: findPicture23.induct)
    case (1 v s)
    define n where "n = (if v = 4 then synchsafeDecode (take 4 (drop 4 s)) else be_number (take 4 (drop 4 s)))"
    have e: "findPicture23 v s = (if 10 > length s \<or> byte_at s 0 = 0 then ('''', '''')
        else if n = 0 \<or> 10 + n > length s then ('''', '''')
        else if take 4 s = ''APIC'' then parseAPICFrame (take n (drop 10 s)) v else findPicture23 v (drop (10 + n) s))"
      by (subst findPicture23.simps) (simp only: Let_def n_def)
    have "NUL \<notin> set (snd (findPicture23 v (drop (10 + n) s)))"
      if "\<not> (10 > length s \<or> byte_at s 0 = 0)" "\<not> (n = 0 \<or> 10 + n > length s)" "take 4 s \<noteq> ''APIC''"
      by (rule 1 [OF that(1) n_def that(2,3)])
    then show ?case unfolding e using parsed_mime by auto
  qed
qed

lemma extracted_mime: "NUL \<notin> set (snd (extractAPICFromID3 tag))"
  by (simp add: extractAPICFromID3_def found_mime Let_def)

lemma loaded_mime:
  assumes "loadCoverForTag uniL edits cover = Inr new" "fst new \<noteq> ''''"
  shows "NUL \<notin> set (snd new) \<and> trim_space (snd new) \<noteq> ''''"
proof -
  obtain s path where n: "snd new = coverMime uniL path s"
    using assms by (auto simp: loadCoverForTag_def Let_def split: if_splits option.splits)
  have "coverMime uniL path s \<in> {''image/png'', ''image/webp'', ''image/gif'', ''image/jpeg''}" by (simp add: coverMime_def Let_def)
  moreover have "list_all (\<lambda>m. NUL \<notin> set m \<and> trim_space m \<noteq> '''') [''image/png'', ''image/webp'', ''image/gif'', ''image/jpeg'']" by code_simp
  ultimately show ?thesis unfolding n by (simp only: list_all_iff list.set) blast
qed

lemma loaded_none: "loadCoverForTag uniL edits cover = Inr new \<Longrightarrow> fst new = '''' \<Longrightarrow> new = ('''', '''')"
  by (auto simp: loadCoverForTag_def Let_def split: if_splits option.splits)

lemma wav_cover:
  assumes "streamProbeWAV content = Some p" "to_lower uniL (Ext path) \<notin> {''.aiff'', ''.aif'', ''.aifc''}"
  shows "extractWAVAIFFCover uniL rate path content = (if wpID3 p = '''' \<or> fst (extractAPICFromID3 (wpID3 p)) = '''' then None
    else Some (extractAPICFromID3 (wpID3 p)))"
  using assms by (simp add: extractWAVAIFFCover_def Let_def)

text \<open> C30: after an edit of a WAV file the reader gives the merged metadata: what the edits name from
  the edits, the rest from the tags the file had. The cover is the new one, if the edits give one,
  or else the one the file had, byte for byte, with its type (a blank one becomes JPEG).
  But tags that give neither a title nor an artist nor an
  album do not count: when the file has only such tags, their comment, lyrics and all the rest
  that the edits do not name are gone. \<close>

theorem wav_edit_reads_back:
  assumes "streamProbeWAV content = Some p" "WriteWAVTags uniU uniL edits cover content = Some (Inr content')"
    "ReadWAVTags uniU uniL content = Some existing" "loadCoverForTag uniL edits cover = Inr new"
    "md = mergeEditFieldsOntoExisting uniL existing edits" "writableMetadata md" "named (asReadID3 md)"
    "length (buildID3v24Tag md (fst (tagPicture (wpID3 p) new)) (snd (tagPicture (wpID3 p) new))) \<le> 16 * 1024 * 1024"
    "to_lower uniL (Ext path) \<notin> {''.aiff'', ''.aif'', ''.aifc''}"
  shows "ReadWAVTags uniU uniL content' = Some (Some (asReadID3 md))
    \<and> extractWAVAIFFCover uniL rate path content' =
        (if fst new \<noteq> '''' then Some new
         else map_option (\<lambda>(c, mime). (c, if trim_space mime = '''' then ''image/jpeg'' else mime)) (extractWAVAIFFCover uniL rate path content))
    \<and> (readID3v2FromBytes uniU uniL (wpID3 p) = Some (Some old) \<longrightarrow> \<not> named old \<longrightarrow> wpInfo p = [] \<longrightarrow>
        md = audioMetadataFromEditFields uniL edits)"
proof (intro conjI impI)
  let ?pic = "tagPicture (wpID3 p) new" and ?tag = "buildID3v24Tag md (fst (tagPicture (wpID3 p) new)) (snd (tagPicture (wpID3 p) new))"
  have w: "writeID3Chunk ''RIFF'' ''id3 '' True ?tag content = Inr content'"
    using assms(1-5) by (simp add: WriteWAVTags_def Let_def)
  have probed: "streamProbeWAV content \<noteq> None" using assms(1) by simp
  show "ReadWAVTags uniU uniL content' = Some (Some (asReadID3 md))"
    by (rule read_written_wav(1) [OF w probed assms(6,7,8)])
  obtain q where q: "streamProbeWAV content' = Some q" "wpID3 q = ?tag"
    using read_written_wav(2) [OF w probed assms(6,7,8)] by blast
  have ne: "?tag \<noteq> ''''" by (auto simp: tag_length simp flip: length_greater_0_conv)
  have small: "length (frameBytes (metadataFrames md @ pictureFrame (fst ?pic) (snd ?pic))) < 2 ^ 28"
    using assms(8) by (simp add: tag_length)
  have plain: "plainText (snd ?pic)"
    using loaded_mime [OF assms(4)] extracted_mime [of "wpID3 p"] by (simp add: tagPicture_def plainText_def)
  have pic: "extractAPICFromID3 ?tag = (if fst ?pic = '''' then ('''', '''') else (fst ?pic, if blank (snd ?pic) then ''image/jpeg'' else snd ?pic))"
    by (rule picture_read [OF small plain])
  have after: "extractWAVAIFFCover uniL rate path content' =
      (if fst ?pic = '''' then None else Some (fst ?pic, if blank (snd ?pic) then ''image/jpeg'' else snd ?pic))"
    using wav_cover [OF q(1) assms(9), of rate] ne by (simp add: q(2) pic)
  show "extractWAVAIFFCover uniL rate path content' =
        (if fst new \<noteq> '''' then Some new
         else map_option (\<lambda>(c, mime). (c, if trim_space mime = '''' then ''image/jpeg'' else mime)) (extractWAVAIFFCover uniL rate path content))"
  proof (cases "fst new = ''''")
    case True
    then show ?thesis unfolding after wav_cover [OF assms(1,9)]
      by (simp add: tagPicture_def blank_def case_prod_unfold)
  next
    case False
    have "?pic = new" using False by (simp add: tagPicture_def)
    then show ?thesis unfolding after using False loaded_mime [OF assms(4) False] by (simp add: blank_def)
  qed
  assume "readID3v2FromBytes uniU uniL (wpID3 p) = Some (Some old)" "\<not> named old" "wpInfo p = []"
  then have "existing = None"
    using assms(1,3) by (auto simp: ReadWAVTags_def wavMetadataFromProbe_def chunkMetadata_def infoMetadata_def split: if_splits)
  then show "md = audioMetadataFromEditFields uniL edits" by (simp add: assms(5) mergeEditFieldsOntoExisting_def)
qed

definition exampleWav :: string where
  "exampleWav = ''RIFF'' @ [CHR 0x10, NUL, NUL, NUL] @ ''WAVE'' @ ''data'' @ [CHR 0x04, NUL, NUL, NUL] @ ''abcd''"

lemma exampleWav_chunks:
  "copyChunks True ''id3 '' (drop 12 exampleWav) = Some (drop 12 exampleWav)"
  "chunksOf True (drop 12 exampleWav) = [(''data'', 4, ''abcd'')]"
proof -
  have s: "chunkSize True (drop 12 exampleWav) = 4" "\<not> sameChunk (take 4 (drop 12 exampleWav)) ''id3 ''" "length (drop 12 exampleWav) = 12"
    "take 4 (drop 12 exampleWav) = ''data''" "take 4 (drop 8 (drop 12 exampleWav)) = ''abcd''"
    by code_simp+
  have e: "copyChunks True ''id3 '' '''' = Some ''''" by (subst copyChunks.simps) simp
  show "copyChunks True ''id3 '' (drop 12 exampleWav) = Some (drop 12 exampleWav)"
    by (subst copyChunks.simps) (use s e in \<open>simp add: padded_def\<close>)
  show "chunksOf True (drop 12 exampleWav) = [(''data'', 4, ''abcd'')]"
    by (subst chunksOf.simps) (use s in \<open>simp add: padded_def chunksOf_Nil\<close>)
qed

lemma exampleWav_write: "\<exists>content'. writeID3Chunk ''RIFF'' ''id3 '' True id3 exampleWav = Inr content'"
proof -
  have "\<not> length exampleWav < 12" "take 4 exampleWav = ''RIFF''" by code_simp+
  then show ?thesis by (simp add: writeID3Chunk_def exampleWav_chunks(1) Let_def)
qed

lemma riff_tag_rewritten_witness:
  "\<exists>content'. writeID3Chunk ''RIFF'' ''id3 '' True ''T'' exampleWav = Inr content'
     \<and> chunksOf True (drop 12 content') = [(''data'', 4, ''abcd''), (''id3 '', 1, ''T'')]"
proof -
  obtain content' where w: "writeID3Chunk ''RIFF'' ''id3 '' True ''T'' exampleWav = Inr content'" using exampleWav_write by blast
  have s: "\<not> sameChunk ''data'' ''id3 ''" by code_simp
  have l: "length ''id3 '' = 4" "length ''T'' < 2 ^ 32" by simp_all
  from riff_tag_rewritten [OF w l] w s show ?thesis by (auto simp: exampleWav_chunks(2))
qed

lemma wav_edit_reads_back_witness:
  "\<exists>content'. WriteWAVTags id id [(''title'', ''Song'')] None exampleWav = Some (Inr content')
     \<and> ReadWAVTags id id content' = Some (Some (asReadID3 (audioMetadataFromEditFields id [(''title'', ''Song'')])))
     \<and> extractWAVAIFFCover id (\<lambda>_. 0) ''/a.wav'' content' = None"
proof -
  let ?e = "[(''title'', ''Song'')]" and ?md = "audioMetadataFromEditFields id [(''title'', ''Song'')]"
  have f: "\<not> length exampleWav < 12" "take 4 exampleWav = ''RIFF''" "take 4 (drop 8 exampleWav) = ''WAVE''" by code_simp+
  have pr: "probeWAVChunk ''data'' 4 ''abcd'' noWav = noWav\<lparr>wpDataSize := 4\<rparr>" by (simp add: probeWAVChunk_def)
  have p: "streamProbeWAV exampleWav = Some (noWav\<lparr>wpDataSize := 4\<rparr>)"
    using f by (simp add: streamProbeWAV_def probe_chunks exampleWav_chunks(2) pr)
  have r: "ReadWAVTags id id exampleWav = Some None"
    by (simp add: ReadWAVTags_def p noWav_def wavMetadataFromProbe_def chunkMetadata_def infoMetadata_def)
  have "trim_space '''' = ''''" by code_simp
  then have cov: "loadCoverForTag id ?e None = Inr ('''', '''')" by (simp add: loadCoverForTag_def fieldText_def get_or_def)
  have m: "?md = mergeEditFieldsOntoExisting id None ?e" by (simp add: mergeEditFieldsOntoExisting_def)
  have md: "?md = emptyMetadata\<lparr>amTitle := ''Song''\<rparr>" by code_simp
  have w: "writableMetadata ?md" unfolding md
    by (simp add: writableMetadata_def metadataTexts_def emptyMetadata_def plainText_def NUL_def starts_with_def)
  have n: "named (asReadID3 ?md)" by code_simp
  obtain content' where wr: "writeID3Chunk ''RIFF'' ''id3 '' True (buildID3v24Tag ?md '''' '''') exampleWav = Inr content'"
    using exampleWav_write by blast
  have fr: "metadataFrames ?md @ pictureFrame '''' '''' = [(''TIT2'', id3TextPayload ''Song'')]" by code_simp
  have "length (buildID3v24Tag ?md '''' '''') < 100"
    unfolding tag_length fr by (simp add: frameBytes_def writeFrame_def id3TextPayload_def)
  then have small: "length (buildID3v24Tag ?md '''' '''') \<le> 16 * 1024 * 1024" by simp
  have t: "tagPicture (wpID3 (noWav\<lparr>wpDataSize := 4\<rparr>)) ('''', '''') = ('''', '''')" by (simp add: tagPicture_def noWav_def)
  have wt: "WriteWAVTags id id ?e None exampleWav = Some (Inr content')"
    using wr by (simp add: WriteWAVTags_def r cov p m [symmetric] Let_def) (simp add: t [simplified])
  have ext: "to_lower id (Ext ''/a.wav'') \<notin> {''.aiff'', ''.aif'', ''.aifc''}" by code_simp
  have none: "extractWAVAIFFCover id (\<lambda>_. 0) ''/a.wav'' exampleWav = None"
    using wav_cover [OF p ext, of "\<lambda>_. 0"] by (simp add: noWav_def)
  show ?thesis using wav_edit_reads_back [OF p wt r cov m w n _ ext, of "\<lambda>_. 0"] small wt none by (simp add: t [simplified])
qed

end
