(* ===== verification/Text.thy ===== *)
theory Text
  imports Continuity Bytes
begin

text \<open>
  Text as Go's \<open>strings\<close> and \<open>unicode/utf8\<close> packages see it, for the components that build and
  compare names: a byte string as a sequence of runes, fields, cutsets and replacement. A byte
  that is no part of a rune counts as one rune, U+FFFD, as in a \<open>range\<close> loop.
\<close>

section \<open>Runes\<close>

function segments :: "string \<Rightarrow> string list" where
  "segments s =
     (if s = '''' then []
      else
        let n = (case rune_size s of None \<Rightarrow> 1 | Some k \<Rightarrow> max 1 k)
        in take n s # segments (drop n s))"
  by pat_completeness auto
termination by (relation "measure length") (auto split: option.splits)

declare segments.simps [simp del]

definition REPLACEMENT :: string where
  "REPLACEMENT = [CHR 0xEF, CHR 0xBF, CHR 0xBD]"

text \<open>The rune of a segment, written again by \<open>WriteRune\<close>, and its number.\<close>

definition runeOf :: "string \<Rightarrow> string" where
  "runeOf seg = (if whole_rune seg then seg else REPLACEMENT)"

fun runeNumber :: "nat list \<Rightarrow> nat" where
  "runeNumber [a] = a"
| "runeNumber [a, b] = (a - 192) * 64 + (b - 128)"
| "runeNumber [a, b, c] = (a - 224) * 4096 + (b - 128) * 64 + (c - 128)"
| "runeNumber [a, b, c, d] = (a - 240) * 262144 + (b - 128) * 4096 + (c - 128) * 64 + (d - 128)"
| "runeNumber _ = 0"

definition runeValue :: "string \<Rightarrow> nat" where
  "runeValue seg = runeNumber (map byte (runeOf seg))"

definition runes :: "string \<Rightarrow> string list" where
  "runes s = map runeOf (segments s)"

section \<open>Cutsets, fields and replacement\<close>

text \<open>\<open>strings.Trim\<close> with the runes of a cutset.\<close>

definition trim_cut :: "string list \<Rightarrow> string \<Rightarrow> string" where
  "trim_cut cs s = rev (trim_runes (map rev cs) (rev (trim_runes cs s)))"

text \<open>\<open>strings.Fields\<close>; the second argument is the field read so far.\<close>

function fieldsFrom :: "string \<Rightarrow> string \<Rightarrow> string list" where
  "fieldsFrom word s =
     (if s = '''' then (if word = '''' then [] else [word])
      else if lead_rune space_runes s = 0 then fieldsFrom (word @ [hd s]) (tl s)
      else (if word = '''' then [] else [word]) @ fieldsFrom '''' (drop (lead_rune space_runes s) s))"
  by pat_completeness auto
termination by (relation "measure (\<lambda>(_, s). length s)") auto

declare fieldsFrom.simps [simp del]

definition Fields :: "string \<Rightarrow> string list" where
  "Fields s = fieldsFrom '''' s"

text \<open>\<open>strings.ReplaceAll\<close> of a text that is not empty, and \<open>strings.Split\<close> at such a text.\<close>

function replace_all :: "string \<Rightarrow> string \<Rightarrow> string \<Rightarrow> string" where
  "replace_all old new s =
     (if s = '''' \<or> old = '''' then s
      else if starts_with old s then new @ replace_all old new (drop (length old) s)
      else hd s # replace_all old new (tl s))"
  by pat_completeness auto
termination by (relation "measure (\<lambda>(_, _, s). length s)") auto

declare replace_all.simps [simp del]

text \<open>\<open>strings.Index\<close> and \<open>strings.LastIndex\<close> of a text.\<close>

fun index_of :: "string \<Rightarrow> string \<Rightarrow> nat option" where
  "index_of sub [] = (if sub = '''' then Some 0 else None)"
| "index_of sub (c # s) = (if starts_with sub (c # s) then Some 0 else map_option Suc (index_of sub s))"

fun last_index_of :: "string \<Rightarrow> string \<Rightarrow> nat option" where
  "last_index_of sub [] = (if sub = '''' then Some 0 else None)"
| "last_index_of sub (c # s) =
     (case last_index_of sub s of
        Some i \<Rightarrow> Some (Suc i)
      | None \<Rightarrow> if starts_with sub (c # s) then Some 0 else None)"

section \<open>Runs of bytes and valid text\<close>

lemma segments_Nil [simp]: "segments '''' = []"
  by (simp add: segments.simps)

lemma concat_segments [simp]: "concat (segments s) = s"
proof (induction s rule: segments.induct)
  case (1 s)
  show ?case
  proof (cases "s = ''''")
    case False
    then show ?thesis using 1 by (subst segments.simps) (simp add: Let_def)
  qed simp
qed

lemma segments_set: "seg \<in> set (segments s) \<Longrightarrow> c \<in> set seg \<Longrightarrow> c \<in> set s"
  using concat_segments [of s] by (metis UN_I set_concat)

lemma replacement_whole: "whole_rune REPLACEMENT"
  by code_simp

lemma runeOf_whole [simp]: "whole_rune (runeOf seg)"
  by (simp add: runeOf_def replacement_whole)

lemma concat_valid: "\<forall>r \<in> set rs. whole_rune r \<Longrightarrow> valid_utf8 (concat rs)"
  by (induction rs) (simp_all add: valid_Nil valid_rune)

lemma valid_concat: "valid_utf8 s \<Longrightarrow> \<exists>rs. s = concat rs \<and> (\<forall>r \<in> set rs. whole_rune r)"
proof (induction rule: valid_utf8.induct)
  case valid_Nil
  show ?case by (rule exI [of _ "[]"]) simp
next
  case (valid_rune r s)
  then obtain rs where "s = concat rs" "\<forall>r \<in> set rs. whole_rune r" by blast
  with valid_rune(1) show ?case by (intro exI [of _ "r # rs"]) simp
qed

text \<open>A cut before a byte that continues no rune cuts between runes.\<close>

lemma valid_split:
  "valid_utf8 s \<Longrightarrow> s = a @ b \<Longrightarrow> b = [] \<or> \<not> cont_byte (hd b) \<Longrightarrow> valid_utf8 a \<and> valid_utf8 b"
proof (induction arbitrary: a rule: valid_utf8.induct)
  case valid_Nil
  then show ?case by (simp add: valid_utf8.valid_Nil)
next
  case (valid_rune r s)
  show ?case
  proof (cases "length a < length r")
    case True
    show ?thesis
    proof (cases a)
      case Nil
      then show ?thesis using valid_rune by (auto intro: valid_utf8.intros)
    next
      case (Cons x a')
      have "take (length r) (r @ s) = take (length r) (a @ b)" using valid_rune.prems(1) by simp
      then have r: "r = a @ take (length r - length a) b" using True by simp
      define t where "t = take (length r - length a) b"
      have "length r = length a + length t" unfolding t_def by (subst r) simp
      then have "t \<noteq> []" using True by auto
      then have hd: "hd t = hd b" "b \<noteq> []" unfolding t_def by (cases b; simp)+
      obtain c rest where c: "r = c # rest" "list_all cont_byte rest" using whole_runeE [OF valid_rune.hyps(1)] by metis
      then have "rest = a' @ t" using r Cons by (simp add: t_def)
      then have "cont_byte (hd t)" using c(2) \<open>t \<noteq> []\<close> by (cases t) auto
      then show ?thesis using valid_rune.prems(2) hd by simp
    qed
  next
    case False
    define a' where "a' = drop (length r) a"
    have "take (length r) (r @ s) = take (length r) (a @ b)" using valid_rune.prems(1) by simp
    then have "r = take (length r) a" using False by simp
    then have a: "a = r @ a'" unfolding a'_def by (metis append_take_drop_id)
    then have "s = a' @ b" using valid_rune.prems(1) by simp
    then have "valid_utf8 a' \<and> valid_utf8 b" using valid_rune.IH valid_rune.prems(2) by blast
    then show ?thesis using a valid_rune.hyps(1) by (auto intro: valid_utf8.valid_rune)
  qed
qed

section \<open>Patterns\<close>

text \<open>
  \<open>ReplaceAllStringFunc\<close> of a pattern that matches no empty text, given by what it matches at the
  front: the replacement and the text behind the match.
\<close>

function replace_match :: "(string \<Rightarrow> (string \<times> string) option) \<Rightarrow> string \<Rightarrow> string" where
  "replace_match f s =
     (if s = '''' then ''''
      else
        case f s of
          None \<Rightarrow> hd s # replace_match f (tl s)
        | Some (new, rest) \<Rightarrow>
            if length rest < length s then new @ replace_match f rest else hd s # replace_match f (tl s))"
  by pat_completeness auto
termination by (relation "measure (\<lambda>(_, s). length s)") auto

declare replace_match.simps [simp del]

section \<open>Valid text under cutting\<close>

lemma rune_size_append: "whole_rune r \<Longrightarrow> rune_size (r @ s) = Some (length r)"
proof -
  assume r: "whole_rune r"
  obtain c rest where c: "r = c # rest" "rune_len c = length r" "list_all cont_byte rest"
    "length r \<noteq> 1 \<Longrightarrow> second_ok c (rest ! 0)" using whole_runeE [OF r] by metis
  show ?thesis
  proof (cases "rest = []")
    case False
    then have "(rest @ s) ! 0 = rest ! 0" by (simp add: nth_append)
    then show ?thesis using c False by (simp add: rune_size_Cons)
  qed (use c in \<open>simp add: rune_size_Cons\<close>)
qed

lemma segments_append: "whole_rune r \<Longrightarrow> segments (r @ s) = r # segments s"
proof -
  assume r: "whole_rune r"
  then have "r \<noteq> ''''" "1 \<le> length r" using whole_rune_length [OF r] by auto
  then show ?thesis by (subst segments.simps) (simp add: rune_size_append r Let_def max_def)
qed

lemma valid_segments: "valid_utf8 s \<Longrightarrow> \<forall>r \<in> set (segments s). whole_rune r"
  by (induction rule: valid_utf8.induct) (simp_all add: segments_append)

lemma segments_valid: "\<forall>r \<in> set (segments s). whole_rune r \<Longrightarrow> valid_utf8 s"
  by (metis concat_segments concat_valid)

lemma valid_behind: "valid_utf8 (r @ s) \<Longrightarrow> whole_rune r \<Longrightarrow> valid_utf8 s"
  using valid_segments [of "r @ s"] by (intro segments_valid) (simp add: segments_append)

lemma whole_hd: "whole_rune r \<Longrightarrow> r \<noteq> [] \<and> \<not> cont_byte (hd r)"
  by (metis cont_rune_len length_0_conv list.sel(1) list.distinct(1) whole_runeE)

lemma valid_before: "valid_utf8 (s @ r) \<Longrightarrow> whole_rune r \<Longrightarrow> valid_utf8 s"
  using valid_split [of "s @ r" s r] whole_hd [of r] by simp

lemma starts_with_split: "starts_with p s \<Longrightarrow> s = p @ drop (length p) s"
  unfolding starts_with_def by (metis append_take_drop_id)

lemma valid_trim_runes: "valid_utf8 s \<Longrightarrow> \<forall>c \<in> set cs. whole_rune c \<Longrightarrow> valid_utf8 (trim_runes cs s)"
proof (induction cs s rule: trim_runes.induct)
  case (1 cs s)
  show ?case
  proof (cases "lead_rune cs s = 0")
    case True
    then show ?thesis using 1 by (simp add: trim_runes_idle)
  next
    case False
    then obtain r where r: "r \<in> set cs" "starts_with r s" "lead_rune cs s = length r" using lead_rune_pos by blast
    then have "valid_utf8 (drop (length r) s)"
      using "1.prems" valid_behind [of r "drop (length r) s"] starts_with_split by fastforce
    then show ?thesis using 1 False r(3) by (subst trim_runes.simps) simp
  qed
qed

lemma valid_trim_runes_rev:
  "valid_utf8 (rev s) \<Longrightarrow> \<forall>c \<in> set cs. whole_rune c \<Longrightarrow> valid_utf8 (rev (trim_runes (map rev cs) s))"
proof (induction "map rev cs" s rule: trim_runes.induct)
  case (1 s)
  show ?case
  proof (cases "lead_rune (map rev cs) s = 0")
    case True
    then show ?thesis using 1 by (simp add: trim_runes_idle)
  next
    case False
    then obtain r where r: "r \<in> set cs" "starts_with (rev r) s" "lead_rune (map rev cs) s = length r"
      using lead_rune_pos [of "map rev cs" s] by fastforce
    then have "rev s = rev (drop (length r) s) @ r" using starts_with_split [OF r(2)] by (metis length_rev rev_append rev_rev_ident)
    then have "valid_utf8 (rev (drop (length r) s))" using "1.prems" r(1) valid_before by metis
    then show ?thesis using 1 False r(3) by (subst trim_runes.simps) simp
  qed
qed

lemma valid_trim_cut: "valid_utf8 s \<Longrightarrow> \<forall>c \<in> set cs. whole_rune c \<Longrightarrow> valid_utf8 (trim_cut cs s)"
  unfolding trim_cut_def by (rule valid_trim_runes_rev) (simp_all add: valid_trim_runes)

lemma space_runes_whole: "\<forall>c \<in> set space_runes. whole_rune c"
  by code_simp

lemma trim_space_cut: "trim_space s = trim_cut space_runes s"
  by (simp add: trim_space_def trim_left_def trim_right_def trim_cut_def)

lemma valid_trim_space: "valid_utf8 s \<Longrightarrow> valid_utf8 (trim_space s)"
  by (simp add: trim_space_cut valid_trim_cut space_runes_whole)

lemma set_trim_runes: "set (trim_runes cs s) \<subseteq> set s"
  using trim_runes_suffix [of s cs] by (metis set_append sup_ge2)

lemma set_trim_cut: "set (trim_cut cs s) \<subseteq> set s"
proof -
  have "set (trim_cut cs s) \<subseteq> set (rev (trim_runes cs s))"
    unfolding trim_cut_def set_rev by (rule order_trans [OF set_trim_runes]) simp
  then show ?thesis using set_trim_runes [of cs s] by simp
qed

lemma length_trim_cut: "length (trim_cut cs s) \<le> length s"
  unfolding trim_cut_def using length_trim_runes_le by (metis length_rev order_trans)

lemma set_trim_space: "set (trim_space s) \<subseteq> set s"
  by (simp add: trim_space_cut set_trim_cut)

lemma set_fieldsFrom: "f \<in> set (fieldsFrom word s) \<Longrightarrow> set f \<subseteq> set word \<union> set s"
proof (induction word s rule: fieldsFrom.induct)
  case (1 word s)
  consider "s = ''''" | "s \<noteq> ''''" "lead_rune space_runes s = 0" | "s \<noteq> ''''" "lead_rune space_runes s \<noteq> 0" by blast
  then show ?case
  proof cases
    case 1
    then show ?thesis using "1.prems" by (subst (asm) fieldsFrom.simps) (auto split: if_splits)
  next
    case 2
    then have "f \<in> set (fieldsFrom (word @ [hd s]) (tl s))" using "1.prems" by (subst (asm) fieldsFrom.simps) simp
    then have "set f \<subseteq> set (word @ [hd s]) \<union> set (tl s)" using "1.IH"(1) 2 by blast
    then show ?thesis using 2(1) by (cases s) auto
  next
    case 3
    then have "(word \<noteq> '''' \<and> f = word) \<or> f \<in> set (fieldsFrom '''' (drop (lead_rune space_runes s) s))"
      using "1.prems" by (subst (asm) fieldsFrom.simps) (auto split: if_splits)
    moreover have "set (drop (lead_rune space_runes s) s) \<subseteq> set s" by (rule set_drop_subset)
    ultimately show ?thesis using "1.IH"(2) 3 by fastforce
  qed
qed

lemma set_join_on: "set (join_on c ps) \<subseteq> insert c (\<Union>p \<in> set ps. set p)"
  by (induction c ps rule: join_on.induct) auto

section \<open>Searching\<close>

lemma contains_Nil [simp]: "contains sub [] \<longleftrightarrow> sub = []"
  by (auto simp: contains_def starts_with_def)

lemma contains_iff: "contains sub s \<longleftrightarrow> (\<exists>i \<le> length s. starts_with sub (drop i s))"
  by (auto simp: contains_def list_ex_iff less_Suc_eq_le Bex_def simp del: upt_Suc)

lemma contains_Cons: "contains sub (c # s) \<longleftrightarrow> starts_with sub (c # s) \<or> contains sub s"
proof
  assume "contains sub (c # s)"
  then obtain i where i: "i \<le> length (c # s)" "starts_with sub (drop i (c # s))" by (auto simp: contains_iff)
  then show "starts_with sub (c # s) \<or> contains sub s" by (cases i) (auto simp: contains_iff)
next
  assume "starts_with sub (c # s) \<or> contains sub s"
  then show "contains sub (c # s)"
  proof
    assume "contains sub s"
    then obtain i where "i \<le> length s" "starts_with sub (drop i s)" by (auto simp: contains_iff)
    then have "Suc i \<le> length (c # s)" "starts_with sub (drop (Suc i) (c # s))" by simp_all
    then show ?thesis unfolding contains_iff by blast
  qed (auto simp: contains_iff intro: exI [of _ 0])
qed

lemma starts_with_length: "starts_with p s \<Longrightarrow> length p \<le> length s"
  unfolding starts_with_def by (metis length_take min.cobounded1)

lemma replace_all_length: "length new \<le> length old \<Longrightarrow> length (replace_all old new s) \<le> length s"
proof (induction old new s rule: replace_all.induct)
  case (1 old new s)
  consider "s = '''' \<or> old = ''''" | "\<not> (s = '''' \<or> old = '''')" "starts_with old s"
    | "\<not> (s = '''' \<or> old = '''')" "\<not> starts_with old s" by blast
  then show ?case
  proof cases
    case 2
    then have "length (replace_all old new (drop (length old) s)) \<le> length s - length old" using 1 by simp
    then show ?thesis using 2 1(3) starts_with_length [OF 2(2)] by (subst replace_all.simps) simp
  next
    case 3
    then show ?thesis using 1 by (subst replace_all.simps) (cases s; simp)
  qed (subst replace_all.simps; simp)
qed

lemma replace_all_shorter:
  "length new < length old \<Longrightarrow> contains old s \<Longrightarrow> length (replace_all old new s) < length s"
proof (induction old new s rule: replace_all.induct)
  case (1 old new s)
  have s: "\<not> (s = '''' \<or> old = '''')" using 1(3,4) by auto
  show ?case
  proof (cases "starts_with old s")
    case True
    have "length (replace_all old new (drop (length old) s)) \<le> length s - length old"
      using replace_all_length [of new old "drop (length old) s"] 1(3) by simp
    then show ?thesis using s True 1(3) starts_with_length [OF True] by (subst replace_all.simps) simp
  next
    case False
    then have "contains old (tl s)" using 1(4) s contains_Cons [of old "hd s" "tl s"] by (cases s) auto
    then have "length (replace_all old new (tl s)) < length (tl s)" using 1(2) s False 1(3) by blast
    then show ?thesis using s False by (subst replace_all.simps) (cases s; simp)
  qed
qed

end
