(* ===== verification/Filename.thy ===== *)
theory Filename
  imports Text
begin

text \<open>
  File names of downloads (\<open>go_backend/filename.go\<close>): making a text a safe file name, and filling
  the template of the user with the metadata of a track. The order in which Go walks the map of
  placeholders and the parsing and formatting of dates in the package \<open>time\<close> are parameters.
\<close>

section \<open>Safe names\<close>

definition SPACE :: char where "SPACE = CHR '' ''"
definition UNDERSCORE :: char where "UNDERSCORE = CHR ''_''"
definition DOT :: char where "DOT = CHR ''.''"

text \<open>What \<open>invalidChars\<close> matches, and the runes that are left out: \<open>unicode.IsControl\<close>.\<close>

definition invalidChar :: "char \<Rightarrow> bool" where
  "invalidChar c \<longleftrightarrow> byte c < 32 \<or> c \<in> set [CHR ''<'', CHR ''>'', CHR '':'', CHR 0x22, CHR ''/'', CHR 0x5C, CHR ''|'', CHR ''?'', CHR ''*'']"

definition droppedRune :: "nat \<Rightarrow> bool" where
  "droppedRune r \<longleftrightarrow> r = 127 \<or> (r < 32 \<or> 127 \<le> r \<and> r < 160) \<and> r \<noteq> 9 \<and> r \<noteq> 10 \<and> r \<noteq> 13"

text \<open>\<open>multiUnderscore\<close>, and \<open>strings.ToValidUTF8\<close>: a run of bad bytes becomes one replacement.\<close>

fun squeeze :: "string \<Rightarrow> string" where
  "squeeze (a # b # s) = (if a = UNDERSCORE \<and> b = UNDERSCORE then squeeze (b # s) else a # squeeze (b # s))"
| "squeeze s = s"

definition ValidString :: "string \<Rightarrow> bool" where
  "ValidString s = list_all whole_rune (segments s)"

fun toValid :: "string \<Rightarrow> bool \<Rightarrow> string list \<Rightarrow> string" where
  "toValid new bad [] = ''''"
| "toValid new bad (seg # segs) =
     (if whole_rune seg then seg @ toValid new False segs
      else (if bad then '''' else new) @ toValid new True segs)"

definition maxSanitizedFilenameBytes :: nat where "maxSanitizedFilenameBytes = 200"

fun truncAt :: "int \<Rightarrow> nat \<Rightarrow> string list \<Rightarrow> string" where
  "truncAt limit used [] = ''''"
| "truncAt limit used (seg # segs) =
     (let runeLen = length (runeOf seg)
      in if int (used + runeLen) > limit then '''' else seg @ truncAt limit (used + runeLen) segs)"

definition truncateUTF8Bytes :: "string \<Rightarrow> int \<Rightarrow> string" where
  "truncateUTF8Bytes value maxBytes =
     (if maxBytes \<le> 0 \<or> int (length value) \<le> maxBytes then value else truncAt maxBytes 0 (segments value))"

definition cutset :: "char list \<Rightarrow> string list" where
  "cutset cs = map (\<lambda>c. [c]) cs"

definition cleanRunes :: "string \<Rightarrow> string" where
  "cleanRunes s = concat (map runeOf (filter (\<lambda>seg. \<not> droppedRune (runeValue seg)) (segments s)))"

definition tidy :: "string \<Rightarrow> string" where
  "tidy s =
     trim_cut (cutset [UNDERSCORE, SPACE])
       (squeeze (join_on SPACE (Fields (trim_cut (cutset [DOT, SPACE]) (trim_space s)))))"

definition sanitizeFilename :: "string \<Rightarrow> string" where
  "sanitizeFilename filename =
     (let s1 = map (\<lambda>c. if invalidChar c then SPACE else c) (replace_all ''/'' '' '' filename);
          s2 = tidy (cleanRunes s1);
          s3 = (if ValidString s2 then s2 else toValid ''_'' False (segments s2));
          s4 = (if length s3 > maxSanitizedFilenameBytes then
                  trim_cut (cutset [UNDERSCORE, SPACE])
                    (trim_space (trim_cut (cutset [DOT, SPACE]) (truncateUTF8Bytes s3 (int maxSanitizedFilenameBytes))))
                else s3)
      in if s4 = '''' then ''Unknown'' else s4)"

definition sanitizeFilenamePreservingToken :: "string \<Rightarrow> string \<Rightarrow> string" where
  "sanitizeFilenamePreservingToken filename token0 =
     (let sanitized = sanitizeFilename filename; token = trim_space token0
      in if token = '''' \<or> \<not> contains token filename \<or> contains token sanitized then sanitized
         else
           let safeToken = sanitizeFilename token;
               sfx = '' - '' @ safeToken;
               prefixLimit = int maxSanitizedFilenameBytes - int (length sfx)
           in if prefixLimit \<le> 0 then truncateUTF8Bytes safeToken (int maxSanitizedFilenameBytes)
              else
                let rawPrefix = trim_cut (cutset [SPACE, UNDERSCORE, CHR ''-'']) (replace_all token '''' filename);
                    prefix = trim_space (trim_cut (cutset [DOT, SPACE, UNDERSCORE, CHR ''-''])
                               (truncateUTF8Bytes (sanitizeFilename rawPrefix) prefixLimit))
                in if prefix = '''' \<or> prefix = ''Unknown'' then safeToken else prefix @ sfx)"

section \<open>Metadata of a track\<close>

text \<open>A value is a string, an integer, a float by its integer part, or something else.\<close>

datatype meta_value = MString string | MInt int | MFloat int | MOther

type_synonym track_meta = "(string, meta_value) gomap"

definition getString :: "track_meta \<Rightarrow> string \<Rightarrow> string" where
  "getString m key =
     (case map_of m key of
        Some (MString v) \<Rightarrow> trim_space v
      | Some (MInt n) \<Rightarrow> show_int n
      | Some (MFloat n) \<Rightarrow> show_int n
      | _ \<Rightarrow> '''')"

definition candidateKeys :: "string \<Rightarrow> string list" where
  "candidateKeys key =
     key # (if key = ''track'' then [''track_number'']
            else if key = ''disc'' then [''disc_number'']
            else if key \<in> {''playlist_position'', ''playlistPosition'', ''playlist position'', ''position''}
            then [''playlistPosition'', ''playlist position'', ''position''] else [])"

fun intOf :: "meta_value \<Rightarrow> int option" where
  "intOf (MInt n) = Some n"
| "intOf (MFloat n) = Some n"
| "intOf (MString s) = parseInt64 (trim_space s)"
| "intOf MOther = None"

definition getInt :: "track_meta \<Rightarrow> string \<Rightarrow> int" where
  "getInt m key =
     (case List.map_filter (\<lambda>k. Option.bind (map_of m k) intOf) (candidateKeys key) of [] \<Rightarrow> 0 | n # _ \<Rightarrow> n)"

definition getPlaylistPosition :: "track_meta \<Rightarrow> int" where
  "getPlaylistPosition m = getInt m ''playlist_position''"

definition getDateValue :: "track_meta \<Rightarrow> string" where
  "getDateValue m =
     (if getString m ''date'' \<noteq> '''' then getString m ''date''
      else if getString m ''release_date'' \<noteq> '''' then getString m ''release_date''
      else getString m ''year'')"

definition extractYear :: "string \<Rightarrow> string" where
  "extractYear date = take 4 date"

section \<open>Numbers and dates\<close>

definition zeroPad :: "nat \<Rightarrow> int \<Rightarrow> string" where
  "zeroPad width n = replicate (width - length (show_int n)) (CHR ''0'') @ show_int n"

definition formatTrackNumber :: "int \<Rightarrow> string" where
  "formatTrackNumber n = (if n \<le> 0 then '''' else zeroPad 2 n)"

definition formatDiscNumber :: "int \<Rightarrow> string" where
  "formatDiscNumber n = (if n \<le> 0 then '''' else show_int n)"

definition formatRawNumber :: "int \<Rightarrow> string" where
  "formatRawNumber n = (if n \<le> 0 then '''' else show_int n)"

text \<open>The verb \<open>%0*d\<close> of \<open>fmt\<close> refuses a width above a million.\<close>

definition formatNumberWithWidth :: "int \<Rightarrow> int \<Rightarrow> string" where
  "formatNumberWithWidth n width =
     (if n \<le> 0 \<or> width \<le> 0 then ''''
      else if width \<le> 1 then formatRawNumber n
      else if width > 1000000 then ''%!(BADWIDTH)'' @ show_int n
      else zeroPad (nat width) n)"

text \<open>The package \<open>time\<close>: parsing by a layout, the first of January of a year, formatting.\<close>

record 'd time_lib =
  tlParse :: "string \<Rightarrow> string \<Rightarrow> 'd option"
  tlYear :: "int \<Rightarrow> 'd"
  tlFormat :: "string \<Rightarrow> 'd \<Rightarrow> string"

definition metadataLayouts :: "string list" where
  "metadataLayouts =
     [''2006-01-02T15:04:05.999999999Z07:00'', ''2006-01-02T15:04:05Z07:00'', ''2006-01-02'', ''2006-01'', ''2006'',
      ''2006/01/02'', ''2006/01'', ''2006.01.02'', ''2006.01'']"

fun findYear :: "string \<Rightarrow> string" where
  "findYear [] = ''''"
| "findYear (c # s) = (if length (takeWhile is_digit (c # s)) \<ge> 4 then take 4 (c # s) else findYear s)"

definition parseMetadataDate :: "'d time_lib \<Rightarrow> string \<Rightarrow> 'd option" where
  "parseMetadataDate lib rawDate =
     (let clean = trim_space rawDate;
          byYear = (let year = findYear clean
                    in if year = '''' \<or> read_nat year = 0 then None else Some (tlYear lib (int (read_nat year))))
      in if clean = '''' then None
         else
           case List.map_filter (\<lambda>layout. tlParse lib layout clean) metadataLayouts of
             d # _ \<Rightarrow> Some d
           | [] \<Rightarrow>
               if length clean \<ge> 10 then
                 (case tlParse lib ''2006-01-02'' (take 10 clean) of Some d \<Rightarrow> Some d | None \<Rightarrow> byYear)
               else byYear)"

definition strftimeLetter :: "char \<Rightarrow> string" where
  "strftimeLetter c =
     (if c = CHR ''Y'' then ''2006'' else if c = CHR ''y'' then ''06'' else if c = CHR ''m'' then ''01''
      else if c = CHR ''d'' then ''02'' else if c = CHR ''b'' then ''Jan'' else if c = CHR ''B'' then ''January''
      else if c = CHR ''%'' then ''%'' else ''%'' @ [c])"

fun convertStrftimeToGoLayout :: "string \<Rightarrow> string" where
  "convertStrftimeToGoLayout [] = ''''"
| "convertStrftimeToGoLayout [c] = [c]"
| "convertStrftimeToGoLayout (c # d # s) =
     (if c = CHR ''%'' then strftimeLetter d @ convertStrftimeToGoLayout s else c # convertStrftimeToGoLayout (d # s))"

definition formatDateWithPattern :: "'d time_lib \<Rightarrow> string \<Rightarrow> string \<Rightarrow> string" where
  "formatDateWithPattern lib rawDate strftimePattern =
     (if rawDate = '''' \<or> strftimePattern = '''' then ''''
      else
        case parseMetadataDate lib rawDate of
          None \<Rightarrow> ''''
        | Some d \<Rightarrow> if convertStrftimeToGoLayout strftimePattern = '''' then ''''
                    else tlFormat lib (convertStrftimeToGoLayout strftimePattern) d)"

section \<open>Templates\<close>

definition numberNames :: "string list" where
  "numberNames = [''track'', ''disc'', ''playlist_position'', ''playlistPosition'', ''position'']"

definition numberAs :: "string \<Rightarrow> string \<Rightarrow> (string \<times> string \<times> string) option" where
  "numberAs s name =
     (let p = ''{'' @ name @ '':''; t = drop (length p) s; digits = takeWhile is_digit t; rest = dropWhile is_digit t
      in if starts_with p s \<and> digits \<noteq> '''' \<and> starts_with ''}'' rest then Some (name, digits, tl rest) else None)"

definition matchNumber :: "track_meta \<Rightarrow> string \<Rightarrow> (string \<times> string) option" where
  "matchNumber m s =
     (case List.map_filter (numberAs s) numberNames of
        [] \<Rightarrow> None
      | (name, digits, rest) # _ \<Rightarrow>
          let number = (if name \<in> {''track'', ''disc''} then getInt m name else getPlaylistPosition m)
          in Some (case parseInt64 digits of None \<Rightarrow> '''' | Some width \<Rightarrow> formatNumberWithWidth number width, rest))"

definition replaceFormattedNumberPlaceholders :: "string \<Rightarrow> track_meta \<Rightarrow> string" where
  "replaceFormattedNumberPlaceholders template m = replace_match (matchNumber m) template"

definition brace :: "char \<Rightarrow> bool" where
  "brace c \<longleftrightarrow> c = CHR ''{'' \<or> c = CHR ''}''"

definition matchDate :: "'d time_lib \<Rightarrow> track_meta \<Rightarrow> string \<Rightarrow> (string \<times> string) option" where
  "matchDate lib m s =
     (let t = drop 6 s; pat = takeWhile (Not \<circ> brace) t; rest = dropWhile (Not \<circ> brace) t
      in if starts_with ''{date:'' s \<and> pat \<noteq> '''' \<and> starts_with ''}'' rest
         then Some (formatDateWithPattern lib (getDateValue m) pat, tl rest) else None)"

definition replaceDateFormatPlaceholders :: "'d time_lib \<Rightarrow> string \<Rightarrow> track_meta \<Rightarrow> string" where
  "replaceDateFormatPlaceholders lib template m = replace_match (matchDate lib m) template"

text \<open>The class \<open>\s\<close> of a pattern, and the separators: hyphen, dashes, underscore and bar.\<close>

definition patternSpace :: "char \<Rightarrow> bool" where
  "patternSpace c \<longleftrightarrow> byte c \<in> {9, 10, 12, 13, 32}"

definition skipSpaces :: "string \<Rightarrow> string" where
  "skipSpaces s = dropWhile patternSpace s"

definition filenameSeparators :: "string list" where
  "filenameSeparators = [''-'', [CHR 0xE2, CHR 0x80, CHR 0x93], [CHR 0xE2, CHR 0x80, CHR 0x94], ''_'', ''|'']"

definition matchEmptyGroup :: "string \<Rightarrow> (string \<times> string) option" where
  "matchEmptyGroup s =
     (let rest = skipSpaces (tl s)
      in if starts_with ''['' s \<and> starts_with '']'' rest \<or> starts_with ''('' s \<and> starts_with '')'' rest
         then Some ('''', tl rest) else None)"

definition matchDanglingSeparator :: "string \<Rightarrow> (string \<times> string) option" where
  "matchDanglingSeparator s =
     (let t = skipSpaces s; rest = skipSpaces (tl t)
      in if t \<noteq> '''' \<and> hd t \<in> {CHR ''-'', CHR ''_'', CHR ''|''} \<and> rest \<noteq> '''' \<and> hd rest \<in> {CHR '']'', CHR '')''}
         then Some ([hd rest], tl rest) else None)"

text \<open>A separator and the white space behind it, as often as there are some.\<close>

function skipSeparators :: "string \<Rightarrow> nat \<times> string" where
  "skipSeparators s =
     (let n = lead_rune filenameSeparators s; t = skipSpaces (drop n s)
      in if n = 0 \<or> \<not> length t < length s then (0, s) else case skipSeparators t of (k, rest) \<Rightarrow> (Suc k, rest))"
  by pat_completeness auto
termination by (relation "measure length") auto

declare skipSeparators.simps [simp del]

definition matchRepeatedSeparator :: "string \<Rightarrow> (string \<times> string) option" where
  "matchRepeatedSeparator s =
     (case skipSeparators (skipSpaces s) of (k, rest) \<Rightarrow> if k \<ge> 2 then Some ('' - '', rest) else None)"

definition cleanupEmptyFilenameDecorations :: "string \<Rightarrow> string" where
  "cleanupEmptyFilenameDecorations value =
     trim_cut ('' '' # filenameSeparators)
       (join_on SPACE (Fields (replace_match matchRepeatedSeparator
          (replace_match matchDanglingSeparator (replace_match matchEmptyGroup value)))))"

definition isOptionalFilenamePlaceholder :: "string \<Rightarrow> bool" where
  "isOptionalFilenamePlaceholder placeholder \<longleftrightarrow>
     placeholder \<in> {''{isrc}'', ''{provider}'', ''{platform}'', ''{provider_id}'', ''{id}''}"

definition placeholders :: "track_meta \<Rightarrow> (string \<times> string) list" where
  "placeholders m =
     [(''{title}'', getString m ''title''),
      (''{artist}'', getString m ''artist''),
      (''{album}'', getString m ''album''),
      (''{track}'', formatTrackNumber (getInt m ''track'')),
      (''{track_raw}'', formatRawNumber (getInt m ''track'')),
      (''{playlist_position}'', formatTrackNumber (getPlaylistPosition m)),
      (''{playlist position}'', formatTrackNumber (getPlaylistPosition m)),
      (''{playlistPosition}'', formatTrackNumber (getPlaylistPosition m)),
      (''{position}'', formatTrackNumber (getPlaylistPosition m)),
      (''{playlist_position_raw}'', formatRawNumber (getPlaylistPosition m)),
      (''{year}'', (if getString m ''year'' = '''' then extractYear (getDateValue m) else getString m ''year'')),
      (''{date}'', getDateValue m),
      (''{disc}'', formatDiscNumber (getInt m ''disc'')),
      (''{disc_raw}'', formatRawNumber (getInt m ''disc'')),
      (''{quality}'', getString m ''quality''),
      (''{quality_variant}'', getString m ''quality_variant''),
      (''{isrc}'', getString m ''isrc''),
      (''{provider}'', getString m ''provider''),
      (''{platform}'', getString m ''provider''),
      (''{provider_id}'', getString m ''provider_id''),
      (''{id}'', getString m ''provider_id'')]"

definition fillPlaceholder :: "string \<times> string \<Rightarrow> bool \<times> string \<Rightarrow> bool \<times> string" where
  "fillPlaceholder = (\<lambda>(placeholder, value) (hasEmpty, result).
     (hasEmpty \<or> value = '''' \<and> isOptionalFilenamePlaceholder placeholder \<and> contains placeholder result,
      replace_all placeholder value result))"

definition buildFilenameFromTemplate ::
  "((string \<times> string) list \<Rightarrow> (string \<times> string) list) \<Rightarrow> 'd time_lib \<Rightarrow> string \<Rightarrow> track_meta \<Rightarrow> string" where
  "buildFilenameFromTemplate walk lib template0 m =
     (let template = (if template0 = '''' then ''{artist} - {title}'' else template0);
          result0 = replaceDateFormatPlaceholders lib (replaceFormattedNumberPlaceholders template m) m;
          filled = fold fillPlaceholder (walk (placeholders m)) (False, result0)
      in if fst filled then cleanupEmptyFilenameDecorations (snd filled) else snd filled)"

section \<open>Safe names are safe\<close>

definition okByte :: "char \<Rightarrow> bool" where
  "okByte c \<longleftrightarrow> \<not> invalidChar c \<and> byte c \<noteq> 127"

definition safeText :: "string \<Rightarrow> bool" where
  "safeText s \<longleftrightarrow> (\<forall>c \<in> set s. okByte c)"

definition safeName :: "string \<Rightarrow> bool" where
  "safeName s \<longleftrightarrow> s \<noteq> '''' \<and> length s \<le> maxSanitizedFilenameBytes \<and> valid_utf8 s \<and> safeText s"

lemma safeText_mono: "set s \<subseteq> set t \<Longrightarrow> safeText t \<Longrightarrow> safeText s"
  by (auto simp: safeText_def)

lemma safeText_append [simp]: "safeText (s @ t) \<longleftrightarrow> safeText s \<and> safeText t"
  by (auto simp: safeText_def)

lemma okByte_high: "128 \<le> byte c \<Longrightarrow> okByte c"
  by (auto simp: okByte_def invalidChar_def byte_def)

lemma okByte_SPACE: "okByte SPACE"
  by code_simp

lemma cutset_whole: "\<forall>c \<in> set cs. byte c < 128 \<Longrightarrow> \<forall>r \<in> set (cutset cs). whole_rune r"
  by (auto simp: cutset_def whole_rune_def rune_size_def rune_len_def)

text \<open>A rune of more than one byte has no byte below 128.\<close>

lemma whole_bytes:
  assumes "whole_rune r" "c \<in> set r" "byte c < 128"
  shows "r = [c]"
proof -
  obtain d rest where r: "r = d # rest" "rune_len d = length r" "list_all cont_byte rest"
    using whole_runeE [OF assms(1)] by metis
  have "c \<notin> set rest" using r(3) assms(3) by (auto simp: list_all_iff cont_byte_def)
  then have c: "c = d" using assms(2) r(1) by simp
  then have "rune_len d = 1" using assms(3) by (simp add: rune_len_def Let_def)
  then show ?thesis using r c by simp
qed

lemma cleanRunes_safe:
  assumes "\<forall>c \<in> set s. \<not> invalidChar c"
  shows "safeText (cleanRunes s)"
  unfolding safeText_def
proof
  fix c assume "c \<in> set (cleanRunes s)"
  then obtain seg where seg: "seg \<in> set (segments s)" "\<not> droppedRune (runeValue seg)" "c \<in> set (runeOf seg)"
    by (auto simp: cleanRunes_def)
  show "okByte c"
  proof (cases "128 \<le> byte c")
    case False
    then have r: "runeOf seg = [c]" using whole_bytes [of "runeOf seg" c] seg(3) by simp
    then have "seg = [c]" using False by (auto simp: runeOf_def REPLACEMENT_def split: if_splits)
    then have "c \<in> set s" using seg(1) segments_set [of seg s c] by simp
    then have "\<not> invalidChar c" using assms by simp
    moreover have "byte c \<noteq> 127" using seg(2) r by (auto simp: runeValue_def droppedRune_def)
    ultimately show ?thesis by (simp add: okByte_def)
  qed (rule okByte_high)
qed

lemma set_squeeze: "set (squeeze s) \<subseteq> set s"
  by (induction s rule: squeeze.induct) auto

lemma tidy_safe: "safeText s \<Longrightarrow> safeText (tidy s)"
proof -
  assume s: "safeText s"
  define t where "t = trim_cut (cutset [DOT, SPACE]) (trim_space s)"
  have t: "safeText t" unfolding t_def
    by (rule safeText_mono [OF order_trans [OF set_trim_cut set_trim_space] s])
  have "set f \<subseteq> set t" if "f \<in> set (Fields t)" for f
    using set_fieldsFrom [of f "''''" t] that by (simp add: Fields_def)
  then have "set (join_on SPACE (Fields t)) \<subseteq> insert SPACE (set t)"
    using set_join_on [of SPACE "Fields t"] by fastforce
  then have "safeText (join_on SPACE (Fields t))" using t okByte_SPACE by (auto simp: safeText_def)
  then show ?thesis unfolding tidy_def t_def [symmetric]
    by (rule safeText_mono [OF order_trans [OF set_trim_cut set_squeeze]])
qed

lemma toValid_valid: "whole_rune new \<Longrightarrow> valid_utf8 (toValid new bad segs)"
  by (induction new bad segs rule: toValid.induct) (auto intro: valid_rune valid_Nil)

lemma set_toValid: "set (toValid new bad segs) \<subseteq> set new \<union> set (concat segs)"
  by (induction new bad segs rule: toValid.induct) auto

lemma ValidString_valid: "ValidString s \<longleftrightarrow> valid_utf8 s"
  using segments_valid valid_segments by (auto simp: ValidString_def list_all_iff)

lemma truncAt_prefix: "\<exists>segs'. truncAt limit used segs = concat segs' \<and> set segs' \<subseteq> set segs"
proof (induction limit used segs rule: truncAt.induct)
  case (2 limit used seg segs)
  show ?case
  proof (cases "int (used + length (runeOf seg)) > limit")
    case True
    then have "truncAt limit used (seg # segs) = concat []" by (simp add: Let_def)
    then show ?thesis by (metis empty_set empty_subsetI)
  next
    case False
    then obtain segs' where "truncAt limit (used + length (runeOf seg)) segs = concat segs'" "set segs' \<subseteq> set segs"
      using 2 by blast
    then have "truncAt limit used (seg # segs) = concat (seg # segs')" "set (seg # segs') \<subseteq> set (seg # segs)"
      using False by (auto simp: Let_def)
    then show ?thesis by metis
  qed
qed (rule exI [of _ "[]"], simp)

lemma truncAt_length:
  "int used \<le> limit \<Longrightarrow> \<forall>r \<in> set segs. whole_rune r \<Longrightarrow> int used + int (length (truncAt limit used segs)) \<le> limit"
proof (induction limit used segs rule: truncAt.induct)
  case (2 limit used seg segs)
  then show ?case by (auto simp: Let_def runeOf_def)
qed simp

lemma truncate_safe:
  assumes "valid_utf8 s"
  shows "valid_utf8 (truncateUTF8Bytes s n) \<and> set (truncateUTF8Bytes s n) \<subseteq> set s
    \<and> (0 < n \<longrightarrow> int (length (truncateUTF8Bytes s n)) \<le> n) \<and> length (truncateUTF8Bytes s n) \<le> length s"
proof (cases "n \<le> 0 \<or> int (length s) \<le> n")
  case True
  then show ?thesis using assms by (auto simp: truncateUTF8Bytes_def)
next
  case False
  then have t: "truncateUTF8Bytes s n = truncAt n 0 (segments s)" by (simp add: truncateUTF8Bytes_def)
  obtain segs' where segs': "truncAt n 0 (segments s) = concat segs'" "set segs' \<subseteq> set (segments s)"
    using truncAt_prefix by blast
  have whole: "\<forall>r \<in> set (segments s). whole_rune r" by (rule valid_segments [OF assms])
  have "set (concat segs') \<subseteq> set s" using segs'(2) segments_set [of _ s] by auto
  moreover have "valid_utf8 (concat segs')" using whole segs'(2) by (intro concat_valid) auto
  moreover have "int (length (truncAt n 0 (segments s))) \<le> n"
    using truncAt_length [of 0 n "segments s"] whole False by simp
  ultimately show ?thesis using t segs'(1) False by simp
qed

text \<open>The cut at 200 bytes with the trimming behind it.\<close>

definition shorten :: "string list \<Rightarrow> int \<Rightarrow> string \<Rightarrow> string" where
  "shorten cs n s = trim_space (trim_cut cs (truncateUTF8Bytes s n))"

lemma shorten_safe:
  assumes "valid_utf8 s" "safeText s" "0 < n" "\<forall>c \<in> set cs. byte c < 128"
  shows "valid_utf8 (shorten (cutset cs) n s) \<and> safeText (shorten (cutset cs) n s) \<and> int (length (shorten (cutset cs) n s)) \<le> n
    \<and> length (shorten (cutset cs) n s) \<le> length s"
proof -
  define t where "t = truncateUTF8Bytes s n"
  have t: "valid_utf8 t" "set t \<subseteq> set s" "int (length t) \<le> n" "length t \<le> length s"
    using truncate_safe [OF assms(1), of n] assms(3) by (simp_all add: t_def)
  have "set (shorten (cutset cs) n s) \<subseteq> set t" unfolding shorten_def t_def [symmetric]
    by (rule order_trans [OF set_trim_space set_trim_cut])
  moreover have "length (shorten (cutset cs) n s) \<le> length t" unfolding shorten_def t_def [symmetric]
    by (rule order_trans [OF length_trim_space_le length_trim_cut])
  moreover have "valid_utf8 (shorten (cutset cs) n s)" unfolding shorten_def t_def [symmetric]
    by (intro valid_trim_space valid_trim_cut t(1) cutset_whole assms(4))
  ultimately show ?thesis using t safeText_mono [OF _ assms(2)] by auto
qed

lemma sanitizeFilename_safe: "safeName (sanitizeFilename filename)"
proof -
  define s1 where "s1 = map (\<lambda>c. if invalidChar c then SPACE else c) (replace_all ''/'' '' '' filename)"
  define s2 where "s2 = tidy (cleanRunes s1)"
  define s3 where "s3 = (if ValidString s2 then s2 else toValid ''_'' False (segments s2))"
  define s4 where "s4 = (if length s3 > maxSanitizedFilenameBytes
    then trim_cut (cutset [UNDERSCORE, SPACE]) (shorten (cutset [DOT, SPACE]) (int maxSanitizedFilenameBytes) s3) else s3)"
  have low: "byte DOT < 128" "byte SPACE < 128" "byte UNDERSCORE < 128" by code_simp+
  have "\<forall>c \<in> set s1. \<not> invalidChar c" using okByte_SPACE by (auto simp: s1_def okByte_def)
  then have s2: "safeText s2" unfolding s2_def by (intro tidy_safe cleanRunes_safe)
  have u: "whole_rune ''_''" "safeText ''_''" by code_simp+
  have s3: "valid_utf8 s3" "safeText s3"
    using s2 u set_toValid [of "''_''" False "segments s2"] toValid_valid [OF u(1), of False "segments s2"]
    by (auto simp: s3_def ValidString_valid safeText_def)
  have sh: "valid_utf8 (shorten (cutset [DOT, SPACE]) (int maxSanitizedFilenameBytes) s3)
    \<and> safeText (shorten (cutset [DOT, SPACE]) (int maxSanitizedFilenameBytes) s3)
    \<and> int (length (shorten (cutset [DOT, SPACE]) (int maxSanitizedFilenameBytes) s3)) \<le> int maxSanitizedFilenameBytes
    \<and> length (shorten (cutset [DOT, SPACE]) (int maxSanitizedFilenameBytes) s3) \<le> length s3"
    by (rule shorten_safe [OF s3]) (use low in \<open>simp_all add: maxSanitizedFilenameBytes_def\<close>)
  have wh: "\<forall>r \<in> set (cutset [UNDERSCORE, SPACE]). whole_rune r" by (rule cutset_whole) (use low in simp)
  have s4: "valid_utf8 s4 \<and> safeText s4 \<and> length s4 \<le> maxSanitizedFilenameBytes"
  proof (cases "length s3 > maxSanitizedFilenameBytes")
    case True
    define t where "t = shorten (cutset [DOT, SPACE]) (int maxSanitizedFilenameBytes) s3"
    have t: "valid_utf8 t" "safeText t" "length t \<le> maxSanitizedFilenameBytes" using sh by (simp_all add: t_def)
    have "s4 = trim_cut (cutset [UNDERSCORE, SPACE]) t" using True by (simp add: s4_def t_def)
    then show ?thesis using t valid_trim_cut [OF t(1) wh] safeText_mono [OF set_trim_cut t(2)]
        order_trans [OF length_trim_cut t(3)] by simp
  qed (use s3 in \<open>simp add: s4_def\<close>)
  have "sanitizeFilename filename = (if s4 = '''' then ''Unknown'' else s4)"
    by (simp only: sanitizeFilename_def Let_def s1_def s2_def s3_def s4_def shorten_def)
  moreover have "safeName ''Unknown''"
  proof -
    have "ValidString ''Unknown''" "safeText ''Unknown''" by code_simp+
    then show ?thesis by (simp add: safeName_def ValidString_valid maxSanitizedFilenameBytes_def)
  qed
  ultimately show ?thesis using s4 by (simp add: safeName_def)
qed

lemma sanitizeToken_safe: "safeName (sanitizeFilenamePreservingToken filename token0)"
proof -
  define token where "token = trim_space token0"
  define sfx where "sfx = '' - '' @ sanitizeFilename token"
  define rawPrefix where "rawPrefix = trim_cut (cutset [SPACE, UNDERSCORE, CHR ''-'']) (replace_all token '''' filename)"
  define n where "n = int maxSanitizedFilenameBytes - int (length sfx)"
  define prefix where "prefix = shorten (cutset [DOT, SPACE, UNDERSCORE, CHR ''-'']) n (sanitizeFilename rawPrefix)"
  have tok: "safeName (sanitizeFilename token)" by (rule sanitizeFilename_safe)
  have dash: "valid_utf8 '' - ''" "safeText '' - ''"
  proof -
    have "ValidString '' - ''" "safeText '' - ''" by code_simp+
    then show "valid_utf8 '' - ''" "safeText '' - ''" by (simp_all add: ValidString_valid)
  qed
  have "valid_utf8 sfx \<and> safeText sfx" unfolding sfx_def safeText_append
    using tok dash valid_utf8_append [OF dash(1)] by (simp only: safeName_def)
  then have sfx: "valid_utf8 sfx" "safeText sfx" by simp_all
  have eq: "sanitizeFilenamePreservingToken filename token0 =
    (if token = '''' \<or> \<not> contains token filename \<or> contains token (sanitizeFilename filename) then sanitizeFilename filename
     else if n \<le> 0 then truncateUTF8Bytes (sanitizeFilename token) (int maxSanitizedFilenameBytes)
     else if prefix = '''' \<or> prefix = ''Unknown'' then sanitizeFilename token else prefix @ sfx)"
    by (simp only: sanitizeFilenamePreservingToken_def Let_def token_def sfx_def rawPrefix_def n_def prefix_def shorten_def)
  have trunc: "truncateUTF8Bytes (sanitizeFilename token) (int maxSanitizedFilenameBytes) = sanitizeFilename token"
    using tok by (simp add: truncateUTF8Bytes_def safeName_def)
  have joined: "safeName (prefix @ sfx)" if n: "\<not> n \<le> 0"
  proof -
    have raw: "safeName (sanitizeFilename rawPrefix)" by (rule sanitizeFilename_safe)
    have low: "byte DOT < 128" "byte SPACE < 128" "byte UNDERSCORE < 128" "byte (CHR ''-'') < 128" by code_simp+
    have "valid_utf8 prefix \<and> safeText prefix \<and> int (length prefix) \<le> n \<and> length prefix \<le> length (sanitizeFilename rawPrefix)"
      unfolding prefix_def by (rule shorten_safe) (use raw n low in \<open>simp_all add: safeName_def\<close>)
    then show ?thesis using sfx by (auto simp: safeName_def valid_utf8_append n_def sfx_def)
  qed
  show ?thesis unfolding eq trunc using tok joined sanitizeFilename_safe by simp
qed


definition exampleTags :: track_meta where
  "exampleTags = [(''title'', MString ''{artist}''), (''artist'', MString ''Nobody''), (''isrc'', MString '''')]"

definition exampleDates :: "unit time_lib" where
  "exampleDates = \<lparr>tlParse = (\<lambda>_ _. None), tlYear = (\<lambda>_. ()), tlFormat = (\<lambda>_ _. '''')\<rparr>"

lemma example_order: "map_order (placeholders m) (rev (placeholders m))"
  unfolding map_order_def by (simp add: mset_rev)

text \<open>
  the placeholders are filled one after the other in the order in which Go happens to walk a
  map, so the name of a track whose title contains a placeholder is not determined by the
  request: two walks of the same map give two names.
\<close>

theorem filename_depends_on_map_order:
  "\<exists>walk1 walk2. (\<forall>m. map_order (placeholders m) (walk1 (placeholders m)) \<and> map_order (placeholders m) (walk2 (placeholders m)))
     \<and> buildFilenameFromTemplate walk1 exampleDates ''{artist} - {title}'' exampleTags
       \<noteq> buildFilenameFromTemplate walk2 exampleDates ''{artist} - {title}'' exampleTags"
proof (intro exI conjI allI)
  show "map_order (placeholders m) (id (placeholders m))" for m by (simp add: map_order_id)
  show "map_order (placeholders m) (rev (placeholders m))" for m by (rule example_order)
  have "buildFilenameFromTemplate id exampleDates ''{artist} - {title}'' exampleTags = ''Nobody - Nobody''" by code_simp
  moreover have "buildFilenameFromTemplate rev exampleDates ''{artist} - {title}'' exampleTags = ''Nobody - {artist}''" by code_simp
  ultimately show "buildFilenameFromTemplate id exampleDates ''{artist} - {title}'' exampleTags
       \<noteq> buildFilenameFromTemplate rev exampleDates ''{artist} - {title}'' exampleTags" by simp
qed

end
