(* ===== verification/TitleMatch.thy ===== *)
theory TitleMatch
  imports Text Caches "HOL-Library.Char_ord" "HOL-Library.List_Lexorder" "HOL-Library.Signed_Division"
begin

text \<open>
  Whether a track that a provider offers is the one that was asked for
  (\<open>go_backend/title_match_utils.go\<close>): loose comparison of titles and artists, and the decision
  over the recording code, the names, the album and the duration. The tables of the package
  \<open>unicode\<close>, case folding, lower case beyond ASCII and the decomposition of
  \<open>golang.org/x/text/unicode/norm\<close> are parameters.
\<close>

record unicode =
  ucLower :: "string \<Rightarrow> string"
  ucFold :: "string \<Rightarrow> string"
  ucNFD :: "string \<Rightarrow> string"
  ucLetter :: "nat \<Rightarrow> bool"
  ucNumber :: "nat \<Rightarrow> bool"
  ucPunct :: "nat \<Rightarrow> bool"
  ucMark :: "nat \<Rightarrow> bool"

section \<open>Loose names\<close>

definition lowerTrim :: "unicode \<Rightarrow> string \<Rightarrow> string" where
  "lowerTrim uc s = trim_space (to_lower (ucLower uc) s)"

text \<open>\<open>strings.EqualFold\<close>: texts are equal when every rune folds to the same.\<close>

definition EqualFold :: "unicode \<Rightarrow> string \<Rightarrow> string \<Rightarrow> bool" where
  "EqualFold uc a b \<longleftrightarrow> ucFold uc a = ucFold uc b"

definition wordRune :: "unicode \<Rightarrow> nat \<Rightarrow> bool" where
  "wordRune uc r \<longleftrightarrow> ucLetter uc r \<or> ucNumber uc r"

definition spaceSegment :: "string \<Rightarrow> bool" where
  "spaceSegment seg \<longleftrightarrow> seg \<in> set space_runes"

definition separatorRune :: "nat \<Rightarrow> bool" where
  "separatorRune r \<longleftrightarrow> r \<in> set [47, 92, 95, 45, 124, 46, 38, 43]"

definition writeNormalizedArtistRune :: "string \<Rightarrow> string" where
  "writeNormalizedArtistRune seg =
     (let r = runeValue seg
      in if r = 273 then ''dj'' else if r = 223 then ''ss'' else if r = 230 then ''ae'' else if r = 339 then ''oe''
         else runeOf seg)"

definition looseRune :: "unicode \<Rightarrow> (string \<Rightarrow> string) \<Rightarrow> string \<Rightarrow> string" where
  "looseRune uc write seg =
     (let r = runeValue seg
      in if wordRune uc r then write seg
         else if spaceSegment seg \<or> separatorRune r then '' '' else '''')"

definition joinFields :: "string \<Rightarrow> string" where
  "joinFields s = join_on (CHR '' '') (Fields s)"

definition normalizeLooseTitle :: "unicode \<Rightarrow> string \<Rightarrow> string" where
  "normalizeLooseTitle uc title =
     (if lowerTrim uc title = '''' then ''''
      else joinFields (concat (map (looseRune uc runeOf) (segments (lowerTrim uc title)))))"

definition normalizeLooseArtistName :: "unicode \<Rightarrow> string \<Rightarrow> string" where
  "normalizeLooseArtistName uc name =
     (if lowerTrim uc name = '''' then ''''
      else joinFields (concat (map (\<lambda>seg. if ucMark uc (runeValue seg) then '''' else looseRune uc writeNormalizedArtistRune seg)
             (segments (ucNFD uc (lowerTrim uc name))))))"

definition hasAlphaNumericRunes :: "unicode \<Rightarrow> string \<Rightarrow> bool" where
  "hasAlphaNumericRunes uc value = list_ex (\<lambda>seg. wordRune uc (runeValue seg)) (segments value)"

definition normalizeSymbolOnlyTitle :: "unicode \<Rightarrow> string \<Rightarrow> string" where
  "normalizeSymbolOnlyTitle uc title =
     concat (map runeOf (filter (\<lambda>seg. \<not> (wordRune uc (runeValue seg) \<or> spaceSegment seg \<or> ucPunct uc (runeValue seg)
       \<or> ucMark uc (runeValue seg))) (segments (lowerTrim uc title))))"

section \<open>Artists\<close>

definition artistSeparators :: "string list" where
  "artistSeparators = ['' feat. '', '' feat '', '' ft. '', '' ft '', '' & '', '' and '', '', '', '' x '']"

definition splitArtists :: "string \<Rightarrow> string list" where
  "splitArtists artists =
     filter (\<lambda>p. p \<noteq> '''') (map trim_space (split_on (CHR ''|'') (fold (\<lambda>sep s. replace_all sep ''|'' s) artistSeparators artists)))"

text \<open>The sort by exchange: the smallest element is moved to the front, then the rest is sorted.\<close>

fun exchange :: "'a :: linorder \<Rightarrow> 'a list \<Rightarrow> 'a \<times> 'a list" where
  "exchange x [] = (x, [])"
| "exchange x (y # ys) =
     (if x > y then (case exchange y ys of (m, r) \<Rightarrow> (m, x # r)) else (case exchange x ys of (m, r) \<Rightarrow> (m, y # r)))"

lemma exchange_length: "length (snd (exchange x ys)) = length ys"
  by (induction x ys rule: exchange.induct) (auto split: prod.splits)

function exchangeSort :: "'a :: linorder list \<Rightarrow> 'a list" where
  "exchangeSort [] = []"
| "exchangeSort (x # xs) = fst (exchange x xs) # exchangeSort (snd (exchange x xs))"
  by pat_completeness auto
termination by (relation "measure length") (auto simp: exchange_length)

definition sameWordsUnordered :: "string \<Rightarrow> string \<Rightarrow> bool" where
  "sameWordsUnordered a b \<longleftrightarrow>
     length (Fields a) = length (Fields b) \<and> Fields a \<noteq> [] \<and> exchangeSort (Fields a) = exchangeSort (Fields b)"

definition latinRune :: "nat \<Rightarrow> bool" where
  "latinRune r \<longleftrightarrow> r < 128 \<or> 256 \<le> r \<and> r \<le> 591 \<or> 7680 \<le> r \<and> r \<le> 7935 \<or> 192 \<le> r \<and> r \<le> 255"

definition foreignRune :: "nat \<Rightarrow> bool" where
  "foreignRune r \<longleftrightarrow> 19968 \<le> r \<and> r \<le> 40959 \<or> 12352 \<le> r \<and> r \<le> 12447 \<or> 12448 \<le> r \<and> r \<le> 12543
     \<or> 44032 \<le> r \<and> r \<le> 55215 \<or> 1536 \<le> r \<and> r \<le> 1791 \<or> 1024 \<le> r \<and> r \<le> 1279"

definition isLatinScript :: "string \<Rightarrow> bool" where
  "isLatinScript value = list_all (\<lambda>seg. latinRune (runeValue seg) \<or> \<not> foreignRune (runeValue seg)) (segments value)"

definition containsEither :: "string \<Rightarrow> string \<Rightarrow> bool" where
  "containsEither a b \<longleftrightarrow> contains b a \<or> contains a b"

definition artistsMatch :: "unicode \<Rightarrow> string \<Rightarrow> string \<Rightarrow> bool" where
  "artistsMatch uc expectedArtist foundArtist \<longleftrightarrow>
     (let normExpected = normalizeLooseArtistName uc expectedArtist; normFound = normalizeLooseArtistName uc foundArtist
      in normExpected = normFound
         \<or> containsEither normExpected normFound
         \<or> list_ex (\<lambda>expected. list_ex (\<lambda>found. expected = found \<or> containsEither expected found \<or> sameWordsUnordered expected found)
              (splitArtists normFound)) (splitArtists normExpected)
         \<or> isLatinScript expectedArtist \<noteq> isLatinScript foundArtist)"

section \<open>Titles\<close>

definition versionPatterns :: "string list" where
  "versionPatterns =
     [''remaster'', ''remastered'', ''deluxe'', ''bonus'', ''single'', ''album version'', ''radio edit'', ''original mix'',
      ''extended'', ''club mix'', ''remix'', ''live'', ''acoustic'', ''demo'']"

definition dashPatterns :: "string list" where
  "dashPatterns =
     ['' - remaster'', '' - remastered'', '' - single version'', '' - radio edit'', '' - live'', '' - acoustic'', '' - demo'', '' - remix'']"

text \<open>A group in brackets at the end that names a version is removed, as long as there is one.\<close>

function dropVersions :: "unicode \<Rightarrow> string \<Rightarrow> string \<Rightarrow> string \<Rightarrow> string" where
  "dropVersions uc left right cleaned =
     (case (last_index_of left cleaned, last_index_of right cleaned) of
        (Some start, Some stop) \<Rightarrow>
          if stop > start \<and> start < length cleaned
             \<and> list_ex (\<lambda>p. contains p (to_lower (ucLower uc) (take (stop - start - 1) (drop (start + 1) cleaned)))) versionPatterns
          then dropVersions uc left right (trim_space (take start cleaned) @ drop (stop + 1) cleaned)
          else cleaned
      | _ \<Rightarrow> cleaned)"
  by pat_completeness auto
termination
proof (relation "measure (\<lambda>(_, _, _, s). length s)")
  fix uc :: unicode and left right cleaned :: string and p start stop
  assume a: "stop > start \<and> start < length cleaned
    \<and> list_ex (\<lambda>p. contains p (to_lower (ucLower uc) (take (stop - start - 1) (drop (start + 1) cleaned)))) versionPatterns"
  have "length (trim_space (take start cleaned)) \<le> start" using length_trim_space_le [of "take start cleaned"] a by simp
  then show "((uc, left, right, trim_space (take start cleaned) @ drop (stop + 1) cleaned), uc, left, right, cleaned)
      \<in> measure (\<lambda>(_, _, _, s). length s)" using conjunct1 [OF a] conjunct1 [OF conjunct2 [OF a]] by auto
qed simp

declare dropVersions.simps [simp del]

definition dropDash :: "unicode \<Rightarrow> string \<Rightarrow> string \<Rightarrow> string" where
  "dropDash uc pat cleaned =
     (if starts_with (rev pat) (rev (to_lower (ucLower uc) cleaned)) then take (length cleaned - length pat) cleaned else cleaned)"

function singleSpaces :: "string \<Rightarrow> string" where
  "singleSpaces s = (if contains ''  '' s then singleSpaces (replace_all ''  '' '' '' s) else s)"
  by pat_completeness auto
termination by (relation "measure length") (simp_all add: replace_all_shorter [where old = "''  ''", simplified])

declare singleSpaces.simps [simp del]

definition cleanTitle :: "unicode \<Rightarrow> string \<Rightarrow> string" where
  "cleanTitle uc title =
     trim_space (singleSpaces (fold (dropDash uc) dashPatterns
       (dropVersions uc ''['' '']'' (dropVersions uc ''('' '')'' title))))"

definition cutAt :: "string \<Rightarrow> string \<Rightarrow> nat \<Rightarrow> nat" where
  "cutAt sub title cutIdx = (case index_of sub title of None \<Rightarrow> cutIdx | Some i \<Rightarrow> if i > 0 \<and> i < cutIdx then i else cutIdx)"

definition extractCoreTitle :: "string \<Rightarrow> string" where
  "extractCoreTitle title =
     trim_space (take (cutAt '' - '' title (cutAt ''['' title (cutAt ''('' title (length title)))) title)"

definition titlesMatch :: "unicode \<Rightarrow> string \<Rightarrow> string \<Rightarrow> bool" where
  "titlesMatch uc expectedTitle foundTitle \<longleftrightarrow>
     (let normExpected = to_lower (ucLower uc) (trim_space expectedTitle); normFound = to_lower (ucLower uc) (trim_space foundTitle);
          cleanExpected = cleanTitle uc normExpected; cleanFound = cleanTitle uc normFound;
          coreExpected = extractCoreTitle normExpected; coreFound = extractCoreTitle normFound;
          looseExpected = normalizeLooseTitle uc normExpected; looseFound = normalizeLooseTitle uc normFound;
          expectedSymbols = normalizeSymbolOnlyTitle uc expectedTitle; foundSymbols = normalizeSymbolOnlyTitle uc foundTitle
      in normExpected = normFound
         \<or> containsEither normExpected normFound
         \<or> cleanExpected = cleanFound
         \<or> cleanExpected \<noteq> '''' \<and> cleanFound \<noteq> '''' \<and> containsEither cleanExpected cleanFound
         \<or> coreExpected \<noteq> '''' \<and> coreFound \<noteq> '''' \<and> coreExpected = coreFound
         \<or> looseExpected \<noteq> '''' \<and> looseFound \<noteq> '''' \<and> (looseExpected = looseFound \<or> containsEither looseExpected looseFound)
         \<or> (\<not> hasAlphaNumericRunes uc expectedTitle \<or> \<not> hasAlphaNumericRunes uc foundTitle)
           \<and> trim_space expectedTitle \<noteq> '''' \<and> trim_space foundTitle \<noteq> ''''
           \<and> expectedSymbols \<noteq> '''' \<and> foundSymbols \<noteq> '''' \<and> expectedSymbols = foundSymbols)"

section \<open>The decision\<close>

record resolved_track =
  rtTitle :: string
  rtArtistName :: string
  rtAlbumName :: string
  rtISRC :: string
  rtDuration :: int
  rtSkipNameVerification :: bool

definition exactLooseIdentityMatch :: "unicode \<Rightarrow> (string \<Rightarrow> string) \<Rightarrow> string \<Rightarrow> string \<Rightarrow> bool" where
  "exactLooseIdentityMatch uc nrm expected found =
     (if nrm expected \<noteq> '''' \<and> nrm found \<noteq> '''' then nrm expected = nrm found
      else EqualFold uc (trim_space expected) (trim_space found))"

definition expectedSeconds :: "download_request \<Rightarrow> int" where
  "expectedSeconds req = drDurationMS req sdiv 1000"

definition durationMatchesRequest :: "download_request \<Rightarrow> resolved_track \<Rightarrow> bool" where
  "durationMatchesRequest req resolved \<longleftrightarrow>
     \<not> (expectedSeconds req \<le> 0 \<or> rtDuration resolved \<le> 0) \<and> \<bar>expectedSeconds req - rtDuration resolved\<bar> \<le> 10"

definition hasStrongTrackIdentity :: "unicode \<Rightarrow> download_request \<Rightarrow> resolved_track \<Rightarrow> bool" where
  "hasStrongTrackIdentity uc req resolved \<longleftrightarrow>
     \<not> (drTrackName req = '''' \<or> rtTitle resolved = '''' \<or> drArtistName req = '''' \<or> rtArtistName resolved = '''')
     \<and> exactLooseIdentityMatch uc (normalizeLooseTitle uc) (drTrackName req) (rtTitle resolved)
     \<and> (exactLooseIdentityMatch uc (normalizeLooseArtistName uc) (drArtistName req) (rtArtistName resolved)
        \<or> artistsMatch uc (drArtistName req) (rtArtistName resolved) \<and> durationMatchesRequest req resolved)"

definition exactISRC :: "unicode \<Rightarrow> download_request \<Rightarrow> resolved_track \<Rightarrow> bool" where
  "exactISRC uc req resolved \<longleftrightarrow>
     drISRC req \<noteq> '''' \<and> rtISRC resolved \<noteq> '''' \<and> EqualFold uc (trim_space (drISRC req)) (trim_space (rtISRC resolved))"

definition namesAccepted :: "unicode \<Rightarrow> download_request \<Rightarrow> resolved_track \<Rightarrow> bool" where
  "namesAccepted uc req resolved \<longleftrightarrow>
     (let conflictingISRC = (drISRC req \<noteq> '''' \<and> rtISRC resolved \<noteq> '''' \<and> \<not> exactISRC uc req resolved)
      in if drArtistName req \<noteq> '''' \<and> rtArtistName resolved \<noteq> '''' \<and> \<not> artistsMatch uc (drArtistName req) (rtArtistName resolved)
         then False
         else if drTrackName req \<noteq> '''' \<and> rtTitle resolved \<noteq> '''' \<and> \<not> titlesMatch uc (drTrackName req) (rtTitle resolved)
         then False
         else if drAlbumName req \<noteq> '''' \<and> rtAlbumName resolved \<noteq> '''' \<and> \<not> titlesMatch uc (drAlbumName req) (rtAlbumName resolved)
         then \<not> (conflictingISRC \<or> \<not> hasStrongTrackIdentity uc req resolved)
         else True)"

definition trackMatchesRequest :: "unicode \<Rightarrow> download_request \<Rightarrow> resolved_track \<Rightarrow> bool" where
  "trackMatchesRequest uc req resolved \<longleftrightarrow>
     (exactISRC uc req resolved \<or> rtSkipNameVerification resolved \<or> namesAccepted uc req resolved)
     \<and> \<not> (expectedSeconds req > 0 \<and> rtDuration resolved > 0 \<and> \<bar>expectedSeconds req - rtDuration resolved\<bar> > 10)"

section \<open>The comparison is symmetric\<close>

lemma exchange_mset: "exchange x ys = (m, r) \<Longrightarrow> mset (m # r) = mset (x # ys)"
  by (induction x ys arbitrary: m r rule: exchange.induct) (auto split: if_splits prod.splits)

lemma exchange_least: "exchange x ys = (m, r) \<Longrightarrow> m \<le> x \<and> (\<forall>y \<in> set r. m \<le> y)"
proof (induction x ys arbitrary: m r rule: exchange.induct)
  case (2 x y ys)
  show ?case
  proof (cases "x > y")
    case True
    obtain m' r' where e: "exchange y ys = (m', r')" by fastforce
    then have "m' \<le> y \<and> (\<forall>z \<in> set r'. m' \<le> z)" using "2.IH"(1) True by blast
    then show ?thesis using "2.prems" True e by auto
  next
    case False
    obtain m' r' where e: "exchange x ys = (m', r')" by fastforce
    then have "m' \<le> x \<and> (\<forall>z \<in> set r'. m' \<le> z)" using "2.IH"(2) False by blast
    then show ?thesis using "2.prems" False e by auto
  qed
qed simp

lemma mset_exchangeSort: "mset (exchangeSort xs) = mset xs"
proof (induction xs rule: exchangeSort.induct)
  case (2 x xs)
  obtain m r where e: "exchange x xs = (m, r)" by fastforce
  then show ?case using 2 exchange_mset [OF e] by simp
qed simp

lemma sorted_exchangeSort: "sorted (exchangeSort xs)"
proof (induction xs rule: exchangeSort.induct)
  case (2 x xs)
  obtain m r where e: "exchange x xs = (m, r)" by fastforce
  have "set (exchangeSort r) = set r" by (rule mset_eq_setD [OF mset_exchangeSort])
  then show ?case using 2 exchange_least [OF e] e by simp
qed simp

lemma exchangeSort_eq: "exchangeSort xs = sort xs"
  by (rule properties_for_sort [symmetric]) (simp_all add: mset_exchangeSort sorted_exchangeSort)

lemma sameWords_mset: "sameWordsUnordered a b \<longleftrightarrow> Fields a \<noteq> [] \<and> mset (Fields a) = mset (Fields b)"
proof -
  have "sort xs = sort ys \<longleftrightarrow> mset xs = mset ys" for xs ys :: "string list"
    by (metis mset_sort properties_for_sort sorted_sort)
  moreover have "mset xs = mset ys \<Longrightarrow> length xs = length ys" for xs ys :: "string list"
    by (metis size_mset)
  ultimately show ?thesis unfolding sameWordsUnordered_def exchangeSort_eq by blast
qed

lemma sameWords_sym: "sameWordsUnordered a b = sameWordsUnordered b a"
proof -
  have "mset (Fields a) = mset (Fields b) \<Longrightarrow> Fields a = [] \<longleftrightarrow> Fields b = []" by (metis mset_zero_iff)
  then show ?thesis unfolding sameWords_mset by metis
qed

lemma containsEither_sym: "containsEither a b = containsEither b a"
  by (auto simp: containsEither_def)

definition oneMatches :: "string \<Rightarrow> string \<Rightarrow> bool" where
  "oneMatches expected found \<longleftrightarrow> expected = found \<or> containsEither expected found \<or> sameWordsUnordered expected found"

lemma oneMatches_sym: "oneMatches a b = oneMatches b a"
  unfolding oneMatches_def using containsEither_sym sameWords_sym by metis

lemma artistsMatch_iff:
  "artistsMatch uc a b \<longleftrightarrow>
     (let x = normalizeLooseArtistName uc a; y = normalizeLooseArtistName uc b
      in x = y \<or> containsEither x y \<or> (\<exists>e \<in> set (splitArtists x). \<exists>f \<in> set (splitArtists y). oneMatches e f)
         \<or> isLatinScript a \<noteq> isLatinScript b)"
  by (simp add: artistsMatch_def oneMatches_def list_ex_iff Let_def)

lemma artistsMatch_half: "artistsMatch uc a b \<Longrightarrow> artistsMatch uc b a"
  unfolding artistsMatch_iff Let_def
proof (elim disjE bexE)
  fix e f
  assume "e \<in> set (splitArtists (normalizeLooseArtistName uc a))" "f \<in> set (splitArtists (normalizeLooseArtistName uc b))"
    "oneMatches e f"
  then show "normalizeLooseArtistName uc b = normalizeLooseArtistName uc a
      \<or> containsEither (normalizeLooseArtistName uc b) (normalizeLooseArtistName uc a)
      \<or> (\<exists>e \<in> set (splitArtists (normalizeLooseArtistName uc b)). \<exists>f \<in> set (splitArtists (normalizeLooseArtistName uc a)). oneMatches e f)
      \<or> isLatinScript b \<noteq> isLatinScript a"
    using oneMatches_sym by blast
qed (simp_all add: containsEither_sym)

lemma artistsMatch_sym: "artistsMatch uc a b = artistsMatch uc b a"
  using artistsMatch_half by blast

lemma titlesMatch_half: "titlesMatch uc a b \<Longrightarrow> titlesMatch uc b a"
  unfolding titlesMatch_def Let_def by (elim disjE conjE) (simp_all add: containsEither_sym)

text \<open>
  C24: the comparison does not depend on which side asked: titles and artists match in both
  directions or in neither, every title and artist matches itself, and two artists with the same
  words in any order match, since the words are compared as a multiset.
\<close>

theorem track_comparison_symmetric:
  "titlesMatch uc a b = titlesMatch uc b a \<and> artistsMatch uc a b = artistsMatch uc b a
   \<and> titlesMatch uc a a \<and> artistsMatch uc a a
   \<and> sameWordsUnordered a b = (Fields a \<noteq> [] \<and> mset (Fields a) = mset (Fields b))"
proof -
  have "titlesMatch uc a a" by (simp add: titlesMatch_def Let_def)
  moreover have "artistsMatch uc a a" by (simp add: artistsMatch_def Let_def)
  ultimately show ?thesis using titlesMatch_half artistsMatch_sym sameWords_mset by blast
qed

section \<open>Artists without letters\<close>

lemma contains_empty [simp]: "contains '''' s"
  unfolding contains_iff starts_with_def by (rule exI [of _ 0]) simp

lemma nameless_matches: "normalizeLooseArtistName uc b = '''' \<Longrightarrow> artistsMatch uc a b"
  by (simp add: artistsMatch_def Let_def containsEither_def)

definition asciiUnicode :: unicode where
  "asciiUnicode = \<lparr>ucLower = id, ucFold = map ascii_lower, ucNFD = id,
     ucLetter = (\<lambda>r. 65 \<le> r \<and> r \<le> 90 \<or> 97 \<le> r \<and> r \<le> 122), ucNumber = (\<lambda>r. 48 \<le> r \<and> r \<le> 57),
     ucPunct = (\<lambda>r. r < 128), ucMark = (\<lambda>_. False)\<rparr>"

text \<open>
  an artist whose name has no letter and no digit is normalised to nothing, and nothing is
  contained in every name: such a request accepts the track of any artist with that title and a
  close duration, even when both sides name different recordings and no album is there to tell.
\<close>

theorem nameless_artist_matches_all:
  assumes "normalizeLooseArtistName uc (drArtistName req) = ''''" and "drTrackName req = rtTitle resolved"
    and "rtAlbumName resolved = ''''" and "\<bar>expectedSeconds req - rtDuration resolved\<bar> \<le> 10"
  shows "trackMatchesRequest uc req resolved"
proof -
  have "artistsMatch uc (drArtistName req) (rtArtistName resolved)"
    using nameless_matches [OF assms(1)] artistsMatch_sym by metis
  moreover have "titlesMatch uc (drTrackName req) (rtTitle resolved)"
    using assms(2) by (simp add: titlesMatch_def Let_def)
  ultimately show ?thesis using assms(3,4) by (simp add: trackMatchesRequest_def namesAccepted_def Let_def)
qed

theorem nameless_artist_matches_all_witness:
  "trackMatchesRequest asciiUnicode
     (exampleRequest\<lparr>drArtistName := ''!!!'', drTrackName := ''One'', drISRC := ''USWB10301234'', drDurationMS := 446000\<rparr>)
     \<lparr>rtTitle = ''One'', rtArtistName = ''Metallica'', rtAlbumName = '''', rtISRC = ''USEE18800123'', rtDuration = 446,
      rtSkipNameVerification = False\<rparr>"
proof (rule nameless_artist_matches_all)
  have "normalizeLooseArtistName asciiUnicode ''!!!'' = ''''" by code_simp
  then show "normalizeLooseArtistName asciiUnicode (drArtistName
     (exampleRequest\<lparr>drArtistName := ''!!!'', drTrackName := ''One'', drISRC := ''USWB10301234'', drDurationMS := 446000\<rparr>)) = ''''"
    by simp
qed (simp_all add: expectedSeconds_def)

end
