(* ===== verification/Download.thy ===== *)
theory Download
  imports Filename TitleMatch Paths ExtManager
begin

text \<open>
  A download as data (\<open>go_backend/exports_download.go\<close>, \<open>extension_provider_types.go\<close>,
  \<open>extension_fallback_helpers.go\<close>, \<open>extension_fallback_output.go\<close>): the result of an extension,
  the answer to the app, the class of an error message, where the file goes, and what of the
  request, the provider and the catalogue ends up in the answer.
\<close>

section \<open>Errors\<close>

definition messageHasHTTPStatusCode :: "string \<Rightarrow> string \<Rightarrow> bool" where
  "messageHasHTTPStatusCode lowerMsg code \<longleftrightarrow>
     contains (''http '' @ code) lowerMsg \<or> contains (''http status '' @ code) lowerMsg \<or> contains (''status '' @ code) lowerMsg
     \<or> contains (code @ '' for '') lowerMsg \<or> contains (code @ '':'') lowerMsg \<or> contains (code @ '';'') lowerMsg"

definition containsAny :: "string list \<Rightarrow> string \<Rightarrow> bool" where
  "containsAny subs s = list_ex (\<lambda>sub. contains sub s) subs"

definition classifyDownloadErrorType :: "unicode \<Rightarrow> string \<Rightarrow> string" where
  "classifyDownloadErrorType uc msg =
     (let lowerMsg = to_lower (ucLower uc) msg
      in if containsAny [''isp blocking'', ''try using vpn'', ''change dns''] lowerMsg then ''isp_blocked''
         else if contains ''cancel'' lowerMsg then ''cancelled''
         else if containsAny [''verification_required'', ''session is not authenticated'', ''signed session is not authenticated'',
                   ''signed session expired''] lowerMsg then ''verification_required''
         else if containsAny [''byoa_provider_reauth_required'', ''reauth_provider''] lowerMsg then ''provider_reauth_required''
         else if contains ''request_auth_invalid'' lowerMsg then ''request_auth_invalid''
         else if contains ''provider_auth_failed'' lowerMsg then ''provider_auth_failed''
         else if contains ''provider_unavailable'' lowerMsg then ''provider_unavailable''
         else if contains ''rate limit'' lowerMsg \<or> messageHasHTTPStatusCode lowerMsg ''429'' \<or> contains ''too many requests'' lowerMsg
         then ''rate_limit''
         else if containsAny [''permission'', ''operation not permitted'', ''access denied'', ''failed to create file'',
                   ''failed to create directory''] lowerMsg then ''permission''
         else if containsAny [''not found'', ''not available'', ''no results'', ''track not found'', ''all services failed''] lowerMsg
         then ''not_found''
         else if containsAny [''network'', ''connection'', ''timeout'', ''dial''] lowerMsg then ''network''
         else ''unknown'')"

definition isOutputStorageWriteFailure :: "unicode \<Rightarrow> string \<Rightarrow> string \<Rightarrow> bool" where
  "isOutputStorageWriteFailure uc errorType message \<longleftrightarrow>
     EqualFold uc (trim_space errorType) ''permission''
     \<or> (let lowerMsg = to_lower (ucLower uc) (trim_space message)
        in lowerMsg \<noteq> ''''
           \<and> containsAny [''operation not permitted'', ''permission denied'', ''read-only file system'', ''failed to create file'',
               ''failed to create directory''] lowerMsg)"

definition normalizeExtensionDownloadErrorType :: "unicode \<Rightarrow> string \<Rightarrow> string \<Rightarrow> string" where
  "normalizeExtensionDownloadErrorType uc errorType message =
     (let normalized = trim_space errorType; classified = classifyDownloadErrorType uc message
      in if classified \<noteq> '''' \<and> classified \<noteq> ''unknown''
            \<and> to_lower (ucLower uc) normalized \<in> {'''', ''unknown'', ''runtime_error'', ''api_error'', ''download_error'', ''extension_error''}
         then classified else normalized)"

fun firstNonEmptyTrimmed :: "string list \<Rightarrow> string" where
  "firstNonEmptyTrimmed [] = ''''"
| "firstNonEmptyTrimmed (v # vs) = (if trim_space v \<noteq> '''' then trim_space v else firstNonEmptyTrimmed vs)"

section \<open>Decryption\<close>

record 'f decryption_info =
  diStrategy :: string
  diKey :: string
  diIV :: string
  diInputFormat :: string
  diOutputExtension :: string
  diOptions :: "(string, 'f json) gomap"

definition genericFFmpegMOVDecryptionStrategy :: string where
  "genericFFmpegMOVDecryptionStrategy = ''ffmpeg.mov_key''"

definition cloneDownloadDecryptionInfo :: "'f decryption_info \<Rightarrow> 'f decryption_info" where
  "cloneDownloadDecryptionInfo info =
     \<lparr>diStrategy = trim_space (diStrategy info), diKey = trim_space (diKey info), diIV = trim_space (diIV info),
      diInputFormat = trim_space (diInputFormat info), diOutputExtension = trim_space (diOutputExtension info),
      diOptions = diOptions info\<rparr>"

definition normalizeDownloadDecryptionStrategy :: "unicode \<Rightarrow> string \<Rightarrow> string" where
  "normalizeDownloadDecryptionStrategy uc strategy =
     (if to_lower (ucLower uc) (trim_space strategy)
           \<in> {'''', ''ffmpeg.mov_key'', ''ffmpeg_mov_key'', ''mov_decryption_key'', ''mp4_decryption_key'', ''ffmpeg.mp4_decryption_key''}
      then genericFFmpegMOVDecryptionStrategy else trim_space strategy)"

definition normalizeDownloadDecryptionInfo :: "unicode \<Rightarrow> 'f decryption_info option \<Rightarrow> string \<Rightarrow> 'f decryption_info option" where
  "normalizeDownloadDecryptionInfo uc info legacyKey =
     (let key = trim_space legacyKey
      in case map_option cloneDownloadDecryptionInfo info of
           None \<Rightarrow>
             if key = '''' then None
             else Some \<lparr>diStrategy = genericFFmpegMOVDecryptionStrategy, diKey = key, diIV = '''', diInputFormat = ''mov'',
                    diOutputExtension = '''', diOptions = []\<rparr>
         | Some n0 \<Rightarrow>
             let n1 = n0\<lparr>diStrategy := normalizeDownloadDecryptionStrategy uc (diStrategy n0)\<rparr>;
                 n2 = (if diKey n1 = '''' \<and> key \<noteq> '''' then n1\<lparr>diKey := key\<rparr> else n1);
                 n3 = (if diStrategy n2 = '''' \<and> diKey n2 \<noteq> '''' then n2\<lparr>diStrategy := genericFFmpegMOVDecryptionStrategy\<rparr> else n2);
                 n4 = (if diStrategy n3 = genericFFmpegMOVDecryptionStrategy \<and> diInputFormat n3 = ''''
                       then n3\<lparr>diInputFormat := ''mov''\<rparr> else n3)
             in if diStrategy n4 = genericFFmpegMOVDecryptionStrategy \<and> diKey n4 = '''' then None else Some n4)"

section \<open>Results\<close>

record ext_availability =
  avAvailable :: bool
  avReason :: string
  avTrackID :: string
  avSkipFallback :: bool

record 'f ext_download_result =
  xrSuccess :: bool
  xrFilePath :: string
  xrAlreadyExists :: bool
  xrBitDepth :: int
  xrSampleRate :: int
  xrAudioCodec :: string
  xrDurationMS :: int
  xrErrorMessage :: string
  xrErrorType :: string
  xrRetryAfterSeconds :: int
  xrTitle :: string
  xrArtist :: string
  xrAlbum :: string
  xrAlbumArtist :: string
  xrTrackNumber :: int
  xrDiscNumber :: int
  xrTotalTracks :: int
  xrTotalDiscs :: int
  xrReleaseDate :: string
  xrCoverURL :: string
  xrISRC :: string
  xrGenre :: string
  xrLabel :: string
  xrCopyright :: string
  xrComposer :: string
  xrComment :: string
  xrExplicit :: bool
  xrAlbumType :: string
  xrUPC :: string
  xrLyricsLRC :: string
  xrDecryptionKey :: string
  xrDecryption :: "'f decryption_info option"
  xrActualExtension :: string
  xrOutputExtension :: string
  xrActualContainer :: string
  xrRequiresContainerConversion :: bool

record 'f download_result =
  dnFilePath :: string
  dnBitDepth :: int
  dnSampleRate :: int
  dnAudioCodec :: string
  dnTitle :: string
  dnArtist :: string
  dnAlbum :: string
  dnReleaseDate :: string
  dnTrackNumber :: int
  dnTotalTracks :: int
  dnDiscNumber :: int
  dnTotalDiscs :: int
  dnISRC :: string
  dnCoverURL :: string
  dnGenre :: string
  dnLabel :: string
  dnCopyright :: string
  dnComposer :: string
  dnComment :: string
  dnExplicit :: bool
  dnAlbumType :: string
  dnUPC :: string
  dnLyricsLRC :: string
  dnDecryptionKey :: string
  dnDecryption :: "'f decryption_info option"
  dnActualExtension :: string
  dnActualContainer :: string
  dnRequiresContainerConversion :: bool

definition emptyResult :: "'f download_result" where
  "emptyResult = \<lparr>dnFilePath = '''', dnBitDepth = 0, dnSampleRate = 0, dnAudioCodec = '''', dnTitle = '''', dnArtist = '''',
     dnAlbum = '''', dnReleaseDate = '''', dnTrackNumber = 0, dnTotalTracks = 0, dnDiscNumber = 0, dnTotalDiscs = 0,
     dnISRC = '''', dnCoverURL = '''', dnGenre = '''', dnLabel = '''', dnCopyright = '''', dnComposer = '''', dnComment = '''',
     dnExplicit = False, dnAlbumType = '''', dnUPC = '''', dnLyricsLRC = '''', dnDecryptionKey = '''', dnDecryption = None,
     dnActualExtension = '''', dnActualContainer = '''', dnRequiresContainerConversion = False\<rparr>"

record 'f download_response =
  rsSuccess :: bool
  rsMessage :: string
  rsFilePath :: string
  rsResolvedFileName :: string
  rsProviderTrackID :: string
  rsError :: string
  rsErrorType :: string
  rsRetryAfterSeconds :: int
  rsAlreadyExists :: bool
  rsActualBitDepth :: int
  rsActualSampleRate :: int
  rsAudioCodec :: string
  rsActualExtension :: string
  rsActualContainer :: string
  rsRequiresContainerConversion :: bool
  rsService :: string
  rsTitle :: string
  rsArtist :: string
  rsAlbum :: string
  rsAlbumArtist :: string
  rsReleaseDate :: string
  rsTrackNumber :: int
  rsDiscNumber :: int
  rsTotalTracks :: int
  rsTotalDiscs :: int
  rsISRC :: string
  rsCoverURL :: string
  rsGenre :: string
  rsLabel :: string
  rsCopyright :: string
  rsComposer :: string
  rsComment :: string
  rsExplicit :: bool
  rsAlbumType :: string
  rsUPC :: string
  rsSkipMetadataEnrichment :: bool
  rsLyricsLRC :: string
  rsDecryptionKey :: string
  rsDecryption :: "'f decryption_info option"

text \<open>\<open>DownloadResponse{Success: false}\<close> with a message, its type, a delay and a service.\<close>

definition failedResponse :: "string \<Rightarrow> string \<Rightarrow> int \<Rightarrow> string \<Rightarrow> 'f download_response" where
  "failedResponse msg errorType retryAfter service =
     \<lparr>rsSuccess = False, rsMessage = '''', rsFilePath = '''', rsResolvedFileName = '''', rsProviderTrackID = '''',
      rsError = msg, rsErrorType = errorType, rsRetryAfterSeconds = retryAfter, rsAlreadyExists = False,
      rsActualBitDepth = 0, rsActualSampleRate = 0, rsAudioCodec = '''', rsActualExtension = '''', rsActualContainer = '''',
      rsRequiresContainerConversion = False, rsService = service, rsTitle = '''', rsArtist = '''', rsAlbum = '''',
      rsAlbumArtist = '''', rsReleaseDate = '''', rsTrackNumber = 0, rsDiscNumber = 0, rsTotalTracks = 0, rsTotalDiscs = 0,
      rsISRC = '''', rsCoverURL = '''', rsGenre = '''', rsLabel = '''', rsCopyright = '''', rsComposer = '''', rsComment = '''',
      rsExplicit = False, rsAlbumType = '''', rsUPC = '''', rsSkipMetadataEnrichment = False, rsLyricsLRC = '''',
      rsDecryptionKey = '''', rsDecryption = None\<rparr>"

section \<open>Where a download goes\<close>

text \<open>What the runtime gives: Unicode, dates, the walk over a map, the directory for temporary files.\<close>

record 'd host =
  hoUnicode :: unicode
  hoTime :: "'d time_lib"
  hoWalk :: "(string \<times> string) list \<Rightarrow> (string \<times> string) list"
  hoTempDir :: string
  hoCwd :: string

definition requestMetadata :: "download_request \<Rightarrow> track_meta" where
  "requestMetadata req =
     [(''title'', MString (drTrackName req)), (''artist'', MString (drArtistName req)), (''album'', MString (drAlbumName req)),
      (''album_artist'', MString (drAlbumArtist req)), (''track'', MInt (drTrackNumber req)),
      (''track_number'', MInt (drTrackNumber req)), (''total_tracks'', MInt (drTotalTracks req)),
      (''playlist_position'', MInt (drPlaylistPosition req)), (''disc'', MInt (drDiscNumber req)),
      (''disc_number'', MInt (drDiscNumber req)), (''total_discs'', MInt (drTotalDiscs req)),
      (''year'', MString (extractYear (drReleaseDate req))), (''date'', MString (drReleaseDate req)),
      (''release_date'', MString (drReleaseDate req)), (''isrc'', MString (drISRC req)),
      (''provider'', MString (drDownloadProvider req)), (''provider_id'', MString (drProviderTrackID req)),
      (''composer'', MString (drComposer req)), (''quality'', MString (drQuality req)),
      (''quality_variant'', MString (drQualityVariant req))]"

definition buildDownloadFilename :: "'d host \<Rightarrow> download_request \<Rightarrow> string" where
  "buildDownloadFilename ho req =
     (let filename0 = buildFilenameFromTemplate (hoWalk ho) (hoTime ho) (drFilenameFormat req) (requestMetadata req);
          filename1 = (if trim_space filename0 = '''' then drArtistName req @ '' - '' @ drTrackName req else filename0);
          ext = trim_space (drOutputExt req)
      in sanitizeFilenamePreservingToken filename1 (drQualityVariant req)
         @ (if ext = '''' then ''.flac'' else if starts_with ''.'' ext then ext else ''.'' @ ext))"

definition resolvedDownloadFilename :: "'d host \<Rightarrow> download_request \<Rightarrow> 'f download_result \<Rightarrow> string \<Rightarrow> string" where
  "resolvedDownloadFilename ho req result filePath =
     (let r1 = (if trim_space (dnISRC result) \<noteq> '''' then req\<lparr>drISRC := trim_space (dnISRC result)\<rparr> else req);
          e1 = trim_space (dnActualExtension result);
          e2 = (if e1 = '''' then Ext (trim_space (dnFilePath result)) else e1);
          e3 = (if e2 = '''' then Ext (trim_space filePath) else e2)
      in buildDownloadFilename ho (if e3 \<noteq> '''' then r1\<lparr>drOutputExt := e3\<rparr> else r1))"

definition isFDOutput :: "int \<Rightarrow> bool" where
  "isFDOutput outputFD \<longleftrightarrow> outputFD > 0"

text \<open>The path of the output, the directory that is allowed for it, and whether that is created.\<close>

definition buildOutputPath :: "'d host \<Rightarrow> download_request \<Rightarrow> string \<times> (bool \<times> string) option" where
  "buildOutputPath ho req =
     (if trim_space (drOutputPath req) \<noteq> '''' then (trim_space (drOutputPath req), None)
      else
        let dir = (if trim_space (drOutputDir req) = '''' then Join [hoTempDir ho, ''spotiflac-downloads''] else drOutputDir req)
        in (Join [dir, buildDownloadFilename ho req], Some (True, dir)))"

definition buildOutputPathForExtension ::
  "'d host \<Rightarrow> download_request \<Rightarrow> 'f loaded_extension \<Rightarrow> string \<times> (bool \<times> string) option" where
  "buildOutputPathForExtension ho req ext =
     (if trim_space (drOutputPath req) \<noteq> ''''
      then (trim_space (drOutputPath req), Some (False, Dir (trim_space (drOutputPath req))))
      else if \<not> isFDOutput (drOutputFD req) \<and> trim_space (drOutputDir req) \<noteq> '''' then buildOutputPath ho req
      else
        let tempDir = Join [lxDataDir ext, ''downloads'']
        in (Join [tempDir, buildDownloadFilename ho req], Some (True, tempDir)))"

text \<open>A file that is there already is kept, unless the request wants a variant; \<open>regular\<close> tells non-empty files.\<close>

definition shouldReuseExistingOutput :: "(string \<Rightarrow> bool) \<Rightarrow> download_request \<Rightarrow> string \<Rightarrow> bool" where
  "shouldReuseExistingOutput regular req outputPath \<longleftrightarrow>
     (let path = trim_space outputPath
      in \<not> (drAllowQualityVariant req \<or> isFDOutput (drOutputFD req))
         \<and> \<not> (path = '''' \<or> starts_with ''content://'' path \<or> starts_with ''/proc/self/fd/'' path)
         \<and> regular path)"

text \<open>The file of a rejected download that is removed: only one below the directory of the output.\<close>

definition discardRejectedExtensionOutput :: "'d host \<Rightarrow> 'f ext_download_result \<Rightarrow> string \<Rightarrow> string option" where
  "discardRejectedExtensionOutput ho result requestedOutputPath =
     (let resultPath = trim_space (xrFilePath result); requestedPath = trim_space requestedOutputPath
      in if xrAlreadyExists result then None
         else if resultPath = '''' \<or> requestedPath = '''' \<or> starts_with ''content://'' resultPath
              \<or> starts_with ''/proc/self/fd/'' resultPath then None
         else
           let resultAbs = Abs (hoCwd ho) resultPath; outputDirAbs = Abs (hoCwd ho) (Dir requestedPath)
           in case Rel outputDirAbs resultAbs of
                None \<Rightarrow> None
              | Some relative \<Rightarrow>
                  if relative = ''.'' \<or> relative = ''..'' \<or> starts_with ''../'' relative \<or> IsAbs relative then None
                  else Some resultAbs)"

section \<open>The answer\<close>

definition downloadCommentCredit :: string where
  "downloadCommentCredit = ''Downloaded with SpotiFLAC Mobile. Enjoy your music!''"

definition buildDownloadedFileComment :: "unicode \<Rightarrow> string \<Rightarrow> string \<Rightarrow> string" where
  "buildDownloadedFileComment uc sourceComment providerComment =
     (let comment = (if trim_space sourceComment = '''' then trim_space providerComment else trim_space sourceComment)
      in if list_ex (\<lambda>line. EqualFold uc (trim_space line) downloadCommentCredit)
              (split_on (CHR 0x0A) (replace_all [CHR 0x0D, CHR 0x0A] [CHR 0x0A] comment))
         then comment
         else if comment = '''' then downloadCommentCredit
         else comment @ [CHR 0x0A] @ downloadCommentCredit)"

definition orElse :: "string \<Rightarrow> string \<Rightarrow> string" where
  "orElse a b = (if a = '''' then b else a)"

definition preferredReleaseMetadata :: "download_request \<Rightarrow> string \<Rightarrow> string \<Rightarrow> int \<Rightarrow> int \<Rightarrow> string \<times> string \<times> int \<times> int" where
  "preferredReleaseMetadata req album releaseDate trackNumber discNumber =
     (orElse (trim_space (drAlbumName req)) album, orElse (trim_space (drReleaseDate req)) releaseDate,
      if drTrackNumber req = 0 then trackNumber else drTrackNumber req,
      if drDiscNumber req = 0 then discNumber else drDiscNumber req)"

definition buildDownloadSuccessResponse ::
  "'d host \<Rightarrow> download_request \<Rightarrow> 'f download_result \<Rightarrow> string \<Rightarrow> string \<Rightarrow> string \<Rightarrow> bool \<Rightarrow> 'f download_response" where
  "buildDownloadSuccessResponse ho req result service message filePath alreadyExists =
     (case preferredReleaseMetadata req (dnAlbum result) (dnReleaseDate result) (dnTrackNumber result) (dnDiscNumber result) of
        (album, releaseDate, trackNumber, discNumber) \<Rightarrow>
          \<lparr>rsSuccess = True, rsMessage = message, rsFilePath = filePath,
           rsResolvedFileName = resolvedDownloadFilename ho req result filePath, rsProviderTrackID = drProviderTrackID req,
           rsError = '''', rsErrorType = '''', rsRetryAfterSeconds = 0, rsAlreadyExists = alreadyExists,
           rsActualBitDepth = dnBitDepth result, rsActualSampleRate = dnSampleRate result, rsAudioCodec = dnAudioCodec result,
           rsActualExtension = dnActualExtension result, rsActualContainer = dnActualContainer result,
           rsRequiresContainerConversion = dnRequiresContainerConversion result, rsService = service,
           rsTitle = orElse (dnTitle result) (drTrackName req), rsArtist = orElse (dnArtist result) (drArtistName req),
           rsAlbum = album, rsAlbumArtist = drAlbumArtist req, rsReleaseDate = releaseDate, rsTrackNumber = trackNumber,
           rsDiscNumber = discNumber, rsTotalTracks = drTotalTracks req, rsTotalDiscs = drTotalDiscs req,
           rsISRC = orElse (dnISRC result) (drISRC req),
           rsCoverURL = orElse (trim_space (dnCoverURL result)) (trim_space (drCoverURL req)),
           rsGenre = orElse (dnGenre result) (drGenre req), rsLabel = orElse (dnLabel result) (drLabel req),
           rsCopyright = orElse (dnCopyright result) (drCopyright req), rsComposer = orElse (dnComposer result) (drComposer req),
           rsComment = buildDownloadedFileComment (hoUnicode ho) (drComment req) (dnComment result),
           rsExplicit = (dnExplicit result \<or> drExplicit req), rsAlbumType = orElse (dnAlbumType result) (drAlbumType req),
           rsUPC = orElse (dnUPC result) (drUPC req), rsSkipMetadataEnrichment = False, rsLyricsLRC = dnLyricsLRC result,
           rsDecryptionKey = dnDecryptionKey result,
           rsDecryption = normalizeDownloadDecryptionInfo (hoUnicode ho) (dnDecryption result) (dnDecryptionKey result)\<rparr>)"

definition shouldSkipQualityProbe :: "string \<Rightarrow> bool" where
  "shouldSkipQualityProbe filePath \<longleftrightarrow>
     (let path = trim_space filePath in path = '''' \<or> starts_with ''/proc/self/fd/'' path \<or> contains ''://'' path)"

text \<open>\<open>probe\<close> reads bit depth, sample rate and codec from a file.\<close>

definition enrichResultQualityFromFile ::
  "(string \<Rightarrow> (int \<times> int \<times> string) option) \<Rightarrow> 'f download_result \<Rightarrow> 'f download_result" where
  "enrichResultQualityFromFile probe result =
     (let path = trim_space (dnFilePath result)
      in if shouldSkipQualityProbe path then result
         else case probe path of
                None \<Rightarrow> result
              | Some (bitDepth, sampleRate, audioCodec) \<Rightarrow>
                  result\<lparr>dnBitDepth := bitDepth, dnSampleRate := sampleRate, dnAudioCodec := audioCodec\<rparr>)"

fun normalizeDownloadResultExtension :: "unicode \<Rightarrow> string list \<Rightarrow> string" where
  "normalizeDownloadResultExtension uc [] = ''''"
| "normalizeDownloadResultExtension uc (candidate # candidates) =
     (let ext = trim_space (to_lower (ucLower uc) candidate); dotted = (if starts_with ''.'' ext then ext else ''.'' @ ext)
      in if ext = '''' then normalizeDownloadResultExtension uc candidates
         else if dotted = ''.mp4'' then ''.m4a'' else dotted)"

definition normalizeExtensionDownloadResult ::
  "unicode \<Rightarrow> (string \<Rightarrow> (int \<times> int \<times> string) option) \<Rightarrow> 'f ext_download_result \<Rightarrow> 'f download_result \<times> bool" where
  "normalizeExtensionDownloadResult uc probe result =
     (let path = trim_space (xrFilePath result); exists = starts_with ''EXISTS:'' path;
          d = \<lparr>dnFilePath = (if exists then drop 7 path else path), dnBitDepth = xrBitDepth result,
               dnSampleRate = xrSampleRate result, dnAudioCodec = trim_space (xrAudioCodec result), dnTitle = xrTitle result,
               dnArtist = xrArtist result, dnAlbum = xrAlbum result, dnReleaseDate = xrReleaseDate result,
               dnTrackNumber = xrTrackNumber result, dnTotalTracks = xrTotalTracks result, dnDiscNumber = xrDiscNumber result,
               dnTotalDiscs = xrTotalDiscs result, dnISRC = xrISRC result, dnCoverURL = xrCoverURL result,
               dnGenre = xrGenre result, dnLabel = xrLabel result, dnCopyright = xrCopyright result,
               dnComposer = xrComposer result, dnComment = xrComment result, dnExplicit = xrExplicit result,
               dnAlbumType = xrAlbumType result, dnUPC = xrUPC result, dnLyricsLRC = xrLyricsLRC result,
               dnDecryptionKey = xrDecryptionKey result,
               dnDecryption = normalizeDownloadDecryptionInfo uc (xrDecryption result) (xrDecryptionKey result),
               dnActualExtension = normalizeDownloadResultExtension uc [xrActualExtension result, xrOutputExtension result],
               dnActualContainer = trim_space (xrActualContainer result),
               dnRequiresContainerConversion = xrRequiresContainerConversion result\<rparr>
      in (enrichResultQualityFromFile probe d, xrAlreadyExists result \<or> exists))"

section \<open>Filling what is missing\<close>

definition overlayStr :: "string \<Rightarrow> string \<Rightarrow> string" where
  "overlayStr dst src = (if src = '''' \<or> dst \<noteq> '''' then dst else src)"

definition overlayStrTrim :: "string \<Rightarrow> string \<Rightarrow> string" where
  "overlayStrTrim dst src = (if src = '''' \<or> trim_space dst \<noteq> '''' then dst else src)"

definition overlayInt :: "int \<Rightarrow> int \<Rightarrow> int" where
  "overlayInt dst src = (if src \<le> 0 \<or> dst \<noteq> 0 then dst else src)"

text \<open>The track as extensions describe it, as far as a download uses it.\<close>

record ext_track =
  etID :: string
  etName :: string
  etArtists :: string
  etAlbumName :: string
  etAlbumArtist :: string
  etDurationMS :: int
  etCoverURL :: string
  etReleaseDate :: string
  etTrackNumber :: int
  etTotalTracks :: int
  etDiscNumber :: int
  etTotalDiscs :: int
  etISRC :: string
  etProviderID :: string
  etAlbumType :: string
  etExplicit :: bool
  etUPC :: string
  etTidalID :: string
  etQobuzID :: string
  etDeezerID :: string
  etLabel :: string
  etCopyright :: string
  etGenre :: string
  etComposer :: string
  etComment :: string

definition requestTrack :: "download_request \<Rightarrow> ext_track" where
  "requestTrack req =
     \<lparr>etID = drSpotifyID req, etName = drTrackName req, etArtists = drArtistName req, etAlbumName = drAlbumName req,
      etAlbumArtist = drAlbumArtist req, etDurationMS = drDurationMS req, etCoverURL = drCoverURL req,
      etReleaseDate = drReleaseDate req, etTrackNumber = drTrackNumber req, etTotalTracks = drTotalTracks req,
      etDiscNumber = drDiscNumber req, etTotalDiscs = drTotalDiscs req, etISRC = drISRC req, etProviderID = drSource req,
      etAlbumType = drAlbumType req, etExplicit = drExplicit req, etUPC = drUPC req, etTidalID = '''', etQobuzID = '''',
      etDeezerID = '''', etLabel = drLabel req, etCopyright = drCopyright req, etGenre = drGenre req,
      etComposer = drComposer req, etComment = drComment req\<rparr>"

definition overlayExtensionReleaseMetadata :: "ext_track \<Rightarrow> download_request \<Rightarrow> download_request" where
  "overlayExtensionReleaseMetadata track req =
     req\<lparr>drAlbumType := overlayStr (drAlbumType req) (etAlbumType track), drUPC := overlayStr (drUPC req) (etUPC track),
         drComment := overlayStr (drComment req) (etComment track), drExplicit := drExplicit req \<or> etExplicit track\<rparr>"

text \<open>What the source extension knows replaces codes, ids and names; the rest fills what is missing.\<close>

definition applyEnrichment :: "ext_track \<Rightarrow> download_request \<Rightarrow> download_request" where
  "applyEnrichment track req =
     overlayExtensionReleaseMetadata track
       (req\<lparr>drISRC := orElse (etISRC track) (drISRC req), drTidalID := orElse (etTidalID track) (drTidalID req),
            drQobuzID := orElse (etQobuzID track) (drQobuzID req), drDeezerID := orElse (etDeezerID track) (drDeezerID req),
            drTrackName := orElse (etName track) (drTrackName req), drArtistName := orElse (etArtists track) (drArtistName req),
            drAlbumName := overlayStr (drAlbumName req) (etAlbumName track),
            drAlbumArtist := overlayStr (drAlbumArtist req) (etAlbumArtist track),
            drDurationMS := overlayInt (drDurationMS req) (etDurationMS track),
            drCoverURL := overlayStr (drCoverURL req) (etCoverURL track), drSpotifyID := overlayStr (drSpotifyID req) (etID track),
            drLabel := overlayStr (drLabel req) (etLabel track), drCopyright := overlayStr (drCopyright req) (etCopyright track),
            drGenre := overlayStr (drGenre req) (etGenre track), drReleaseDate := overlayStr (drReleaseDate req) (etReleaseDate track),
            drTrackNumber := overlayInt (drTrackNumber req) (etTrackNumber track),
            drTotalTracks := overlayInt (drTotalTracks req) (etTotalTracks track),
            drDiscNumber := overlayInt (drDiscNumber req) (etDiscNumber track),
            drTotalDiscs := overlayInt (drTotalDiscs req) (etTotalDiscs track),
            drComposer := overlayStr (drComposer req) (etComposer track)\<rparr>)"

definition applySearchMatch :: "ext_track \<Rightarrow> download_request \<Rightarrow> download_request" where
  "applySearchMatch track req =
     overlayExtensionReleaseMetadata track
       (req\<lparr>drAlbumName := overlayStr (drAlbumName req) (etAlbumName track),
            drAlbumArtist := overlayStr (drAlbumArtist req) (etAlbumArtist track),
            drReleaseDate := overlayStr (drReleaseDate req) (etReleaseDate track), drISRC := overlayStr (drISRC req) (etISRC track),
            drTrackNumber := overlayInt (drTrackNumber req) (etTrackNumber track),
            drTotalTracks := overlayInt (drTotalTracks req) (etTotalTracks track),
            drDiscNumber := overlayInt (drDiscNumber req) (etDiscNumber track),
            drTotalDiscs := overlayInt (drTotalDiscs req) (etTotalDiscs track),
            drComposer := overlayStr (drComposer req) (etComposer track), drCoverURL := overlayStr (drCoverURL req) (etCoverURL track),
            drGenre := overlayStr (drGenre req) (etGenre track), drLabel := overlayStr (drLabel req) (etLabel track),
            drCopyright := overlayStr (drCopyright req) (etCopyright track)\<rparr>)"

definition overlayExtensionDownloadMetadata :: "unicode \<Rightarrow> 'f ext_download_result \<Rightarrow> 'f download_response \<Rightarrow> 'f download_response" where
  "overlayExtensionDownloadMetadata uc result resp =
     (let normalized = normalizeDownloadDecryptionInfo uc (xrDecryption result) (xrDecryptionKey result);
          ext = normalizeDownloadResultExtension uc [xrActualExtension result, xrOutputExtension result];
          container = trim_space (xrActualContainer result)
      in resp\<lparr>rsTitle := overlayStrTrim (rsTitle resp) (xrTitle result), rsArtist := overlayStrTrim (rsArtist resp) (xrArtist result),
           rsAlbum := overlayStrTrim (rsAlbum resp) (xrAlbum result),
           rsAlbumArtist := overlayStrTrim (rsAlbumArtist resp) (xrAlbumArtist result),
           rsTrackNumber := overlayInt (rsTrackNumber resp) (xrTrackNumber result),
           rsDiscNumber := overlayInt (rsDiscNumber resp) (xrDiscNumber result),
           rsTotalTracks := overlayInt (rsTotalTracks resp) (xrTotalTracks result),
           rsTotalDiscs := overlayInt (rsTotalDiscs resp) (xrTotalDiscs result),
           rsReleaseDate := overlayStrTrim (rsReleaseDate resp) (xrReleaseDate result),
           rsCoverURL := overlayStrTrim (rsCoverURL resp) (xrCoverURL result), rsISRC := overlayStrTrim (rsISRC resp) (xrISRC result),
           rsGenre := overlayStrTrim (rsGenre resp) (xrGenre result), rsLabel := overlayStrTrim (rsLabel resp) (xrLabel result),
           rsCopyright := overlayStrTrim (rsCopyright resp) (xrCopyright result),
           rsComposer := overlayStrTrim (rsComposer resp) (xrComposer result),
           rsComment := overlayStrTrim (rsComment resp) (xrComment result),
           rsAlbumType := overlayStrTrim (rsAlbumType resp) (xrAlbumType result), rsUPC := overlayStrTrim (rsUPC resp) (xrUPC result),
           rsExplicit := rsExplicit resp \<or> xrExplicit result, rsLyricsLRC := orElse (xrLyricsLRC result) (rsLyricsLRC resp),
           rsDecryptionKey := orElse (xrDecryptionKey result) (rsDecryptionKey resp),
           rsDecryption := (case normalized of None \<Rightarrow> rsDecryption resp | Some n \<Rightarrow> Some n),
           rsActualExtension := orElse ext (rsActualExtension resp), rsActualContainer := orElse container (rsActualContainer resp),
           rsRequiresContainerConversion := rsRequiresContainerConversion resp \<or> xrRequiresContainerConversion result\<rparr>)"

definition applyExtensionRequestFallbacks :: "download_request \<Rightarrow> 'f download_response \<Rightarrow> 'f download_response" where
  "applyExtensionRequestFallbacks req resp =
     resp\<lparr>rsAlbum := overlayStr (rsAlbum resp) (drAlbumName req), rsAlbumArtist := overlayStr (rsAlbumArtist resp) (drAlbumArtist req),
       rsReleaseDate := overlayStr (rsReleaseDate resp) (drReleaseDate req), rsISRC := overlayStr (rsISRC resp) (drISRC req),
       rsTrackNumber := overlayInt (rsTrackNumber resp) (drTrackNumber req),
       rsTotalTracks := overlayInt (rsTotalTracks resp) (drTotalTracks req),
       rsDiscNumber := overlayInt (rsDiscNumber resp) (drDiscNumber req),
       rsTotalDiscs := overlayInt (rsTotalDiscs resp) (drTotalDiscs req),
       rsCoverURL := overlayStr (rsCoverURL resp) (drCoverURL req), rsComment := overlayStr (rsComment resp) (drComment req),
       rsAlbumType := overlayStr (rsAlbumType resp) (drAlbumType req), rsUPC := overlayStr (rsUPC resp) (drUPC req),
       rsExplicit := rsExplicit resp \<or> drExplicit req\<rparr>"

definition applyTitleFallback :: "download_request \<Rightarrow> 'f download_response \<Rightarrow> 'f download_response" where
  "applyTitleFallback req resp =
     resp\<lparr>rsTitle := overlayStr (rsTitle resp) (drTrackName req), rsArtist := overlayStr (rsArtist resp) (drArtistName req),
          rsComposer := overlayStr (rsComposer resp) (drComposer req)\<rparr>"

section \<open>The id of the track at a provider\<close>

definition manifestCapabilityStringList :: "unicode \<Rightarrow> 'f extension_manifest \<Rightarrow> string \<Rightarrow> string list" where
  "manifestCapabilityStringList uc manifest key =
     (case map_of (emCapabilities manifest) key of
        Some (JArr values) \<Rightarrow>
          filter (\<lambda>s. s \<noteq> '''')
            (List.map_filter (\<lambda>v. case v of JStr s \<Rightarrow> Some (to_lower (ucLower uc) (trim_space s)) | _ \<Rightarrow> None) values)
      | _ \<Rightarrow> [])"

definition extensionReplacesBuiltInProvider :: "unicode \<Rightarrow> 'f loaded_extension \<Rightarrow> string \<Rightarrow> bool" where
  "extensionReplacesBuiltInProvider uc ext providerID \<longleftrightarrow>
     (let normalized = to_lower (ucLower uc) (trim_space providerID)
      in normalized \<noteq> '''' \<and> normalized \<in> set (manifestCapabilityStringList uc (lxManifest ext) ''replacesBuiltInProviders''))"

definition trimKnownProviderPrefix :: "unicode \<Rightarrow> string \<Rightarrow> string \<Rightarrow> string" where
  "trimKnownProviderPrefix uc trackID providerID =
     (let trimmedID = trim_space trackID; normalizedProvider = to_lower (ucLower uc) (trim_space providerID);
          prefix = normalizedProvider @ '':''
      in if trimmedID = '''' \<or> normalizedProvider = '''' then trimmedID
         else if starts_with prefix (to_lower (ucLower uc) trimmedID) then drop (length prefix) trimmedID
         else trimmedID)"

definition trackIDCandidates :: "unicode \<Rightarrow> 'f loaded_extension \<Rightarrow> download_request \<Rightarrow> string \<Rightarrow> string list" where
  "trackIDCandidates uc ext req explicitTrackID =
     [explicitTrackID]
     @ (if extensionReplacesBuiltInProvider uc ext ''tidal'' then [drTidalID req, trimKnownProviderPrefix uc (drSpotifyID req) ''tidal''] else [])
     @ (if extensionReplacesBuiltInProvider uc ext ''qobuz'' then [drQobuzID req, trimKnownProviderPrefix uc (drSpotifyID req) ''qobuz''] else [])
     @ (if extensionReplacesBuiltInProvider uc ext ''deezer'' then [drDeezerID req, trimKnownProviderPrefix uc (drSpotifyID req) ''deezer''] else [])
     @ (if extensionReplacesBuiltInProvider uc ext ''spotify'' then [trimKnownProviderPrefix uc (drSpotifyID req) ''spotify'', drSpotifyID req] else [])
     @ [drSpotifyID req, drTidalID req, drQobuzID req, drDeezerID req]"

definition resolvePreferredTrackIDForExtension :: "unicode \<Rightarrow> 'f loaded_extension \<Rightarrow> download_request \<Rightarrow> string \<Rightarrow> string" where
  "resolvePreferredTrackIDForExtension uc ext req explicitTrackID =
     (case filter (\<lambda>v. v \<noteq> '''') (map trim_space (trackIDCandidates uc ext req explicitTrackID)) of [] \<Rightarrow> '''' | v # _ \<Rightarrow> v)"

end
