(* ===== verification/Fallback.thy ===== *)
theory Fallback
  imports Download
begin

text \<open>
  The download pipeline (\<open>go_backend/extension_fallback.go\<close>, \<open>extension_priority.go\<close> and parts of
  \<open>extension_fallback_helpers.go\<close>): which providers are asked, in which order, what stops the
  search, and what the app is told. What the scripts of the extensions, the network and the file
  system do is a parameter: operations on a state of their own, called in the order in which the
  code calls them. The registered extensions and the settings do not change during a download.
\<close>

section \<open>Priorities\<close>

definition hasEnabledExtensionProvider ::
  "unicode \<Rightarrow> 'f ext_manager \<Rightarrow> string \<Rightarrow> ('f extension_manifest \<Rightarrow> bool) \<Rightarrow> bool" where
  "hasEnabledExtensionProvider uc mgr providerID matches \<longleftrightarrow>
     providerID \<noteq> ''''
     \<and> (case find (\<lambda>(i, _). EqualFold uc (trim_space i) providerID) (mgExtensions mgr) of
          None \<Rightarrow> False
        | Some (_, ext) \<Rightarrow> lxEnabled ext \<and> lxError ext = '''' \<and> matches (lxManifest ext))"

definition isRetiredBuiltInDownloadProvider :: "unicode \<Rightarrow> 'f ext_manager \<Rightarrow> string \<Rightarrow> bool" where
  "isRetiredBuiltInDownloadProvider uc mgr providerID \<longleftrightarrow>
     (let normalized = to_lower (ucLower uc) (trim_space providerID)
      in normalized \<in> {''deezer'', ''qobuz'', ''tidal''} \<and> \<not> hasEnabledExtensionProvider uc mgr normalized IsDownloadProvider)"

definition isRetiredBuiltInMetadataProvider :: "unicode \<Rightarrow> 'f ext_manager \<Rightarrow> string \<Rightarrow> bool" where
  "isRetiredBuiltInMetadataProvider uc mgr providerID \<longleftrightarrow>
     (let normalized = to_lower (ucLower uc) (trim_space providerID)
      in normalized \<in> {''deezer'', ''spotify'', ''qobuz'', ''tidal''}
         \<and> \<not> hasEnabledExtensionProvider uc mgr normalized IsMetadataProvider)"

text \<open>The entries that stay: trimmed, not empty, not retired, each key once.\<close>

fun sanitizeProviders :: "(string \<Rightarrow> bool) \<Rightarrow> (string \<Rightarrow> string) \<Rightarrow> string list \<Rightarrow> string list \<Rightarrow> string list" where
  "sanitizeProviders retired key seen [] = []"
| "sanitizeProviders retired key seen (raw # ids) =
     (let p = trim_space raw
      in if p = '''' \<or> retired p \<or> key p \<in> set seen then sanitizeProviders retired key seen ids
         else p # sanitizeProviders retired key (key p # seen) ids)"

record priorities =
  prDownload :: "string list"
  prFallback :: "string list option"
  prMetadata :: "string list"

definition sanitizeDownloadProviderPriority :: "unicode \<Rightarrow> 'f ext_manager \<Rightarrow> string list \<Rightarrow> string list" where
  "sanitizeDownloadProviderPriority uc mgr providerIDs =
     sanitizeProviders (isRetiredBuiltInDownloadProvider uc mgr) (to_lower (ucLower uc)) [] providerIDs"

definition SetProviderPriority :: "unicode \<Rightarrow> 'f ext_manager \<Rightarrow> string list \<Rightarrow> priorities \<Rightarrow> priorities" where
  "SetProviderPriority uc mgr providerIDs pr = pr\<lparr>prDownload := sanitizeDownloadProviderPriority uc mgr providerIDs\<rparr>"

definition SetExtensionFallbackProviderIDs :: "string list option \<Rightarrow> priorities \<Rightarrow> priorities" where
  "SetExtensionFallbackProviderIDs providerIDs pr =
     pr\<lparr>prFallback := map_option (sanitizeProviders (\<lambda>_. False) id []) providerIDs\<rparr>"

definition SetMetadataProviderPriority :: "unicode \<Rightarrow> 'f ext_manager \<Rightarrow> string list \<Rightarrow> priorities \<Rightarrow> priorities" where
  "SetMetadataProviderPriority uc mgr providerIDs pr =
     pr\<lparr>prMetadata := sanitizeProviders (isRetiredBuiltInMetadataProvider uc mgr) id [] providerIDs\<rparr>"

definition isExtensionFallbackAllowed :: "priorities \<Rightarrow> string \<Rightarrow> bool" where
  "isExtensionFallbackAllowed pr providerID \<longleftrightarrow>
     (case prFallback pr of None \<Rightarrow> True | Some allowed \<Rightarrow> providerID \<in> set allowed)"

section \<open>The surroundings of a download\<close>

text \<open>An error: its message, and whether it is the cancellation of the download.\<close>

datatype go_error = GoError (errorText: string) (isCancellation: bool)

datatype progress_step = Starting | Preparing string | Finalizing | Completed

record ('f, 'w, 'd) pipeline =
  plCheck :: "'f loaded_extension \<Rightarrow> download_request \<Rightarrow> 'w \<Rightarrow> (go_error + ext_availability) \<times> 'w"
  plDownload :: "'f loaded_extension \<Rightarrow> string \<Rightarrow> string \<Rightarrow> string \<Rightarrow> string \<Rightarrow> 'w \<Rightarrow> (go_error + 'f ext_download_result option) \<times> 'w"
  plEnrich :: "'f loaded_extension \<Rightarrow> ext_track \<Rightarrow> string \<Rightarrow> 'w \<Rightarrow> (go_error + ext_track option) \<times> 'w"
  plSearch :: "string \<Rightarrow> string \<Rightarrow> 'w \<Rightarrow> (go_error + ext_track list) \<times> 'w"
  plHealth :: "'f loaded_extension \<Rightarrow> 'w \<Rightarrow> string \<times> 'w"
  plExtended :: "download_request \<Rightarrow> 'w \<Rightarrow> download_request \<times> 'w"
  plEmbed :: "'f download_response \<Rightarrow> download_request \<Rightarrow> bool \<Rightarrow> 'w \<Rightarrow> 'w"
  plProgress :: "string \<Rightarrow> progress_step \<Rightarrow> 'w \<Rightarrow> 'w"
  plAllowDir :: "bool \<Rightarrow> string \<Rightarrow> 'w \<Rightarrow> 'w"
  plRemove :: "string \<Rightarrow> 'w \<Rightarrow> 'w"
  plIndexISRC :: "string \<Rightarrow> string \<Rightarrow> string \<Rightarrow> 'w \<Rightarrow> 'w"
  plCancelled :: "'w \<Rightarrow> string \<Rightarrow> bool"
  plRegular :: "'w \<Rightarrow> string \<Rightarrow> bool"
  plQuality :: "'w \<Rightarrow> string \<Rightarrow> (int \<times> int \<times> string) option"
  plNow :: "'w \<Rightarrow> time"
  plHost :: "'d host"
  plManager :: "'f ext_manager"
  plPriorities :: priorities

definition plUnicode :: "('f, 'w, 'd) pipeline \<Rightarrow> unicode" where
  "plUnicode e = hoUnicode (plHost e)"

definition GetExtension :: "('f, 'w, 'd) pipeline \<Rightarrow> string \<Rightarrow> 'f loaded_extension option" where
  "GetExtension e extensionID = map_of (mgExtensions (plManager e)) extensionID"

definition usable :: "'f loaded_extension \<Rightarrow> bool" where
  "usable ext \<longleftrightarrow> lxEnabled ext \<and> lxError ext = ''''"

definition usableProvider :: "('f, 'w, 'd) pipeline \<Rightarrow> string \<Rightarrow> 'f loaded_extension option" where
  "usableProvider e providerID =
     (case GetExtension e providerID of
        None \<Rightarrow> None
      | Some ext \<Rightarrow> if usable ext \<and> IsDownloadProvider (lxManifest ext) then Some ext else None)"

definition itemProgress :: "('f, 'w, 'd) pipeline \<Rightarrow> download_request \<Rightarrow> progress_step \<Rightarrow> 'w \<Rightarrow> 'w" where
  "itemProgress e req p w = (if drItemID req = '''' then w else plProgress e (drItemID req) p w)"

definition shouldAbortCancelledFallback :: "('f, 'w, 'd) pipeline \<Rightarrow> string \<Rightarrow> go_error option \<Rightarrow> 'w \<Rightarrow> bool" where
  "shouldAbortCancelledFallback e itemID err w \<longleftrightarrow>
     (case err of Some x \<Rightarrow> isCancellation x | None \<Rightarrow> False) \<or> itemID \<noteq> '''' \<and> plCancelled e w itemID"

definition verificationRequired :: "('f, 'w, 'd) pipeline \<Rightarrow> string \<Rightarrow> bool" where
  "verificationRequired e errorType = EqualFold (plUnicode e) errorType ''verification_required''"

section \<open>One attempt\<close>

text \<open>The last error, its type and the delay that the provider asked for.\<close>

record last_error =
  laErr :: "string option"
  laType :: string
  laRetry :: int

definition noError :: last_error where
  "noError = \<lparr>laErr = None, laType = '''', laRetry = 0\<rparr>"

datatype 'f attempt = Answered "'f download_response" | AttemptCancelled | AttemptFailed

definition keepExisting ::
  "('f, 'w, 'd) pipeline \<Rightarrow> download_request \<Rightarrow> string \<Rightarrow> string \<Rightarrow> 'w \<Rightarrow> 'f attempt \<times> 'w" where
  "keepExisting e req label outputPath w =
     (let result = enrichResultQualityFromFile (plQuality e w) (emptyResult\<lparr>dnFilePath := outputPath\<rparr>)
      in (Answered (buildDownloadSuccessResponse (plHost e) req result label ''File already exists'' outputPath True),
          itemProgress e req Completed w))"

definition resolvedTrack :: "('f, 'w, 'd) pipeline \<Rightarrow> download_request \<Rightarrow> 'f loaded_extension \<Rightarrow> string \<Rightarrow> 'f ext_download_result \<Rightarrow> resolved_track" where
  "resolvedTrack e req ext label result =
     \<lparr>rtTitle = xrTitle result, rtArtistName = xrArtist result, rtAlbumName = xrAlbum result, rtISRC = xrISRC result,
      rtDuration = xrDurationMS result sdiv 1000,
      rtSkipNameVerification = (EqualFold (plUnicode e) (trim_space (drSource req)) (trim_space label)
         \<or> HasCustomMatching (lxManifest ext))\<rparr>"

definition indexDownload :: "('f, 'w, 'd) pipeline \<Rightarrow> download_request \<Rightarrow> 'f download_response \<Rightarrow> bool \<Rightarrow> 'w \<Rightarrow> 'w" where
  "indexDownload e req built alreadyExists w =
     (let isrc = (if trim_space (rsISRC built) = '''' then trim_space (drISRC req) else trim_space (rsISRC built))
      in if \<not> alreadyExists \<and> \<not> isFDOutput (drOutputFD req) \<and> trim_space (drOutputDir req) \<noteq> '''' \<and> isrc \<noteq> ''''
            \<and> trim_space (rsFilePath built) \<noteq> ''''
         then plIndexISRC e (drOutputDir req) isrc (rsFilePath built) w else w)"

definition finishDownload ::
  "('f, 'w, 'd) pipeline \<Rightarrow> download_request \<Rightarrow> 'f loaded_extension \<Rightarrow> string \<Rightarrow> bool \<Rightarrow> 'f ext_download_result \<Rightarrow> 'w \<Rightarrow> 'f attempt \<times> 'w" where
  "finishDownload e req0 ext label titleFallback result w0 =
     (let skip = emSkipMetadataEnrichment (lxManifest ext);
          (req, w1) = (if skip then (req0, w0) else plExtended e req0 w0);
          (normalized, alreadyExists) = normalizeExtensionDownloadResult (plUnicode e) (plQuality e w1) result;
          message = (if alreadyExists then ''File already exists'' else ''Downloaded from '' @ label);
          b1 = overlayExtensionDownloadMetadata (plUnicode e) result
                 (buildDownloadSuccessResponse (plHost e) req normalized label message (dnFilePath normalized) alreadyExists);
          b2 = (if skip then b1\<lparr>rsSkipMetadataEnrichment := True\<rparr> else b1);
          b3 = applyExtensionRequestFallbacks req b2;
          built = (if titleFallback then applyTitleFallback req b3 else b3);
          w2 = plEmbed e built req alreadyExists w1
      in (Answered built, itemProgress e req Completed (indexDownload e req built alreadyExists w2)))"

definition attemptExtensionDownload ::
  "('f, 'w, 'd) pipeline \<Rightarrow> download_request \<Rightarrow> 'f loaded_extension \<Rightarrow> string \<Rightarrow> string \<Rightarrow> string \<Rightarrow> bool \<Rightarrow> last_error \<Rightarrow> 'w \<Rightarrow>
     ('f attempt \<times> last_error) \<times> 'w" where
  "attemptExtensionDownload e req0 ext trackID quality label titleFallback la w0 =
     (let req = req0\<lparr>drDownloadProvider := trim_space label, drProviderTrackID := trim_space trackID\<rparr>;
          (outputPath, dir) = buildOutputPathForExtension (plHost e) req ext;
          w1 = (case dir of None \<Rightarrow> w0 | Some (create, d) \<Rightarrow> plAllowDir e create d w0)
      in if shouldReuseExistingOutput (plRegular e w1) req outputPath
         then (case keepExisting e req label outputPath w1 of (a, w2) \<Rightarrow> ((a, la), w2))
         else
           case plDownload e ext trackID quality outputPath (drItemID req) (itemProgress e req (Preparing ''resolving_stream'') w1) of
             (Inl err, w2) \<Rightarrow>
               if shouldAbortCancelledFallback e (drItemID req) (Some err) w2 then ((AttemptCancelled, la), w2)
               else ((AttemptFailed, la\<lparr>laErr := Some (errorText err), laType := ''''\<rparr>), w2)
           | (Inr None, w2) \<Rightarrow>
               if shouldAbortCancelledFallback e (drItemID req) None w2 then ((AttemptCancelled, la), w2)
               else ((AttemptFailed, la\<lparr>laErr := Some ''extension returned no download result'', laType := ''extension_error''\<rparr>), w2)
           | (Inr (Some result), w2) \<Rightarrow>
               if xrSuccess result then
                 (if \<not> trackMatchesRequest (plUnicode e) req (resolvedTrack e req ext label result) then
                    ((AttemptFailed, la\<lparr>laErr := Some (''provider '' @ label @ '' returned a different track''), laType := ''not_found''\<rparr>),
                     case discardRejectedExtensionOutput (plHost e) result outputPath of None \<Rightarrow> w2 | Some p \<Rightarrow> plRemove e p w2)
                  else
                    let w3 = itemProgress e req Finalizing w2
                    in if shouldAbortCancelledFallback e (drItemID req) None w3 then ((AttemptCancelled, la), w3)
                       else case finishDownload e req ext label titleFallback result w3 of (a, w4) \<Rightarrow> ((a, la), w4))
               else if shouldAbortCancelledFallback e (drItemID req) None w2 then ((AttemptCancelled, la), w2)
               else if xrErrorMessage result \<noteq> '''' then
                 ((AttemptFailed, \<lparr>laErr = Some (xrErrorMessage result),
                     laType = normalizeExtensionDownloadErrorType (plUnicode e) (xrErrorType result) (xrErrorMessage result),
                     laRetry = xrRetryAfterSeconds result\<rparr>), w2)
               else ((AttemptFailed, la), w2))"

section \<open>Answers\<close>

text \<open>How a download ends: with an answer, cancelled, or in a panic of the Go code.\<close>

datatype 'f fb_result = Responded "'f download_response" | DownloadCancelled | Panicked

definition shouldStopProviderFallback :: "ext_availability option \<Rightarrow> bool" where
  "shouldStopProviderFallback availability \<longleftrightarrow> (case availability of None \<Rightarrow> False | Some av \<Rightarrow> avSkipFallback av)"

definition resolveExtensionAvailabilityReason :: "ext_availability option \<Rightarrow> string option \<Rightarrow> string" where
  "resolveExtensionAvailabilityReason availability err =
     (let reason = (case availability of None \<Rightarrow> '''' | Some av \<Rightarrow> trim_space (avReason av))
      in if reason \<noteq> '''' then reason
         else case err of Some msg \<Rightarrow> msg | None \<Rightarrow> ''extension requested no further fallback'')"

definition buildExtensionFallbackStoppedResponse ::
  "unicode \<Rightarrow> string \<Rightarrow> ext_availability option \<Rightarrow> string option \<Rightarrow> 'f download_response" where
  "buildExtensionFallbackStoppedResponse uc providerID availability err =
     (let reason = resolveExtensionAvailabilityReason availability err; errorType = classifyDownloadErrorType uc reason
      in failedResponse (''Fallback stopped by '' @ providerID @ '': '' @ reason)
           (if errorType = ''unknown'' then ''extension_error'' else errorType) 0 providerID)"

definition buildOutputStorageFailureResponse :: "string \<Rightarrow> string \<Rightarrow> int \<Rightarrow> 'f download_response" where
  "buildOutputStorageFailureResponse providerID msg retryAfterSeconds =
     failedResponse (''Download failed: '' @ msg) ''permission'' retryAfterSeconds providerID"

definition verificationResponse :: "string \<Rightarrow> string \<Rightarrow> int \<Rightarrow> 'f download_response" where
  "verificationResponse providerID msg retryAfterSeconds =
     failedResponse (''Download failed: '' @ msg) ''verification_required'' retryAfterSeconds providerID"

text \<open>The type of the last error: the given one, or else what its message says.\<close>

definition effectiveType :: "('f, 'w, 'd) pipeline \<Rightarrow> last_error \<Rightarrow> string" where
  "effectiveType e la =
     (case laErr la of
        Some msg \<Rightarrow> if laType la = '''' then classifyDownloadErrorType (plUnicode e) msg else laType la
      | None \<Rightarrow> laType la)"

definition storageFailure :: "('f, 'w, 'd) pipeline \<Rightarrow> last_error \<Rightarrow> bool" where
  "storageFailure e la \<longleftrightarrow>
     (case laErr la of None \<Rightarrow> False | Some msg \<Rightarrow> isOutputStorageWriteFailure (plUnicode e) (effectiveType e la) msg)"

definition errorMessage :: "last_error \<Rightarrow> string" where
  "errorMessage la = (case laErr la of None \<Rightarrow> '''' | Some msg \<Rightarrow> msg)"

section \<open>Stages\<close>

text \<open>
  A stage ends the download, perhaps keeping a prepared request for the time after a
  verification, or lets it go on with a value.
\<close>

datatype ('f, 'a) stage = Ended "'f fb_result" "download_request option" | Going 'a

definition andThen :: "('w \<Rightarrow> ('f, 'a) stage \<times> 'w) \<Rightarrow> ('a \<Rightarrow> 'w \<Rightarrow> ('f, 'b) stage \<times> 'w) \<Rightarrow> 'w \<Rightarrow> ('f, 'b) stage \<times> 'w" where
  "andThen m k w = (case m w of (Ended r kept, w') \<Rightarrow> (Ended r kept, w') | (Going a, w') \<Rightarrow> k a w')"

text \<open>The retry of a verified provider before optional metadata (\<open>attemptVerifiedResumeBeforeMetadata\<close>).\<close>

definition resumeAttempt ::
  "('f, 'w, 'd) pipeline \<Rightarrow> download_request \<Rightarrow> string \<Rightarrow> 'f loaded_extension \<Rightarrow> string \<Rightarrow> 'w \<Rightarrow> ('f, unit) stage \<times> 'w" where
  "resumeAttempt e req selected ext trackID w =
     (case attemptExtensionDownload e req ext trackID (drQuality req) selected
             (EqualFold (plUnicode e) (trim_space (drSource req)) selected) noError w of
        ((Answered resp, _), w1) \<Rightarrow> (Ended (Responded resp) None, w1)
      | ((AttemptCancelled, _), w1) \<Rightarrow> (Ended DownloadCancelled None, w1)
      | ((AttemptFailed, la), w1) \<Rightarrow>
          if verificationRequired e (effectiveType e la) then
            (Ended (Responded (failedResponse
               (case laErr la of None \<Rightarrow> ''Verification required'' | Some msg \<Rightarrow> ''Download failed: '' @ msg)
               ''verification_required'' (laRetry la) selected)) None, w1)
          else if storageFailure e la then
            (Ended (Responded (buildOutputStorageFailureResponse selected (errorMessage la) (laRetry la))) None, w1)
          else (Going (), w1))"

definition attemptVerifiedResume ::
  "('f, 'w, 'd) pipeline \<Rightarrow> download_request \<Rightarrow> string \<Rightarrow> 'w \<Rightarrow> ('f, unit) stage \<times> 'w" where
  "attemptVerifiedResume e req selected0 w =
     (let selected = trim_space selected0; source = trim_space (drSource req); same = EqualFold (plUnicode e) source selected
      in if selected = '''' then (Going (), w)
         else if source \<noteq> '''' \<and> \<not> same \<and> usableProvider e source \<noteq> None then (Going (), w)
         else
           case usableProvider e selected of
             None \<Rightarrow> (Going (), w)
           | Some ext \<Rightarrow>
               if same then resumeAttempt e req selected ext (resolvePreferredTrackIDForExtension (plUnicode e) ext req '''') w
               else
                 case plCheck e ext req w of
                   (Inl err, w1) \<Rightarrow>
                     if shouldAbortCancelledFallback e (drItemID req) (Some err) w1 then (Ended DownloadCancelled None, w1)
                     else if verificationRequired e (classifyDownloadErrorType (plUnicode e) (errorText err))
                     then (Ended (Responded (verificationResponse selected (errorText err) 0)) None, w1)
                     else (Going (), w1)
                 | (Inr av, w1) \<Rightarrow>
                     if shouldAbortCancelledFallback e (drItemID req) None w1 then (Ended DownloadCancelled None, w1)
                     else if \<not> avAvailable av then
                       (if shouldStopProviderFallback (Some av)
                        then (Ended (Responded (buildExtensionFallbackStoppedResponse (plUnicode e) selected (Some av) None)) None, w1)
                        else (Going (), w1))
                     else resumeAttempt e req selected ext
                            (resolvePreferredTrackIDForExtension (plUnicode e) ext req (avTrackID av)) w1)"

text \<open>The provider that was chosen, and the priority with it in front.\<close>

definition choosePriority :: "('f, 'w, 'd) pipeline \<Rightarrow> download_request \<Rightarrow> string \<times> string list" where
  "choosePriority e req =
     (let service = trim_space (drService req); pr = prDownload (plPriorities e);
          selected = (if \<not> drUseFallback req \<and> service = '''' then trim_space (drSource req) else service)
      in (selected,
          if \<not> drUseFallback req then (if selected \<noteq> '''' then [selected] else pr)
          else if drService req \<noteq> '''' then drService req # filter (\<lambda>p. \<not> EqualFold (plUnicode e) p (drService req)) pr
          else pr))"

text \<open>A source that is not the chosen provider may claim the download for itself.\<close>

record lock =
  lkSelected :: string
  lkAvailability :: "ext_availability option"
  lkTrackID :: string

definition preflightSource ::
  "('f, 'w, 'd) pipeline \<Rightarrow> download_request \<Rightarrow> string \<Rightarrow> 'w \<Rightarrow> ('f, lock) stage \<times> 'w" where
  "preflightSource e req selected w =
     (let free = \<lparr>lkSelected = selected, lkAvailability = None, lkTrackID = ''''\<rparr>
      in if drSource req = '''' \<or> selected = drSource req then (Going free, w)
         else
           case usableProvider e (drSource req) of
             None \<Rightarrow> (Going free, w)
           | Some ext \<Rightarrow>
               (case plCheck e ext req w of
                  (Inl err, w1) \<Rightarrow>
                    if shouldAbortCancelledFallback e (drItemID req) (Some err) w1 then (Ended DownloadCancelled None, w1)
                    else (Going free, w1)
                | (Inr av, w1) \<Rightarrow>
                    if shouldAbortCancelledFallback e (drItemID req) None w1 then (Ended DownloadCancelled None, w1)
                    else if shouldStopProviderFallback (Some av)
                    then (Going \<lparr>lkSelected = drSource req, lkAvailability = Some av, lkTrackID = trim_space (avTrackID av)\<rparr>, w1)
                    else (Going free, w1)))"

definition enrichFromSource ::
  "('f, 'w, 'd) pipeline \<Rightarrow> download_request \<Rightarrow> 'w \<Rightarrow> ('f, download_request) stage \<times> 'w" where
  "enrichFromSource e req w =
     (case (if drSource req = '''' then None else GetExtension e (drSource req)) of
        None \<Rightarrow> (Going req, w)
      | Some ext \<Rightarrow>
          if \<not> (usable ext \<and> IsMetadataProvider (lxManifest ext)) then (Going req, w)
          else
            case plEnrich e ext (requestTrack req) (drItemID req) w of
              (Inl err, w1) \<Rightarrow>
                if shouldAbortCancelledFallback e (drItemID req) (Some err) w1 then (Ended DownloadCancelled None, w1)
                else (Going req, w1)
            | (Inr found, w1) \<Rightarrow>
                if shouldAbortCancelledFallback e (drItemID req) None w1 then (Ended DownloadCancelled None, w1)
                else (Going (case found of None \<Rightarrow> req | Some track \<Rightarrow> applyEnrichment track req), w1))"

definition searchMissing ::
  "('f, 'w, 'd) pipeline \<Rightarrow> download_request \<Rightarrow> 'w \<Rightarrow> ('f, download_request) stage \<times> 'w" where
  "searchMissing e req w =
     (if drSource req \<noteq> '''' \<and> drTrackName req \<noteq> '''' \<and> drArtistName req \<noteq> ''''
         \<and> (drAlbumName req = '''' \<or> drReleaseDate req = '''' \<or> drISRC req = '''') then
        (case plSearch e (drTrackName req @ '' '' @ drArtistName req) (drItemID req) w of
           (Inl err, w1) \<Rightarrow>
             if shouldAbortCancelledFallback e (drItemID req) (Some err) w1 then (Ended DownloadCancelled None, w1)
             else (Going req, w1)
         | (Inr tracks, w1) \<Rightarrow>
             if shouldAbortCancelledFallback e (drItemID req) None w1 then (Ended DownloadCancelled None, w1)
             else (Going (case tracks of [] \<Rightarrow> req | track # _ \<Rightarrow> applySearchMatch track req), w1))
      else (Going req, w))"

definition prepareMetadata ::
  "('f, 'w, 'd) pipeline \<Rightarrow> bool \<Rightarrow> download_request \<Rightarrow> 'w \<Rightarrow> ('f, download_request) stage \<times> 'w" where
  "prepareMetadata e metadataPrepared req =
     (if metadataPrepared then (\<lambda>w. (Going req, w)) else andThen (enrichFromSource e req) (searchMissing e))"

text \<open>The source first, when it is the chosen provider or has claimed the download.\<close>

definition sourceFailed ::
  "('f, 'w, 'd) pipeline \<Rightarrow> download_request \<Rightarrow> lock \<Rightarrow> 'f loaded_extension \<Rightarrow> last_error \<Rightarrow> ('f, last_error) stage" where
  "sourceFailed e req lk ext la =
     (if storageFailure e la
      then Ended (Responded (buildOutputStorageFailureResponse (drSource req) (errorMessage la) (laRetry la))) None
      else if verificationRequired e (effectiveType e la) then
        (case laErr la of
           None \<Rightarrow> Ended Panicked (Some req)
         | Some msg \<Rightarrow> Ended (Responded (verificationResponse (drSource req) msg 0)) (Some req))
      else if lkAvailability lk \<noteq> None
      then Ended (Responded (buildExtensionFallbackStoppedResponse (plUnicode e) (drSource req) (lkAvailability lk) (laErr la))) None
      else if StopsProviderFallback (lxManifest ext) then
        (case laErr la of
           None \<Rightarrow> Ended Panicked None
         | Some msg \<Rightarrow>
             Ended (Responded (failedResponse (''Download failed: '' @ msg) (firstNonEmptyTrimmed [laType la, ''extension_error''])
                (laRetry la) (drSource req))) None)
      else Going la)"

definition trySource ::
  "('f, 'w, 'd) pipeline \<Rightarrow> download_request \<Rightarrow> lock \<Rightarrow> 'w \<Rightarrow> ('f, last_error) stage \<times> 'w" where
  "trySource e req lk w =
     (if drSource req = '''' \<or> lkSelected lk \<noteq> drSource req then (Going noError, w)
      else if plCancelled e w (drItemID req) then (Ended DownloadCancelled None, w)
      else if lkAvailability lk \<noteq> None \<and> \<not> avAvailable (the (lkAvailability lk))
      then (Ended (Responded (buildExtensionFallbackStoppedResponse (plUnicode e) (drSource req) (lkAvailability lk) None)) None, w)
      else
        case usableProvider e (drSource req) of
          None \<Rightarrow> (Going noError, w)
        | Some ext \<Rightarrow>
            (case attemptExtensionDownload e req ext
                    (resolvePreferredTrackIDForExtension (plUnicode e) ext req (lkTrackID lk)) (drQuality req) (drSource req) True noError w of
               ((Answered resp, _), w1) \<Rightarrow> (Ended (Responded resp) None, w1)
             | ((AttemptCancelled, _), w1) \<Rightarrow> (Ended DownloadCancelled None, w1)
             | ((AttemptFailed, la), w1) \<Rightarrow> (sourceFailed e req lk ext la, w1)))"

section \<open>The order of the fallback\<close>

definition fallbackRuntimeHealthStatus :: "('f, 'w, 'd) pipeline \<Rightarrow> 'f loaded_extension \<Rightarrow> 'w \<Rightarrow> string \<times> 'w" where
  "fallbackRuntimeHealthStatus e ext w =
     (if emServiceHealth (lxManifest ext) = [] then (''unknown'', w)
      else
        case plHealth e ext w of
          (status, w1) \<Rightarrow>
            let s = to_lower (ucLower (plUnicode e)) (trim_space status)
            in (if s \<in> {''online'', ''degraded'', ''offline''} then s else ''unknown'', w1))"

text \<open>The state of a provider's service; the chosen one and those that cannot be used have none.\<close>

definition healthOf :: "('f, 'w, 'd) pipeline \<Rightarrow> string \<Rightarrow> string \<Rightarrow> 'w \<Rightarrow> string \<times> 'w" where
  "healthOf e protectedProvider providerID w =
     (if EqualFold (plUnicode e) providerID protectedProvider \<or> \<not> isExtensionFallbackAllowed (plPriorities e) providerID
      then (''unknown'', w)
      else case usableProvider e providerID of
             None \<Rightarrow> (''unknown'', w)
           | Some ext \<Rightarrow> fallbackRuntimeHealthStatus e ext w)"

fun classifyHealth :: "('f, 'w, 'd) pipeline \<Rightarrow> string \<Rightarrow> string list \<Rightarrow> 'w \<Rightarrow> (string \<times> string) list \<times> 'w" where
  "classifyHealth e protectedProvider [] w = ([], w)"
| "classifyHealth e protectedProvider (raw # ids) w =
     (if trim_space raw = '''' then classifyHealth e protectedProvider ids w
      else case healthOf e protectedProvider (trim_space raw) w of
             (status, w1) \<Rightarrow> case classifyHealth e protectedProvider ids w1 of (cs, w2) \<Rightarrow> ((status, trim_space raw) # cs, w2))"

definition withStatus :: "string \<Rightarrow> (string \<times> string) list \<Rightarrow> string list" where
  "withStatus status cs = map snd (filter (\<lambda>(s, _). s = status) cs)"

definition prioritizeFallbackProvidersByHealth ::
  "('f, 'w, 'd) pipeline \<Rightarrow> string list \<Rightarrow> string \<Rightarrow> 'w \<Rightarrow> string list \<times> 'w" where
  "prioritizeFallbackProvidersByHealth e priority protectedProvider w =
     (case classifyHealth e protectedProvider priority w of
        (cs, w1) \<Rightarrow> (withStatus ''online'' cs @ withStatus ''degraded'' cs @ withStatus ''unknown'' cs, w1))"

definition moveProviderToFront :: "unicode \<Rightarrow> string list \<Rightarrow> string \<Rightarrow> string list" where
  "moveProviderToFront uc priority providerID =
     (let here = (\<lambda>candidate. EqualFold uc (trim_space candidate) (trim_space providerID));
          before = takeWhile (Not \<circ> here) priority; from = dropWhile (Not \<circ> here) priority
      in if trim_space providerID = '''' \<or> from = [] then priority else hd from # before @ tl from)"

definition orderProviders ::
  "('f, 'w, 'd) pipeline \<Rightarrow> download_request \<Rightarrow> string \<Rightarrow> string list \<Rightarrow> 'w \<Rightarrow> string list \<times> 'w" where
  "orderProviders e req selected priority w =
     (case prioritizeFallbackProvidersByHealth e priority (if trim_space selected = '''' then drSource req else selected) w of
        (ordered, w1) \<Rightarrow> (moveProviderToFront (plUnicode e) ordered selected, w1))"

section \<open>The fallback\<close>

text \<open>The quality that was asked for if the provider knows it, or else its first one.\<close>

definition fallbackQuality :: "unicode \<Rightarrow> 'f loaded_extension \<Rightarrow> string \<Rightarrow> string" where
  "fallbackQuality uc ext quality =
     (let requested = trim_space quality
      in case emQualityOptions (lxManifest ext) of
           [] \<Rightarrow> quality
         | opt # opts \<Rightarrow>
             if requested \<noteq> '''' \<and> list_ex (\<lambda>q. EqualFold uc (trim_space (qoID q)) requested) (opt # opts) then quality
             else if trim_space (qoID opt) \<noteq> '''' then trim_space (qoID opt) else quality)"

definition providerFailed ::
  "('f, 'w, 'd) pipeline \<Rightarrow> download_request \<Rightarrow> string \<Rightarrow> ext_availability \<Rightarrow> last_error \<Rightarrow>
     ('f, last_error \<times> download_request) stage" where
  "providerFailed e req providerID av la =
     (if storageFailure e la then Ended (Responded (buildOutputStorageFailureResponse providerID (errorMessage la) (laRetry la))) None
      else if laErr la \<noteq> None \<and> verificationRequired e (effectiveType e la)
      then Ended (Responded (verificationResponse providerID (errorMessage la) (laRetry la))) (Some req)
      else if avSkipFallback av
      then Ended (Responded (buildExtensionFallbackStoppedResponse (plUnicode e) providerID (Some av) (laErr la))) None
      else Going (la, req))"

definition tryAvailable ::
  "('f, 'w, 'd) pipeline \<Rightarrow> download_request \<Rightarrow> string \<Rightarrow> 'f loaded_extension \<Rightarrow> ext_availability \<Rightarrow> last_error \<Rightarrow> 'w \<Rightarrow>
     ('f, last_error \<times> download_request) stage \<times> 'w" where
  "tryAvailable e req0 providerID ext av la w =
     (let req = req0\<lparr>drOutputExt := ''''\<rparr>
      in case attemptExtensionDownload e req ext (avTrackID av) (fallbackQuality (plUnicode e) ext (drQuality req)) providerID False la w of
           ((Answered resp, _), w1) \<Rightarrow> (Ended (Responded resp) None, w1)
         | ((AttemptCancelled, _), w1) \<Rightarrow> (Ended DownloadCancelled None, w1)
         | ((AttemptFailed, la1), w1) \<Rightarrow> (providerFailed e req providerID av la1, w1))"

definition mayTry :: "('f, 'w, 'd) pipeline \<Rightarrow> download_request \<Rightarrow> string \<Rightarrow> string \<Rightarrow> bool" where
  "mayTry e req selected providerID \<longleftrightarrow>
     providerID \<noteq> '''' \<and> \<not> (providerID = drSource req \<and> drSource req \<noteq> selected)
     \<and> (providerID = selected \<or> isExtensionFallbackAllowed (plPriorities e) providerID)"

definition tryProvider ::
  "('f, 'w, 'd) pipeline \<Rightarrow> string \<Rightarrow> string \<Rightarrow> last_error \<times> download_request \<Rightarrow> 'w \<Rightarrow>
     ('f, last_error \<times> download_request) stage \<times> 'w" where
  "tryProvider e selected raw = (\<lambda>(la, req) w.
     let providerID = trim_space raw
     in if plCancelled e w (drItemID req) then (Ended DownloadCancelled None, w)
        else
          case (if mayTry e req selected providerID then usableProvider e providerID else None) of
            None \<Rightarrow> (Going (la, req), w)
          | Some ext \<Rightarrow>
              (case plCheck e ext req w of
                 (Inl err, w1) \<Rightarrow>
                   if shouldAbortCancelledFallback e (drItemID req) (Some err) w1 then (Ended DownloadCancelled None, w1)
                   else if verificationRequired e (classifyDownloadErrorType (plUnicode e) (errorText err))
                   then (Ended (Responded (verificationResponse providerID (errorText err) 0)) (Some req), w1)
                   else (Going (la\<lparr>laErr := Some (errorText err)\<rparr>, req), w1)
               | (Inr av, w1) \<Rightarrow>
                   if shouldAbortCancelledFallback e (drItemID req) None w1 then (Ended DownloadCancelled None, w1)
                   else if avAvailable av then tryAvailable e req providerID ext av la w1
                   else if avSkipFallback av
                   then (Ended (Responded (buildExtensionFallbackStoppedResponse (plUnicode e) providerID (Some av) None)) None, w1)
                   else (Going (la, req), w1)))"

fun tryProviders ::
  "('f, 'w, 'd) pipeline \<Rightarrow> string \<Rightarrow> string list \<Rightarrow> last_error \<times> download_request \<Rightarrow> 'w \<Rightarrow>
     ('f, last_error) stage \<times> 'w" where
  "tryProviders e selected [] s w = (Going (fst s), w)"
| "tryProviders e selected (raw # ids) s w = andThen (tryProvider e selected raw s) (tryProviders e selected ids) w"

definition allFailed :: "('f, 'w, 'd) pipeline \<Rightarrow> last_error \<Rightarrow> 'f download_response" where
  "allFailed e la =
     (case laErr la of
        None \<Rightarrow> failedResponse ''No extension download providers available'' ''not_found'' 0 ''''
      | Some msg \<Rightarrow>
          let errorType = firstNonEmptyTrimmed [laType la, classifyDownloadErrorType (plUnicode e) msg]
          in failedResponse (''All providers failed. Last error: '' @ msg)
               (if errorType = ''unknown'' then ''not_found'' else errorType) (laRetry la) '''')"

section \<open>The pipeline\<close>

definition runStages ::
  "('f, 'w, 'd) pipeline \<Rightarrow> bool \<Rightarrow> bool \<Rightarrow> download_request \<Rightarrow> 'w \<Rightarrow> ('f, last_error) stage \<times> 'w" where
  "runStages e metadataPrepared resumed req =
     (case choosePriority e req of
        (selected, priority) \<Rightarrow>
          andThen (if resumed \<and> \<not> metadataPrepared then attemptVerifiedResume e req selected else (\<lambda>w. (Going (), w))) (\<lambda>_ w0.
          andThen (preflightSource e req selected) (\<lambda>lk.
          andThen (prepareMetadata e metadataPrepared req) (\<lambda>req1.
          andThen (trySource e req1 lk) (\<lambda>la w1.
            case orderProviders e req1 (lkSelected lk) priority w1 of
              (ordered, w2) \<Rightarrow> tryProviders e (lkSelected lk) ordered (la, req1) w2)))
          (if resumed \<and> \<not> metadataPrepared then itemProgress e req (Preparing ''resolving_metadata'') w0 else w0)))"

definition DownloadWithExtensionFallback ::
  "('f, 'w, 'd) pipeline \<Rightarrow> download_request \<Rightarrow> (string, prepared_entry) gomap \<Rightarrow> 'w \<Rightarrow>
     'f fb_result \<times> (string, prepared_entry) gomap \<times> 'w" where
  "DownloadWithExtensionFallback e fresh prepared0 w0 =
     (let key = downloadPreparationKey (ucLower (plUnicode e)) fresh
      in case takePreparedDownloadRequest (plNow e w0) key fresh prepared0 of
           ((req, metadataPrepared, resumed), prepared) \<Rightarrow>
             let w1 = itemProgress e req (Preparing ''resolving_metadata'') (itemProgress e req Starting w0)
             in if plCancelled e w1 (drItemID req) then (DownloadCancelled, prepared, w1)
                else
                  case runStages e metadataPrepared resumed req w1 of
                    (Going la, w2) \<Rightarrow> (Responded (allFailed e la), prepared, w2)
                  | (Ended r None, w2) \<Rightarrow> (r, prepared, w2)
                  | (Ended r (Some paused), w2) \<Rightarrow> (r, cacheDownloadRequest (plNow e w2) key paused True prepared, w2))"

section \<open>Who is downloaded from\<close>

text \<open>A record of the downloads in the state of the surroundings: every other operation leaves it alone.\<close>

definition logged :: "('f, 'w, 'd) pipeline \<Rightarrow> ('w \<Rightarrow> 'f loaded_extension list) \<Rightarrow> bool" where
  "logged e dl \<longleftrightarrow>
     (\<forall>ext req w. dl (snd (plCheck e ext req w)) = dl w)
     \<and> (\<forall>ext t q p i w. dl (snd (plDownload e ext t q p i w)) = dl w @ [ext])
     \<and> (\<forall>ext t i w. dl (snd (plEnrich e ext t i w)) = dl w)
     \<and> (\<forall>q i w. dl (snd (plSearch e q i w)) = dl w)
     \<and> (\<forall>ext w. dl (snd (plHealth e ext w)) = dl w)
     \<and> (\<forall>req w. dl (snd (plExtended e req w)) = dl w)
     \<and> (\<forall>r req b w. dl (plEmbed e r req b w) = dl w)
     \<and> (\<forall>i p w. dl (plProgress e i p w) = dl w)
     \<and> (\<forall>c d w. dl (plAllowDir e c d w) = dl w)
     \<and> (\<forall>p w. dl (plRemove e p w) = dl w)
     \<and> (\<forall>d i p w. dl (plIndexISRC e d i p w) = dl w)"

text \<open>
  What a stage may do: it downloads from permitted providers only, and an answer of success names
  the provider of the last download, unless the file was there already.
\<close>

definition okStage ::
  "('f, 'w, 'd) pipeline \<Rightarrow> ('w \<Rightarrow> 'f loaded_extension list) \<Rightarrow> (string \<Rightarrow> bool) \<Rightarrow> ('a \<Rightarrow> bool) \<Rightarrow> 'w \<Rightarrow> ('f, 'a) stage \<times> 'w \<Rightarrow> bool" where
  "okStage e dl P G w res \<longleftrightarrow>
     (\<exists>xs. dl (snd res) = dl w @ xs \<and> (\<forall>ext \<in> set xs. \<exists>p. P p \<and> usableProvider e p = Some ext)
        \<and> (case fst res of
             Ended (Responded r) _ \<Rightarrow>
               \<not> rsSuccess r \<or> P (rsService r) \<and> (\<exists>ext. usableProvider e (rsService r) = Some ext
                 \<and> (rsAlreadyExists r \<or> xs \<noteq> [] \<and> last xs = ext))
           | Ended _ _ \<Rightarrow> True
           | Going a \<Rightarrow> G a))"

lemma okStage_andThen:
  assumes m: "okStage e dl P G w (m w)" and k: "\<And>a w1. G a \<Longrightarrow> okStage e dl P H w1 (k a w1)"
  shows "okStage e dl P H w (andThen m k w)"
proof -
  obtain st w1 where mw: "m w = (st, w1)" by fastforce
  show ?thesis
  proof (cases st)
    case (Ended r kept)
    then show ?thesis using m mw by (simp add: andThen_def okStage_def)
  next
    case (Going a)
    obtain xs where xs: "dl w1 = dl w @ xs" "\<forall>ext \<in> set xs. \<exists>p. P p \<and> usableProvider e p = Some ext" "G a"
      using m mw Going by (auto simp: okStage_def)
    obtain st2 w2 where kw: "k a w1 = (st2, w2)" by fastforce
    obtain ys where ys: "dl w2 = dl w1 @ ys" "\<forall>ext \<in> set ys. \<exists>p. P p \<and> usableProvider e p = Some ext"
      "case st2 of Ended (Responded r) _ \<Rightarrow> \<not> rsSuccess r \<or> P (rsService r) \<and> (\<exists>ext. usableProvider e (rsService r) = Some ext
           \<and> (rsAlreadyExists r \<or> ys \<noteq> [] \<and> last ys = ext)) | Ended _ _ \<Rightarrow> True | Going a \<Rightarrow> H a"
      using k [OF xs(3), of w1] kw by (auto simp: okStage_def)
    have "case st2 of Ended (Responded r) _ \<Rightarrow> \<not> rsSuccess r \<or> P (rsService r) \<and> (\<exists>ext. usableProvider e (rsService r) = Some ext
           \<and> (rsAlreadyExists r \<or> xs @ ys \<noteq> [] \<and> last (xs @ ys) = ext)) | Ended _ _ \<Rightarrow> True | Going a \<Rightarrow> H a"
      using ys(3) by (auto split: stage.splits fb_result.splits)
    moreover have "\<forall>ext \<in> set (xs @ ys). \<exists>p. P p \<and> usableProvider e p = Some ext" using xs(2) ys(2) by auto
    ultimately show ?thesis using Going mw kw xs(1) ys(1)
      unfolding andThen_def okStage_def by (intro exI [of _ "xs @ ys"]) simp
  qed
qed

text \<open>A stage that downloads nothing.\<close>

lemma okStage_still:
  assumes "dl (snd res) = dl w"
    and "case fst res of Ended (Responded r) _ \<Rightarrow> \<not> rsSuccess r | Ended _ _ \<Rightarrow> True | Going a \<Rightarrow> G a"
  shows "okStage e dl P G w res"
  unfolding okStage_def using assms by (intro exI [of _ "[]"]) (auto split: stage.splits fb_result.splits)

lemma okStage_mono: "okStage e dl P G w res \<Longrightarrow> (\<And>a. G a \<Longrightarrow> H a) \<Longrightarrow> okStage e dl P H w res"
  unfolding okStage_def by (elim exE) (rule exI, auto split: stage.splits fb_result.splits)

lemma failed_not_success [simp]: "\<not> rsSuccess (failedResponse a b c d)"
  by (simp add: failedResponse_def)

lemma answers_not_success [simp]:
  "\<not> rsSuccess (buildExtensionFallbackStoppedResponse uc p av err)" "\<not> rsSuccess (buildOutputStorageFailureResponse p msg n)"
  "\<not> rsSuccess (verificationResponse p msg n)" "\<not> rsSuccess (allFailed e la)"
  by (simp_all add: buildExtensionFallbackStoppedResponse_def buildOutputStorageFailureResponse_def verificationResponse_def
      allFailed_def Let_def split: option.splits)

lemma logged_ops:
  assumes "logged e dl"
  shows "dl (snd (plCheck e ext req w)) = dl w" "dl (snd (plDownload e ext t q p i w)) = dl w @ [ext]"
    "dl (snd (plEnrich e ext tr i w)) = dl w" "dl (snd (plSearch e q i w)) = dl w" "dl (snd (plHealth e ext w)) = dl w"
    "dl (snd (plExtended e req w)) = dl w" "dl (plEmbed e r req b w) = dl w" "dl (plProgress e i pr w) = dl w"
    "dl (plAllowDir e c d w) = dl w" "dl (plRemove e p w) = dl w" "dl (plIndexISRC e d i p w) = dl w"
    "dl (itemProgress e req pr w) = dl w" "dl (indexDownload e req r b w) = dl w"
  using assms by (simp_all add: logged_def itemProgress_def indexDownload_def Let_def)

lemma built_answer [simp]:
  "rsSuccess (buildDownloadSuccessResponse ho req res service msg path ex)"
  "rsService (buildDownloadSuccessResponse ho req res service msg path ex) = service"
  "rsAlreadyExists (buildDownloadSuccessResponse ho req res service msg path ex) = ex"
  by (simp_all add: buildDownloadSuccessResponse_def preferredReleaseMetadata_def)

lemma overlays_keep [simp]:
  "rsSuccess (overlayExtensionDownloadMetadata uc res r) = rsSuccess r" "rsService (overlayExtensionDownloadMetadata uc res r) = rsService r"
  "rsSuccess (applyExtensionRequestFallbacks req r) = rsSuccess r" "rsService (applyExtensionRequestFallbacks req r) = rsService r"
  "rsSuccess (applyTitleFallback req r) = rsSuccess r" "rsService (applyTitleFallback req r) = rsService r"
  by (simp_all add: overlayExtensionDownloadMetadata_def applyExtensionRequestFallbacks_def applyTitleFallback_def Let_def)

lemma finish_answer:
  assumes "logged e dl"
  shows "\<exists>r w'. finishDownload e req ext label tf result w = (Answered r, w') \<and> rsSuccess r \<and> rsService r = label \<and> dl w' = dl w"
proof -
  note ops = logged_ops [OF assms]
  define skip where "skip = emSkipMetadataEnrichment (lxManifest ext)"
  obtain req1 w1 where x: "(if skip then (req, w) else plExtended e req w) = (req1, w1)" by fastforce
  have w1: "dl w1 = dl w"
  proof (cases skip)
    case False
    then show ?thesis using x ops(6) [of req w] by (metis snd_conv)
  qed (use x in simp)
  obtain normalized alreadyExists where n: "normalizeExtensionDownloadResult (plUnicode e) (plQuality e w1) result = (normalized, alreadyExists)"
    by fastforce
  show ?thesis using w1 by (simp add: finishDownload_def skip_def [symmetric] x n ops Let_def)
qed

definition attemptOK ::
  "('w \<Rightarrow> 'f loaded_extension list) \<Rightarrow> 'f loaded_extension \<Rightarrow> string \<Rightarrow> 'w \<Rightarrow> ('f attempt \<times> last_error) \<times> 'w \<Rightarrow> bool" where
  "attemptOK dl ext label w res \<longleftrightarrow>
     (dl (snd res) = dl w \<or> dl (snd res) = dl w @ [ext])
     \<and> (case fst (fst res) of
          Answered r \<Rightarrow> rsSuccess r \<and> rsService r = label \<and> (rsAlreadyExists r \<or> dl (snd res) = dl w @ [ext])
        | _ \<Rightarrow> True)"

lemma attempt_ok:
  assumes "logged e dl"
  shows "attemptOK dl ext label w (attemptExtensionDownload e req0 ext trackID quality label tf la w)"
proof -
  note ops = logged_ops [OF assms]
  define req where "req = req0\<lparr>drDownloadProvider := trim_space label, drProviderTrackID := trim_space trackID\<rparr>"
  obtain outputPath dir where path: "buildOutputPathForExtension (plHost e) req ext = (outputPath, dir)" by fastforce
  define w1 where "w1 = (case dir of None \<Rightarrow> w | Some (create, d) \<Rightarrow> plAllowDir e create d w)"
  have w1: "dl w1 = dl w" by (auto simp: w1_def ops split: option.splits prod.splits)
  define call where "call = plDownload e ext trackID quality outputPath (drItemID req) (itemProgress e req (Preparing ''resolving_stream'') w1)"
  have call: "dl (snd call) = dl w @ [ext]" by (simp add: call_def ops w1)
  obtain got w2 where got: "call = (got, w2)" by fastforce
  have w2: "dl w2 = dl w @ [ext]" using call got by simp
  have fin: "attemptOK dl ext label w
      (case finishDownload e req ext label tf result (itemProgress e req Finalizing w2) of (a, w4) \<Rightarrow> ((a, la), w4))" for result
  proof -
    obtain r w' where "finishDownload e req ext label tf result (itemProgress e req Finalizing w2) = (Answered r, w')"
      "rsSuccess r" "rsService r = label" "dl w' = dl (itemProgress e req Finalizing w2)"
      using finish_answer [OF assms] by metis
    then show ?thesis by (simp add: attemptOK_def ops w2)
  qed
  have removed: "dl (case discardRejectedExtensionOutput (plHost e) result outputPath of None \<Rightarrow> w2 | Some p \<Rightarrow> plRemove e p w2) = dl w2"
    for result by (simp add: ops split: option.split)
  have unfold: "attemptExtensionDownload e req0 ext trackID quality label tf la w =
      (if shouldReuseExistingOutput (plRegular e w1) req outputPath
       then (case keepExisting e req label outputPath w1 of (a, w2) \<Rightarrow> ((a, la), w2))
       else
         case call of
           (Inl err, w2) \<Rightarrow>
             if shouldAbortCancelledFallback e (drItemID req) (Some err) w2 then ((AttemptCancelled, la), w2)
             else ((AttemptFailed, la\<lparr>laErr := Some (errorText err), laType := ''''\<rparr>), w2)
         | (Inr None, w2) \<Rightarrow>
             if shouldAbortCancelledFallback e (drItemID req) None w2 then ((AttemptCancelled, la), w2)
             else ((AttemptFailed, la\<lparr>laErr := Some ''extension returned no download result'', laType := ''extension_error''\<rparr>), w2)
         | (Inr (Some result), w2) \<Rightarrow>
             if xrSuccess result then
               (if \<not> trackMatchesRequest (plUnicode e) req (resolvedTrack e req ext label result) then
                  ((AttemptFailed, la\<lparr>laErr := Some (''provider '' @ label @ '' returned a different track''), laType := ''not_found''\<rparr>),
                   case discardRejectedExtensionOutput (plHost e) result outputPath of None \<Rightarrow> w2 | Some p \<Rightarrow> plRemove e p w2)
                else
                  let w3 = itemProgress e req Finalizing w2
                  in if shouldAbortCancelledFallback e (drItemID req) None w3 then ((AttemptCancelled, la), w3)
                     else case finishDownload e req ext label tf result w3 of (a, w4) \<Rightarrow> ((a, la), w4))
             else if shouldAbortCancelledFallback e (drItemID req) None w2 then ((AttemptCancelled, la), w2)
             else if xrErrorMessage result \<noteq> '''' then
               ((AttemptFailed, \<lparr>laErr = Some (xrErrorMessage result),
                   laType = normalizeExtensionDownloadErrorType (plUnicode e) (xrErrorType result) (xrErrorMessage result),
                   laRetry = xrRetryAfterSeconds result\<rparr>), w2)
             else ((AttemptFailed, la), w2))"
    by (simp only: attemptExtensionDownload_def Let_def req_def [symmetric] path w1_def [symmetric] call_def [symmetric] prod.case)
  show ?thesis
  proof (cases "shouldReuseExistingOutput (plRegular e w1) req outputPath")
    case True
    then show ?thesis by (simp add: unfold keepExisting_def attemptOK_def ops w1 Let_def)
  next
    case False
    show ?thesis
    proof (cases got)
      case (Inl err)
      then show ?thesis using False by (simp add: unfold got attemptOK_def w2)
    next
      case (Inr found)
      show ?thesis
      proof (cases found)
        case None
        then show ?thesis using False Inr by (simp add: unfold got attemptOK_def w2)
      next
        case (Some result)
        show ?thesis
        proof (cases "xrSuccess result \<and> trackMatchesRequest (plUnicode e) req (resolvedTrack e req ext label result)
            \<and> \<not> shouldAbortCancelledFallback e (drItemID req) None (itemProgress e req Finalizing w2)")
          case True
          then show ?thesis using False Inr Some fin [of result] by (simp add: unfold got Let_def)
        next
          case other: False
          then show ?thesis using False Inr Some by (auto simp: unfold got attemptOK_def w2 removed ops Let_def)
        qed
      qed
    qed
  qed
qed

text \<open>A stage without success.\<close>

definition quiet :: "('a \<Rightarrow> bool) \<Rightarrow> ('f, 'a) stage \<Rightarrow> bool" where
  "quiet G st \<longleftrightarrow> (case st of Ended (Responded r) _ \<Rightarrow> \<not> rsSuccess r | Ended _ _ \<Rightarrow> True | Going a \<Rightarrow> G a)"

lemma quiet_simps [simp]:
  "quiet G (Ended (Responded r) kept) \<longleftrightarrow> \<not> rsSuccess r" "quiet G (Ended DownloadCancelled kept)" "quiet G (Ended Panicked kept)"
  "quiet G (Going a) \<longleftrightarrow> G a"
  by (simp_all add: quiet_def)

lemma okStage_quiet: "dl w' = dl w \<Longrightarrow> quiet G st \<Longrightarrow> okStage e dl P G w (st, w')"
  by (rule okStage_still) (simp_all add: quiet_def)

definition attemptStage :: "'f attempt \<Rightarrow> ('f, 'a) stage \<Rightarrow> ('f, 'a) stage" where
  "attemptStage a st =
     (case a of Answered r \<Rightarrow> Ended (Responded r) None | AttemptCancelled \<Rightarrow> Ended DownloadCancelled None | AttemptFailed \<Rightarrow> st)"

lemma okStage_attempt:
  assumes a: "attemptOK dl ext label w ((a, la), w1)" and p: "P label" "usableProvider e label = Some ext"
    and failed: "quiet G st'"
  shows "okStage e dl P G w (attemptStage a st', w1)"
proof -
  define st where "st = attemptStage a st'"
  note st = st_def [unfolded attemptStage_def]
  have "okStage e dl P G w (st, w1)"
  proof -
  obtain xs where xs: "dl w1 = dl w @ xs" "xs = [] \<or> xs = [ext]"
    using a by (auto simp: attemptOK_def)
  have all: "\<forall>x \<in> set xs. \<exists>q. P q \<and> usableProvider e q = Some x" using xs(2) p by auto
  show ?thesis
  proof (cases a)
    case (Answered r)
    then have "rsSuccess r \<and> rsService r = label \<and> (rsAlreadyExists r \<or> xs \<noteq> [] \<and> last xs = ext)"
      using a xs by (auto simp: attemptOK_def)
    then show ?thesis using Answered st xs(1) all p unfolding okStage_def by (intro exI [of _ xs]) simp
  next
    case AttemptCancelled
    then show ?thesis using st xs(1) all unfolding okStage_def by (intro exI [of _ xs]) simp
  next
    case AttemptFailed
    then have "quiet G st" using st failed by simp
    then show ?thesis using xs(1) all unfolding okStage_def quiet_def
      by (intro exI [of _ xs]) (auto split: stage.splits fb_result.splits)
  qed
  qed
  then show ?thesis by (simp only: st_def)
qed

lemma resumeAttempt_ok:
  fixes e :: "('f, 'w, 'd) pipeline"
  assumes "logged e dl" "P selected" "usableProvider e selected = Some ext"
  shows "okStage e dl P (\<lambda>_. True) w (resumeAttempt e req selected ext trackID w)"
proof -
  obtain a la w1 where x: "attemptExtensionDownload e req ext trackID (drQuality req) selected
      (EqualFold (plUnicode e) (trim_space (drSource req)) selected) noError w = ((a, la), w1)" by (metis prod.collapse)
  have ok: "attemptOK dl ext selected w ((a, la), w1)" using attempt_ok [OF assms(1)] x by metis
  define st :: "('f, unit) stage" where "st = (if verificationRequired e (effectiveType e la) then
       Ended (Responded (failedResponse
         (case laErr la of None \<Rightarrow> ''Verification required'' | Some msg \<Rightarrow> ''Download failed: '' @ msg)
         ''verification_required'' (laRetry la) selected)) None
     else if storageFailure e la then Ended (Responded (buildOutputStorageFailureResponse selected (errorMessage la) (laRetry la))) None
     else Going ())"
  have "resumeAttempt e req selected ext trackID w =
      (attemptStage a st, w1)"
    by (cases a) (simp_all add: resumeAttempt_def x st_def attemptStage_def)
  moreover have "quiet (\<lambda>_. True) st" by (simp add: st_def)
  ultimately show ?thesis using okStage_attempt [where P = P and G = "\<lambda>_. True", OF ok assms(2,3)] by metis
qed

lemma resume_ok:
  fixes e :: "('f, 'w, 'd) pipeline"
  assumes "logged e dl" "P (trim_space selected)"
  shows "okStage e dl P (\<lambda>_. True) w (attemptVerifiedResume e req selected w)"
proof -
  note ops = logged_ops [OF assms(1)]
  define sel where "sel = trim_space selected"
  define known where "known = EqualFold (plUnicode e) (trim_space (drSource req)) sel"
  define blocked where "blocked \<longleftrightarrow> trim_space (drSource req) \<noteq> '''' \<and> \<not> known \<and> usableProvider e (trim_space (drSource req)) \<noteq> None"
  consider "sel = '''' \<or> blocked"
    | "\<not> (sel = '''' \<or> blocked)"
      "usableProvider e sel = None"
    | ext where "\<not> (sel = '''' \<or> blocked)"
      "usableProvider e sel = Some ext" by blast
  then show ?thesis
  proof cases
    case 1
    then show ?thesis unfolding attemptVerifiedResume_def Let_def sel_def [symmetric] known_def [symmetric] blocked_def [symmetric]
      by (auto intro!: okStage_quiet)
  next
    case 2
    then show ?thesis unfolding attemptVerifiedResume_def Let_def sel_def [symmetric] known_def [symmetric] blocked_def [symmetric]
      by (auto intro!: okStage_quiet)
  next
    case (3 ext)
    have P: "P sel" using assms(2) by (simp add: sel_def)
    note attempt = resumeAttempt_ok [OF assms(1), where P = P and selected = sel and ext = ext and req = req, OF P 3(2)]
    show ?thesis
    proof (cases known)
      case True
      then show ?thesis using 3 attempt unfolding attemptVerifiedResume_def Let_def sel_def [symmetric] known_def [symmetric] blocked_def [symmetric]
        by simp
    next
      case False
      obtain got w1 where got: "plCheck e ext req w = (got, w1)" by fastforce
      have w1: "dl w1 = dl w" using ops(1) [of ext req w] got by simp
      have shift: "okStage e dl P (\<lambda>_. True) w1 res \<Longrightarrow> okStage e dl P (\<lambda>_. True) w res" for res :: "('f, unit) stage \<times> 'w"
        by (simp add: okStage_def w1)
      define rest :: "('f, unit) stage \<times> 'w" where "rest = (case got of
          Inl err \<Rightarrow>
            if shouldAbortCancelledFallback e (drItemID req) (Some err) w1 then (Ended DownloadCancelled None, w1)
            else if verificationRequired e (classifyDownloadErrorType (plUnicode e) (errorText err))
            then (Ended (Responded (verificationResponse sel (errorText err) 0)) None, w1)
            else (Going (), w1)
        | Inr av \<Rightarrow>
            if shouldAbortCancelledFallback e (drItemID req) None w1 then (Ended DownloadCancelled None, w1)
            else if \<not> avAvailable av then
              (if shouldStopProviderFallback (Some av)
               then (Ended (Responded (buildExtensionFallbackStoppedResponse (plUnicode e) sel (Some av) None)) None, w1)
               else (Going (), w1))
            else resumeAttempt e req sel ext (resolvePreferredTrackIDForExtension (plUnicode e) ext req (avTrackID av)) w1)"
      have "attemptVerifiedResume e req selected w = rest"
        unfolding attemptVerifiedResume_def Let_def sel_def [symmetric] known_def [symmetric] blocked_def [symmetric] rest_def
        using 3 False by (simp add: got split: sum.split)
      moreover have "okStage e dl P (\<lambda>_. True) w1 rest"
        unfolding rest_def using attempt by (cases got) (auto intro!: okStage_quiet)
      ultimately show ?thesis using shift by metis
    qed
  qed
qed

lemma okStage_shift: "dl w1 = dl w \<Longrightarrow> okStage e dl P G w1 res \<Longrightarrow> okStage e dl P G w res"
  by (simp add: okStage_def)

lemma preflight_ok:
  assumes "logged e dl"
  shows "okStage e dl P (\<lambda>lk. lkSelected lk = selected \<or> lkSelected lk = drSource req) w (preflightSource e req selected w)"
proof (cases "drSource req = '''' \<or> selected = drSource req")
  case True
  then show ?thesis by (auto simp: preflightSource_def intro!: okStage_quiet)
next
  case False
  show ?thesis
  proof (cases "usableProvider e (drSource req)")
    case None
    then show ?thesis using False by (auto simp: preflightSource_def intro!: okStage_quiet)
  next
    case (Some ext)
    obtain got w1 where got: "plCheck e ext req w = (got, w1)" by fastforce
    have w1: "dl w1 = dl w" using logged_ops(1) [OF assms, of ext req w] got by simp
    show ?thesis using False Some w1
      by (cases got) (auto simp: preflightSource_def got Let_def intro!: okStage_quiet)
  qed
qed

lemma requests_keep [simp]:
  "drSource (applyEnrichment t req) = drSource req" "drSource (applySearchMatch t req) = drSource req"
  by (simp_all add: applyEnrichment_def applySearchMatch_def overlayExtensionReleaseMetadata_def)

lemma enrich_ok:
  assumes "logged e dl"
  shows "okStage e dl P (\<lambda>r. drSource r = drSource req) w (enrichFromSource e req w)"
proof (cases "if drSource req = '''' then None else GetExtension e (drSource req)")
  case None
  then show ?thesis by (auto simp: enrichFromSource_def intro!: okStage_quiet)
next
  case (Some ext)
  obtain got w1 where got: "plEnrich e ext (requestTrack req) (drItemID req) w = (got, w1)" by fastforce
  have w1: "dl w1 = dl w" using logged_ops(3) [OF assms, of ext "requestTrack req" "drItemID req" w] got by simp
  show ?thesis
  proof (cases "usable ext \<and> IsMetadataProvider (lxManifest ext)")
    case True
    then show ?thesis unfolding enrichFromSource_def Some using w1
      by (cases got) (auto simp: got intro!: okStage_quiet split: option.split)
  qed (auto simp: enrichFromSource_def Some intro!: okStage_quiet)
qed

lemma search_ok:
  assumes "logged e dl"
  shows "okStage e dl P (\<lambda>r. drSource r = drSource req) w (searchMissing e req w)"
proof -
  obtain got w1 where got: "plSearch e (drTrackName req @ '' '' @ drArtistName req) (drItemID req) w = (got, w1)" by fastforce
  have w1: "dl w1 = dl w" using logged_ops(4) [OF assms, of _ "drItemID req" w] got by (metis snd_conv)
  define missing where "missing \<longleftrightarrow> drSource req \<noteq> '''' \<and> drTrackName req \<noteq> '''' \<and> drArtistName req \<noteq> ''''
     \<and> (drAlbumName req = '''' \<or> drReleaseDate req = '''' \<or> drISRC req = '''')"
  show ?thesis unfolding searchMissing_def missing_def [symmetric] got prod.case
    using w1 by (cases got) (auto intro!: okStage_quiet split: list.split)
qed

lemma prepare_ok:
  assumes "logged e dl"
  shows "okStage e dl P (\<lambda>r. drSource r = drSource req) w (prepareMetadata e prepared req w)"
proof (cases prepared)
  case True
  then show ?thesis by (auto simp: prepareMetadata_def intro!: okStage_quiet)
next
  case False
  have "okStage e dl P (\<lambda>r. drSource r = drSource req) w1 (searchMissing e r w1)" if "drSource r = drSource req" for r w1
    using search_ok [OF assms, where req = r and P = P and w = w1] that by simp
  then have "okStage e dl P (\<lambda>r. drSource r = drSource req) w (andThen (enrichFromSource e req) (searchMissing e) w)"
    by (intro okStage_andThen [where m = "enrichFromSource e req" and G = "\<lambda>r. drSource r = drSource req"] enrich_ok [OF assms])
  then show ?thesis using False by (simp add: prepareMetadata_def)
qed

lemma sourceFailed_quiet: "quiet (\<lambda>_. True) (sourceFailed e req lk ext la)"
  by (auto simp: sourceFailed_def quiet_def split: option.split stage.split fb_result.split)

lemma trySource_ok:
  assumes "logged e dl" and "P (drSource req)"
  shows "okStage e dl P (\<lambda>_. True) w (trySource e req lk w)"
proof -
  define skip where "skip \<longleftrightarrow> drSource req = '''' \<or> lkSelected lk \<noteq> drSource req"
  define locked where "locked \<longleftrightarrow> lkAvailability lk \<noteq> None \<and> \<not> avAvailable (the (lkAvailability lk))"
  consider "skip \<or> plCancelled e w (drItemID req) \<or> locked \<or> usableProvider e (drSource req) = None"
    | ext where "\<not> (skip \<or> plCancelled e w (drItemID req) \<or> locked)" "usableProvider e (drSource req) = Some ext" by blast
  then show ?thesis
  proof cases
    case 1
    then show ?thesis unfolding trySource_def skip_def [symmetric] locked_def [symmetric]
      by (auto intro!: okStage_quiet)
  next
    case (2 ext)
    obtain a la w1 where x: "attemptExtensionDownload e req ext
        (resolvePreferredTrackIDForExtension (plUnicode e) ext req (lkTrackID lk)) (drQuality req) (drSource req) True noError w = ((a, la), w1)"
      by (metis prod.collapse)
    have ok: "attemptOK dl ext (drSource req) w ((a, la), w1)" using attempt_ok [OF assms(1)] x by metis
    have "trySource e req lk w = (attemptStage a (sourceFailed e req lk ext la), w1)"
      unfolding trySource_def skip_def [symmetric] locked_def [symmetric] using 2
      by (cases a) (simp_all add: x attemptStage_def)
    then show ?thesis using okStage_attempt [where P = P, OF ok assms(2) 2(2) sourceFailed_quiet] by simp
  qed
qed

lemma healthOf_dl:
  assumes "logged e dl"
  shows "dl (snd (healthOf e protectedProvider p w)) = dl w"
proof (cases "usableProvider e p")
  case (Some ext)
  obtain status w1 where h: "plHealth e ext w = (status, w1)" by fastforce
  then have "dl w1 = dl w" using logged_ops(5) [OF assms, of ext w] by simp
  then show ?thesis by (simp add: healthOf_def Some fallbackRuntimeHealthStatus_def h Let_def)
qed (simp add: healthOf_def)

lemma classifyHealth_dl:
  assumes "logged e dl"
  shows "classifyHealth e protectedProvider ids w = (cs, w1) \<Longrightarrow>
    dl w1 = dl w \<and> set (map snd cs) \<subseteq> set (map trim_space ids)"
proof (induction ids arbitrary: w cs w1)
  case (Cons raw ids)
  show ?case
  proof (cases "trim_space raw = ''''")
    case True
    then show ?thesis using Cons.prems Cons.IH [of w cs w1] by auto
  next
    case False
    obtain status w2 where h: "healthOf e protectedProvider (trim_space raw) w = (status, w2)" by fastforce
    obtain ds w3 where c: "classifyHealth e protectedProvider ids w2 = (ds, w3)" by fastforce
    have "dl w2 = dl w" using healthOf_dl [OF assms, of protectedProvider "trim_space raw" w] h by simp
    moreover have "cs = (status, trim_space raw) # ds" "w1 = w3" using Cons.prems False h c by simp_all
    ultimately show ?thesis using Cons.IH [OF c] by (simp add: subset_insertI2)
  qed
qed simp

lemma moveProvider_set: "set (moveProviderToFront uc ps p) = set ps"
proof -
  define here where "here = (\<lambda>candidate. EqualFold uc (trim_space candidate) (trim_space p))"
  show ?thesis
  proof (cases "dropWhile (Not \<circ> here) ps")
    case (Cons q qs)
    have "set ps = set (takeWhile (Not \<circ> here) ps @ dropWhile (Not \<circ> here) ps)" by simp
    then show ?thesis using Cons by (auto simp: moveProviderToFront_def here_def [symmetric] Let_def)
  qed (simp add: moveProviderToFront_def here_def [symmetric] Let_def)
qed

lemma orderProviders_dl:
  assumes "logged e dl" "orderProviders e req selected priority w = (ordered, w1)"
  shows "dl w1 = dl w \<and> set ordered \<subseteq> set (map trim_space priority)"
proof -
  define p where "p = (if trim_space selected = '''' then drSource req else selected)"
  obtain cs w2 where c: "classifyHealth e p priority w = (cs, w2)" by fastforce
  have o: "w1 = w2" "set ordered = set (withStatus ''online'' cs @ withStatus ''degraded'' cs @ withStatus ''unknown'' cs)"
    using assms(2) unfolding orderProviders_def p_def [symmetric] prioritizeFallbackProvidersByHealth_def c
    by (auto simp: moveProvider_set)
  have "set ordered \<subseteq> set (map snd cs)" unfolding o(2) by (auto simp: withStatus_def)
  then show ?thesis using classifyHealth_dl [OF assms(1) c] o(1) by auto
qed

lemma providerFailed_quiet: "quiet (\<lambda>(_, r). drSource r = drSource req) (providerFailed e req p av la)"
  by (auto simp: providerFailed_def)

lemma tryAvailable_ok:
  assumes "logged e dl" "P p" "usableProvider e p = Some ext"
  shows "okStage e dl P (\<lambda>(_, r). drSource r = drSource req) w (tryAvailable e req p ext av la w)"
proof -
  define req1 where "req1 = req\<lparr>drOutputExt := ''''\<rparr>"
  obtain a la1 w1 where x: "attemptExtensionDownload e req1 ext (avTrackID av) (fallbackQuality (plUnicode e) ext (drQuality req1)) p False la w
      = ((a, la1), w1)" by (metis prod.collapse)
  have ok: "attemptOK dl ext p w ((a, la1), w1)" using attempt_ok [OF assms(1)] x by metis
  have "tryAvailable e req p ext av la w = (attemptStage a (providerFailed e req1 p av la1), w1)"
    unfolding tryAvailable_def Let_def req1_def [symmetric] x by (cases a) (simp_all add: attemptStage_def)
  moreover have "drSource req1 = drSource req" by (simp add: req1_def)
  ultimately show ?thesis
    using okStage_attempt [where P = P, OF ok assms(2,3) providerFailed_quiet [of req1 e p av la1]] by simp
qed

lemma tryProvider_ok:
  assumes "logged e dl" and P: "mayTry e req selected (trim_space raw) \<Longrightarrow> P (trim_space raw)"
  shows "okStage e dl P (\<lambda>(_, r). drSource r = drSource req) w (tryProvider e selected raw (la, req) w)"
proof -
  define p where "p = trim_space raw"
  define target where "target = (if mayTry e req selected p then usableProvider e p else None)"
  consider "plCancelled e w (drItemID req) \<or> target = None" | ext where "\<not> plCancelled e w (drItemID req)" "target = Some ext" by blast
  then show ?thesis
  proof cases
    case 1
    then show ?thesis unfolding tryProvider_def Let_def prod.case p_def [symmetric] target_def [symmetric]
      by (auto intro!: okStage_quiet)
  next
    case (2 ext)
    then have use: "P p" "usableProvider e p = Some ext" using P by (auto simp: target_def p_def split: if_splits)
    obtain got w1 where got: "plCheck e ext req w = (got, w1)" by fastforce
    have w1: "dl w1 = dl w" using logged_ops(1) [OF assms(1), of ext req w] got by simp
    show ?thesis
    proof (rule okStage_shift [where dl = dl, OF w1], cases got)
      case (Inl err)
      then show "okStage e dl P (\<lambda>(_, r). drSource r = drSource req) w1 (tryProvider e selected raw (la, req) w)"
        unfolding tryProvider_def Let_def prod.case p_def [symmetric] target_def [symmetric] using 2
        by (auto simp: got intro!: okStage_quiet)
    next
      case (Inr av)
      then show "okStage e dl P (\<lambda>(_, r). drSource r = drSource req) w1 (tryProvider e selected raw (la, req) w)"
        unfolding tryProvider_def Let_def prod.case p_def [symmetric] target_def [symmetric]
        using 2 tryAvailable_ok [where P = P, OF assms(1) use]
        by (auto simp: got intro!: okStage_quiet)
    qed
  qed
qed

lemma tryProviders_ok:
  assumes "logged e dl" and "\<And>raw r. raw \<in> set ids \<Longrightarrow> drSource r = src \<Longrightarrow> mayTry e r selected (trim_space raw) \<Longrightarrow> P (trim_space raw)"
  shows "drSource (snd s) = src \<Longrightarrow> okStage e dl P (\<lambda>_. True) w (tryProviders e selected ids s w)"
  using assms(2)
proof (induction ids arbitrary: s w)
  case Nil
  then show ?case by (auto intro!: okStage_quiet)
next
  case (Cons raw ids)
  obtain la req where s: "s = (la, req)" by fastforce
  have req: "drSource req = src" using Cons.prems(1) s by simp
  have first: "okStage e dl P (\<lambda>(_, r). drSource r = drSource req) w (tryProvider e selected raw (la, req) w)"
    by (rule tryProvider_ok [OF assms(1)]) (use Cons.prems(2) req in auto)
  have rest: "okStage e dl P (\<lambda>_. True) w1 (tryProviders e selected ids x w1)"
    if "(\<lambda>(_, r). drSource r = drSource req) x" for x w1
    by (rule Cons.IH) (use Cons.prems that req in \<open>auto split: prod.splits\<close>)
  show ?case unfolding tryProviders.simps s
    by (rule okStage_andThen [where m = "tryProvider e selected raw (la, req)" and G = "\<lambda>(_, r). drSource r = drSource req", OF first rest])
qed

text \<open>Who may be downloaded from: the chosen provider, the source, and the providers of the priority that fallback allows.\<close>

definition permitted :: "('f, 'w, 'd) pipeline \<Rightarrow> download_request \<Rightarrow> string \<Rightarrow> bool" where
  "permitted e req p \<longleftrightarrow>
     p = fst (choosePriority e req) \<or> p = drSource req
     \<or> isExtensionFallbackAllowed (plPriorities e) p \<and> p \<in> set (map trim_space (snd (choosePriority e req)))"

lemma runStages_ok:
  assumes log: "logged e dl" and chosen: "trim_space (fst (choosePriority e req)) = fst (choosePriority e req)"
  shows "okStage e dl (permitted e req) (\<lambda>_. True) w (runStages e prepared resumed req w)"
proof -
  obtain selected priority where c: "choosePriority e req = (selected, priority)" by fastforce
  define retry where "retry \<longleftrightarrow> resumed \<and> \<not> prepared"
  have P: "permitted e req selected" "permitted e req (drSource req)" by (simp_all add: permitted_def c)
  define m where "m = (if retry then attemptVerifiedResume e req selected else (\<lambda>w. (Going (), w)))"
  have resume: "okStage e dl (permitted e req) (\<lambda>_. True) w (m w)"
    using resume_ok [OF log, where P = "permitted e req" and selected = selected] P(1) chosen c
    by (auto simp: m_def intro!: okStage_quiet)
  have loop: "okStage e dl (permitted e req) (\<lambda>_. True) w1
      (case orderProviders e r (lkSelected lk) priority w1 of
         (ordered, w2) \<Rightarrow> tryProviders e (lkSelected lk) ordered (la, r) w2)"
    if r: "drSource r = drSource req" and lk: "lkSelected lk = selected \<or> lkSelected lk = drSource req" for r lk la w1
  proof -
    obtain ordered w2 where o: "orderProviders e r (lkSelected lk) priority w1 = (ordered, w2)" by fastforce
    have w2: "dl w2 = dl w1" "set ordered \<subseteq> set (map trim_space priority)" using orderProviders_dl [OF log o] by auto
    have "okStage e dl (permitted e req) (\<lambda>_. True) w2 (tryProviders e (lkSelected lk) ordered (la, r) w2)"
    proof (rule tryProviders_ok [OF log, where src = "drSource req"])
      fix raw q assume "raw \<in> set ordered" "drSource q = drSource req" "mayTry e q (lkSelected lk) (trim_space raw)"
      then have "raw \<in> set (map trim_space priority)" "trim_space raw = lkSelected lk \<or> isExtensionFallbackAllowed (plPriorities e) (trim_space raw)"
        using w2(2) by (auto simp: mayTry_def)
      moreover have "trim_space raw = raw" using calculation(1) by auto
      ultimately show "permitted e req (trim_space raw)" using lk P by (auto simp: permitted_def c)
    qed (use r in simp)
    then show ?thesis using okStage_shift [where dl = dl, OF w2(1)] o by simp
  qed
  define source where "source = (\<lambda>lk r. andThen (trySource e r lk) (\<lambda>la w1. case orderProviders e r (lkSelected lk) priority w1 of
      (ordered, w2) \<Rightarrow> tryProviders e (lkSelected lk) ordered (la, r) w2))"
  define metadata where "metadata = (\<lambda>lk. andThen (prepareMetadata e prepared req) (source lk))"
  define main where "main = andThen (preflightSource e req selected) metadata"
  have source: "okStage e dl (permitted e req) (\<lambda>_. True) w1 (source lk r w1)"
    if r: "drSource r = drSource req" and lk: "lkSelected lk = selected \<or> lkSelected lk = drSource req" for lk r w1
    unfolding source_def
    by (rule okStage_andThen [where m = "trySource e r lk" and G = "\<lambda>_. True"], rule trySource_ok [OF log], use P(2) r in simp)
      (rule loop [OF r lk])
  have metadata: "okStage e dl (permitted e req) (\<lambda>_. True) w1 (metadata lk w1)"
    if lk: "lkSelected lk = selected \<or> lkSelected lk = drSource req" for lk w1
    unfolding metadata_def
    by (rule okStage_andThen [where m = "prepareMetadata e prepared req" and G = "\<lambda>r. drSource r = drSource req"],
        rule prepare_ok [OF log]) (rule source [OF _ lk])
  have main: "okStage e dl (permitted e req) (\<lambda>_. True) w1 (main w1)" for w1
    unfolding main_def
    by (rule okStage_andThen [where m = "preflightSource e req selected" and G = "\<lambda>lk. lkSelected lk = selected \<or> lkSelected lk = drSource req"],
        rule preflight_ok [OF log]) (rule metadata)
  have "okStage e dl (permitted e req) (\<lambda>_. True) w
      (andThen m (\<lambda>_ w0. main (if retry then itemProgress e req (Preparing ''resolving_metadata'') w0 else w0)) w)"
  proof (rule okStage_andThen [where m = m and G = "\<lambda>_. True", OF resume])
    fix w0
    have "dl (if retry then itemProgress e req (Preparing ''resolving_metadata'') w0 else w0) = dl w0"
      by (simp add: logged_ops [OF log])
    then show "okStage e dl (permitted e req) (\<lambda>_. True) w0
        (main (if retry then itemProgress e req (Preparing ''resolving_metadata'') w0 else w0))"
      by (rule okStage_shift [where dl = dl]) (rule main)
  qed
  then show ?thesis
    unfolding runStages_def c prod.case retry_def [symmetric] m_def [symmetric] main_def metadata_def source_def by simp
qed

section \<open>Properties\<close>

lemma taken_request:
  "takePreparedDownloadRequest now key fresh m = ((req, b, c), m') \<Longrightarrow>
    drService req = drService fresh \<and> drUseFallback req = drUseFallback fresh \<and> drSource req = drSource fresh"
  by (auto simp: takePreparedDownloadRequest_def mergePrepared_def Let_def split: if_splits option.splits)

lemma choosePriority_cong:
  "drService r = drService q \<Longrightarrow> drUseFallback r = drUseFallback q \<Longrightarrow> drSource r = drSource q \<Longrightarrow>
    choosePriority e r = choosePriority e q"
  by (simp add: choosePriority_def Let_def cong: if_cong)

lemma chosen_trimmed: "trim_space (fst (choosePriority e req)) = fst (choosePriority e req)"
  by (simp add: choosePriority_def Let_def)

text \<open>
  What the user allows, read off the request and the settings: the chosen service; the source of the
  track; and, with the fallback on or with neither of the two named, those providers of the priority
  list that the list of fallback providers has, or all when that list is not set.
\<close>

definition userAllows :: "priorities \<Rightarrow> download_request \<Rightarrow> string \<Rightarrow> bool" where
  "userAllows pr req p \<longleftrightarrow>
     p = trim_space (drService req) \<or> p = drSource req
     \<or> \<not> drUseFallback req \<and> trim_space (drService req) = '''' \<and> p = trim_space (drSource req)
     \<or> (drUseFallback req \<or> trim_space (drService req) = '''' \<and> trim_space (drSource req) = '''')
        \<and> p \<in> trim_space ` set (prDownload pr)
        \<and> (prFallback pr = None \<or> (\<exists>allowed. prFallback pr = Some allowed \<and> p \<in> set allowed))"

text \<open>An installed extension that may run as a provider of downloads.\<close>

definition runnable :: "('f, 'w, 'd) pipeline \<Rightarrow> string \<Rightarrow> 'f loaded_extension \<Rightarrow> bool" where
  "runnable e p ext \<longleftrightarrow> map_of (mgExtensions (plManager e)) p = Some ext \<and> lxEnabled ext \<and> lxError ext = ''''
     \<and> ''download_provider'' \<in> set (emTypes (lxManifest ext))"

lemma usableProvider_iff: "usableProvider e p = Some ext \<longleftrightarrow> runnable e p ext"
  by (auto simp: usableProvider_def GetExtension_def usable_def runnable_def IsDownloadProvider_def HasType_def
      ExtensionTypeDownloadProvider_def list_ex_iff split: option.splits)

lemma permitted_userAllows: "permitted e req p \<Longrightarrow> userAllows (plPriorities e) req p"
  by (auto simp: permitted_def choosePriority_def userAllows_def isExtensionFallbackAllowed_def Let_def
      split: if_splits option.splits)


text \<open>A surroundings with two providers, whose state is the log of the downloads.\<close>

definition exampleProvider :: "string \<Rightarrow> bool \<Rightarrow> unit loaded_extension" where
  "exampleProvider i stops =
     \<lparr>lxID = i, lxManifest = (exampleExtManifest ''1.0'')\<lparr>emName := i, emTypes := [''download_provider''], emStopProviderFallback := stops\<rparr>,
      lxVM = True, lxRuntime = True, lxInitialized = True, lxEnabled = True, lxError = '''', lxDataDir = ''/data'', lxSourceDir = ''/ext''\<rparr>"

definition exampleAnswer :: "bool \<Rightarrow> string \<Rightarrow> unit ext_download_result" where
  "exampleAnswer success msg =
     \<lparr>xrSuccess = success, xrFilePath = ''/music/a.flac'', xrAlreadyExists = False, xrBitDepth = 16, xrSampleRate = 44100,
      xrAudioCodec = ''flac'', xrDurationMS = 0, xrErrorMessage = msg, xrErrorType = '''', xrRetryAfterSeconds = 0, xrTitle = '''',
      xrArtist = '''', xrAlbum = '''', xrAlbumArtist = '''', xrTrackNumber = 0, xrDiscNumber = 0, xrTotalTracks = 0, xrTotalDiscs = 0,
      xrReleaseDate = '''', xrCoverURL = '''', xrISRC = '''', xrGenre = '''', xrLabel = '''', xrCopyright = '''', xrComposer = '''',
      xrComment = '''', xrExplicit = False, xrAlbumType = '''', xrUPC = '''', xrLyricsLRC = '''', xrDecryptionKey = '''',
      xrDecryption = None, xrActualExtension = '''', xrOutputExtension = '''', xrActualContainer = '''',
      xrRequiresContainerConversion = False\<rparr>"

definition examplePipeline :: "bool \<Rightarrow> string \<Rightarrow> (unit, unit loaded_extension list, unit) pipeline" where
  "examplePipeline stops msg =
     \<lparr>plCheck = (\<lambda>_ _ w. (Inr \<lparr>avAvailable = True, avReason = '''', avTrackID = ''7'', avSkipFallback = False\<rparr>, w)),
      plDownload = (\<lambda>ext _ _ _ _ w. (Inr (Some (exampleAnswer (lxID ext = ''bar'') msg)), w @ [ext])),
      plEnrich = (\<lambda>_ _ _ w. (Inr None, w)), plSearch = (\<lambda>_ _ w. (Inr [], w)), plHealth = (\<lambda>_ w. (''online'', w)),
      plExtended = (\<lambda>req w. (req, w)), plEmbed = (\<lambda>_ _ _ w. w), plProgress = (\<lambda>_ _ w. w), plAllowDir = (\<lambda>_ _ w. w),
      plRemove = (\<lambda>_ w. w), plIndexISRC = (\<lambda>_ _ _ w. w), plCancelled = (\<lambda>_ _. False), plRegular = (\<lambda>_ _. False),
      plQuality = (\<lambda>_ _. None), plNow = (\<lambda>_. 0),
      plHost = \<lparr>hoUnicode = asciiUnicode, hoTime = \<lparr>tlParse = (\<lambda>_ _. None), tlYear = (\<lambda>_. ()), tlFormat = (\<lambda>_ _. '''')\<rparr>,
                hoWalk = id, hoTempDir = ''/tmp'', hoCwd = ''/''\<rparr>,
      plManager = \<lparr>mgExtensions = [(''foo'', exampleProvider ''foo'' stops), (''bar'', exampleProvider ''bar'' False)],
                   mgExtensionsDir = ''/ext'', mgDataDir = ''/data''\<rparr>,
      plPriorities = \<lparr>prDownload = [''foo'', ''bar''], prFallback = Some [''bar''], prMetadata = []\<rparr>\<rparr>"

lemma examplePipeline_logged: "logged (examplePipeline stops msg) id"
  by (simp add: logged_def examplePipeline_def)

definition exampleDownload :: download_request where
  "exampleDownload = exampleRequest\<lparr>drService := ''foo'', drUseFallback := True, drOutputPath := ''/music/a.flac'', drItemID := '''',
     drTrackName := ''One'', drArtistName := ''Metallica''\<rparr>"

lemma example_fallback:
  "case DownloadWithExtensionFallback (examplePipeline False ''gone'') exampleDownload [] [] of
     (Responded a, _, w) \<Rightarrow> rsSuccess a \<and> rsService a = ''bar'' \<and> \<not> rsAlreadyExists a \<and> map lxID w = [''foo'', ''bar'']
   | _ \<Rightarrow> False"
  by code_simp


section \<open>The order\<close>

lemma healthOf_cases:
  assumes "fst (healthOf e protectedProvider p w) \<notin> {''online'', ''degraded'', ''unknown''}"
  shows "\<not> EqualFold (plUnicode e) p protectedProvider
    \<and> (\<exists>ext. usableProvider e p = Some ext \<and> fst (fallbackRuntimeHealthStatus e ext w) = ''offline'')"
proof -
  have status: "fst (fallbackRuntimeHealthStatus e ext w) \<in> {''online'', ''degraded'', ''offline'', ''unknown''}" for ext
    by (auto simp: fallbackRuntimeHealthStatus_def Let_def split: prod.split)
  show ?thesis using assms status by (auto simp: healthOf_def split: if_splits option.splits)
qed

lemma classifyHealth_all:
  assumes "classifyHealth e protectedProvider ids w = (cs, w1)"
  shows "map snd cs = filter (\<lambda>p. p \<noteq> '''') (map trim_space ids)
    \<and> list_all (\<lambda>(status, p). \<exists>w0. status = fst (healthOf e protectedProvider p w0)) cs"
  using assms
proof (induction ids arbitrary: w cs w1)
  case (Cons raw ids)
  show ?case
  proof (cases "trim_space raw = ''''")
    case False
    obtain status w2 where h: "healthOf e protectedProvider (trim_space raw) w = (status, w2)" by fastforce
    obtain ds w3 where c: "classifyHealth e protectedProvider ids w2 = (ds, w3)" by fastforce
    have "cs = (status, trim_space raw) # ds" using Cons.prems False h c by simp
    moreover have "status = fst (healthOf e protectedProvider (trim_space raw) w)" using h by simp
    ultimately show ?thesis using Cons.IH [OF c] False by auto
  qed (use Cons in auto)
qed simp

lemma in_withStatus: "(status, p) \<in> set cs \<Longrightarrow> p \<in> set (withStatus status cs)"
  by (force simp: withStatus_def)

lemma move_front:
  assumes "trim_space p \<noteq> ''''" "q \<in> set ps" "EqualFold uc (trim_space q) (trim_space p)"
  shows "\<exists>x xs. moveProviderToFront uc ps p = x # xs \<and> EqualFold uc (trim_space x) (trim_space p)"
proof -
  define here where "here = (\<lambda>candidate. EqualFold uc (trim_space candidate) (trim_space p))"
  obtain x xs where d: "dropWhile (Not \<circ> here) ps = x # xs"
    using assms(2,3) by (cases "dropWhile (Not \<circ> here) ps") (auto simp: dropWhile_eq_Nil_conv here_def)
  have "here x" using hd_dropWhile [of "Not \<circ> here" ps] d by simp
  then have x: "EqualFold uc (trim_space x) (trim_space p)" by (simp add: here_def)
  have "moveProviderToFront uc ps p = x # takeWhile (Not \<circ> here) ps @ xs"
    unfolding moveProviderToFront_def Let_def here_def [symmetric] d using assms(1) by simp
  with x show ?thesis by blast
qed

text \<open>
  C27: the provider that the user picked comes first, whatever the health of the services: with the
  chosen provider in the priority list it heads the order of the fallback, under the letter case of
  the list. The order holds only providers of the list, and it leaves one out only if that is not
  the chosen one and its service was just reported offline.
\<close>

theorem chosen_provider_first:
  assumes "trim_space selected = selected" "selected \<noteq> ''''" "selected \<in> set (map trim_space priority)"
    and "orderProviders e req selected priority w = (ordered, w')"
  shows "(\<exists>p rest. ordered = p # rest \<and> EqualFold (plUnicode e) p selected)
    \<and> set ordered \<subseteq> set (map trim_space priority) - {''''}
    \<and> (\<forall>p \<in> set (map trim_space priority). p \<noteq> '''' \<longrightarrow> p \<notin> set ordered \<longrightarrow>
         \<not> EqualFold (plUnicode e) p selected
         \<and> (\<exists>ext w0. usableProvider e p = Some ext \<and> fst (fallbackRuntimeHealthStatus e ext w0) = ''offline''))"
proof -
  obtain cs w2 where c: "classifyHealth e selected priority w = (cs, w2)" by fastforce
  note all = classifyHealth_all [OF c]
  define good where "good = withStatus ''online'' cs @ withStatus ''degraded'' cs @ withStatus ''unknown'' cs"
  have ord: "ordered = moveProviderToFront (plUnicode e) good selected"
    using assms(1,2,4) by (simp add: orderProviders_def prioritizeFallbackProvidersByHealth_def c good_def)
  have eq: "set ordered = set good" by (simp add: ord moveProvider_set)
  have snds: "set (map snd cs) = set (map trim_space priority) - {''''}" using all by auto
  have sub: "set good \<subseteq> set (map snd cs)" by (auto simp: good_def withStatus_def)
  have trimmed: "trim_space p = p" if "p \<in> set good" for p using that sub snds by auto
  have out: "\<not> EqualFold (plUnicode e) p selected
      \<and> (\<exists>ext w0. usableProvider e p = Some ext \<and> fst (fallbackRuntimeHealthStatus e ext w0) = ''offline'')"
    if p: "p \<in> set (map snd cs)" "p \<notin> set good" for p
  proof -
    from p(1) obtain status where s: "(status, p) \<in> set cs" by auto
    then obtain w0 where "status = fst (healthOf e selected p w0)" using all by (auto simp: list_all_iff)
    moreover have "status \<notin> {''online'', ''degraded'', ''unknown''}"
      using p(2) in_withStatus [OF s] unfolding good_def by auto
    ultimately show ?thesis using healthOf_cases [of e selected p w0] by auto
  qed
  have refl: "EqualFold (plUnicode e) selected selected" by (simp add: EqualFold_def)
  have listed: "p \<in> set (map snd cs)" if "p \<in> set (map trim_space priority)" "p \<noteq> ''''" for p
    unfolding snds using that by (simp only: Diff_iff singleton_iff simp_thms)
  have sel: "selected \<in> set good" using out [OF listed [OF assms(3,2)]] refl by blast
  have fold: "EqualFold (plUnicode e) (trim_space selected) (trim_space selected)" by (simp add: EqualFold_def)
  have ne: "trim_space selected \<noteq> ''''" using assms(1,2) by simp
  obtain p rest where front: "ordered = p # rest" "EqualFold (plUnicode e) (trim_space p) (trim_space selected)"
    using move_front [OF ne sel fold] ord by metis
  have "p \<in> set good" unfolding eq [symmetric] front(1) by simp
  then have first: "EqualFold (plUnicode e) p selected" using front(2) trimmed assms(1) by metis
  show ?thesis
  proof (intro conjI ballI impI)
    show "\<exists>p rest. ordered = p # rest \<and> EqualFold (plUnicode e) p selected" using front(1) first by blast
    show "set ordered \<subseteq> set (map trim_space priority) - {''''}" unfolding eq using sub unfolding snds .
    fix p assume p: "p \<in> set (map trim_space priority)" "p \<noteq> ''''" "p \<notin> set ordered"
    note res = out [OF listed [OF p(1,2)] p(3) [unfolded eq]]
    show "\<not> EqualFold (plUnicode e) p selected" by (rule conjunct1 [OF res])
    show "\<exists>ext w0. usableProvider e p = Some ext \<and> fst (fallbackRuntimeHealthStatus e ext w0) = ''offline''"
      by (rule conjunct2 [OF res])
  qed
qed

lemma chosen_provider_first_witness:
  "\<exists>rest w. orderProviders (examplePipeline False ''gone'') exampleDownload ''foo'' [''bar'', ''foo''] [] = (''foo'' # rest, w)
    \<and> set (''foo'' # rest) \<subseteq> {''bar'', ''foo''}"
proof -
  let ?e = "examplePipeline False ''gone''"
  obtain ordered w where o: "orderProviders ?e exampleDownload ''foo'' [''bar'', ''foo''] [] = (ordered, w)" by fastforce
  have t: "trim_space ''foo'' = ''foo''" "trim_space ''bar'' = ''bar''" by code_simp+
  have u: "plUnicode ?e = asciiUnicode" by (simp add: plUnicode_def examplePipeline_def)
  have ne: "''foo'' \<noteq> ''''" "''foo'' \<in> set (map trim_space [''bar'', ''foo''])" by (simp_all add: t)
  note first = chosen_provider_first [OF t(1) ne o, unfolded u]
  have b: "\<not> EqualFold asciiUnicode ''bar'' ''foo''" by code_simp
  from first have sub: "set ordered \<subseteq> {''bar'', ''foo''}" by (simp only: list.map t list.set) blast
  from first obtain p rest where p: "ordered = p # rest" "EqualFold asciiUnicode p ''foo''" by blast
  then have "p \<noteq> ''bar''" using b by metis
  moreover have "p \<in> {''bar'', ''foo''}" using sub p(1) by (metis list.set_intros(1) subset_iff)
  ultimately show ?thesis using p(1) sub o by auto
qed

section \<open>A provider that fails without a message\<close>

lemma silent_attempt:
  assumes "\<And>w p. \<not> plRegular e w p" "\<And>w i. \<not> plCancelled e w i"
    and "\<And>t q p i w. \<exists>res w1. plDownload e ext t q p i w = (Inr (Some res), w1) \<and> \<not> xrSuccess res \<and> xrErrorMessage res = []"
  shows "fst (attemptExtensionDownload e req ext t q label tf la w) = (AttemptFailed, la)"
proof -
  define req1 where "req1 = req\<lparr>drDownloadProvider := trim_space label, drProviderTrackID := trim_space t\<rparr>"
  obtain path dir where b: "buildOutputPathForExtension (plHost e) req1 ext = (path, dir)" by fastforce
  define w1 where "w1 = (case dir of None \<Rightarrow> w | Some (create, d) \<Rightarrow> plAllowDir e create d w)"
  have new: "\<not> shouldReuseExistingOutput (plRegular e w1) req1 path"
    using assms(1) by (simp add: shouldReuseExistingOutput_def Let_def)
  obtain res w2 where d: "plDownload e ext t q path (drItemID req1) (itemProgress e req1 (Preparing ''resolving_stream'') w1) = (Inr (Some res), w2)"
      "\<not> xrSuccess res" "xrErrorMessage res = []"
    using assms(3) by fastforce
  have going: "\<not> shouldAbortCancelledFallback e (drItemID req1) None w2"
    using assms(2) by (simp add: shouldAbortCancelledFallback_def)
  show ?thesis
    unfolding attemptExtensionDownload_def Let_def req1_def [symmetric] b prod.case w1_def [symmetric]
    using new d going by simp
qed

lemma evict_none: "evictPrepared n [] = []"
  by (subst evictPrepared.simps) simp



end
